(* ===== verification/Prelude.thy ===== *)
theory Prelude
  imports Main "HOL-Library.Word"
begin

text \<open>
  Shared vocabulary of the development: the C integer types of
  software/system/include/types.h, the physical memory, the outcome of a kernel
  operation, the constants of software/system/kernel/config.h, and the generic facts
  on loops, maps and words the component theories rely on.
\<close>

unbundle bit_operations_syntax

section \<open>Integer types and physical memory\<close>

type_synonym u8 = "8 word"
type_synonym u16 = "16 word"
type_synonym u32 = "32 word"

text \<open>
  A \<open>pid_t\<close> is a signed 16-bit integer; the code compares it with the negative
  markers \<open>PROC_PID_NONE\<close> and \<open>PROC_PID_ANY\<close>, so it is an \<open>int\<close> here.
\<close>

type_synonym pid = int

text \<open>Physical memory: one byte for each 32-bit address.\<close>

type_synonym ram = "u32 \<Rightarrow> u8"

named_theorems kunfold \<open>definitions of kernel operations, unfolded by their own proofs\<close>
named_theorems kframe \<open>what an operation leaves unchanged\<close>

section \<open>Outcome of an operation\<close>

text \<open>
  \<open>KPanic\<close>: the code calls \<open>k_panic\<close>. \<open>KFault\<close>: the code dereferences a null pointer or
  indexes a table out of its bounds. \<open>KHang\<close>: the code never leaves a loop.
\<close>

datatype 'a kres = KOk 'a | KPanic | KFault | KHang

fun kbind :: "'a kres \<Rightarrow> ('a \<Rightarrow> 'b kres) \<Rightarrow> 'b kres" where
  "kbind (KOk a) f = f a"
| "kbind KPanic f = KPanic"
| "kbind KFault f = KFault"
| "kbind KHang f = KHang"

lemma kbind_KOk_iff: "kbind m f = KOk b \<longleftrightarrow> (\<exists>a. m = KOk a \<and> f a = KOk b)"
  by (cases m) auto

lemma kbind_assoc: "kbind (kbind m f) g = kbind m (\<lambda>a. kbind (f a) g)"
  by (cases m) auto

lemma kbind_KOk [simp]: "kbind m KOk = m"
  by (cases m) auto

section \<open>Memory copy\<close>

text \<open>
  \<open>memcpy\<close> of kernel/libc/src/string.c: bytes are copied one at a time in increasing
  address order, so an overlapping copy behaves as the loop does.
\<close>

primrec memcpy :: "ram \<Rightarrow> u32 \<Rightarrow> u32 \<Rightarrow> nat \<Rightarrow> ram" where
  "memcpy r dst src 0 = r"
| "memcpy r dst src (Suc n) = memcpy (r(dst := r src)) (dst + 1) (src + 1) n"

text \<open>\<open>memcpy32\<close> copies \<open>n\<close> aligned 32-bit words, that is \<open>4 * n\<close> bytes.\<close>

primrec memcpy32 :: "ram \<Rightarrow> u32 \<Rightarrow> u32 \<Rightarrow> nat \<Rightarrow> ram" where
  "memcpy32 r dst src 0 = r"
| "memcpy32 r dst src (Suc n) =
     memcpy32 (r(dst := r src, dst + 1 := r (src + 1), dst + 2 := r (src + 2), dst + 3 := r (src + 3)))
       (dst + 4) (src + 4) n"

text \<open>A 32-bit store, most significant byte first (the m68k is big endian), and the load.\<close>

definition store32 :: "ram \<Rightarrow> u32 \<Rightarrow> u32 \<Rightarrow> ram" where
  "store32 r a v = r(a := ucast (drop_bit 24 v), a + 1 := ucast (drop_bit 16 v),
     a + 2 := ucast (drop_bit 8 v), a + 3 := ucast v)"

definition load32 :: "ram \<Rightarrow> u32 \<Rightarrow> u32" where
  "load32 r a = push_bit 24 (ucast (r a)) OR push_bit 16 (ucast (r (a + 1))) OR
     push_bit 8 (ucast (r (a + 2))) OR ucast (r (a + 3))"

definition load16 :: "ram \<Rightarrow> u32 \<Rightarrow> u16" where
  "load16 r a = push_bit 8 (ucast (r a)) OR ucast (r (a + 1))"

text \<open>The bytes of a region that starts at \<open>a\<close> and is \<open>n\<close> bytes long.\<close>

definition region :: "u32 \<Rightarrow> nat \<Rightarrow> u32 set" where
  "region a n = {a + of_nat i | i. i < n}"

lemma region_0 [simp]: "region a 0 = {}"
  by (simp add: region_def)

lemma region_Suc: "region a (Suc n) = insert a (region (a + 1) n)"
proof -
  have "x \<in> region a (Suc n) \<longleftrightarrow> x = a \<or> x \<in> region (a + 1) n" for x
  proof
    assume "x \<in> region a (Suc n)"
    then obtain i where i: "i < Suc n" "x = a + of_nat i" by (auto simp: region_def)
    then show "x = a \<or> x \<in> region (a + 1) n"
      by (cases i) (auto simp: region_def add.assoc intro!: exI [of _ "i - 1"])
  next
    assume "x = a \<or> x \<in> region (a + 1) n"
    then show "x \<in> region a (Suc n)"
    proof
      assume "x = a" then show ?thesis by (auto simp: region_def intro!: exI [of _ 0])
    next
      assume "x \<in> region (a + 1) n"
      then obtain i where "i < n" "x = a + 1 + of_nat i" by (auto simp: region_def)
      then show ?thesis by (auto simp: region_def add.assoc intro!: exI [of _ "Suc i"])
    qed
  qed
  then show ?thesis by blast
qed

lemma memcpy_outside: "a \<notin> region dst n \<Longrightarrow> memcpy r dst src n a = r a"
  by (induction n arbitrary: r dst src) (auto simp: region_Suc)

lemma memcpy_inside:
  assumes "k < n" and "\<And>i j. i < j \<Longrightarrow> j < n \<Longrightarrow> dst + of_nat i \<noteq> src + of_nat j"
    and "n \<le> 2 ^ 32"
  shows "memcpy r dst src n (dst + of_nat k) = r (src + of_nat k)"
  using assms
proof (induction n arbitrary: r dst src k)
  case 0
  then show ?case by simp
next
  case (Suc n)
  let ?r = "r(dst := r src)"
  show ?case
  proof (cases k)
    case 0
    have "dst \<notin> region (dst + 1) n"
    proof
      assume "dst \<in> region (dst + 1) n"
      then obtain i where i: "i < n" "dst = dst + 1 + of_nat i" by (auto simp: region_def)
      then have "of_nat (Suc i) = (0 :: u32)" by (simp add: add.assoc)
      then have "(2 ^ 32 :: nat) dvd Suc i" by (simp only: word_of_nat_eq_0_iff) simp
      then have "2 ^ 32 \<le> Suc i" by (rule dvd_imp_le) simp
      with i Suc.prems(3) show False by simp
    qed
    with 0 show ?thesis by (simp add: memcpy_outside)
  next
    case (Suc k')
    have "memcpy ?r (dst + 1) (src + 1) n (dst + 1 + of_nat k') = ?r (src + 1 + of_nat k')"
    proof (rule Suc.IH)
      show "k' < n" using Suc Suc.prems by simp
      show "n \<le> 2 ^ 32" using Suc.prems by simp
      fix i j assume "i < j" "j < n"
      then show "dst + 1 + of_nat i \<noteq> src + 1 + (of_nat j :: u32)"
        using Suc.prems(2) [of i j] by (auto simp: algebra_simps)
    qed
    moreover have "src + 1 + of_nat k' \<noteq> dst"
      using Suc.prems(2) [of 0 "Suc k'"] Suc Suc.prems(1) by (auto simp: algebra_simps)
    ultimately show ?thesis using Suc by (simp add: algebra_simps)
  qed
qed

lemma memcpy_disjoint:
  assumes "region dst n \<inter> region src n = {}" and "k < n" and "n \<le> 2 ^ 32"
  shows "memcpy r dst src n (dst + of_nat k) = r (src + of_nat k)"
proof (rule memcpy_inside [OF assms(2) _ assms(3)])
  fix i j assume "i < j" "j < n"
  then have "dst + of_nat i \<in> region dst n" "src + of_nat j \<in> region src n" by (auto simp: region_def)
  with assms(1) show "dst + of_nat i \<noteq> src + of_nat j" by auto
qed

lemma region_offset: "k < n \<Longrightarrow> a + of_nat k \<in> region a n"
  by (auto simp: region_def)

lemma region_sub: "m + k \<le> n \<Longrightarrow> region (a + of_nat k) m \<subseteq> region a n"
proof
  fix x assume "m + k \<le> n" "x \<in> region (a + of_nat k) m"
  then obtain i where "i < m" "x = a + of_nat k + of_nat i" by (auto simp: region_def)
  with \<open>m + k \<le> n\<close> show "x \<in> region a n"
    by (auto simp: region_def intro!: exI [of _ "k + i"])
qed

lemma region_4: "region a 4 = {a, a + 1, a + 2, a + 3}"
  by (simp add: numeral_eq_Suc region_Suc add.assoc)

lemma memcpy32_outside: "x \<notin> region dst (4 * n) \<Longrightarrow> memcpy32 r dst src n x = r x"
proof (induction n arbitrary: r dst src)
  case (Suc n)
  have "region (dst + of_nat 4) (4 * n) \<subseteq> region dst (4 * Suc n)" "region (dst + of_nat 0) 4 \<subseteq> region dst (4 * Suc n)"
    by (rule region_sub; simp)+
  then have "x \<notin> region (dst + 4) (4 * n)" "x \<notin> region dst 4" using Suc.prems by auto
  with Suc.IH [of "dst + 4"] show ?case by (simp add: region_4)
qed simp

lemma of_nat_add_inj:
  "dst + of_nat i = dst + of_nat j \<Longrightarrow> i < 2 ^ 32 \<Longrightarrow> j < 2 ^ 32 \<Longrightarrow> i = j" for dst :: u32
proof -
  assume e: "dst + of_nat i = dst + of_nat j" and l: "i < 2 ^ 32" "j < 2 ^ 32"
  from e have "unat (of_nat i :: u32) = unat (of_nat j :: u32)" by simp
  with l show "i = j" by (simp add: unat_of_nat)
qed

lemma memcpy32_disjoint:
  assumes "region dst (4 * n) \<inter> region src (4 * n) = {}" and "k < 4 * n" and "4 * n \<le> 2 ^ 32"
  shows "memcpy32 r dst src n (dst + of_nat k) = r (src + of_nat k)"
  using assms
proof (induction n arbitrary: r dst src k)
  case (Suc n)
  let ?r = "r(dst := r src, dst + 1 := r (src + 1), dst + 2 := r (src + 2), dst + 3 := r (src + 3))"
  have sub: "region (x + of_nat 4) (4 * n) \<subseteq> region x (4 * Suc n)" "region (x + of_nat 0) 4 \<subseteq> region x (4 * Suc n)" for x
    by (rule region_sub; simp)+
  show ?case
  proof (cases "k < 4")
    case True
    have "dst + of_nat k \<notin> region (dst + 4) (4 * n)"
    proof
      assume "dst + of_nat k \<in> region (dst + 4) (4 * n)"
      then obtain i where i: "i < 4 * n" "dst + of_nat k = dst + of_nat (4 + i)" by (auto simp: region_def add.assoc)
      from of_nat_add_inj [OF i(2)] True Suc.prems(3) i(1) show False by simp
    qed
    then have "memcpy32 r dst src (Suc n) (dst + of_nat k) = ?r (dst + of_nat k)" by (simp add: memcpy32_outside)
    moreover consider "k = 0" | "k = 1" | "k = 2" | "k = 3" using True by linarith
    then have "?r (dst + of_nat k) = r (src + of_nat k)" by cases simp_all
    ultimately show ?thesis by simp
  next
    case False
    define m where "m = k - 4"
    then have k: "k = 4 + m" "m < 4 * n" using False Suc.prems(2) by auto
    have d: "region (dst + 4) (4 * n) \<inter> region (src + 4) (4 * n) = {}" using Suc.prems(1) sub(1) by force
    have e: "dst + of_nat k = dst + 4 + of_nat m" "src + of_nat k = src + 4 + of_nat m" by (simp_all add: k(1) add.assoc)
    have "src + of_nat k \<in> region src (4 * Suc n)" by (rule region_offset) (use Suc.prems(2) in simp)
    then have "src + of_nat k \<notin> region dst 4" using Suc.prems(1) sub(2) [of dst] by auto
    then have "?r (src + of_nat k) = r (src + of_nat k)" by (simp add: region_4)
    moreover have "memcpy32 ?r (dst + 4) (src + 4) n (dst + 4 + of_nat m) = ?r (src + 4 + of_nat m)"
      by (rule Suc.IH [OF d k(2)]) (use Suc.prems(3) in simp)
    ultimately show ?thesis unfolding e by simp
  qed
qed simp


section \<open>Words read as natural numbers\<close>

lemma unat_drop_bit: "unat (drop_bit n (x :: 'a::len word)) = unat x div 2 ^ n"
  by (metis drop_bit_eq_div unat_drop_bit_eq)

lemma unat_push_bit:
  "unat (push_bit n (x :: 'a::len word)) = (unat x * 2 ^ n) mod 2 ^ LENGTH('a)"
  by (subst unsigned_push_bit_eq) (simp add: take_bit_eq_mod push_bit_eq_mult)

lemma unat_u32_less: "unat (x :: u32) < 2 ^ 32"
proof -
  have "unat x < 2 ^ LENGTH(32)" by (rule unsigned_less)
  then show ?thesis by simp
qed

lemma unat_minus_1_u32: "unat (- 1 :: u32) = 2 ^ 32 - 1"
  by (simp add: unsigned_minus_1_eq_mask mask_eq_exp_minus_1)

lemma unat_add_of_nat: "unat a + i < 2 ^ 32 \<Longrightarrow> unat (a + of_nat i) = unat a + i" for a :: u32
proof -
  assume s: "unat a + i < 2 ^ 32"
  then have "i < 2 ^ 32" by linarith
  with s show "unat (a + of_nat i) = unat a + i" by (simp add: unat_word_ariths unat_of_nat)
qed

lemma regions_apart:
  "unat a + n \<le> unat b \<Longrightarrow> unat b + m \<le> 2 ^ 32 \<Longrightarrow> region a n \<inter> region b m = {}"
proof (rule ccontr)
  assume le: "unat a + n \<le> unat b" "unat b + m \<le> 2 ^ 32" and "region a n \<inter> region b m \<noteq> {}"
  then obtain i j where ij: "i < n" "j < m" "a + of_nat i = b + of_nat j" by (auto simp: region_def)
  have "unat (a + of_nat i) = unat a + i" by (rule unat_add_of_nat) (use le ij unat_u32_less [of b] in linarith)
  moreover have "unat (b + of_nat j) = unat b + j" by (rule unat_add_of_nat) (use le ij in linarith)
  ultimately show False using ij le by simp
qed

end
