(* ===== verification/Mem.thy ===== *)
theory Mem
  imports Prelude
begin

text \<open>
  The memory manager, software/system/kernel/mem.c. Physical memory is cut into
  \<open>K_MEM_BLOCK_COUNT\<close> blocks of 4 KiB; \<open>_blk_sts\<close> records the pid that owns each block
  (0 or less: free). A process gets a naturally aligned run of blocks whose length is a
  power of two, because the MMU maps a process with a base and a mask.
\<close>

unbundle bit_operations_syntax

section \<open>State and constants\<close>

definition K_MEM_BLOCK_SIZE :: u32 where "K_MEM_BLOCK_SIZE = 4096"
definition K_MEM_BLOCK_SIZE_BITS :: nat where "K_MEM_BLOCK_SIZE_BITS = 12"
definition K_MEM_RSVD_BLOCKS :: nat where "K_MEM_RSVD_BLOCKS = 64"
definition K_MEM_BLOCK_COUNT :: nat where "K_MEM_BLOCK_COUNT = 512"

lemmas mem_consts = K_MEM_BLOCK_SIZE_def K_MEM_BLOCK_SIZE_BITS_def K_MEM_RSVD_BLOCKS_def
  K_MEM_BLOCK_COUNT_def

text \<open>\<open>struct b68k_mmu_regs_t\<close> of b68k.h.\<close>

record mmu_regs =
  base_lo :: u16
  base_hi :: u16
  mask_lo :: u16
  mask_hi :: u16

text \<open>
  The static data of mem.c, the memory itself and the MMU registers. Indices of
  \<open>blk_sts\<close> from \<open>K_MEM_BLOCK_COUNT\<close> on stand for whatever the linker puts after the
  table.
\<close>

record kmem =
  blk_sts :: "nat \<Rightarrow> pid"
  last_base :: u16
  last_msk :: u16
  ram :: ram
  mmu :: mmu_regs

definition mem_init :: "'a kmem_scheme \<Rightarrow> 'a kmem_scheme" where
  "mem_init s = s\<lparr>blk_sts := (\<lambda>i. if i < K_MEM_BLOCK_COUNT then 0 else blk_sts s i),
     last_base := 0, last_msk := 0\<rparr>"

section \<open>Number of blocks for a size\<close>

text \<open>The \<open>while (size)\<close> loop (the argument is called \<open>sz\<close> here); \<open>nblk\<close> is 16 bits wide and drops its top bit when shifted.\<close>

lemma unat_drop_bit_1_less: "x \<noteq> 0 \<Longrightarrow> unat (drop_bit (Suc 0) x) < unat (x :: u32)"
  by (simp add: unat_drop_bit unat_gt_0 flip: One_nat_def)

function mem_blocks_loop :: "u32 \<Rightarrow> u16 \<Rightarrow> u16" where
  "mem_blocks_loop sz nblk =
     (if sz \<noteq> 0 then mem_blocks_loop (drop_bit 1 sz) (push_bit 1 nblk) else nblk)"
  by pat_completeness auto
termination
  by (relation "measure (\<lambda>(sz, nblk). unat sz)") (auto simp: unat_drop_bit_1_less)

declare mem_blocks_loop.simps [simp del]

definition mem_blocks :: "u32 \<Rightarrow> u16" where
  "mem_blocks sz =
     (if sz \<noteq> 0 then mem_blocks_loop (drop_bit K_MEM_BLOCK_SIZE_BITS (sz - 1)) 1 else 1)"

section \<open>Allocation\<close>

text \<open>One candidate: every block of the run is free or already owned by \<open>pid\<close>.\<close>

definition realloc_fits :: "(nat \<Rightarrow> pid) \<Rightarrow> pid \<Rightarrow> nat \<Rightarrow> nat \<Rightarrow> bool" where
  "realloc_fits sts pid blk cnt \<longleftrightarrow>
     list_all (\<lambda>sblk. \<not> (sts sblk \<noteq> pid \<and> sts sblk > 0)) [blk..<blk + cnt]"

text \<open>
  The scan of \<open>mem_realloc\<close>: \<open>Some (Some blk)\<close> the run found, \<open>Some None\<close> no run,
  \<open>None\<close> the loop never ends. \<open>blk\<close> stays below 2^16, since it is below 512 when the count
  (at most 2^15) is added.
\<close>

partial_function (option) realloc_scan ::
    "(nat \<Rightarrow> pid) \<Rightarrow> pid \<Rightarrow> nat \<Rightarrow> nat \<Rightarrow> nat option option" where
  "realloc_scan sts pid cnt blk =
     (if blk < K_MEM_BLOCK_COUNT then
        if blk \<ge> K_MEM_RSVD_BLOCKS \<and> realloc_fits sts pid blk cnt then Some (Some blk)
        else realloc_scan sts pid cnt (blk + cnt)
      else Some None)"

declare realloc_scan.simps [code]

text \<open>The loops that write the table: \<open>cnt\<close> entries from \<open>sblk\<close> on get the value \<open>v\<close>.\<close>

definition set_blocks :: "(nat \<Rightarrow> pid) \<Rightarrow> nat \<Rightarrow> nat \<Rightarrow> pid \<Rightarrow> (nat \<Rightarrow> pid)" where
  "set_blocks sts sblk cnt v = fold (\<lambda>blk m. m(sblk + blk := v)) [0..<cnt] sts"

text \<open>First block of an address, kept in a 16-bit variable.\<close>

definition block_of :: "u32 \<Rightarrow> nat" where
  "block_of addr = unat (ucast (drop_bit K_MEM_BLOCK_SIZE_BITS addr) :: u16)"

definition mem_realloc ::
    "pid \<Rightarrow> u32 \<Rightarrow> u32 \<Rightarrow> u32 \<Rightarrow> 'a kmem_scheme \<Rightarrow> (u32 \<times> 'a kmem_scheme) kres" where
  "mem_realloc pid addr old_sz new_sz s =
     (let new_cnt = unat (mem_blocks new_sz) in
      case realloc_scan (blk_sts s) pid new_cnt 0 of
        None \<Rightarrow> KHang
      | Some None \<Rightarrow> KOk (0, s)
      | Some (Some blk) \<Rightarrow>
          let new_addr = push_bit K_MEM_BLOCK_SIZE_BITS (of_nat blk :: u32);
              s1 = (if addr \<noteq> 0 \<and> addr \<noteq> new_addr
                    then s\<lparr>ram := memcpy (ram s) new_addr addr (unat old_sz),
                           blk_sts := set_blocks (blk_sts s) (block_of addr) (unat (mem_blocks old_sz)) 0\<rparr>
                    else s)
          in KOk (new_addr, s1\<lparr>blk_sts := set_blocks (blk_sts s1) (block_of new_addr) new_cnt pid\<rparr>))"

definition mem_free :: "u32 \<Rightarrow> u32 \<Rightarrow> 'a kmem_scheme \<Rightarrow> 'a kmem_scheme" where
  "mem_free addr sz s =
     s\<lparr>blk_sts := set_blocks (blk_sts s) (block_of addr) (unat (mem_blocks sz)) 0\<rparr>"

section \<open>MMU set-up and statistics\<close>

function mmu_mask_loop :: "u32 \<Rightarrow> u16 \<Rightarrow> u16" where
  "mmu_mask_loop sz msk =
     (if sz \<noteq> 0 then mmu_mask_loop (drop_bit 1 sz) (push_bit 1 msk + 1) else msk)"
  by pat_completeness auto
termination
  by (relation "measure (\<lambda>(sz, msk). unat sz)") (auto simp: unat_drop_bit_1_less)

declare mmu_mask_loop.simps [simp del]

definition mem_setup_mmu :: "u32 \<Rightarrow> u32 \<Rightarrow> 'a kmem_scheme \<Rightarrow> 'a kmem_scheme" where
  "mem_setup_mmu addr sz s =
     (let base = drop_bit (K_MEM_BLOCK_SIZE_BITS - 8) addr;
          msk = mmu_mask_loop (drop_bit K_MEM_BLOCK_SIZE_BITS (sz - 1)) 0
      in s\<lparr>mmu := \<lparr>base_lo = ucast (base AND 0xff00), base_hi = ucast (drop_bit 8 base),
                   mask_lo = push_bit 8 msk, mask_hi = msk AND 0xff00\<rparr>\<rparr>)"

record memstat =
  bsize :: u16
  total :: u16
  reserved :: u16
  used :: u16

definition mem_stat :: "'a kmem_scheme \<Rightarrow> memstat" where
  "mem_stat s =
     \<lparr>bsize = ucast K_MEM_BLOCK_SIZE, total = of_nat K_MEM_BLOCK_COUNT,
      reserved = of_nat K_MEM_RSVD_BLOCKS,
      used = fold (\<lambda>blk u. if blk_sts s blk \<noteq> 0 then u + 1 else u)
               [K_MEM_RSVD_BLOCKS..<K_MEM_BLOCK_COUNT] 0\<rparr>"

section \<open>How many blocks a size takes\<close>

lemma mem_blocks_loop_push:
  "\<exists>k. mem_blocks_loop sz nblk = push_bit k nblk \<and> unat sz < 2 ^ k \<and> (0 < k \<longrightarrow> 2 ^ (k - 1) \<le> unat sz)"
proof (induction sz nblk rule: mem_blocks_loop.induct)
  case (1 sz nblk)
  show ?case
  proof (cases "sz = 0")
    case True
    then show ?thesis by (intro exI [of _ 0]) (simp add: mem_blocks_loop.simps)
  next
    case False
    with "1.IH" obtain k where
      k: "mem_blocks_loop (drop_bit 1 sz) (push_bit 1 nblk) = push_bit k (push_bit 1 nblk)"
        "unat sz div 2 < 2 ^ k" "0 < k \<longrightarrow> 2 ^ (k - 1) \<le> unat sz div 2"
      by (auto simp: unat_drop_bit)
    have "unat sz < 2 ^ Suc k" using k(2) by simp
    moreover have "2 ^ k \<le> unat sz"
    proof (cases k)
      case 0
      with False show ?thesis by (simp add: unat_gt_0 Suc_le_eq)
    next
      case (Suc j)
      with k(3) have "2 ^ j \<le> unat sz div 2" by simp
      with Suc show ?thesis by simp
    qed
    ultimately show ?thesis using False k(1)
      by (intro exI [of _ "Suc k"]) (simp add: mem_blocks_loop.simps [of sz nblk] )
  qed
qed

lemma mem_blocks_push:
  obtains k where "mem_blocks sz = push_bit k 1" "unat sz \<le> 4096 * 2 ^ k"
    "0 < k \<longrightarrow> 4096 * 2 ^ (k - 1) < unat sz"
proof (cases "sz = 0")
  case True
  then show thesis by (intro that [of 0]) (simp_all add: mem_blocks_def)
next
  case False
  then have pos: "0 < unat sz" by (simp add: unat_gt_0)
  have m1: "unat (sz - 1) = unat sz - 1"
    using pos by (simp add: unat_sub_if_size word_size)
  obtain k where k: "mem_blocks sz = push_bit k 1"
    "unat (drop_bit 12 (sz - 1)) < 2 ^ k" "0 < k \<longrightarrow> 2 ^ (k - 1) \<le> unat (drop_bit 12 (sz - 1))"
    using False mem_blocks_loop_push [of "drop_bit 12 (sz - 1)" 1]
    by (auto simp: mem_blocks_def mem_consts)
  have d: "unat (drop_bit 12 (sz - 1)) = (unat sz - 1) div 4096"
    by (simp add: unat_drop_bit m1)
  have "unat sz \<le> 4096 * 2 ^ k"
  proof -
    have "(unat sz - 1) div 4096 < 2 ^ k" using k(2) d by simp
    then have "unat sz - 1 < 2 ^ k * 4096" by (simp add: div_less_iff_less_mult)
    then show ?thesis by simp
  qed
  moreover have "0 < k \<longrightarrow> 4096 * 2 ^ (k - 1) < unat sz"
  proof
    assume "0 < k"
    with k(3) d have "2 ^ (k - 1) \<le> (unat sz - 1) div 4096" by simp
    then have "2 ^ (k - 1) * 4096 \<le> unat sz - 1" by (simp add: less_eq_div_iff_mult_less_eq)
    with pos show "4096 * 2 ^ (k - 1) < unat sz" by simp
  qed
  ultimately show thesis using k(1) that by blast
qed

lemma unat_power_16: "k < 16 \<Longrightarrow> unat (2 ^ k :: u16) = 2 ^ k"
  using power_strict_increasing [of k 16 "2 :: nat"] unat_push_bit [of k "1 :: u16"] by simp

lemma push_bit_1_16_0: "16 \<le> k \<Longrightarrow> push_bit k (1 :: u16) = 0"
  by (simp add: push_bit_eq_mult)

lemma mem_blocks_pow2:
  assumes "unat sz \<le> 2 ^ 27"
  obtains k where "k \<le> 15" "unat (mem_blocks sz) = 2 ^ k" "unat sz \<le> 4096 * 2 ^ k"
    "0 < k \<longrightarrow> 4096 * 2 ^ (k - 1) < unat sz"
proof -
  obtain k where k: "mem_blocks sz = push_bit k 1" "unat sz \<le> 4096 * 2 ^ k"
    "0 < k \<longrightarrow> 4096 * 2 ^ (k - 1) < unat sz" by (rule mem_blocks_push)
  have "k \<le> 15"
  proof (rule ccontr)
    assume "\<not> k \<le> 15"
    then have "(2 :: nat) ^ 15 \<le> 2 ^ (k - 1)" by (intro power_increasing) simp_all
    with k(3) assms \<open>\<not> k \<le> 15\<close> show False by simp
  qed
  then show thesis using k by (intro that [of k]) (simp_all add: unat_power_16)
qed

lemma mem_blocks_overflow:
  assumes "2 ^ 27 < unat sz"
  shows "mem_blocks sz = 0"
proof -
  obtain k where k: "mem_blocks sz = push_bit k 1" "unat sz \<le> 4096 * 2 ^ k"
    by (rule mem_blocks_push)
  have "16 \<le> k"
  proof (rule ccontr)
    assume "\<not> 16 \<le> k"
    then have "(2 :: nat) ^ k \<le> 2 ^ 15" by (intro power_increasing) simp_all
    with k(2) assms show False by simp
  qed
  with k(1) show ?thesis by (simp add: push_bit_1_16_0)
qed

section \<open>The table updates and the scan\<close>

lemma set_blocks_apply [simp]:
  "set_blocks sts b n v i = (if b \<le> i \<and> i < b + n then v else sts i)"
  unfolding set_blocks_def by (induction n) auto

lemma block_of_push: "b < 512 \<Longrightarrow> block_of (push_bit 12 (of_nat b)) = b"
  by (simp add: block_of_def K_MEM_BLOCK_SIZE_BITS_def unsigned_ucast_eq unat_drop_bit unat_push_bit
      unat_of_nat take_bit_eq_mod)

lemma push_12_eq_0: "b < 512 \<Longrightarrow> push_bit 12 (of_nat b :: u32) = 0 \<longleftrightarrow> b = 0"
  using block_of_push [of b] block_of_push [of 0] by auto

lemma realloc_fits_iff:
  "realloc_fits sts pid b n \<longleftrightarrow> (\<forall>i. b \<le> i \<and> i < b + n \<longrightarrow> sts i = pid \<or> sts i \<le> 0)"
  by (auto simp: realloc_fits_def list_all_iff)

lemma realloc_scan_zero: "realloc_scan sts pid 0 0 = None"
proof (rule ccontr)
  assume "realloc_scan sts pid 0 0 \<noteq> None"
  then obtain r where r: "realloc_scan sts pid 0 0 = Some r" by auto
  have "0 = (0 :: nat) \<longrightarrow> 0 = (0 :: nat) \<longrightarrow> False"
    by (rule realloc_scan.raw_induct [where P = "\<lambda>sts pid c b r. c = 0 \<longrightarrow> b = 0 \<longrightarrow> False", OF _ r])
      (auto simp: mem_consts split: if_splits)
  then show False by simp
qed

lemma realloc_scan_result:
  assumes "0 < cnt"
  shows "(\<exists>b. realloc_scan sts pid cnt blk = Some (Some b) \<and> blk \<le> b \<and> 64 \<le> b \<and> b < 512 \<and>
            cnt dvd b - blk \<and> realloc_fits sts pid b cnt \<and>
            (\<forall>b'. blk \<le> b' \<and> b' < b \<and> 64 \<le> b' \<and> cnt dvd b' - blk \<longrightarrow> \<not> realloc_fits sts pid b' cnt)) \<or>
         (realloc_scan sts pid cnt blk = Some None \<and>
            (\<forall>b'. blk \<le> b' \<and> b' < 512 \<and> 64 \<le> b' \<and> cnt dvd b' - blk \<longrightarrow> \<not> realloc_fits sts pid b' cnt))"
    (is "?found blk \<or> ?none blk")
proof (induction "512 - blk" arbitrary: blk rule: less_induct)
  case less
  have step: "realloc_scan sts pid cnt blk =
     (if blk < 512 then if 64 \<le> blk \<and> realloc_fits sts pid blk cnt then Some (Some blk)
        else realloc_scan sts pid cnt (blk + cnt) else Some None)"
    by (subst realloc_scan.simps) (simp add: mem_consts)
  have next_cand: "b' = blk \<or> (blk + cnt \<le> b' \<and> cnt dvd b' - (blk + cnt))"
    if "blk \<le> b'" "cnt dvd b' - blk" for b'
  proof (cases "b' = blk")
    case False
    from that(2) obtain m where m: "b' - blk = cnt * m" by (rule dvdE)
    with False that(1) obtain j where "m = Suc j" by (cases m) auto
    with m that(1) have "b' = blk + cnt + cnt * j" by simp
    then show ?thesis by simp
  qed simp
  consider "\<not> blk < 512" | "blk < 512" "64 \<le> blk \<and> realloc_fits sts pid blk cnt"
    | "blk < 512" "\<not> (64 \<le> blk \<and> realloc_fits sts pid blk cnt)" by blast
  then show ?case
  proof cases
    case 1
    then show ?thesis using step by auto
  next
    case 2
    then show ?thesis using step by (intro disjI1 exI [of _ blk]) auto
  next
    case 3
    with step have eq: "realloc_scan sts pid cnt blk = realloc_scan sts pid cnt (blk + cnt)" by simp
    have "?found (blk + cnt) \<or> ?none (blk + cnt)"
      by (rule less) (use 3 assms in simp)
    then show ?thesis
    proof
      assume "?found (blk + cnt)"
      then obtain b where b: "realloc_scan sts pid cnt (blk + cnt) = Some (Some b)"
        "blk + cnt \<le> b" "64 \<le> b" "b < 512" "cnt dvd b - (blk + cnt)" "realloc_fits sts pid b cnt"
        "\<forall>b'. blk + cnt \<le> b' \<and> b' < b \<and> 64 \<le> b' \<and> cnt dvd b' - (blk + cnt) \<longrightarrow>
           \<not> realloc_fits sts pid b' cnt" by blast
      have "b - blk = (b - (blk + cnt)) + cnt" using b(2) by simp
      then have "cnt dvd b - blk" using b(5) by (metis dvd_add dvd_refl)
      moreover have "\<forall>b'. blk \<le> b' \<and> b' < b \<and> 64 \<le> b' \<and> cnt dvd b' - blk \<longrightarrow>
           \<not> realloc_fits sts pid b' cnt"
        using b(7) 3(2) next_cand by blast
      ultimately show ?thesis using b(1-6) eq by (intro disjI1 exI [of _ b]) auto
    next
      assume "?none (blk + cnt)"
      then show ?thesis using eq 3(2) next_cand by (intro disjI2) auto
    qed
  qed
qed

lemma realloc_scan_first:
  assumes "0 < cnt" and "64 \<le> b" and "b < 512" and "cnt dvd b" and "realloc_fits sts pid b cnt"
    and "\<And>b'. 64 \<le> b' \<Longrightarrow> b' < b \<Longrightarrow> cnt dvd b' \<Longrightarrow> \<not> realloc_fits sts pid b' cnt"
  shows "realloc_scan sts pid cnt 0 = Some (Some b)"
  using realloc_scan_result [OF assms(1), of sts pid 0] assms(2-6)
  by (elim disjE exE conjE) (metis diff_zero not_less_iff_gr_or_eq zero_le)+

section \<open>Regions\<close>

text \<open>The blocks a region of \<open>n\<close> bytes at \<open>a\<close> takes.\<close>

definition extent :: "u32 \<Rightarrow> u32 \<Rightarrow> nat set" where
  "extent a n = {block_of a..<block_of a + unat (mem_blocks n)}"

text \<open>A region as the allocator hands it out, owned by \<open>p\<close>.\<close>

definition region_ok :: "'a kmem_scheme \<Rightarrow> pid \<Rightarrow> u32 \<Rightarrow> u32 \<Rightarrow> bool" where
  "region_ok s p a n \<longleftrightarrow>
     (\<exists>b. a = push_bit 12 (of_nat b) \<and> 64 \<le> b \<and> b + unat (mem_blocks n) \<le> 512 \<and>
        unat (mem_blocks n) dvd b \<and> unat n \<le> 2 ^ 27 \<and>
        (\<forall>i. b \<le> i \<and> i < b + unat (mem_blocks n) \<longrightarrow> blk_sts s i = p))"

lemma mem_blocks_pos: "unat n \<le> 2 ^ 27 \<Longrightarrow> 0 < unat (mem_blocks n)"
  by (metis mem_blocks_pow2 zero_less_numeral zero_less_power)

lemma region_okE:
  assumes "region_ok s p a n"
  obtains b k where "a = push_bit 12 (of_nat b)" "64 \<le> b" "b + 2 ^ k \<le> 512" "2 ^ k dvd b"
    "unat (mem_blocks n) = 2 ^ k" "unat n \<le> 4096 * 2 ^ k" "k \<le> 15"
    "\<And>i. b \<le> i \<Longrightarrow> i < b + 2 ^ k \<Longrightarrow> blk_sts s i = p" "block_of a = b"
proof -
  obtain b where b: "a = push_bit 12 (of_nat b)" "64 \<le> b" "b + unat (mem_blocks n) \<le> 512"
    "unat (mem_blocks n) dvd b" "unat n \<le> 2 ^ 27"
    "\<forall>i. b \<le> i \<and> i < b + unat (mem_blocks n) \<longrightarrow> blk_sts s i = p"
    using assms by (auto simp: region_ok_def)
  obtain k where k: "k \<le> 15" "unat (mem_blocks n) = 2 ^ k" "unat n \<le> 4096 * 2 ^ k"
    using b(5) by (rule mem_blocks_pow2)
  have "b < 512" using b(3) k(2) by (metis order_less_le_trans zero_less_numeral zero_less_power
      less_add_same_cancel1)
  then show thesis using b k block_of_push [of b] by (intro that [of b k]) auto
qed

lemma region_ok_extent: "region_ok s p a n \<Longrightarrow> i \<in> extent a n \<Longrightarrow> blk_sts s i = p"
  by (erule region_okE) (auto simp: extent_def)

lemma dvd_512_bound:
  assumes "(2 :: nat) ^ k dvd b" "b < 512" "0 < b"
  shows "b + 2 ^ k \<le> 512"
proof -
  have "(2 :: nat) ^ k \<le> b" using assms by (intro dvd_imp_le) auto
  with assms have "(2 :: nat) ^ k < 2 ^ 9" by simp
  then have "k < 9" by (simp only: power_strict_increasing_iff)
  then have "(2 :: nat) ^ k dvd 2 ^ 9" by (intro le_imp_power_dvd) simp
  with assms(1) have "2 ^ k dvd 512 - b" by (intro dvd_diff_nat) simp_all
  then have "2 ^ k \<le> 512 - b" using assms(2) by (intro dvd_imp_le) auto
  with assms(2) show ?thesis by simp
qed

section \<open>What mem_realloc does\<close>

lemma mem_realloc_cases:
  assumes "unat nsz \<le> 2 ^ 27"
  shows "(mem_realloc p addr osz nsz s = KOk (0, s) \<and>
           (\<forall>b. 64 \<le> b \<and> b < 512 \<and> unat (mem_blocks nsz) dvd b \<longrightarrow>
              \<not> realloc_fits (blk_sts s) p b (unat (mem_blocks nsz)))) \<or>
         (\<exists>b s1. mem_realloc p addr osz nsz s =
              KOk (push_bit 12 (of_nat b),
                   s1\<lparr>blk_sts := set_blocks (blk_sts s1) b (unat (mem_blocks nsz)) p\<rparr>) \<and>
            s1 = (if addr \<noteq> 0 \<and> addr \<noteq> push_bit 12 (of_nat b)
                  then s\<lparr>ram := memcpy (ram s) (push_bit 12 (of_nat b)) addr (unat osz),
                         blk_sts := set_blocks (blk_sts s) (block_of addr) (unat (mem_blocks osz)) 0\<rparr>
                  else s) \<and>
            64 \<le> b \<and> b + unat (mem_blocks nsz) \<le> 512 \<and> unat (mem_blocks nsz) dvd b \<and>
            realloc_fits (blk_sts s) p b (unat (mem_blocks nsz)) \<and>
            (\<forall>b'. 64 \<le> b' \<and> b' < b \<and> unat (mem_blocks nsz) dvd b' \<longrightarrow>
              \<not> realloc_fits (blk_sts s) p b' (unat (mem_blocks nsz))))"
proof -
  let ?c = "unat (mem_blocks nsz)"
  obtain k where k: "?c = 2 ^ k" using assms by (rule mem_blocks_pow2)
  from realloc_scan_result [OF mem_blocks_pos [OF assms], of "blk_sts s" p 0] show ?thesis
  proof (elim disjE exE conjE)
    fix b assume b: "realloc_scan (blk_sts s) p ?c 0 = Some (Some b)" "64 \<le> b" "b < 512"
      "?c dvd b - 0" "realloc_fits (blk_sts s) p b ?c"
      "\<forall>b'. 0 \<le> b' \<and> b' < b \<and> 64 \<le> b' \<and> ?c dvd b' - 0 \<longrightarrow> \<not> realloc_fits (blk_sts s) p b' ?c"
    have "b + ?c \<le> 512" using b k dvd_512_bound [of k b] by simp
    with b show ?thesis
      by (intro disjI2 exI [of _ b] exI conjI)
        (auto simp: mem_realloc_def Let_def K_MEM_BLOCK_SIZE_BITS_def block_of_push)
  qed (auto simp: mem_realloc_def)
qed

lemma mem_realloc_overflow:
  "2 ^ 27 < unat nsz \<Longrightarrow> mem_realloc p addr osz nsz s = KHang"
  by (simp add: mem_realloc_def mem_blocks_overflow realloc_scan_zero)

lemma mem_realloc_small: "mem_realloc p addr osz nsz s = KOk r \<Longrightarrow> unat nsz \<le> 2 ^ 27"
  by (metis kres.distinct(5) linorder_not_le mem_realloc_overflow)

lemma mem_realloc_failed: "mem_realloc p addr osz nsz s = KOk (0, s') \<Longrightarrow> s' = s"
proof -
  assume r: "mem_realloc p addr osz nsz s = KOk (0, s')"
  have small: "unat nsz \<le> 2 ^ 27" by (rule mem_realloc_small [OF r])
  have "push_bit 12 (of_nat b :: u32) \<noteq> 0" if "64 \<le> b" "b + unat (mem_blocks nsz) \<le> 512" for b
    using that mem_blocks_pos [OF small] push_12_eq_0 [of b] by simp
  with mem_realloc_cases [OF small, of p addr osz s] r show "s' = s" by (elim disjE exE conjE) auto
qed

lemma mem_realloc_success:
  assumes "mem_realloc p addr osz nsz s = KOk (a, s')" "a \<noteq> 0"
  obtains b where "a = push_bit 12 (of_nat b)" "64 \<le> b" "b + unat (mem_blocks nsz) \<le> 512"
    "unat (mem_blocks nsz) dvd b" "block_of a = b"
    "\<And>i. b \<le> i \<Longrightarrow> i < b + unat (mem_blocks nsz) \<Longrightarrow> blk_sts s i = p \<or> blk_sts s i \<le> 0"
    "blk_sts s' = (\<lambda>i. if b \<le> i \<and> i < b + unat (mem_blocks nsz) then p
       else if addr \<noteq> 0 \<and> addr \<noteq> a \<and> i \<in> extent addr osz then 0 else blk_sts s i)"
    "ram s' = (if addr \<noteq> 0 \<and> addr \<noteq> a then memcpy (ram s) a addr (unat osz) else ram s)"
proof -
  let ?c = "unat (mem_blocks nsz)"
  have small: "unat nsz \<le> 2 ^ 27" by (rule mem_realloc_small [OF assms(1)])
  obtain b s1 where b: "a = push_bit 12 (of_nat b)" "s' = s1\<lparr>blk_sts := set_blocks (blk_sts s1) b ?c p\<rparr>"
    "s1 = (if addr \<noteq> 0 \<and> addr \<noteq> a
       then s\<lparr>ram := memcpy (ram s) a addr (unat osz),
              blk_sts := set_blocks (blk_sts s) (block_of addr) (unat (mem_blocks osz)) 0\<rparr> else s)"
    "64 \<le> b" "b + ?c \<le> 512" "?c dvd b" "realloc_fits (blk_sts s) p b ?c"
    using mem_realloc_cases [OF small, of p addr osz s] assms by auto
  have "b < 512" using b(5) mem_blocks_pos [OF small] by simp
  with b show thesis
    by (intro that [of b]) (auto simp: block_of_push realloc_fits_iff extent_def fun_eq_iff)
qed

lemma mem_realloc_region_ok:
  "mem_realloc p addr osz nsz s = KOk (a, s') \<Longrightarrow> a \<noteq> 0 \<Longrightarrow> region_ok s' p a nsz"
  by (frule mem_realloc_small, erule mem_realloc_success, assumption) (auto simp: region_ok_def)

section \<open>The interface of the allocator\<close>

text \<open>
  What the process manager relies on: the owner of a block, the blocks of a region, and
  the two operations. The laws say that an allocation belongs to the caller, takes nothing
  from anybody else, and that a release frees exactly the region.
\<close>

locale block_memory =
  fixes owner :: "'s \<Rightarrow> nat \<Rightarrow> pid"
    and blocks :: "u32 \<Rightarrow> u32 \<Rightarrow> nat set"
    and realloc :: "pid \<Rightarrow> u32 \<Rightarrow> u32 \<Rightarrow> u32 \<Rightarrow> 's \<Rightarrow> (u32 \<times> 's) kres"
    and release :: "u32 \<Rightarrow> u32 \<Rightarrow> 's \<Rightarrow> 's"
  assumes realloc_mine: "realloc p a osz nsz s = KOk (a', s') \<Longrightarrow> a' \<noteq> 0 \<Longrightarrow> i \<in> blocks a' nsz \<Longrightarrow>
      owner s' i = p"
    and realloc_theirs: "realloc p a osz nsz s = KOk (a', s') \<Longrightarrow>
      a = 0 \<or> (\<forall>j \<in> blocks a osz. owner s j = p) \<Longrightarrow> 0 < owner s i \<Longrightarrow> owner s i \<noteq> p \<Longrightarrow>
      owner s' i = owner s i"
    and release_owner: "owner (release a n s) i = (if i \<in> blocks a n then 0 else owner s i)"
begin

text \<open>A table of regions, one for each process at most, all owned by their process.\<close>

definition owns_all :: "'s \<Rightarrow> (pid \<rightharpoonup> u32 \<times> u32) \<Rightarrow> bool" where
  "owns_all s reg \<longleftrightarrow> (\<forall>p a n. reg p = Some (a, n) \<longrightarrow> 0 < p \<and> (\<forall>i \<in> blocks a n. owner s i = p))"

lemma owns_all_disjoint:
  "owns_all s reg \<Longrightarrow> reg p = Some (a, n) \<Longrightarrow> reg q = Some (b, m) \<Longrightarrow> p \<noteq> q \<Longrightarrow>
     blocks a n \<inter> blocks b m = {}"
  unfolding owns_all_def disjoint_iff by metis

lemma owns_all_realloc:
  assumes "owns_all s reg" and "realloc p a osz nsz s = KOk (a', s')" and "a' \<noteq> 0" and "0 < p"
    and "a = 0 \<or> reg p = Some (a, osz)"
  shows "owns_all s' (reg(p \<mapsto> (a', nsz)))"
  unfolding owns_all_def
proof (intro allI impI)
  fix q b m assume q: "(reg(p \<mapsto> (a', nsz))) q = Some (b, m)"
  show "0 < q \<and> (\<forall>i \<in> blocks b m. owner s' i = q)"
  proof (cases "q = p")
    case True
    with q assms(2-4) show ?thesis using realloc_mine by fastforce
  next
    case False
    with q have r: "reg q = Some (b, m)" by simp
    have "a = 0 \<or> (\<forall>j \<in> blocks a osz. owner s j = p)"
      using assms(1,5) by (auto simp: owns_all_def)
    then show ?thesis
      using r assms(1) False realloc_theirs [OF assms(2)] unfolding owns_all_def by metis
  qed
qed

lemma owns_all_release:
  assumes "owns_all s reg" and "reg p = Some (a, n)"
  shows "owns_all (release a n s) (reg(p := None))"
  unfolding owns_all_def
proof (intro allI impI)
  fix q b m assume "(reg(p := None)) q = Some (b, m)"
  then have q: "q \<noteq> p" "reg q = Some (b, m)" by (auto split: if_splits)
  have "blocks a n \<inter> blocks b m = {}" by (rule owns_all_disjoint [OF assms(1,2) q(2)]) (use q in simp)
  then show "0 < q \<and> (\<forall>i \<in> blocks b m. owner (release a n s) i = q)"
    using q assms(1) unfolding owns_all_def by (auto simp: release_owner)
qed

end

interpretation memi: block_memory blk_sts extent mem_realloc mem_free
proof unfold_locales
  fix p a osz nsz i and s s' :: "'a kmem_scheme" and a'
  assume r: "mem_realloc p a osz nsz s = KOk (a', s')"
  show "a' \<noteq> 0 \<Longrightarrow> i \<in> extent a' nsz \<Longrightarrow> blk_sts s' i = p"
    using r by (metis mem_realloc_region_ok region_ok_extent)
  assume old: "a = 0 \<or> (\<forall>j \<in> extent a osz. blk_sts s j = p)"
    and i: "0 < blk_sts s i" "blk_sts s i \<noteq> p"
  show "blk_sts s' i = blk_sts s i"
  proof (cases "a' = 0")
    case True
    with r show ?thesis by (auto dest: mem_realloc_failed)
  next
    case False
    obtain b where mine: "\<And>j. b \<le> j \<Longrightarrow> j < b + unat (mem_blocks nsz) \<Longrightarrow> blk_sts s j = p \<or> blk_sts s j \<le> 0"
      and sts: "blk_sts s' = (\<lambda>j. if b \<le> j \<and> j < b + unat (mem_blocks nsz) then p
        else if a \<noteq> 0 \<and> a \<noteq> a' \<and> j \<in> extent a osz then 0 else blk_sts s j)"
      by (rule mem_realloc_success [OF r False]) blast
    have "\<not> (b \<le> i \<and> i < b + unat (mem_blocks nsz))" using mine [of i] i by auto
    moreover have "\<not> (a \<noteq> 0 \<and> i \<in> extent a osz)" using old i by auto
    ultimately show ?thesis unfolding sts by presburger
  qed
next
  fix a n i and s :: "'a kmem_scheme"
  show "blk_sts (mem_free a n s) i = (if i \<in> extent a n then 0 else blk_sts s i)"
    by (auto simp: mem_free_def extent_def)
qed

section \<open>Addresses of a region\<close>

lemma unat_push_12_add:
  assumes "b + c \<le> 512" and "i < 4096 * c"
  shows "unat (push_bit 12 (of_nat b) + of_nat i :: u32) = 4096 * b + i"
proof -
  have "4096 * b + i < 4096 * 512" using assms by linarith
  then show ?thesis
    by (simp add: unat_word_ariths unat_push_bit unat_of_nat mult.commute)
qed

text \<open>Bytes of regions that own different blocks are different bytes.\<close>

lemma region_ok_bytes_disjoint:
  assumes "region_ok s p a n" and "region_ok s q b m" and "p \<noteq> q"
  shows "region a (unat n) \<inter> region b (unat m) = {}"
proof -
  obtain x k where x: "a = push_bit 12 (of_nat x)" "x + 2 ^ k \<le> 512" "unat n \<le> 4096 * 2 ^ k"
    "\<And>i. x \<le> i \<Longrightarrow> i < x + 2 ^ k \<Longrightarrow> blk_sts s i = p" using assms(1) by (elim region_okE) blast
  obtain y l where y: "b = push_bit 12 (of_nat y)" "y + 2 ^ l \<le> 512" "unat m \<le> 4096 * 2 ^ l"
    "\<And>i. y \<le> i \<Longrightarrow> i < y + 2 ^ l \<Longrightarrow> blk_sts s i = q" using assms(2) by (elim region_okE) blast
  have False if c: "i < unat n" "j < unat m" "a + of_nat i = b + of_nat j" for i j
  proof -
    have ij: "i < 4096 * 2 ^ k" "j < 4096 * 2 ^ l" using c(1,2) x(3) y(3) by linarith+
    have "4096 * x + i = 4096 * y + j"
      using c(3) unat_push_12_add [OF x(2) ij(1)] unat_push_12_add [OF y(2) ij(2)] x(1) y(1) by metis
    then have "(4096 * x + i) div 4096 = (4096 * y + j) div 4096" by simp
    then have eq: "x + i div 4096 = y + j div 4096" by simp
    have "i div 4096 < 2 ^ k" "j div 4096 < 2 ^ l"
      using ij by (simp_all add: div_less_iff_less_mult mult.commute)
    then have "blk_sts s (x + i div 4096) = p" "blk_sts s (y + j div 4096) = q"
      by (auto intro: x(4) y(4))
    with eq assms(3) show False by simp
  qed
  then show ?thesis by (auto simp: region_def)
qed

section \<open>Moving a region\<close>

text \<open>
  A region that moves to a run at least as long never overlaps its new place: both are
  naturally aligned.
\<close>

lemma aligned_runs_apart:
  assumes "(2 :: nat) ^ l dvd c" and "2 ^ k dvd b" and "l \<le> k" and "b \<noteq> c" and "i < 2 ^ l" and "j < 2 ^ l"
  shows "b + i \<noteq> c + j"
proof
  assume eq: "b + i = c + j"
  have "(2 :: nat) ^ l dvd b" using assms(2,3) by (meson dvd_trans le_imp_power_dvd)
  then have "(b + i) mod 2 ^ l = i" "(c + j) mod 2 ^ l = j"
    using assms(1,5,6) by (auto simp: mod_add_left_eq [symmetric])
  with eq have "i = j" by simp
  with eq assms(4) show False by simp
qed

lemma mem_realloc_moves_data:
  assumes "mem_realloc p addr osz nsz s = KOk (a, s')" and "a \<noteq> 0" and "region_ok s p addr osz"
    and "unat osz \<le> unat nsz" and "i < unat osz"
  shows "ram s' (a + of_nat i) = ram s (addr + of_nat i)"
proof (cases "addr \<noteq> 0 \<and> addr \<noteq> a")
  case False
  have "addr \<noteq> 0" using assms(3) push_12_eq_0 by (elim region_okE) (auto simp: block_of_def)
  with False have "addr = a" by simp
  moreover have "ram s' = ram s"
    by (rule mem_realloc_success [OF assms(1,2)]) (use False in auto)
  ultimately show ?thesis by simp
next
  case True
  obtain c l where c: "addr = push_bit 12 (of_nat c)" "c + 2 ^ l \<le> 512" "2 ^ l dvd c"
    "unat osz \<le> 4096 * 2 ^ l" "unat (mem_blocks osz) = 2 ^ l"
    using assms(3) by (elim region_okE) blast
  obtain b where b: "a = push_bit 12 (of_nat b)" "b + unat (mem_blocks nsz) \<le> 512"
    "unat (mem_blocks nsz) dvd b" and ram: "ram s' = memcpy (ram s) a addr (unat osz)"
    by (rule mem_realloc_success [OF assms(1,2)], rule that) (use True in auto)
  have small: "unat nsz \<le> 2 ^ 27" by (rule mem_realloc_small [OF assms(1)])
  obtain k where k: "unat (mem_blocks nsz) = 2 ^ k" "unat nsz \<le> 4096 * 2 ^ k"
    using small by (rule mem_blocks_pow2)
  have "unat osz \<le> 2 ^ 27" using assms(4) small by simp
  then obtain l' where l': "unat (mem_blocks osz) = 2 ^ l'" "0 < l' \<longrightarrow> 4096 * 2 ^ (l' - 1) < unat osz"
    by (rule mem_blocks_pow2) 
  have "l' = l" using c(5) l'(1) by simp
  have lk: "l \<le> k"
  proof (rule ccontr)
    assume "\<not> l \<le> k"
    then have "(2 :: nat) ^ k \<le> 2 ^ (l - 1)" by (intro power_increasing) simp_all
    then have "4096 * 2 ^ k \<le> 4096 * (2 :: nat) ^ (l - 1)" by simp
    moreover have "4096 * 2 ^ (l - 1) < unat osz" using l'(2) \<open>l' = l\<close> \<open>\<not> l \<le> k\<close> by simp
    ultimately show False using k(2) assms(4) by linarith
  qed
  then have pow: "(2 :: nat) ^ l \<le> 2 ^ k" by (rule power_increasing) simp
  have "b \<noteq> c" using True b(1) c(1) by auto
  have apart: "a + of_nat x \<noteq> addr + of_nat y" if "x < unat osz" "y < unat osz" for x y
  proof
    assume eq: "a + of_nat x = addr + of_nat y"
    have xy: "x < 4096 * 2 ^ l" "y < 4096 * 2 ^ l" using that c(4) by linarith+
    have "x < 4096 * 2 ^ k" using xy(1) pow by (meson mult_le_mono2 order_less_le_trans)
    then have "4096 * b + x = 4096 * c + y"
      using eq unat_push_12_add [OF b(2) [unfolded k(1)]] unat_push_12_add [OF c(2) xy(2)] b(1) c(1)
      by metis
    then have "(4096 * b + x) div 4096 = (4096 * c + y) div 4096" by simp
    then have "b + x div 4096 = c + y div 4096" by simp
    moreover have "x div 4096 < 2 ^ l" "y div 4096 < 2 ^ l"
      using xy by (simp_all add: div_less_iff_less_mult mult.commute)
    ultimately show False
      using aligned_runs_apart [OF c(3) b(3) [unfolded k(1)] lk \<open>b \<noteq> c\<close>] by blast
  qed
  show ?thesis
    unfolding ram
  proof (rule memcpy_inside)
    show "i < unat osz" by (rule assms(5))
    show "unat osz \<le> 2 ^ 32" using unat_u32_less [of osz] by simp
    show "a + of_nat x \<noteq> addr + of_nat y" if "x < y" "y < unat osz" for x y
      using that by (intro apart) simp_all
  qed
qed

section \<open>The MMU window\<close>

text \<open>
  Block number and mask held by the registers: only bits 15..8 of each register count
  (comment of \<open>mem_setup_mmu\<close>).
\<close>

definition mmu_base :: "mmu_regs \<Rightarrow> u16" where
  "mmu_base r = (base_hi r AND 0xff00) OR drop_bit 8 (base_lo r)"

definition mmu_mask :: "mmu_regs \<Rightarrow> u16" where
  "mmu_mask r = (mask_hi r AND 0xff00) OR drop_bit 8 (mask_lo r)"

lemma mmu_mask_loop_blocks: "mmu_mask_loop n m + 1 = mem_blocks_loop n (m + 1)"
proof (induction n m rule: mmu_mask_loop.induct)
  case (1 n m)
  have "push_bit 1 m + 1 + 1 = push_bit 1 (m + 1)" by (simp add: push_bit_eq_mult distrib_left)
  with 1 show ?case
    by (simp only: mmu_mask_loop.simps [of n m] mem_blocks_loop.simps [of n "m + 1"] split: if_split) simp
qed

lemma bytes_of_u16: "((m AND 0xff00) AND 0xff00) OR drop_bit 8 (push_bit 8 m) = (m :: u16)"
proof (rule bit_word_eqI)
  fix i assume i: "i < LENGTH(16)"
  have "(0xff00 :: u16) = push_bit 8 (mask 8)" by (simp add: mask_eq_exp_minus_1)
  then have "bit (0xff00 :: u16) i \<longleftrightarrow> 8 \<le> i \<and> i < 16"
    using i by (simp only: bit_push_bit_iff bit_mask_iff) auto
  then show "bit (((m AND 0xff00) AND 0xff00) OR drop_bit 8 (push_bit 8 m)) i = bit m i"
    using i by (auto simp: bit_simps)
qed

lemma mmu_window_mask:
  "mmu_mask (mmu (mem_setup_mmu a n s)) = (if n = 0 then 0xffff else mem_blocks n - 1)"
proof -
  have "mmu_mask_loop m 0 = mem_blocks_loop m 1 - 1" for m
    using mmu_mask_loop_blocks [of m 0] by (simp add: eq_diff_eq)
  moreover have "mem_blocks_loop (drop_bit 12 (- 1)) 1 = 0"
  proof -
    have "2 ^ 27 < unat (- 1 :: u32)" by (simp add: unsigned_minus_1_eq_mask mask_eq_exp_minus_1)
    then have "mem_blocks (- 1) = 0" by (rule mem_blocks_overflow)
    moreover have "drop_bit 12 (- 1 - 1 :: u32) = drop_bit 12 (- 1)"
      by (simp add: mask_eq_exp_minus_1)
    ultimately show ?thesis by (simp add: mem_blocks_def K_MEM_BLOCK_SIZE_BITS_def)
  qed
  ultimately show ?thesis
    using bytes_of_u16
    by (simp add: mem_setup_mmu_def Let_def mmu_mask_def mem_blocks_def K_MEM_BLOCK_SIZE_BITS_def)
qed

lemma mmu_window_base:
  assumes "b < 512"
  shows "mmu_base (mmu (mem_setup_mmu (push_bit 12 (of_nat b)) n s)) = of_nat b"
proof -
  have lo: "ucast (drop_bit 4 (push_bit 12 (of_nat b)) AND (0xff00 :: u32)) = (push_bit 8 (of_nat b) :: u16)"
  proof (rule bit_word_eqI)
    fix i assume i: "i < LENGTH(16)"
    have "(0xff00 :: u32) = push_bit 8 (mask 8)" by (simp add: mask_eq_exp_minus_1)
    then have "bit (0xff00 :: u32) i \<longleftrightarrow> 8 \<le> i \<and> i < 16"
      using i by (simp only: bit_push_bit_iff bit_mask_iff) auto
    then show "bit (ucast (drop_bit 4 (push_bit 12 (of_nat b)) AND (0xff00 :: u32)) :: u16) i =
        bit (push_bit 8 (of_nat b) :: u16) i"
      using i by (auto simp: bit_simps)
  qed
  have hi: "ucast (drop_bit 8 (drop_bit 4 (push_bit 12 (of_nat b) :: u32))) = (of_nat b :: u16)"
    by (rule bit_word_eqI) (auto simp: bit_simps)
  show ?thesis
    using lo hi bytes_of_u16 [of "of_nat b"]
    by (simp add: mem_setup_mmu_def Let_def mmu_base_def K_MEM_BLOCK_SIZE_BITS_def)
qed

section \<open>Properties\<close>



text \<open>C12. A request above 128 MiB wraps the 16-bit block count to 0, and the scan of
  \<open>mem_realloc\<close> then steps by 0 and never ends.\<close>

theorem mem_realloc_hangs:
  assumes "2 ^ 27 < unat nsz"
  shows "mem_realloc p addr osz nsz s = KHang"
  by (rule mem_realloc_overflow [OF assms])

theorem mem_realloc_hangs_witness:
  "\<forall>s :: kmem. mem_realloc 5 0x40000 4096 0x8000001 s = KHang"
  by (intro allI mem_realloc_hangs) simp


definition mem_demo :: kmem where
  "mem_demo = \<lparr>blk_sts = (\<lambda>i. if i = 65 then 6 else if i = 66 \<or> i = 67 then 5 else 0),
     last_base = 0, last_msk = 0, ram = (\<lambda>a. if a = 0x43000 then 0xAA else 0),
     mmu = \<lparr>base_lo = 0, base_hi = 0, mask_lo = 0, mask_hi = 0\<rparr>\<rparr>"

lemma mem_blocks_small: "mem_blocks 4096 = 1" "mem_blocks 8192 = 2" "mem_blocks 16384 = 4"
  by code_simp+

lemma mem_demo_regions: "region_ok mem_demo 6 0x41000 4096" "region_ok mem_demo 5 0x42000 8192"
  by (auto simp: region_ok_def mem_demo_def mem_blocks_small intro: exI [of _ 65] exI [of _ 66])

lemma mem_demo_realloc:
  "mem_realloc 5 0x42000 8192 16384 mem_demo = KOk (0x44000, mem_demo
     \<lparr>ram := memcpy (ram mem_demo) 0x44000 0x42000 8192,
      blk_sts := set_blocks (set_blocks (blk_sts mem_demo) 66 2 0) 68 4 5\<rparr>)"
  "mem_realloc 5 0x42000 8192 4096 mem_demo = KOk (0x40000, mem_demo
     \<lparr>ram := memcpy (ram mem_demo) 0x40000 0x42000 8192,
      blk_sts := set_blocks (set_blocks (blk_sts mem_demo) 66 2 0) 64 1 5\<rparr>)"
proof -
  have b: "block_of 0x42000 = 66" "block_of 0x44000 = 68" "block_of 0x40000 = 64"
    by (simp_all add: block_of_def K_MEM_BLOCK_SIZE_BITS_def)
  have "realloc_scan (blk_sts mem_demo) 5 4 0 = Some (Some 68)"
  proof (rule realloc_scan_first)
    fix b' :: nat assume "64 \<le> b'" "b' < 68" "4 dvd b'"
    then have "b' = 64" by presburger
    then show "\<not> realloc_fits (blk_sts mem_demo) 5 b' 4"
      by (auto simp: realloc_fits_iff mem_demo_def intro!: exI [of _ 65])
  qed (auto simp: realloc_fits_iff mem_demo_def)
  then show "mem_realloc 5 0x42000 8192 16384 mem_demo = KOk (0x44000, mem_demo
     \<lparr>ram := memcpy (ram mem_demo) 0x44000 0x42000 8192,
      blk_sts := set_blocks (set_blocks (blk_sts mem_demo) 66 2 0) 68 4 5\<rparr>)"
    by (simp add: mem_realloc_def mem_blocks_small b K_MEM_BLOCK_SIZE_BITS_def)
  have "realloc_scan (blk_sts mem_demo) 5 1 0 = Some (Some 64)"
    by (rule realloc_scan_first) (auto simp: realloc_fits_iff mem_demo_def)
  then show "mem_realloc 5 0x42000 8192 4096 mem_demo = KOk (0x40000, mem_demo
     \<lparr>ram := memcpy (ram mem_demo) 0x40000 0x42000 8192,
      blk_sts := set_blocks (set_blocks (blk_sts mem_demo) 66 2 0) 64 1 5\<rparr>)"
    by (simp add: mem_realloc_def mem_blocks_small b K_MEM_BLOCK_SIZE_BITS_def)
qed


text \<open>Growing keeps the contents: after a successful \<open>mem_realloc\<close> to a size not below the old
  one, every byte of the old region is found at the same offset of the new one, also when the new
  run contains the old one.\<close>

theorem mem_realloc_grow_keeps_data:
  assumes "mem_realloc p addr osz nsz s = KOk (a, s')" and "a \<noteq> 0" and "region_ok s p addr osz"
    and "unat osz \<le> unat nsz" and "i < unat osz"
  shows "ram s' (a + of_nat i) = ram s (addr + of_nat i)"
  by (rule mem_realloc_moves_data [OF assms])

theorem mem_realloc_grow_keeps_data_witness:
  "\<exists>s'. mem_realloc 5 0x42000 8192 16384 mem_demo = KOk (0x44000, s') \<and> ram s' 0x45000 = 0xAA"
  using mem_realloc_grow_keeps_data [OF mem_demo_realloc(1) _ mem_demo_regions(2), of 4096]
    mem_demo_realloc(1) by (simp add: mem_demo_def)

text \<open>Shrinking may not: when a smaller run exists at another place, \<open>mem_realloc\<close> still
  copies the old size, past the end of the new run, and overwrites a block of another process.\<close>

theorem mem_realloc_shrink_clobbers:
  "\<exists>(s :: kmem) s'. region_ok s 5 0x42000 8192 \<and> region_ok s 6 0x41000 4096 \<and>
     mem_realloc 5 0x42000 8192 4096 s = KOk (0x40000, s') \<and> region_ok s' 6 0x41000 4096 \<and>
     ram s' 0x41000 \<noteq> ram s 0x41000"
proof -
  have "memcpy (ram mem_demo) 0x40000 0x42000 8192 (0x40000 + of_nat 4096) = ram mem_demo (0x42000 + of_nat 4096)"
  proof (rule memcpy_inside)
    fix i j :: nat assume ij: "i < j" "j < 8192"
    show "(0x40000 :: u32) + of_nat i \<noteq> 0x42000 + of_nat j"
    proof
      assume eq: "(0x40000 :: u32) + of_nat i = 0x42000 + of_nat j"
      have "unat (0x40000 + of_nat i :: u32) = 0x40000 + i" "unat (0x42000 + of_nat j :: u32) = 0x42000 + j"
        using ij by (simp_all add: unat_word_ariths unat_of_nat)
      with eq ij show False by simp
    qed
  qed simp_all
  then have "memcpy (ram mem_demo) 0x40000 0x42000 8192 0x41000 = 0xAA" by (simp add: mem_demo_def)
  moreover have "ram mem_demo 0x41000 = 0" by (simp add: mem_demo_def)
  moreover have "region_ok (mem_demo\<lparr>ram := r, blk_sts := set_blocks (set_blocks (blk_sts mem_demo) 66 2 0) 64 1 5\<rparr>)
      6 0x41000 4096" for r
    by (auto simp: mem_demo_def region_ok_def mem_blocks_small intro!: exI [of _ 65])
  ultimately have "ram (mem_demo\<lparr>ram := memcpy (ram mem_demo) 0x40000 0x42000 8192,
      blk_sts := set_blocks (set_blocks (blk_sts mem_demo) 66 2 0) 64 1 5\<rparr>) 0x41000 \<noteq> ram mem_demo 0x41000"
    and "region_ok (mem_demo\<lparr>ram := memcpy (ram mem_demo) 0x40000 0x42000 8192,
      blk_sts := set_blocks (set_blocks (blk_sts mem_demo) 66 2 0) 64 1 5\<rparr>) 6 0x41000 4096"
    by simp_all
  then show ?thesis using mem_demo_regions mem_demo_realloc(2) by blast
qed

text \<open>The MMU is programmed with the block number of the region and a mask of its block count
  minus one, and the two share no bit; for a size of 0 the mask is all ones, so the window then
  covers every block.\<close>

theorem mem_setup_mmu_window:
  assumes "region_ok s p a n"
  shows "mmu_base (mmu (mem_setup_mmu a n t)) = of_nat (block_of a) \<and>
    mmu_mask (mmu (mem_setup_mmu a n t)) = (if n = 0 then 0xffff else mem_blocks n - 1) \<and>
    of_nat (block_of a) AND (mem_blocks n - 1) = 0"
proof -
  obtain b k where b: "a = push_bit 12 (of_nat b)" "b + 2 ^ k \<le> 512" "2 ^ k dvd b"
    "unat (mem_blocks n) = 2 ^ k" "k \<le> 15" "block_of a = b" using assms by (elim region_okE) blast
  have lt: "b < 512" using b(2) by (metis less_add_same_cancel1 order_less_le_trans zero_less_numeral zero_less_power)
  have m: "mem_blocks n = 2 ^ k" using b(4,5) unat_power_16 [of k] by (simp add: word_unat_eq_iff)
  obtain c where c: "b = 2 ^ k * c" using b(3) by (rule dvdE)
  have "(of_nat b :: u16) = push_bit k (of_nat c)" by (simp add: c push_bit_eq_mult)
  then have "(of_nat b :: u16) AND mask k = 0"
    by (simp only:) (rule bit_word_eqI, auto simp: bit_simps)
  then show ?thesis
    using mmu_window_base [OF lt, of n t] mmu_window_mask [of a n t] b(1,6) m by (simp add: mask_eq_exp_minus_1)
qed

theorem mem_setup_mmu_window_witness:
  "mmu_base (mmu (mem_setup_mmu 0x42000 8192 mem_demo)) = 66 \<and> mmu_mask (mmu (mem_setup_mmu 0x42000 8192 mem_demo)) = 1"
  using mem_setup_mmu_window [OF mem_demo_regions(2), of mem_demo]
  by (simp add: mem_blocks_small block_of_def K_MEM_BLOCK_SIZE_BITS_def)

end
