(* ===== verification/CString.thy ===== *)
theory CString
  imports Prelude
begin

text \<open>
  The string functions of the kernel library, software/system/kernel/libc/src/string.c and
  stdlib.c. A pointer into an array of bytes is the list of the bytes from the pointer to
  the end of the array; \<open>None\<close> is an access past that end. (The copy functions on physical
  memory, whose overlapping behaviour matters, are \<open>memcpy\<close> and \<open>memcpy32\<close> of
  \<open>Prelude\<close>.)
\<close>

section \<open>Comparison\<close>

fun strcmp :: "u8 list \<Rightarrow> u8 list \<Rightarrow> int option" where
  "strcmp (a # s1) (b # s2) =
     (if a = b then if a = 0 then Some 0 else strcmp s1 s2 else Some (uint a - uint b))"
| "strcmp _ _ = None"

fun strncmp :: "u8 list \<Rightarrow> u8 list \<Rightarrow> nat \<Rightarrow> int option" where
  "strncmp s1 s2 0 = Some 0"
| "strncmp (u1 # s1) (u2 # s2) (Suc n) =
     (if u1 \<noteq> u2 then Some (uint u1 - uint u2) else if u1 = 0 then Some 0 else strncmp s1 s2 n)"
| "strncmp _ _ (Suc n) = None"

section \<open>Fill and copy\<close>

fun memset :: "u8 list \<Rightarrow> u8 \<Rightarrow> nat \<Rightarrow> u8 list option" where
  "memset s c 0 = Some s"
| "memset (x # s) c (Suc n) = map_option ((#) c) (memset s c n)"
| "memset [] c (Suc n) = None"

fun strcpy :: "u8 list \<Rightarrow> u8 list \<Rightarrow> u8 list option" where
  "strcpy (d # dest) (c # src) =
     (if c \<noteq> 0 then map_option ((#) c) (strcpy dest src) else Some (0 # dest))"
| "strcpy _ _ = None"

text \<open>The second loop of \<open>strncpy\<close> pads with null bytes.\<close>

fun strncpy_pad :: "u8 list \<Rightarrow> nat \<Rightarrow> u8 list option" where
  "strncpy_pad dest 0 = Some dest"
| "strncpy_pad (d # dest) (Suc n) = map_option ((#) 0) (strncpy_pad dest n)"
| "strncpy_pad [] (Suc n) = None"

fun strncpy :: "u8 list \<Rightarrow> u8 list \<Rightarrow> nat \<Rightarrow> u8 list option" where
  "strncpy dest src 0 = Some dest"
| "strncpy (d # dest) (c # src) (Suc n) =
     (if c \<noteq> 0 then map_option ((#) c) (strncpy dest src n) else strncpy_pad (d # dest) (Suc n))"
| "strncpy _ _ (Suc n) = None"

section \<open>Length\<close>

text \<open>\<open>s - start\<close> after the loop \<open>while (*s++)\<close>.\<close>

fun strlen_adv :: "u8 list \<Rightarrow> nat option" where
  "strlen_adv (c # s) = (if c \<noteq> 0 then map_option Suc (strlen_adv s) else Some 1)"
| "strlen_adv [] = None"

definition strlen :: "u8 list \<Rightarrow> u32 option" where
  "strlen s = map_option (\<lambda>adv. of_nat adv - 1) (strlen_adv s)"

text \<open>\<open>s - start\<close> after the loop \<open>while (maxlen-- && *s++)\<close>.\<close>

fun strnlen_adv :: "u8 list \<Rightarrow> nat \<Rightarrow> nat option" where
  "strnlen_adv s 0 = Some 0"
| "strnlen_adv (c # s) (Suc m) = (if c \<noteq> 0 then map_option Suc (strnlen_adv s m) else Some 1)"
| "strnlen_adv [] (Suc m) = None"

definition strnlen :: "u8 list \<Rightarrow> nat \<Rightarrow> u32 option" where
  "strnlen s maxlen = map_option (\<lambda>adv. of_nat adv - 1) (strnlen_adv s maxlen)"

section \<open>Decimal conversion (stdlib.c)\<close>

fun atoi_loop :: "u8 list \<Rightarrow> u32 \<Rightarrow> u32 option option" where
  "atoi_loop (c # s) v =
     (if c = 0 then Some (Some v)
      else if 48 \<le> c \<and> c \<le> 57 then atoi_loop s (v * 10 + (ucast c - 48))
      else Some None)"
| "atoi_loop [] v = None"

text \<open>\<open>Some None\<close> of the loop is the early \<open>return 0\<close> on a byte that is no digit.\<close>

definition atoi :: "u8 list \<Rightarrow> u32 option" where
  "atoi nptr =
     (case nptr of
        [] \<Rightarrow> None
      | c # s \<Rightarrow>
          let sign = (c = 45); digits = (if sign then s else nptr) in
          map_option (\<lambda>r. case r of None \<Rightarrow> 0 | Some v \<Rightarrow> if sign then - v else v)
            (atoi_loop digits 0))"

section \<open>Null-terminated strings\<close>

text \<open>The array \<open>s\<close> starts with the string \<open>xs\<close>.\<close>

definition cstr :: "u8 list \<Rightarrow> u8 list \<Rightarrow> bool" where
  "cstr s xs \<longleftrightarrow> (\<exists>r. s = xs @ 0 # r) \<and> 0 \<notin> set xs"

lemma cstr_Nil: "cstr s [] \<longleftrightarrow> (\<exists>r. s = 0 # r)"
  by (simp add: cstr_def)

lemma cstr_Cons: "cstr s (x # xs) \<longleftrightarrow> x \<noteq> 0 \<and> (\<exists>s'. s = x # s' \<and> cstr s' xs)"
  by (auto simp: cstr_def)

lemma cstr_unique: "cstr s xs \<Longrightarrow> cstr s ys \<Longrightarrow> xs = ys"
proof (induction xs arbitrary: s ys)
  case Nil
  then show ?case by (cases ys) (auto simp: cstr_Nil cstr_Cons)
next
  case (Cons x xs)
  then show ?case by (cases ys) (auto simp: cstr_Nil cstr_Cons)
qed

lemma strcmp_cstr:
  assumes "cstr s xs" and "cstr t ys"
  shows "\<exists>r. strcmp s t = Some r \<and> (r = 0 \<longleftrightarrow> xs = ys)"
  using assms
proof (induction s t arbitrary: xs ys rule: strcmp.induct)
  case (1 a s1 b s2)
  show ?case
  proof (cases xs)
    case Nil
    with 1 show ?thesis by (cases ys) (auto simp: cstr_Nil cstr_Cons unsigned_eq_0_iff word_uint_eq_iff [symmetric])
  next
    case (Cons x xs')
    note xs = this
    show ?thesis
    proof (cases ys)
      case Nil
      with 1 xs show ?thesis by (auto simp: cstr_Nil cstr_Cons unsigned_eq_0_iff word_uint_eq_iff [symmetric])
    next
      case (Cons y ys')
      with 1 xs show ?thesis by (auto simp: cstr_Nil cstr_Cons unsigned_eq_0_iff word_uint_eq_iff [symmetric])
    qed
  qed
qed (auto simp: cstr_def)

lemma strlen_cstr: "cstr s xs \<Longrightarrow> strlen s = Some (of_nat (length xs))"
proof -
  have "cstr s xs \<Longrightarrow> strlen_adv s = Some (Suc (length xs))"
    by (induction xs arbitrary: s) (auto simp: cstr_Nil cstr_Cons)
  then show "cstr s xs \<Longrightarrow> strlen s = Some (of_nat (length xs))" by (simp add: strlen_def)
qed

lemma strncpy_pad_eq: "n \<le> length d \<Longrightarrow> strncpy_pad d n = Some (replicate n 0 @ drop n d)"
  by (induction d n rule: strncpy_pad.induct) auto

lemma strncpy_cstr:
  "cstr src xs \<Longrightarrow> n \<le> length d \<Longrightarrow>
     strncpy d src n = Some (take n xs @ replicate (n - length xs) 0 @ drop n d)"
proof (induction d src n arbitrary: xs rule: strncpy.induct)
  case (2 d dest c src n)
  then show ?case by (cases xs) (auto simp: cstr_Nil cstr_Cons strncpy_pad_eq)
qed (auto simp: cstr_def)

lemma strncpy_length: "strncpy d src n = Some r \<Longrightarrow> length r = length d"
proof (induction d src n arbitrary: r rule: strncpy.induct)
  case (2 d dest c src n)
  have "strncpy_pad e m = Some q \<Longrightarrow> length q = length e" for e m q
    by (induction e m arbitrary: q rule: strncpy_pad.induct) auto
  with 2 show ?case by (fastforce split: if_splits)
qed auto

lemma strcpy_cstr:
  "cstr src xs \<Longrightarrow> strcpy d src = (if length xs < length d then Some (xs @ 0 # drop (Suc (length xs)) d) else None)"
proof (induction d src arbitrary: xs rule: strcpy.induct)
  case (1 d dest c src)
  then show ?case by (cases xs) (auto simp: cstr_Nil cstr_Cons)
qed (auto simp: cstr_def neq_Nil_conv)

end
