(* ===== verification/ProcTable.thy ===== *)
theory ProcTable
  imports Mem CString
begin

text \<open>
  The process table of software/system/kernel/proc.c: the descriptors, the two circular
  doubly linked lists threaded through the table (ready and free processes) and their
  operations. A pointer into \<open>_proc_table\<close> is the index of the entry, \<open>None\<close> is the null
  pointer. The view of a list as an Isabelle list, head first, is what the rest of the
  development reasons about.
\<close>

section \<open>Descriptors\<close>

definition K_PROC_COUNT :: int where "K_PROC_COUNT = 32"
definition K_PROC_IDLE :: int where "K_PROC_IDLE = K_PROC_COUNT - 1"
definition K_PROC_NAME_MAX_LEN :: nat where "K_PROC_NAME_MAX_LEN = 16"

definition PROC_PID_SYSTEM_TASK :: pid where "PROC_PID_SYSTEM_TASK = 0"
definition PROC_PID_NONE :: pid where "PROC_PID_NONE = - 1"
definition PROC_PID_ANY :: pid where "PROC_PID_ANY = - 2"

definition PROC_UID_KERNEL :: u32 where "PROC_UID_KERNEL = 0"
definition PROC_UID_ROOT :: u32 where "PROC_UID_ROOT = 1"
definition PROC_UID_NONE :: u32 where "PROC_UID_NONE = - 1"

definition SIGALRM :: u16 where "SIGALRM = 1"
definition SIGCHILD :: u16 where "SIGCHILD = 2"

lemmas proc_consts = K_PROC_COUNT_def K_PROC_IDLE_def PROC_PID_SYSTEM_TASK_def PROC_PID_NONE_def
  PROC_PID_ANY_def PROC_UID_KERNEL_def PROC_UID_ROOT_def PROC_UID_NONE_def

datatype proc_state = ST_NONE | ST_BLOCKED | ST_READY | ST_STOPPED

record proc_desc =
  d_regs :: "nat \<Rightarrow> u32"
  a_regs :: "nat \<Rightarrow> u32"
  pc :: u32
  sr :: u16
  x_status :: u16
  x_addr :: u32
  x_instr :: u16
  mfp_ad :: u8
  p_state :: proc_state
  exit_val :: u32
  m_from :: pid
  m_to :: pid
  pa_msg :: u32
  sig_mask :: u16
  ppid :: pid
  uid :: u32
  p_name :: "u8 list"
  mem_ad :: u32
  mem_sz :: u32
  stackb :: u32

record proc_list =
  pl_d :: proc_desc
  pl_pid :: pid
  pl_next :: "int option"
  pl_prev :: "int option"

text \<open>The kernel state: the memory manager's, and the static data of proc.c.\<close>

record kstate = kmem +
  proc_table :: "int \<Rightarrow> proc_list"
  proc_ready :: "int option"
  proc_free :: "int option"
  proc_ptr :: "int option"

text \<open>A descriptor cleared by \<open>memset\<close>.\<close>

definition zero_desc :: proc_desc where
  "zero_desc = \<lparr>d_regs = (\<lambda>_. 0), a_regs = (\<lambda>_. 0), pc = 0, sr = 0, x_status = 0, x_addr = 0,
     x_instr = 0, mfp_ad = 0, p_state = ST_NONE, exit_val = 0, m_from = 0, m_to = 0, pa_msg = 0,
     sig_mask = 0, ppid = 0, uid = 0, p_name = replicate 16 0, mem_ad = 0, mem_sz = 0, stackb = 0\<rparr>"

section \<open>Access to the table\<close>

abbreviation desc :: "'a kstate_scheme \<Rightarrow> int \<Rightarrow> proc_desc" where
  "desc s p \<equiv> pl_d (proc_table s p)"

abbreviation nxt :: "'a kstate_scheme \<Rightarrow> int \<Rightarrow> int option" where
  "nxt s p \<equiv> pl_next (proc_table s p)"

abbreviation prv :: "'a kstate_scheme \<Rightarrow> int \<Rightarrow> int option" where
  "prv s p \<equiv> pl_prev (proc_table s p)"

definition set_next :: "int \<Rightarrow> int option \<Rightarrow> 'a kstate_scheme \<Rightarrow> 'a kstate_scheme" where
  "set_next p v s = s\<lparr>proc_table := (proc_table s)(p := (proc_table s p)\<lparr>pl_next := v\<rparr>)\<rparr>"

definition set_prev :: "int \<Rightarrow> int option \<Rightarrow> 'a kstate_scheme \<Rightarrow> 'a kstate_scheme" where
  "set_prev p v s = s\<lparr>proc_table := (proc_table s)(p := (proc_table s p)\<lparr>pl_prev := v\<rparr>)\<rparr>"

definition upd_desc :: "int \<Rightarrow> (proc_desc \<Rightarrow> proc_desc) \<Rightarrow> 'a kstate_scheme \<Rightarrow> 'a kstate_scheme" where
  "upd_desc p f s = s\<lparr>proc_table := (proc_table s)(p := (proc_table s p)\<lparr>pl_d := f (desc s p)\<rparr>)\<rparr>"

text \<open>\<open>p->next = v\<close> and \<open>p->prev = v\<close> through a pointer that may be null.\<close>

definition store_next :: "int option \<Rightarrow> int option \<Rightarrow> 'a kstate_scheme \<Rightarrow> 'a kstate_scheme kres" where
  "store_next q v s = (case q of None \<Rightarrow> KFault | Some p \<Rightarrow> KOk (set_next p v s))"

definition store_prev :: "int option \<Rightarrow> int option \<Rightarrow> 'a kstate_scheme \<Rightarrow> 'a kstate_scheme kres" where
  "store_prev q v s = (case q of None \<Rightarrow> KFault | Some p \<Rightarrow> KOk (set_prev p v s))"

section \<open>List operations\<close>

definition proc_add_to_ready_list :: "int \<Rightarrow> 'a kstate_scheme \<Rightarrow> 'a kstate_scheme kres" where
  "proc_add_to_ready_list p s =
     (case proc_ready s of
        Some r \<Rightarrow>
          let s1 = set_prev p (Some r) s;
              s2 = set_next p (nxt s1 r) s1
          in kbind (store_prev (nxt s2 r) (Some p) s2) (\<lambda>s3. KOk (set_next r (Some p) s3))
      | None \<Rightarrow> KOk (set_next p (Some p) (set_prev p (Some p) (s\<lparr>proc_ready := Some p\<rparr>))))"

definition proc_remove_from_ready_list :: "int \<Rightarrow> 'a kstate_scheme \<Rightarrow> 'a kstate_scheme kres" where
  "proc_remove_from_ready_list p s =
     (if prv s p = Some p then KPanic
      else kbind (store_prev (nxt s p) (prv s p) s) (\<lambda>s1.
           kbind (store_next (prv s1 p) (nxt s1 p) s1) (\<lambda>s2.
           let s3 = (if proc_ready s2 = Some p then s2\<lparr>proc_ready := nxt s2 p\<rparr> else s2)
           in KOk (set_next p None (set_prev p None s3)))))"

definition proc_add_to_free_list :: "int \<Rightarrow> 'a kstate_scheme \<Rightarrow> 'a kstate_scheme kres" where
  "proc_add_to_free_list p s =
     (case proc_free s of
        Some r \<Rightarrow>
          let s1 = set_prev p (Some r) s;
              s2 = set_next p (nxt s1 r) s1
          in kbind (store_prev (nxt s2 r) (Some p) s2) (\<lambda>s3. KOk (set_next r (Some p) s3))
      | None \<Rightarrow> KOk (set_next p (Some p) (set_prev p (Some p) (s\<lparr>proc_free := Some p\<rparr>))))"

definition proc_remove_from_free_list :: "int \<Rightarrow> 'a kstate_scheme \<Rightarrow> 'a kstate_scheme kres" where
  "proc_remove_from_free_list p s =
     (if prv s p = Some p then KOk (s\<lparr>proc_free := None\<rparr>)
      else kbind (store_prev (nxt s p) (prv s p) s) (\<lambda>s1.
           kbind (store_next (prv s1 p) (nxt s1 p) s1) (\<lambda>s2.
           KOk (s2\<lparr>proc_free := nxt s2 p\<rparr>))))"

section \<open>Rings\<close>

text \<open>
  \<open>ring nx pv xs\<close>: the links visit the elements of \<open>xs\<close> in order and come back to the
  first one.
\<close>

definition ring :: "('a \<Rightarrow> 'a option) \<Rightarrow> ('a \<Rightarrow> 'a option) \<Rightarrow> 'a list \<Rightarrow> bool" where
  "ring nx pv xs \<longleftrightarrow> distinct xs \<and> (\<forall>(x, y) \<in> set (zip xs (rotate1 xs)). nx x = Some y \<and> pv y = Some x)"

lemma set_zip_rotate1: "set (zip (rotate1 xs) (rotate1 (rotate1 xs))) = set (zip xs (rotate1 xs))"
proof -
  have "zip (rotate1 xs) (rotate1 (rotate1 xs)) = rotate1 (zip xs (rotate1 xs))"
  proof (cases xs)
    case (Cons x t)
    show ?thesis
    proof (cases t)
      case (Cons y u)
      with \<open>xs = x # t\<close> show ?thesis
        using zip_append [of "y # u" "u @ [x]" "[x]" "[y]"] by simp
    qed (simp add: \<open>xs = x # t\<close>)
  qed simp
  then show ?thesis by simp
qed

lemma ring_rotate1 [simp]: "ring nx pv (rotate1 xs) = ring nx pv xs"
  by (simp add: ring_def set_zip_rotate1)

lemma ring_rotate [simp]: "ring nx pv (rotate n xs) = ring nx pv xs"
  by (induction n) simp_all

lemma ring_append_swap: "ring nx pv (xs @ ys) = ring nx pv (ys @ xs)"
  by (metis ring_rotate rotate_append)

lemma ring_single [simp]: "ring nx pv [p] \<longleftrightarrow> nx p = Some p \<and> pv p = Some p"
  by (simp add: ring_def)

lemma ring_cong:
  assumes "\<And>x. x \<in> set xs \<Longrightarrow> nx x = nx' x \<and> pv x = pv' x"
  shows "ring nx pv xs = ring nx' pv' xs"
proof -
  have "x \<in> set xs \<and> y \<in> set xs" if "(x, y) \<in> set (zip xs (rotate1 xs))" for x y
    using that by (metis set_rotate1 set_zip_leftD set_zip_rightD)
  with assms show ?thesis unfolding ring_def by fastforce
qed

lemma ring_next: "ring nx pv (h # t) \<Longrightarrow> nx h = Some (hd (t @ [h]))"
  by (cases t) (auto simp: ring_def)

lemma ring_hd: "ring nx pv (h # x # t) \<Longrightarrow> nx h = Some x \<and> pv x = Some h"
  by (simp add: ring_def)

lemma zip_ring_last: "set (zip (x # t) (t @ [h])) = set (zip (x # t) t) \<union> {(last (x # t), h)}"
proof (induction t arbitrary: x)
  case (Cons y t)
  then show ?case using Cons [of y] by auto
qed simp

lemma ring_Cons2: "ring nx pv (h # x # t) \<longleftrightarrow> distinct (h # x # t) \<and> nx h = Some x \<and> pv x = Some h \<and>
    nx (last (x # t)) = Some h \<and> pv h = Some (last (x # t)) \<and>
    (\<forall>(u, v) \<in> set (zip (x # t) t). nx u = Some v \<and> pv v = Some u)"
  unfolding ring_def by (simp add: zip_ring_last [of x t h, simplified])

lemma ring_insert:
  assumes r: "ring nx pv (h # t)" and p: "p \<notin> set (h # t)" and n: "nx h = Some n"
  shows "ring (nx(p := Some n, h := Some p)) (pv(p := Some h, n := Some p)) (h # p # t)"
proof (cases t)
  case Nil
  with r n have "n = h" by simp
  with p Nil show ?thesis by (auto simp: ring_def)
next
  case (Cons x u)
  from r [unfolded Cons] n have "n = x" by (simp add: ring_Cons2)
  have mem: "v \<in> set u \<and> w \<in> set (x # u)" if "(w, v) \<in> set (zip (x # u) u)" for v w
    using that by (metis set_zip_leftD set_zip_rightD)
  have d: "distinct (h # x # u)" using r [unfolded Cons] by (simp add: ring_def)
  have "ring (nx(p := Some x, h := Some p)) (pv(p := Some h, x := Some p)) (h # p # x # u)"
    unfolding ring_Cons2 [of _ _ h p "x # u"]
    using r [unfolded Cons] p [unfolded Cons] d mem
    by (auto simp: ring_Cons2 split: if_splits) fastforce+
  with Cons \<open>n = x\<close> show ?thesis by simp
qed

lemma ring_remove_hd:
  assumes r: "ring nx pv (p # t)" and t: "t \<noteq> []" and n: "nx p = Some n" and q: "pv p = Some q"
  shows "ring (nx(q := Some n)) (pv(n := Some q)) t"
proof -
  obtain x u where xu: "t = x # u" using t by (cases t) auto
  from r [unfolded xu] n q have nq: "n = x" "q = last (x # u)" by (auto simp: ring_Cons2)
  have d: "distinct (x # u)" using r [unfolded xu] by (simp add: ring_def)
  show ?thesis
  proof (cases u)
    case Nil
    with nq xu show ?thesis by simp
  next
    case (Cons y w)
    have dl: "distinct (zip (y # w) w)" using d Cons by (simp add: distinct_zipI1)
    have m: "u1 \<noteq> last (y # w)" "v1 \<noteq> x" "v1 \<in> set w"
      if e: "(u1, v1) \<in> set (zip (y # w) w)" for u1 v1
    proof -
      show "v1 \<in> set w" using e by (rule set_zip_rightD)
      then show "v1 \<noteq> x" using d Cons by auto
      obtain i where i: "i < length w" "u1 = (y # w) ! i"
        using e unfolding in_set_zip by auto
      have "last (y # w) = (y # w) ! length w" by (simp add: last_conv_nth)
      moreover have "distinct (y # w)" using d Cons by simp
      ultimately show "u1 \<noteq> last (y # w)" using i by (simp add: nth_eq_iff_index_eq)
    qed
    have "ring (nx(last (y # w) := Some x)) (pv(x := Some (last (y # w)))) (x # y # w)"
      unfolding ring_Cons2
      using r [unfolded xu Cons ring_Cons2] d [unfolded Cons] m
      by (auto split: if_splits)
    with nq xu Cons show ?thesis by simp
  qed
qed

lemma ring_remove:
  assumes r: "ring nx pv xs" and p: "p \<in> set xs" and ne: "xs \<noteq> [p]"
    and n: "nx p = Some n" and q: "pv p = Some q"
  shows "ring (nx(q := Some n)) (pv(n := Some q)) (remove1 p xs)"
proof -
  obtain a b where xs: "xs = a @ p # b" using p by (auto dest: split_list)
  have "distinct xs" using r by (simp add: ring_def)
  then have rm: "remove1 p xs = a @ b" by (simp add: xs remove1_append)
  have "ring nx pv (p # b @ a)" using r ring_append_swap [of nx pv a "p # b"] by (simp add: xs)
  then have "ring (nx(q := Some n)) (pv(n := Some q)) (b @ a)"
    using ring_remove_hd [of nx pv p "b @ a" n q] n q ne xs by (cases a) auto
  then show ?thesis by (simp add: rm ring_append_swap [of _ _ b a])
qed

lemma ring_prev_self: "ring nx pv xs \<Longrightarrow> p \<in> set xs \<Longrightarrow> pv p = Some p \<longleftrightarrow> xs = [p]"
proof -
  assume r: "ring nx pv xs" and p: "p \<in> set xs"
  obtain a b where xs: "xs = a @ p # b" using p by (auto dest: split_list)
  have r': "ring nx pv (p # b @ a)" using r ring_append_swap [of nx pv a "p # b"] by (simp add: xs)
  show ?thesis
  proof (cases "b @ a")
    case (Cons x u)
    with r' have "pv p = Some (last (x # u))" "p \<notin> set (x # u)" by (auto simp: ring_Cons2)
    moreover have "last (x # u) \<in> set (x # u)" by (rule last_in_set) simp
    moreover have "xs \<noteq> [p]" using Cons xs by (cases a) auto
    ultimately show ?thesis by auto
  qed (use r' xs in auto)
qed

lemma ring_links:
  assumes "ring nx pv xs" and "p \<in> set xs"
  obtains n q where "nx p = Some n" "pv p = Some q" "n \<in> set xs" "q \<in> set xs" "nx q = Some p" "pv n = Some p"
proof -
  obtain a b where xs: "xs = a @ p # b" using assms(2) by (auto dest: split_list)
  have r: "ring nx pv (p # b @ a)" using assms(1) ring_append_swap [of nx pv a "p # b"] by (simp add: xs)
  show thesis
  proof (cases "b @ a")
    case Nil
    with r xs show ?thesis by (intro that) auto
  next
    case (Cons x u)
    have "last (x # u) \<in> set (b @ a)" "x \<in> set (b @ a)" unfolding Cons by (auto intro: last_in_set)
    with r [unfolded Cons ring_Cons2] xs show ?thesis by (intro that [of x "last (x # u)"]) auto
  qed
qed

section \<open>The two lists as Isabelle lists\<close>

definition ring_view :: "int option \<Rightarrow> 'a kstate_scheme \<Rightarrow> int list \<Rightarrow> bool" where
  "ring_view hd_ptr s q \<longleftrightarrow>
     (case q of [] \<Rightarrow> hd_ptr = None | h # t \<Rightarrow> hd_ptr = Some h \<and> ring (nxt s) (prv s) q)"

abbreviation ready_view :: "'a kstate_scheme \<Rightarrow> int list \<Rightarrow> bool" where
  "ready_view s \<equiv> ring_view (proc_ready s) s"

abbreviation free_view :: "'a kstate_scheme \<Rightarrow> int list \<Rightarrow> bool" where
  "free_view s \<equiv> ring_view (proc_free s) s"

text \<open>A new entry is linked right after the head.\<close>

fun ring_ins :: "'a \<Rightarrow> 'a list \<Rightarrow> 'a list" where
  "ring_ins p [] = [p]"
| "ring_ins p (h # t) = h # p # t"

text \<open>Removing from the free list moves the head to the successor of the entry.\<close>

definition free_del :: "'a \<Rightarrow> 'a list \<Rightarrow> 'a list" where
  "free_del p q = tl (dropWhile (\<lambda>x. x \<noteq> p) q) @ takeWhile (\<lambda>x. x \<noteq> p) q"

lemma set_ring_ins [simp]: "set (ring_ins p q) = insert p (set q)"
  by (cases q) auto

lemma distinct_ring_ins [simp]: "distinct (ring_ins p q) \<longleftrightarrow> p \<notin> set q \<and> distinct q"
  by (cases q) auto

lemma free_del_split: "p \<notin> set a \<Longrightarrow> free_del p (a @ p # b) = b @ a"
proof -
  assume "p \<notin> set a"
  then have "dropWhile (\<lambda>x. x \<noteq> p) (a @ p # b) = p # b" "takeWhile (\<lambda>x. x \<noteq> p) (a @ p # b) = a"
    by (induction a) auto
  then show ?thesis by (simp add: free_del_def)
qed

lemma set_free_del: "distinct q \<Longrightarrow> p \<in> set q \<Longrightarrow> set (free_del p q) = set q - {p}"
proof -
  assume d: "distinct q" and p: "p \<in> set q"
  from p obtain a b where q: "q = a @ p # b" by (auto dest: split_list)
  with d have "p \<notin> set a" "p \<notin> set b" by auto
  then show ?thesis using q by (auto simp: free_del_split)
qed

text \<open>What a list operation leaves alone: everything but the links of the entries in \<open>X\<close>
  and the two list heads.\<close>

definition link_frame :: "int set \<Rightarrow> 'a kstate_scheme \<Rightarrow> 'a kstate_scheme \<Rightarrow> bool" where
  "link_frame X s s' \<longleftrightarrow>
     s' = s\<lparr>proc_table := proc_table s', proc_ready := proc_ready s', proc_free := proc_free s'\<rparr> \<and>
     (\<forall>x. desc s' x = desc s x \<and> pl_pid (proc_table s' x) = pl_pid (proc_table s x)) \<and>
     (\<forall>x. x \<notin> X \<longrightarrow> proc_table s' x = proc_table s x)"

lemma link_frame_desc: "link_frame X s s' \<Longrightarrow> desc s' x = desc s x"
  and link_frame_pid: "link_frame X s s' \<Longrightarrow> pl_pid (proc_table s' x) = pl_pid (proc_table s x)"
  and link_frame_entry: "link_frame X s s' \<Longrightarrow> x \<notin> X \<Longrightarrow> proc_table s' x = proc_table s x"
  by (simp_all add: link_frame_def)

lemma link_frame_ptr: "link_frame X s s' \<Longrightarrow> proc_ptr s' = proc_ptr s"
  and link_frame_ram: "link_frame X s s' \<Longrightarrow> ram s' = ram s"
  and link_frame_blk: "link_frame X s s' \<Longrightarrow> blk_sts s' = blk_sts s"
  and link_frame_mmu: "link_frame X s s' \<Longrightarrow> mmu s' = mmu s"
  by (cases s; cases s'; simp add: link_frame_def)+

lemmas link_frame_simps = link_frame_desc link_frame_pid link_frame_ptr link_frame_ram link_frame_blk
  link_frame_mmu

lemma link_frame_mono: "link_frame X s s' \<Longrightarrow> X \<subseteq> Y \<Longrightarrow> link_frame Y s s'"
  unfolding link_frame_def by blast

lemma link_frame_trans: "link_frame X s s' \<Longrightarrow> link_frame X s' s'' \<Longrightarrow> link_frame X s s''"
  by (cases s; cases s'; cases s''; simp add: link_frame_def)

lemma ring_view_frame:
  "ring_view h s q \<Longrightarrow> (\<And>x. x \<in> set q \<Longrightarrow> proc_table s' x = proc_table s x) \<Longrightarrow> ring_view h s' q"
  using ring_cong [of q "nxt s" "nxt s'" "prv s" "prv s'"]
  by (auto simp: ring_view_def split: list.splits)

lemma ring_view_distinct: "ring_view h s q \<Longrightarrow> distinct q"
  by (auto simp: ring_view_def ring_def split: list.splits)

lemma link_simps:
  "pl_next (proc_table (set_next p v s) x) = (if x = p then v else nxt s x)"
  "pl_next (proc_table (set_prev p v s) x) = nxt s x"
  "pl_prev (proc_table (set_next p v s) x) = prv s x"
  "pl_prev (proc_table (set_prev p v s) x) = (if x = p then v else prv s x)"
  "pl_d (proc_table (set_next p v s) x) = desc s x"
  "pl_d (proc_table (set_prev p v s) x) = desc s x"
  "pl_pid (proc_table (set_next p v s) x) = pl_pid (proc_table s x)"
  "pl_pid (proc_table (set_prev p v s) x) = pl_pid (proc_table s x)"
  by (simp_all add: set_next_def set_prev_def)

lemma heads_set_links:
  "proc_ready (set_next p v s) = proc_ready s" "proc_ready (set_prev p v s) = proc_ready s"
  "proc_free (set_next p v s) = proc_free s" "proc_free (set_prev p v s) = proc_free s"
  by (simp_all add: set_next_def set_prev_def)

lemma link_frame_set_next: "p \<in> X \<Longrightarrow> link_frame X s (set_next p v s)"
  and link_frame_set_prev: "p \<in> X \<Longrightarrow> link_frame X s (set_prev p v s)"
  and link_frame_ready: "link_frame X s (s\<lparr>proc_ready := h\<rparr>)"
  and link_frame_free: "link_frame X s (s\<lparr>proc_free := h\<rparr>)"
  by (auto simp: link_frame_def set_next_def set_prev_def)

section \<open>What the list operations do\<close>

text \<open>The stores both insertions and both removals make, once the links are known.\<close>

definition link_in :: "int \<Rightarrow> int \<Rightarrow> int \<Rightarrow> 'a kstate_scheme \<Rightarrow> 'a kstate_scheme" where
  "link_in p h n s = set_next h (Some p) (set_prev n (Some p) (set_next p (Some n) (set_prev p (Some h) s)))"

definition link_out :: "int \<Rightarrow> int \<Rightarrow> 'a kstate_scheme \<Rightarrow> 'a kstate_scheme" where
  "link_out n r s = set_next r (Some n) (set_prev n (Some r) s)"

lemma heads_link: "proc_ready (link_in p h n s) = proc_ready s" "proc_free (link_in p h n s) = proc_free s"
  "proc_ready (link_out n r s) = proc_ready s" "proc_free (link_out n r s) = proc_free s"
  by (simp_all add: link_in_def link_out_def heads_set_links)

lemma link_in_links:
  "nxt (link_in p h n s) = (nxt s)(p := Some n, h := Some p)"
  "prv (link_in p h n s) = (prv s)(p := Some h, n := Some p)"
  by (auto simp: link_in_def link_simps fun_eq_iff)

lemma link_out_links:
  "nxt (link_out n r s) = (nxt s)(r := Some n)"
  "prv (link_out n r s) = (prv s)(n := Some r)"
  by (auto simp: link_out_def link_simps fun_eq_iff)

lemma link_in_frame: "{p, h, n} \<subseteq> X \<Longrightarrow> link_frame X s (link_in p h n s)"
  unfolding link_in_def
  by (intro link_frame_trans [OF _ link_frame_set_next] link_frame_trans [OF _ link_frame_set_prev]
      link_frame_set_prev) simp_all

lemma link_out_frame: "{n, r} \<subseteq> X \<Longrightarrow> link_frame X s (link_out n r s)"
  unfolding link_out_def
  by (intro link_frame_trans [OF _ link_frame_set_next] link_frame_set_prev) simp_all

lemma link_in_view:
  assumes "ring_view hp s q" and "p \<notin> set q" and "q = h # t" and "nxt s h = Some n"
  shows "ring_view hp (link_in p h n s) (ring_ins p q) \<and> link_frame (insert p (set q)) s (link_in p h n s)"
proof -
  have r: "ring (nxt s) (prv s) (h # t)" using assms by (simp add: ring_view_def)
  have n: "n \<in> set q" by (rule ring_links [OF r, of h]) (use assms in auto)
  have "ring (nxt (link_in p h n s)) (prv (link_in p h n s)) (h # p # t)"
    unfolding link_in_links by (rule ring_insert [OF r _ assms(4)]) (use assms in simp)
  moreover have "link_frame (insert p (set q)) s (link_in p h n s)"
    by (rule link_in_frame) (use n assms(3) in auto)
  ultimately show ?thesis using assms by (simp add: ring_view_def)
qed

lemma ring_links_other:
  assumes r: "ring nx pv q" and p: "p \<in> set q" and "q \<noteq> [p]" and "nx p = Some n" and "pv p = Some r"
  shows "n \<in> set q \<and> r \<in> set q \<and> n \<noteq> p \<and> r \<noteq> p"
proof -
  obtain n' r' where "nx p = Some n'" "pv p = Some r'" "n' \<in> set q" "r' \<in> set q" "pv n' = Some p"
    by (rule ring_links [OF r p])
  moreover have "pv p \<noteq> Some p" using ring_prev_self [OF r p] assms(3) by simp
  ultimately show ?thesis using assms(4,5) by auto
qed

lemma link_out_ring:
  assumes r: "ring (nxt s) (prv s) q" and "p \<in> set q" and "q \<noteq> [p]" and "nxt s p = Some n" and "prv s p = Some r"
  shows "ring (nxt (link_out n r s)) (prv (link_out n r s)) (remove1 p q) \<and> link_frame (set q) s (link_out n r s) \<and>
    nxt (link_out n r s) p = Some n \<and> prv (link_out n r s) p = Some r"
proof -
  note o = ring_links_other [OF assms]
  have "ring (nxt (link_out n r s)) (prv (link_out n r s)) (remove1 p q)"
    unfolding link_out_links by (rule ring_remove [OF assms])
  moreover have "link_frame (set q) s (link_out n r s)" by (rule link_out_frame) (use o in simp)
  moreover have "nxt (link_out n r s) p = Some n" "prv (link_out n r s) p = Some r"
    using o assms(4,5) by (simp_all add: link_out_def link_simps)
  ultimately show ?thesis by simp
qed

lemma proc_add_to_ready_list_ok:
  assumes "ready_view s q" and "p \<notin> set q"
  shows "\<exists>s'. proc_add_to_ready_list p s = KOk s' \<and> ready_view s' (ring_ins p q) \<and>
    link_frame (insert p (set q)) s s' \<and> proc_free s' = proc_free s"
proof (cases q)
  case Nil
  let ?s = "set_next p (Some p) (set_prev p (Some p) (s\<lparr>proc_ready := Some p\<rparr>))"
  have "proc_add_to_ready_list p s = KOk ?s"
    using assms Nil by (simp add: proc_add_to_ready_list_def ring_view_def)
  moreover have "ready_view ?s [p]" by (simp add: ring_view_def link_simps heads_set_links)
  moreover have "link_frame {p} s ?s"
    by (rule link_frame_trans [OF link_frame_trans [OF link_frame_ready link_frame_set_prev] link_frame_set_next])
      simp_all
  ultimately show ?thesis using Nil by (simp add: heads_set_links)
next
  case (Cons h t)
  have rd: "proc_ready s = Some h" using assms Cons by (simp add: ring_view_def)
  have r: "ring (nxt s) (prv s) q" using assms Cons by (simp add: ring_view_def)
  obtain n where n: "nxt s h = Some n" by (rule ring_links [OF r, of h]) (use Cons in auto)
  have "proc_add_to_ready_list p s = KOk (link_in p h n s)"
    using assms(2) Cons rd n
    by (auto simp: proc_add_to_ready_list_def link_in_def store_prev_def Let_def link_simps)
  with link_in_view [OF assms Cons n] show ?thesis by (simp add: heads_link)
qed

lemma proc_add_to_free_list_ok:
  assumes "free_view s q" and "p \<notin> set q"
  shows "\<exists>s'. proc_add_to_free_list p s = KOk s' \<and> free_view s' (ring_ins p q) \<and>
    link_frame (insert p (set q)) s s' \<and> proc_ready s' = proc_ready s"
proof (cases q)
  case Nil
  let ?s = "set_next p (Some p) (set_prev p (Some p) (s\<lparr>proc_free := Some p\<rparr>))"
  have "proc_add_to_free_list p s = KOk ?s"
    using assms Nil by (simp add: proc_add_to_free_list_def ring_view_def)
  moreover have "free_view ?s [p]" by (simp add: ring_view_def link_simps heads_set_links)
  moreover have "link_frame {p} s ?s"
    by (rule link_frame_trans [OF link_frame_trans [OF link_frame_free link_frame_set_prev] link_frame_set_next])
      simp_all
  ultimately show ?thesis using Nil by (simp add: heads_set_links)
next
  case (Cons h t)
  have rd: "proc_free s = Some h" using assms Cons by (simp add: ring_view_def)
  have r: "ring (nxt s) (prv s) q" using assms Cons by (simp add: ring_view_def)
  obtain n where n: "nxt s h = Some n" by (rule ring_links [OF r, of h]) (use Cons in auto)
  have "proc_add_to_free_list p s = KOk (link_in p h n s)"
    using assms(2) Cons rd n
    by (auto simp: proc_add_to_free_list_def link_in_def store_prev_def Let_def link_simps)
  with link_in_view [OF assms Cons n] show ?thesis by (simp add: heads_link)
qed

lemma ring_view_ring: "ring_view h s q \<Longrightarrow> q \<noteq> [] \<Longrightarrow> ring (nxt s) (prv s) q \<and> h = Some (hd q)"
  by (cases q) (auto simp: ring_view_def)

lemma ring_viewI: "ring (nxt s) (prv s) q \<Longrightarrow> q \<noteq> [] \<Longrightarrow> h = Some (hd q) \<Longrightarrow> ring_view h s q"
  by (cases q) (auto simp: ring_view_def)

lemma set_none_frame: "p \<in> X \<Longrightarrow> link_frame X s s' \<Longrightarrow> link_frame X s (set_next p None (set_prev p None s'))"
  by (rule link_frame_trans [OF link_frame_trans [OF _ link_frame_set_prev] link_frame_set_next])

lemma set_none_ring:
  "p \<notin> set q \<Longrightarrow> ring (nxt s) (prv s) q \<Longrightarrow>
    ring (nxt (set_next p None (set_prev p None s))) (prv (set_next p None (set_prev p None s))) q"
  using ring_cong [of q "nxt s" "nxt (set_next p None (set_prev p None s))" "prv s"
      "prv (set_next p None (set_prev p None s))"]
  by (force simp: link_simps)

lemma ring_second:
  assumes r: "ring nx pv q" and p: "q \<noteq> [p]" "q = p # t" and l: "nx p = Some n"
  shows "n = hd (remove1 p q)"
  using assms by (cases t) (auto simp: ring_Cons2)

lemma proc_remove_from_ready_list_ok:
  assumes v: "ready_view s q" and p: "p \<in> set q" and ne: "q \<noteq> [p]"
  shows "\<exists>s'. proc_remove_from_ready_list p s = KOk s' \<and> ready_view s' (remove1 p q) \<and>
    link_frame (set q) s s' \<and> proc_free s' = proc_free s"
proof -
  have q0: "q \<noteq> []" using p by auto
  from ring_view_ring [OF v q0] have r: "ring (nxt s) (prv s) q" and hd: "proc_ready s = Some (hd q)" by auto
  obtain n r' where l: "nxt s p = Some n" "prv s p = Some r'" by (rule ring_links [OF r p])
  note ot = ring_links_other [OF r p ne l]
  let ?s2 = "link_out n r' s"
  let ?s3 = "if proc_ready s = Some p then ?s2\<lparr>proc_ready := Some n\<rparr> else ?s2"
  let ?s4 = "set_next p None (set_prev p None ?s3)"
  from link_out_ring [OF r p ne l] have o: "ring (nxt ?s2) (prv ?s2) (remove1 p q)" "link_frame (set q) s ?s2"
    by auto
  have op: "proc_remove_from_ready_list p s = KOk ?s4"
    using ot l by (simp add: proc_remove_from_ready_list_def store_prev_def store_next_def Let_def link_simps
        link_out_def heads_set_links)
  have pn: "p \<notin> set (remove1 p q)" using ring_view_distinct [OF v] by simp
  have o3: "ring (nxt ?s3) (prv ?s3) (remove1 p q)" "link_frame (set q) s ?s3"
    using o by (auto intro: link_frame_trans [OF _ link_frame_ready])
  have "proc_ready ?s4 = Some (hd (remove1 p q))"
  proof (cases "hd q = p")
    case True
    with q0 obtain t where "q = p # t" by (cases q) auto
    from ring_second [OF r ne this l(1)] True hd show ?thesis by (simp add: heads_set_links)
  next
    case False
    with q0 have "hd (remove1 p q) = hd q" by (cases q) auto
    with False hd show ?thesis by (simp add: heads_set_links heads_link)
  qed
  moreover have "remove1 p q \<noteq> []" using p ne by (cases q) auto
  ultimately have "ready_view ?s4 (remove1 p q)"
    using set_none_ring [OF pn o3(1)] by (intro ring_viewI) auto
  moreover have "proc_free ?s4 = proc_free s" by (simp add: heads_set_links heads_link)
  ultimately show ?thesis using op set_none_frame [OF p o3(2)] by simp
qed

lemma free_del_rotate: "distinct q \<Longrightarrow> p \<in> set q \<Longrightarrow> ring nx pv (remove1 p q) = ring nx pv (free_del p q)"
proof -
  assume d: "distinct q" and p: "p \<in> set q"
  from p obtain a b where q: "q = a @ p # b" by (auto dest: split_list)
  with d have "remove1 p q = a @ b" "free_del p q = b @ a" by (simp_all add: remove1_append free_del_split)
  then show ?thesis by (simp add: ring_append_swap [of nx pv a b])
qed

lemma free_del_hd:
  assumes r: "ring nx pv q" and p: "p \<in> set q" "q \<noteq> [p]" and l: "nx p = Some n"
  shows "free_del p q \<noteq> [] \<and> hd (free_del p q) = n"
proof -
  from p obtain a b where q: "q = a @ p # b" by (auto dest: split_list)
  have d: "distinct q" using r by (simp add: ring_def)
  then have f: "free_del p q = b @ a" using q by (simp add: free_del_split)
  have "ring nx pv (p # b @ a)" using r ring_append_swap [of nx pv a "p # b"] by (simp add: q)
  from ring_next [OF this] l have "n = hd (b @ a @ [p])" by simp
  moreover have "b @ a \<noteq> []" using p q by (cases a) auto
  ultimately show ?thesis using f by (cases b; cases a) auto
qed

lemma proc_remove_from_free_list_ok:
  assumes v: "free_view s q" and p: "p \<in> set q"
  shows "\<exists>s'. proc_remove_from_free_list p s = KOk s' \<and> free_view s' (free_del p q) \<and>
    link_frame (set q) s s' \<and> proc_ready s' = proc_ready s"
proof (cases "q = [p]")
  case True
  with v show ?thesis
    by (auto simp: proc_remove_from_free_list_def ring_view_def free_del_def intro: link_frame_free)
next
  case ne: False
  have q0: "q \<noteq> []" using p by auto
  from ring_view_ring [OF v q0] have r: "ring (nxt s) (prv s) q" by auto
  obtain n r' where l: "nxt s p = Some n" "prv s p = Some r'" by (rule ring_links [OF r p])
  note ot = ring_links_other [OF r p ne l]
  let ?s2 = "link_out n r' s"
  from link_out_ring [OF r p ne l] have o: "ring (nxt ?s2) (prv ?s2) (remove1 p q)" "link_frame (set q) s ?s2"
    by auto
  have op: "proc_remove_from_free_list p s = KOk (?s2\<lparr>proc_free := Some n\<rparr>)"
    using ot l by (simp add: proc_remove_from_free_list_def store_prev_def store_next_def link_simps link_out_def)
  have "ring (nxt ?s2) (prv ?s2) (free_del p q)"
    using o(1) free_del_rotate [OF ring_view_distinct [OF v] p] by simp
  then have "free_view (?s2\<lparr>proc_free := Some n\<rparr>) (free_del p q)"
    using free_del_hd [OF r p ne l(1)] by (intro ring_viewI) auto
  moreover have "link_frame (set q) s (?s2\<lparr>proc_free := Some n\<rparr>)"
    by (rule link_frame_trans [OF o(2) link_frame_free])
  ultimately show ?thesis using op by (simp add: heads_link)
qed

section \<open>The lists as an interface\<close>

text \<open>
  The rest of the kernel only adds a process to a list and removes one from it. A sequence of
  such calls is a list of commands; on the contract of the two operations it behaves as
  insertion into and removal from a set, and touches no descriptor.
\<close>

datatype queue_cmd = QAdd int | QRem int

fun queue_run :: "(int \<Rightarrow> 'a kstate_scheme \<Rightarrow> 'a kstate_scheme kres) \<Rightarrow>
    (int \<Rightarrow> 'a kstate_scheme \<Rightarrow> 'a kstate_scheme kres) \<Rightarrow> queue_cmd list \<Rightarrow>
    'a kstate_scheme \<Rightarrow> 'a kstate_scheme kres" where
  "queue_run add rem [] s = KOk s"
| "queue_run add rem (QAdd p # cs) s = kbind (add p s) (queue_run add rem cs)"
| "queue_run add rem (QRem p # cs) s = kbind (rem p s) (queue_run add rem cs)"

fun queue_set :: "queue_cmd list \<Rightarrow> int set \<Rightarrow> int set" where
  "queue_set [] A = A"
| "queue_set (QAdd p # cs) A = queue_set cs (insert p A)"
| "queue_set (QRem p # cs) A = queue_set cs (A - {p})"

text \<open>The calls the kernel makes: no double insertion, no removal of an absent process, and,
  for the ready list, never the last one.\<close>

fun queue_valid :: "bool \<Rightarrow> queue_cmd list \<Rightarrow> int set \<Rightarrow> bool" where
  "queue_valid e [] A = True"
| "queue_valid e (QAdd p # cs) A = (p \<notin> A \<and> queue_valid e cs (insert p A))"
| "queue_valid e (QRem p # cs) A = (p \<in> A \<and> (e \<or> A \<noteq> {p}) \<and> queue_valid e cs (A - {p}))"

locale proc_queue =
  fixes view :: "'a kstate_scheme \<Rightarrow> int list \<Rightarrow> bool"
    and add :: "int \<Rightarrow> 'a kstate_scheme \<Rightarrow> 'a kstate_scheme kres"
    and rem :: "int \<Rightarrow> 'a kstate_scheme \<Rightarrow> 'a kstate_scheme kres"
    and del :: "int \<Rightarrow> int list \<Rightarrow> int list"
    and may_empty :: bool
  assumes add_law: "view s q \<Longrightarrow> p \<notin> set q \<Longrightarrow>
      \<exists>s'. add p s = KOk s' \<and> view s' (ring_ins p q) \<and> link_frame (insert p (set q)) s s'"
    and rem_law: "view s q \<Longrightarrow> p \<in> set q \<Longrightarrow> may_empty \<or> q \<noteq> [p] \<Longrightarrow>
      \<exists>s'. rem p s = KOk s' \<and> view s' (del p q) \<and> link_frame (set q) s s'"
    and del_set: "distinct q \<Longrightarrow> p \<in> set q \<Longrightarrow> set (del p q) = set q - {p}"
    and view_distinct: "view s q \<Longrightarrow> distinct q"
begin

lemma add_view:
  assumes "view s q" and "p \<notin> set q"
  obtains s' where "add p s = KOk s'" "view s' (ring_ins p q)" "link_frame (insert p (set q)) s s'"
  using add_law [OF assms] by auto

lemma rem_view:
  assumes "view s q" and "p \<in> set q" and "may_empty \<or> q \<noteq> [p]"
  obtains s' where "rem p s = KOk s'" "view s' (del p q)" "link_frame (set q) s s'"
  using rem_law [OF assms] by auto

lemma run_set:
  "view s q \<Longrightarrow> queue_valid may_empty cs (set q) \<Longrightarrow>
    \<exists>s' q'. queue_run add rem cs s = KOk s' \<and> view s' q' \<and> set q' = queue_set cs (set q) \<and>
      (\<forall>x. desc s' x = desc s x)"
proof (induction cs arbitrary: s q)
  case (Cons c cs)
  show ?case
  proof (cases c)
    case (QAdd p)
    with Cons.prems have "p \<notin> set q" by simp
    from add_view [OF Cons.prems(1) this] obtain s1 where s1: "add p s = KOk s1"
      "view s1 (ring_ins p q)" "link_frame (insert p (set q)) s s1" .
    with Cons.IH [OF s1(2)] Cons.prems(2) QAdd link_frame_desc [OF s1(3)] show ?thesis by auto
  next
    case (QRem p)
    with Cons.prems have "p \<in> set q" "may_empty \<or> q \<noteq> [p]" by auto
    from rem_view [OF Cons.prems(1) this] obtain s1 where s1: "rem p s = KOk s1"
      "view s1 (del p q)" "link_frame (set q) s s1" .
    have "set (del p q) = set q - {p}"
      by (rule del_set [OF view_distinct [OF Cons.prems(1)] \<open>p \<in> set q\<close>])
    with s1 Cons.IH [OF s1(2)] Cons.prems(2) QRem link_frame_desc [OF s1(3)] show ?thesis by auto
  qed
qed auto

end

interpretation readyq: proc_queue ready_view proc_add_to_ready_list proc_remove_from_ready_list remove1 False
proof
  fix s :: "'a kstate_scheme" and q p
  show "ready_view s q \<Longrightarrow> p \<notin> set q \<Longrightarrow> \<exists>s'. proc_add_to_ready_list p s = KOk s' \<and>
      ready_view s' (ring_ins p q) \<and> link_frame (insert p (set q)) s s'"
    using proc_add_to_ready_list_ok by blast
  show "ready_view s q \<Longrightarrow> p \<in> set q \<Longrightarrow> False \<or> q \<noteq> [p] \<Longrightarrow>
      \<exists>s'. proc_remove_from_ready_list p s = KOk s' \<and> ready_view s' (remove1 p q) \<and> link_frame (set q) s s'"
    using proc_remove_from_ready_list_ok by blast
qed (auto dest: ring_view_distinct)

interpretation freeq: proc_queue free_view proc_add_to_free_list proc_remove_from_free_list free_del True
proof
  fix s :: "'a kstate_scheme" and q p
  show "free_view s q \<Longrightarrow> p \<notin> set q \<Longrightarrow> \<exists>s'. proc_add_to_free_list p s = KOk s' \<and>
      free_view s' (ring_ins p q) \<and> link_frame (insert p (set q)) s s'"
    using proc_add_to_free_list_ok by blast
  show "free_view s q \<Longrightarrow> p \<in> set q \<Longrightarrow> True \<or> q \<noteq> [p] \<Longrightarrow>
      \<exists>s'. proc_remove_from_free_list p s = KOk s' \<and> free_view s' (free_del p q) \<and> link_frame (set q) s s'"
    using proc_remove_from_free_list_ok by blast
qed (auto dest: ring_view_distinct simp: set_free_del)

end
