(* ===== verification/Proc.thy ===== *)
theory Proc
  imports ProcTable
begin

text \<open>
  The process manager of software/system/kernel/proc.c: creation, fork, exit and kill of
  processes, memory of a process, the scheduler and signals. Interrupt masking
  (\<open>k_lock\<close>/\<open>k_unlock\<close>) makes each operation atomic and is not a state change of its own;
  debug output is left out.
\<close>

section \<open>Creation\<close>

text \<open>\<open>&_proc_table[p]\<close>: an index outside the table is a fault.\<close>

definition entry :: "pid \<Rightarrow> (int \<Rightarrow> 'b kres) \<Rightarrow> 'b kres" where
  "entry p f = (if 0 \<le> p \<and> p < K_PROC_COUNT then f p else KFault)"

text \<open>\<open>strncpy(proc->d.name, name, K_PROC_NAME_MAX_LEN)\<close>.\<close>

definition copy_name :: "int \<Rightarrow> u8 list \<Rightarrow> 'a kstate_scheme \<Rightarrow> 'a kstate_scheme kres" where
  "copy_name p name s =
     (case strncpy (p_name (desc s p)) name K_PROC_NAME_MAX_LEN of
        None \<Rightarrow> KFault
      | Some nm \<Rightarrow> KOk (upd_desc p (\<lambda>d. d\<lparr>p_name := nm\<rparr>) s))"

definition task_desc :: "u32 \<Rightarrow> u32 \<Rightarrow> u32 \<Rightarrow> proc_desc \<Rightarrow> proc_desc" where
  "task_desc pc0 stk stk_sz d =
     d\<lparr>pc := pc0, a_regs := (a_regs d)(7 := stk + stk_sz), sr := 0x2000, sig_mask := 0, ppid := 0,
       uid := PROC_UID_KERNEL\<rparr>"

definition proc_create_task ::
    "pid \<Rightarrow> u8 list \<Rightarrow> u32 \<Rightarrow> u32 \<Rightarrow> u32 \<Rightarrow> 'a kstate_scheme \<Rightarrow> (pid \<times> 'a kstate_scheme) kres" where
  "proc_create_task p name pc0 stk stk_sz s =
     (let start = (\<lambda>q.
            kbind (proc_remove_from_free_list q s) (\<lambda>s1.
            kbind (proc_add_to_ready_list q s1) (\<lambda>s2.
            let s3 = upd_desc q (\<lambda>_. task_desc pc0 stk stk_sz zero_desc) s2 in
            kbind (copy_name q name s3) (\<lambda>s4.
            let s5 = upd_desc q (\<lambda>d. d\<lparr>p_state := ST_READY, mem_ad := 0, mem_sz := 0xffffff, stackb := stk\<rparr>) s4
            in KOk (p, s5\<lparr>ram := store32 (ram s5) stk 0xDEADBEEF\<rparr>)))))
      in if p = PROC_PID_ANY
         then (case proc_free s of None \<Rightarrow> KOk (PROC_PID_NONE, s) | Some q \<Rightarrow> start q)
         else entry p (\<lambda>q. if p_state (desc s q) \<noteq> ST_NONE then KOk (PROC_PID_NONE, s) else start q))"

text \<open>The table \<open>proc_init\<close> builds: every entry cleared and linked into one ring.\<close>

definition init_entry :: "int \<Rightarrow> proc_list" where
  "init_entry p = \<lparr>pl_d = zero_desc, pl_pid = p,
     pl_next = Some (if p = K_PROC_COUNT - 1 then 0 else p + 1),
     pl_prev = Some (if p = 0 then K_PROC_COUNT - 1 else p - 1)\<rparr>"

definition idle_name :: "u8 list" where
  "idle_name = [105, 100, 108, 101, 0]"

definition proc_init :: "u32 \<Rightarrow> u32 \<Rightarrow> 'a kstate_scheme \<Rightarrow> 'a kstate_scheme kres" where
  "proc_init idle_task idle_stack s =
     (let s1 = s\<lparr>proc_table := (\<lambda>p. if 0 \<le> p \<and> p < K_PROC_COUNT then init_entry p else proc_table s p),
                 proc_free := Some 0, proc_ready := None, proc_ptr := None\<rparr>
      in kbind (proc_create_task K_PROC_IDLE idle_name idle_task idle_stack 512 s1) (\<lambda>(_, s2). KOk s2))"

definition proc_create_init :: "u8 list \<Rightarrow> u32 \<Rightarrow> 'a kstate_scheme \<Rightarrow> (pid \<times> 'a kstate_scheme) kres" where
  "proc_create_init name size0 s =
     (case proc_free s of
        None \<Rightarrow> KOk (PROC_PID_NONE, s)
      | Some q \<Rightarrow>
          kbind (proc_remove_from_free_list q s) (\<lambda>s1.
          let s2 = upd_desc q (\<lambda>_. zero_desc\<lparr>sr := 0, sig_mask := 0, ppid := 0, uid := PROC_UID_ROOT\<rparr>) s1 in
          kbind (copy_name q name s2) (\<lambda>s3.
          let s4 = upd_desc q (\<lambda>d. d\<lparr>m_from := PROC_PID_NONE, m_to := PROC_PID_NONE\<rparr>) s3 in
          kbind (mem_realloc (pl_pid (proc_table s4 q)) 0 0 size0 s4) (\<lambda>(ad, s5).
          let s6 = upd_desc q (\<lambda>d. d\<lparr>mem_ad := ad, mem_sz := size0, p_state := ST_BLOCKED\<rparr>) s5
          in KOk (pl_pid (proc_table s6 q), s6)))))"

definition proc_fork :: "pid \<Rightarrow> 'a kstate_scheme \<Rightarrow> (pid \<times> 'a kstate_scheme) kres" where
  "proc_fork parent s =
     (case proc_free s of
        None \<Rightarrow> KOk (PROC_PID_NONE, s)
      | Some q \<Rightarrow>
          kbind (proc_remove_from_free_list q s) (\<lambda>s1.
          entry parent (\<lambda>pp.
          let s2 = upd_desc q (\<lambda>_. (desc s1 pp)\<lparr>ppid := parent\<rparr>) s1 in
          kbind (mem_realloc (pl_pid (proc_table s2 q)) 0 0 (mem_sz (desc s2 pp)) s2) (\<lambda>(ad, s3).
          if ad \<noteq> 0 then
            let s4 = upd_desc q (\<lambda>d. d\<lparr>mem_ad := ad, mem_sz := mem_sz (desc s3 pp)\<rparr>) s3;
                s5 = s4\<lparr>ram := memcpy (ram s4) ad (mem_ad (desc s4 pp)) (unat (mem_sz (desc s4 pp)))\<rparr>;
                s6 = upd_desc q (\<lambda>d. d\<lparr>p_state := ST_BLOCKED,
                       pa_msg := pa_msg (desc s5 pp) - mem_ad (desc s5 pp) + ad\<rparr>) s5
            in KOk (pl_pid (proc_table s6 q), s6)
          else KOk (PROC_PID_NONE, s3)))))"

section \<open>Attributes\<close>

text \<open>\<open>proc_get_pid\<close>: the first process in use with that name.\<close>

fun get_pid_scan :: "'a kstate_scheme \<Rightarrow> u8 list \<Rightarrow> pid list \<Rightarrow> pid kres" where
  "get_pid_scan s name [] = KOk PROC_PID_NONE"
| "get_pid_scan s name (p # ps) =
     (if p_state (desc s p) \<noteq> ST_NONE then
        (case strcmp (p_name (desc s p)) name of
           None \<Rightarrow> KFault
         | Some r \<Rightarrow> if r = 0 then KOk p else get_pid_scan s name ps)
      else get_pid_scan s name ps)"

definition proc_get_pid :: "u8 list \<Rightarrow> 'a kstate_scheme \<Rightarrow> pid kres" where
  "proc_get_pid name s = get_pid_scan s name [0..K_PROC_COUNT - 1]"

definition proc_current :: "'a kstate_scheme \<Rightarrow> pid kres" where
  "proc_current s = (case proc_ptr s of None \<Rightarrow> KFault | Some p \<Rightarrow> KOk (pl_pid (proc_table s p)))"

definition proc_get_state :: "pid \<Rightarrow> 'a kstate_scheme \<Rightarrow> proc_state kres" where
  "proc_get_state p s = entry p (\<lambda>q. KOk (p_state (desc s q)))"

definition proc_set_name :: "pid \<Rightarrow> u8 list \<Rightarrow> 'a kstate_scheme \<Rightarrow> 'a kstate_scheme kres" where
  "proc_set_name p name s = entry p (\<lambda>q. copy_name q name s)"

definition proc_set_uid :: "pid \<Rightarrow> u32 \<Rightarrow> 'a kstate_scheme \<Rightarrow> 'a kstate_scheme kres" where
  "proc_set_uid p new_uid s = entry p (\<lambda>q.
     if uid (desc s q) = PROC_UID_KERNEL \<or> uid (desc s q) = PROC_UID_ROOT
     then KOk (upd_desc q (\<lambda>d. d\<lparr>uid := new_uid\<rparr>) s) else KOk s)"

text \<open>A negative pid passes the test \<open>pid < K_PROC_COUNT\<close> and indexes before the table.\<close>

definition proc_get_uid :: "pid \<Rightarrow> 'a kstate_scheme \<Rightarrow> u32 kres" where
  "proc_get_uid p s =
     (if p < K_PROC_COUNT then
        entry p (\<lambda>q. KOk (if p_state (desc s q) \<noteq> ST_NONE then uid (desc s q) else PROC_UID_NONE))
      else KOk PROC_UID_NONE)"

definition proc_get_ppid :: "pid \<Rightarrow> 'a kstate_scheme \<Rightarrow> u32 kres" where
  "proc_get_ppid p s =
     (if p < K_PROC_COUNT then
        entry p (\<lambda>q. KOk (if p_state (desc s q) \<noteq> ST_NONE then word_of_int (ppid (desc s q)) else PROC_UID_NONE))
      else KOk PROC_UID_NONE)"

definition proc_get_sig :: "pid \<Rightarrow> 'a kstate_scheme \<Rightarrow> u16 kres" where
  "proc_get_sig p s = entry p (\<lambda>q. KOk (sig_mask (desc s q)))"

section \<open>Signals and termination\<close>

definition EABORT :: pid where "EABORT = - 2"

definition proc_sig :: "pid \<Rightarrow> u16 \<Rightarrow> 'a kstate_scheme \<Rightarrow> 'a kstate_scheme kres" where
  "proc_sig p sig s = entry p (\<lambda>q.
     if p_state (desc s q) = ST_BLOCKED then
       proc_add_to_ready_list q
         (upd_desc q (\<lambda>d. d\<lparr>m_from := PROC_PID_NONE, m_to := PROC_PID_NONE, p_state := ST_READY,
            d_regs := (d_regs d)(0 := word_of_int EABORT)\<rparr>) s)
     else if p_state (desc s q) = ST_READY then KOk (upd_desc q (\<lambda>d. d\<lparr>sig_mask := sig_mask d OR sig\<rparr>) s)
     else KOk s)"

definition proc_kill :: "pid \<Rightarrow> 'a kstate_scheme \<Rightarrow> 'a kstate_scheme kres" where
  "proc_kill p s = entry p (\<lambda>q.
     let s1 = (if uid (desc s q) \<noteq> PROC_UID_KERNEL then mem_free (mem_ad (desc s q)) (mem_sz (desc s q)) s else s) in
     kbind (if p_state (desc s1 q) = ST_READY then proc_remove_from_ready_list q s1 else KOk s1) (\<lambda>s2.
     proc_add_to_free_list q (upd_desc q (\<lambda>d. d\<lparr>p_state := ST_NONE\<rparr>) s2)))"

definition proc_exit :: "pid \<Rightarrow> u32 \<Rightarrow> 'a kstate_scheme \<Rightarrow> 'a kstate_scheme kres" where
  "proc_exit p eval s = entry p (\<lambda>q.
     let s1 = upd_desc q (\<lambda>d. d\<lparr>exit_val := eval\<rparr>) s in
     kbind (if p_state (desc s1 q) = ST_READY then proc_remove_from_ready_list q s1 else KOk s1) (\<lambda>s2.
     let s3 = upd_desc q (\<lambda>d. d\<lparr>p_state := ST_STOPPED\<rparr>) s2
     in proc_sig (ppid (desc s3 q)) SIGCHILD s3))"

definition proc_wait :: "pid \<Rightarrow> 'a kstate_scheme \<Rightarrow> 'a kstate_scheme kres" where
  "proc_wait p s = entry p (\<lambda>q. KOk (upd_desc q (\<lambda>d. d\<lparr>m_from := PROC_PID_NONE, m_to := PROC_PID_NONE\<rparr>) s))"

section \<open>Memory of a process\<close>

definition ALIGN32 :: "u32 \<Rightarrow> u32" where
  "ALIGN32 a = (a + 3) AND NOT 3"

definition ENOMEM :: int where "ENOMEM = 12"

definition proc_brk :: "pid \<Rightarrow> u32 \<Rightarrow> 'a kstate_scheme \<Rightarrow> (int \<times> 'a kstate_scheme) kres" where
  "proc_brk p sz s = entry p (\<lambda>q.
     kbind (mem_realloc p (mem_ad (desc s q)) (mem_sz (desc s q)) sz s) (\<lambda>(new_ad, s1).
     if new_ad = 0 then KOk (- ENOMEM, s1)
     else let s2 = upd_desc q (\<lambda>d. d\<lparr>pa_msg := pa_msg d - mem_ad d + new_ad\<rparr>) s1
          in KOk (0, upd_desc q (\<lambda>d. d\<lparr>mem_ad := new_ad, mem_sz := ALIGN32 sz\<rparr>) s2)))"

definition copy_to_user :: "pid \<Rightarrow> u32 \<Rightarrow> u32 \<Rightarrow> nat \<Rightarrow> 'a kstate_scheme \<Rightarrow> 'a kstate_scheme kres" where
  "copy_to_user p dst src n s = entry p (\<lambda>q.
     KOk (s\<lparr>ram := memcpy (ram s) (dst + mem_ad (desc s q)) src n\<rparr>))"

text \<open>The sum \<open>dst + len\<close> is a 32-bit sum.\<close>

definition va_to_pa :: "pid \<Rightarrow> u32 \<Rightarrow> u32 \<Rightarrow> 'a kstate_scheme \<Rightarrow> u32 kres" where
  "va_to_pa p dst len s = entry p (\<lambda>q.
     KOk (if dst + len > mem_sz (desc s q) then 0 else dst + mem_ad (desc s q)))"

text \<open>The scan for the null byte; \<open>maxlen\<close> is a 16-bit counter, so 0 counts as 65536.\<close>

fun str_scan :: "ram \<Rightarrow> u32 \<Rightarrow> nat \<Rightarrow> bool" where
  "str_scan r pa 0 = False"
| "str_scan r pa (Suc n) = (if r pa \<noteq> 0 then n \<noteq> 0 \<and> str_scan r (pa + 1) n else True)"

definition va_to_pa_str :: "pid \<Rightarrow> u32 \<Rightarrow> u16 \<Rightarrow> 'a kstate_scheme \<Rightarrow> u32 kres" where
  "va_to_pa_str p dst maxlen s = entry p (\<lambda>q.
     if dst \<ge> mem_sz (desc s q) then KOk 0
     else
       let maxlen1 = (if dst + ucast maxlen > mem_sz (desc s q) then ucast (mem_sz (desc s q) - dst) else maxlen);
           pa = dst + mem_ad (desc s q)
       in KOk (if str_scan (ram s) pa (if maxlen1 = 0 then 65536 else unat maxlen1) then pa else 0))"

section \<open>The scheduler\<close>

definition proc_schedule :: "pid \<Rightarrow> 'a kstate_scheme \<Rightarrow> (pid \<times> 'a kstate_scheme) kres" where
  "proc_schedule nx s =
     kbind (if nx = PROC_PID_ANY
            then (case proc_ready s of None \<Rightarrow> KPanic | Some r \<Rightarrow> KOk (nxt s r))
            else entry nx (\<lambda>q. KOk (if p_state (desc s q) = ST_READY then Some q else None)))
       (\<lambda>pp. case pp of
           None \<Rightarrow> KOk (PROC_PID_NONE, s)
         | Some q \<Rightarrow>
             let s1 = (if uid (desc s q) \<noteq> PROC_UID_KERNEL then mem_setup_mmu (mem_ad (desc s q)) (mem_sz (desc s q)) s
                       else s);
                 s2 = s1\<lparr>proc_ready := Some q, proc_ptr := Some q\<rparr>
             in KOk (pl_pid (proc_table s2 q), s2))"

end
