(* ===== verification/ProcInv.thy ===== *)
theory ProcInv
  imports Proc
begin

text \<open>
  The well-formedness of the process table and its preservation by the operations of
  \<open>Proc\<close>: the ready list holds exactly the processes in state \<open>READY\<close>, the free list
  exactly those in state \<open>NONE\<close>, and the idle task is always ready.
\<close>

section \<open>The lists as sets\<close>

definition pids :: "int set" where
  "pids = {0..31}"

lemma entry_pids: "p \<in> pids \<Longrightarrow> entry p f = f p"
  by (simp add: entry_def pids_def K_PROC_COUNT_def)

lemma entry_KOk: "entry p f = KOk r \<longleftrightarrow> p \<in> pids \<and> f p = KOk r"
  by (auto simp: entry_def pids_def K_PROC_COUNT_def)

definition links_ok :: "'a kstate_scheme \<Rightarrow> int set \<Rightarrow> int set \<Rightarrow> bool" where
  "links_ok s R F \<longleftrightarrow> R \<inter> F = {} \<and> (\<exists>rq fq. ready_view s rq \<and> free_view s fq \<and> set rq = R \<and> set fq = F)"

lemma links_ok_heads:
  assumes "links_ok s R F"
  shows "proc_ready s = None \<longleftrightarrow> R = {}" and "proc_free s = None \<longleftrightarrow> F = {}"
    and "proc_ready s = Some p \<Longrightarrow> p \<in> R" and "proc_free s = Some p \<Longrightarrow> p \<in> F"
proof -
  obtain rq fq where v: "ready_view s rq" "free_view s fq" "set rq = R" "set fq = F"
    using assms by (auto simp: links_ok_def)
  then show "proc_ready s = None \<longleftrightarrow> R = {}" "proc_free s = None \<longleftrightarrow> F = {}"
    "proc_ready s = Some p \<Longrightarrow> p \<in> R" "proc_free s = Some p \<Longrightarrow> p \<in> F"
    by (cases rq; cases fq; auto simp: ring_view_def)+
qed

lemma links_okI: "ready_view s rq \<Longrightarrow> free_view s fq \<Longrightarrow> set rq \<inter> set fq = {} \<Longrightarrow> links_ok s (set rq) (set fq)"
  by (auto simp: links_ok_def)

lemma links_okE:
  assumes "links_ok s R F"
  obtains rq fq where "ready_view s rq" "free_view s fq" "set rq \<inter> set fq = {}" "R = set rq" "F = set fq"
  using assms unfolding links_ok_def by blast

lemma ready_view_frame: "ready_view s q \<Longrightarrow> link_frame X s s' \<Longrightarrow> X \<inter> set q = {} \<Longrightarrow>
    proc_ready s' = proc_ready s \<Longrightarrow> ready_view s' q"
  and free_view_frame: "free_view s q \<Longrightarrow> link_frame X s s' \<Longrightarrow> X \<inter> set q = {} \<Longrightarrow>
    proc_free s' = proc_free s \<Longrightarrow> free_view s' q"
  using ring_view_frame [of _ s q s'] link_frame_entry [of X s s'] by (metis disjoint_iff)+

lemma links_add_ready:
  assumes "links_ok s R F" and pR: "p \<notin> R" and pF: "p \<notin> F"
  shows "\<exists>s'. proc_add_to_ready_list p s = KOk s' \<and> links_ok s' (insert p R) F \<and> link_frame UNIV s s'"
proof -
  obtain rq fq where v: "ready_view s rq" "free_view s fq" "set rq \<inter> set fq = {}"
    and RF: "R = set rq" "F = set fq"
    using assms(1) by (rule links_okE)
  have p: "p \<notin> set rq" "p \<notin> set fq" using pR pF RF by auto
  obtain s' where s': "proc_add_to_ready_list p s = KOk s'" "ready_view s' (ring_ins p rq)"
    "link_frame (insert p (set rq)) s s'" "proc_free s' = proc_free s"
    using proc_add_to_ready_list_ok [OF v(1) p(1)] by auto
  have "free_view s' fq"
    by (rule free_view_frame [OF v(2) s'(3) _ s'(4)]) (use v(3) p in auto)
  then have "links_ok s' (insert p (set rq)) (set fq)"
    using links_okI [of s' "ring_ins p rq" fq] s'(2) v(3) p by simp
  with s'(1) link_frame_mono [OF s'(3) subset_UNIV] show ?thesis by (simp add: RF)
qed

lemma links_rem_ready:
  assumes "links_ok s R F" and p0: "p \<in> R" and ne: "R \<noteq> {p}"
  shows "\<exists>s'. proc_remove_from_ready_list p s = KOk s' \<and> links_ok s' (R - {p}) F \<and> link_frame UNIV s s'"
proof -
  obtain rq fq where v: "ready_view s rq" "free_view s fq" "set rq \<inter> set fq = {}"
    and RF: "R = set rq" "F = set fq"
    using assms(1) by (rule links_okE)
  have p: "p \<in> set rq" using p0 RF by simp
  have ne1: "rq \<noteq> [p]" using ne RF by auto
  obtain s' where s': "proc_remove_from_ready_list p s = KOk s'" "ready_view s' (remove1 p rq)"
    "link_frame (set rq) s s'" "proc_free s' = proc_free s"
    using proc_remove_from_ready_list_ok [OF v(1) p ne1] by auto
  have d: "set (remove1 p rq) = set rq - {p}"
    using ring_view_distinct [OF v(1)] p by (simp add: set_free_del)
  have "free_view s' fq"
    by (rule free_view_frame [OF v(2) s'(3) _ s'(4)]) (use v(3) in auto)
  then have "links_ok s' (set (remove1 p rq)) (set fq)"
    using links_okI [of s' "(remove1 p rq)" "fq"] s'(2) v(3) d by auto
  with s'(1) link_frame_mono [OF s'(3) subset_UNIV] d show ?thesis by (simp add: RF)
qed

lemma links_add_free:
  assumes "links_ok s R F" and pR: "p \<notin> R" and pF: "p \<notin> F"
  shows "\<exists>s'. proc_add_to_free_list p s = KOk s' \<and> links_ok s' R (insert p F) \<and> link_frame UNIV s s'"
proof -
  obtain rq fq where v: "ready_view s rq" "free_view s fq" "set rq \<inter> set fq = {}"
    and RF: "R = set rq" "F = set fq"
    using assms(1) by (rule links_okE)
  have p: "p \<notin> set rq" "p \<notin> set fq" using pR pF RF by auto
  obtain s' where s': "proc_add_to_free_list p s = KOk s'" "free_view s' (ring_ins p fq)"
    "link_frame (insert p (set fq)) s s'" "proc_ready s' = proc_ready s"
    using proc_add_to_free_list_ok [OF v(2) p(2)] by auto
  have "ready_view s' rq"
    by (rule ready_view_frame [OF v(1) s'(3) _ s'(4)]) (use v(3) p in auto)
  then have "links_ok s' (set rq) (insert p (set fq))"
    using links_okI [of s' rq "ring_ins p fq"] s'(2) v(3) p by simp
  with s'(1) link_frame_mono [OF s'(3) subset_UNIV] show ?thesis by (simp add: RF)
qed

lemma links_rem_free:
  assumes "links_ok s R F" and p0: "p \<in> F"
  shows "\<exists>s'. proc_remove_from_free_list p s = KOk s' \<and> links_ok s' R (F - {p}) \<and> link_frame UNIV s s'"
proof -
  obtain rq fq where v: "ready_view s rq" "free_view s fq" "set rq \<inter> set fq = {}"
    and RF: "R = set rq" "F = set fq"
    using assms(1) by (rule links_okE)
  have p: "p \<in> set fq" using p0 RF by simp
  obtain s' where s': "proc_remove_from_free_list p s = KOk s'" "free_view s' (free_del p fq)"
    "link_frame (set fq) s s'" "proc_ready s' = proc_ready s"
    using proc_remove_from_free_list_ok [OF v(2) p] by auto
  have d: "set (free_del p fq) = set fq - {p}"
    using ring_view_distinct [OF v(2)] p by (simp add: set_free_del)
  have "ready_view s' rq"
    by (rule ready_view_frame [OF v(1) s'(3) _ s'(4)]) (use v(3) in auto)
  then have "links_ok s' (set rq) (set (free_del p fq))"
    using links_okI [of s' "rq" "(free_del p fq)"] s'(2) v(3) d by auto
  with s'(1) link_frame_mono [OF s'(3) subset_UNIV] d show ?thesis by (simp add: RF)
qed

text \<open>The lists depend on the links and the heads only.\<close>

lemma ring_view_cong:
  "(\<And>x. nxt s' x = nxt s x) \<Longrightarrow> (\<And>x. prv s' x = prv s x) \<Longrightarrow> ring_view h s' q = ring_view h s q"
  using ring_cong [of q "nxt s'" "nxt s" "prv s'" "prv s"]
  by (auto simp: ring_view_def split: list.splits)

lemma links_ok_cong:
  assumes "\<And>x. nxt s' x = nxt s x" and "\<And>x. prv s' x = prv s x" and "proc_ready s' = proc_ready s"
    and "proc_free s' = proc_free s"
  shows "links_ok s' R F = links_ok s R F"
  using ring_view_cong [of s' s, OF assms(1,2)] assms(3,4) by (simp add: links_ok_def)

lemma upd_desc_simps:
  "pl_next (proc_table (upd_desc p f s) x) = nxt s x"
  "pl_prev (proc_table (upd_desc p f s) x) = prv s x"
  "pl_pid (proc_table (upd_desc p f s) x) = pl_pid (proc_table s x)"
  "pl_d (proc_table (upd_desc p f s) x) = (if x = p then f (desc s p) else desc s x)"
  "proc_ready (upd_desc p f s) = proc_ready s" "proc_free (upd_desc p f s) = proc_free s"
  "proc_ptr (upd_desc p f s) = proc_ptr s" "ram (upd_desc p f s) = ram s"
  "blk_sts (upd_desc p f s) = blk_sts s" "mmu (upd_desc p f s) = mmu s"
  by (simp_all add: upd_desc_def)

lemma links_ok_upd_desc [simp]: "links_ok (upd_desc p f s) R F = links_ok s R F"
  by (rule links_ok_cong) (simp_all add: upd_desc_simps)

lemma links_ok_mem [simp]:
  "links_ok (s\<lparr>ram := r\<rparr>) R F = links_ok s R F"
  "links_ok (s\<lparr>blk_sts := b\<rparr>) R F = links_ok s R F"
  "links_ok (s\<lparr>mmu := m\<rparr>) R F = links_ok s R F"
  "links_ok (s\<lparr>proc_ptr := pp\<rparr>) R F = links_ok s R F"
  by (rule links_ok_cong; simp)+

section \<open>The invariant of the table\<close>

definition st_set :: "'a kstate_scheme \<Rightarrow> proc_state \<Rightarrow> int set" where
  "st_set s st = {p \<in> pids. p_state (desc s p) = st}"

definition table_wf :: "'a kstate_scheme \<Rightarrow> bool" where
  "table_wf s \<longleftrightarrow> links_ok s (st_set s ST_READY) (st_set s ST_NONE) \<and>
     (\<forall>p \<in> pids. pl_pid (proc_table s p) = p \<and> ppid (desc s p) \<in> pids \<and> length (p_name (desc s p)) = 16)"

definition table_ok :: "'a kstate_scheme \<Rightarrow> bool" where
  "table_ok s \<longleftrightarrow> table_wf s \<and> p_state (desc s K_PROC_IDLE) = ST_READY"

lemma table_wfD:
  assumes "table_wf s"
  shows "links_ok s (st_set s ST_READY) (st_set s ST_NONE)"
    and "p \<in> pids \<Longrightarrow> pl_pid (proc_table s p) = p" and "p \<in> pids \<Longrightarrow> ppid (desc s p) \<in> pids"
    and "p \<in> pids \<Longrightarrow> length (p_name (desc s p)) = 16"
  using assms by (auto simp: table_wf_def)

lemma table_okD:
  assumes "table_ok s"
  shows "table_wf s" and "p_state (desc s 31) = ST_READY"
  using assms by (auto simp: table_ok_def K_PROC_IDLE_def K_PROC_COUNT_def)

lemma table_okI: "table_wf s \<Longrightarrow> p_state (desc s 31) = ST_READY \<Longrightarrow> table_ok s"
  by (simp add: table_ok_def K_PROC_IDLE_def K_PROC_COUNT_def)

lemma in_st_set [simp]: "p \<in> st_set s st \<longleftrightarrow> p \<in> pids \<and> p_state (desc s p) = st"
  by (simp add: st_set_def)

lemma pids_31 [simp]: "31 \<in> pids" "0 \<in> pids" "- 1 \<notin> pids" "- 2 \<notin> pids"
  by (simp_all add: pids_def)

lemma st_set_cong: "(\<And>x. desc s' x = desc s x) \<Longrightarrow> st_set s' st = st_set s st"
  by (simp add: st_set_def)

lemma link_frame_st_set: "link_frame X s s' \<Longrightarrow> st_set s' st = st_set s st"
  by (rule st_set_cong) (rule link_frame_desc)

text \<open>One descriptor gets a new value: where the process has to be in the lists.\<close>

definition st_move :: "int \<Rightarrow> proc_state \<Rightarrow> proc_state \<Rightarrow> 'a kstate_scheme \<Rightarrow> int set" where
  "st_move q new st s = (if new = st then insert q (st_set s st) else st_set s st - {q})"

lemma table_wf_change:
  assumes "table_wf s" and "q \<in> pids"
    and "links_ok s' (st_move q (p_state d) ST_READY s) (st_move q (p_state d) ST_NONE s)"
    and "\<And>x. desc s' x = (if x = q then d else desc s x)"
    and "\<And>x. pl_pid (proc_table s' x) = pl_pid (proc_table s x)"
    and "ppid d \<in> pids" and "length (p_name d) = 16"
  shows "table_wf s'"
proof -
  have "st_set s' st = st_move q (p_state d) st s" for st
    using assms(2,4) by (auto simp: st_set_def st_move_def)
  then show ?thesis using assms by (auto simp: table_wf_def)
qed

text \<open>An update that keeps the state, the parent and the length of the name.\<close>

definition mild :: "(proc_desc \<Rightarrow> proc_desc) \<Rightarrow> bool" where
  "mild f \<longleftrightarrow> (\<forall>d. p_state (f d) = p_state d \<and> ppid (f d) = ppid d \<and> length (p_name (f d)) = length (p_name d))"

lemma st_move_same [simp]: "p \<in> pids \<Longrightarrow> st_move p (p_state (desc s p)) st s = st_set s st"
  by (auto simp: st_move_def)

lemma table_wf_mild:
  assumes "table_wf s" and "mild f" and "p \<in> pids"
  shows "table_wf (upd_desc p f s)"
  by (rule table_wf_change [OF assms(1,3), of _ "f (desc s p)"])
    (use assms in \<open>auto simp: mild_def upd_desc_simps table_wfD\<close>)

lemma table_ok_mild:
  assumes "table_ok s" and "mild f" and "p \<in> pids"
  shows "table_ok (upd_desc p f s)"
  using table_wf_mild [of s f p] assms by (auto simp: table_ok_def mild_def upd_desc_simps)

lemma table_wf_mem [simp]:
  "table_wf (s\<lparr>ram := r\<rparr>) = table_wf s" "table_wf (s\<lparr>blk_sts := b\<rparr>) = table_wf s"
  "table_wf (s\<lparr>mmu := m\<rparr>) = table_wf s" "table_wf (s\<lparr>proc_ptr := pp\<rparr>) = table_wf s"
  by (simp_all add: table_wf_def st_set_def)

lemma table_ok_mem [simp]:
  "table_ok (s\<lparr>ram := r\<rparr>) = table_ok s" "table_ok (s\<lparr>blk_sts := b\<rparr>) = table_ok s"
  "table_ok (s\<lparr>mmu := m\<rparr>) = table_ok s" "table_ok (s\<lparr>proc_ptr := pp\<rparr>) = table_ok s"
  by (simp_all add: table_ok_def)

lemma mem_setup_mmu_frame: "mem_setup_mmu a n s = s\<lparr>mmu := mmu (mem_setup_mmu a n s)\<rparr>"
  by (simp add: mem_setup_mmu_def Let_def)

lemma mem_free_frame: "mem_free a n s = s\<lparr>blk_sts := blk_sts (mem_free a n s)\<rparr>"
  by (simp add: mem_free_def)

lemma mem_realloc_frame:
  "mem_realloc p a osz nsz s = KOk (x, s') \<Longrightarrow> s' = s\<lparr>ram := ram s', blk_sts := blk_sts s'\<rparr>"
  by (auto simp: mem_realloc_def Let_def split: option.splits if_splits)

lemma table_ok_realloc: "mem_realloc p a osz nsz s = KOk (x, s') \<Longrightarrow> table_ok s' = table_ok s"
  by (metis mem_realloc_frame table_ok_mem(1,2))

lemma table_ok_free [simp]: "table_ok (mem_free a n s) = table_ok s"
  by (metis mem_free_frame table_ok_mem(2))

lemma table_ok_mmu [simp]: "table_ok (mem_setup_mmu a n s) = table_ok s"
  by (metis mem_setup_mmu_frame table_ok_mem(3))

lemma mem_realloc_keeps:
  assumes "mem_realloc p a osz nsz s = KOk (x, s')"
  shows "proc_table s' = proc_table s" and "proc_ready s' = proc_ready s" and "proc_free s' = proc_free s"
    and "proc_ptr s' = proc_ptr s" and "mmu s' = mmu s"
  using arg_cong [OF mem_realloc_frame [OF assms], of proc_table] arg_cong [OF mem_realloc_frame [OF assms], of proc_ready]
    arg_cong [OF mem_realloc_frame [OF assms], of proc_free] arg_cong [OF mem_realloc_frame [OF assms], of proc_ptr]
    arg_cong [OF mem_realloc_frame [OF assms], of mmu] by simp_all

lemma links_ok_realloc: "mem_realloc p a osz nsz s = KOk (x, s') \<Longrightarrow> links_ok s' R F = links_ok s R F"
  by (rule links_ok_cong) (simp_all add: mem_realloc_keeps)

section \<open>The operations preserve it\<close>

lemma copy_name_ok:
  assumes "cstr name xs" and "length (p_name (desc s p)) = 16"
  shows "copy_name p name s = KOk (upd_desc p (\<lambda>d. d\<lparr>p_name := take 16 xs @ replicate (16 - length xs) 0\<rparr>) s)"
  using strncpy_cstr [OF assms(1), of 16 "p_name (desc s p)"] assms(2)
  by (simp add: copy_name_def K_PROC_NAME_MAX_LEN_def)

text \<open>The descriptor of a new task.\<close>

definition new_task :: "u8 list \<Rightarrow> u32 \<Rightarrow> u32 \<Rightarrow> u32 \<Rightarrow> proc_desc" where
  "new_task xs pc0 stk stk_sz = (task_desc pc0 stk stk_sz zero_desc)
     \<lparr>p_name := take 16 xs @ replicate (16 - length xs) 0, p_state := ST_READY, mem_ad := 0, mem_sz := 0xffffff,
      stackb := stk\<rparr>"

lemma create_task_ok:
  assumes wf: "table_wf s" and nm: "cstr name xs" and q: "q \<in> pids" "p_state (desc s q) = ST_NONE"
    and p: "p = q \<or> p = PROC_PID_ANY \<and> proc_free s = Some q"
  shows "\<exists>s'. proc_create_task p name pc0 stk stk_sz s = KOk (p, s') \<and> table_wf s' \<and>
    (\<forall>x. desc s' x = (if x = q then new_task xs pc0 stk stk_sz else desc s x)) \<and>
    blk_sts s' = blk_sts s \<and> mmu s' = mmu s \<and> proc_ptr s' = proc_ptr s \<and> ram s' = store32 (ram s) stk 0xDEADBEEF"
proof -
  have "q \<in> st_set s ST_NONE" "q \<notin> st_set s ST_READY" using q by auto
  from links_rem_free [OF table_wfD(1) [OF wf] this(1)] obtain s1 where
    s1: "proc_remove_from_free_list q s = KOk s1" "links_ok s1 (st_set s ST_READY) (st_set s ST_NONE - {q})"
    "link_frame UNIV s s1" by blast
  from links_add_ready [OF s1(2) \<open>q \<notin> st_set s ST_READY\<close>] obtain s2 where
    s2: "proc_add_to_ready_list q s1 = KOk s2" "links_ok s2 (insert q (st_set s ST_READY)) (st_set s ST_NONE - {q})"
    "link_frame UNIV s1 s2" by auto
  note fr = link_frame_trans [OF s1(3) s2(3)]
  let ?s3 = "upd_desc q (\<lambda>_. task_desc pc0 stk stk_sz zero_desc) s2"
  let ?s4 = "upd_desc q (\<lambda>d. d\<lparr>p_name := take 16 xs @ replicate (16 - length xs) 0\<rparr>) ?s3"
  let ?s5 = "upd_desc q (\<lambda>d. d\<lparr>p_state := ST_READY, mem_ad := 0, mem_sz := 0xffffff, stackb := stk\<rparr>) ?s4"
  let ?s6 = "?s5\<lparr>ram := store32 (ram ?s5) stk 0xDEADBEEF\<rparr>"
  have "copy_name q name ?s3 = KOk ?s4"
    by (rule copy_name_ok [OF nm]) (simp add: upd_desc_simps task_desc_def zero_desc_def)
  then have run: "proc_create_task p name pc0 stk stk_sz s = KOk (p, ?s6)"
    using p q s1(1) s2(1) by (auto simp: proc_create_task_def Let_def entry_pids PROC_PID_ANY_def)
  have d: "desc ?s6 x = (if x = q then new_task xs pc0 stk stk_sz else desc s x)" for x
    using link_frame_desc [OF fr] by (simp add: upd_desc_simps new_task_def)
  have "table_wf ?s6"
    by (rule table_wf_change [OF wf q(1) _ d])
      (use s2(2) in \<open>simp_all add: st_move_def new_task_def task_desc_def zero_desc_def upd_desc_simps
        link_frame_pid [OF fr] pids_def\<close>)
  with run d show ?thesis by (auto simp: upd_desc_simps link_frame_simps [OF fr])
qed

text \<open>The table \<open>proc_init\<close> sets up is one ring, all free.\<close>

lemma zip_upt_rotate1:
  "(x, y) \<in> set (zip [0..31] (rotate1 [0..31])) \<Longrightarrow>
     x \<in> pids \<and> y = (if x = 31 then 0 else x + 1)"
proof -
  have u: "[0..31] = 0 # [1..30] @ [31 :: int]" "[0..31] = [0..30] @ [31 :: int]"
    by (simp_all add: upto_split2 [of 0 30 31] upto_rec1)
  have r: "rotate1 [0..31] = [1..31] @ [0 :: int]"
    by (subst upto_rec1) simp_all
  assume "(x, y) \<in> set (zip [0..31] (rotate1 [0..31]))"
  then obtain i where i: "i < 32" "x = [0..31] ! i" "y = ([1..31] @ [0]) ! i"
    unfolding r in_set_zip by (auto simp: Suc_le_eq)
  then have "x = int i" "y = (if i = 31 then 0 else int i + 1)"
    by (auto simp: nth_append)
  with i(1) show ?thesis by (auto simp: pids_def)
qed

lemma init_ring:
  assumes "\<And>p. p \<in> pids \<Longrightarrow> proc_table s p = init_entry p" and "proc_free s = Some 0"
  shows "free_view s [0..31]"
proof -
  have "ring (nxt s) (prv s) [0..31]"
    unfolding ring_def
  proof (intro conjI ballI, simp, clarify)
    fix x y assume "(x, y) \<in> set (zip [0..31] (rotate1 [0..31]))"
    from zip_upt_rotate1 [OF this] have "x \<in> pids" "y = (if x = 31 then 0 else x + 1)" by auto
    moreover from this have "y \<in> pids" by (auto simp: pids_def)
    ultimately show "nxt s x = Some y \<and> prv s y = Some x"
      using assms(1) by (auto simp: init_entry_def K_PROC_COUNT_def pids_def)
  qed
  then show ?thesis using assms(2) by (subst upto_rec1) (simp_all add: ring_view_def upto_rec1 [of 0 31])
qed

lemma st_set_const: "(\<And>p. p \<in> pids \<Longrightarrow> p_state (desc s p) = x) \<Longrightarrow> st_set s st = (if st = x then pids else {})"
  by (auto simp: st_set_def)

lemma proc_init_ok:
  "\<exists>s'. proc_init idle_task idle_stack s = KOk s' \<and> table_ok s' \<and> proc_ptr s' = None \<and> blk_sts s' = blk_sts s \<and>
    (\<forall>p \<in> pids. desc s' p = (if p = 31 then new_task [105, 100, 108, 101] idle_task idle_stack 512 else zero_desc))"
proof -
  let ?s1 = "s\<lparr>proc_table := (\<lambda>p. if 0 \<le> p \<and> p < K_PROC_COUNT then init_entry p else proc_table s p),
                 proc_free := Some 0, proc_ready := None, proc_ptr := None\<rparr>"
  have e: "proc_table ?s1 p = init_entry p" if "p \<in> pids" for p
    using that by (simp add: pids_def K_PROC_COUNT_def)
  have "links_ok ?s1 (set []) (set [0..31])"
    by (rule links_okI) (use init_ring [OF e] in \<open>simp_all add: ring_view_def\<close>)
  moreover have "st_set ?s1 st = (if st = ST_NONE then pids else {})" for st
    by (rule st_set_const, subst e) (simp_all add: init_entry_def zero_desc_def)
  then have "st_set ?s1 ST_READY = set []" "st_set ?s1 ST_NONE = set [0..31]"
    by (simp_all only: if_True if_False proc_state.distinct refl) (simp_all add: pids_def)
  ultimately have wf: "table_wf ?s1"
    using e by (simp add: table_wf_def init_entry_def zero_desc_def)
  have nm: "cstr idle_name [105, 100, 108, 101]" by (simp add: cstr_def idle_name_def)
  have "p_state (desc ?s1 31) = ST_NONE" using e [of 31] by (simp add: init_entry_def zero_desc_def)
  from create_task_ok [OF wf nm pids_31(1) this disjI1 [OF refl]] obtain s' where
    s': "proc_create_task 31 idle_name idle_task idle_stack 512 ?s1 = KOk (31, s')" "table_wf s'"
    "\<forall>x. desc s' x = (if x = 31 then new_task [105, 100, 108, 101] idle_task idle_stack 512 else desc ?s1 x)"
    "blk_sts s' = blk_sts ?s1" "proc_ptr s' = proc_ptr ?s1" by blast
  have "proc_init idle_task idle_stack s = KOk s'"
    using s'(1) by (simp add: proc_init_def K_PROC_IDLE_def K_PROC_COUNT_def)
  moreover have "table_ok s'" using s'(2,3) by (intro table_okI) (simp_all add: new_task_def)
  moreover have "\<forall>p \<in> pids. desc s' p =
      (if p = 31 then new_task [105, 100, 108, 101] idle_task idle_stack 512 else zero_desc)"
  proof
    fix p :: int assume "p \<in> pids"
    with e [of p] s'(3) show "desc s' p =
      (if p = 31 then new_task [105, 100, 108, 101] idle_task idle_stack 512 else zero_desc)"
      by (simp add: init_entry_def)
  qed
  ultimately show ?thesis using s'(4,5) by auto
qed

lemma proc_sig_ok:
  assumes ok: "table_ok s" and q: "p \<in> pids"
  shows "\<exists>s'. proc_sig p sg s = KOk s' \<and> table_ok s' \<and>
    (\<forall>x. desc s' x = (if x = p
       then (case p_state (desc s p) of
               ST_BLOCKED \<Rightarrow> (desc s p)\<lparr>m_from := PROC_PID_NONE, m_to := PROC_PID_NONE, p_state := ST_READY,
                               d_regs := (d_regs (desc s p))(0 := word_of_int EABORT)\<rparr>
             | ST_READY \<Rightarrow> (desc s p)\<lparr>sig_mask := sig_mask (desc s p) OR sg\<rparr>
             | _ \<Rightarrow> desc s p)
       else desc s x)) \<and>
    blk_sts s' = blk_sts s \<and> ram s' = ram s \<and> mmu s' = mmu s \<and> proc_ptr s' = proc_ptr s"
proof (cases "p_state (desc s p)")
  case ST_BLOCKED
  let ?d = "(desc s p)\<lparr>m_from := PROC_PID_NONE, m_to := PROC_PID_NONE, p_state := ST_READY,
             d_regs := (d_regs (desc s p))(0 := word_of_int EABORT)\<rparr>"
  let ?s1 = "upd_desc p (\<lambda>d. d\<lparr>m_from := PROC_PID_NONE, m_to := PROC_PID_NONE, p_state := ST_READY,
             d_regs := (d_regs d)(0 := word_of_int EABORT)\<rparr>) s"
  have "links_ok ?s1 (st_set s ST_READY) (st_set s ST_NONE)" "p \<notin> st_set s ST_READY" "p \<notin> st_set s ST_NONE"
    using table_wfD(1) [OF table_okD(1) [OF ok]] ST_BLOCKED by simp_all
  from links_add_ready [OF this] obtain s2 where s2: "proc_add_to_ready_list p ?s1 = KOk s2"
    "links_ok s2 (insert p (st_set s ST_READY)) (st_set s ST_NONE)" "link_frame UNIV ?s1 s2" by blast
  have d: "desc s2 x = (if x = p then ?d else desc s x)" for x
    using link_frame_desc [OF s2(3)] by (simp add: upd_desc_simps)
  have "table_wf s2"
    by (rule table_wf_change [OF table_okD(1) [OF ok] q _ d])
      (use s2(2) ST_BLOCKED q table_wfD [OF table_okD(1) [OF ok]] in
        \<open>simp_all add: st_move_def upd_desc_simps link_frame_pid [OF s2(3)]\<close>)
  then have "table_ok s2" using table_okD(2) [OF ok] d by (intro table_okI) simp_all
  with s2(1) d show ?thesis
    using ST_BLOCKED q by (simp add: proc_sig_def entry_pids upd_desc_simps link_frame_simps [OF s2(3)])
next
  case ST_READY
  with q ok show ?thesis
    by (auto simp: proc_sig_def entry_pids upd_desc_simps mild_def intro!: table_ok_mild)
qed (use q ok in \<open>auto simp: proc_sig_def entry_pids\<close>)

lemma kill_exit_unlink:
  assumes wf: "table_wf s" and i: "p_state (desc s 31) = ST_READY" and q: "p \<in> pids" "p \<noteq> 31" "p_state (desc s p) \<noteq> ST_NONE"
  shows "\<exists>s'. (if p_state (desc s p) = ST_READY then proc_remove_from_ready_list p s else KOk s) = KOk s' \<and>
    links_ok s' (st_set s ST_READY - {p}) (st_set s ST_NONE) \<and> link_frame UNIV s s'"
proof (cases "p_state (desc s p) = ST_READY")
  case True
  have "31 \<in> st_set s ST_READY" "p \<in> st_set s ST_READY" using i True q by simp_all
  then have "st_set s ST_READY \<noteq> {p}" using q(2) by auto
  from links_rem_ready [OF table_wfD(1) [OF wf] \<open>p \<in> st_set s ST_READY\<close> this] True show ?thesis by simp
next
  case False
  then have "st_set s ST_READY - {p} = st_set s ST_READY" by auto
  moreover have "link_frame UNIV s s" by (simp add: link_frame_def)
  ultimately show ?thesis using False table_wfD(1) [OF wf] by auto
qed

lemma proc_kill_ok:
  assumes ok: "table_ok s" and q: "p \<in> pids" "p \<noteq> 31" "p_state (desc s p) \<noteq> ST_NONE"
  shows "\<exists>s'. proc_kill p s = KOk s' \<and> table_ok s' \<and>
    (\<forall>x. desc s' x = (if x = p then (desc s p)\<lparr>p_state := ST_NONE\<rparr> else desc s x)) \<and>
    blk_sts s' = (if uid (desc s p) \<noteq> PROC_UID_KERNEL
      then blk_sts (mem_free (mem_ad (desc s p)) (mem_sz (desc s p)) s) else blk_sts s) \<and>
    ram s' = ram s \<and> mmu s' = mmu s \<and> proc_ptr s' = proc_ptr s"
proof -
  let ?s1 = "if uid (desc s p) \<noteq> PROC_UID_KERNEL then mem_free (mem_ad (desc s p)) (mem_sz (desc s p)) s else s"
  have t1: "proc_table ?s1 = proc_table s" "ram ?s1 = ram s" "mmu ?s1 = mmu s" "proc_ptr ?s1 = proc_ptr s"
    by (simp_all add: mem_free_def)
  have ok1: "table_ok ?s1" using ok by simp
  have st: "st_set ?s1 st = st_set s st" for st by (simp add: st_set_def t1)
  from kill_exit_unlink [OF table_okD [OF ok1]] q obtain s2 where
    s2: "(if p_state (desc ?s1 p) = ST_READY then proc_remove_from_ready_list p ?s1 else KOk ?s1) = KOk s2"
    "links_ok s2 (st_set s ST_READY - {p}) (st_set s ST_NONE)" "link_frame UNIV ?s1 s2"
    unfolding st t1 by blast
  let ?s3 = "upd_desc p (\<lambda>d. d\<lparr>p_state := ST_NONE\<rparr>) s2"
  have "links_ok ?s3 (st_set s ST_READY - {p}) (st_set s ST_NONE)" "p \<notin> st_set s ST_READY - {p}" "p \<notin> st_set s ST_NONE"
    using s2(2) q by simp_all
  from links_add_free [OF this] obtain s4 where s4: "proc_add_to_free_list p ?s3 = KOk s4"
    "links_ok s4 (st_set s ST_READY - {p}) (insert p (st_set s ST_NONE))" "link_frame UNIV ?s3 s4" by blast
  have d2: "desc s2 x = desc s x" for x using link_frame_desc [OF s2(3)] t1(1) by simp
  have d: "desc s4 x = (if x = p then (desc s p)\<lparr>p_state := ST_NONE\<rparr> else desc s x)" for x
    using link_frame_desc [OF s4(3)] d2 by (simp add: upd_desc_simps)
  have "pl_pid (proc_table s4 x) = pl_pid (proc_table s x)" for x
    using link_frame_pid [OF s4(3)] link_frame_pid [OF s2(3)] t1(1) by (simp add: upd_desc_simps)
  then have "table_wf s4"
    by (intro table_wf_change [OF table_okD(1) [OF ok] q(1) _ d])
      (use s4(2) q table_wfD [OF table_okD(1) [OF ok]] in \<open>simp_all add: st_move_def\<close>)
  then have "table_ok s4" using table_okD(2) [OF ok] d q(2) by (intro table_okI) simp_all
  moreover have "proc_kill p s = KOk s4" using q(1) s2(1) s4(1) by (simp add: proc_kill_def entry_pids Let_def)
  ultimately show ?thesis
    using d t1 by (simp add: upd_desc_simps link_frame_simps [OF s4(3)] link_frame_simps [OF s2(3)])
qed

lemma proc_exit_ok:
  assumes ok: "table_ok s" and q: "p \<in> pids" "p \<noteq> 31" "p_state (desc s p) \<noteq> ST_NONE"
  shows "\<exists>s1 s'. table_ok s1 \<and> proc_exit p ev s = KOk s' \<and> table_ok s' \<and>
    (\<forall>x. desc s1 x = (if x = p then (desc s p)\<lparr>exit_val := ev, p_state := ST_STOPPED\<rparr> else desc s x)) \<and>
    proc_sig (ppid (desc s p)) SIGCHILD s1 = KOk s' \<and>
    blk_sts s' = blk_sts s \<and> ram s' = ram s \<and> mmu s' = mmu s \<and> proc_ptr s' = proc_ptr s"
proof -
  let ?s1 = "upd_desc p (\<lambda>d. d\<lparr>exit_val := ev\<rparr>) s"
  have ok1: "table_ok ?s1" by (rule table_ok_mild [OF ok _ q(1)]) (simp add: mild_def)
  have ps: "p_state (desc ?s1 x) = p_state (desc s x)" for x by (simp add: upd_desc_simps)
  then have st: "st_set ?s1 st = st_set s st" for st by (simp add: st_set_def)
  have "p_state (desc ?s1 p) \<noteq> ST_NONE" using q by (simp add: ps)
  from kill_exit_unlink [OF table_okD [OF ok1] q(1,2) this] obtain s2 where
    s2: "(if p_state (desc ?s1 p) = ST_READY then proc_remove_from_ready_list p ?s1 else KOk ?s1) = KOk s2"
    "links_ok s2 (st_set s ST_READY - {p}) (st_set s ST_NONE)" "link_frame UNIV ?s1 s2"
    unfolding st by blast
  let ?s3 = "upd_desc p (\<lambda>d. d\<lparr>p_state := ST_STOPPED\<rparr>) s2"
  have d: "desc ?s3 x = (if x = p then (desc s p)\<lparr>exit_val := ev, p_state := ST_STOPPED\<rparr> else desc s x)" for x
    using link_frame_desc [OF s2(3)] by (simp add: upd_desc_simps)
  have "st_set s ST_NONE - {p} = st_set s ST_NONE" using q by auto
  then have "table_wf ?s3"
    by (intro table_wf_change [OF table_okD(1) [OF ok] q(1) _ d])
      (use s2(2) q table_wfD [OF table_okD(1) [OF ok]] in
        \<open>simp_all add: st_move_def upd_desc_simps link_frame_pid [OF s2(3)]\<close>)
  then have ok3: "table_ok ?s3" using table_okD(2) [OF ok] d q(2) by (intro table_okI) simp_all
  have pp: "ppid (desc ?s3 p) = ppid (desc s p)" "ppid (desc s p) \<in> pids"
    using d table_wfD(3) [OF table_okD(1) [OF ok] q(1)] by simp_all
  obtain s' where s': "proc_sig (ppid (desc s p)) SIGCHILD ?s3 = KOk s'" "table_ok s'" "blk_sts s' = blk_sts ?s3"
    "ram s' = ram ?s3" "mmu s' = mmu ?s3" "proc_ptr s' = proc_ptr ?s3"
    using proc_sig_ok [OF ok3 pp(2), of SIGCHILD] by blast
  have "proc_exit p ev s = KOk s'" using q(1) s2(1) s'(1) pp(1) by (simp add: proc_exit_def entry_pids Let_def)
  with ok3 d s' show ?thesis
    by (intro exI [of _ ?s3] exI [of _ s']) (simp add: upd_desc_simps link_frame_simps [OF s2(3)])
qed

lemma proc_wait_ok:
  "table_ok s \<Longrightarrow> p \<in> pids \<Longrightarrow> \<exists>s'. proc_wait p s = KOk s' \<and> table_ok s' \<and>
    s' = upd_desc p (\<lambda>d. d\<lparr>m_from := PROC_PID_NONE, m_to := PROC_PID_NONE\<rparr>) s"
  by (simp add: proc_wait_def entry_pids mild_def table_ok_mild)

lemma proc_brk_ok:
  assumes ok: "table_ok s" and q: "p \<in> pids" and sz: "unat sz \<le> 2 ^ 27"
  shows "\<exists>r a s1 s'. proc_brk p sz s = KOk (r, s') \<and> table_ok s' \<and>
    mem_realloc p (mem_ad (desc s p)) (mem_sz (desc s p)) sz s = KOk (a, s1) \<and>
    (if a = 0 then r = - ENOMEM \<and> s' = s
     else r = 0 \<and> s' = upd_desc p (\<lambda>d. d\<lparr>pa_msg := pa_msg d - mem_ad d + a, mem_ad := a, mem_sz := ALIGN32 sz\<rparr>) s1)"
proof -
  obtain a s1 where r: "mem_realloc p (mem_ad (desc s p)) (mem_sz (desc s p)) sz s = KOk (a, s1)"
    using mem_realloc_cases [OF sz, of p "mem_ad (desc s p)" "mem_sz (desc s p)" s] by blast
  show ?thesis
  proof (cases "a = 0")
    case True
    with r mem_realloc_failed [of p _ _ sz s s1] have "s1 = s" by metis
    with True r q ok show ?thesis by (intro exI [of _ "- ENOMEM"] exI [of _ a] exI [of _ s1] exI [of _ s])
        (simp add: proc_brk_def entry_pids)
  next
    case False
    have ok1: "table_ok s1" using ok table_ok_realloc [OF r] by simp
    let ?f = "\<lambda>d. d\<lparr>pa_msg := pa_msg d - mem_ad d + a, mem_ad := a, mem_sz := ALIGN32 sz\<rparr>"
    have "upd_desc p (\<lambda>d. d\<lparr>mem_ad := a, mem_sz := ALIGN32 sz\<rparr>)
        (upd_desc p (\<lambda>d. d\<lparr>pa_msg := pa_msg d - mem_ad d + a\<rparr>) s1) = upd_desc p ?f s1"
      by (simp add: upd_desc_def)
    then have "proc_brk p sz s = KOk (0, upd_desc p ?f s1)"
      using r False q by (simp add: proc_brk_def entry_pids Let_def)
    moreover have "table_ok (upd_desc p ?f s1)" by (rule table_ok_mild [OF ok1 _ q]) (simp add: mild_def)
    ultimately show ?thesis using r False
      by (intro exI [of _ 0] exI [of _ a] exI [of _ s1] exI [of _ "upd_desc p ?f s1"]) simp
  qed
qed

section \<open>Allocation inside the kernel state\<close>

text \<open>The part of the kernel state \<open>mem_realloc\<close> works on.\<close>

abbreviation core :: "'a kmem_scheme \<Rightarrow> kmem" where
  "core \<equiv> kmem.truncate"

lemma core_sel [simp]: "blk_sts (core s) = blk_sts s" "ram (core s) = ram s" "mmu (core s) = mmu s"
  by (simp_all add: kmem.truncate_def)

lemma region_ok_cong: "blk_sts s' = blk_sts s \<Longrightarrow> region_ok s' p a n = region_ok s p a n"
  by (simp add: region_ok_def)

lemma mem_realloc_core:
  "mem_realloc p a osz nsz s = KOk (x, s') \<Longrightarrow> mem_realloc p a osz nsz (core s) = KOk (x, core s')"
  by (auto simp: mem_realloc_def Let_def kmem.truncate_def split: option.splits)

lemma mem_realloc_ok:
  "unat nsz \<le> 2 ^ 27 \<Longrightarrow> \<exists>a s'. mem_realloc p addr osz nsz s = KOk (a, s')"
  using mem_realloc_cases [of nsz p addr osz s] by blast

text \<open>The outcome of an allocation, as the two memory fields see it.\<close>

definition alloc :: "pid \<Rightarrow> u32 \<Rightarrow> u32 \<Rightarrow> u32 \<Rightarrow> (nat \<Rightarrow> pid) \<Rightarrow> ram \<Rightarrow> u32 \<Rightarrow> (nat \<Rightarrow> pid) \<Rightarrow> ram \<Rightarrow> bool" where
  "alloc p addr osz nsz b r a b' r' \<longleftrightarrow>
     (\<exists>k :: kmem. \<exists>k'. blk_sts k = b \<and> ram k = r \<and> mem_realloc p addr osz nsz k = KOk (a, k') \<and> blk_sts k' = b' \<and> ram k' = r')"

lemma alloc_realloc:
  "mem_realloc p a osz nsz s = KOk (x, s') \<Longrightarrow> alloc p a osz nsz (blk_sts s) (ram s) x (blk_sts s') (ram s')"
  unfolding alloc_def
  by (intro exI [of _ "core s"] exI [of _ "core s'"]) (simp add: mem_realloc_core)

lemma alloc_fresh_ram: "alloc p 0 osz nsz b r a b' r' \<Longrightarrow> r' = r"
  by (auto simp: alloc_def mem_realloc_def Let_def split: option.splits)

lemma alloc_fail: "alloc p addr osz nsz b r 0 b' r' \<Longrightarrow> b' = b \<and> r' = r"
  unfolding alloc_def using mem_realloc_failed by blast

definition init_desc :: "u8 list \<Rightarrow> u32 \<Rightarrow> u32 \<Rightarrow> proc_desc" where
  "init_desc xs a size0 = zero_desc\<lparr>uid := PROC_UID_ROOT, m_from := PROC_PID_NONE, m_to := PROC_PID_NONE,
     p_name := take 16 xs @ replicate (16 - length xs) 0, mem_ad := a, mem_sz := size0, p_state := ST_BLOCKED\<rparr>"

lemma free_head:
  assumes "table_wf s" and "proc_free s = Some q"
  shows "q \<in> pids" and "p_state (desc s q) = ST_NONE"
  using links_ok_heads(4) [OF table_wfD(1) [OF assms(1)] assms(2)] by auto

lemma create_init_ok:
  assumes ok: "table_ok s" and nm: "cstr name xs" and sz: "unat size0 \<le> 2 ^ 27" and f: "proc_free s = Some q"
  shows "\<exists>a s'. proc_create_init name size0 s = KOk (q, s') \<and> table_ok s' \<and>
    (\<forall>x. desc s' x = (if x = q then init_desc xs a size0 else desc s x)) \<and>
    alloc q 0 0 size0 (blk_sts s) (ram s) a (blk_sts s') (ram s') \<and> mmu s' = mmu s \<and> proc_ptr s' = proc_ptr s"
proof -
  note wf = table_okD(1) [OF ok]
  note q = free_head [OF wf f]
  have "q \<in> st_set s ST_NONE" using q by simp
  from links_rem_free [OF table_wfD(1) [OF wf] this] obtain s1 where
    s1: "proc_remove_from_free_list q s = KOk s1" "links_ok s1 (st_set s ST_READY) (st_set s ST_NONE - {q})"
    "link_frame UNIV s s1" by blast
  let ?s2 = "upd_desc q (\<lambda>_. zero_desc\<lparr>sr := 0, sig_mask := 0, ppid := 0, uid := PROC_UID_ROOT\<rparr>) s1"
  let ?s3 = "upd_desc q (\<lambda>d. d\<lparr>p_name := take 16 xs @ replicate (16 - length xs) 0\<rparr>) ?s2"
  let ?s4 = "upd_desc q (\<lambda>d. d\<lparr>m_from := PROC_PID_NONE, m_to := PROC_PID_NONE\<rparr>) ?s3"
  have cn: "copy_name q name ?s2 = KOk ?s3"
    by (rule copy_name_ok [OF nm]) (simp add: upd_desc_simps zero_desc_def)
  have pid: "pl_pid (proc_table ?s4 q) = q"
    using q(1) table_wfD(2) [OF wf] by (simp add: upd_desc_simps link_frame_pid [OF s1(3)])
  obtain a s5 where s5: "mem_realloc q 0 0 size0 ?s4 = KOk (a, s5)" using mem_realloc_ok [OF sz] by blast
  note k = mem_realloc_keeps [OF s5]
  let ?s6 = "upd_desc q (\<lambda>d. d\<lparr>mem_ad := a, mem_sz := size0, p_state := ST_BLOCKED\<rparr>) s5"
  have "pl_pid (proc_table ?s6 q) = q" using pid by (simp add: upd_desc_simps k)
  then have run: "proc_create_init name size0 s = KOk (q, ?s6)"
    using f s1(1) cn pid s5 by (simp add: proc_create_init_def Let_def)
  have d: "desc ?s6 x = (if x = q then init_desc xs a size0 else desc s x)" for x
    by (simp add: upd_desc_simps k link_frame_desc [OF s1(3)] init_desc_def zero_desc_def)
  have "st_set s ST_READY - {q} = st_set s ST_READY" using q by auto
  then have "links_ok ?s6 (st_move q ST_BLOCKED ST_READY s) (st_move q ST_BLOCKED ST_NONE s)"
    using s1(2) links_ok_realloc [OF s5] by (simp add: st_move_def)
  then have "table_wf ?s6"
    by (intro table_wf_change [OF wf q(1) _ d])
      (simp_all add: init_desc_def zero_desc_def upd_desc_simps k link_frame_pid [OF s1(3)])
  then have "table_ok ?s6" using table_okD(2) [OF ok] d q(2) by (intro table_okI) auto
  moreover have "alloc q 0 0 size0 (blk_sts s) (ram s) a (blk_sts ?s6) (ram ?s6)"
    using alloc_realloc [OF s5] by (simp add: upd_desc_simps link_frame_simps [OF s1(3)])
  ultimately show ?thesis
    using run d by (intro exI [of _ a] exI [of _ ?s6]) (simp add: upd_desc_simps k link_frame_simps [OF s1(3)])
qed

text \<open>The child of a fork. When the memory is not there, the slot stays off the free list with the
  parent's descriptor.\<close>

definition fork_desc :: "proc_desc \<Rightarrow> pid \<Rightarrow> u32 \<Rightarrow> proc_desc" where
  "fork_desc d parent a =
     (if a = 0 then d\<lparr>ppid := parent\<rparr>
      else d\<lparr>ppid := parent, mem_ad := a, p_state := ST_BLOCKED, pa_msg := pa_msg d - mem_ad d + a\<rparr>)"

lemma fork_ok:
  assumes ok: "table_ok s" and pp: "p \<in> pids" "p_state (desc s p) = ST_BLOCKED"
    and sz: "unat (mem_sz (desc s p)) \<le> 2 ^ 27" and f: "proc_free s = Some q"
  shows "\<exists>a s'. proc_fork p s = KOk (if a = 0 then PROC_PID_NONE else q, s') \<and> table_ok s' \<and>
    (\<forall>x. desc s' x = (if x = q then fork_desc (desc s p) p a else desc s x)) \<and>
    alloc q 0 0 (mem_sz (desc s p)) (blk_sts s) (ram s) a (blk_sts s') (ram s) \<and>
    ram s' = (if a = 0 then ram s else memcpy (ram s) a (mem_ad (desc s p)) (unat (mem_sz (desc s p)))) \<and>
    mmu s' = mmu s \<and> proc_ptr s' = proc_ptr s"
proof -
  note wf = table_okD(1) [OF ok]
  note q = free_head [OF wf f]
  have qp: "q \<noteq> p" using q pp by auto
  have "q \<in> st_set s ST_NONE" using q by simp
  from links_rem_free [OF table_wfD(1) [OF wf] this] obtain s1 where
    s1: "proc_remove_from_free_list q s = KOk s1" "links_ok s1 (st_set s ST_READY) (st_set s ST_NONE - {q})"
    "link_frame UNIV s s1" by blast
  note d1 = link_frame_desc [OF s1(3)]
  let ?s2 = "upd_desc q (\<lambda>_. (desc s1 p)\<lparr>ppid := p\<rparr>) s1"
  have pid: "pl_pid (proc_table ?s2 q) = q"
    using q(1) table_wfD(2) [OF wf] by (simp add: upd_desc_simps link_frame_pid [OF s1(3)])
  have sz2: "mem_sz (desc ?s2 p) = mem_sz (desc s p)" using qp d1 by (simp add: upd_desc_simps)
  obtain a s3 where s3: "mem_realloc q 0 0 (mem_sz (desc s p)) ?s2 = KOk (a, s3)" using mem_realloc_ok [OF sz] by blast
  note k = mem_realloc_keeps [OF s3]
  have al: "alloc q 0 0 (mem_sz (desc s p)) (blk_sts s) (ram s) a (blk_sts s3) (ram s3)"
    using alloc_realloc [OF s3] by (simp add: upd_desc_simps link_frame_simps [OF s1(3)])
  have r3: "ram s3 = ram s" by (rule alloc_fresh_ram [OF al])
  let ?s4 = "upd_desc q (\<lambda>d. d\<lparr>mem_ad := a, mem_sz := mem_sz (desc s3 p)\<rparr>) s3"
  let ?s5 = "?s4\<lparr>ram := memcpy (ram ?s4) a (mem_ad (desc ?s4 p)) (unat (mem_sz (desc ?s4 p)))\<rparr>"
  let ?s6 = "upd_desc q (\<lambda>d. d\<lparr>p_state := ST_BLOCKED,
                       pa_msg := pa_msg (desc ?s5 p) - mem_ad (desc ?s5 p) + a\<rparr>) ?s5"
  let ?s' = "if a = 0 then s3 else ?s6"
  have "pl_pid (proc_table ?s6 q) = q" using pid by (simp add: upd_desc_simps k)
  then have run: "proc_fork p s = KOk (if a = 0 then PROC_PID_NONE else q, ?s')"
    using f s1(1) pid s3 pp(1) sz2 by (simp add: proc_fork_def Let_def entry_pids)
  have d: "desc ?s' x = (if x = q then fork_desc (desc s p) p a else desc s x)" for x
    using qp by (simp add: upd_desc_simps k d1 fork_desc_def)
  have "st_set s ST_READY - {q} = st_set s ST_READY" using q by auto
  then have l: "links_ok ?s' (st_move q (p_state (fork_desc (desc s p) p a)) ST_READY s)
      (st_move q (p_state (fork_desc (desc s p) p a)) ST_NONE s)"
    using s1(2) links_ok_realloc [OF s3] pp by (simp add: st_move_def fork_desc_def)
  have "table_wf ?s'"
    by (rule table_wf_change [OF wf q(1) l d])
      (use pp table_wfD [OF wf] in \<open>simp_all add: fork_desc_def upd_desc_simps k link_frame_pid [OF s1(3)]\<close>)
  then have "table_ok ?s'" using table_okD(2) [OF ok] d q(2) by (intro table_okI) auto
  moreover have "blk_sts ?s' = blk_sts s3"
    "ram ?s' = (if a = 0 then ram s else memcpy (ram s) a (mem_ad (desc s p)) (unat (mem_sz (desc s p))))"
    "mmu ?s' = mmu s" "proc_ptr ?s' = proc_ptr s"
    using qp by (simp_all add: upd_desc_simps k link_frame_simps [OF s1(3)] r3)
  ultimately show ?thesis
    using run d al [unfolded r3] by (intro exI [of _ a] exI [of _ ?s'] conjI allI) simp_all
qed

section \<open>The scheduler\<close>

text \<open>Making a ready process the head of the list rotates the ring.\<close>

lemma ring_view_rotate:
  assumes v: "ring_view h s rq" and p: "p \<in> set rq"
  shows "\<exists>n. ring_view (Some p) s (rotate n rq) \<and> hd (rotate n rq) = p"
proof -
  from p obtain a b where rq: "rq = a @ p # b" by (auto dest: split_list)
  have "rotate (length a) rq = p # b @ a" using rotate_append [of a "p # b"] by (simp add: rq)
  moreover have "ring (nxt s) (prv s) (rotate (length a) rq)"
    using v rq by (simp add: ring_view_def split: list.splits)
  ultimately have "ring_view (Some p) s (rotate (length a) rq) \<and> hd (rotate (length a) rq) = p"
    by (simp add: ring_view_def)
  then show ?thesis by blast
qed

lemma links_ok_rotate:
  assumes "links_ok s R F" and "p \<in> R"
  shows "links_ok (s\<lparr>proc_ready := Some p\<rparr>) R F"
proof -
  obtain rq fq where v: "ready_view s rq" "free_view s fq" "set rq \<inter> set fq = {}" "R = set rq" "F = set fq"
    using assms(1) by (rule links_okE)
  obtain n where "ring_view (Some p) s (rotate n rq)" using ring_view_rotate [OF v(1)] assms(2) v(4) by blast
  moreover have "ring_view h (s\<lparr>proc_ready := Some p\<rparr>) q = ring_view h s q" for h q
    by (rule ring_view_cong) simp_all
  ultimately show ?thesis
    using v links_okI [of "s\<lparr>proc_ready := Some p\<rparr>" "rotate n rq" fq] by simp
qed

lemma ring_nth:
  assumes "ring nx pv xs" and "i < length xs"
  shows "nx (xs ! i) = Some (xs ! (Suc i mod length xs))"
proof -
  have "(xs ! i, rotate1 xs ! i) \<in> set (zip xs (rotate1 xs))" using assms(2) by (auto simp: in_set_zip)
  then show ?thesis using assms by (auto simp: ring_def nth_rotate1)
qed

lemma ring_prefix:
  assumes "ring nx pv xs" and "ring nx pv' ys" and "xs ! 0 = ys ! 0" and "i < length xs" and "i < length ys"
  shows "xs ! i = ys ! i"
  using assms(4,5)
proof (induction i)
  case (Suc i)
  then show ?case using ring_nth [OF assms(1), of i] ring_nth [OF assms(2), of i] by simp
qed (use assms(3) in simp)

lemma ring_same_start:
  assumes "ring nx pv xs" and "ring nx pv' ys" and "xs ! 0 = ys ! 0" and "xs \<noteq> []"
  shows "length ys \<le> length xs"
proof (rule ccontr)
  let ?n = "length xs"
  assume "\<not> length ys \<le> ?n"
  then have n: "?n < length ys" "0 < ?n" using assms(4) by auto
  have "nx (xs ! (?n - 1)) = Some (xs ! 0)" "nx (ys ! (?n - 1)) = Some (ys ! ?n)"
    using ring_nth [OF assms(1), of "?n - 1"] ring_nth [OF assms(2), of "?n - 1"] n by simp_all
  moreover have "xs ! (?n - 1) = ys ! (?n - 1)" by (rule ring_prefix [OF assms(1-3)]) (use n in auto)
  ultimately have "ys ! ?n = ys ! 0" using assms(3) by simp
  moreover have "distinct ys" using assms(2) by (simp add: ring_def)
  moreover have "0 < length ys" using n by linarith
  ultimately show False using n nth_eq_iff_index_eq [of ys ?n 0] by simp
qed

lemma ring_view_unique:
  assumes "ring_view h s xs" and "ring_view h s ys"
  shows "xs = ys"
proof (cases "xs = [] \<or> ys = []")
  case True
  with assms show ?thesis by (auto simp: ring_view_def split: list.splits)
next
  case False
  then have r: "ring (nxt s) (prv s) xs" "ring (nxt s) (prv s) ys" "xs ! 0 = ys ! 0"
    using ring_view_ring [OF assms(1)] ring_view_ring [OF assms(2)] by (auto simp: hd_conv_nth)
  have "length xs = length ys"
    using ring_same_start [OF r] ring_same_start [OF r(2,1)] r(3) False by simp
  then show ?thesis using ring_prefix [OF r] by (intro nth_equalityI) auto
qed

text \<open>What the scheduler does to the state once it has chosen \<open>q\<close>.\<close>

definition dispatch :: "int \<Rightarrow> 'a kstate_scheme \<Rightarrow> 'a kstate_scheme" where
  "dispatch q s = (if uid (desc s q) \<noteq> PROC_UID_KERNEL then mem_setup_mmu (mem_ad (desc s q)) (mem_sz (desc s q)) s
      else s)\<lparr>proc_ready := Some q, proc_ptr := Some q\<rparr>"

lemma dispatch_simps [simp]:
  "proc_table (dispatch q s) = proc_table s" "proc_free (dispatch q s) = proc_free s"
  "proc_ready (dispatch q s) = Some q" "proc_ptr (dispatch q s) = Some q" "ram (dispatch q s) = ram s"
  "blk_sts (dispatch q s) = blk_sts s"
  by (simp_all add: dispatch_def mem_setup_mmu_def Let_def)

lemma table_ok_dispatch:
  assumes ok: "table_ok s" and q: "q \<in> st_set s ST_READY"
  shows "table_ok (dispatch q s)"
proof -
  have "links_ok (s\<lparr>proc_ready := Some q\<rparr>) (st_set s ST_READY) (st_set s ST_NONE)"
    by (rule links_ok_rotate [OF table_wfD(1) [OF table_okD(1) [OF ok]] q])
  moreover have "links_ok (dispatch q s) R F = links_ok (s\<lparr>proc_ready := Some q\<rparr>) R F" for R F
    by (rule links_ok_cong) simp_all
  ultimately show ?thesis using ok by (simp add: table_ok_def table_wf_def st_set_def)
qed

lemma proc_schedule_pid:
  assumes ok: "table_ok s" and "p \<in> pids"
  shows "proc_schedule p s = KOk (if p_state (desc s p) = ST_READY then (p, dispatch p s) else (PROC_PID_NONE, s))"
  using table_wfD(2) [OF table_okD(1) [OF ok] assms(2)] assms(2)
  by (auto simp: proc_schedule_def entry_pids dispatch_def Let_def PROC_PID_ANY_def mem_setup_mmu_def)

lemma proc_schedule_any:
  assumes ok: "table_ok s" and v: "ready_view s (h # t)"
  defines "n \<equiv> hd (t @ [h])"
  shows "proc_schedule PROC_PID_ANY s = KOk (n, dispatch n s) \<and> n \<in> st_set s ST_READY \<and>
    ready_view (dispatch n s) (rotate1 (h # t))"
proof -
  have r: "ring (nxt s) (prv s) (h # t)" and hd: "proc_ready s = Some h" using v by (simp_all add: ring_view_def)
  have nx: "nxt s h = Some n" using ring_next [OF r] by (simp add: n_def)
  obtain rq where w: "ready_view s rq" "set rq = st_set s ST_READY"
    using table_wfD(1) [OF table_okD(1) [OF ok]] unfolding links_ok_def by blast
  have "n \<in> set (h # t)" unfolding n_def by (cases t) auto
  moreover have "set (h # t) = st_set s ST_READY" using ring_view_unique [OF v w(1)] w(2) by simp
  ultimately have n: "n \<in> st_set s ST_READY" by blast
  have "proc_schedule PROC_PID_ANY s = KOk (n, dispatch n s)"
    using hd nx table_wfD(2) [OF table_okD(1) [OF ok], of n] n
    by (simp add: proc_schedule_def dispatch_def Let_def mem_setup_mmu_def)
  moreover have "ready_view (dispatch n s) (rotate1 (h # t))"
  proof -
    have "ring (nxt s) (prv s) (rotate1 (h # t))" using r by (simp only: ring_rotate1)
    then have "ring_view (Some n) s (rotate1 (h # t))" by (cases t) (simp_all add: ring_view_def n_def)
    moreover have "ring_view (Some n) (dispatch n s) q = ring_view (Some n) s q" for q
      by (rule ring_view_cong) simp_all
    ultimately show ?thesis by simp
  qed
  ultimately show ?thesis using n by blast
qed

end
