(* ===== verification/Ipc.thy ===== *)
theory Ipc
  imports ProcInv
begin

text \<open>
  Message passing: \<open>sendreceive\<close> of software/system/kernel/proc.c and the system call entry
  of software/system/kernel/scall.c. A call ends in one of three ways: it returns a value, it
  gives the processor to another user process and never returns (\<open>k_restart\<close>), or it
  reschedules from a system task (\<open>k_yield\<close>), whose return value is computed when the task
  runs again (\<open>sr_resume\<close>).
\<close>

section \<open>The operation\<close>

definition O_SEND :: u16 where "O_SEND = 1"
definition O_RECV :: u16 where "O_RECV = 2"
definition ELOCK :: pid where "ELOCK = - 1"
definition ESENDANY :: pid where "ESENDANY = - 3"

text \<open>\<open>sizeof(message_t)/4\<close>: a message is five 32-bit words.\<close>

definition MSG_WORDS :: nat where "MSG_WORDS = 5"
definition MSG_SIZE :: u32 where "MSG_SIZE = 20"

datatype sr_result = SR_return pid | SR_restart | SR_yield

text \<open>The sending half, \<open>Some e\<close> an early return. \<open>src\<close> is the entry of the caller.\<close>

definition sr_send ::
    "int \<Rightarrow> pid \<Rightarrow> u32 \<Rightarrow> u16 \<Rightarrow> 'a kstate_scheme \<Rightarrow> (pid option \<times> 'a kstate_scheme) kres" where
  "sr_send src tofrom pa ops s =
     (if ops AND O_SEND \<noteq> 0 then
        if tofrom = PROC_PID_ANY then KOk (Some ESENDANY, s)
        else
          let s1 = upd_desc src (\<lambda>d. d\<lparr>m_to := tofrom\<rparr>) s; me = pl_pid (proc_table s1 src) in
          entry tofrom (\<lambda>q.
            if p_state (desc s1 q) = ST_BLOCKED then
              if m_from (desc s1 q) = me \<or> m_from (desc s1 q) = PROC_PID_ANY then
                let s2 = s1\<lparr>ram := memcpy32 (ram s1) (pa_msg (desc s1 q)) pa MSG_WORDS\<rparr>;
                    s3 = upd_desc src (\<lambda>d. d\<lparr>m_to := PROC_PID_NONE\<rparr>) s2;
                    s4 = upd_desc q (\<lambda>d. d\<lparr>m_from := me, d_regs := (d_regs d)(0 := word_of_int me)\<rparr>) s3
                in kbind (proc_add_to_ready_list q s4) (\<lambda>s5.
                   KOk (None, upd_desc q (\<lambda>d. d\<lparr>p_state := ST_READY\<rparr>) s5))
              else if m_to (desc s1 q) = me then KOk (Some ELOCK, s1)
              else KOk (None, s1)
            else KOk (None, s1))
      else KOk (None, upd_desc src (\<lambda>d. d\<lparr>m_to := PROC_PID_NONE\<rparr>) s))"

text \<open>The scan for a process that is sending to \<open>me\<close>: the lowest index, or \<open>ANY\<close>.\<close>

fun find_sender :: "'a kstate_scheme \<Rightarrow> pid \<Rightarrow> pid list \<Rightarrow> pid" where
  "find_sender s me [] = PROC_PID_ANY"
| "find_sender s me (p # ps) =
     (if p_state (desc s p) = ST_BLOCKED \<and> m_to (desc s p) = me then p else find_sender s me ps)"

text \<open>The receiving half; the second component is the value \<open>tofrom\<close> has after it.\<close>

definition sr_recv ::
    "int \<Rightarrow> pid \<Rightarrow> u32 \<Rightarrow> u16 \<Rightarrow> 'a kstate_scheme \<Rightarrow> (pid option \<times> pid \<times> 'a kstate_scheme) kres" where
  "sr_recv src tofrom pa ops s =
     (if ops AND O_RECV \<noteq> 0 then
        let s1 = upd_desc src (\<lambda>d. d\<lparr>m_from := tofrom\<rparr>) s; me = pl_pid (proc_table s1 src) in
        if m_to (desc s1 src) = PROC_PID_NONE then
          let tf = (if tofrom = PROC_PID_ANY then find_sender s1 me [0..K_PROC_COUNT - 1] else tofrom) in
          if tf = PROC_PID_ANY then KOk (None, tf, s1)
          else entry tf (\<lambda>q.
            if p_state (desc s1 q) = ST_BLOCKED \<and> m_to (desc s1 q) = me then
              let s2 = s1\<lparr>ram := memcpy32 (ram s1) pa (pa_msg (desc s1 q)) MSG_WORDS\<rparr>;
                  s3 = upd_desc src (\<lambda>d. d\<lparr>m_from := PROC_PID_NONE\<rparr>) s2;
                  s4 = upd_desc q (\<lambda>d. d\<lparr>d_regs := (d_regs d)(0 := word_of_int me), m_to := PROC_PID_NONE\<rparr>) s3
              in kbind (if m_from (desc s4 q) = PROC_PID_NONE
                        then kbind (proc_add_to_ready_list q s4) (\<lambda>s5. KOk (upd_desc q (\<lambda>d. d\<lparr>p_state := ST_READY\<rparr>) s5))
                        else KOk s4)
                   (\<lambda>s6. KOk (Some tf, tf, s6))
            else KOk (None, tf, s1))
        else KOk (None, tofrom, s1)
      else KOk (None, tofrom, upd_desc src (\<lambda>d. d\<lparr>m_from := PROC_PID_NONE\<rparr>) s))"

text \<open>What remains when some communication is pending: the caller blocks, or a pending signal aborts it.\<close>

definition sr_block :: "int \<Rightarrow> 'a kstate_scheme \<Rightarrow> 'a kstate_scheme kres" where
  "sr_block src s =
     (if sig_mask (desc s src) = 0 then
        kbind (proc_remove_from_ready_list src s) (\<lambda>s1. KOk (upd_desc src (\<lambda>d. d\<lparr>p_state := ST_BLOCKED\<rparr>) s1))
      else
        let s1 = (if sig_mask (desc s src) AND SIGALRM \<noteq> 0
                  then upd_desc src (\<lambda>d. d\<lparr>sig_mask := sig_mask d AND NOT SIGALRM\<rparr>) s else s)
        in KOk (upd_desc src (\<lambda>d. d\<lparr>m_from := PROC_PID_NONE, m_to := PROC_PID_NONE,
                  d_regs := (d_regs d)(0 := word_of_int EABORT)\<rparr>) s1))"

definition sr_switch :: "int \<Rightarrow> 'a kstate_scheme \<Rightarrow> (sr_result \<times> 'a kstate_scheme) kres" where
  "sr_switch src s =
     (if uid (desc s src) > PROC_UID_KERNEL then
        kbind (proc_schedule PROC_PID_ANY s) (\<lambda>(p, s1).
        kbind (if p = K_PROC_IDLE then proc_schedule PROC_PID_ANY s1 else KOk (p, s1)) (\<lambda>(_, s2).
        KOk (SR_restart, s2)))
      else KOk (SR_yield, s))"

definition sendreceive ::
    "pid \<Rightarrow> u32 \<Rightarrow> u16 \<Rightarrow> 'a kstate_scheme \<Rightarrow> (sr_result \<times> 'a kstate_scheme) kres" where
  "sendreceive tofrom pa ops s =
     (case proc_ptr s of
        None \<Rightarrow> KFault
      | Some src \<Rightarrow>
          let s1 = upd_desc src (\<lambda>d. d\<lparr>pa_msg := pa\<rparr>) s in
          kbind (sr_send src tofrom pa ops s1) (\<lambda>(r, s2).
          case r of Some e \<Rightarrow> KOk (SR_return e, s2)
          | None \<Rightarrow>
              kbind (sr_recv src tofrom pa ops s2) (\<lambda>(r', tf, s3).
              case r' of Some e \<Rightarrow> KOk (SR_return e, s3)
              | None \<Rightarrow>
                  if m_from (desc s3 src) = PROC_PID_NONE \<and> m_to (desc s3 src) = PROC_PID_NONE
                  then KOk (SR_return tf, s3)
                  else kbind (sr_block src s3) (sr_switch src))))"

text \<open>The return value of a system task that yielded, computed on its descriptor at that time.\<close>

definition sr_resume :: "u16 \<Rightarrow> proc_desc \<Rightarrow> pid" where
  "sr_resume ops d =
     (if ops AND O_RECV \<noteq> 0 then if m_from d \<noteq> PROC_PID_NONE then m_from d else EABORT
      else if m_to d \<noteq> PROC_PID_NONE then m_to d else EABORT)"

section \<open>The system call entry\<close>

definition k_scall :: "u16 \<Rightarrow> u16 \<Rightarrow> u32 \<Rightarrow> 'a kstate_scheme \<Rightarrow> (sr_result \<times> 'a kstate_scheme) kres" where
  "k_scall ops dst msg s =
     kbind (proc_current s) (\<lambda>cur.
     kbind (va_to_pa cur msg MSG_SIZE s) (\<lambda>pa.
     if pa \<noteq> 0 \<and> 3 AND msg = 0 then sendreceive (sint dst) pa (O_SEND OR O_RECV) s
     else KOk (SR_return (- 1), s)))"

end
