(* ===== verification/IpcProps.thy ===== *)
theory IpcProps
  imports Ipc
begin

text \<open>
  An abstract message-passing system without the process lists, the refinement that shows
  that \<open>sendreceive\<close> implements it, and what follows for the code: delivery, blocking, and
  the absence of missed rendezvous.
\<close>

section \<open>The abstract system\<close>

text \<open>Only the descriptors and the memory: each half of a call is a function on them.\<close>

type_synonym ipc = "(int \<Rightarrow> proc_desc) \<times> ram"

definition a_send :: "int \<Rightarrow> pid \<Rightarrow> u32 \<Rightarrow> u16 \<Rightarrow> ipc \<Rightarrow> pid option \<times> ipc" where
  "a_send src tf pa ops = (\<lambda>(D, R).
     if ops AND O_SEND = 0 then (None, D(src := (D src)\<lparr>m_to := PROC_PID_NONE\<rparr>), R)
     else if tf = PROC_PID_ANY then (Some ESENDANY, D, R)
     else if p_state (D tf) = ST_BLOCKED \<and> (m_from (D tf) = src \<or> m_from (D tf) = PROC_PID_ANY) then
       (None, D(src := (D src)\<lparr>m_to := PROC_PID_NONE\<rparr>,
                tf := (D tf)\<lparr>m_from := src, d_regs := (d_regs (D tf))(0 := word_of_int src), p_state := ST_READY\<rparr>),
        memcpy32 R (pa_msg (D tf)) pa MSG_WORDS)
     else (if p_state (D tf) = ST_BLOCKED \<and> m_to (D tf) = src then Some ELOCK else None,
           D(src := (D src)\<lparr>m_to := tf\<rparr>), R))"

definition a_sender :: "(int \<Rightarrow> proc_desc) \<Rightarrow> int \<Rightarrow> pid \<Rightarrow> pid" where
  "a_sender D src tf =
     (if tf \<noteq> PROC_PID_ANY then tf
      else case filter (\<lambda>p. p_state (D p) = ST_BLOCKED \<and> m_to (D p) = src) [0..31] of
             [] \<Rightarrow> PROC_PID_ANY | p # _ \<Rightarrow> p)"

definition a_recv :: "int \<Rightarrow> pid \<Rightarrow> u32 \<Rightarrow> u16 \<Rightarrow> ipc \<Rightarrow> pid option \<times> pid \<times> ipc" where
  "a_recv src tf pa ops = (\<lambda>(D, R).
     if ops AND O_RECV = 0 then (None, tf, D(src := (D src)\<lparr>m_from := PROC_PID_NONE\<rparr>), R)
     else if m_to (D src) \<noteq> PROC_PID_NONE then (None, tf, D(src := (D src)\<lparr>m_from := tf\<rparr>), R)
     else let q = a_sender D src tf in
       if q \<noteq> PROC_PID_ANY \<and> p_state (D q) = ST_BLOCKED \<and> m_to (D q) = src then
         (Some q, q,
          D(src := (D src)\<lparr>m_from := PROC_PID_NONE\<rparr>,
            q := (D q)\<lparr>d_regs := (d_regs (D q))(0 := word_of_int src), m_to := PROC_PID_NONE,
                       p_state := (if m_from (D q) = PROC_PID_NONE then ST_READY else ST_BLOCKED)\<rparr>),
          memcpy32 R pa (pa_msg (D q)) MSG_WORDS)
       else (None, q, D(src := (D src)\<lparr>m_from := tf\<rparr>), R))"

definition a_block :: "proc_desc \<Rightarrow> proc_desc" where
  "a_block d =
     (if sig_mask d = 0 then d\<lparr>p_state := ST_BLOCKED\<rparr>
      else d\<lparr>sig_mask := sig_mask d AND NOT SIGALRM, m_from := PROC_PID_NONE, m_to := PROC_PID_NONE,
             d_regs := (d_regs d)(0 := word_of_int EABORT)\<rparr>)"

text \<open>A whole call: \<open>Some v\<close> it returns \<open>v\<close>, \<open>None\<close> it gives up the processor.\<close>

definition a_call :: "int \<Rightarrow> pid \<Rightarrow> u32 \<Rightarrow> u16 \<Rightarrow> ipc \<Rightarrow> pid option \<times> ipc" where
  "a_call src tf pa ops = (\<lambda>(D, R).
     case a_send src tf pa ops (D(src := (D src)\<lparr>pa_msg := pa\<rparr>), R) of
       (Some e, x) \<Rightarrow> (Some e, x)
     | (None, x) \<Rightarrow>
         (case a_recv src tf pa ops x of
            (Some e, q, y) \<Rightarrow> (Some e, y)
          | (None, q, D', R') \<Rightarrow>
              if m_from (D' src) = PROC_PID_NONE \<and> m_to (D' src) = PROC_PID_NONE then (Some q, D', R')
              else (None, D'(src := a_block (D' src)), R')))"

section \<open>The refinement\<close>

text \<open>The descriptors and the memory of a kernel state.\<close>

definition ipc_of :: "'a kstate_scheme \<Rightarrow> ipc" where
  "ipc_of s = (desc s, ram s)"

text \<open>The rest of the kernel state a call must leave alone.\<close>

definition ipc_frame :: "'a kstate_scheme \<Rightarrow> 'a kstate_scheme \<Rightarrow> bool" where
  "ipc_frame s s' \<longleftrightarrow> blk_sts s' = blk_sts s \<and> mmu s' = mmu s \<and> proc_ptr s' = proc_ptr s \<and>
     (\<forall>x. pl_pid (proc_table s' x) = pl_pid (proc_table s x))"

definition caller :: "'a kstate_scheme \<Rightarrow> int \<Rightarrow> bool" where
  "caller s src \<longleftrightarrow> table_ok s \<and> src \<in> st_set s ST_READY \<and> src \<noteq> 31"

lemma callerD:
  assumes "caller s src"
  shows "table_ok s" "table_wf s" "src \<in> pids" "p_state (desc s src) = ST_READY" "src \<noteq> 31" "pl_pid (proc_table s src) = src"
  using assms table_wfD(2) [OF table_okD(1)] by (auto simp: caller_def table_okD)

lemma upd_desc_desc: "desc (upd_desc p f s) = (desc s)(p := f (desc s p))"
  by (auto simp: upd_desc_simps)

lemma caller_mild: "caller s src \<Longrightarrow> mild f \<Longrightarrow> p \<in> pids \<Longrightarrow> caller (upd_desc p f s) src"
  by (auto simp: caller_def table_ok_mild upd_desc_simps mild_def)

text \<open>Waking up a blocked process, with an update that keeps what the invariant looks at.\<close>

lemma wake_up:
  assumes ok: "table_ok s" and q: "q \<in> pids" "p_state (desc s q) = ST_BLOCKED"
  shows "\<exists>s'. proc_add_to_ready_list q s = KOk s' \<and> table_ok (upd_desc q (\<lambda>d. d\<lparr>p_state := ST_READY\<rparr>) s') \<and>
    link_frame UNIV s s'"
proof -
  have "q \<notin> st_set s ST_READY" "q \<notin> st_set s ST_NONE" using q by simp_all
  from links_add_ready [OF table_wfD(1) [OF table_okD(1) [OF ok]] this] obtain s1 where
    s1: "proc_add_to_ready_list q s = KOk s1" "links_ok s1 (insert q (st_set s ST_READY)) (st_set s ST_NONE)"
    "link_frame UNIV s s1" by blast
  let ?s2 = "upd_desc q (\<lambda>d. d\<lparr>p_state := ST_READY\<rparr>) s1"
  have d: "desc ?s2 x = (if x = q then (desc s q)\<lparr>p_state := ST_READY\<rparr> else desc s x)" for x
    using link_frame_desc [OF s1(3)] by (simp add: upd_desc_simps)
  have "table_wf ?s2"
    by (rule table_wf_change [OF table_okD(1) [OF ok] q(1) _ d])
      (use s1(2) q table_wfD [OF table_okD(1) [OF ok]] in
        \<open>simp_all add: st_move_def upd_desc_simps link_frame_pid [OF s1(3)]\<close>)
  then have "table_ok ?s2" using table_okD(2) [OF ok] d by (intro table_okI) simp_all
  with s1 show ?thesis by blast
qed

lemma send_refines:
  assumes c: "caller s src" and tf: "tf \<in> pids \<or> tf = PROC_PID_ANY"
  shows "\<exists>r s'. sr_send src tf pa ops s = KOk (r, s') \<and> a_send src tf pa ops (ipc_of s) = (r, ipc_of s') \<and>
    caller s' src \<and> ipc_frame s s'"
proof -
  note d = callerD [OF c]
  have m1: "caller (upd_desc src (\<lambda>d. d\<lparr>m_to := x\<rparr>) s) src" for x
    by (rule caller_mild [OF c _ d(3)]) (simp add: mild_def)
  consider (nosend) "ops AND O_SEND = 0" | (any) "ops AND O_SEND \<noteq> 0" "tf = PROC_PID_ANY"
    | (hit) "ops AND O_SEND \<noteq> 0" "tf \<in> pids" "p_state (desc s tf) = ST_BLOCKED"
        "m_from (desc s tf) = src \<or> m_from (desc s tf) = PROC_PID_ANY"
    | (miss) "ops AND O_SEND \<noteq> 0" "tf \<in> pids"
        "\<not> (p_state (desc s tf) = ST_BLOCKED \<and> (m_from (desc s tf) = src \<or> m_from (desc s tf) = PROC_PID_ANY))"
    using tf by blast
  then show ?thesis
  proof cases
    case nosend
    then show ?thesis
      using m1 by (auto simp: sr_send_def a_send_def ipc_of_def fun_eq_iff ipc_frame_def upd_desc_simps)
  next
    case any
    then show ?thesis using c by (simp add: sr_send_def a_send_def ipc_of_def ipc_frame_def)
  next
    case hit
    have ne: "tf \<noteq> src" "tf \<noteq> PROC_PID_ANY" using hit d by (auto simp: PROC_PID_ANY_def)
    let ?s1 = "upd_desc src (\<lambda>d. d\<lparr>m_to := tf\<rparr>) s"
    let ?s2 = "?s1\<lparr>ram := memcpy32 (ram ?s1) (pa_msg (desc ?s1 tf)) pa MSG_WORDS\<rparr>"
    let ?s3 = "upd_desc src (\<lambda>d. d\<lparr>m_to := PROC_PID_NONE\<rparr>) ?s2"
    let ?s4 = "upd_desc tf (\<lambda>d. d\<lparr>m_from := src, d_regs := (d_regs d)(0 := word_of_int src)\<rparr>) ?s3"
    have "caller ?s2 src" using m1 [of tf] by (simp add: caller_def)
    then have "caller ?s3 src" by (rule caller_mild) (simp_all add: mild_def d)
    then have c4: "caller ?s4 src" by (rule caller_mild) (simp_all add: mild_def hit)
    have "p_state (desc ?s4 tf) = ST_BLOCKED" using hit ne by (simp add: upd_desc_simps)
    from wake_up [OF callerD(1) [OF c4] hit(2) this] obtain s5 where
      s5: "proc_add_to_ready_list tf ?s4 = KOk s5" "table_ok (upd_desc tf (\<lambda>d. d\<lparr>p_state := ST_READY\<rparr>) s5)"
      "link_frame UNIV ?s4 s5" by blast
    let ?s6 = "upd_desc tf (\<lambda>d. d\<lparr>p_state := ST_READY\<rparr>) s5"
    have "sr_send src tf pa ops s = KOk (None, ?s6)"
      using hit ne d s5(1) by (auto simp: sr_send_def Let_def entry_pids upd_desc_simps)
    moreover have "a_send src tf pa ops (ipc_of s) = (None, ipc_of ?s6)"
      using hit ne by (auto simp: a_send_def ipc_of_def fun_eq_iff upd_desc_simps link_frame_simps [OF s5(3)])
    moreover have "caller ?s6 src"
      using s5(2) ne d by (simp add: caller_def upd_desc_simps link_frame_simps [OF s5(3)])
    moreover have "ipc_frame s ?s6" by (simp add: ipc_frame_def upd_desc_simps link_frame_simps [OF s5(3)])
    ultimately show ?thesis by blast
  next
    case miss
    have ne: "tf \<noteq> PROC_PID_ANY" using miss by (auto simp: PROC_PID_ANY_def)
    let ?s1 = "upd_desc src (\<lambda>d. d\<lparr>m_to := tf\<rparr>) s"
    have p: "p_state (desc ?s1 x) = p_state (desc s x)" "m_from (desc ?s1 x) = m_from (desc s x)" for x
      by (simp_all add: upd_desc_simps)
    have mt: "m_to (desc ?s1 tf) = m_to (desc s tf)" if "p_state (desc s tf) = ST_BLOCKED"
      using that d by (auto simp: upd_desc_simps)
    have "sr_send src tf pa ops s =
        KOk (if p_state (desc s tf) = ST_BLOCKED \<and> m_to (desc s tf) = src then Some ELOCK else None, ?s1)"
      using miss ne p mt d by (auto simp: sr_send_def Let_def entry_pids upd_desc_simps(3))
    moreover have "a_send src tf pa ops (ipc_of s) =
        (if p_state (desc s tf) = ST_BLOCKED \<and> m_to (desc s tf) = src then Some ELOCK else None, ipc_of ?s1)"
      using miss ne by (auto simp: a_send_def ipc_of_def upd_desc_desc upd_desc_simps(8))
    moreover have "ipc_frame s ?s1" by (simp add: ipc_frame_def upd_desc_simps)
    ultimately show ?thesis using m1 [of tf] by blast
  qed
qed

lemma find_sender_filter:
  "find_sender s me ps = (case filter (\<lambda>p. p_state (desc s p) = ST_BLOCKED \<and> m_to (desc s p) = me) ps of
     [] \<Rightarrow> PROC_PID_ANY | p # _ \<Rightarrow> p)"
  by (induction ps) auto

lemma a_sender_pids: "tf \<in> pids \<or> tf = PROC_PID_ANY \<Longrightarrow> a_sender D src tf \<in> pids \<or> a_sender D src tf = PROC_PID_ANY"
proof -
  have "p \<in> pids" if "filter Q [0..31] = p # ps" for Q p ps
    using that by (metis atLeastAtMost_iff filter_is_subset list.set_intros(1) pids_def set_upto subsetD)
  then show "tf \<in> pids \<or> tf = PROC_PID_ANY \<Longrightarrow> ?thesis" by (auto simp: a_sender_def split: list.splits)
qed

lemma recv_refines:
  assumes c: "caller s src" and tf: "tf \<in> pids \<or> tf = PROC_PID_ANY"
  shows "\<exists>r q s'. sr_recv src tf pa ops s = KOk (r, q, s') \<and> a_recv src tf pa ops (ipc_of s) = (r, q, ipc_of s') \<and>
    caller s' src \<and> ipc_frame s s'"
proof -
  note d = callerD [OF c]
  have m1: "caller (upd_desc src (\<lambda>d. d\<lparr>m_from := x\<rparr>) s) src" for x
    by (rule caller_mild [OF c _ d(3)]) (simp add: mild_def)
  let ?s1 = "upd_desc src (\<lambda>d. d\<lparr>m_from := tf\<rparr>) s"
  have p: "p_state (desc ?s1 x) = p_state (desc s x)" "m_to (desc ?s1 x) = m_to (desc s x)"
    "pa_msg (desc ?s1 x) = pa_msg (desc s x)" for x
    by (simp_all add: upd_desc_simps)
  let ?q = "a_sender (desc s) src tf"
  have fs: "find_sender ?s1 src ps = find_sender s src ps" for ps
    by (induction ps) (simp_all add: p)
  have q: "(if tf = PROC_PID_ANY then find_sender ?s1 src [0..K_PROC_COUNT - 1] else tf) = ?q"
    unfolding fs by (simp add: a_sender_def find_sender_filter K_PROC_COUNT_def)
  have f1: "ipc_frame s ?s1" "ipc_of ?s1 = ((desc s)(src := (desc s src)\<lparr>m_from := tf\<rparr>), ram s)"
    by (auto simp: ipc_frame_def ipc_of_def fun_eq_iff upd_desc_simps)
  consider (norecv) "ops AND O_RECV = 0" | (pend) "ops AND O_RECV \<noteq> 0" "m_to (desc s src) \<noteq> PROC_PID_NONE"
    | (hit) "ops AND O_RECV \<noteq> 0" "m_to (desc s src) = PROC_PID_NONE" "?q \<in> pids" "?q \<noteq> PROC_PID_ANY"
        "p_state (desc s ?q) = ST_BLOCKED" "m_to (desc s ?q) = src"
    | (miss) "ops AND O_RECV \<noteq> 0" "m_to (desc s src) = PROC_PID_NONE"
        "\<not> (?q \<noteq> PROC_PID_ANY \<and> p_state (desc s ?q) = ST_BLOCKED \<and> m_to (desc s ?q) = src)"
    using a_sender_pids [OF tf, of "desc s" src] by blast
  then show ?thesis
  proof cases
    case norecv
    then show ?thesis
      using m1 by (auto simp: sr_recv_def a_recv_def ipc_of_def fun_eq_iff ipc_frame_def upd_desc_simps)
  next
    case pend
    then have "sr_recv src tf pa ops s = KOk (None, tf, ?s1)" by (simp add: sr_recv_def Let_def p)
    moreover have "a_recv src tf pa ops (ipc_of s) = (None, tf, ipc_of ?s1)"
      using pend f1 by (simp add: a_recv_def ipc_of_def)
    ultimately show ?thesis using m1 [of tf] f1 by blast
  next
    case miss
    have me: "pl_pid (proc_table ?s1 src) = src" using d by (simp add: upd_desc_simps)
    have "sr_recv src tf pa ops s = KOk (None, ?q, ?s1)"
      unfolding sr_recv_def Let_def me q p
      using miss a_sender_pids [OF tf, of "desc s" src] by (auto simp: entry_pids)
    moreover have "a_recv src tf pa ops (ipc_of s) = (None, ?q, ipc_of ?s1)"
      using miss f1 by (auto simp: a_recv_def ipc_of_def Let_def)
    ultimately show ?thesis using m1 [of tf] f1 by blast
  next
    case hit
    have me: "pl_pid (proc_table ?s1 src) = src" using d by (simp add: upd_desc_simps)
    have ne: "?q \<noteq> src" using hit d by auto
    let ?s2 = "?s1\<lparr>ram := memcpy32 (ram ?s1) pa (pa_msg (desc ?s1 ?q)) MSG_WORDS\<rparr>"
    let ?s3 = "upd_desc src (\<lambda>d. d\<lparr>m_from := PROC_PID_NONE\<rparr>) ?s2"
    let ?s4 = "upd_desc ?q (\<lambda>d. d\<lparr>d_regs := (d_regs d)(0 := word_of_int src), m_to := PROC_PID_NONE\<rparr>) ?s3"
    have "caller ?s2 src" using m1 [of tf] by (simp add: caller_def)
    then have "caller ?s3 src" by (rule caller_mild) (simp_all add: mild_def d)
    then have c4: "caller ?s4 src" by (rule caller_mild) (simp_all add: mild_def hit)
    have b4: "p_state (desc ?s4 ?q) = ST_BLOCKED" "m_from (desc ?s4 ?q) = m_from (desc s ?q)"
      using hit ne by (simp_all add: upd_desc_simps)
    from wake_up [OF callerD(1) [OF c4] hit(3) b4(1)] obtain s5 where
      s5: "proc_add_to_ready_list ?q ?s4 = KOk s5" "table_ok (upd_desc ?q (\<lambda>d. d\<lparr>p_state := ST_READY\<rparr>) s5)"
      "link_frame UNIV ?s4 s5" by blast
    let ?s6 = "if m_from (desc s ?q) = PROC_PID_NONE then upd_desc ?q (\<lambda>d. d\<lparr>p_state := ST_READY\<rparr>) s5 else ?s4"
    have run: "sr_recv src tf pa ops s = KOk (Some ?q, ?q, ?s6)"
      unfolding sr_recv_def Let_def me q p(1,2)
      using hit s5(1) b4(2) by (simp add: entry_pids)
    have "a_recv src tf pa ops (ipc_of s) = (Some ?q, ?q, ipc_of ?s6)"
      using hit ne by (auto simp: a_recv_def ipc_of_def Let_def fun_eq_iff upd_desc_simps link_frame_simps [OF s5(3)])
    moreover have "caller ?s6 src"
      using s5(2) ne d c4 by (simp add: caller_def upd_desc_simps link_frame_simps [OF s5(3)])
    moreover have "ipc_frame s ?s6" by (simp add: ipc_frame_def upd_desc_simps link_frame_simps [OF s5(3)])
    ultimately show ?thesis using run by blast
  qed
qed

lemma block_refines:
  assumes c: "caller s src"
  shows "\<exists>s'. sr_block src s = KOk s' \<and> table_ok s' \<and>
    ipc_of s' = ((desc s)(src := a_block (desc s src)), ram s) \<and> ipc_frame s s'"
proof (cases "sig_mask (desc s src) = 0")
  case True
  note d = callerD [OF c]
  have "31 \<in> st_set s ST_READY" "src \<in> st_set s ST_READY" using table_okD(2) [OF d(1)] d by simp_all
  then have "st_set s ST_READY \<noteq> {src}" using d(5) by auto
  from links_rem_ready [OF table_wfD(1) [OF d(2)] \<open>src \<in> st_set s ST_READY\<close> this] obtain s1 where
    s1: "proc_remove_from_ready_list src s = KOk s1" "links_ok s1 (st_set s ST_READY - {src}) (st_set s ST_NONE)"
    "link_frame UNIV s s1" by blast
  let ?s2 = "upd_desc src (\<lambda>d. d\<lparr>p_state := ST_BLOCKED\<rparr>) s1"
  have e: "desc ?s2 x = (if x = src then (desc s src)\<lparr>p_state := ST_BLOCKED\<rparr> else desc s x)" for x
    using link_frame_desc [OF s1(3)] by (simp add: upd_desc_simps)
  have "st_set s ST_NONE - {src} = st_set s ST_NONE" using d by auto
  then have "table_wf ?s2"
    by (intro table_wf_change [OF d(2,3) _ e])
      (use s1(2) d table_wfD [OF d(2)] in \<open>simp_all add: st_move_def upd_desc_simps link_frame_pid [OF s1(3)]\<close>)
  then have "table_ok ?s2" using table_okD(2) [OF d(1)] d(5) e by (intro table_okI) simp_all
  moreover have "sr_block src s = KOk ?s2" using True s1(1) by (simp add: sr_block_def)
  moreover have "ipc_of ?s2 = ((desc s)(src := a_block (desc s src)), ram s)"
    using True e by (auto simp: ipc_of_def a_block_def upd_desc_simps(8) link_frame_simps [OF s1(3)])
  moreover have "ipc_frame s ?s2" by (simp add: ipc_frame_def upd_desc_simps link_frame_simps [OF s1(3)])
  ultimately show ?thesis by blast
next
  case False
  note d = callerD [OF c]
  have al: "m AND NOT SIGALRM = m" if "m AND SIGALRM = 0" for m :: u16
    using bit.conj_disj_distrib [of m SIGALRM "NOT SIGALRM"] that by simp
  let ?s1 = "if sig_mask (desc s src) AND SIGALRM \<noteq> 0
             then upd_desc src (\<lambda>d. d\<lparr>sig_mask := sig_mask d AND NOT SIGALRM\<rparr>) s else s"
  let ?s2 = "upd_desc src (\<lambda>d. d\<lparr>m_from := PROC_PID_NONE, m_to := PROC_PID_NONE,
                  d_regs := (d_regs d)(0 := word_of_int EABORT)\<rparr>) ?s1"
  have "table_ok ?s1" using d by (auto intro!: table_ok_mild simp: mild_def)
  then have "table_ok ?s2" by (rule table_ok_mild) (simp_all add: mild_def d)
  moreover have "sr_block src s = KOk ?s2" using False by (simp add: sr_block_def Let_def)
  moreover have "ipc_of ?s2 = ((desc s)(src := a_block (desc s src)), ram s)"
    using False al by (auto simp: ipc_of_def a_block_def fun_eq_iff upd_desc_simps)
  moreover have "ipc_frame s ?s2" by (auto simp: ipc_frame_def upd_desc_simps)
  ultimately show ?thesis by blast
qed

text \<open>Changing process: the idle task gets the processor only when nothing else is ready.\<close>

lemma schedule_any_step:
  assumes "table_ok s" and "ready_view s (h # t)"
  shows "\<exists>n t'. t @ [h] = n # t' \<and> proc_schedule PROC_PID_ANY s = KOk (n, dispatch n s) \<and>
    n \<in> st_set s ST_READY \<and> table_ok (dispatch n s) \<and> ready_view (dispatch n s) (n # t')"
proof -
  obtain n t' where "t @ [h] = n # t'" by (cases t) auto
  then show ?thesis
    using proc_schedule_any [OF assms] table_ok_dispatch [OF assms(1)] by auto
qed

lemma ready_nonempty:
  assumes "table_ok s"
  obtains h t where "ready_view s (h # t)" "set (h # t) = st_set s ST_READY"
proof -
  obtain rq where "ready_view s rq" "set rq = st_set s ST_READY"
    using table_wfD(1) [OF table_okD(1) [OF assms]] unfolding links_ok_def by blast
  moreover have "31 \<in> st_set s ST_READY" using table_okD(2) [OF assms] by simp
  ultimately show thesis using that by (cases rq) auto
qed

lemma st_set_dispatch [simp]: "st_set (dispatch n s) st = st_set s st"
  by (simp add: st_set_def)

lemma switch_any:
  assumes ok: "table_ok s"
  shows "\<exists>q s'. kbind (proc_schedule PROC_PID_ANY s) (\<lambda>(p, s1).
        kbind (if p = K_PROC_IDLE then proc_schedule PROC_PID_ANY s1 else KOk (p, s1)) (\<lambda>(_, s2).
        KOk (SR_restart, s2))) = KOk (SR_restart, s') \<and> (s' = dispatch q s \<or> s' = dispatch q (dispatch 31 s)) \<and>
      table_ok s' \<and> q \<in> st_set s ST_READY \<and> (q = 31 \<longrightarrow> st_set s ST_READY = {31})"
proof -
  obtain h t where v: "ready_view s (h # t)" "set (h # t) = st_set s ST_READY" by (rule ready_nonempty [OF ok])
  obtain n t' where n: "t @ [h] = n # t'" "proc_schedule PROC_PID_ANY s = KOk (n, dispatch n s)"
    "n \<in> st_set s ST_READY" "table_ok (dispatch n s)" "ready_view (dispatch n s) (n # t')"
    using schedule_any_step [OF ok v(1)] by blast
  show ?thesis
  proof (cases "n = 31")
    case True
    obtain m u where m: "t' @ [n] = m # u" "proc_schedule PROC_PID_ANY (dispatch n s) = KOk (m, dispatch m (dispatch n s))"
      "m \<in> st_set s ST_READY" "table_ok (dispatch m (dispatch n s))"
      using schedule_any_step [OF n(4,5)] by auto
    have "st_set s ST_READY = {31}" if "m = 31"
    proof -
      have "distinct (n # t')" by (rule ring_view_distinct [OF n(5)])
      then have "t' = []" using m(1) that True by (cases t') auto
      then show ?thesis using n(1) v(2) True by (cases t) auto
    qed
    then show ?thesis
      using n m True by (intro exI [of _ m] exI [of _ "dispatch m (dispatch n s)"])
        (simp add: K_PROC_IDLE_def K_PROC_COUNT_def)
  next
    case False
    then show ?thesis
      using n by (intro exI [of _ n] exI [of _ "dispatch n s"]) (simp add: K_PROC_IDLE_def K_PROC_COUNT_def)
  qed
qed

lemma switch_refines:
  assumes ok: "table_ok s" and r: "proc_ptr s = Some src"
  shows "\<exists>r s'. sr_switch src s = KOk (r, s') \<and> table_ok s' \<and> ipc_of s' = ipc_of s \<and> blk_sts s' = blk_sts s \<and>
    r = (if uid (desc s src) > PROC_UID_KERNEL then SR_restart else SR_yield) \<and>
    (r = SR_restart \<longrightarrow> (\<exists>q. proc_ptr s' = Some q \<and> q \<in> st_set s' ST_READY \<and>
       (q = 31 \<longrightarrow> st_set s' ST_READY = {31}))) \<and> (r = SR_yield \<longrightarrow> s' = s)"
proof (cases "uid (desc s src) > PROC_UID_KERNEL")
  case True
  from switch_any [OF ok] obtain q s' where q: "sr_switch src s = KOk (SR_restart, s')"
    "s' = dispatch q s \<or> s' = dispatch q (dispatch 31 s)" "table_ok s'" "q \<in> st_set s ST_READY"
    "q = 31 \<longrightarrow> st_set s ST_READY = {31}"
    using True unfolding sr_switch_def by auto
  then show ?thesis using True by (intro exI [of _ SR_restart] exI [of _ s']) (auto simp: ipc_of_def)
next
  case False
  then show ?thesis using ok by (simp add: sr_switch_def)
qed

text \<open>The whole call, on the descriptors and the memory.\<close>

definition ret_of :: "sr_result \<Rightarrow> pid option" where
  "ret_of r = (case r of SR_return e \<Rightarrow> Some e | _ \<Rightarrow> None)"

lemma ipc_frame_trans: "ipc_frame s s' \<Longrightarrow> ipc_frame s' s'' \<Longrightarrow> ipc_frame s s''"
  by (simp add: ipc_frame_def)

lemma sendreceive_run:
  assumes c: "caller s src" and r: "proc_ptr s = Some src" and tf: "tf \<in> pids \<or> tf = PROC_PID_ANY"
  shows "\<exists>r s'. sendreceive tf pa ops s = KOk (r, s') \<and> table_ok s' \<and>
    a_call src tf pa ops (ipc_of s) = (ret_of r, ipc_of s') \<and> blk_sts s' = blk_sts s \<and>
    (ret_of r = None \<longrightarrow> r = (if uid (desc s' src) > PROC_UID_KERNEL then SR_restart else SR_yield)) \<and>
    (r = SR_restart \<longrightarrow> (\<exists>q. proc_ptr s' = Some q \<and> q \<in> st_set s' ST_READY \<and>
       (q = 31 \<longrightarrow> st_set s' ST_READY = {31}))) \<and> (r \<noteq> SR_restart \<longrightarrow> proc_ptr s' = Some src)"
proof -
  note d = callerD [OF c]
  let ?s1 = "upd_desc src (\<lambda>d. d\<lparr>pa_msg := pa\<rparr>) s"
  have c1: "caller ?s1 src" by (rule caller_mild [OF c _ d(3)]) (simp add: mild_def)
  have i1: "ipc_of ?s1 = ((desc s)(src := (desc s src)\<lparr>pa_msg := pa\<rparr>), ram s)"
    by (auto simp: ipc_of_def fun_eq_iff upd_desc_simps)
  have f1: "ipc_frame s ?s1" by (simp add: ipc_frame_def upd_desc_simps)
  obtain r2 s2 where s2: "sr_send src tf pa ops ?s1 = KOk (r2, s2)" "a_send src tf pa ops (ipc_of ?s1) = (r2, ipc_of s2)"
    "caller s2 src" "ipc_frame ?s1 s2" using send_refines [OF c1 tf] by blast
  note f2 = ipc_frame_trans [OF f1 s2(4)]
  note a1 = s2(2) [unfolded i1]
  show ?thesis
  proof (cases r2)
    case (Some e)
    have "sendreceive tf pa ops s = KOk (SR_return e, s2)" using r s2(1) Some by (simp add: sendreceive_def Let_def)
    then show ?thesis
      using callerD(1) [OF s2(3)] a1 Some f2 r
      by (intro exI [of _ "SR_return e"] exI [of _ s2]) (simp add: a_call_def ret_of_def ipc_of_def ipc_frame_def)
  next
    case None
    obtain r3 q s3 where s3: "sr_recv src tf pa ops s2 = KOk (r3, q, s3)" "a_recv src tf pa ops (ipc_of s2) = (r3, q, ipc_of s3)"
      "caller s3 src" "ipc_frame s2 s3" using recv_refines [OF s2(3) tf] by blast
    note f3 = ipc_frame_trans [OF f2 s3(4)]
    let ?done = "m_from (desc s3 src) = PROC_PID_NONE \<and> m_to (desc s3 src) = PROC_PID_NONE"
    show ?thesis
    proof (cases "r3 = None \<and> \<not> ?done")
      case False
      let ?e = "case r3 of Some e \<Rightarrow> e | None \<Rightarrow> q"
      have "sendreceive tf pa ops s = KOk (SR_return ?e, s3)"
        using r s2(1) s3(1) None False by (auto simp: sendreceive_def Let_def split: option.splits)
      moreover have "a_call src tf pa ops (ipc_of s) = (Some ?e, ipc_of s3)"
        using a1 s3(2) None False by (auto simp: a_call_def ipc_of_def split: option.splits)
      ultimately show ?thesis
        using callerD(1) [OF s3(3)] f3 r
        by (intro exI [of _ "SR_return ?e"] exI [of _ s3]) (simp add: ret_of_def ipc_frame_def)
    next
      case True
      obtain s4 where s4: "sr_block src s3 = KOk s4" "table_ok s4"
        "ipc_of s4 = ((desc s3)(src := a_block (desc s3 src)), ram s3)" "ipc_frame s3 s4"
        using block_refines [OF s3(3)] by blast
      note f4 = ipc_frame_trans [OF f3 s4(4)]
      have p4: "proc_ptr s4 = Some src" using f4 r by (simp add: ipc_frame_def)
      obtain r5 s5 where s5: "sr_switch src s4 = KOk (r5, s5)" "table_ok s5" "ipc_of s5 = ipc_of s4" "blk_sts s5 = blk_sts s4"
        "r5 = (if uid (desc s4 src) > PROC_UID_KERNEL then SR_restart else SR_yield)"
        "r5 = SR_restart \<longrightarrow> (\<exists>q. proc_ptr s5 = Some q \<and> q \<in> st_set s5 ST_READY \<and> (q = 31 \<longrightarrow> st_set s5 ST_READY = {31}))"
        "r5 = SR_yield \<longrightarrow> s5 = s4"
        using switch_refines [OF s4(2) p4] by blast
      have rn: "ret_of r5 = None" using s5(5) by (auto simp: ret_of_def)
      have "sendreceive tf pa ops s = KOk (r5, s5)"
        using r s2(1) s3(1) None True s4(1) s5(1) by (auto simp: sendreceive_def Let_def)
      moreover have "a_call src tf pa ops (ipc_of s) = (None, ipc_of s5)"
        using a1 s3(2) None True s4(3) s5(3) by (auto simp: a_call_def ipc_of_def)
      moreover have "desc s5 x = desc s4 x" for x using s5(3) by (simp add: ipc_of_def fun_eq_iff)
      moreover have "blk_sts s5 = blk_sts s" using f4 s5(4) by (simp add: ipc_frame_def)
      moreover have "r5 \<noteq> SR_restart \<longrightarrow> proc_ptr s5 = Some src" using s5(5,7) p4 by auto
      ultimately show ?thesis using rn s5(2,5,6) by (intro exI [of _ r5] exI [of _ s5]) simp
    qed
  qed
qed

section \<open>No missed rendezvous\<close>

text \<open>A process blocked sending to another one that waits for it would be a lost match.\<close>

definition no_missed :: "(int \<Rightarrow> proc_desc) \<Rightarrow> bool" where
  "no_missed D \<longleftrightarrow> (\<forall>p \<in> pids. \<forall>q \<in> pids. p \<noteq> q \<and> p_state (D p) = ST_BLOCKED \<and> p_state (D q) = ST_BLOCKED \<and>
     m_to (D p) = q \<longrightarrow> m_from (D q) \<noteq> p \<and> m_from (D q) \<noteq> PROC_PID_ANY)"

lemma no_missedD:
  "no_missed D \<Longrightarrow> p \<in> pids \<Longrightarrow> q \<in> pids \<Longrightarrow> p \<noteq> q \<Longrightarrow> p_state (D p) = ST_BLOCKED \<Longrightarrow> p_state (D q) = ST_BLOCKED \<Longrightarrow>
     m_to (D p) = q \<Longrightarrow> m_from (D q) \<noteq> p \<and> m_from (D q) \<noteq> PROC_PID_ANY"
  by (auto simp: no_missed_def)

text \<open>Processes that are not blocked do not matter, and a blocked one may stop sending.\<close>

lemma no_missed_mono:
  assumes "no_missed D"
    and "\<And>p. p_state (D' p) = ST_BLOCKED \<Longrightarrow> p_state (D p) = ST_BLOCKED \<and> m_from (D' p) = m_from (D p) \<and>
      (m_to (D' p) = m_to (D p) \<or> m_to (D' p) \<notin> pids)"
  shows "no_missed D'"
  unfolding no_missed_def
proof (intro ballI impI)
  fix p q assume pq: "p \<in> pids" "q \<in> pids"
    and b: "p \<noteq> q \<and> p_state (D' p) = ST_BLOCKED \<and> p_state (D' q) = ST_BLOCKED \<and> m_to (D' p) = q"
  with assms(2) [of p] assms(2) [of q] have "m_to (D p) = q" "p_state (D p) = ST_BLOCKED" "p_state (D q) = ST_BLOCKED"
    "m_from (D' q) = m_from (D q)" by auto
  with no_missedD [OF assms(1) pq] b show "m_from (D' q) \<noteq> p \<and> m_from (D' q) \<noteq> PROC_PID_ANY" by simp
qed

text \<open>Blocking one process more.\<close>

lemma no_missed_block:
  assumes "no_missed D" and "p_state (D src) \<noteq> ST_BLOCKED"
    and "\<And>x. x \<noteq> src \<Longrightarrow> D' x = D x"
    and "\<And>q. q \<in> pids \<Longrightarrow> q \<noteq> src \<Longrightarrow> p_state (D q) = ST_BLOCKED \<Longrightarrow> m_to (D' src) = q \<Longrightarrow>
      m_from (D q) \<noteq> src \<and> m_from (D q) \<noteq> PROC_PID_ANY"
    and "\<And>p. p \<in> pids \<Longrightarrow> p \<noteq> src \<Longrightarrow> p_state (D p) = ST_BLOCKED \<Longrightarrow> m_to (D p) = src \<Longrightarrow>
      m_from (D' src) \<noteq> p \<and> m_from (D' src) \<noteq> PROC_PID_ANY"
  shows "no_missed D'"
  unfolding no_missed_def
proof (intro ballI impI)
  fix p q assume pq: "p \<in> pids" "q \<in> pids"
    and b: "p \<noteq> q \<and> p_state (D' p) = ST_BLOCKED \<and> p_state (D' q) = ST_BLOCKED \<and> m_to (D' p) = q"
  consider "p = src" "q \<noteq> src" | "q = src" "p \<noteq> src" | "p \<noteq> src" "q \<noteq> src" using b by blast
  then show "m_from (D' q) \<noteq> p \<and> m_from (D' q) \<noteq> PROC_PID_ANY"
  proof cases
    case 1
    then show ?thesis using assms(3) [OF 1(2)] assms(4) [OF pq(2) 1(2)] b by simp
  next
    case 2
    then show ?thesis using assms(3) [OF 2(2)] assms(5) [OF pq(1) 2(2)] b by simp
  next
    case 3
    then show ?thesis using no_missedD [OF assms(1) pq] assms(3) [OF 3(1)] assms(3) [OF 3(2)] b by simp
  qed
qed

lemma a_send_cases:
  assumes "a_send src tf pa ops (D, R) = (r, D', R')"
  obtains (nosend) "r = None" "D' = D(src := (D src)\<lparr>m_to := PROC_PID_NONE\<rparr>)" "R' = R"
    | (any) "r = Some ESENDANY" "D' = D" "R' = R"
    | (hit) "r = None" "tf \<noteq> PROC_PID_ANY" "p_state (D tf) = ST_BLOCKED"
        "m_from (D tf) = src \<or> m_from (D tf) = PROC_PID_ANY"
        "D' = D(src := (D src)\<lparr>m_to := PROC_PID_NONE\<rparr>,
           tf := (D tf)\<lparr>m_from := src, d_regs := (d_regs (D tf))(0 := word_of_int src), p_state := ST_READY\<rparr>)"
        "R' = memcpy32 R (pa_msg (D tf)) pa MSG_WORDS"
    | (miss) "tf \<noteq> PROC_PID_ANY"
        "\<not> (p_state (D tf) = ST_BLOCKED \<and> (m_from (D tf) = src \<or> m_from (D tf) = PROC_PID_ANY))"
        "r = (if p_state (D tf) = ST_BLOCKED \<and> m_to (D tf) = src then Some ELOCK else None)"
        "D' = D(src := (D src)\<lparr>m_to := tf\<rparr>)" "R' = R"
proof -
  have e: "(r, D', R') = a_send src tf pa ops (D, R)" using assms by simp
  let ?hit = "p_state (D tf) = ST_BLOCKED \<and> (m_from (D tf) = src \<or> m_from (D tf) = PROC_PID_ANY)"
  consider "ops AND O_SEND = 0" | "ops AND O_SEND \<noteq> 0" "tf = PROC_PID_ANY"
    | "ops AND O_SEND \<noteq> 0" "tf \<noteq> PROC_PID_ANY" "?hit" | "ops AND O_SEND \<noteq> 0" "tf \<noteq> PROC_PID_ANY" "\<not> ?hit" by blast
  then show thesis
  proof cases
    case 1 show thesis by (rule nosend) (use e 1 in \<open>simp_all add: a_send_def\<close>)
  next
    case 2 show thesis by (rule any) (use e 2 in \<open>simp_all add: a_send_def\<close>)
  next
    case 3 show thesis by (rule hit) (use e 3 in \<open>simp_all add: a_send_def\<close>)
  next
    case 4
    have "a_send src tf pa ops (D, R) = (if p_state (D tf) = ST_BLOCKED \<and> m_to (D tf) = src then Some ELOCK else None,
        D(src := (D src)\<lparr>m_to := tf\<rparr>), R)"
      unfolding a_send_def prod.case by (simp only: 4 if_False)
    with e 4 show thesis by (intro miss) (simp_all only: prod.inject simp_thms)
  qed
qed

lemma a_send_missed:
  assumes s: "a_send src tf pa ops (D, R) = (r, D', R')" and st: "p_state (D src) = ST_READY" and nm: "no_missed D"
  shows "no_missed D'" and "p_state (D' src) = ST_READY" and "\<And>x. x \<noteq> src \<Longrightarrow> p_state (D' x) = ST_BLOCKED \<Longrightarrow> D' x = D x"
    and "r = None \<Longrightarrow> m_to (D' src) = PROC_PID_NONE \<or>
      m_to (D' src) = tf \<and> tf \<noteq> PROC_PID_ANY \<and>
      (p_state (D' tf) = ST_BLOCKED \<longrightarrow> m_from (D' tf) \<noteq> src \<and> m_from (D' tf) \<noteq> PROC_PID_ANY \<and> m_to (D' tf) \<noteq> src)"
proof -
  have "p_state (D' src) = ST_READY \<and> (\<forall>x. x \<noteq> src \<and> p_state (D' x) = ST_BLOCKED \<longrightarrow> D' x = D x)"
    using s by (cases rule: a_send_cases) (use st in auto)
  then show st': "p_state (D' src) = ST_READY" and o: "\<And>x. x \<noteq> src \<Longrightarrow> p_state (D' x) = ST_BLOCKED \<Longrightarrow> D' x = D x"
    by auto
  show "no_missed D'"
    by (rule no_missed_mono [OF nm]) (metis o proc_state.distinct(7) st')
  show "r = None \<Longrightarrow> m_to (D' src) = PROC_PID_NONE \<or> m_to (D' src) = tf \<and> tf \<noteq> PROC_PID_ANY \<and>
      (p_state (D' tf) = ST_BLOCKED \<longrightarrow> m_from (D' tf) \<noteq> src \<and> m_from (D' tf) \<noteq> PROC_PID_ANY \<and> m_to (D' tf) \<noteq> src)"
    using s by (cases rule: a_send_cases) (use st in \<open>auto split: if_splits\<close>)
qed

lemma a_recv_cases:
  assumes "a_recv src tf pa ops (D, R) = (r, q, D', R')"
  obtains (norecv) "r = None" "q = tf" "D' = D(src := (D src)\<lparr>m_from := PROC_PID_NONE\<rparr>)" "R' = R"
    | (pend) "r = None" "q = tf" "m_to (D src) \<noteq> PROC_PID_NONE" "D' = D(src := (D src)\<lparr>m_from := tf\<rparr>)" "R' = R"
    | (hit) "r = Some q" "q = a_sender D src tf" "q \<noteq> PROC_PID_ANY" "p_state (D q) = ST_BLOCKED" "m_to (D q) = src"
        "D' = D(src := (D src)\<lparr>m_from := PROC_PID_NONE\<rparr>,
            q := (D q)\<lparr>d_regs := (d_regs (D q))(0 := word_of_int src), m_to := PROC_PID_NONE,
                       p_state := (if m_from (D q) = PROC_PID_NONE then ST_READY else ST_BLOCKED)\<rparr>)"
        "R' = memcpy32 R pa (pa_msg (D q)) MSG_WORDS"
    | (miss) "r = None" "q = a_sender D src tf" "m_to (D src) = PROC_PID_NONE"
        "\<not> (q \<noteq> PROC_PID_ANY \<and> p_state (D q) = ST_BLOCKED \<and> m_to (D q) = src)"
        "D' = D(src := (D src)\<lparr>m_from := tf\<rparr>)" "R' = R"
proof -
  have e: "(r, q, D', R') = a_recv src tf pa ops (D, R)" using assms by simp
  let ?q = "a_sender D src tf"
  let ?hit = "?q \<noteq> PROC_PID_ANY \<and> p_state (D ?q) = ST_BLOCKED \<and> m_to (D ?q) = src"
  consider "ops AND O_RECV = 0" | "ops AND O_RECV \<noteq> 0" "m_to (D src) \<noteq> PROC_PID_NONE"
    | "ops AND O_RECV \<noteq> 0" "m_to (D src) = PROC_PID_NONE" "?hit"
    | "ops AND O_RECV \<noteq> 0" "m_to (D src) = PROC_PID_NONE" "\<not> ?hit" by blast
  then show thesis
  proof cases
    case 1 show thesis by (rule norecv) (use e 1 in \<open>simp_all add: a_recv_def\<close>)
  next
    case 2 show thesis by (rule pend) (use e 2 in \<open>simp_all add: a_recv_def\<close>)
  next
    case 3 show thesis by (rule hit) (use e 3 in \<open>simp_all add: a_recv_def Let_def\<close>)
  next
    case 4
    have "a_recv src tf pa ops (D, R) = (None, ?q, D(src := (D src)\<lparr>m_from := tf\<rparr>), R)"
      unfolding a_recv_def prod.case Let_def by (simp only: 4 if_False simp_thms if_True)
    with e 4 show thesis by (intro miss) (simp_all only: prod.inject simp_thms)
  qed
qed

lemma a_sender_any:
  assumes "p \<in> pids" "p_state (D p) = ST_BLOCKED" "m_to (D p) = src"
  shows "a_sender D src PROC_PID_ANY \<noteq> PROC_PID_ANY \<and> p_state (D (a_sender D src PROC_PID_ANY)) = ST_BLOCKED \<and>
      m_to (D (a_sender D src PROC_PID_ANY)) = src"
proof -
  let ?l = "filter (\<lambda>p. p_state (D p) = ST_BLOCKED \<and> m_to (D p) = src) [0..31]"
  have "p \<in> set ?l" using assms by (simp add: pids_def)
  then obtain x l where l: "?l = x # l" by (cases ?l) auto
  then have "x \<in> set ?l" by simp
  then have "x \<in> pids \<and> p_state (D x) = ST_BLOCKED \<and> m_to (D x) = src" by (simp add: pids_def)
  with l show ?thesis by (auto simp: a_sender_def PROC_PID_ANY_def pids_def)
qed

lemma a_recv_missed:
  assumes rc: "a_recv src tf pa ops (D, R) = (r, q, D', R')" and st: "p_state (D src) = ST_READY" and nm: "no_missed D"
  shows "no_missed D'" and "p_state (D' src) = ST_READY"
    and "r = None \<Longrightarrow> m_to (D' src) = m_to (D src) \<and> (\<forall>x. x \<noteq> src \<longrightarrow> D' x = D x) \<and>
      (m_from (D' src) = PROC_PID_NONE \<or> m_from (D' src) = tf \<and>
        (m_to (D src) = PROC_PID_NONE \<longrightarrow>
          (\<forall>p \<in> pids. p_state (D p) = ST_BLOCKED \<and> m_to (D p) = src \<longrightarrow> tf \<noteq> p \<and> tf \<noteq> PROC_PID_ANY)))"
proof -
  show st': "p_state (D' src) = ST_READY"
    using rc by (cases rule: a_recv_cases) (use st in auto)
  show "no_missed D'"
  proof (rule no_missed_mono [OF nm])
    fix p assume b: "p_state (D' p) = ST_BLOCKED"
    then have p: "p \<noteq> src" using st' by auto
    show "p_state (D p) = ST_BLOCKED \<and> m_from (D' p) = m_from (D p) \<and> (m_to (D' p) = m_to (D p) \<or> m_to (D' p) \<notin> pids)"
      using rc by (cases rule: a_recv_cases) (use b p in \<open>auto simp: PROC_PID_NONE_def split: if_splits\<close>)
  qed
  show "r = None \<Longrightarrow> m_to (D' src) = m_to (D src) \<and> (\<forall>x. x \<noteq> src \<longrightarrow> D' x = D x) \<and>
      (m_from (D' src) = PROC_PID_NONE \<or> m_from (D' src) = tf \<and>
        (m_to (D src) = PROC_PID_NONE \<longrightarrow>
          (\<forall>p \<in> pids. p_state (D p) = ST_BLOCKED \<and> m_to (D p) = src \<longrightarrow> tf \<noteq> p \<and> tf \<noteq> PROC_PID_ANY)))"
    using rc
  proof (cases rule: a_recv_cases)
    case miss
    have tf: "tf = PROC_PID_ANY \<or> a_sender D src tf = tf" by (simp add: a_sender_def)
    have "tf \<noteq> p \<and> tf \<noteq> PROC_PID_ANY" if p: "p \<in> pids" "p_state (D p) = ST_BLOCKED" "m_to (D p) = src" for p
    proof -
      have "tf \<noteq> PROC_PID_ANY" using miss(2,4) a_sender_any [of p D src] p by metis
      with tf miss(2) have "q = tf" by simp
      with miss(4) p \<open>tf \<noteq> PROC_PID_ANY\<close> show ?thesis by auto
    qed
    with miss show ?thesis by simp
  qed simp_all
qed

lemma a_call_missed:
  assumes a: "a_call src tf pa ops (D, R) = (r, D', R')" and st: "p_state (D src) = ST_READY" and nm: "no_missed D"
    and src: "src \<in> pids"
  shows "no_missed D'"
proof -
  let ?D1 = "D(src := (D src)\<lparr>pa_msg := pa\<rparr>)"
  have nm1: "no_missed ?D1" by (rule no_missed_mono [OF nm]) (use st in auto)
  have st1: "p_state (?D1 src) = ST_READY" using st by simp
  obtain r2 D2 R2 where s: "a_send src tf pa ops (?D1, R) = (r2, D2, R2)" by (metis surj_pair)
  note S = a_send_missed [OF s st1 nm1]
  show ?thesis
  proof (cases r2)
    case (Some e)
    with a s S(1) show ?thesis by (simp add: a_call_def)
  next
    case None
    obtain r3 q D3 R3 where rc: "a_recv src tf pa ops (D2, R2) = (r3, q, D3, R3)" by (metis surj_pair)
    note V = a_recv_missed [OF rc S(2,1)]
    let ?done = "m_from (D3 src) = PROC_PID_NONE \<and> m_to (D3 src) = PROC_PID_NONE"
    show ?thesis
    proof (cases "r3 = None \<and> \<not> ?done")
      case False
      with a s rc None V(1) show ?thesis by (auto simp: a_call_def split: option.splits)
    next
      case True
      have D': "D' = D3(src := a_block (D3 src))" using a s rc None True by (auto simp: a_call_def)
      show ?thesis
      proof (cases "sig_mask (D3 src) = 0")
        case False
        with D' show ?thesis
          by (intro no_missed_mono [OF V(1)]) (use V(2) in \<open>auto simp: a_block_def\<close>)
      next
        case sg: True
        have e: "m_to (D' src) = m_to (D3 src)" "m_from (D' src) = m_from (D3 src)" using D' sg by (simp_all add: a_block_def)
        have V3: "m_to (D3 src) = m_to (D2 src)" "\<And>x. x \<noteq> src \<Longrightarrow> D3 x = D2 x"
          "m_from (D3 src) = PROC_PID_NONE \<or> m_from (D3 src) = tf \<and> (m_to (D2 src) = PROC_PID_NONE \<longrightarrow>
          (\<forall>p \<in> pids. p_state (D2 p) = ST_BLOCKED \<and> m_to (D2 p) = src \<longrightarrow> tf \<noteq> p \<and> tf \<noteq> PROC_PID_ANY))"
          using V(3) True by auto
        have S4: "m_to (D2 src) = PROC_PID_NONE \<or> m_to (D2 src) = tf \<and> tf \<noteq> PROC_PID_ANY \<and>
          (p_state (D2 tf) = ST_BLOCKED \<longrightarrow> m_from (D2 tf) \<noteq> src \<and> m_from (D2 tf) \<noteq> PROC_PID_ANY \<and> m_to (D2 tf) \<noteq> src)"
          by (rule S(4) [OF None])
        show ?thesis
        proof (rule no_missed_block [OF V(1)])
          show "p_state (D3 src) \<noteq> ST_BLOCKED" using V(2) by simp
          show "D' x = D3 x" if "x \<noteq> src" for x using D' that by simp
          show "m_from (D3 q) \<noteq> src \<and> m_from (D3 q) \<noteq> PROC_PID_ANY"
            if "q \<in> pids" "q \<noteq> src" "p_state (D3 q) = ST_BLOCKED" "m_to (D' src) = q" for q
            using that e V3(1,2) S4 by (auto simp: PROC_PID_NONE_def)
          show "m_from (D' src) \<noteq> p \<and> m_from (D' src) \<noteq> PROC_PID_ANY"
            if "p \<in> pids" "p \<noteq> src" "p_state (D3 p) = ST_BLOCKED" "m_to (D3 p) = src" for p
            using that e(2) V3(2,3) S4 by (auto simp: PROC_PID_NONE_def PROC_PID_ANY_def)
        qed
      qed
    qed
  qed
qed

end
