(* ===== verification/Kernel.thy ===== *)
theory Kernel
  imports IpcProps
begin

text \<open>
  The kernel as a state machine: the operations of proc.c in the situations in which the
  system task, the interrupt handlers and the system call entry call them, the states
  reachable from \<open>proc_init\<close>, and the invariant of these states: consistent process lists,
  no missed rendezvous, and one region of memory for each user process, shared with nobody.
\<close>

section \<open>Memory of the user processes\<close>

definition user_proc :: "'a kstate_scheme \<Rightarrow> int \<Rightarrow> bool" where
  "user_proc s p \<longleftrightarrow> p \<in> pids \<and> p_state (desc s p) \<noteq> ST_NONE \<and> uid (desc s p) \<noteq> PROC_UID_KERNEL"

definition regions_ok :: "'a kstate_scheme \<Rightarrow> bool" where
  "regions_ok s \<longleftrightarrow> (\<forall>p. user_proc s p \<longrightarrow> 0 < p \<and> region_ok s p (mem_ad (desc s p)) (mem_sz (desc s p)))"

lemma regions_okD: "regions_ok s \<Longrightarrow> user_proc s p \<Longrightarrow> 0 < p \<and> region_ok s p (mem_ad (desc s p)) (mem_sz (desc s p))"
  by (simp add: regions_ok_def)

text \<open>Region facts over the block table only.\<close>

lemma region_ok_keep:
  assumes "region_ok s p a n" and "\<And>i. i \<in> extent a n \<Longrightarrow> blk_sts s' i = blk_sts s i"
  shows "region_ok s' p a n"
proof -
  obtain b where b: "a = push_bit 12 (of_nat b)" "64 \<le> b" "b + unat (mem_blocks n) \<le> 512"
    "unat (mem_blocks n) dvd b" "unat n \<le> 2 ^ 27" "\<forall>i. b \<le> i \<and> i < b + unat (mem_blocks n) \<longrightarrow> blk_sts s i = p"
    using assms(1) by (auto simp: region_ok_def)
  have "b < 512" using b(3) mem_blocks_pos [OF b(5)] by simp
  then have "extent a n = {b..<b + unat (mem_blocks n)}" using block_of_push b(1) by (simp add: extent_def)
  then show ?thesis using b assms(2) unfolding region_ok_def by auto
qed

lemma region_ok_realloc:
  assumes "mem_realloc p addr osz nsz s = KOk (a, s')" and "a \<noteq> 0" and "addr = 0 \<or> region_ok s p addr osz"
    and "region_ok s q x n" and "0 < q" and "q \<noteq> p"
  shows "region_ok s' q x n"
proof (rule region_ok_keep [OF assms(4)])
  fix i assume "i \<in> extent x n"
  then have i: "blk_sts s i = q" by (rule region_ok_extent [OF assms(4)])
  have "addr = 0 \<or> (\<forall>j \<in> extent addr osz. blk_sts s j = p)" using assms(3) region_ok_extent by blast
  from memi.realloc_theirs [OF assms(1) this] i assms(5,6) show "blk_sts s' i = blk_sts s i" by auto
qed

lemma alloc_region: "alloc p addr osz nsz (blk_sts s) r a (blk_sts s') r' \<Longrightarrow> a \<noteq> 0 \<Longrightarrow> region_ok s' p a nsz"
  unfolding alloc_def by (metis mem_realloc_region_ok region_ok_cong)

lemma alloc_keeps_region:
  assumes "alloc p addr osz nsz (blk_sts s) r a (blk_sts s') r'" and "a \<noteq> 0" and "addr = 0 \<or> region_ok s p addr osz"
    and "region_ok s q x n" and "0 < q" and "q \<noteq> p"
  shows "region_ok s' q x n"
proof -
  obtain k k' :: kmem where k: "blk_sts k = blk_sts s" "mem_realloc p addr osz nsz k = KOk (a, k')" "blk_sts k' = blk_sts s'"
    using assms(1) by (auto simp: alloc_def)
  have "region_ok k' q x n"
    by (rule region_ok_realloc [OF k(2) assms(2)])
      (use assms region_ok_cong [OF k(1)] in simp_all)
  then show ?thesis using region_ok_cong [OF k(3) [symmetric]] by simp
qed

lemma region_ok_free:
  assumes "region_ok s p a n" and "region_ok s q b m" and "p \<noteq> q"
  shows "region_ok (mem_free a n s) q b m"
proof (rule region_ok_keep [OF assms(2)])
  fix i assume "i \<in> extent b m"
  then have "blk_sts s i = q" by (rule region_ok_extent [OF assms(2)])
  then have "i \<notin> extent a n" using region_ok_extent [OF assms(1)] assms(3) by auto
  then show "blk_sts (mem_free a n s) i = blk_sts s i" by (simp add: memi.release_owner)
qed

text \<open>\<open>proc_brk\<close> records the size rounded up to a word, which takes the same blocks.\<close>

lemma ALIGN32_unat: "unat sz \<le> 2 ^ 27 \<Longrightarrow> unat (ALIGN32 sz) = 4 * ((unat sz + 3) div 4)"
proof -
  assume "unat sz \<le> 2 ^ 27"
  then have s: "unat (sz + 3) = unat sz + 3" by (simp add: unat_word_ariths)
  have m: "(3 :: u32) = mask 2" by (simp add: mask_eq_exp_minus_1)
  have i: "Suc (Suc (n - 2)) = n" if "2 \<le> n" for n using that by simp
  have "ALIGN32 sz = push_bit 2 (drop_bit 2 (sz + 3))"
    unfolding ALIGN32_def m by (rule bit_word_eqI) (auto simp: bit_simps i not_less)
  moreover have "unat (push_bit 2 (drop_bit 2 (sz + 3))) = 4 * ((unat sz + 3) div 4)"
    using \<open>unat sz \<le> 2 ^ 27\<close> s by (simp add: unat_push_bit unat_drop_bit)
  ultimately show ?thesis by simp
qed

lemma mem_blocks_align: "unat sz \<le> 2 ^ 27 \<Longrightarrow> mem_blocks (ALIGN32 sz) = mem_blocks sz \<and> unat (ALIGN32 sz) \<le> 2 ^ 27"
proof -
  assume sz: "unat sz \<le> 2 ^ 27"
  note u = ALIGN32_unat [OF sz]
  have "4 * ((unat sz + 3) div 4) \<le> 4 * ((2 ^ 27 + 3) div (4 :: nat))"
    using sz by (intro mult_le_mono2 div_le_mono) simp
  then have le: "unat (ALIGN32 sz) \<le> 2 ^ 27" using u by simp
  show ?thesis
  proof (cases "sz = 0")
    case True
    then show ?thesis by (simp add: ALIGN32_def)
  next
    case False
    then have p: "0 < unat sz" by (simp add: unat_gt_0)
    then have p4: "0 < unat (ALIGN32 sz)" using u by (simp add: div_greater_zero_iff)
    then have a: "ALIGN32 sz \<noteq> 0" by auto
    have m1: "unat (x - 1) = unat x - 1" if "x \<noteq> 0" for x :: u32
      using that by (simp add: unat_minus_one)
    have "(4 * ((m + 4) div 4) - 1) div 4096 = m div 4096" for m :: nat
    proof -
      have "(m + 4) div 4 = m div 4 + 1" by simp
      then have "4 * ((m + 4) div 4) - 1 = 4 * (m div 4) + 3" by linarith
      moreover have "(4 * (m div 4) + 3) div 4096 = (m div 4) div 1024"
        using div_mult2_eq [of "4 * (m div 4) + 3" 4 1024] by simp
      ultimately show ?thesis using div_mult2_eq [of m 4 1024] by simp
    qed
    from this [of "unat sz - 1"] have "(unat (ALIGN32 sz) - 1) div 4096 = (unat sz - 1) div 4096"
      using p u by (simp add: add.commute [of 3])
    then have "drop_bit 12 (ALIGN32 sz - 1) = drop_bit 12 (sz - 1)"
      using m1 [OF a] m1 [OF False] by (simp add: word_unat_eq_iff unat_drop_bit)
    then show ?thesis using False a le by (simp add: mem_blocks_def K_MEM_BLOCK_SIZE_BITS_def)
  qed
qed

section \<open>The steps\<close>

text \<open>The system task runs: the only caller of fork, kill, exit, wait and brk.\<close>

definition sys_runs :: "'a kstate_scheme \<Rightarrow> bool" where
  "sys_runs s \<longleftrightarrow> proc_ptr s = Some 0 \<and> p_state (desc s 0) = ST_READY"

text \<open>A process that waits for the answer to the message the system task has received from it.\<close>

definition in_call :: "'a kstate_scheme \<Rightarrow> int \<Rightarrow> bool" where
  "in_call s p \<longleftrightarrow> p \<in> pids \<and> p_state (desc s p) = ST_BLOCKED \<and> m_to (desc s p) = PROC_PID_NONE \<and>
     m_from (desc s p) = PROC_PID_SYSTEM_TASK"

inductive kstep :: "kstate \<Rightarrow> kstate \<Rightarrow> bool" where
  create_task: "cstr name xs \<Longrightarrow> p = PROC_PID_ANY \<or> p \<in> pids \<Longrightarrow>
    proc_create_task p name pc0 stk stk_sz s = KOk (r, s') \<Longrightarrow> kstep s s'"
| create_init: "sys_runs s \<Longrightarrow> cstr name xs \<Longrightarrow> proc_create_init name size0 s = KOk (r, s') \<Longrightarrow>
    r = PROC_PID_NONE \<or> mem_ad (desc s' r) \<noteq> 0 \<Longrightarrow> kstep s s'"
| fork: "sys_runs s \<Longrightarrow> in_call s p \<Longrightarrow> user_proc s p \<Longrightarrow> proc_fork p s = KOk (r, s') \<Longrightarrow>
    proc_free s = None \<or> r \<noteq> PROC_PID_NONE \<Longrightarrow> kstep s s'"
| kill: "sys_runs s \<Longrightarrow> p \<in> pids - {0, 31} \<Longrightarrow> p_state (desc s p) \<noteq> ST_NONE \<Longrightarrow> proc_kill p s = KOk s' \<Longrightarrow> kstep s s'"
| exit: "sys_runs s \<Longrightarrow> p \<in> pids - {0, 31} \<Longrightarrow> p_state (desc s p) \<noteq> ST_NONE \<Longrightarrow> proc_exit p ev s = KOk s' \<Longrightarrow> kstep s s'"
| wait: "sys_runs s \<Longrightarrow> in_call s p \<Longrightarrow> proc_wait p s = KOk s' \<Longrightarrow> kstep s s'"
| brk: "sys_runs s \<Longrightarrow> in_call s p \<Longrightarrow> user_proc s p \<Longrightarrow> proc_brk p sz s = KOk (r, s') \<Longrightarrow> kstep s s'"
| sig: "p \<in> pids \<Longrightarrow> proc_sig p sg s = KOk s' \<Longrightarrow> kstep s s'"
| schedule: "p = PROC_PID_ANY \<or> p \<in> pids \<Longrightarrow> proc_schedule p s = KOk (r, s') \<Longrightarrow> kstep s s'"
| call: "proc_ptr s = Some src \<Longrightarrow> src \<in> st_set s ST_READY - {31} \<Longrightarrow> tf = PROC_PID_ANY \<or> tf \<in> pids \<Longrightarrow>
    sendreceive tf pa ops s = KOk (res, s') \<Longrightarrow> kstep s s'"

inductive reachable :: "kstate \<Rightarrow> bool" where
  boot: "proc_init idle_task idle_stack s0 = KOk s \<Longrightarrow> reachable s"
| step: "reachable s \<Longrightarrow> kstep s s' \<Longrightarrow> reachable s'"

inductive_cases kstepE: "kstep s s'"

section \<open>The invariant\<close>

definition kernel_inv :: "kstate \<Rightarrow> bool" where
  "kernel_inv s \<longleftrightarrow> table_ok s \<and> no_missed (desc s) \<and> regions_ok s"

lemma regions_ok_same:
  assumes "regions_ok s" and "blk_sts s' = blk_sts s"
    and "\<And>p. user_proc s' p \<Longrightarrow> user_proc s p \<and> mem_ad (desc s' p) = mem_ad (desc s p) \<and> mem_sz (desc s' p) = mem_sz (desc s p)"
  shows "regions_ok s'"
  using assms(1,3) region_ok_cong [OF assms(2)] by (simp add: regions_ok_def)

text \<open>One process gets a new region and the others keep theirs.\<close>

lemma regions_ok_alloc:
  assumes "regions_ok s" and "alloc p addr osz nsz (blk_sts s) r a (blk_sts s') r'" and "a \<noteq> 0" and "0 < p"
    and "addr = 0 \<or> region_ok s p addr osz"
    and "mem_ad (desc s' p) = a" and "mem_blocks (mem_sz (desc s' p)) = mem_blocks nsz" and "unat (mem_sz (desc s' p)) \<le> 2 ^ 27"
    and "\<And>q. q \<noteq> p \<Longrightarrow> desc s' q = desc s q"
  shows "regions_ok s'"
  unfolding regions_ok_def
proof (intro allI impI)
  fix q assume u: "user_proc s' q"
  show "0 < q \<and> region_ok s' q (mem_ad (desc s' q)) (mem_sz (desc s' q))"
  proof (cases "q = p")
    case True
    have "region_ok s' p a nsz" by (rule alloc_region [OF assms(2,3)])
    then have "region_ok s' p a (mem_sz (desc s' p))" using assms(7,8) by (auto simp: region_ok_def)
    with True assms(4,6) show ?thesis by simp
  next
    case False
    with u assms(9) have "user_proc s q" by (simp add: user_proc_def)
    with regions_okD [OF assms(1)] alloc_keeps_region [OF assms(2,3,5)] False assms(9)
    show ?thesis by simp
  qed
qed

lemma user_region_small: "regions_ok s \<Longrightarrow> user_proc s p \<Longrightarrow> unat (mem_sz (desc s p)) \<le> 2 ^ 27"
  using regions_okD [of s p] by (auto simp: region_ok_def)

text \<open>A call changes nothing about the memory of a process or its being there.\<close>

lemma a_send_attrs:
  "a_send src tf pa ops (D, R) = (r, D', R') \<Longrightarrow> mem_ad (D' x) = mem_ad (D x) \<and> mem_sz (D' x) = mem_sz (D x) \<and>
     uid (D' x) = uid (D x) \<and> (p_state (D' x) = ST_NONE \<longleftrightarrow> p_state (D x) = ST_NONE)"
  by (erule a_send_cases) auto

lemma a_recv_attrs:
  "a_recv src tf pa ops (D, R) = (r, q, D', R') \<Longrightarrow> mem_ad (D' x) = mem_ad (D x) \<and> mem_sz (D' x) = mem_sz (D x) \<and>
     uid (D' x) = uid (D x) \<and> (p_state (D' x) = ST_NONE \<longleftrightarrow> p_state (D x) = ST_NONE)"
  by (erule a_recv_cases) auto

lemma a_call_attrs:
  assumes a: "a_call src tf pa ops (D, R) = (r, D', R')" and st: "p_state (D src) \<noteq> ST_NONE"
  shows "mem_ad (D' x) = mem_ad (D x) \<and> mem_sz (D' x) = mem_sz (D x) \<and>
     uid (D' x) = uid (D x) \<and> (p_state (D' x) = ST_NONE \<longleftrightarrow> p_state (D x) = ST_NONE)"
proof -
  obtain r2 D2 R2 where s: "a_send src tf pa ops (D(src := (D src)\<lparr>pa_msg := pa\<rparr>), R) = (r2, D2, R2)" by (metis surj_pair)
  obtain r3 q D3 R3 where rc: "a_recv src tf pa ops (D2, R2) = (r3, q, D3, R3)" by (metis surj_pair)
  have 2: "mem_ad (D2 x) = mem_ad (D x) \<and> mem_sz (D2 x) = mem_sz (D x) \<and>
     uid (D2 x) = uid (D x) \<and> (p_state (D2 x) = ST_NONE \<longleftrightarrow> p_state (D x) = ST_NONE)" for x
    using a_send_attrs [OF s, of x] by (auto split: if_splits)
  have 3: "mem_ad (D3 x) = mem_ad (D x) \<and> mem_sz (D3 x) = mem_sz (D x) \<and>
     uid (D3 x) = uid (D x) \<and> (p_state (D3 x) = ST_NONE \<longleftrightarrow> p_state (D x) = ST_NONE)" for x
    using a_recv_attrs [OF rc, of x] 2 [of x] by simp
  have "D' = D2 \<or> D' = D3 \<or> D' = D3(src := a_block (D3 src))"
    using a s rc by (auto simp: a_call_def split: option.splits if_splits)
  then show ?thesis
    using 2 [of x] 3 [of x] 3 [of src] st by (elim disjE) (auto simp: a_block_def)
qed

lemma kernel_invI: "table_ok s \<Longrightarrow> no_missed (desc s) \<Longrightarrow> regions_ok s \<Longrightarrow> kernel_inv s"
  by (simp add: kernel_inv_def)

lemma kernel_invD: "kernel_inv s \<Longrightarrow> table_ok s" "kernel_inv s \<Longrightarrow> no_missed (desc s)" "kernel_inv s \<Longrightarrow> regions_ok s"
  by (simp_all add: kernel_inv_def)

lemma inv_create_task:
  assumes inv: "kernel_inv s" and nm: "cstr name xs" and p: "p = PROC_PID_ANY \<or> p \<in> pids"
    and run: "proc_create_task p name pc0 stk stk_sz s = KOk (r, s')"
  shows "kernel_inv s'"
proof -
  note wf = table_okD(1) [OF kernel_invD(1) [OF inv]]
  have "s' = s \<or> (\<exists>q. q \<in> pids \<and> p_state (desc s q) = ST_NONE \<and> (p = q \<or> p = PROC_PID_ANY \<and> proc_free s = Some q))"
  proof (cases "p = PROC_PID_ANY")
    case True
    then show ?thesis using run free_head [OF wf] by (cases "proc_free s") (auto simp: proc_create_task_def Let_def)
  next
    case False
    then show ?thesis using run p by (auto simp: proc_create_task_def Let_def entry_pids split: if_splits)
  qed
  then consider "s' = s" | q where "q \<in> pids" "p_state (desc s q) = ST_NONE"
    "p = q \<or> p = PROC_PID_ANY \<and> proc_free s = Some q" by blast
  then show ?thesis
  proof cases
    case (2 q)
    note q = 2(1,2)
    from create_task_ok [OF wf nm 2, of pc0 stk stk_sz] run
    have s': "table_wf s'" "\<And>x. desc s' x = (if x = q then new_task xs pc0 stk stk_sz else desc s x)"
      "blk_sts s' = blk_sts s" by auto
    have "table_ok s'" using table_okD(2) [OF kernel_invD(1) [OF inv]] s'(1,2) q(2) by (intro table_okI) auto
    moreover have "no_missed (desc s')"
      by (rule no_missed_mono [OF kernel_invD(2) [OF inv]]) (auto simp: s'(2) new_task_def split: if_splits)
    moreover have "regions_ok s'"
      by (rule regions_ok_same [OF kernel_invD(3) [OF inv] s'(3)])
        (auto simp: user_proc_def s'(2) new_task_def task_desc_def split: if_splits)
    ultimately show ?thesis by (rule kernel_invI)
  qed (use inv in simp_all)
qed

text \<open>The first free process cannot be the system task while that one runs.\<close>

lemma free_head_pos:
  assumes "table_ok s" and "sys_runs s" and "proc_free s = Some q"
  shows "q \<in> pids" and "p_state (desc s q) = ST_NONE" and "0 < q"
  using free_head [OF table_okD(1) [OF assms(1)] assms(3)] assms(2)
  by (auto simp: sys_runs_def pids_def) (metis linorder_neqE_linordered_idom not_less proc_state.distinct(3))

lemma inv_create_init:
  assumes inv: "kernel_inv s" and sys: "sys_runs s" and nm: "cstr name xs"
    and run: "proc_create_init name size0 s = KOk (r, s')" and a: "r = PROC_PID_NONE \<or> mem_ad (desc s' r) \<noteq> 0"
  shows "kernel_inv s'"
proof (cases "proc_free s")
  case None
  with run inv show ?thesis by (simp add: proc_create_init_def)
next
  case (Some q)
  note q = free_head_pos [OF kernel_invD(1) [OF inv] sys Some]
  have sz: "unat size0 \<le> 2 ^ 27"
    using run Some by (auto simp: proc_create_init_def Let_def kbind_KOk_iff split: prod.splits dest: mem_realloc_small)
  from create_init_ok [OF kernel_invD(1) [OF inv] nm sz Some] run obtain ad where s': "r = q" "table_ok s'"
    "\<And>x. desc s' x = (if x = q then init_desc xs ad size0 else desc s x)"
    "alloc q 0 0 size0 (blk_sts s) (ram s) ad (blk_sts s') (ram s')" by auto
  have "ad \<noteq> 0" using a s'(1,3) q(3) by (auto simp: init_desc_def PROC_PID_NONE_def)
  have "no_missed (desc s')"
    by (rule no_missed_block [OF kernel_invD(2) [OF inv], of q])
      (use q(2,3) s'(3) in \<open>auto simp: init_desc_def PROC_PID_NONE_def PROC_PID_ANY_def pids_def\<close>)
  moreover have "regions_ok s'"
    by (rule regions_ok_alloc [OF kernel_invD(3) [OF inv] s'(4) \<open>ad \<noteq> 0\<close> q(3)])
      (use s'(3) sz in \<open>simp_all add: init_desc_def\<close>)
  ultimately show ?thesis using s'(2) by (intro kernel_invI)
qed

lemma inv_fork:
  assumes inv: "kernel_inv s" and sys: "sys_runs s" and c: "in_call s p" and u: "user_proc s p"
    and run: "proc_fork p s = KOk (r, s')" and ok: "proc_free s = None \<or> r \<noteq> PROC_PID_NONE"
  shows "kernel_inv s'"
proof (cases "proc_free s")
  case None
  with run inv show ?thesis by (simp add: proc_fork_def)
next
  case (Some q)
  note q = free_head_pos [OF kernel_invD(1) [OF inv] sys Some]
  note sz = user_region_small [OF kernel_invD(3) [OF inv] u]
  have p: "p \<in> pids" "p_state (desc s p) = ST_BLOCKED" "m_to (desc s p) = PROC_PID_NONE" "m_from (desc s p) = 0"
    using c by (simp_all add: in_call_def PROC_PID_SYSTEM_TASK_def)
  from fork_ok [OF kernel_invD(1) [OF inv] p(1,2) sz Some] run obtain a where
    s': "r = (if a = 0 then PROC_PID_NONE else q)" "table_ok s'"
    "\<And>x. desc s' x = (if x = q then fork_desc (desc s p) p a else desc s x)"
    "alloc q 0 0 (mem_sz (desc s p)) (blk_sts s) (ram s) a (blk_sts s') (ram s)" by auto
  have a: "a \<noteq> 0" using ok Some s'(1) by auto
  have z: "p_state (desc s 0) = ST_READY" using sys by (simp add: sys_runs_def)
  have "no_missed (desc s')"
  proof (rule no_missed_block [OF kernel_invD(2) [OF inv], of q])
    show "m_from (desc s' q) \<noteq> x \<and> m_from (desc s' q) \<noteq> PROC_PID_ANY"
      if "p_state (desc s x) = ST_BLOCKED" for x
      using s'(3) a p z that by (auto simp: fork_desc_def PROC_PID_ANY_def)
  qed (use q(2,3) s'(3) a p in \<open>auto simp: fork_desc_def PROC_PID_NONE_def pids_def\<close>)
  moreover have "regions_ok s'"
    by (rule regions_ok_alloc [OF kernel_invD(3) [OF inv] s'(4) a q(3)])
      (use s'(3) sz a in \<open>simp_all add: fork_desc_def\<close>)
  ultimately show ?thesis using s'(2) by (intro kernel_invI)
qed

lemma inv_kill:
  assumes inv: "kernel_inv s" and p: "p \<in> pids - {0, 31}" "p_state (desc s p) \<noteq> ST_NONE"
    and run: "proc_kill p s = KOk s'"
  shows "kernel_inv s'"
proof -
  have pp: "p \<in> pids" "p \<noteq> 31" using p by auto
  from proc_kill_ok [OF kernel_invD(1) [OF inv] pp p(2)] run have s': "table_ok s'"
    "\<And>x. desc s' x = (if x = p then (desc s p)\<lparr>p_state := ST_NONE\<rparr> else desc s x)"
    "blk_sts s' = (if uid (desc s p) \<noteq> PROC_UID_KERNEL
      then blk_sts (mem_free (mem_ad (desc s p)) (mem_sz (desc s p)) s) else blk_sts s)" by auto
  have "no_missed (desc s')"
    by (rule no_missed_mono [OF kernel_invD(2) [OF inv]]) (auto simp: s'(2) split: if_splits)
  moreover have "regions_ok s'"
  proof (cases "uid (desc s p) = PROC_UID_KERNEL")
    case True
    then show ?thesis
      by (intro regions_ok_same [OF kernel_invD(3) [OF inv]]) (auto simp: user_proc_def s'(2,3) split: if_splits)
  next
    case False
    then have u: "user_proc s p" using p pp by (simp add: user_proc_def)
    note rp = regions_okD [OF kernel_invD(3) [OF inv] u]
    show ?thesis
      unfolding regions_ok_def
    proof (intro allI impI)
      fix q assume "user_proc s' q"
      then have q: "q \<noteq> p" "user_proc s q" by (auto simp: user_proc_def s'(2) split: if_splits)
      from regions_okD [OF kernel_invD(3) [OF inv] q(2)]
      have rq: "0 < q" "region_ok s q (mem_ad (desc s q)) (mem_sz (desc s q))" by auto
      have "region_ok (mem_free (mem_ad (desc s p)) (mem_sz (desc s p)) s) q (mem_ad (desc s q)) (mem_sz (desc s q))"
        by (rule region_ok_free [OF _ rq(2)]) (use rp q in auto)
      with rq(1) q(1) False show "0 < q \<and> region_ok s' q (mem_ad (desc s' q)) (mem_sz (desc s' q))"
        using region_ok_cong [of s' "mem_free (mem_ad (desc s p)) (mem_sz (desc s p)) s"] s'(2,3) by simp
    qed
  qed
  ultimately show ?thesis using s'(1) by (intro kernel_invI)
qed

lemma inv_sig:
  assumes inv: "kernel_inv s" and p: "p \<in> pids" and run: "proc_sig p sg s = KOk s'"
  shows "kernel_inv s'"
proof -
  from proc_sig_ok [OF kernel_invD(1) [OF inv] p, of sg] run obtain
    s': "table_ok s'" "blk_sts s' = blk_sts s" and
    d: "\<And>x. desc s' x = (if x = p
       then (case p_state (desc s p) of
               ST_BLOCKED \<Rightarrow> (desc s p)\<lparr>m_from := PROC_PID_NONE, m_to := PROC_PID_NONE, p_state := ST_READY,
                               d_regs := (d_regs (desc s p))(0 := word_of_int EABORT)\<rparr>
             | ST_READY \<Rightarrow> (desc s p)\<lparr>sig_mask := sig_mask (desc s p) OR sg\<rparr>
             | _ \<Rightarrow> desc s p)
       else desc s x)" by auto
  have "no_missed (desc s')"
    by (rule no_missed_mono [OF kernel_invD(2) [OF inv]]) (auto simp: d split: if_splits proc_state.splits)
  moreover have "regions_ok s'"
    by (rule regions_ok_same [OF kernel_invD(3) [OF inv] s'(2)])
      (auto simp: user_proc_def d split: if_splits proc_state.splits)
  ultimately show ?thesis using s'(1) by (intro kernel_invI)
qed

lemma inv_exit:
  assumes inv: "kernel_inv s" and p: "p \<in> pids - {0, 31}" "p_state (desc s p) \<noteq> ST_NONE"
    and run: "proc_exit p ev s = KOk s'"
  shows "kernel_inv s'"
proof -
  have pp: "p \<in> pids" "p \<noteq> 31" using p by auto
  from proc_exit_ok [OF kernel_invD(1) [OF inv] pp p(2), of ev] run obtain s1 where
    s1: "table_ok s1" "\<And>x. desc s1 x = (if x = p then (desc s p)\<lparr>exit_val := ev, p_state := ST_STOPPED\<rparr> else desc s x)"
    "proc_sig (ppid (desc s p)) SIGCHILD s1 = KOk s'" "blk_sts s' = blk_sts s" by auto
  have pa: "ppid (desc s p) \<in> pids" using table_wfD(3) [OF table_okD(1) [OF kernel_invD(1) [OF inv]] pp(1)] .
  have b1: "blk_sts s1 = blk_sts s"
    using proc_sig_ok [OF s1(1) pa, of SIGCHILD] s1(3,4) by auto
  have "no_missed (desc s1)"
    by (rule no_missed_mono [OF kernel_invD(2) [OF inv]]) (auto simp: s1(2) split: if_splits)
  moreover have "regions_ok s1"
    by (rule regions_ok_same [OF kernel_invD(3) [OF inv] b1])
      (use p in \<open>auto simp: user_proc_def s1(2) split: if_splits\<close>)
  ultimately have "kernel_inv s1" using s1(1) by (intro kernel_invI)
  then show ?thesis by (rule inv_sig [OF _ pa s1(3)])
qed

lemma inv_wait:
  assumes inv: "kernel_inv s" and p: "p \<in> pids" and run: "proc_wait p s = KOk s'"
  shows "kernel_inv s'"
proof -
  let ?s = "upd_desc p (\<lambda>d. d\<lparr>m_from := PROC_PID_NONE, m_to := PROC_PID_NONE\<rparr>) s"
  from proc_wait_ok [OF kernel_invD(1) [OF inv] p] run have s': "s' = ?s" "table_ok s'" by auto
  have "no_missed (desc s')"
    unfolding no_missed_def
  proof (intro ballI impI)
    fix x y assume xy: "x \<in> pids" "y \<in> pids"
      and b: "x \<noteq> y \<and> p_state (desc s' x) = ST_BLOCKED \<and> p_state (desc s' y) = ST_BLOCKED \<and> m_to (desc s' x) = y"
    then have "x \<noteq> p" using xy(2) by (auto simp: s'(1) upd_desc_simps PROC_PID_NONE_def)
    with b have "m_to (desc s x) = y" "p_state (desc s x) = ST_BLOCKED" "p_state (desc s y) = ST_BLOCKED"
      by (auto simp: s'(1) upd_desc_simps split: if_splits)
    with no_missedD [OF kernel_invD(2) [OF inv] xy] b xy(1)
    show "m_from (desc s' y) \<noteq> x \<and> m_from (desc s' y) \<noteq> PROC_PID_ANY"
      by (auto simp: s'(1) upd_desc_simps PROC_PID_NONE_def PROC_PID_ANY_def split: if_splits)
  qed
  moreover have "regions_ok s'"
    by (rule regions_ok_same [OF kernel_invD(3) [OF inv]])
      (auto simp: user_proc_def s'(1) upd_desc_simps split: if_splits)
  ultimately show ?thesis using s'(2) by (intro kernel_invI)
qed

lemma inv_brk:
  assumes inv: "kernel_inv s" and u: "user_proc s p" and run: "proc_brk p sz s = KOk (r, s')"
  shows "kernel_inv s'"
proof -
  have p: "p \<in> pids" using u by (simp add: user_proc_def)
  have sz: "unat sz \<le> 2 ^ 27"
    using run p by (auto simp: proc_brk_def entry_pids kbind_KOk_iff split: prod.splits dest: mem_realloc_small)
  from proc_brk_ok [OF kernel_invD(1) [OF inv] p sz] run obtain a s1 where
    s1: "mem_realloc p (mem_ad (desc s p)) (mem_sz (desc s p)) sz s = KOk (a, s1)" "table_ok s'"
    "if a = 0 then s' = s
     else s' = upd_desc p (\<lambda>d. d\<lparr>pa_msg := pa_msg d - mem_ad d + a, mem_ad := a, mem_sz := ALIGN32 sz\<rparr>) s1" by (auto split: if_splits)
  show ?thesis
  proof (cases "a = 0")
    case True
    with s1(3) inv show ?thesis by simp
  next
    case False
    then have s': "s' = upd_desc p (\<lambda>d. d\<lparr>pa_msg := pa_msg d - mem_ad d + a, mem_ad := a, mem_sz := ALIGN32 sz\<rparr>) s1"
      using s1(3) by simp
    note k = mem_realloc_keeps [OF s1(1)]
    have d: "desc s' x = (if x = p then (desc s p)\<lparr>pa_msg := pa_msg (desc s p) - mem_ad (desc s p) + a, mem_ad := a,
        mem_sz := ALIGN32 sz\<rparr> else desc s x)" for x
      by (simp add: s' upd_desc_simps k)
    have b: "blk_sts s' = blk_sts s1" "ram s' = ram s1" by (simp_all add: s' upd_desc_simps)
    have "no_missed (desc s')"
      by (rule no_missed_mono [OF kernel_invD(2) [OF inv]]) (auto simp: d split: if_splits)
    moreover have "regions_ok s'"
      by (rule regions_ok_alloc [OF kernel_invD(3) [OF inv] alloc_realloc [OF s1(1), folded b] False])
        (use regions_okD [OF kernel_invD(3) [OF inv] u] mem_blocks_align [OF sz] d in simp_all)
    ultimately show ?thesis using s1(2) by (intro kernel_invI)
  qed
qed

lemma regions_ok_frame: "regions_ok s \<Longrightarrow> blk_sts s' = blk_sts s \<Longrightarrow> proc_table s' = proc_table s \<Longrightarrow> regions_ok s'"
  by (erule regions_ok_same) (simp_all add: user_proc_def)

lemma inv_dispatch: "kernel_inv s \<Longrightarrow> q \<in> st_set s ST_READY \<Longrightarrow> kernel_inv (dispatch q s)"
  by (auto simp: kernel_inv_def table_ok_dispatch intro: regions_ok_frame)

lemma inv_schedule:
  assumes inv: "kernel_inv s" and p: "p = PROC_PID_ANY \<or> p \<in> pids" and run: "proc_schedule p s = KOk (r, s')"
  shows "kernel_inv s'"
proof (cases "p = PROC_PID_ANY")
  case True
  obtain h t where "ready_view s (h # t)" by (rule ready_nonempty [OF kernel_invD(1) [OF inv]])
  from proc_schedule_any [OF kernel_invD(1) [OF inv] this] run True inv_dispatch [OF inv]
  show ?thesis by auto
next
  case False
  with proc_schedule_pid [OF kernel_invD(1) [OF inv], of p] p run inv inv_dispatch [OF inv, of p]
  show ?thesis by (auto split: if_splits)
qed

lemma inv_call:
  assumes inv: "kernel_inv s" and r: "proc_ptr s = Some src" and src: "src \<in> st_set s ST_READY - {31}"
    and tf: "tf = PROC_PID_ANY \<or> tf \<in> pids" and run: "sendreceive tf pa ops s = KOk (res, s')"
  shows "kernel_inv s'"
proof -
  have c: "caller s src" using inv src by (simp add: caller_def kernel_inv_def)
  from sendreceive_run [OF c r, of tf pa ops] tf run have s': "table_ok s'"
    "a_call src tf pa ops (desc s, ram s) = (ret_of res, desc s', ram s')" "blk_sts s' = blk_sts s"
    by (auto simp: ipc_of_def)
  have "no_missed (desc s')"
    by (rule a_call_missed [OF s'(2) _ kernel_invD(2) [OF inv]]) (use src in auto)
  moreover have "regions_ok s'"
    by (rule regions_ok_same [OF kernel_invD(3) [OF inv] s'(3)])
      (use a_call_attrs [OF s'(2)] src in \<open>auto simp: user_proc_def\<close>)
  ultimately show ?thesis using s'(1) by (intro kernel_invI)
qed

lemma kstep_inv: "kstep s s' \<Longrightarrow> kernel_inv s \<Longrightarrow> kernel_inv s'"
proof (induction rule: kstep.induct)
  case (create_task name xs p pc0 stk stk_sz s r s')
  then show ?case using inv_create_task by blast
next
  case (create_init s name xs size0 r s')
  then show ?case using inv_create_init by blast
next
  case (fork s p r s')
  then show ?case using inv_fork by blast
next
  case (kill s p s')
  then show ?case using inv_kill by blast
next
  case (exit s p ev s')
  then show ?case using inv_exit by blast
next
  case (wait s p s')
  then show ?case using inv_wait by (auto simp: in_call_def)
next
  case (brk s p sz r s')
  then show ?case using inv_brk by blast
next
  case (sig p sg s s')
  then show ?case using inv_sig by blast
next
  case (schedule p s r s')
  then show ?case using inv_schedule by blast
next
  case (call s src tf pa ops res s')
  then show ?case using inv_call by blast
qed

lemma init_inv:
  assumes "proc_init idle_task idle_stack s0 = KOk s"
  shows "kernel_inv s"
proof -
  from proc_init_ok [of idle_task idle_stack s0] assms have s: "table_ok s"
    "\<And>p. p \<in> pids \<Longrightarrow> desc s p = (if p = 31 then new_task [105, 100, 108, 101] idle_task idle_stack 512 else zero_desc)"
    by auto
  have "p_state (desc s p) \<noteq> ST_BLOCKED" "\<not> user_proc s p" if "p \<in> pids" for p
    using that by (simp_all add: s(2) user_proc_def new_task_def task_desc_def zero_desc_def)
  then have "no_missed (desc s)" "regions_ok s"
    by (auto simp: no_missed_def regions_ok_def user_proc_def)
  with s(1) show ?thesis by (rule kernel_invI)
qed

lemma reachable_kernel_inv: "reachable s \<Longrightarrow> kernel_inv s"
  by (induction rule: reachable.induct) (auto intro: init_inv kstep_inv)

end
