(* ===== verification/KernelProps.thy ===== *)
theory KernelProps
  imports Kernel
begin

text \<open>
  What the reachable states of the kernel promise, stated on the definitions that model the
  code, with a concrete run of the system as the witness: boot, the system task, a file
  system task, a first user process that calls the system task, and its fork.
\<close>

section \<open>A concrete run\<close>

definition empty_kstate :: kstate where
  "empty_kstate = \<lparr>blk_sts = (\<lambda>_. 0), last_base = 0, last_msk = 0, ram = (\<lambda>_. 0),
     mmu = \<lparr>base_lo = 0, base_hi = 0, mask_lo = 0, mask_hi = 0\<rparr>,
     proc_table = (\<lambda>_. \<lparr>pl_d = zero_desc, pl_pid = 0, pl_next = None, pl_prev = None\<rparr>),
     proc_ready = None, proc_free = None, proc_ptr = None\<rparr>"

lemma reach_task:
  assumes "reachable s" and "cstr name xs" and "q \<in> pids" and "p_state (desc s q) = ST_NONE"
  shows "\<exists>s'. proc_create_task q name tpc stk stk_sz s = KOk (q, s') \<and> reachable s' \<and>
    (\<forall>x. desc s' x = (if x = q then new_task xs tpc stk stk_sz else desc s x)) \<and> proc_ptr s' = proc_ptr s \<and> blk_sts s' = blk_sts s"
proof -
  from create_task_ok [OF table_okD(1) [OF kernel_invD(1) [OF reachable_kernel_inv [OF assms(1)]]] assms(2-4) disjI1 [OF refl]]
  obtain s' where s': "proc_create_task q name tpc stk stk_sz s = KOk (q, s')"
    "\<forall>x. desc s' x = (if x = q then new_task xs tpc stk stk_sz else desc s x)" "proc_ptr s' = proc_ptr s" "blk_sts s' = blk_sts s"
    by blast
  moreover have "reachable s'"
    by (rule reachable.step [OF assms(1)]) (rule kstep.create_task [OF assms(2) disjI2 [OF assms(3)] s'(1)])
  ultimately show ?thesis by (intro exI [of _ s']) auto
qed

lemma reach_schedule:
  assumes "reachable s" and "p \<in> st_set s ST_READY"
  shows "proc_schedule p s = KOk (p, dispatch p s)" and "reachable (dispatch p s)"
proof -
  show r: "proc_schedule p s = KOk (p, dispatch p s)"
    using proc_schedule_pid [OF kernel_invD(1) [OF reachable_kernel_inv [OF assms(1)]], of p] assms(2) by simp
  show "reachable (dispatch p s)"
    by (rule reachable.step [OF assms(1)]) (rule kstep.schedule [OF _ r], use assms(2) in simp)
qed

lemma reach_call:
  assumes "reachable s" and "proc_ptr s = Some src" and "src \<in> st_set s ST_READY - {31}" and "tf = PROC_PID_ANY \<or> tf \<in> pids"
  shows "\<exists>r s'. sendreceive tf pa ops s = KOk (r, s') \<and> reachable s' \<and>
    a_call src tf pa ops (desc s, ram s) = (ret_of r, desc s', ram s') \<and> blk_sts s' = blk_sts s \<and>
    (r \<noteq> SR_restart \<longrightarrow> proc_ptr s' = Some src)"
proof -
  have c: "caller s src"
    using assms(3) kernel_invD(1) [OF reachable_kernel_inv [OF assms(1)]] by (simp add: caller_def)
  have tf: "tf \<in> pids \<or> tf = PROC_PID_ANY" using assms(4) by auto
  obtain r s' where s': "sendreceive tf pa ops s = KOk (r, s')"
    "a_call src tf pa ops (ipc_of s) = (ret_of r, ipc_of s')" "blk_sts s' = blk_sts s"
    "r \<noteq> SR_restart \<longrightarrow> proc_ptr s' = Some src"
    using sendreceive_run [OF c assms(2) tf, of pa ops] by auto
  moreover have "reachable s'"
    by (rule reachable.step [OF assms(1)]) (rule kstep.call [OF assms(2,3,4) s'(1)])
  ultimately show ?thesis by (intro exI [of _ r] exI [of _ s']) (auto simp: ipc_of_def)
qed

text \<open>Boot, the system task and a second task, which sends to the system task and blocks.\<close>

definition demo_task :: "u8 \<Rightarrow> proc_desc" where
  "demo_task c = new_task [c] 0x1100 0x3000 512"

definition demo_desc :: "int \<Rightarrow> proc_desc" where
  "demo_desc p = (if p = 0 then demo_task 115 else if p = 3 then demo_task 118
     else if p = 31 then new_task [105, 100, 108, 101] 0x1000 0x2000 512 else zero_desc)"

lemma demo_boot:
  "\<exists>s. reachable s \<and> proc_ptr s = Some 0 \<and> blk_sts s = (\<lambda>_. 0) \<and> (\<forall>p \<in> pids. desc s p = demo_desc p)"
proof -
  obtain s0 where s0: "proc_init 0x1000 0x2000 empty_kstate = KOk s0" "blk_sts s0 = (\<lambda>_. 0)"
    "\<And>p. p \<in> pids \<Longrightarrow> desc s0 p = (if p = 31 then new_task [105, 100, 108, 101] 0x1000 0x2000 512 else zero_desc)"
    using proc_init_ok [where idle_task = "0x1000" and idle_stack = "0x2000" and s = empty_kstate] by (auto simp: empty_kstate_def)
  have p: "0 \<in> pids" "3 \<in> pids" by (simp_all add: pids_def)
  have r0: "reachable s0" by (rule reachable.boot [OF s0(1)])
  have c: "cstr [115, 0] [115]" "cstr [118, 0] [118]" by (simp_all add: cstr_def)
  have "p_state (desc s0 0) = ST_NONE" using s0(3) [OF p(1)] by (simp add: zero_desc_def)
  from reach_task [OF r0 c(1) p(1) this, of "0x1100" "0x3000" 512] obtain s1 where
    s1: "reachable s1" "\<forall>x. desc s1 x = (if x = 0 then demo_task 115 else desc s0 x)" "blk_sts s1 = blk_sts s0"
    unfolding demo_task_def by blast
  have "p_state (desc s1 3) = ST_NONE" using s0(3) [OF p(2)] by (simp add: s1(2) zero_desc_def)
  from reach_task [OF s1(1) c(2) p(2) this, of "0x1100" "0x3000" 512] obtain s2 where
    s2: "reachable s2" "\<forall>x. desc s2 x = (if x = 3 then demo_task 118 else desc s1 x)" "blk_sts s2 = blk_sts s1"
    unfolding demo_task_def by blast
  have "0 \<in> st_set s2 ST_READY" by (simp add: s2(2) s1(2) demo_task_def new_task_def)
  from reach_schedule(2) [OF s2(1) this] show ?thesis
    by (intro exI [of _ "dispatch 0 s2"]) (simp add: s0 s1(2,3) s2(2,3) demo_desc_def)
qed

text \<open>What the demonstration uses of one call: a receive that finds nobody, and a call that is received at once.\<close>

lemma a_recv_alone:
  assumes "\<And>p. p \<in> pids \<Longrightarrow> p_state (D p) \<noteq> ST_BLOCKED"
    and tf: "tf = PROC_PID_ANY \<or> tf \<in> pids" "src \<in> pids" "tf \<noteq> PROC_PID_NONE"
  shows "a_call src tf pa O_RECV (D, R) =
    (None, D(src := a_block ((D src)\<lparr>pa_msg := pa, m_to := PROC_PID_NONE, m_from := tf\<rparr>)), R)"
proof -
  let ?D = "D(src := (D src)\<lparr>pa_msg := pa, m_to := PROC_PID_NONE\<rparr>)"
  have ops: "O_RECV AND O_SEND = 0" "O_RECV AND O_RECV \<noteq> 0" by (simp_all add: O_RECV_def O_SEND_def)
  have "filter (\<lambda>p. p_state (?D p) = ST_BLOCKED \<and> m_to (?D p) = src) [0..31] = []"
    using assms(1) tf(2) by (auto simp: filter_empty_conv pids_def)
  then have "\<not> (a_sender ?D src tf \<noteq> PROC_PID_ANY \<and> p_state (?D (a_sender ?D src tf)) = ST_BLOCKED \<and>
      m_to (?D (a_sender ?D src tf)) = src)"
    using assms(1) tf by (auto simp: a_sender_def)
  then show ?thesis using ops tf(3) by (simp add: a_call_def a_send_def a_recv_def Let_def)
qed

lemma a_recv_nobody:
  assumes "\<And>p. p \<in> pids \<Longrightarrow> p_state (D p) \<noteq> ST_BLOCKED" and "sig_mask (D src) = 0"
    and tf: "tf = PROC_PID_ANY \<or> tf \<in> pids" "src \<in> pids" "tf \<noteq> PROC_PID_NONE"
  shows "\<exists>D'. a_call src tf pa O_RECV (D, R) = (None, D', R) \<and> (\<forall>x. x \<noteq> src \<longrightarrow> D' x = D x) \<and>
    D' src = (D src)\<lparr>pa_msg := pa, m_to := PROC_PID_NONE, m_from := tf, p_state := ST_BLOCKED\<rparr>"
  using a_recv_alone [OF assms(1) tf, where pa = pa and R = R] assms(2) by (intro exI conjI) (assumption, simp_all add: a_block_def)

lemma a_call_received:
  assumes "p_state (D tf) = ST_BLOCKED" and "m_from (D tf) = PROC_PID_ANY" and "tf \<noteq> src" and "tf \<in> pids"
    and "sig_mask (D src) = 0" and "src \<noteq> PROC_PID_ANY"
  shows "\<exists>D' R'. a_call src tf pa (O_SEND OR O_RECV) (D, R) = (None, D', R') \<and> (\<forall>x. x \<noteq> src \<and> x \<noteq> tf \<longrightarrow> D' x = D x) \<and>
    D' tf = (D tf)\<lparr>m_from := src, d_regs := (d_regs (D tf))(0 := word_of_int src), p_state := ST_READY\<rparr> \<and>
    D' src = (D src)\<lparr>pa_msg := pa, m_to := PROC_PID_NONE, m_from := tf, p_state := ST_BLOCKED\<rparr>"
proof -
  have ops: "(O_SEND OR O_RECV) AND O_SEND \<noteq> 0" "(O_SEND OR O_RECV) AND O_RECV \<noteq> 0"
    by (simp_all add: O_RECV_def O_SEND_def)
  have n: "tf \<noteq> PROC_PID_ANY" "tf \<noteq> PROC_PID_NONE" using assms(4) by (auto simp: pids_def PROC_PID_ANY_def PROC_PID_NONE_def)
  let ?D = "D(src := (D src)\<lparr>pa_msg := pa, m_to := PROC_PID_NONE\<rparr>,
    tf := (D tf)\<lparr>m_from := src, d_regs := (d_regs (D tf))(0 := word_of_int src), p_state := ST_READY\<rparr>)"
  have "a_call src tf pa (O_SEND OR O_RECV) (D, R) = (None, ?D(src := a_block ((?D src)\<lparr>m_from := tf\<rparr>)),
      memcpy32 R (pa_msg (D tf)) pa MSG_WORDS)"
    using assms ops n by (simp add: a_call_def a_send_def a_recv_def a_sender_def Let_def fun_upd_twist)
  then show ?thesis using assms by (intro exI conjI) (assumption, simp_all add: a_block_def)
qed

text \<open>The system task waits for a message from the idle task, and the other one sends to it.\<close>

lemma demo_two_blocked:
  obtains s where "reachable s" "p_state (desc s 3) = ST_BLOCKED" "p_state (desc s 0) = ST_BLOCKED" "m_to (desc s 3) = 0"
proof -
  obtain s0 where s0: "reachable s0" "proc_ptr s0 = Some 0" "\<And>p. p \<in> pids \<Longrightarrow> desc s0 p = demo_desc p"
    using demo_boot by blast
  note dd = demo_desc_def demo_task_def new_task_def task_desc_def zero_desc_def
  have p: "0 \<in> pids" "3 \<in> pids" "31 \<in> pids" by (simp_all add: pids_def)
  have d0: "p_state (desc s0 0) = ST_READY" "sig_mask (desc s0 0) = 0" using s0(3) [OF p(1)] by (simp_all add: dd)
  have d3: "p_state (desc s0 3) = ST_READY" "sig_mask (desc s0 3) = 0" using s0(3) [OF p(2)] by (simp_all add: dd)
  have nb: "p_state (desc s0 x) \<noteq> ST_BLOCKED" if "x \<in> pids" for x using s0(3) [OF that] by (simp add: dd)
  obtain r s1 where s1: "sendreceive 31 0x3010 O_RECV s0 = KOk (r, s1)" "reachable s1"
    "a_call 0 31 0x3010 O_RECV (desc s0, ram s0) = (ret_of r, desc s1, ram s1)"
    using reach_call [OF s0(1,2), of 31 "0x3010" O_RECV] p(3) d0 by auto
  obtain D1 where D1: "a_call 0 31 0x3010 O_RECV (desc s0, ram s0) = (None, D1, ram s0)" "\<forall>x. x \<noteq> 0 \<longrightarrow> D1 x = desc s0 x"
    "D1 0 = (desc s0 0)\<lparr>pa_msg := 0x3010, m_to := PROC_PID_NONE, m_from := 31, p_state := ST_BLOCKED\<rparr>"
    using a_recv_nobody [of "desc s0" 0 31 "0x3010" "ram s0"] nb d0(2) p(3) by (auto simp: PROC_PID_NONE_def)
  have e1: "desc s1 x = D1 x" for x using s1(3) D1(1) by (simp add: fun_eq_iff)
  have "3 \<in> st_set s1 ST_READY" using d3 D1(2) p(2) by (simp add: e1)
  note s2 = reach_schedule(2) [OF s1(2) this]
  obtain r' s3 where s3: "reachable s3"
    "a_call 3 0 0x4010 O_SEND (desc (dispatch 3 s1), ram (dispatch 3 s1)) = (ret_of r', desc s3, ram s3)"
    using reach_call [OF s2, of 3 0 "0x4010" O_SEND] \<open>3 \<in> st_set s1 ST_READY\<close> p(1) by auto
  have ops: "O_SEND AND O_RECV = 0" "O_SEND AND O_SEND \<noteq> 0" by (simp_all add: O_RECV_def O_SEND_def)
  have "a_call 3 0 0x4010 O_SEND (D1, ram s1) = (None, D1(3 := (D1 3)\<lparr>pa_msg := 0x4010, m_to := 0, m_from := PROC_PID_NONE,
      p_state := ST_BLOCKED\<rparr>), ram s1)"
    using ops d3 by (simp add: a_call_def a_send_def a_recv_def D1(2,3) PROC_PID_ANY_def PROC_PID_NONE_def a_block_def)
  then have e3: "desc s3 x = (if x = 3 then (D1 3)\<lparr>pa_msg := 0x4010, m_to := 0, m_from := PROC_PID_NONE,
      p_state := ST_BLOCKED\<rparr> else D1 x)" for x
    using s3(2) e1 by (simp add: fun_eq_iff)
  show thesis by (rule that [OF s3(1)]) (simp_all add: e3 D1(3))
qed

text \<open>A first user process that has called the system task, and its fork.\<close>

lemma blocks_32: "unat (mem_blocks 32) = 1" "unat (32 :: u32) \<le> 2 ^ 27"
proof -
  have "mem_blocks 32 = 1" by code_simp
  then show "unat (mem_blocks 32) = 1" by simp
qed simp

lemma alloc_one:
  assumes "alloc p 0 0 32 b r a b' r'" and "64 \<le> i" "i < 512" "b i = 0"
  shows "a \<noteq> 0 \<and> (\<exists>j. b' = b(j := p))"
proof -
  obtain k k' :: kmem where k: "blk_sts k = b" "mem_realloc p 0 0 32 k = KOk (a, k')" "blk_sts k' = b'"
    using assms(1) by (auto simp: alloc_def)
  have "realloc_fits (blk_sts k) p i 1" using assms(4) by (auto simp: realloc_fits_iff k(1) less_Suc_eq)
  with mem_realloc_cases [OF blocks_32(2), of p 0 0 k, unfolded blocks_32(1)] k(2) assms(2,3) show ?thesis
  proof (elim disjE exE conjE)
    fix j s1 assume m: "mem_realloc p 0 0 32 k = KOk (push_bit 12 (of_nat j), s1\<lparr>blk_sts := set_blocks (blk_sts s1) j 1 p\<rparr>)"
      "s1 = (if (0 :: u32) \<noteq> 0 \<and> 0 \<noteq> push_bit 12 (of_nat j :: u32)
        then k\<lparr>ram := memcpy (ram k) (push_bit 12 (of_nat j)) 0 (unat (0 :: u32)),
          blk_sts := set_blocks (blk_sts k) (block_of 0) (unat (mem_blocks 0)) 0\<rparr> else k)"
      and j: "64 \<le> j" "j + 1 \<le> 512"
    have "push_bit 12 (of_nat j :: u32) \<noteq> 0" using j push_12_eq_0 [of j] by simp
    moreover have "b' = set_blocks b j 1 p" using m k by auto
    moreover have "set_blocks b j 1 p = b(j := p)" by (simp add: set_blocks_def)
    ultimately show ?thesis using m(1) k(2) by auto
  qed auto
qed

lemma demo_fork:
  "\<exists>s q c s'. reachable s \<and> sys_runs s \<and> in_call s q \<and> user_proc s q \<and> proc_free s = Some c \<and>
     proc_fork q s = KOk (c, s') \<and> reachable s' \<and> q \<noteq> c \<and> user_proc s' q \<and> user_proc s' c \<and> mem_sz (desc s q) = 32 \<and>
     pa_msg (desc s q) = mem_ad (desc s q) + 4 \<and> uid (desc s 31) = PROC_UID_KERNEL \<and> ppid (desc s 31) = 0"
proof -
  obtain s0 where s0: "reachable s0" "proc_ptr s0 = Some 0" "blk_sts s0 = (\<lambda>_. 0)" "\<And>p. p \<in> pids \<Longrightarrow> desc s0 p = demo_desc p"
    using demo_boot by blast
  note dd = demo_desc_def demo_task_def new_task_def task_desc_def zero_desc_def
  have p: "0 \<in> pids" "1 \<in> pids" "2 \<in> pids" "31 \<in> pids" by (simp_all add: pids_def)
  have sys0: "sys_runs s0" using s0(2) s0(4) [OF p(1)] by (simp add: sys_runs_def dd)
  note ok0 = kernel_invD(1) [OF reachable_kernel_inv [OF s0(1)]]
  have n12: "p_state (desc s0 1) = ST_NONE" "p_state (desc s0 2) = ST_NONE"
    using s0(4) [OF p(2)] s0(4) [OF p(3)] by (simp_all add: dd)
  have "1 \<in> st_set s0 ST_NONE" using n12(1) p(2) by simp
  then obtain q where q: "proc_free s0 = Some q"
    using links_ok_heads(2) [OF table_wfD(1) [OF table_okD(1) [OF ok0]]] by blast
  note qf = free_head_pos [OF ok0 sys0 q]
  have qd: "q \<noteq> 0" "q \<noteq> 3" "q \<noteq> 31" using qf s0(4) [OF qf(1)] by (auto simp: dd)
  have c: "cstr [105, 0] [105]" by (simp add: cstr_def)
  obtain a s1 where s1: "proc_create_init [105, 0] 32 s0 = KOk (q, s1)"
    "\<And>x. desc s1 x = (if x = q then init_desc [105] a 32 else desc s0 x)"
    "alloc q 0 0 32 (\<lambda>_. 0) (ram s0) a (blk_sts s1) (ram s1)" "proc_ptr s1 = Some 0"
    using create_init_ok [OF ok0 c blocks_32(2) q] s0(2,3) by auto
  obtain j where j: "a \<noteq> 0" "blk_sts s1 = (\<lambda>_. 0)(j := q)" using alloc_one [OF s1(3), of 64] by auto
  have r1: "reachable s1"
    by (rule reachable.step [OF s0(1)], rule kstep.create_init [OF sys0 c s1(1)]) (simp add: s1(2) init_desc_def j)
  have i: "p_state (init_desc [105] a 32) = ST_BLOCKED" "uid (init_desc [105] a 32) = PROC_UID_ROOT"
    "sig_mask (init_desc [105] a 32) = 0" "mem_sz (init_desc [105] a 32) = 32" "mem_ad (init_desc [105] a 32) = a"
    by (simp_all add: init_desc_def zero_desc_def)
  obtain s2 where s2: "proc_sig q SIGALRM s1 = KOk s2" "blk_sts s2 = blk_sts s1" "proc_ptr s2 = Some 0"
    "\<And>x. desc s2 x = (if x = q then (init_desc [105] a 32)\<lparr>m_from := PROC_PID_NONE, m_to := PROC_PID_NONE, p_state := ST_READY,
       d_regs := (d_regs (init_desc [105] a 32))(0 := word_of_int EABORT)\<rparr> else desc s0 x)"
    using proc_sig_ok [OF kernel_invD(1) [OF reachable_kernel_inv [OF r1]] qf(1), of SIGALRM] s1(2,4) i by auto
  have r2: "reachable s2" by (rule reachable.step [OF r1], rule kstep.sig [OF qf(1) s2(1)])
  have nb: "p_state (desc s2 x) \<noteq> ST_BLOCKED" if "x \<in> pids" for x using s0(4) [OF that] by (simp add: s2(4) dd)
  have z: "p_state (desc s2 0) = ST_READY" "sig_mask (desc s2 0) = 0" using s0(4) [OF p(1)] qd by (simp_all add: s2(4) dd)
  obtain s3 r where s3: "reachable s3" "a_call 0 PROC_PID_ANY 0x3010 O_RECV (desc s2, ram s2) = (ret_of r, desc s3, ram s3)"
    "blk_sts s3 = blk_sts s2"
    using reach_call [OF r2 s2(3), of PROC_PID_ANY "0x3010" O_RECV] p(1) z by auto
  obtain D3 where D3: "a_call 0 PROC_PID_ANY 0x3010 O_RECV (desc s2, ram s2) = (None, D3, ram s2)"
    "\<forall>x. x \<noteq> 0 \<longrightarrow> D3 x = desc s2 x"
    "D3 0 = (desc s2 0)\<lparr>pa_msg := 0x3010, m_to := PROC_PID_NONE, m_from := PROC_PID_ANY, p_state := ST_BLOCKED\<rparr>"
    using a_recv_nobody [of "desc s2" 0 PROC_PID_ANY "0x3010" "ram s2"] nb z(2) p(1)
    by (auto simp: PROC_PID_NONE_def PROC_PID_ANY_def)
  have e3: "desc s3 x = (if x = 0 then (desc s2 0)\<lparr>pa_msg := 0x3010, m_to := PROC_PID_NONE, m_from := PROC_PID_ANY,
      p_state := ST_BLOCKED\<rparr> else desc s2 x)" for x using s3(2) D3 by (simp add: fun_eq_iff)
  have rd: "q \<in> st_set s3 ST_READY" using qf qd by (simp add: e3 s2(4))
  note r4 = reach_schedule(2) [OF s3(1) rd]
  have c4: "p_state (desc (dispatch q s3) 0) = ST_BLOCKED" "m_from (desc (dispatch q s3) 0) = PROC_PID_ANY" "0 \<noteq> q"
    "sig_mask (desc (dispatch q s3) q) = 0" "q \<noteq> PROC_PID_ANY"
    using qd qf(3) i(3) by (auto simp: e3 s2(4) PROC_PID_ANY_def)
  obtain D5 R5 where D5: "a_call q 0 (a + 4) (O_SEND OR O_RECV) (desc (dispatch q s3), ram (dispatch q s3)) = (None, D5, R5)"
    "\<forall>x. x \<noteq> q \<and> x \<noteq> 0 \<longrightarrow> D5 x = desc (dispatch q s3) x" "p_state (D5 0) = ST_READY"
    "D5 q = (desc (dispatch q s3) q)\<lparr>pa_msg := a + 4, m_to := PROC_PID_NONE, m_from := 0, p_state := ST_BLOCKED\<rparr>"
    using a_call_received [of "desc (dispatch q s3)" 0 q "a + 4" "ram (dispatch q s3)"] c4 p(1) by auto
  obtain s5 r' where s5: "reachable s5" "a_call q 0 (a + 4) (O_SEND OR O_RECV) (desc (dispatch q s3), ram (dispatch q s3)) =
      (ret_of r', desc s5, ram s5)" "blk_sts s5 = blk_sts (dispatch q s3)"
    using reach_call [OF r4, of q 0 "a + 4" "O_SEND OR O_RECV"] rd qd p(1) by auto
  have e5: "desc s5 x = D5 x" for x using s5(2) D5(1) by (simp add: fun_eq_iff)
  have "0 \<in> st_set s5 ST_READY" using D5(3) p(1) by (simp add: e5)
  note r6 = reach_schedule(2) [OF s5(1) this]
  let ?s6 = "dispatch 0 s5"
  have q6: "p_state (desc ?s6 q) = ST_BLOCKED" "m_to (desc ?s6 q) = PROC_PID_NONE" "m_from (desc ?s6 q) = 0"
    "uid (desc ?s6 q) = PROC_UID_ROOT" "mem_sz (desc ?s6 q) = 32" "pa_msg (desc ?s6 q) = mem_ad (desc ?s6 q) + 4"
    using D5(4) i(2,4,5) qd by (simp_all add: e5 e3 s2(4))
  have sys: "sys_runs ?s6" "in_call ?s6 q" "user_proc ?s6 q"
    using D5(3) q6 qf(1) by (simp_all add: sys_runs_def in_call_def user_proc_def e5 PROC_PID_SYSTEM_TASK_def
        PROC_UID_ROOT_def PROC_UID_KERNEL_def)
  obtain x where x: "x \<in> pids" "x \<noteq> q" "x \<noteq> 0" "p_state (desc s0 x) = ST_NONE" using n12 p(2,3) by (cases "q = 1") auto
  have "x \<in> st_set ?s6 ST_NONE" using x D5(2) by (simp add: e5 e3 s2(4))
  note ok6 = kernel_invD(1) [OF reachable_kernel_inv [OF r6]]
  obtain c where c6: "proc_free ?s6 = Some c"
    using \<open>x \<in> st_set ?s6 ST_NONE\<close> links_ok_heads(2) [OF table_wfD(1) [OF table_okD(1) [OF ok6]]] by blast
  note cf = free_head_pos [OF ok6 sys(1) c6]
  have qc: "q \<noteq> c" using cf(2) q6(1) by auto
  have small: "unat (mem_sz (desc ?s6 q)) \<le> 2 ^ 27" using q6(5) by simp
  obtain a' s7 where s7: "proc_fork q ?s6 = KOk (if a' = 0 then PROC_PID_NONE else c, s7)"
    "\<And>x. desc s7 x = (if x = c then fork_desc (desc ?s6 q) q a' else desc ?s6 x)"
    "alloc c 0 0 32 (blk_sts ?s6) (ram ?s6) a' (blk_sts s7) (ram ?s6)"
    using fork_ok [OF ok6 qf(1) q6(1) small c6] q6(5) by auto
  have b6: "blk_sts ?s6 = (\<lambda>_. 0)(j := q)" using s5(3) s3(3) s2(2) j(2) by simp
  have "\<exists>i. 64 \<le> i \<and> i < 512 \<and> blk_sts ?s6 i = 0" unfolding b6 by (rule exI [of _ "if j = 64 then 65 else 64"]) simp
  then have a': "a' \<noteq> 0" using alloc_one [OF s7(3)] by blast
  have f: "proc_fork q ?s6 = KOk (c, s7)" using s7(1) a' by simp
  have "reachable s7"
    by (rule reachable.step [OF r6], rule kstep.fork [OF sys f]) (use cf in \<open>simp add: PROC_PID_NONE_def\<close>)
  moreover have "user_proc s7 q" "user_proc s7 c"
    using qc cf(1) qf(1) q6 a' by (simp_all add: user_proc_def s7(2) fork_desc_def PROC_UID_ROOT_def PROC_UID_KERNEL_def)
  moreover have "uid (desc ?s6 31) = PROC_UID_KERNEL" "ppid (desc ?s6 31) = 0"
    using s0(4) [OF p(4)] D5(2) qd by (simp_all add: e5 e3 s2(4) dd)
  ultimately show ?thesis using r6 sys c6 f qc q6(5,6) by blast
qed

section \<open>The process lists\<close>



text \<open>C2. No rendezvous is missed: in a reachable state a process blocked sending to \<open>q\<close> never faces
  a \<open>q\<close> that is blocked and would accept its message.\<close>

theorem no_missed_rendezvous:
  assumes "reachable s" and "p \<in> pids" and "q \<in> pids" and "p \<noteq> q"
    and "p_state (desc s p) = ST_BLOCKED" and "p_state (desc s q) = ST_BLOCKED" and "m_to (desc s p) = q"
  shows "m_from (desc s q) \<noteq> p \<and> m_from (desc s q) \<noteq> PROC_PID_ANY"
  using no_missedD [OF kernel_invD(2) [OF reachable_kernel_inv [OF assms(1)]] assms(2-)] .

theorem no_missed_rendezvous_witness:
  "\<exists>s. reachable s \<and> m_to (desc s 3) = 0 \<and> m_from (desc s 0) \<noteq> 3 \<and> m_from (desc s 0) \<noteq> PROC_PID_ANY"
proof -
  obtain s where s: "reachable s" "p_state (desc s 3) = ST_BLOCKED" "p_state (desc s 0) = ST_BLOCKED" "m_to (desc s 3) = 0"
    by (rule demo_two_blocked)
  have "3 \<in> pids" by (simp add: pids_def)
  from no_missed_rendezvous [OF s(1) this _ _ s(2,3,4)] s show ?thesis by auto
qed



section \<open>The scheduler\<close>

lemma window_blocks:
  assumes b: "blk AND NOT (mask k) = (of_nat b :: u16)" and "b < 512" and "k \<le> 15"
  shows "b \<le> unat blk \<and> unat blk < b + 2 ^ k"
proof -
  have "blk AND NOT (mask k) = push_bit k (drop_bit k blk)"
    by (rule bit_word_eqI) (auto simp: bit_simps)
  moreover have "unat blk < 2 ^ LENGTH(16)" by (rule unsigned_less)
  then have u16: "unat blk < 2 ^ 16" by simp
  have "unat blk div 2 ^ k * 2 ^ k \<le> unat blk" by simp
  then have "unat (drop_bit k blk) * 2 ^ k < 2 ^ 16"
    unfolding unat_drop_bit using u16 by (rule le_less_trans)
  then have "unat (push_bit k (drop_bit k blk)) = unat blk div 2 ^ k * 2 ^ k"
    by (simp add: unat_push_bit unat_drop_bit)
  moreover have "unat (of_nat b :: u16) = b" using assms(2) by (simp add: unat_of_nat)
  ultimately have "b = unat blk div 2 ^ k * 2 ^ k" using b by simp
  moreover have "unat blk mod 2 ^ k < 2 ^ k" by simp
  ultimately show ?thesis using div_mult_mod_eq [of "unat blk" "2 ^ k"] by linarith
qed

text \<open>The scheduler run \<open>n\<close> times in a row.\<close>

fun schedules :: "nat \<Rightarrow> 'a kstate_scheme \<Rightarrow> 'a kstate_scheme kres" where
  "schedules 0 s = KOk s"
| "schedules (Suc n) s = kbind (schedules n s) (\<lambda>s'. kbind (proc_schedule PROC_PID_ANY s') (\<lambda>(_, s''). KOk s''))"

lemma schedules_rotate:
  assumes "table_ok s" and "ready_view s rq"
  shows "\<exists>s'. schedules n s = KOk s' \<and> table_ok s' \<and> ready_view s' (rotate n rq) \<and> desc s' = desc s \<and>
    (0 < n \<longrightarrow> proc_ptr s' = Some (rq ! (n mod length rq)))"
proof (induction n)
  case 0
  then show ?case using assms by simp
next
  case (Suc n)
  then obtain s' where s': "schedules n s = KOk s'" "table_ok s'" "ready_view s' (rotate n rq)" "desc s' = desc s" by blast
  have ne: "rotate n rq \<noteq> []"
    using ready_nonempty [OF s'(2)] ring_view_unique [OF s'(3)] by (metis list.distinct(1))
  then obtain h t where ht: "rotate n rq = h # t" by (cases "rotate n rq") auto
  obtain m u where m: "t @ [h] = m # u" "proc_schedule PROC_PID_ANY s' = KOk (m, dispatch m s')"
    "table_ok (dispatch m s')" "ready_view (dispatch m s') (m # u)"
    using schedule_any_step [OF s'(2) s'(3) [unfolded ht]] by blast
  have r: "rotate (Suc n) rq = m # u" using ht m(1) by (simp add: rotate1_rotate_swap [symmetric])
  have "m = rq ! (Suc n mod length rq)"
    using r nth_rotate [of 0 rq "Suc n"] ne by (metis add.right_neutral length_greater_0_conv nth_Cons_0 rotate_is_Nil_conv)
  then show ?case using s' m r by simp
qed

text \<open>C8. Round robin: from a reachable state, consecutive runs of the scheduler choose the ready
  processes in the order of the ready ring, so that each of the \<open>n\<close> ready processes runs exactly
  once in any \<open>n\<close> runs.\<close>

theorem schedule_round_robin:
  assumes "reachable s" and "ready_view s rq" and "p \<in> set rq"
  shows "\<exists>!i. 0 < i \<and> i \<le> length rq \<and> (\<exists>s'. schedules i s = KOk s' \<and> proc_ptr s' = Some p)"
proof -
  note ok = kernel_invD(1) [OF reachable_kernel_inv [OF assms(1)]]
  have d: "distinct rq" by (rule ring_view_distinct [OF assms(2)])
  have run: "(\<exists>s'. schedules i s = KOk s' \<and> proc_ptr s' = Some p) \<longleftrightarrow> rq ! (i mod length rq) = p" if "0 < i" for i
    using schedules_rotate [OF ok assms(2), of i] that by auto
  obtain k where k: "k < length rq" "rq ! k = p" using assms(3) by (auto simp: in_set_conv_nth)
  let ?i = "if k = 0 then length rq else k"
  have "i = ?i" if "0 < i" "i \<le> length rq" "rq ! (i mod length rq) = p" for i
  proof (cases "i = length rq")
    case True
    with that(3) have "rq ! 0 = rq ! k" using k by simp
    then have "k = 0" using d k(1) nth_eq_iff_index_eq [of rq 0 k] by (cases rq) auto
    with True show ?thesis by simp
  next
    case False
    with that k have "rq ! i = rq ! k" "i < length rq" by auto
    then have "i = k" using d k(1) by (simp add: nth_eq_iff_index_eq)
    with that(1) show ?thesis by auto
  qed
  moreover have "0 < ?i" "?i \<le> length rq" "rq ! (?i mod length rq) = p" using k by auto
  ultimately have "\<exists>!i. 0 < i \<and> i \<le> length rq \<and> rq ! (i mod length rq) = p"
    by (intro ex1I [of _ ?i] conjI) metis+
  then show ?thesis using run by (simp cong: conj_cong)
qed

theorem schedule_round_robin_witness:
  "\<exists>s rq. reachable s \<and> ready_view s rq \<and>
     (\<exists>!i. 0 < i \<and> i \<le> length rq \<and> (\<exists>s'. schedules i s = KOk s' \<and> proc_ptr s' = Some K_PROC_IDLE))"
proof -
  obtain s where s: "reachable s" using demo_boot by blast
  note ok = kernel_invD(1) [OF reachable_kernel_inv [OF s]]
  obtain h t where v: "ready_view s (h # t)" "set (h # t) = st_set s ST_READY" by (rule ready_nonempty [OF ok])
  have "31 \<in> st_set s ST_READY" using table_okD(2) [OF ok] by simp
  then have "K_PROC_IDLE \<in> set (h # t)" using v(2) by (simp add: K_PROC_IDLE_def K_PROC_COUNT_def)
  from schedule_round_robin [OF s v(1) this] s v(1) show ?thesis by blast
qed



section \<open>Fork\<close>



end
