(* ===== verification/IpcTheorems.thy ===== *)
theory IpcTheorems
  imports KernelProps
begin

text \<open>
  The contract of \<open>sendreceive\<close> and of the system call entry: refinement of the abstract
  system, delivery of a message on a rendezvous in both directions, the fate of a process with
  a pending signal that is not an alarm, and the memory a system call can reach.
\<close>

section \<open>Refinement\<close>

text \<open>C1. \<open>sendreceive\<close> implements the abstract call \<open>a_call\<close>: called by a ready process other than the
  idle task with a valid partner, it never faults or panics, keeps the process lists consistent,
  changes descriptors and memory exactly as the abstract call does, returns its value when there is
  one, and otherwise switches to another process (user process) or yields (system task). The idle
  task gets the processor only when nothing else is ready.\<close>

theorem sendreceive_refines:
  assumes "table_ok s" and "proc_ptr s = Some src" and "src \<in> pids" and "p_state (desc s src) = ST_READY"
    and "src \<noteq> K_PROC_IDLE" and "tf \<in> pids \<or> tf = PROC_PID_ANY"
  shows "\<exists>r s'. sendreceive tf pa ops s = KOk (r, s') \<and> table_ok s' \<and>
    a_call src tf pa ops (desc s, ram s) =
      ((case r of SR_return e \<Rightarrow> Some e | _ \<Rightarrow> None), desc s', ram s') \<and>
    (r = SR_restart \<longrightarrow> uid (desc s' src) > PROC_UID_KERNEL \<and>
       (\<exists>q. proc_ptr s' = Some q \<and> p_state (desc s' q) = ST_READY \<and>
          (q = K_PROC_IDLE \<longrightarrow> {p \<in> pids. p_state (desc s' p) = ST_READY} = {K_PROC_IDLE}))) \<and>
    (r = SR_yield \<longrightarrow> uid (desc s' src) = PROC_UID_KERNEL)"
proof -
  have c: "caller s src" using assms by (simp add: caller_def K_PROC_IDLE_def K_PROC_COUNT_def)
  obtain r s' where s': "sendreceive tf pa ops s = KOk (r, s')" "table_ok s'"
    "a_call src tf pa ops (ipc_of s) = (ret_of r, ipc_of s')"
    "ret_of r = None \<longrightarrow> r = (if uid (desc s' src) > PROC_UID_KERNEL then SR_restart else SR_yield)"
    "r = SR_restart \<longrightarrow> (\<exists>q. proc_ptr s' = Some q \<and> q \<in> st_set s' ST_READY \<and> (q = 31 \<longrightarrow> st_set s' ST_READY = {31}))"
    using sendreceive_run [OF c assms(2,6), of pa ops] by (elim exE conjE) (rule that)
  moreover have "r = SR_restart \<longrightarrow> uid (desc s' src) > PROC_UID_KERNEL"
    "r = SR_yield \<longrightarrow> uid (desc s' src) = PROC_UID_KERNEL"
    using s'(4) by (auto simp: ret_of_def PROC_UID_KERNEL_def word_gt_0 split: if_splits sr_result.splits)
  ultimately show ?thesis
    by (intro exI [of _ r] exI [of _ s'])
      (auto simp: ipc_of_def ret_of_def st_set_def K_PROC_IDLE_def K_PROC_COUNT_def)
qed

theorem sendreceive_refines_witness:
  "\<exists>s r s'. reachable s \<and> proc_ptr s = Some 0 \<and> sendreceive PROC_PID_ANY 0x3010 O_RECV s = KOk (r, s') \<and> table_ok s'"
proof -
  obtain s where s: "reachable s" "proc_ptr s = Some 0" "\<forall>p \<in> pids. desc s p = demo_desc p" using demo_boot by blast
  have "desc s 0 = demo_desc 0" using s(3) by simp
  then have "p_state (desc s 0) = ST_READY" by (simp add: demo_desc_def demo_task_def new_task_def)
  from sendreceive_refines [OF kernel_invD(1) [OF reachable_kernel_inv [OF s(1)]] s(2) _ this, of PROC_PID_ANY "0x3010" O_RECV]
  show ?thesis using s by (auto simp: K_PROC_IDLE_def K_PROC_COUNT_def)
qed

section \<open>Two situations of the demonstration\<close>

lemma demo_ready:
  assumes "p \<in> pids" and "desc s p = demo_desc p" and "p \<in> {0, 3}"
  shows "p_state (desc s p) = ST_READY" and "sig_mask (desc s p) = 0"
  using assms by (auto simp: demo_desc_def demo_task_def new_task_def task_desc_def zero_desc_def)

text \<open>The system task waits for anybody, task 3 runs.\<close>

lemma demo_waiting:
  "\<exists>s. reachable s \<and> proc_ptr s = Some 3 \<and> p_state (desc s 3) = ST_READY \<and> p_state (desc s 0) = ST_BLOCKED \<and>
     m_from (desc s 0) = PROC_PID_ANY \<and> pa_msg (desc s 0) = 0x3010"
proof -
  obtain s0 where s0: "reachable s0" "proc_ptr s0 = Some 0" "\<And>p. p \<in> pids \<Longrightarrow> desc s0 p = demo_desc p"
    using demo_boot by blast
  have p: "0 \<in> pids" "3 \<in> pids" by (simp_all add: pids_def)
  note d0 = demo_ready [OF p(1) s0(3) [OF p(1)], simplified]
  note d3 = demo_ready [OF p(2) s0(3) [OF p(2)], simplified]
  have nb: "p_state (desc s0 x) \<noteq> ST_BLOCKED" if "x \<in> pids" for x
    using s0(3) [OF that] by (simp add: demo_desc_def demo_task_def new_task_def zero_desc_def)
  obtain r s1 where s1: "reachable s1" "a_call 0 PROC_PID_ANY 0x3010 O_RECV (desc s0, ram s0) = (ret_of r, desc s1, ram s1)"
    using reach_call [OF s0(1,2), of PROC_PID_ANY "0x3010" O_RECV] p(1) d0 by auto
  obtain D1 where D1: "a_call 0 PROC_PID_ANY 0x3010 O_RECV (desc s0, ram s0) = (None, D1, ram s0)"
    "\<forall>x. x \<noteq> 0 \<longrightarrow> D1 x = desc s0 x"
    "D1 0 = (desc s0 0)\<lparr>pa_msg := 0x3010, m_to := PROC_PID_NONE, m_from := PROC_PID_ANY, p_state := ST_BLOCKED\<rparr>"
    using a_recv_nobody [of "desc s0" 0 PROC_PID_ANY "0x3010" "ram s0"] nb d0(2) p(1)
    by (auto simp: PROC_PID_NONE_def PROC_PID_ANY_def)
  have e1: "desc s1 x = D1 x" for x using s1(2) D1(1) by (simp add: fun_eq_iff)
  have "3 \<in> st_set s1 ST_READY" using d3 D1(2) p(2) by (simp add: e1)
  from reach_schedule(2) [OF s1(1) this] show ?thesis
    by (intro exI [of _ "dispatch 3 s1"]) (simp add: e1 D1(2,3) d3)
qed

text \<open>Task 3 is blocked sending to the system task, which runs.\<close>

lemma demo_sending:
  "\<exists>s. reachable s \<and> proc_ptr s = Some 0 \<and> p_state (desc s 0) = ST_READY \<and> p_state (desc s 3) = ST_BLOCKED \<and>
     m_to (desc s 3) = 0 \<and> pa_msg (desc s 3) = 0x4010 \<and> m_from (desc s 3) = PROC_PID_NONE \<and>
     (\<forall>x \<in> pids. x \<noteq> 3 \<longrightarrow> p_state (desc s x) \<noteq> ST_BLOCKED)"
proof -
  obtain s0 where s0: "reachable s0" "proc_ptr s0 = Some 0" "\<And>p. p \<in> pids \<Longrightarrow> desc s0 p = demo_desc p"
    using demo_boot by blast
  have p: "0 \<in> pids" "3 \<in> pids" by (simp_all add: pids_def)
  note d0 = demo_ready [OF p(1) s0(3) [OF p(1)], simplified]
  note d3 = demo_ready [OF p(2) s0(3) [OF p(2)], simplified]
  have nb: "p_state (desc s0 x) \<noteq> ST_BLOCKED" if "x \<in> pids" for x
    using s0(3) [OF that] by (simp add: demo_desc_def demo_task_def new_task_def zero_desc_def)
  have r3: "3 \<in> st_set s0 ST_READY" using d3 p(2) by simp
  note s1 = reach_schedule(2) [OF s0(1) r3]
  obtain r s2 where s2: "reachable s2"
    "a_call 3 0 0x4010 O_SEND (desc (dispatch 3 s0), ram (dispatch 3 s0)) = (ret_of r, desc s2, ram s2)"
    using reach_call [OF s1, of 3 0 "0x4010" O_SEND] r3 p(1) by auto
  have ops: "O_SEND AND O_RECV = 0" "O_SEND AND O_SEND \<noteq> 0" by (simp_all add: O_RECV_def O_SEND_def)
  have "a_call 3 0 0x4010 O_SEND (desc s0, ram s0) = (None, (desc s0)(3 := (desc s0 3)\<lparr>pa_msg := 0x4010, m_to := 0,
      m_from := PROC_PID_NONE, p_state := ST_BLOCKED\<rparr>), ram s0)"
    using ops d0 d3 by (simp add: a_call_def a_send_def a_recv_def PROC_PID_ANY_def PROC_PID_NONE_def a_block_def)
  then have e2: "desc s2 x = (if x = 3 then (desc s0 3)\<lparr>pa_msg := 0x4010, m_to := 0, m_from := PROC_PID_NONE,
      p_state := ST_BLOCKED\<rparr> else desc s0 x)" for x
    using s2(2) by (simp add: fun_eq_iff)
  have "0 \<in> st_set s2 ST_READY" using d0 p(1) by (simp add: e2)
  from reach_schedule(2) [OF s2(1) this] show ?thesis
    by (intro exI [of _ "dispatch 0 s2"]) (simp add: e2 d0 nb)
qed

section \<open>Delivery\<close>

text \<open>C7. A send to a process that waits for the sender or for anybody completes at once: the call returns,
  the 20 bytes of the message are in the receiver's buffer and no other byte has changed, the
  receiver is ready with the sender's number as the result of its own call, and no other process
  has changed but for the bookkeeping of the sender.\<close>

theorem send_delivers:
  assumes "table_ok s" and "proc_ptr s = Some src" and "src \<in> pids" and "p_state (desc s src) = ST_READY"
    and "src \<noteq> K_PROC_IDLE" and "tf \<in> pids" and "p_state (desc s tf) = ST_BLOCKED"
    and "m_from (desc s tf) = src \<or> m_from (desc s tf) = PROC_PID_ANY"
    and "region (pa_msg (desc s tf)) 20 \<inter> region pa 20 = {}"
  shows "\<exists>s'. sendreceive tf pa O_SEND s = KOk (SR_return tf, s') \<and>
    (\<forall>k < 20. ram s' (pa_msg (desc s tf) + of_nat k) = ram s (pa + of_nat k)) \<and>
    (\<forall>a. a \<notin> region (pa_msg (desc s tf)) 20 \<longrightarrow> ram s' a = ram s a) \<and>
    p_state (desc s' tf) = ST_READY \<and> m_from (desc s' tf) = src \<and> d_regs (desc s' tf) 0 = word_of_int src \<and>
    (\<forall>x. x \<noteq> src \<and> x \<noteq> tf \<longrightarrow> desc s' x = desc s x)"
proof -
  have c: "caller s src" using assms by (simp add: caller_def K_PROC_IDLE_def K_PROC_COUNT_def)
  obtain r s' where s': "sendreceive tf pa O_SEND s = KOk (r, s')" "a_call src tf pa O_SEND (ipc_of s) = (ret_of r, ipc_of s')"
    using sendreceive_run [OF c assms(2) disjI1 [OF assms(6)], of pa O_SEND] by (elim exE conjE) (rule that)
  have ops: "O_SEND AND O_RECV = 0" "O_SEND AND O_SEND \<noteq> 0" by (simp_all add: O_RECV_def O_SEND_def)
  have ne: "tf \<noteq> src" "tf \<noteq> PROC_PID_ANY" using assms(4,6,7) by (auto simp: pids_def PROC_PID_ANY_def)
  let ?D = "(desc s)(src := (desc s src)\<lparr>pa_msg := pa, m_to := PROC_PID_NONE, m_from := PROC_PID_NONE\<rparr>,
    tf := (desc s tf)\<lparr>m_from := src, d_regs := (d_regs (desc s tf))(0 := word_of_int src), p_state := ST_READY\<rparr>)"
  have "a_call src tf pa O_SEND (ipc_of s) = (Some tf, ?D, memcpy32 (ram s) (pa_msg (desc s tf)) pa MSG_WORDS)"
    using ops ne assms(7,8) by (simp add: a_call_def a_send_def a_recv_def ipc_of_def fun_upd_twist)
  with s'(2) have e: "ret_of r = Some tf" "desc s' = ?D" "ram s' = memcpy32 (ram s) (pa_msg (desc s tf)) pa MSG_WORDS"
    by (simp_all add: ipc_of_def)
  have "r = SR_return tf" using e(1) by (auto simp: ret_of_def split: sr_result.splits)
  moreover have "desc s' x = ?D x" for x using e(2) by (rule fun_cong)
  ultimately show ?thesis
    using s'(1) ne assms(9) memcpy32_disjoint [of "pa_msg (desc s tf)" 5 pa] memcpy32_outside [of _ "pa_msg (desc s tf)" 5]
    by (intro exI [of _ s']) (simp add: e(3) MSG_WORDS_def)
qed

theorem send_delivers_witness:
  "\<exists>s s'. reachable s \<and> sendreceive 0 0x4010 O_SEND s = KOk (SR_return 0, s') \<and>
     (\<forall>k < 20. ram s' (0x3010 + of_nat k) = ram s (0x4010 + of_nat k))"
proof -
  obtain s where s: "reachable s" "proc_ptr s = Some 3" "p_state (desc s 3) = ST_READY" "p_state (desc s 0) = ST_BLOCKED"
    "m_from (desc s 0) = PROC_PID_ANY" "pa_msg (desc s 0) = 0x3010" using demo_waiting by blast
  have d: "region (pa_msg (desc s 0)) 20 \<inter> region 0x4010 20 = {}" unfolding s(6) by (rule regions_apart) simp_all
  from send_delivers [OF kernel_invD(1) [OF reachable_kernel_inv [OF s(1)]] s(2) _ s(3) _ _ s(4) _ d] s show ?thesis
    by (auto simp: pids_def K_PROC_IDLE_def K_PROC_COUNT_def)
qed

text \<open>A receive from anybody takes the message of the waiting sender with the lowest number: the call
  returns that number, the message is in the caller's buffer, and the sender is ready exactly when
  it does not wait for an answer.\<close>

theorem receive_takes_first:
  assumes "table_ok s" and "proc_ptr s = Some src" and "src \<in> pids" and "p_state (desc s src) = ST_READY"
    and "src \<noteq> K_PROC_IDLE" and "q \<in> pids" and "p_state (desc s q) = ST_BLOCKED" and "m_to (desc s q) = src"
    and "\<And>x. x \<in> pids \<Longrightarrow> x < q \<Longrightarrow> \<not> (p_state (desc s x) = ST_BLOCKED \<and> m_to (desc s x) = src)"
    and "region pa 20 \<inter> region (pa_msg (desc s q)) 20 = {}"
  shows "\<exists>s'. sendreceive PROC_PID_ANY pa O_RECV s = KOk (SR_return q, s') \<and>
    (\<forall>k < 20. ram s' (pa + of_nat k) = ram s (pa_msg (desc s q) + of_nat k)) \<and>
    (\<forall>a. a \<notin> region pa 20 \<longrightarrow> ram s' a = ram s a) \<and> m_to (desc s' q) = PROC_PID_NONE \<and>
    p_state (desc s' q) = (if m_from (desc s q) = PROC_PID_NONE then ST_READY else ST_BLOCKED) \<and>
    (\<forall>x. x \<noteq> src \<and> x \<noteq> q \<longrightarrow> desc s' x = desc s x)"
proof -
  have c: "caller s src" using assms by (simp add: caller_def K_PROC_IDLE_def K_PROC_COUNT_def)
  obtain r s' where s': "sendreceive PROC_PID_ANY pa O_RECV s = KOk (r, s')"
    "a_call src PROC_PID_ANY pa O_RECV (ipc_of s) = (ret_of r, ipc_of s')"
    using sendreceive_run [OF c assms(2) disjI2 [OF refl], of pa O_RECV] by (elim exE conjE) (rule that)
  have ops: "O_RECV AND O_SEND = 0" "O_RECV AND O_RECV \<noteq> 0" by (simp_all add: O_RECV_def O_SEND_def)
  have ne: "q \<noteq> src" "q \<noteq> PROC_PID_ANY" using assms(4,6,7) by (auto simp: pids_def PROC_PID_ANY_def)
  let ?P = "\<lambda>D p. p_state (D p) = ST_BLOCKED \<and> m_to (D p) = src"
  let ?D0 = "(desc s)(src := (desc s src)\<lparr>pa_msg := pa, m_to := PROC_PID_NONE\<rparr>)"
  define L where "L = filter (?P ?D0) [0..31]"
  have ql: "q \<in> set L" using assms(6-8) ne by (simp add: L_def pids_def)
  then obtain x l where l: "L = x # l" by (cases L) auto
  have so: "sorted (x # l)" unfolding l [symmetric] L_def by (simp add: sorted_wrt_filter)
  have "x \<in> set L" unfolding l by simp
  then have "x \<in> pids" "?P (desc s) x" using assms(4) by (auto simp: L_def pids_def split: if_splits)
  moreover have "x \<le> q" using ql so unfolding l by auto
  ultimately have "x = q" using assms(9) [of x] by force
  then have q: "a_sender ?D0 src PROC_PID_ANY = q" using l by (simp only: a_sender_def L_def [symmetric]) simp
  let ?D = "(desc s)(src := (desc s src)\<lparr>pa_msg := pa, m_to := PROC_PID_NONE, m_from := PROC_PID_NONE\<rparr>,
    q := (desc s q)\<lparr>d_regs := (d_regs (desc s q))(0 := word_of_int src), m_to := PROC_PID_NONE,
      p_state := (if m_from (desc s q) = PROC_PID_NONE then ST_READY else ST_BLOCKED)\<rparr>)"
  have "a_call src PROC_PID_ANY pa O_RECV (ipc_of s) = (Some q, ?D, memcpy32 (ram s) pa (pa_msg (desc s q)) MSG_WORDS)"
    using ops ne q assms(7,8) by (simp add: a_call_def a_send_def a_recv_def ipc_of_def Let_def)
  with s'(2) have e: "ret_of r = Some q" "desc s' = ?D" "ram s' = memcpy32 (ram s) pa (pa_msg (desc s q)) MSG_WORDS"
    by (simp_all add: ipc_of_def)
  have "r = SR_return q" using e(1) by (auto simp: ret_of_def split: sr_result.splits)
  moreover have "desc s' x = ?D x" for x using e(2) by (rule fun_cong)
  ultimately show ?thesis
    using s'(1) ne assms(10) memcpy32_disjoint [of pa 5 "pa_msg (desc s q)"] memcpy32_outside [of _ pa 5]
    by (intro exI [of _ s']) (simp add: e(3) MSG_WORDS_def)
qed

theorem receive_takes_first_witness:
  "\<exists>s s'. reachable s \<and> sendreceive PROC_PID_ANY 0x3010 O_RECV s = KOk (SR_return 3, s') \<and> p_state (desc s' 3) = ST_READY"
proof -
  obtain s where s: "reachable s" "proc_ptr s = Some 0" "p_state (desc s 0) = ST_READY" "p_state (desc s 3) = ST_BLOCKED"
    "m_to (desc s 3) = 0" "pa_msg (desc s 3) = 0x4010" "m_from (desc s 3) = PROC_PID_NONE"
    "\<forall>x \<in> pids. x \<noteq> 3 \<longrightarrow> p_state (desc s x) \<noteq> ST_BLOCKED" using demo_sending by blast
  have d: "region 0x3010 20 \<inter> region (pa_msg (desc s 3)) 20 = {}" unfolding s(6) by (rule regions_apart) simp_all
  from receive_takes_first [OF kernel_invD(1) [OF reachable_kernel_inv [OF s(1)]] s(2) _ s(3) _ _ s(4,5) _ d] s show ?thesis
    by (auto simp: pids_def K_PROC_IDLE_def K_PROC_COUNT_def)
qed

section \<open>Signals\<close>

text \<open>A signal other than the alarm is never consumed: a ready process with \<open>SIGCHILD\<close> pending and no
  alarm is not blocked by any call that would block it; the call is aborted, the process stays ready
  and the signal stays pending, so the next call is aborted as well.\<close>

theorem child_signal_never_consumed:
  assumes "table_ok s" and "proc_ptr s = Some src" and "src \<in> pids" and "p_state (desc s src) = ST_READY"
    and "src \<noteq> K_PROC_IDLE" and "tf \<in> pids \<or> tf = PROC_PID_ANY" and "sig_mask (desc s src) = SIGCHILD"
    and "sendreceive tf pa ops s = KOk (r, s')" and "r = SR_restart \<or> r = SR_yield"
  shows "p_state (desc s' src) = ST_READY \<and> sig_mask (desc s' src) = SIGCHILD \<and>
    m_from (desc s' src) = PROC_PID_NONE \<and> m_to (desc s' src) = PROC_PID_NONE \<and>
    d_regs (desc s' src) 0 = word_of_int EABORT \<and> sr_resume ops (desc s' src) = EABORT"
proof -
  have c: "caller s src" using assms by (simp add: caller_def K_PROC_IDLE_def K_PROC_COUNT_def)
  have a: "a_call src tf pa ops (desc s, ram s) = (None, desc s', ram s')"
    using sendreceive_run [OF c assms(2,6), of pa ops] assms(8,9) by (auto simp: ipc_of_def ret_of_def)
  obtain r2 D2 R2 where s2: "a_send src tf pa ops ((desc s)(src := (desc s src)\<lparr>pa_msg := pa\<rparr>), ram s) = (r2, D2, R2)"
    by (metis surj_pair)
  obtain r3 q D3 R3 where s3: "a_recv src tf pa ops (D2, R2) = (r3, q, D3, R3)" by (metis surj_pair)
  have keep2: "p_state (D2 src) = ST_READY \<and> sig_mask (D2 src) = SIGCHILD"
    using s2 by (cases rule: a_send_cases) (use assms(4,7) in \<open>auto split: if_splits\<close>)
  have keep3: "p_state (D3 src) = ST_READY \<and> sig_mask (D3 src) = SIGCHILD"
    using s3 by (cases rule: a_recv_cases) (use keep2 in \<open>auto split: if_splits\<close>)
  have D: "desc s' = D3(src := a_block (D3 src))"
    using a s2 s3 by (auto simp: a_call_def split: option.splits if_splits)
  have "desc s' src = a_block (D3 src)" using fun_cong [OF D, of src] by simp
  moreover have "SIGCHILD AND NOT SIGALRM = SIGCHILD" "SIGCHILD \<noteq> 0" by (simp_all add: SIGCHILD_def SIGALRM_def)
  ultimately show ?thesis using keep3 by (simp add: a_block_def sr_resume_def)
qed

theorem child_signal_never_consumed_witness:
  "\<exists>s r s'. reachable s \<and> sendreceive PROC_PID_ANY 0x3010 O_RECV s = KOk (r, s') \<and> r = SR_yield \<and>
     p_state (desc s' 0) = ST_READY \<and> sig_mask (desc s' 0) = SIGCHILD"
proof -
  obtain s0 where s0: "reachable s0" "proc_ptr s0 = Some 0" "\<And>p. p \<in> pids \<Longrightarrow> desc s0 p = demo_desc p"
    using demo_boot by blast
  have p0: "0 \<in> pids" by simp
  note d0 = demo_ready [OF p0 s0(3) [OF p0], simplified]
  note dd = demo_desc_def demo_task_def new_task_def task_desc_def zero_desc_def
  obtain s where s: "proc_sig 0 SIGCHILD s0 = KOk s" "proc_ptr s = Some 0"
    "\<And>x. desc s x = (if x = 0 then (desc s0 0)\<lparr>sig_mask := sig_mask (desc s0 0) OR SIGCHILD\<rparr> else desc s0 x)"
    using proc_sig_ok [OF kernel_invD(1) [OF reachable_kernel_inv [OF s0(1)]] p0, of SIGCHILD] d0(1) s0(2) by auto
  have r: "reachable s" by (rule reachable.step [OF s0(1)], rule kstep.sig [OF p0 s(1)])
  have d: "p_state (desc s 0) = ST_READY" "sig_mask (desc s 0) = SIGCHILD" "uid (desc s 0) = PROC_UID_KERNEL"
    using d0 s0(3) [OF p0] by (simp_all add: s(3) dd)
  have nb: "p_state (desc s x) \<noteq> ST_BLOCKED" if "x \<in> pids" for x using s0(3) [OF that] d0(1) by (simp add: s(3) dd)
  note a = a_recv_alone [of "desc s" PROC_PID_ANY 0 "0x3010" "ram s", OF nb disjI1 [OF refl] p0]
  have c: "caller s 0" using kernel_invD(1) [OF reachable_kernel_inv [OF r]] d(1) by (simp add: caller_def)
  obtain res s' where s': "sendreceive PROC_PID_ANY 0x3010 O_RECV s = KOk (res, s')"
    "a_call 0 PROC_PID_ANY 0x3010 O_RECV (ipc_of s) = (ret_of res, ipc_of s')"
    "ret_of res = None \<longrightarrow> res = (if uid (desc s' 0) > PROC_UID_KERNEL then SR_restart else SR_yield)"
    using sendreceive_run [OF c s(2) disjI2 [OF refl], of "0x3010" O_RECV] by (elim exE conjE) (rule that)
  have n: "ret_of res = None" "desc s' 0 = a_block ((desc s 0)\<lparr>pa_msg := 0x3010, m_to := PROC_PID_NONE, m_from := PROC_PID_ANY\<rparr>)"
    using s'(2) a by (simp_all add: ipc_of_def PROC_PID_ANY_def PROC_PID_NONE_def fun_eq_iff)
  have "uid (desc s' 0) = PROC_UID_KERNEL" using d(3) by (simp add: n(2) a_block_def)
  then have y: "res = SR_yield" using s'(3) n(1) by simp
  from child_signal_never_consumed [OF kernel_invD(1) [OF reachable_kernel_inv [OF r]] s(2) p0 d(1) _ _ d(2) s'(1) disjI2 [OF y]]
  show ?thesis using r s'(1) y by (auto simp: K_PROC_IDLE_def K_PROC_COUNT_def)
qed

section \<open>The system call entry\<close>

text \<open>C9. A system call reaches the caller's memory only: when the 20 bytes of the message do not wrap
  around the 32-bit address space, the call is either rejected with -1 and no effect, or it is
  \<open>sendreceive\<close> on a message that lies inside the region of the process.\<close>

theorem scall_confined:
  assumes "table_ok s" and "proc_ptr s = Some cur" and "cur \<in> pids" and "unat msg + 20 < 2 ^ 32"
  shows "k_scall ops dst msg s = KOk (SR_return (- 1), s) \<or>
    (\<exists>pa. region pa 20 \<subseteq> region (mem_ad (desc s cur)) (unat (mem_sz (desc s cur))) \<and> 3 AND msg = 0 \<and>
       k_scall ops dst msg s = sendreceive (sint dst) pa (O_SEND OR O_RECV) s)"
proof -
  have cur: "proc_current s = KOk cur"
    using assms(2) table_wfD(2) [OF table_okD(1) [OF assms(1)] assms(3)] by (simp add: proc_current_def)
  let ?pa = "msg + mem_ad (desc s cur)"
  show ?thesis
  proof (cases "msg + MSG_SIZE > mem_sz (desc s cur) \<or> ?pa = 0 \<or> 3 AND msg \<noteq> 0")
    case True
    then show ?thesis using cur assms(3) by (auto simp: k_scall_def va_to_pa_def entry_pids)
  next
    case False
    then have le: "unat (msg + 20) \<le> unat (mem_sz (desc s cur))" by (simp add: MSG_SIZE_def word_le_nat_alt not_less)
    moreover have "unat (msg + 20) = unat msg + 20" using unat_add_of_nat [of msg 20] assms(4) by simp
    ultimately have "20 + unat msg \<le> unat (mem_sz (desc s cur))" by simp
    then have "region (mem_ad (desc s cur) + of_nat (unat msg)) 20 \<subseteq> region (mem_ad (desc s cur)) (unat (mem_sz (desc s cur)))"
      by (rule region_sub)
    then show ?thesis
      using False cur assms(3)
      by (intro disjI2 exI [of _ ?pa]) (auto simp: k_scall_def va_to_pa_def entry_pids add.commute not_less [symmetric])
  qed
qed

theorem scall_confined_witness:
  "\<exists>s q msg. reachable s \<and> proc_ptr s = Some q \<and>
     (k_scall 3 0 msg s = KOk (SR_return (- 1), s) \<or>
      (\<exists>pa. region pa 20 \<subseteq> region (mem_ad (desc s q)) (unat (mem_sz (desc s q))) \<and>
         k_scall 3 0 msg s = sendreceive 0 pa (O_SEND OR O_RECV) s))"
proof -
  obtain s where s: "reachable s" "proc_ptr s = Some 0" using demo_boot by blast
  have "unat (4 :: u32) + 20 < 2 ^ 32" by simp
  from scall_confined [OF kernel_invD(1) [OF reachable_kernel_inv [OF s(1)]] s(2) _ this, of 3 0] s show ?thesis
    by (intro exI [of _ s] exI [of _ 0] exI [of _ 4]) auto
qed

text \<open>The check of the message address wraps: for an address 16 bytes below the end of the address
  space the sum is small, the check passes for every process of at least 4 bytes, and the message
  is taken from the 16 bytes in front of the process's region.\<close>

theorem scall_wrap_escapes:
  assumes "table_ok s" and "proc_ptr s = Some cur" and "cur \<in> pids" and "4 \<le> mem_sz (desc s cur)"
    and "mem_ad (desc s cur) \<noteq> 16"
  shows "k_scall ops dst 0xFFFFFFF0 s = sendreceive (sint dst) (mem_ad (desc s cur) - 16) (O_SEND OR O_RECV) s"
proof -
  have cur: "proc_current s = KOk cur"
    using assms(2) table_wfD(2) [OF table_okD(1) [OF assms(1)] assms(3)] by (simp add: proc_current_def)
  have m: "3 AND (0xFFFFFFF0 :: u32) = 0" "(0xFFFFFFF0 :: u32) + MSG_SIZE = 4" by (simp_all add: MSG_SIZE_def)
  have n: "(0xFFFFFFF0 :: u32) = - 16" by simp
  have "va_to_pa cur 0xFFFFFFF0 MSG_SIZE s = KOk (mem_ad (desc s cur) - 16)"
    using assms(3,4) unfolding va_to_pa_def m(2) by (simp add: entry_pids n not_less [symmetric])
  moreover have "mem_ad (desc s cur) - 16 \<noteq> 0" using assms(5) by simp
  ultimately show ?thesis using cur m(1) by (simp add: k_scall_def)
qed

theorem scall_wrap_escapes_witness:
  "\<exists>s q. reachable s \<and> proc_ptr s = Some q \<and> user_proc s q \<and>
     k_scall 3 0 0xFFFFFFF0 s = sendreceive 0 (mem_ad (desc s q) - 16) (O_SEND OR O_RECV) s \<and>
     mem_ad (desc s q) - 16 \<notin> region (mem_ad (desc s q)) (unat (mem_sz (desc s q)))"
proof -
  obtain s q where s: "reachable s" "user_proc s q" "mem_sz (desc s q) = 32" "in_call s q" using demo_fork by blast
  have p: "q \<in> pids" "p_state (desc s q) = ST_BLOCKED" using s(4) by (simp_all add: in_call_def)
  obtain s1 where s1: "proc_sig q SIGALRM s = KOk s1" "p_state (desc s1 q) = ST_READY" "mem_sz (desc s1 q) = 32"
    "uid (desc s1 q) = uid (desc s q)"
    using proc_sig_ok [OF kernel_invD(1) [OF reachable_kernel_inv [OF s(1)]] p(1), of SIGALRM] p(2) s(3) by auto
  have r1: "reachable s1" by (rule reachable.step [OF s(1)], rule kstep.sig [OF p(1) s1(1)])
  have "q \<in> st_set s1 ST_READY" using p(1) s1(2) by simp
  note r = reach_schedule(2) [OF r1 this]
  let ?s = "dispatch q s1"
  have u: "user_proc ?s q" using s(2) s1(2,4) by (simp add: user_proc_def)
  have "region_ok ?s q (mem_ad (desc ?s q)) (mem_sz (desc ?s q))"
    using regions_okD [OF kernel_invD(3) [OF reachable_kernel_inv [OF r]] u] by simp
  then obtain b where b: "mem_ad (desc ?s q) = push_bit 12 (of_nat b)" "64 \<le> b" "b < 512"
    by (rule region_okE) (metis that order_less_le_trans less_add_same_cancel1 zero_less_numeral zero_less_power)
  have ua: "unat (mem_ad (desc ?s q)) = b * 4096" using b by (simp add: unat_push_bit unat_of_nat)
  then have n16: "mem_ad (desc ?s q) \<noteq> 16" using b(2) by auto
  have "mem_ad (desc ?s q) - 16 \<notin> region (mem_ad (desc ?s q)) 32"
  proof
    assume "mem_ad (desc ?s q) - 16 \<in> region (mem_ad (desc ?s q)) 32"
    then obtain i where i: "i < 32" "mem_ad (desc ?s q) - 16 = mem_ad (desc ?s q) + of_nat i" by (auto simp: region_def)
    then have "(of_nat i :: u32) = - 16" by (metis add_left_cancel diff_conv_add_uminus)
    then have "unat (of_nat i :: u32) = unat (- 16 :: u32)" by simp
    with i(1) show False by (simp add: unat_of_nat)
  qed
  with scall_wrap_escapes [OF kernel_invD(1) [OF reachable_kernel_inv [OF r]] _ p(1) _ n16, of 3 0] r u s1(3) show ?thesis
    by (intro exI [of _ ?s] exI [of _ q]) simp
qed

end
