(* ===== verification/MemBytes.thy ===== *)
theory MemBytes
  imports Prelude
begin

text \<open>
  Lists of bytes in the physical memory: \<open>holds r a bs\<close> says that the bytes \<open>bs\<close> lie at \<open>a\<close>, and the
  lemmas split regions and read 16- and 32-bit big endian values from them; the string functions on memory.
\<close>

definition holds :: "ram \<Rightarrow> u32 \<Rightarrow> u8 list \<Rightarrow> bool" where
  "holds r a bs \<longleftrightarrow> (\<forall>i < length bs. r (a + of_nat i) = bs ! i)"

lemma holds_Nil [simp]: "holds r a []"
  by (simp add: holds_def)

lemma all_less_add: "(\<forall>i < m + n. P i) \<longleftrightarrow> (\<forall>i < m. P i) \<and> (\<forall>i < n. P (m + i))" for m n :: nat
proof
  assume r: "(\<forall>i < m. P i) \<and> (\<forall>i < n. P (m + i))"
  show "\<forall>i < m + n. P i"
  proof (intro allI impI)
    fix i assume "i < m + n"
    then show "P i" using r by (cases "i < m") (auto simp: not_less le_iff_add)
  qed
qed simp

lemma holds_append: "holds r a (xs @ ys) \<longleftrightarrow> holds r a xs \<and> holds r (a + of_nat (length xs)) ys"
  by (simp add: holds_def all_less_add nth_append add.assoc)

lemma holds_same:
  assumes "holds r a bs" and "\<And>x. x \<in> region a (length bs) \<Longrightarrow> r' x = r x"
  shows "holds r' a bs"
  unfolding holds_def
proof (intro allI impI)
  fix i assume "i < length bs"
  with assms(1) assms(2) [OF region_offset [OF this]] show "r' (a + of_nat i) = bs ! i" by (simp add: holds_def)
qed

lemma region_split: "region a (n + m) = region a n \<union> region (a + of_nat n) m"
proof (intro equalityI subsetI)
  fix x assume "x \<in> region a (n + m)"
  then obtain i where i: "i < n + m" "x = a + of_nat i" by (auto simp: region_def)
  show "x \<in> region a n \<union> region (a + of_nat n) m"
  proof (cases "i < n")
    case True
    with i show ?thesis by (simp add: region_offset)
  next
    case False
    then obtain j where "i = n + j" by (auto simp: not_less le_iff_add)
    with i region_offset [of j m "a + of_nat n"] show ?thesis by (simp add: add.assoc)
  qed
next
  fix x assume "x \<in> region a n \<union> region (a + of_nat n) m"
  moreover have "region (a + of_nat 0) n \<subseteq> region a (n + m)" "region (a + of_nat n) m \<subseteq> region a (n + m)"
    by (rule region_sub; simp)+
  ultimately show "x \<in> region a (n + m)" by auto
qed

lemma region_tail: "n + m \<le> 2 ^ 32 \<Longrightarrow> region a n \<inter> region (a + of_nat n) m = {}"
proof (rule ccontr)
  assume le: "n + m \<le> 2 ^ 32" and "region a n \<inter> region (a + of_nat n) m \<noteq> {}"
  then obtain i j where "i < n" "j < m" "a + of_nat i = a + of_nat (n + j)" by (auto simp: region_def add.assoc)
  with of_nat_add_inj [OF this(3)] le show False by simp
qed

lemma in_region: "x \<in> region a n \<Longrightarrow> \<exists>i < n. x = a + of_nat i"
  by (auto simp: region_def)

definition be16 :: "u8 list \<Rightarrow> nat \<Rightarrow> u16" where
  "be16 bs i = push_bit 8 (ucast (bs ! i)) OR ucast (bs ! Suc i)"

definition be32 :: "u8 list \<Rightarrow> nat \<Rightarrow> u32" where
  "be32 bs i = push_bit 24 (ucast (bs ! i)) OR push_bit 16 (ucast (bs ! Suc i)) OR
     push_bit 8 (ucast (bs ! Suc (Suc i))) OR ucast (bs ! Suc (Suc (Suc i)))"

lemma holdsD: "holds r a bs \<Longrightarrow> i < length bs \<Longrightarrow> r (a + of_nat i) = bs ! i"
  by (simp add: holds_def)

lemma load32_holds:
  assumes "holds r a bs" and "i + 4 \<le> length bs"
  shows "load32 r (a + of_nat i) = be32 bs i"
proof -
  have e: "a + of_nat i + 1 = a + of_nat (Suc i)" "a + of_nat i + 2 = a + of_nat (Suc (Suc i))"
    "a + of_nat i + 3 = a + of_nat (Suc (Suc (Suc i)))" by (simp_all add: algebra_simps)
  show ?thesis unfolding load32_def be32_def e
    using holdsD [OF assms(1), of i] holdsD [OF assms(1), of "Suc i"] holdsD [OF assms(1), of "Suc (Suc i)"]
      holdsD [OF assms(1), of "Suc (Suc (Suc i))"] assms(2) by simp
qed

lemma load16_holds:
  assumes "holds r a bs" and "i + 2 \<le> length bs"
  shows "load16 r (a + of_nat i) = be16 bs i"
proof -
  have e: "a + of_nat i + 1 = a + of_nat (Suc i)" by (simp add: algebra_simps)
  show ?thesis unfolding load16_def be16_def e
    using holdsD [OF assms(1), of i] holdsD [OF assms(1), of "Suc i"] assms(2) by simp
qed

lemma memcpy_holds:
  assumes "holds r src bs" and "length bs = n" and "region dst n \<inter> region src n = {}" and "n \<le> 2 ^ 32"
  shows "holds (memcpy r dst src n) dst bs"
  using assms by (auto simp: holds_def memcpy_disjoint)

section \<open>Stores\<close>

lemma store32_outside: "x \<notin> region a 4 \<Longrightarrow> store32 r a v x = r x"
  by (simp add: store32_def region_4)

lemma bytes_of_u32:
  "push_bit 24 (ucast (ucast (drop_bit 24 v) :: u8)) OR push_bit 16 (ucast (ucast (drop_bit 16 v) :: u8)) OR
     push_bit 8 (ucast (ucast (drop_bit 8 v) :: u8)) OR ucast (ucast v :: u8) = (v :: u32)"
proof (rule bit_word_eqI)
  fix n assume "n < LENGTH(32)"
  then have n: "n < 32" by simp
  have c: "n < 8 \<or> 8 \<le> n \<and> n < 16 \<or> 16 \<le> n \<and> n < 24 \<or> 24 \<le> n" by linarith
  show "bit (push_bit 24 (ucast (ucast (drop_bit 24 v) :: u8)) OR push_bit 16 (ucast (ucast (drop_bit 16 v) :: u8)) OR
     push_bit 8 (ucast (ucast (drop_bit 8 v) :: u8)) OR ucast (ucast v :: u8) :: u32) n = bit v n"
    using c n by (elim disjE conjE) (auto simp: bit_simps)
qed

lemma load32_store32: "load32 (store32 r a v) a = v"
  using bytes_of_u32 [of v] by (simp add: load32_def store32_def)

lemma load32_cong: "(\<And>x. x \<in> region a 4 \<Longrightarrow> r' x = r x) \<Longrightarrow> load32 r' a = load32 r a"
  by (simp add: load32_def region_4)

lemma load32_other: "region a 4 \<inter> region b 4 = {} \<Longrightarrow> load32 (store32 r a v) b = load32 r b"
  by (rule load32_cong) (auto intro: store32_outside)

text \<open>The \<open>i\<close>-th word of a table does not touch what lies before or behind it.\<close>

lemma word_in_table: "i < n \<Longrightarrow> region (a + 4 * of_nat i) 4 \<subseteq> region a (4 * n)"
  using region_sub [of 4 "4 * i" "4 * n" a] by simp

section \<open>Null-terminated tables and strings\<close>

text \<open>A null-terminated table of words at \<open>a\<close>.\<close>

definition table :: "ram \<Rightarrow> u32 \<Rightarrow> u32 list \<Rightarrow> bool" where
  "table r a ws \<longleftrightarrow> (\<forall>i < length ws. load32 r (a + 4 * of_nat i) = ws ! i \<and> ws ! i \<noteq> 0) \<and>
     load32 r (a + 4 * of_nat (length ws)) = 0"

lemma table_Nil: "table r a [] \<longleftrightarrow> load32 r a = 0"
  by (simp add: table_def)

lemma table_Cons: "table r a (w # ws) \<longleftrightarrow> load32 r a = w \<and> w \<noteq> 0 \<and> table r (a + 4) ws"
  by (auto simp: table_def All_less_Suc2 algebra_simps)

lemma table_cong:
  assumes "\<And>x. x \<in> region a (4 * Suc (length ws)) \<Longrightarrow> r' x = r x"
  shows "table r' a ws = table r a ws"
proof -
  have "load32 r' (a + 4 * of_nat i) = load32 r (a + 4 * of_nat i)" if "i < Suc (length ws)" for i
    by (rule load32_cong) (use word_in_table [OF that] assms in blast)
  then show ?thesis by (simp add: table_def)
qed

text \<open>The string \<open>xs\<close> and its null byte at \<open>a\<close>.\<close>

definition str_at :: "ram \<Rightarrow> u32 \<Rightarrow> u8 list \<Rightarrow> bool" where
  "str_at r a xs \<longleftrightarrow> holds r a (xs @ [0]) \<and> 0 \<notin> set xs"

lemma str_at_Nil: "str_at r a [] \<longleftrightarrow> r a = 0"
  by (simp add: str_at_def holds_def)

lemma str_at_Cons: "str_at r a (x # xs) \<longleftrightarrow> x \<noteq> 0 \<and> r a = x \<and> str_at r (a + 1) xs"
  using holds_append [of r a "[x]" "xs @ [0]"] by (auto simp: str_at_def holds_def [of _ _ "[x]"])

lemma str_at_cong:
  "str_at r a xs \<Longrightarrow> (\<And>x. x \<in> region a (Suc (length xs)) \<Longrightarrow> r' x = r x) \<Longrightarrow> str_at r' a xs"
  unfolding str_at_def by (auto elim!: holds_same)

section \<open>Strings and writes\<close>

text \<open>\<open>strlen\<close> of a string in memory; \<open>None\<close> when there is no null byte in the whole memory.\<close>

partial_function (option) ram_strlen :: "ram \<Rightarrow> u32 \<Rightarrow> u32 \<Rightarrow> u32 option" where
  "ram_strlen r a n = (if r a = 0 then Some n else ram_strlen r (a + 1) (n + 1))"

partial_function (option) ram_strcpy :: "ram \<Rightarrow> u32 \<Rightarrow> u32 \<Rightarrow> ram option" where
  "ram_strcpy r dst src =
     (if r src \<noteq> 0 then ram_strcpy (r(dst := r src)) (dst + 1) (src + 1) else Some (r(dst := 0)))"

text \<open>The characters of the string at \<open>a\<close>, without the null byte.\<close>

partial_function (option) ram_str :: "ram \<Rightarrow> u32 \<Rightarrow> u8 list option" where
  "ram_str r a = (if r a = 0 then Some [] else Option.bind (ram_str r (a + 1)) (\<lambda>xs. Some (r a # xs)))"

text \<open>A list of bytes written to memory.\<close>

definition put_bytes :: "ram \<Rightarrow> u32 \<Rightarrow> u8 list \<Rightarrow> ram" where
  "put_bytes r b xs = (\<lambda>a. if unat (a - b) < length xs then xs ! unat (a - b) else r a)"

lemma put_holds: "length xs < 2 ^ 32 \<Longrightarrow> holds (put_bytes r b xs) b xs"
  by (auto simp: holds_def put_bytes_def unat_of_nat)

lemma put_outside: "a \<notin> region b (length xs) \<Longrightarrow> put_bytes r b xs a = r a"
proof -
  assume "a \<notin> region b (length xs)"
  moreover have "a = b + of_nat (unat (a - b))" by simp
  ultimately have "\<not> unat (a - b) < length xs" by (metis region_offset)
  then show ?thesis by (simp add: put_bytes_def)
qed

end
