(* ===== verification/Msg.thy ===== *)
theory Msg
  imports Proc MemBytes
begin

text \<open>
  The requests of the kernel to the file system task, software/system/kernel/msg.c. A request and
  its answer are one exchange, \<open>sendreceive(vfs_pid, msg, O_SEND | O_RECV)\<close> and the value of
  \<open>msg->body.s32\<close> after it: what the other tasks do to the kernel state until the answer is there,
  the bytes the file system puts into a buffer included, is the argument \<open>exch\<close>.
\<close>

section \<open>Requests\<close>

datatype vfs_request =
    OPEN (pathname: u32) (len: u16) (flags: u16)
  | CLOSE (fd: int)
  | READ (fd: int) (buf: u32) (count: u32)
  | LSEEK (fd: int) (offset: u32) (whence: int)
  | GETDENTS (fd: int) (dirp: u32) (count: u32)
  | VFS_SYSDIR (sys_pid: u32)
  | MOUNT (mount_dev: "u8 list") (path_to: "u8 list") (fs_type: "u8 list")
  | VFS_FORK (fork_parent: pid) (fork_child: pid)
  | VFS_KILL (kill_pid: u32)

type_synonym 's exchange = "pid \<Rightarrow> vfs_request \<Rightarrow> 's \<Rightarrow> (int \<times> 's) kres"

definition vfs_name :: "u8 list" where
  "vfs_name = [118, 102, 115, 0]"

definition ask_vfs ::
    "'a kstate_scheme exchange \<Rightarrow> vfs_request \<Rightarrow> 'a kstate_scheme \<Rightarrow> (int \<times> 'a kstate_scheme) kres" where
  "ask_vfs exch req s = kbind (proc_get_pid vfs_name s) (\<lambda>vfs_pid. exch vfs_pid req s)"

definition sendreceive_vfs_open ::
    "'a kstate_scheme exchange \<Rightarrow> u32 \<Rightarrow> u16 \<Rightarrow> 'a kstate_scheme \<Rightarrow> (int \<times> 'a kstate_scheme) kres" where
  "sendreceive_vfs_open exch path fl s =
     (case ram_strlen (ram s) path 0 of
        None \<Rightarrow> KHang
      | Some n \<Rightarrow> ask_vfs exch (OPEN path (ucast n) fl) s)"

definition sendreceive_vfs_close ::
    "'a kstate_scheme exchange \<Rightarrow> int \<Rightarrow> 'a kstate_scheme \<Rightarrow> (int \<times> 'a kstate_scheme) kres" where
  "sendreceive_vfs_close exch f s = ask_vfs exch (CLOSE f) s"

text \<open>
  The loop of \<open>sendreceive_vfs_read\<close>: requests for what is left until everything is read or an answer
  is not positive. \<open>did\<close> is the number of bytes read so far; the callers ask for at most 1024 bytes,
  so the 32-bit sum \<open>did + r\<close> of the code does not wrap.
\<close>

function vfs_read_loop ::
    "'a kstate_scheme exchange \<Rightarrow> pid \<Rightarrow> int \<Rightarrow> u32 \<Rightarrow> nat \<Rightarrow> nat \<Rightarrow> 'a kstate_scheme \<Rightarrow> (nat \<times> 'a kstate_scheme) kres" where
  "vfs_read_loop exch vfs_pid f cbuf cnt did s =
     (if did < cnt then
        kbind (exch vfs_pid (READ f cbuf (of_nat (cnt - did))) s) (\<lambda>(r, s1).
        if r \<le> 0 then KOk (did, s1)
        else vfs_read_loop exch vfs_pid f (cbuf + of_nat (nat r)) cnt (did + nat r) s1)
      else KOk (did, s))"
  by pat_completeness auto
termination by (relation "measure (\<lambda>(_, _, _, _, cnt, did, _). cnt - did)") auto

declare vfs_read_loop.simps [simp del]

definition sendreceive_vfs_read ::
    "'a kstate_scheme exchange \<Rightarrow> int \<Rightarrow> u32 \<Rightarrow> nat \<Rightarrow> 'a kstate_scheme \<Rightarrow> (nat \<times> 'a kstate_scheme) kres" where
  "sendreceive_vfs_read exch f b cnt s =
     kbind (proc_get_pid vfs_name s) (\<lambda>vfs_pid. vfs_read_loop exch vfs_pid f b cnt 0 s)"

definition sendreceive_vfs_lseek ::
    "'a kstate_scheme exchange \<Rightarrow> int \<Rightarrow> u32 \<Rightarrow> int \<Rightarrow> 'a kstate_scheme \<Rightarrow> (int \<times> 'a kstate_scheme) kres" where
  "sendreceive_vfs_lseek exch f off wh s = ask_vfs exch (LSEEK f off wh) s"

definition sendreceive_vfs_getdents ::
    "'a kstate_scheme exchange \<Rightarrow> int \<Rightarrow> u32 \<Rightarrow> u32 \<Rightarrow> 'a kstate_scheme \<Rightarrow> (int \<times> 'a kstate_scheme) kres" where
  "sendreceive_vfs_getdents exch f dp cnt s = ask_vfs exch (GETDENTS f dp cnt) s"

definition sendreceive_vfs_sysdir ::
    "'a kstate_scheme exchange \<Rightarrow> pid \<Rightarrow> 'a kstate_scheme \<Rightarrow> 'a kstate_scheme kres" where
  "sendreceive_vfs_sysdir exch p s = kbind (ask_vfs exch (VFS_SYSDIR (word_of_int p)) s) (\<lambda>(_, s1). KOk s1)"

end
