(* ===== verification/Exec.thy ===== *)
theory Exec
  imports Msg Kernel
begin

text \<open>
  Program execution: \<open>proc_exec\<close> of software/system/kernel/proc.c. The executable is read through
  the file system task into the static buffer \<open>pa_buf\<close> at the address \<open>pb\<close>; the arguments and the
  environment have been copied by the system task to \<open>av\<close>, with the offsets of the strings where
  the pointers go.
\<close>

section \<open>The ELF header\<close>

definition PA_BUF_LEN :: u32 where "PA_BUF_LEN = 1024"
definition O_RDONLY :: u16 where "O_RDONLY = 1"
definition SEEK_SET :: int where "SEEK_SET = 0"

text \<open>Magic number, 32 bits, big endian, executable, Motorola 68000.\<close>

definition elf_ok :: "ram \<Rightarrow> u32 \<Rightarrow> bool" where
  "elf_ok r pb \<longleftrightarrow>
     r pb = 0x7f \<and> r (pb + 1) = 0x45 \<and> r (pb + 2) = 0x4c \<and> r (pb + 3) = 0x46 \<and>
     r (pb + 4) = 1 \<and> r (pb + 5) = 2 \<and> load16 r (pb + 16) = 2 \<and> load16 r (pb + 18) = 4"

section \<open>Loading a segment\<close>

text \<open>A file chunk of at most the size of the buffer at a time; \<open>False\<close> is the jump to \<open>exit_error\<close>.\<close>

function exec_chunks ::
    "'a kstate_scheme exchange \<Rightarrow> u32 \<Rightarrow> pid \<Rightarrow> int \<Rightarrow> u32 \<Rightarrow> u32 \<Rightarrow> 'a kstate_scheme \<Rightarrow> (bool \<times> 'a kstate_scheme) kres" where
  "exec_chunks exch pb p f vaddr filesz s =
     (if filesz = 0 then KOk (True, s)
      else let ln = (if filesz > PA_BUF_LEN then PA_BUF_LEN else filesz) in
        kbind (sendreceive_vfs_read exch f pb (unat ln) s) (\<lambda>(r, s1).
        if r \<noteq> unat ln then KOk (False, s1)
        else kbind (copy_to_user p vaddr pb (unat ln) s1)
               (\<lambda>s2. exec_chunks exch pb p f (vaddr + ln) (filesz - ln) s2)))"
  by pat_completeness auto
termination
  by (relation "measure (\<lambda>(_, _, _, _, _, fs, _). unat fs)")
    (auto simp: PA_BUF_LEN_def word_less_nat_alt unat_sub_if' unat_gt_0)

declare exec_chunks.simps [simp del]

text \<open>More memory for a segment that does not fit; \<open>False\<close> when there is none.\<close>

definition exec_grow :: "pid \<Rightarrow> u32 \<Rightarrow> 'a kstate_scheme \<Rightarrow> (bool \<times> 'a kstate_scheme) kres" where
  "exec_grow p hiad s =
     (if hiad > mem_sz (desc s p) then
        kbind (mem_realloc p (mem_ad (desc s p)) (mem_sz (desc s p)) hiad s) (\<lambda>(new_ad, s1).
        if new_ad = 0 then KOk (False, s1)
        else KOk (True, upd_desc p (\<lambda>d. d\<lparr>mem_ad := new_ad, mem_sz := ALIGN32 hiad\<rparr>) s1))
      else KOk (True, s))"

text \<open>One program header, the \<open>ph\<close>-th; the first component is \<open>used_mem_hi\<close>, \<open>None\<close> after \<open>exit_error\<close>.\<close>

definition exec_segment ::
    "'a kstate_scheme exchange \<Rightarrow> u32 \<Rightarrow> pid \<Rightarrow> int \<Rightarrow> u32 \<Rightarrow> u16 \<Rightarrow> u32 \<Rightarrow> 'a kstate_scheme \<Rightarrow>
     (u32 option \<times> 'a kstate_scheme) kres" where
  "exec_segment exch pb p f phoff ph hi s =
     kbind (sendreceive_vfs_lseek exch f (phoff + 0x20 * ucast ph) SEEK_SET s) (\<lambda>(_, s1).
     kbind (sendreceive_vfs_read exch f pb 0x20 s1) (\<lambda>(n, s2).
     if n \<noteq> 0x20 then KOk (None, s2)
     else
       let ty = load32 (ram s2) pb; off = load32 (ram s2) (pb + 4); vaddr = load32 (ram s2) (pb + 8);
           filesz = load32 (ram s2) (pb + 16); memsz = load32 (ram s2) (pb + 20)
       in kbind (exec_grow p (vaddr + memsz) s2) (\<lambda>(ok, s3).
          if \<not> ok then KOk (None, s3)
          else
            let hi1 = (if vaddr + memsz > hi then ALIGN32 (vaddr + memsz) else hi) in
            if filesz = 0 then KOk (Some hi1, s3)
            else if ty = 1 then
              kbind (sendreceive_vfs_lseek exch f off SEEK_SET s3) (\<lambda>(_, s4).
              kbind (exec_chunks exch pb p f vaddr filesz s4) (\<lambda>(ok', s5).
              KOk (if ok' then Some hi1 else None, s5)))
            else KOk (Some hi1, s3))))"

fun exec_segments ::
    "'a kstate_scheme exchange \<Rightarrow> u32 \<Rightarrow> pid \<Rightarrow> int \<Rightarrow> u32 \<Rightarrow> nat list \<Rightarrow> u32 \<Rightarrow> 'a kstate_scheme \<Rightarrow>
     (u32 option \<times> 'a kstate_scheme) kres" where
  "exec_segments exch pb p f phoff [] hi s = KOk (Some hi, s)"
| "exec_segments exch pb p f phoff (ph # phs) hi s =
     kbind (exec_segment exch pb p f phoff (of_nat ph) hi s) (\<lambda>(r, s1).
     case r of None \<Rightarrow> KOk (None, s1) | Some hi1 \<Rightarrow> exec_segments exch pb p f phoff phs hi1 s1)"

section \<open>Arguments\<close>

text \<open>The offsets of a null-terminated table become addresses; the count is that of \<open>argc\<close>.\<close>

partial_function (option) exec_reloc :: "ram \<Rightarrow> u32 \<Rightarrow> u32 \<Rightarrow> u16 \<Rightarrow> (ram \<times> u16) option" where
  "exec_reloc r a va n =
     (if load32 r a = 0 then Some (r, n) else exec_reloc (store32 r a (load32 r a + va)) (a + 4) va (n + 1))"

text \<open>The bytes a \<open>strncpy\<close> of at most 15 can read.\<close>

definition name_bytes :: "ram \<Rightarrow> u32 \<Rightarrow> u8 list" where
  "name_bytes r a = map (\<lambda>i. r (a + of_nat i)) [0..<15]"

text \<open>What follows the loading of the segments: arguments, registers, name.\<close>

definition exec_finish ::
    "pid \<Rightarrow> u32 \<Rightarrow> u16 \<Rightarrow> u16 \<Rightarrow> u32 \<Rightarrow> u32 \<Rightarrow> u32 \<Rightarrow> 'a kstate_scheme \<Rightarrow> (bool \<times> 'a kstate_scheme) kres" where
  "exec_finish p av alen eoff entry_pc argv0 hi s =
     (let new_size = hi + ALIGN32 (ucast alen) in
      kbind (mem_realloc p (mem_ad (desc s p)) (mem_sz (desc s p)) new_size s) (\<lambda>(new_ad, s1).
      let s2 = upd_desc p (\<lambda>d. d\<lparr>mem_ad := new_ad, mem_sz := new_size\<rparr>) s1 in
      if new_ad = 0 then KOk (False, s2)
      else case exec_reloc (ram s2) av hi 0 of None \<Rightarrow> KHang
      | Some (r3, argc) \<Rightarrow>
          (case (if eoff \<noteq> 0 then map_option fst (exec_reloc r3 (av + ucast eoff) hi 0) else Some r3) of
             None \<Rightarrow> KHang
           | Some r4 \<Rightarrow>
               let va_envp = (if eoff \<noteq> 0 then hi + ucast eoff else 0) in
               kbind (copy_to_user p hi av (unat (ALIGN32 (ucast alen))) (s2\<lparr>ram := r4\<rparr>)) (\<lambda>s5.
               case strncpy (p_name (desc s5 p)) (name_bytes (ram s5) argv0) 15 of
                 None \<Rightarrow> KFault
               | Some nm \<Rightarrow>
                   KOk (True, upd_desc p (\<lambda>d. d\<lparr>p_name := nm, pc := entry_pc,
                     a_regs := (a_regs d)(0 := ucast argc, 1 := hi, 2 := va_envp,
                       3 := (if eoff \<noteq> 0 then ucast alen - ucast eoff else 0), 7 := 0xffffffff)\<rparr>) s5)))))"

section \<open>The operation\<close>

definition exec_image ::
    "'a kstate_scheme exchange \<Rightarrow> u32 \<Rightarrow> pid \<Rightarrow> u32 \<Rightarrow> u16 \<Rightarrow> u16 \<Rightarrow> u32 \<Rightarrow> int \<Rightarrow> 'a kstate_scheme \<Rightarrow>
     (bool \<times> 'a kstate_scheme) kres" where
  "exec_image exch pb p av alen eoff argv0 f s =
     kbind (sendreceive_vfs_read exch f pb 0x34 s) (\<lambda>(n, s1).
     if n \<noteq> 0x34 then KOk (False, s1)
     else if \<not> elf_ok (ram s1) pb then KOk (False, s1)
     else
       let e_entry = load32 (ram s1) (pb + 0x18); e_phoff = load32 (ram s1) (pb + 0x1C);
           e_phnum = load16 (ram s1) (pb + 0x2C)
       in entry p (\<lambda>q.
          kbind (exec_segments exch pb q f e_phoff [0..<unat e_phnum] 0 s1) (\<lambda>(r, s2).
          case r of None \<Rightarrow> KOk (False, s2)
          | Some hi \<Rightarrow> exec_finish q av alen eoff e_entry argv0 hi s2)))"

definition proc_exec ::
    "'a kstate_scheme exchange \<Rightarrow> u32 \<Rightarrow> pid \<Rightarrow> u32 \<Rightarrow> u16 \<Rightarrow> u16 \<Rightarrow> 'a kstate_scheme \<Rightarrow>
     (int \<times> 'a kstate_scheme) kres" where
  "proc_exec exch pb p av alen eoff s =
     (let argv0 = av + load32 (ram s) av in
      kbind (sendreceive_vfs_sysdir exch p s) (\<lambda>s1.
      kbind (sendreceive_vfs_open exch argv0 O_RDONLY s1) (\<lambda>(f, s2).
      kbind (sendreceive_vfs_sysdir exch PROC_PID_SYSTEM_TASK s2) (\<lambda>s3.
      if f < 0 then KOk (- 1, s3)
      else
        kbind (exec_image exch pb p av alen eoff argv0 f s3) (\<lambda>(ok, s4).
        kbind (sendreceive_vfs_close exch f s4) (\<lambda>(_, s5).
        KOk (if ok then 0 else - 1, s5)))))))"

end
