(* ===== verification/Errno.thy ===== *)
theory Errno
  imports Main
begin

text \<open>
  The error numbers of software/system/include/errno.h the kernel answers with (as negative values).
\<close>

definition EPERM :: int where "EPERM = 1"
definition ENOENT :: int where "ENOENT = 2"
definition EACCES :: int where "EACCES = 5"
definition EBADF :: int where "EBADF = 9"
definition ENOTBLK :: int where "ENOTBLK = 15"
definition EBUSY :: int where "EBUSY = 16"
definition ENODEV :: int where "ENODEV = 19"
definition ENOTDIR :: int where "ENOTDIR = 20"
definition EISDIR :: int where "EISDIR = 21"
definition EINVAL :: int where "EINVAL = 22"
definition EMFILE :: int where "EMFILE = 24"
definition ENOTTY :: int where "ENOTTY = 25"
definition EROFS :: int where "EROFS = 30"
definition ENAMETOOLONG :: int where "ENAMETOOLONG = 36"

definition EFAULT :: int where "EFAULT = 14"
definition E2BIG :: int where "E2BIG = 7"

end
