(* ===== verification/ExecBuf.thy ===== *)
theory ExecBuf
  imports Exec MemBytes Errno
begin

text \<open>
  The copy of the arguments and the environment of an EXEC call into the kernel,
  \<open>_copy_argv_envp\<close> of software/system/kernel/system.c: a table of offsets and the strings behind it,
  both for \<open>argv\<close> and for \<open>envp\<close>, in the 1024 bytes of \<open>_k_exec_buf\<close> at the address \<open>kb\<close>.
\<close>

section \<open>Constants\<close>

definition EXEC_BUF_SIZE :: nat where "EXEC_BUF_SIZE = 1024"

section \<open>The pointers of the caller\<close>

text \<open>
  The first loop: the entries of \<open>argv\<close>, translated, go to the table in the kernel. \<open>Inl\<close> is an
  early \<open>return\<close>, \<open>Inr\<close> the number of entries.
\<close>

function argv_pointers ::
    "pid \<Rightarrow> u32 \<Rightarrow> u32 \<Rightarrow> nat \<Rightarrow> 'a kstate_scheme \<Rightarrow> ((int + nat) \<times> 'a kstate_scheme) kres" where
  "argv_pointers p va_argv pa_argv argc s =
     kbind (va_to_pa p va_argv 4 s) (\<lambda>pa_parg.
     if pa_parg = 0 then KOk (Inl (- EFAULT), s)
     else let va_arg = load32 (ram s) pa_parg in
       if va_arg = 0 then KOk (Inr argc, s\<lparr>ram := store32 (ram s) pa_argv 0\<rparr>)
       else kbind (va_to_pa p va_arg 4 s) (\<lambda>pa_arg.
         if pa_arg = 0 then KOk (Inl (- EFAULT), s)
         else let s1 = s\<lparr>ram := store32 (ram s) pa_argv pa_arg\<rparr> in
           if argc + 1 \<ge> EXEC_BUF_SIZE div 4 then KOk (Inl (- E2BIG), s1)
           else argv_pointers p (va_argv + 4) (pa_argv + 4) (argc + 1) s1))"
  by pat_completeness auto
termination
  by (relation "measure (\<lambda>(_, _, _, argc, _). EXEC_BUF_SIZE div 4 - argc)") auto

declare argv_pointers.simps [simp del]

text \<open>The same for \<open>envp\<close>; here \<open>ln\<close> counts the bytes and is checked after the entry has been written.\<close>

function envp_pointers ::
    "pid \<Rightarrow> u32 \<Rightarrow> u32 \<Rightarrow> nat \<Rightarrow> 'a kstate_scheme \<Rightarrow> ((int + nat) \<times> 'a kstate_scheme) kres" where
  "envp_pointers p va_envp pa_envp ln s =
     kbind (va_to_pa p va_envp 4 s) (\<lambda>pa_penv.
     if pa_penv = 0 then KOk (Inl (- EFAULT), s)
     else let va_env = load32 (ram s) pa_penv in
       if va_env = 0 then KOk (Inr (ln + 4), s\<lparr>ram := store32 (ram s) pa_envp 0\<rparr>)
       else kbind (va_to_pa p va_env 4 s) (\<lambda>pa_env.
         if pa_env = 0 then KOk (Inl (- EFAULT), s)
         else let s1 = s\<lparr>ram := store32 (ram s) pa_envp pa_env\<rparr> in
           if ln + 4 \<ge> EXEC_BUF_SIZE then KOk (Inl (- E2BIG), s1)
           else envp_pointers p (va_envp + 4) (pa_envp + 4) (ln + 4) s1))"
  by pat_completeness auto
termination
  by (relation "measure (\<lambda>(_, _, _, ln, _). EXEC_BUF_SIZE - ln)") auto

declare envp_pointers.simps [simp del]

section \<open>The strings\<close>

text \<open>
  The loop over a table of addresses: each string is appended at the offset \<open>ln\<close> and its offset
  replaces its address. The length of a string is kept in 16 bits.
\<close>

function copy_strings :: "u32 \<Rightarrow> u32 \<Rightarrow> nat \<Rightarrow> 'a kstate_scheme \<Rightarrow> ((int + nat) \<times> 'a kstate_scheme) kres" where
  "copy_strings kb pa_argv ln s =
     (let pa_arg = load32 (ram s) pa_argv in
      if pa_arg = 0 then KOk (Inr ln, s)
      else case ram_strlen (ram s) pa_arg 0 of
        None \<Rightarrow> KHang
      | Some n \<Rightarrow>
          let alen = unat (ucast n :: u16) in
          if ln + alen < EXEC_BUF_SIZE then
            (case ram_strcpy (ram s) (kb + of_nat ln) pa_arg of
               None \<Rightarrow> KHang
             | Some r1 \<Rightarrow>
                 copy_strings kb (pa_argv + 4) (ln + (alen + 1)) (s\<lparr>ram := store32 r1 pa_argv (of_nat ln)\<rparr>))
          else KOk (Inl (- E2BIG), s))"
  by pat_completeness auto
termination
  by (relation "measure (\<lambda>(_, _, ln, _). EXEC_BUF_SIZE - ln)") auto

declare copy_strings.simps [simp del]

section \<open>The operation\<close>

text \<open>The result: the status, \<open>*lenp\<close> and \<open>*envoffp\<close> (unchanged from 0 on an early return).\<close>

definition copy_envp ::
    "u32 \<Rightarrow> pid \<Rightarrow> u32 \<Rightarrow> nat \<Rightarrow> 'a kstate_scheme \<Rightarrow> (int \<times> u16 \<times> u16 \<times> 'a kstate_scheme) kres" where
  "copy_envp kb p va_envp ln s =
     (if va_envp \<noteq> 0 then
        kbind (envp_pointers p va_envp (kb + of_nat ln) ln s) (\<lambda>(r, s1).
        case r of Inl e \<Rightarrow> KOk (e, 0, of_nat ln, s1)
        | Inr ln1 \<Rightarrow>
            kbind (copy_strings kb (kb + of_nat ln) ln1 s1) (\<lambda>(r', s2).
            case r' of Inl e \<Rightarrow> KOk (e, 0, of_nat ln, s2)
            | Inr ln2 \<Rightarrow> KOk (0, of_nat ln2, of_nat ln, s2)))
      else KOk (0, of_nat ln, 0, s))"

definition align4 :: "nat \<Rightarrow> nat" where
  "align4 n = 4 * ((n + 3) div 4)"

definition copy_argv_envp ::
    "u32 \<Rightarrow> pid \<Rightarrow> u32 \<Rightarrow> u32 \<Rightarrow> 'a kstate_scheme \<Rightarrow> (int \<times> u16 \<times> u16 \<times> 'a kstate_scheme) kres" where
  "copy_argv_envp kb p va_argv va_envp s =
     kbind (argv_pointers p va_argv kb 0 s) (\<lambda>(r, s1).
     case r of Inl e \<Rightarrow> KOk (e, 0, 0, s1)
     | Inr argc \<Rightarrow>
         kbind (copy_strings kb kb ((argc + 1) * 4) s1) (\<lambda>(r', s2).
         case r' of Inl e \<Rightarrow> KOk (e, 0, 0, s2)
         | Inr ln \<Rightarrow> copy_envp kb p va_envp (align4 ln) s2))"

end
