(* ===== verification/Clock.thy ===== *)
theory Clock
  imports KernelProps
begin

text \<open>
  The clock task of software/system/kernel/clock.c: the time since boot, the wake-up times of the
  sleeping processes, the SLEEP message and the timer interrupt handler that raises SIGALRM. A
  process sleeps in its own \<open>sendreceive\<close> call, waiting for an answer the clock task never sends;
  the alarm ends that call with \<open>EABORT\<close>.
\<close>

section \<open>State and operations\<close>

definition K_TIMER_PERIOD_MS :: u32 where "K_TIMER_PERIOD_MS = 1"
definition SLEEP :: u16 where "SLEEP = 0x0401"

record clock =
  wake_time_ms :: "int \<Rightarrow> u32"
  k_time_ms :: u32

definition clock_now :: "clock \<Rightarrow> u32" where
  "clock_now c = k_time_ms c"

text \<open>The start of \<open>clock_task\<close>; the registration of the handler is in theory \<open>Irq\<close>.\<close>

definition clock_task_init :: "clock \<Rightarrow> clock" where
  "clock_task_init c =
     c\<lparr>wake_time_ms := (\<lambda>p. if 0 \<le> p \<and> p < K_PROC_COUNT then 0 else wake_time_ms c p), k_time_ms := 0\<rparr>"

text \<open>The body of the loop on the message that has been received from \<open>from\<close>.\<close>

definition clock_task_msg :: "pid \<Rightarrow> u16 \<Rightarrow> u32 \<Rightarrow> clock \<Rightarrow> clock kres" where
  "clock_task_msg src ty arg c =
     (if src \<ge> 0 then
        if ty = SLEEP then
          entry src (\<lambda>p. KOk (c\<lparr>wake_time_ms := (wake_time_ms c)
            (p := k_time_ms c + (arg div K_TIMER_PERIOD_MS) * K_TIMER_PERIOD_MS)\<rparr>))
        else KOk c
      else KOk c)"

text \<open>
  One turn of the loop: \<open>receive(ANY, &msg)\<close> with the message at \<open>pa\<close>. When it returns, the
  message is processed; when the task yields, \<open>clock_task_resume\<close> is what it does when it runs again.
\<close>

definition clock_task_turn ::
    "u32 \<Rightarrow> clock \<Rightarrow> 'a kstate_scheme \<Rightarrow> (sr_result \<times> clock \<times> 'a kstate_scheme) kres" where
  "clock_task_turn pa c s =
     kbind (sendreceive PROC_PID_ANY pa O_RECV s) (\<lambda>(r, s1).
     case r of
       SR_return src \<Rightarrow>
         kbind (clock_task_msg src (load16 (ram s1) pa) (load32 (ram s1) (pa + 4)) c) (\<lambda>c1. KOk (r, c1, s1))
     | _ \<Rightarrow> KOk (r, c, s1))"

definition clock_task_resume :: "u32 \<Rightarrow> int \<Rightarrow> clock \<Rightarrow> 'a kstate_scheme \<Rightarrow> clock kres" where
  "clock_task_resume pa self c s =
     clock_task_msg (sr_resume O_RECV (desc s self)) (load16 (ram s) pa) (load32 (ram s) (pa + 4)) c"

text \<open>\<open>_irq_timer_handler\<close>, every \<open>K_TIMER_PERIOD_MS\<close>.\<close>

fun timer_scan :: "int list \<Rightarrow> clock \<Rightarrow> 'a kstate_scheme \<Rightarrow> 'a kstate_scheme kres" where
  "timer_scan [] c s = KOk s"
| "timer_scan (p # ps) c s =
     kbind (if wake_time_ms c p = k_time_ms c then proc_sig p SIGALRM s else KOk s) (timer_scan ps c)"

definition irq_timer_handler :: "clock \<times> 'a kstate_scheme \<Rightarrow> (clock \<times> 'a kstate_scheme) kres" where
  "irq_timer_handler x =
     (let c = (fst x)\<lparr>k_time_ms := k_time_ms (fst x) + K_TIMER_PERIOD_MS\<rparr>
      in kbind (timer_scan [0..K_PROC_COUNT - 1] c (snd x)) (\<lambda>s. KOk (c, s)))"

section \<open>The scan over the alarms\<close>

text \<open>Whom the interrupt wakes: exactly the processes whose time has come.\<close>

definition alarmed :: "clock \<Rightarrow> int \<Rightarrow> bool" where
  "alarmed c p \<longleftrightarrow> wake_time_ms c p = k_time_ms c"

definition woken :: "proc_desc \<Rightarrow> proc_desc \<Rightarrow> bool" where
  "woken d d' \<longleftrightarrow>
     (case p_state d of
        ST_BLOCKED \<Rightarrow> p_state d' = ST_READY \<and> m_from d' = PROC_PID_NONE \<and> m_to d' = PROC_PID_NONE \<and>
          d_regs d' 0 = word_of_int EABORT
      | ST_READY \<Rightarrow> d' = d\<lparr>sig_mask := sig_mask d OR SIGALRM\<rparr>
      | _ \<Rightarrow> d' = d)"

lemma wokenD: "woken d d' \<Longrightarrow> p_state d = ST_BLOCKED \<Longrightarrow> p_state d' = ST_READY \<and> m_from d' = PROC_PID_NONE \<and>
    m_to d' = PROC_PID_NONE \<and> d_regs d' 0 = word_of_int EABORT"
  by (simp add: woken_def)

lemma reachable_alarm:
  assumes "reachable s" and "p \<in> pids"
  shows "\<exists>s'. proc_sig p SIGALRM s = KOk s' \<and> reachable s' \<and> (\<forall>x. x \<noteq> p \<longrightarrow> desc s' x = desc s x) \<and> woken (desc s p) (desc s' p)"
proof -
  from proc_sig_ok [OF kernel_invD(1) [OF reachable_kernel_inv [OF assms(1)]] assms(2), of SIGALRM]
  obtain s' where r: "proc_sig p SIGALRM s = KOk s'" and d: "\<And>x. desc s' x = (if x = p
       then (case p_state (desc s p) of
               ST_BLOCKED \<Rightarrow> (desc s p)\<lparr>m_from := PROC_PID_NONE, m_to := PROC_PID_NONE, p_state := ST_READY,
                               d_regs := (d_regs (desc s p))(0 := word_of_int EABORT)\<rparr>
             | ST_READY \<Rightarrow> (desc s p)\<lparr>sig_mask := sig_mask (desc s p) OR SIGALRM\<rparr>
             | _ \<Rightarrow> desc s p)
       else desc s x)" by blast
  have "reachable s'" by (rule reachable.step [OF assms(1)], rule kstep.sig [OF assms(2) r])
  moreover have "woken (desc s p) (desc s' p)" unfolding woken_def d by (cases "p_state (desc s p)") simp_all
  moreover have "\<forall>x. x \<noteq> p \<longrightarrow> desc s' x = desc s x" by (simp add: d)
  ultimately show ?thesis using r by blast
qed

lemma timer_scan_ok:
  assumes "reachable s" and "distinct ps" and "set ps \<subseteq> pids"
  shows "\<exists>s'. timer_scan ps c s = KOk s' \<and> reachable s' \<and>
    (\<forall>x. if x \<in> set ps \<and> alarmed c x then woken (desc s x) (desc s' x) else desc s' x = desc s x)"
  using assms
proof (induction ps arbitrary: s)
  case Nil
  then show ?case by simp
next
  case (Cons p ps)
  show ?case
  proof (cases "alarmed c p")
    case True
    from Cons.prems(3) have p: "p \<in> pids" by simp
    obtain s1 where s1: "proc_sig p SIGALRM s = KOk s1" "reachable s1" "\<And>x. x \<noteq> p \<Longrightarrow> desc s1 x = desc s x"
      "woken (desc s p) (desc s1 p)"
      using reachable_alarm [OF Cons.prems(1) p] by blast
    obtain s2 where s2: "timer_scan ps c s1 = KOk s2" "reachable s2"
      "\<And>x. if x \<in> set ps \<and> alarmed c x then woken (desc s1 x) (desc s2 x) else desc s2 x = desc s1 x"
      using Cons.IH [OF s1(2)] Cons.prems by auto
    have "if x \<in> set (p # ps) \<and> alarmed c x then woken (desc s x) (desc s2 x) else desc s2 x = desc s x" for x
      using s2(3) [of x] s1(3,4) True Cons.prems(2) by (cases "x = p") auto
    moreover have "timer_scan (p # ps) c s = KOk s2" using s1(1) s2(1) True by (simp add: alarmed_def)
    ultimately show ?thesis using s2(2) by blast
  next
    case False
    with Cons.IH [OF Cons.prems(1)] Cons.prems show ?thesis by (fastforce simp: alarmed_def)
  qed
qed

lemma tick_ok:
  assumes "reachable s"
  obtains s' where "irq_timer_handler (c, s) = KOk (c\<lparr>k_time_ms := k_time_ms c + K_TIMER_PERIOD_MS\<rparr>, s')" "reachable s'"
    "\<And>p. p \<in> pids \<Longrightarrow> wake_time_ms c p = k_time_ms c + K_TIMER_PERIOD_MS \<Longrightarrow> woken (desc s p) (desc s' p)"
    "\<And>p. wake_time_ms c p \<noteq> k_time_ms c + K_TIMER_PERIOD_MS \<Longrightarrow> desc s' p = desc s p"
proof -
  let ?c = "c\<lparr>k_time_ms := k_time_ms c + K_TIMER_PERIOD_MS\<rparr>"
  have set: "set [0..K_PROC_COUNT - 1] = pids" by (auto simp: K_PROC_COUNT_def pids_def)
  obtain s' where s': "timer_scan [0..K_PROC_COUNT - 1] ?c s = KOk s'" "reachable s'"
    "\<And>x. if x \<in> pids \<and> alarmed ?c x then woken (desc s x) (desc s' x) else desc s' x = desc s x"
    using timer_scan_ok [OF assms distinct_upto equalityD1 [OF set], of ?c] unfolding set by blast
  show thesis
  proof (rule that)
    show "irq_timer_handler (c, s) = KOk (?c, s')" using s'(1) by (simp add: irq_timer_handler_def)
  qed (use s'(2,3) in \<open>auto simp: alarmed_def split: if_splits\<close>)
qed

section \<open>Sleeping\<close>

text \<open>
  \<open>waits p x n y\<close>: from \<open>x\<close> the machine reaches \<open>y\<close> with \<open>n\<close> timer interrupts, any number of kernel
  steps that leave \<open>p\<close> in its state (nobody else signals or kills it), and SLEEP messages of others.
\<close>

inductive waits :: "pid \<Rightarrow> clock \<times> kstate \<Rightarrow> nat \<Rightarrow> clock \<times> kstate \<Rightarrow> bool" for p x where
  start: "waits p x 0 x"
| tick: "waits p x n y \<Longrightarrow> irq_timer_handler y = KOk z \<Longrightarrow> waits p x (Suc n) z"
| other: "waits p x n (c, s) \<Longrightarrow> kstep s s' \<Longrightarrow> p_state (desc s' p) = p_state (desc s p) \<Longrightarrow> waits p x n (c, s')"
| message: "waits p x n (c, s) \<Longrightarrow> q \<noteq> p \<Longrightarrow> clock_task_msg q ty arg c = KOk c' \<Longrightarrow> waits p x n (c', s)"

text \<open>The number of interrupts until the alarm: a request for 0 ms waits for the counter to wrap.\<close>

definition sleep_ticks :: "u32 \<Rightarrow> nat" where
  "sleep_ticks ms = (if ms = 0 then 2 ^ 32 else unat ms)"

lemma sleep_ticks_pos: "0 < sleep_ticks ms" "sleep_ticks ms \<le> 2 ^ 32"
  using unsigned_less [of ms, where ?'a = nat] by (auto simp: sleep_ticks_def unat_gt_0)

lemma of_sleep_ticks: "of_nat (sleep_ticks ms) = ms"
  by (simp add: sleep_ticks_def)

lemma of_nat_eq_1: "n \<le> 2 ^ 32 \<Longrightarrow> of_nat n = (1 :: u32) \<longleftrightarrow> n = 1"
  using word_of_nat_eq_iff [where ?'a = 32, of n 1] by (cases "n = 2 ^ 32") (auto simp: take_bit_nat_eq_self)

lemma clock_msg_keeps: "clock_task_msg q ty arg c = KOk c' \<Longrightarrow> k_time_ms c' = k_time_ms c \<and>
    (\<forall>p. p \<noteq> q \<longrightarrow> wake_time_ms c' p = wake_time_ms c p)"
  by (auto simp: clock_task_msg_def entry_def split: if_splits)

lemma waits_blocked:
  assumes "waits p (c, s) n y" and "reachable s" and "p \<in> pids" and "p_state (desc s p) = ST_BLOCKED"
    and "wake_time_ms c p = k_time_ms c + of_nat d" and "n < d" and "d \<le> 2 ^ 32"
  shows "reachable (snd y) \<and> p_state (desc (snd y) p) = ST_BLOCKED \<and>
    wake_time_ms (fst y) p = k_time_ms (fst y) + of_nat (d - n)"
  using assms(1,6)
proof (induction n y rule: waits.induct)
  case start
  with assms show ?case by simp
next
  case (tick n y z)
  obtain c1 s1 where y: "y = (c1, s1)" by (cases y)
  obtain j where j: "d - n = Suc j" "d - Suc n = j" "j \<noteq> 0" "Suc j \<le> 2 ^ 32"
    using tick.prems assms(7) by (cases "d - n") auto
  from tick y j have i: "reachable s1" "p_state (desc s1 p) = ST_BLOCKED" "wake_time_ms c1 p = k_time_ms c1 + of_nat (Suc j)"
    by simp_all
  have ne: "wake_time_ms c1 p \<noteq> k_time_ms c1 + K_TIMER_PERIOD_MS"
    using of_nat_eq_1 [OF j(4)] j(3) unfolding i(3) K_TIMER_PERIOD_MS_def by simp
  obtain s2 where s2: "z = (c1\<lparr>k_time_ms := k_time_ms c1 + K_TIMER_PERIOD_MS\<rparr>, s2)" "reachable s2" "desc s2 p = desc s1 p"
    by (rule tick_ok [OF i(1), of c1]) (use tick(2) y ne in auto)
  then show ?case using i by (simp add: K_TIMER_PERIOD_MS_def j(2))
next
  case (other n c s s')
  then show ?case by (auto intro: reachable.step)
next
  case (message n c s q ty arg c')
  then show ?case using clock_msg_keeps [OF message(3)] by auto
qed

text \<open>C13. SLEEP. A blocked process that has sent SLEEP for \<open>ms\<close> milliseconds stays blocked for
  fewer than \<open>ms\<close> timer interrupts, whatever the other processes do meanwhile, and the interrupt number
  \<open>ms\<close> makes it ready, its call ended with \<open>EABORT\<close>. For \<open>ms = 0\<close> the number is \<open>2^32\<close>: such a process
  sleeps for seven weeks instead of not at all.\<close>

theorem sleep_wakes_on_time:
  assumes "reachable s" and "p \<in> pids" and "p_state (desc s p) = ST_BLOCKED"
    and "clock_task_msg p SLEEP ms c = KOk c1" and "waits p (c1, s) n (c2, s2)" and "n < sleep_ticks ms"
  shows "p_state (desc s2 p) = ST_BLOCKED \<and>
    (\<exists>c3 s3. irq_timer_handler (c2, s2) = KOk (c3, s3) \<and>
      (if Suc n = sleep_ticks ms
       then p_state (desc s3 p) = ST_READY \<and> m_from (desc s3 p) = PROC_PID_NONE \<and> d_regs (desc s3 p) 0 = word_of_int EABORT
       else p_state (desc s3 p) = ST_BLOCKED))"
proof -
  have w: "wake_time_ms c1 p = k_time_ms c1 + of_nat (sleep_ticks ms)"
    using assms(2,4) by (auto simp: clock_task_msg_def entry_pids pids_def K_TIMER_PERIOD_MS_def of_sleep_ticks)
  obtain j where j: "j = sleep_ticks ms - n" "j \<le> 2 ^ 32" using sleep_ticks_pos(2) [of ms] by simp
  from waits_blocked [OF assms(5,1,2,3) w assms(6) sleep_ticks_pos(2)]
  have i: "reachable s2" "p_state (desc s2 p) = ST_BLOCKED" "wake_time_ms c2 p = k_time_ms c2 + of_nat j"
    unfolding j(1) by simp_all
  have "wake_time_ms c2 p = k_time_ms c2 + K_TIMER_PERIOD_MS \<longleftrightarrow> j = 1"
    using of_nat_eq_1 [OF j(2)] unfolding i(3) K_TIMER_PERIOD_MS_def by simp
  moreover have "j = 1 \<longleftrightarrow> Suc n = sleep_ticks ms" using j(1) assms(6) by auto
  ultimately have w: "wake_time_ms c2 p = k_time_ms c2 + K_TIMER_PERIOD_MS \<longleftrightarrow> Suc n = sleep_ticks ms" by simp
  show ?thesis by (rule tick_ok [OF i(1), of c2]) (use w i(2) assms(2) wokenD in auto)
qed

theorem sleep_wakes_on_time_witness:
  "\<exists>s c1 c3 s3. reachable s \<and> p_state (desc s 0) = ST_BLOCKED \<and>
     clock_task_msg 0 SLEEP 1 (clock_task_init \<lparr>wake_time_ms = \<lambda>_. 7, k_time_ms = 9\<rparr>) = KOk c1 \<and>
     irq_timer_handler (c1, s) = KOk (c3, s3) \<and> p_state (desc s3 0) = ST_READY"
proof -
  obtain s where s: "reachable s" "p_state (desc s 0) = ST_BLOCKED" using demo_two_blocked by blast
  obtain c1 where c1: "clock_task_msg 0 SLEEP 1 (clock_task_init \<lparr>wake_time_ms = \<lambda>_. 7, k_time_ms = 9\<rparr>) = KOk c1"
    by (simp add: clock_task_msg_def entry_pids)
  from sleep_wakes_on_time [OF s(1) pids_31(2) s(2) c1 waits.start] s c1 show ?thesis
    by (auto simp: sleep_ticks_def)
qed

end
