(* ===== verification/Irq.thy ===== *)
theory Irq
  imports Clock
begin

text \<open>
  The dispatcher of the peripheral interrupts, software/system/kernel/irq.c. The MFP is reached
  through an address register and a data register; what the code writes is recorded, what it reads
  from the status register is an argument. A handler is a state transformer of the rest of the
  system, \<open>None\<close> the null pointer.
\<close>

section \<open>State and operations\<close>

definition IRQ_CLOCK :: u32 where "IRQ_CLOCK = 0"
definition IRQ_KEYBOARD :: u32 where "IRQ_KEYBOARD = 1"
definition IRQ_MOUSE :: u32 where "IRQ_MOUSE = 2"
definition IRQ_DBGSERIAL :: u32 where "IRQ_DBGSERIAL = 3"
definition K_IRQ_COUNT :: u32 where "K_IRQ_COUNT = 4"

definition B68K_MFP_REG_IRQCFG :: u8 where "B68K_MFP_REG_IRQCFG = 14"
definition B68K_MFP_REG_IRQSTS :: u8 where "B68K_MFP_REG_IRQSTS = 15"
definition B68K_MFP_IRQ_RTC_MASK :: u16 where "B68K_MFP_IRQ_RTC_MASK = 0x01"
definition B68K_MFP_IRQ_PS2P0_MASK :: u16 where "B68K_MFP_IRQ_PS2P0_MASK = 0x02"
definition B68K_MFP_IRQ_PS2P1_MASK :: u16 where "B68K_MFP_IRQ_PS2P1_MASK = 0x04"
definition B68K_MFP_IRQ_SERIAL_MASK :: u16 where "B68K_MFP_IRQ_SERIAL_MASK = 0x08"

lemmas irq_consts = IRQ_CLOCK_def IRQ_KEYBOARD_def IRQ_MOUSE_def IRQ_DBGSERIAL_def K_IRQ_COUNT_def
  B68K_MFP_IRQ_RTC_MASK_def B68K_MFP_IRQ_PS2P0_MASK_def B68K_MFP_IRQ_PS2P1_MASK_def B68K_MFP_IRQ_SERIAL_MASK_def

type_synonym 's irq_fct = "'s \<Rightarrow> 's kres"

record 's irq_attr =
  enable :: u8
  handler :: "'s irq_fct option"

record 's irq =
  irq_handlers :: "u32 \<Rightarrow> 's irq_attr"
  mfp_addr :: u8
  mfp_writes :: "(u8 \<times> u8) list"

text \<open>A write to the data register reaches the register the address register selects.\<close>

definition mfp_write :: "u8 \<Rightarrow> 's irq \<Rightarrow> 's irq" where
  "mfp_write v i = i\<lparr>mfp_writes := mfp_writes i @ [(mfp_addr i, v)]\<rparr>"

definition irq_init :: "'s irq \<Rightarrow> 's irq" where
  "irq_init i =
     (let i1 = i\<lparr>irq_handlers := (\<lambda>n. if n < K_IRQ_COUNT then \<lparr>enable = 0, handler = None\<rparr> else irq_handlers i n)\<rparr>;
          i2 = i1\<lparr>mfp_addr := B68K_MFP_REG_IRQCFG\<rparr>
      in mfp_write (ucast (B68K_MFP_IRQ_RTC_MASK OR B68K_MFP_IRQ_PS2P0_MASK OR B68K_MFP_IRQ_PS2P1_MASK OR
           B68K_MFP_IRQ_SERIAL_MASK)) i2)"

definition set_irq :: "u32 \<Rightarrow> ('s irq_attr \<Rightarrow> 's irq_attr) \<Rightarrow> 's irq \<Rightarrow> 's irq" where
  "set_irq n f i = i\<lparr>irq_handlers := (irq_handlers i)(n := f (irq_handlers i n))\<rparr>"

definition irq_register_interrupt :: "u32 \<Rightarrow> 's irq_fct option \<Rightarrow> 's irq \<Rightarrow> 's irq" where
  "irq_register_interrupt n fct i = (if n < K_IRQ_COUNT then set_irq n (\<lambda>a. a\<lparr>handler := fct\<rparr>) i else i)"

definition irq_enable_interrupt :: "u32 \<Rightarrow> 's irq \<Rightarrow> 's irq" where
  "irq_enable_interrupt n i = (if n < K_IRQ_COUNT then set_irq n (\<lambda>a. a\<lparr>enable := 1\<rparr>) i else i)"

definition irq_disable_interrupt :: "u32 \<Rightarrow> 's irq \<Rightarrow> 's irq" where
  "irq_disable_interrupt n i = (if n < K_IRQ_COUNT then set_irq n (\<lambda>a. a\<lparr>enable := 0\<rparr>) i else i)"

text \<open>Reading and acknowledging the status: the address register is put back as it was.\<close>

definition irq_ack :: "u8 \<Rightarrow> 's irq \<Rightarrow> 's irq" where
  "irq_ack sts i =
     (let save = mfp_addr i;
          i1 = i\<lparr>mfp_addr := B68K_MFP_REG_IRQSTS\<rparr>;
          i2 = mfp_write sts i1
      in i2\<lparr>mfp_addr := save\<rparr>)"

definition irq_call :: "'s irq \<Rightarrow> u32 \<Rightarrow> 's irq_fct" where
  "irq_call i n s =
     (case handler (irq_handlers i n) of
        None \<Rightarrow> KOk s
      | Some f \<Rightarrow> if enable (irq_handlers i n) \<noteq> 0 then f s else KOk s)"

definition irq_handler :: "u8 \<Rightarrow> 's irq \<Rightarrow> 's \<Rightarrow> ('s irq \<times> 's) kres" where
  "irq_handler sts i s =
     (let i1 = irq_ack sts i; irq_sts = (ucast sts :: u16) in
      kbind (if irq_sts AND B68K_MFP_IRQ_RTC_MASK \<noteq> 0 then irq_call i1 IRQ_CLOCK s else KOk s) (\<lambda>s1.
      kbind (if irq_sts AND B68K_MFP_IRQ_PS2P0_MASK \<noteq> 0 then irq_call i1 IRQ_KEYBOARD s1 else KOk s1) (\<lambda>s2.
      kbind (if irq_sts AND B68K_MFP_IRQ_PS2P1_MASK \<noteq> 0 then irq_call i1 IRQ_MOUSE s2 else KOk s2) (\<lambda>s3.
      kbind (if irq_sts AND B68K_MFP_IRQ_SERIAL_MASK \<noteq> 0 then irq_call i1 IRQ_DBGSERIAL s3 else KOk s3) (\<lambda>s4.
      KOk (i1, s4))))))"

section \<open>Dispatch\<close>

text \<open>The specification: the handlers of the pending lines, lowest line first, if enabled.\<close>

fun run_lines :: "'s irq \<Rightarrow> u32 list \<Rightarrow> 's irq_fct" where
  "run_lines i [] s = KOk s"
| "run_lines i (n # ns) s = kbind (irq_call i n s) (run_lines i ns)"

definition pending :: "u8 \<Rightarrow> u32 list" where
  "pending sts = filter (\<lambda>n. bit sts (unat n)) [0, 1, 2, 3]"

lemma mask_bit:
  "(ucast (sts :: u8) :: u16) AND B68K_MFP_IRQ_RTC_MASK \<noteq> 0 \<longleftrightarrow> bit sts 0"
  "(ucast sts :: u16) AND B68K_MFP_IRQ_PS2P0_MASK \<noteq> 0 \<longleftrightarrow> bit sts 1"
  "(ucast sts :: u16) AND B68K_MFP_IRQ_PS2P1_MASK \<noteq> 0 \<longleftrightarrow> bit sts 2"
  "(ucast sts :: u16) AND B68K_MFP_IRQ_SERIAL_MASK \<noteq> 0 \<longleftrightarrow> bit sts 3"
proof -
  have "w AND 2 ^ n \<noteq> 0 \<longleftrightarrow> bit w n" for w :: u16 and n
    by (simp add: and_exp_eq_0_iff_not_bit)
  from this [of _ 0] this [of _ 1] this [of _ 2] this [of _ 3]
  show "(ucast (sts :: u8) :: u16) AND B68K_MFP_IRQ_RTC_MASK \<noteq> 0 \<longleftrightarrow> bit sts 0"
    "(ucast sts :: u16) AND B68K_MFP_IRQ_PS2P0_MASK \<noteq> 0 \<longleftrightarrow> bit sts 1"
    "(ucast sts :: u16) AND B68K_MFP_IRQ_PS2P1_MASK \<noteq> 0 \<longleftrightarrow> bit sts 2"
    "(ucast sts :: u16) AND B68K_MFP_IRQ_SERIAL_MASK \<noteq> 0 \<longleftrightarrow> bit sts 3"
    by (simp_all add: irq_consts bit_simps)
qed

lemma irq_handler_lines:
  "irq_handler sts i s = kbind (run_lines (irq_ack sts i) (pending sts) s) (\<lambda>s'. KOk (irq_ack sts i, s'))"
  unfolding irq_handler_def Let_def mask_bit
  by (simp add: pending_def IRQ_CLOCK_def IRQ_KEYBOARD_def IRQ_MOUSE_def IRQ_DBGSERIAL_def kbind_assoc)

lemma irq_ack_simps [simp]:
  "irq_handlers (irq_ack sts i) = irq_handlers i" "mfp_addr (irq_ack sts i) = mfp_addr i"
  "mfp_writes (irq_ack sts i) = mfp_writes i @ [(B68K_MFP_REG_IRQSTS, sts)]"
  by (simp_all add: irq_ack_def mfp_write_def)

lemma irq_call_ack [simp]: "irq_call (irq_ack sts i) = irq_call i"
  by (auto simp: irq_call_def fun_eq_iff split: option.split)

lemma run_lines_ack [simp]: "run_lines (irq_ack sts i) ns s = run_lines i ns s"
proof (induction ns arbitrary: s)
  case (Cons n ns)
  then show ?case by (cases "irq_call i n s") simp_all
qed simp

text \<open>The interrupt handler runs the handlers of exactly the pending and enabled lines, in the
  order clock, keyboard, mouse, debug serial, each on the state the one before has left; it
  acknowledges the status bits it has read, and the code it interrupted finds the MFP address register
  and the handler table as they were.\<close>

theorem irq_handler_dispatch:
  "irq_handler sts i s =
     kbind (run_lines i (filter (\<lambda>n. bit sts (unat n)) [IRQ_CLOCK, IRQ_KEYBOARD, IRQ_MOUSE, IRQ_DBGSERIAL]) s)
       (\<lambda>s'. KOk (i\<lparr>mfp_writes := mfp_writes i @ [(B68K_MFP_REG_IRQSTS, sts)]\<rparr>, s'))"
proof -
  have "irq_ack sts i = i\<lparr>mfp_writes := mfp_writes i @ [(B68K_MFP_REG_IRQSTS, sts)]\<rparr>"
    by (simp add: irq_ack_def mfp_write_def)
  moreover have "pending sts = filter (\<lambda>n. bit sts (unat n)) [IRQ_CLOCK, IRQ_KEYBOARD, IRQ_MOUSE, IRQ_DBGSERIAL]"
    by (simp add: pending_def irq_consts)
  ultimately show ?thesis by (metis irq_handler_lines run_lines_ack)
qed

section \<open>The clock on its line\<close>

text \<open>What \<open>clock_task\<close> does before its loop: both tables and the registration.\<close>

definition clock_task_start :: "clock \<Rightarrow> (clock \<times> 'a kstate_scheme) irq \<Rightarrow> clock \<times> (clock \<times> 'a kstate_scheme) irq" where
  "clock_task_start c i =
     (clock_task_init c,
      irq_enable_interrupt IRQ_CLOCK (irq_register_interrupt IRQ_CLOCK (Some irq_timer_handler) i))"

lemma unbound_line: "handler (irq_handlers i n) = None \<Longrightarrow> irq_call i n s = KOk s"
  by (simp add: irq_call_def)

text \<open>Once the clock task has started on a freshly initialised dispatcher, an interrupt is one
  tick of the clock when the timer bit is set and nothing otherwise: requests of lines without a
  handler are acknowledged and ignored, and in a reachable state the interrupt never fails.\<close>

theorem clock_interrupt:
  assumes "clock_task_start c0 (irq_init i0) = (c, i)" and "reachable s"
  shows "\<exists>i' c' s'. irq_handler sts i (c, s) = KOk (i', c', s') \<and> reachable s' \<and>
    k_time_ms c' = (if bit sts 0 then k_time_ms c + K_TIMER_PERIOD_MS else k_time_ms c) \<and>
    irq_handlers i' = irq_handlers i \<and> (\<not> bit sts 0 \<longrightarrow> s' = s)"
proof -
  have i: "handler (irq_handlers i 0) = Some irq_timer_handler" "enable (irq_handlers i 0) \<noteq> 0"
    "handler (irq_handlers i 1) = None" "handler (irq_handlers i 2) = None" "handler (irq_handlers i 3) = None"
    using assms(1) by (auto simp: clock_task_start_def irq_enable_interrupt_def irq_register_interrupt_def
      set_irq_def irq_init_def mfp_write_def irq_consts Let_def)
  have rest: "run_lines i (filter (\<lambda>n. bit sts (unat n)) [1, 2, 3]) x = KOk x" for x
    using i(3-5) by (simp add: unbound_line)
  have call: "irq_call i 0 x = irq_timer_handler x" for x using i(1,2) by (simp add: irq_call_def)
  obtain s' where s': "irq_timer_handler (c, s) = KOk (c\<lparr>k_time_ms := k_time_ms c + K_TIMER_PERIOD_MS\<rparr>, s')" "reachable s'"
    by (rule tick_ok [OF assms(2), of c])
  have p: "pending sts = (if bit sts 0 then [0] else []) @ filter (\<lambda>n. bit sts (unat n)) [1, 2, 3]"
    by (simp add: pending_def)
  show ?thesis
  proof (cases "bit sts 0")
    case True
    then have "run_lines i (pending sts) (c, s) = KOk (c\<lparr>k_time_ms := k_time_ms c + K_TIMER_PERIOD_MS\<rparr>, s')"
      using p rest s'(1) call by simp
    with True s'(2) show ?thesis by (simp add: irq_handler_lines)
  next
    case False
    then have "run_lines i (pending sts) (c, s) = KOk (c, s)" using p rest by simp
    with False assms(2) show ?thesis by (simp add: irq_handler_lines)
  qed
qed

theorem clock_interrupt_witness:
  "\<exists>c i s i' c' s'. clock_task_start \<lparr>wake_time_ms = \<lambda>_. 0, k_time_ms = 5\<rparr>
       (irq_init \<lparr>irq_handlers = \<lambda>_. \<lparr>enable = 3, handler = None\<rparr>, mfp_addr = 4, mfp_writes = []\<rparr>) = (c, i) \<and>
     reachable s \<and> irq_handler 9 i (c, s) = KOk (i', c', s') \<and> k_time_ms c' = 1"
proof -
  obtain s where s: "reachable s" using demo_two_blocked by blast
  obtain c and i :: "(clock \<times> kstate) irq" where ci: "clock_task_start \<lparr>wake_time_ms = \<lambda>_. 0, k_time_ms = 5\<rparr>
    (irq_init \<lparr>irq_handlers = \<lambda>_. \<lparr>enable = 3, handler = None\<rparr>, mfp_addr = 4, mfp_writes = []\<rparr>) = (c, i)" by (metis surj_pair)
  then have "k_time_ms c = 0" by (auto simp: clock_task_start_def clock_task_init_def)
  with clock_interrupt [OF ci s, of 9] ci s show ?thesis by (auto simp: K_TIMER_PERIOD_MS_def)
qed

end
