(* ===== verification/Dev.thy ===== *)
theory Dev
  imports CString
begin

text \<open>
  The device manager, software/system/kernel/dev.c and include/dev.h: the table of devices,
  registration of character devices and of disks with the partitions of their master boot record,
  and look-up by name and by number. The abstract view of the table is the list of what has been
  registered.
\<close>

section \<open>State\<close>

definition K_DEV_COUNT :: nat where "K_DEV_COUNT = 12"

text \<open>The union \<open>dev_attr_t\<close> with its tag \<open>attr_type\<close>.\<close>

datatype dev_attr =
    DEV_ATTR_NONE
  | DEV_ATTR_DISK (sector_size: u32) (disk_sectors: u32)
  | DEV_ATTR_DISK_PARTITION (part_type: u8) (sector_cnt: u32) (sector_start: u32)
  | DEV_ATTR_CHAR

record dev =
  dev_nm :: "u8 list"
  dev_id :: u16
  dev_at :: dev_attr

text \<open>\<open>_dev_list\<close>, \<open>K_DEV_COUNT\<close> entries; a pointer to an entry is its index.\<close>

type_synonym devtab = "dev list"

definition makedev :: "u16 \<Rightarrow> u16 \<Rightarrow> u16" where "makedev ma mi = push_bit 8 ma + mi"
definition major :: "u16 \<Rightarrow> u16" where "major d = drop_bit 8 d"
definition minor :: "u16 \<Rightarrow> u16" where "minor d = d AND 0xFF"

section \<open>Operations\<close>

definition none_name :: "u8 list" where
  "none_name = [110, 111, 110, 101, 0]"

fun dev_init_entries :: "devtab \<Rightarrow> devtab kres" where
  "dev_init_entries [] = KOk []"
| "dev_init_entries (d # ds) =
     (case strcpy (dev_nm d) none_name of
        None \<Rightarrow> KFault
      | Some nm \<Rightarrow> kbind (dev_init_entries ds) (\<lambda>ds'. KOk (d\<lparr>dev_nm := nm, dev_id := 0, dev_at := DEV_ATTR_NONE\<rparr> # ds')))"

definition dev_init :: "devtab \<Rightarrow> devtab kres" where
  "dev_init ds = dev_init_entries ds"

text \<open>The scans; the result of a scan from index \<open>i\<close> is an index, \<open>None\<close> the null pointer.\<close>

fun dev_get_scan :: "nat \<Rightarrow> u8 list \<Rightarrow> devtab \<Rightarrow> nat option kres" where
  "dev_get_scan i name [] = KOk None"
| "dev_get_scan i name (d # ds) =
     (case strcmp name (dev_nm d) of
        None \<Rightarrow> KFault
      | Some r \<Rightarrow> if r = 0 then KOk (Some i) else dev_get_scan (Suc i) name ds)"

definition dev_get :: "u8 list \<Rightarrow> devtab \<Rightarrow> nat option kres" where
  "dev_get name ds = dev_get_scan 0 name ds"

fun dev_id_scan :: "nat \<Rightarrow> u16 \<Rightarrow> devtab \<Rightarrow> nat option" where
  "dev_id_scan i n [] = None"
| "dev_id_scan i n (d # ds) = (if dev_id d = n then Some i else dev_id_scan (Suc i) n ds)"

definition dev_get_by_id :: "u16 \<Rightarrow> devtab \<Rightarrow> nat option" where
  "dev_get_by_id n ds = dev_id_scan 0 n ds"

definition dev_name :: "u16 \<Rightarrow> devtab \<Rightarrow> u8 list option" where
  "dev_name n ds =
     (if unat n < K_DEV_COUNT \<and> dev_at (ds ! unat n) \<noteq> DEV_ATTR_NONE then Some (dev_nm (ds ! unat n)) else None)"

text \<open>The first entry with number 0 is taken; without one the kernel panics.\<close>

definition dev_register :: "u8 list \<Rightarrow> u16 \<Rightarrow> u16 \<Rightarrow> devtab \<Rightarrow> (nat \<times> devtab) kres" where
  "dev_register name maj mino ds =
     (case dev_id_scan 0 0 ds of
        None \<Rightarrow> KPanic
      | Some i \<Rightarrow>
          (case strcpy (dev_nm (ds ! i)) name of
             None \<Rightarrow> KFault
           | Some nm \<Rightarrow> KOk (i, ds[i := (ds ! i)\<lparr>dev_nm := nm, dev_id := makedev maj mino\<rparr>])))"

definition set_attr :: "nat \<Rightarrow> dev_attr \<Rightarrow> devtab \<Rightarrow> devtab" where
  "set_attr i a ds = ds[i := (ds ! i)\<lparr>dev_at := a\<rparr>]"

definition dev_register_char :: "u8 list \<Rightarrow> u16 \<Rightarrow> u16 \<Rightarrow> devtab \<Rightarrow> (int \<times> devtab) kres" where
  "dev_register_char name maj mino ds =
     kbind (dev_register name maj mino ds) (\<lambda>(i, ds1). KOk (0, set_attr i DEV_ATTR_CHAR ds1))"

text \<open>Four bytes of the boot record, least significant first.\<close>

definition le32 :: "u8 list \<Rightarrow> nat \<Rightarrow> u32" where
  "le32 b i = ucast (b ! i) + push_bit 8 (ucast (b ! (i + 1))) + push_bit 16 (ucast (b ! (i + 2))) +
     push_bit 24 (ucast (b ! (i + 3)))"

text \<open>The name of partition \<open>pn\<close> in a local array of eight bytes (which \<open>strcpy\<close> overwrites up to the null byte).\<close>

definition partition_name :: "u8 list \<Rightarrow> nat \<Rightarrow> u8 list kres" where
  "partition_name name pn =
     (case (strcpy (replicate 8 0) name, strlen name) of
        (Some x, Some n) \<Rightarrow>
          if unat n + 1 < 8 then KOk (x[unat n := 48 + of_nat pn, unat n + 1 := 0]) else KFault
      | _ \<Rightarrow> KFault)"

fun dev_partitions :: "nat list \<Rightarrow> u8 list \<Rightarrow> u16 \<Rightarrow> u16 \<Rightarrow> u8 list \<Rightarrow> devtab \<Rightarrow> devtab kres" where
  "dev_partitions [] name maj mino mbr ds = KOk ds"
| "dev_partitions (pn # pns) name maj mino mbr ds =
     (let ty = mbr ! (pn * 16 + 0x1be + 4);
          first_sec = le32 mbr (pn * 16 + 0x1be + 8);
          nb_sec = le32 mbr (pn * 16 + 0x1be + 12)
      in if ty \<noteq> 0 then
           kbind (partition_name name pn) (\<lambda>xname.
           kbind (dev_register xname maj mino ds) (\<lambda>(i, ds1).
           dev_partitions pns name maj (mino + 1) mbr (set_attr i (DEV_ATTR_DISK_PARTITION ty nb_sec first_sec) ds1)))
         else dev_partitions pns name maj mino mbr ds)"

text \<open>\<open>mbr\<close> points to a sector of 512 bytes.\<close>

definition dev_register_disk :: "u8 list \<Rightarrow> u16 \<Rightarrow> u16 \<Rightarrow> u8 list \<Rightarrow> devtab \<Rightarrow> (int \<times> devtab) kres" where
  "dev_register_disk name maj mino mbr ds =
     kbind (dev_register name maj mino ds) (\<lambda>(i, ds1).
     let ds2 = set_attr i (DEV_ATTR_DISK 512 0) ds1 in
     if length mbr < 512 then KFault
     else if mbr ! 510 \<noteq> 0x55 \<or> mbr ! 511 \<noteq> 0xAA then KOk (- 1, ds2)
     else kbind (dev_partitions [0..<4] name maj (mino + 1) mbr ds2) (\<lambda>ds3. KOk (0, ds3)))"

section \<open>The abstract view\<close>

text \<open>What is registered, in order: name, number, attributes.\<close>

type_synonym adev = "u8 list \<times> u16 \<times> dev_attr"

fun entry_of :: "dev \<Rightarrow> adev \<Rightarrow> bool" where
  "entry_of d (nm, n, a) \<longleftrightarrow> length (dev_nm d) = 8 \<and> cstr (dev_nm d) nm \<and> dev_id d = n \<and> n \<noteq> 0 \<and> dev_at d = a"

definition free_dev :: "dev \<Rightarrow> bool" where
  "free_dev d \<longleftrightarrow> length (dev_nm d) = 8 \<and> cstr (dev_nm d) [110, 111, 110, 101] \<and> dev_id d = 0"

definition dev_view :: "devtab \<Rightarrow> adev list \<Rightarrow> bool" where
  "dev_view ds as \<longleftrightarrow> (\<exists>us fs. ds = us @ fs \<and> length ds = K_DEV_COUNT \<and> list_all2 entry_of us as \<and> list_all free_dev fs)"

lemma dev_viewE:
  assumes "dev_view ds as"
  obtains us fs where "ds = us @ fs" "length (us @ fs) = 12" "list_all2 entry_of us as" "list_all free_dev fs"
    "length us = length as"
  using assms by (auto simp: dev_view_def K_DEV_COUNT_def list_all2_lengthD)

lemma id_scan_used: "list_all2 entry_of us as \<Longrightarrow> dev_id_scan i 0 (us @ fs) = dev_id_scan (i + length us) 0 fs"
  by (induction us as arbitrary: i rule: list_all2_induct) auto

lemma dev_register_view:
  assumes v: "dev_view ds as" and nm: "cstr name nm" "length nm < 8" and room: "length as < K_DEV_COUNT"
    and id: "makedev maj mino \<noteq> 0"
  shows "\<exists>ds1. dev_register name maj mino ds = KOk (length as, ds1) \<and>
    dev_view (set_attr (length as) a ds1) (as @ [(nm, makedev maj mino, a)])"
proof -
  obtain us fs where ds: "ds = us @ fs" "length (us @ fs) = 12" "list_all2 entry_of us as" "list_all free_dev fs"
    "length us = length as" by (rule dev_viewE [OF v])
  obtain f fs' where fs: "fs = f # fs'" using ds(2,5) room by (cases fs) (auto simp: K_DEV_COUNT_def)
  have f: "length (dev_nm f) = 8" "dev_id f = 0" using ds(4) fs by (simp_all add: free_dev_def)
  have "dev_id_scan 0 0 ds = Some (length as)" using id_scan_used [OF ds(3), of 0 fs] fs f(2) ds(1,5) by simp
  moreover have "ds ! length as = f" using ds(1,5) fs by (metis nth_append_length)
  moreover have "strcpy (dev_nm f) name = Some (nm @ 0 # drop (Suc (length nm)) (dev_nm f))"
    using strcpy_cstr [OF nm(1)] nm(2) f(1) by simp
  ultimately have r: "dev_register name maj mino ds =
      KOk (length as, ds[length as := f\<lparr>dev_nm := nm @ 0 # drop (Suc (length nm)) (dev_nm f), dev_id := makedev maj mino\<rparr>])"
    by (simp add: dev_register_def)
  let ?e = "f\<lparr>dev_nm := nm @ 0 # drop (Suc (length nm)) (dev_nm f), dev_id := makedev maj mino, dev_at := a\<rparr>"
  have "set_attr (length as) a (ds[length as := f\<lparr>dev_nm := nm @ 0 # drop (Suc (length nm)) (dev_nm f), dev_id := makedev maj mino\<rparr>])
      = (us @ [?e]) @ fs'"
    using ds(1,5) fs by (simp add: set_attr_def list_update_append nth_append)
  moreover have "entry_of ?e (nm, makedev maj mino, a)" using nm f(1) id by (auto simp: cstr_def)
  ultimately show ?thesis unfolding r dev_view_def using ds fs
    by (intro exI [of _ "ds[length as := _]"] conjI exI [of _ "us @ [?e]"] exI [of _ fs'])
      (auto simp: list_all2_appendI K_DEV_COUNT_def)
qed

section \<open>Partitions\<close>

text \<open>The devices the boot record describes, numbered from \<open>mino\<close>.\<close>

fun mbr_devs :: "nat list \<Rightarrow> u8 list \<Rightarrow> u16 \<Rightarrow> u16 \<Rightarrow> u8 list \<Rightarrow> adev list" where
  "mbr_devs [] nm maj mino mbr = []"
| "mbr_devs (pn # pns) nm maj mino mbr =
     (let ty = mbr ! (pn * 16 + 0x1be + 4) in
      if ty = 0 then mbr_devs pns nm maj mino mbr
      else (nm @ [48 + of_nat pn], makedev maj mino,
            DEV_ATTR_DISK_PARTITION ty (le32 mbr (pn * 16 + 0x1be + 12)) (le32 mbr (pn * 16 + 0x1be + 8))) #
           mbr_devs pns nm maj (mino + 1) mbr)"

lemma partition_name_ok:
  assumes "cstr name nm" and "length nm < 7" and "pn < 4"
  shows "\<exists>x. partition_name name pn = KOk x \<and> cstr x (nm @ [48 + of_nat pn])"
proof -
  have l: "strlen name = Some (of_nat (length nm))" by (rule strlen_cstr [OF assms(1)])
  have u: "unat (of_nat (length nm) :: u32) = length nm" using assms(2) by (simp add: unat_of_nat take_bit_nat_eq_self)
  have c: "strcpy (replicate 8 0) name = Some (nm @ 0 # replicate (7 - length nm) 0)"
    using strcpy_cstr [OF assms(1), of "replicate 8 0"] assms(2) by simp
  obtain k where k: "7 - length nm = Suc k" using assms(2) by (cases "7 - length nm") auto
  have x: "(nm @ 0 # replicate (Suc k) (0 :: u8))[length nm := d, length nm + 1 := 0] = (nm @ [d]) @ 0 # replicate k 0" for d
    by (simp add: list_update_append)
  have d: "48 + of_nat pn \<noteq> (0 :: u8)"
  proof -
    have "pn \<in> {0, 1, 2, 3}" using assms(3) by auto
    then show ?thesis by auto
  qed
  have "0 \<notin> set nm" using assms(1) by (simp add: cstr_def)
  with d have "cstr ((nm @ [48 + of_nat pn]) @ 0 # replicate k 0) (nm @ [48 + of_nat pn])"
    unfolding cstr_def by auto
  moreover have "partition_name name pn = KOk ((nm @ [48 + of_nat pn]) @ 0 # replicate k 0)"
    unfolding partition_name_def using l u c k x assms(2) by simp
  ultimately show ?thesis by blast
qed

lemma dev_partitions_view:
  assumes "dev_view ds as" and "cstr name nm" and "length nm < 7" and "set pns \<subseteq> {..<4}"
    and "length as + length (mbr_devs pns nm maj mino mbr) \<le> K_DEV_COUNT"
    and "\<And>k. k < 4 \<Longrightarrow> makedev maj (mino + of_nat k) \<noteq> 0" and "length pns \<le> 4"
  shows "\<exists>ds'. dev_partitions pns name maj mino mbr ds = KOk ds' \<and> dev_view ds' (as @ mbr_devs pns nm maj mino mbr)"
proof -
  have "\<exists>ds'. dev_partitions pns name maj mino mbr ds = KOk ds' \<and> dev_view ds' (as @ mbr_devs pns nm maj mino mbr)"
    if "\<And>k. k < length pns \<Longrightarrow> makedev maj (mino + of_nat k) \<noteq> 0"
    using assms(1,4,5) that
  proof (induction pns arbitrary: ds as mino)
    case Nil
    then show ?case by simp
  next
    case (Cons pn pns)
    show ?case
    proof (cases "mbr ! (pn * 16 + 0x1be + 4) = 0")
      case True
      with Cons.IH [OF Cons.prems(1), of mino] Cons.prems show ?thesis by (simp add: Let_def)
    next
      case False
      let ?a = "DEV_ATTR_DISK_PARTITION (mbr ! (pn * 16 + 0x1be + 4)) (le32 mbr (pn * 16 + 0x1be + 12)) (le32 mbr (pn * 16 + 0x1be + 8))"
      obtain x where x: "partition_name name pn = KOk x" "cstr x (nm @ [48 + of_nat pn])"
        using partition_name_ok [OF assms(2,3)] Cons.prems(2) by auto
      have id: "makedev maj mino \<noteq> 0" using Cons.prems(4) [of 0] by simp
      have "length as < K_DEV_COUNT" using Cons.prems(3) False by (simp add: Let_def)
      from dev_register_view [OF Cons.prems(1) x(2) _ this id, of ?a] assms(3)
      obtain ds1 where ds1: "dev_register x maj mino ds = KOk (length as, ds1)"
        "dev_view (set_attr (length as) ?a ds1) (as @ [(nm @ [48 + of_nat pn], makedev maj mino, ?a)])" by auto
      have "makedev maj (mino + 1 + of_nat k) \<noteq> 0" if "k < length pns" for k
        using Cons.prems(4) [of "Suc k"] that by (simp add: add.assoc)
      with Cons.IH [OF ds1(2), of "mino + 1"] Cons.prems(2,3) False x(1) ds1(1) show ?thesis by (simp add: Let_def)
    qed
  qed
  with assms(6,7) show ?thesis by simp
qed

text \<open>C14. Registering a disk whose sector 0 carries the boot signature appends to the registered
  devices the disk itself and one partition device for each used entry of the partition table, in the
  order of the table, with consecutive minor numbers, the name of the disk followed by the digit of the
  entry, and the type, start and size that the entry holds; nothing registered before is lost. The
  conditions: room in the table, a name of at most six characters, no device number 0.\<close>

theorem dev_register_disk_appends:
  assumes "dev_view ds as" and "cstr name nm" and "length nm < 7"
    and "length mbr = 512" and "mbr ! 510 = 0x55" and "mbr ! 511 = 0xAA"
    and "length as + 1 + length (mbr_devs [0..<4] nm maj (mino + 1) mbr) \<le> K_DEV_COUNT"
    and "\<And>k. k \<le> 4 \<Longrightarrow> makedev maj (mino + of_nat k) \<noteq> 0"
  shows "\<exists>ds'. dev_register_disk name maj mino mbr ds = KOk (0, ds') \<and>
    dev_view ds' (as @ (nm, makedev maj mino, DEV_ATTR_DISK 512 0) # mbr_devs [0..<4] nm maj (mino + 1) mbr)"
proof -
  have id: "makedev maj mino \<noteq> 0" using assms(8) [of 0] by simp
  have ids: "makedev maj (mino + 1 + of_nat k) \<noteq> 0" if "k < 4" for k
    using assms(8) [of "Suc k"] that by (simp add: add.assoc)
  have "length nm < 8" "length as < K_DEV_COUNT" using assms(3,7) by simp_all
  from dev_register_view [OF assms(1,2) this id] obtain ds1 where
    ds1: "dev_register name maj mino ds = KOk (length as, ds1)"
      "dev_view (set_attr (length as) (DEV_ATTR_DISK 512 0) ds1) (as @ [(nm, makedev maj mino, DEV_ATTR_DISK 512 0)])"
    by blast
  have "set [0..<4] \<subseteq> {..<4 :: nat}" "length [0..<4] \<le> (4 :: nat)" by auto
  from dev_partitions_view [OF ds1(2) assms(2,3) this(1) _ ids this(2), of mbr] assms(7)
  obtain ds' where "dev_partitions [0..<4] name maj (mino + 1) mbr (set_attr (length as) (DEV_ATTR_DISK 512 0) ds1) = KOk ds'"
    "dev_view ds' (as @ (nm, makedev maj mino, DEV_ATTR_DISK 512 0) # mbr_devs [0..<4] nm maj (mino + 1) mbr)" by auto
  with assms(4-6) ds1(1) show ?thesis by (simp add: dev_register_disk_def)
qed

text \<open>A boot record with one used entry, the third, and its disk.\<close>

definition demo_mbr :: "u8 list" where
  "demo_mbr = replicate 478 0 @ [0, 0, 0, 0, 12, 0, 0, 0, 2, 1, 0, 0, 16, 0, 0, 0] @ replicate 16 0 @ [0x55, 0xAA]"

lemma demo_mbr_nth: "i < 478 \<Longrightarrow> demo_mbr ! i = 0"
  by (simp add: demo_mbr_def nth_append)

definition free_entry :: dev where
  "free_entry = \<lparr>dev_nm = none_name @ [0, 0, 0], dev_id = 0, dev_at = DEV_ATTR_NONE\<rparr>"

section \<open>Look-up\<close>

fun alookup :: "nat \<Rightarrow> u8 list \<Rightarrow> adev list \<Rightarrow> nat option" where
  "alookup i nm [] = None"
| "alookup i nm (a # as) = (if fst a = nm then Some i else alookup (Suc i) nm as)"

lemma alookup_append: "alookup i nm (as @ bs) =
    (case alookup i nm as of None \<Rightarrow> alookup (i + length as) nm bs | Some j \<Rightarrow> Some j)"
  by (induction as arbitrary: i) (auto split: option.split)

lemma get_scan_used:
  "list_all2 entry_of us as \<Longrightarrow> cstr name nm \<Longrightarrow> dev_get_scan i name (us @ fs) =
     (case alookup i nm as of Some j \<Rightarrow> KOk (Some j) | None \<Rightarrow> dev_get_scan (i + length us) name fs)"
proof (induction us as arbitrary: i rule: list_all2_induct)
  case (Cons u us a as)
  obtain r where "strcmp name (dev_nm u) = Some r" "r = 0 \<longleftrightarrow> nm = fst a"
    using strcmp_cstr [OF Cons.prems] Cons.hyps(1) by (cases a) auto
  with Cons show ?case by (auto split: option.split)
qed simp

lemma get_scan_free:
  "list_all free_dev fs \<Longrightarrow> cstr name nm \<Longrightarrow> dev_get_scan i name fs =
     KOk (if nm = [110, 111, 110, 101] \<and> fs \<noteq> [] then Some i else None)"
proof (induction fs arbitrary: i)
  case (Cons f fs)
  then have "cstr (dev_nm f) [110, 111, 110, 101]" by (simp add: free_dev_def)
  then obtain r where "strcmp name (dev_nm f) = Some r" "r = 0 \<longleftrightarrow> nm = [110, 111, 110, 101]"
    using strcmp_cstr [OF Cons.prems(2)] by blast
  with Cons show ?case by auto
qed simp

lemma dev_get_view:
  assumes "dev_view ds as" and "cstr name nm" and "nm \<noteq> [110, 111, 110, 101]"
  shows "dev_get name ds = KOk (alookup 0 nm as)"
proof -
  obtain us fs where ds: "ds = us @ fs" "list_all2 entry_of us as" "list_all free_dev fs" by (rule dev_viewE [OF assms(1)])
  with get_scan_used [OF ds(2) assms(2), of 0 fs] get_scan_free [OF ds(3) assms(2)] assms(3)
  show ?thesis by (simp add: dev_get_def split: option.split)
qed

lemma dev_view_nth:
  assumes "dev_view ds as" and "i < length as"
  shows "dev_id (ds ! i) = fst (snd (as ! i))" "dev_at (ds ! i) = snd (snd (as ! i))" "cstr (dev_nm (ds ! i)) (fst (as ! i))"
proof -
  obtain us fs where ds: "ds = us @ fs" "list_all2 entry_of us as" "length us = length as" by (rule dev_viewE [OF assms(1)])
  with assms(2) have "entry_of (ds ! i) (as ! i)" by (simp add: nth_append list_all2_nthD2)
  then show "dev_id (ds ! i) = fst (snd (as ! i))" "dev_at (ds ! i) = snd (snd (as ! i))" "cstr (dev_nm (ds ! i)) (fst (as ! i))"
    by (cases "as ! i"; simp)+
qed

subsection \<open>The contract of a device registry\<close>

text \<open>
  What the file system relies on: a table represents a list of registered devices, registering
  appends to it, and a look-up returns the position of the first device of that name.
\<close>

locale registry =
  fixes rep :: "'t \<Rightarrow> adev list \<Rightarrow> bool"
    and reg :: "u8 list \<Rightarrow> u16 \<Rightarrow> u16 \<Rightarrow> 't \<Rightarrow> (int \<times> 't) kres"
    and get :: "u8 list \<Rightarrow> 't \<Rightarrow> nat option kres"
    and attr :: dev_attr
    and room :: nat
  assumes reg_appends: "\<lbrakk>rep t as; cstr name nm; length nm < 8; length as < room; makedev maj mino \<noteq> 0\<rbrakk> \<Longrightarrow>
      \<exists>t'. reg name maj mino t = KOk (0, t') \<and> rep t' (as @ [(nm, makedev maj mino, attr)])"
    and get_first: "\<lbrakk>rep t as; cstr name nm; nm \<noteq> [110, 111, 110, 101]\<rbrakk> \<Longrightarrow> get name t = KOk (alookup 0 nm as)"
begin

lemma registered_found:
  assumes "rep t as" and "cstr name nm" and "length nm < 8" and "length as < room" and "makedev maj mino \<noteq> 0"
    and "alookup 0 nm as = None" and "nm \<noteq> [110, 111, 110, 101]"
  shows "\<exists>t'. reg name maj mino t = KOk (0, t') \<and> get name t' = KOk (Some (length as)) \<and>
    rep t' (as @ [(nm, makedev maj mino, attr)]) \<and>
    (\<forall>other ot. cstr other ot \<longrightarrow> ot \<noteq> nm \<longrightarrow> ot \<noteq> [110, 111, 110, 101] \<longrightarrow> get other t' = get other t)"
proof -
  from reg_appends [OF assms(1-5)] obtain t' where
    t': "reg name maj mino t = KOk (0, t')" "rep t' (as @ [(nm, makedev maj mino, attr)])" by blast
  have "get name t' = KOk (Some (length as))"
    using get_first [OF t'(2) assms(2,7)] assms(6) by (simp add: alookup_append)
  moreover have "get other t' = get other t" if "cstr other ot" "ot \<noteq> nm" "ot \<noteq> [110, 111, 110, 101]" for other ot
    using get_first [OF t'(2) that(1,3)] get_first [OF assms(1) that(1,3)] that(2)
    by (simp add: alookup_append split: option.split)
  ultimately show ?thesis using t' by blast
qed

end

interpretation chardev: registry dev_view dev_register_char dev_get DEV_ATTR_CHAR K_DEV_COUNT
proof
  fix t as name nm maj mino
  assume "dev_view t as" "cstr name nm" "length nm < 8" "length as < K_DEV_COUNT" "makedev maj mino \<noteq> 0"
  from dev_register_view [OF this, of DEV_ATTR_CHAR]
  show "\<exists>t'. dev_register_char name maj mino t = KOk (0, t') \<and> dev_view t' (as @ [(nm, makedev maj mino, DEV_ATTR_CHAR)])"
    by (auto simp: dev_register_char_def)
qed (rule dev_get_view)

lemma major_makedev:
  assumes "ma < 256" and "mi < 256"
  shows "major (makedev ma mi) = ma" "minor (makedev ma mi) = mi"
proof -
  have b: "unat ma < 256" "unat mi < 256" using assms by (simp_all add: word_less_nat_alt)
  have u: "unat (makedev ma mi) = unat ma * 256 + unat mi"
    using b by (simp add: makedev_def push_bit_eq_mult unat_word_ariths)
  show "major (makedev ma mi) = ma"
    using b by (simp add: major_def word_unat_eq_iff unat_drop_bit u)
  have "minor (makedev ma mi) = take_bit 8 (makedev ma mi)"
    by (simp add: minor_def take_bit_eq_mask mask_eq_exp_minus_1)
  moreover have "unat (take_bit 8 (makedev ma mi)) = take_bit 8 (unat (makedev ma mi))" by (rule unsigned_take_bit_eq)
  ultimately have "unat (minor (makedev ma mi)) = unat mi" using b by (simp add: u take_bit_nat_def)
  then show "minor (makedev ma mi) = mi" by (simp add: word_unat_eq_iff)
qed

text \<open>A character device registered under a new name is found by that name, its number decodes to
  the major and minor numbers it was registered with, its attributes say character device, and every
  other name is looked up as before.\<close>

theorem registered_device_found:
  assumes "dev_view ds as" and "cstr name nm" and "length nm < 8" and "length as < K_DEV_COUNT"
    and "maj < 256" and "mino < 256" and "makedev maj mino \<noteq> 0"
    and "dev_get name ds = KOk None" and "nm \<noteq> [110, 111, 110, 101]"
  shows "\<exists>ds' i. dev_register_char name maj mino ds = KOk (0, ds') \<and> dev_get name ds' = KOk (Some i) \<and>
    major (dev_id (ds' ! i)) = maj \<and> minor (dev_id (ds' ! i)) = mino \<and> dev_at (ds' ! i) = DEV_ATTR_CHAR \<and>
    (\<forall>other ot. cstr other ot \<longrightarrow> ot \<noteq> nm \<longrightarrow> ot \<noteq> [110, 111, 110, 101] \<longrightarrow> dev_get other ds' = dev_get other ds)"
proof -
  have "alookup 0 nm as = None" using assms(8) dev_get_view [OF assms(1,2,9)] by simp
  from chardev.registered_found [OF assms(1-4,7) this assms(9)] obtain ds' where
    ds': "dev_register_char name maj mino ds = KOk (0, ds')" "dev_get name ds' = KOk (Some (length as))"
      "dev_view ds' (as @ [(nm, makedev maj mino, DEV_ATTR_CHAR)])"
      "\<forall>other ot. cstr other ot \<longrightarrow> ot \<noteq> nm \<longrightarrow> ot \<noteq> [110, 111, 110, 101] \<longrightarrow> dev_get other ds' = dev_get other ds" by blast
  have "dev_id (ds' ! length as) = makedev maj mino" "dev_at (ds' ! length as) = DEV_ATTR_CHAR"
    using dev_view_nth [OF ds'(3), of "length as"] by simp_all
  with ds' major_makedev [OF assms(5,6)] show ?thesis by metis
qed

lemma free_table_view: "dev_view (replicate 12 free_entry) []"
  unfolding dev_view_def
  by (intro exI [of _ "[]"] exI [of _ "replicate 12 free_entry"])
    (auto simp: K_DEV_COUNT_def list_all_iff free_dev_def free_entry_def none_name_def cstr_def)

theorem registered_device_found_witness:
  "\<exists>ds' i. dev_register_char [116, 116, 121, 0] 2 1 (replicate 12 free_entry) = KOk (0, ds') \<and>
     dev_get [116, 116, 121, 0] ds' = KOk (Some i) \<and> major (dev_id (ds' ! i)) = 2"
proof -
  have c: "cstr [116, 116, 121, 0] [116, 116, 121]" by (simp add: cstr_def)
  have n: "[116, 116, 121] \<noteq> [110, 111, 110, 101 :: u8]" by simp
  have g: "dev_get [116, 116, 121, 0] (replicate 12 free_entry) = KOk None"
    using dev_get_view [OF free_table_view c n] by simp
  have m: "makedev 2 1 \<noteq> 0" by (simp add: makedev_def)
  from registered_device_found [OF free_table_view c _ _ _ _ m g n] show ?thesis
    by (simp add: K_DEV_COUNT_def) blast
qed

theorem dev_register_disk_appends_witness:
  "\<exists>ds'. dev_register_disk [115, 100, 0] 3 0 demo_mbr (replicate 12 free_entry) = KOk (0, ds') \<and>
     dev_view ds' [([115, 100], 0x300, DEV_ATTR_DISK 512 0), ([115, 100, 50], 0x301, DEV_ATTR_DISK_PARTITION 12 16 258)]"
proof -
  have c: "cstr [115, 100, 0] [115, 100]" by (simp add: cstr_def)
  have nth: "demo_mbr ! 450 = 0" "demo_mbr ! 466 = 0" by (simp_all add: demo_mbr_nth)
  have nth': "demo_mbr ! 482 = 12" "demo_mbr ! 486 = 2" "demo_mbr ! 487 = 1" "demo_mbr ! 488 = 0" "demo_mbr ! 489 = 0"
    "demo_mbr ! 490 = 16" "demo_mbr ! 491 = 0" "demo_mbr ! 492 = 0" "demo_mbr ! 493 = 0" "demo_mbr ! 498 = 0"
    "demo_mbr ! 510 = 0x55" "demo_mbr ! 511 = 0xAA" "length demo_mbr = 512"
    by (simp_all add: demo_mbr_def nth_append nth_Cons')
  have devs: "mbr_devs [0..<4] [115, 100] 3 (0 + 1) demo_mbr = [([115, 100, 50], 0x301, DEV_ATTR_DISK_PARTITION 12 16 258)]"
    using nth nth' by (simp add: upt_rec le32_def makedev_def)
  have "makedev 3 (0 + of_nat k) \<noteq> 0" if "k \<le> 4" for k
  proof -
    have "k \<in> {0, 1, 2, 3, 4}" using that by auto
    then show ?thesis by (auto simp: makedev_def)
  qed
  from dev_register_disk_appends [OF free_table_view c _ _ _ _ _ this, of demo_mbr] nth' devs
  show ?thesis by (simp add: K_DEV_COUNT_def makedev_def)
qed

end
