(* ===== verification/System.thy ===== *)
theory System
  imports ExecBuf Irq Dev
begin

text \<open>
  The system task of software/system/kernel/system.c: start of the tasks, mounting of the root file
  system and start of \<open>init\<close>, then a loop that serves EXIT, KILL, FORK, EXEC, WAIT and BRK; the
  scheduling interrupt \<open>k_sys_irq_handler\<close> and the early initialisation \<open>k_sys_init\<close>. The serial
  console and POST codes are left out.
\<close>

section \<open>Constants and static data\<close>

definition EXIT :: u16 where "EXIT = 0x0301"
definition FORK :: u16 where "FORK = 0x0302"
definition EXEC :: u16 where "EXEC = 0x0303"
definition WAIT :: u16 where "WAIT = 0x0304"
definition KILL :: u16 where "KILL = 0x0305"
definition BRK :: u16 where "BRK = 0x0306"

text \<open>
  The addresses of the static data: the two message buffers of the main loop, \<open>_k_exec_buf\<close>, the
  buffer of \<open>proc_exec\<close>, the pid of the file system task, and code and stack of the tasks.
\<close>

datatype task = T_system | T_clock | T_debug | T_tty | T_mio | T_vfs | T_mouse | T_pcm | T_opl2 | T_idle

record sys_env =
  msg_in :: u32
  msg_out :: u32
  exec_buf :: u32
  elf_buf :: u32
  vfs_pid :: pid
  task_code :: "task \<Rightarrow> u32"
  task_stack :: "task \<Rightarrow> u32"

section \<open>Answers\<close>

text \<open>\<open>msg_out.body.u32 = v; send(dst, &msg_out)\<close>.\<close>

definition sys_reply :: "sys_env \<Rightarrow> pid \<Rightarrow> u32 \<Rightarrow> 'a kstate_scheme \<Rightarrow> (sr_result \<times> 'a kstate_scheme) kres" where
  "sys_reply e dst v s = sendreceive dst (msg_out e) O_SEND (s\<lparr>ram := store32 (ram s) (msg_out e + 4) v\<rparr>)"

section \<open>The requests\<close>

definition sys_kill_allowed :: "pid \<Rightarrow> pid \<Rightarrow> 'a kstate_scheme \<Rightarrow> bool kres" where
  "sys_kill_allowed src to_kill s =
     kbind (proc_get_uid src s) (\<lambda>u.
     if u = PROC_UID_KERNEL then KOk True
     else kbind (if u = PROC_UID_ROOT then kbind (proc_get_uid to_kill s) (\<lambda>v. KOk (v \<noteq> PROC_UID_KERNEL)) else KOk False) (\<lambda>b.
     if b then KOk True
     else kbind (proc_get_ppid to_kill s) (\<lambda>pp. KOk (word_of_int src = pp))))"

definition sys_kill ::
    "sys_env \<Rightarrow> 'a kstate_scheme exchange \<Rightarrow> pid \<Rightarrow> pid \<Rightarrow> 'a kstate_scheme \<Rightarrow> (sr_result \<times> 'a kstate_scheme) kres" where
  "sys_kill e exch src to_kill s =
     kbind (sys_kill_allowed src to_kill s) (\<lambda>ok.
     if ok then
       kbind (exch (vfs_pid e) (VFS_KILL (word_of_int to_kill)) s) (\<lambda>(_, s1).
       kbind (proc_kill to_kill s1) (\<lambda>s2. sys_reply e src 0 s2))
     else sys_reply e src (- 1) s)"

text \<open>
  FORK answers twice; an answer that blocks (its receiver does not wait for it) leaves the rest of the
  handler for later, which is not part of the model.
\<close>

definition sys_fork ::
    "sys_env \<Rightarrow> 'a kstate_scheme exchange \<Rightarrow> pid \<Rightarrow> 'a kstate_scheme \<Rightarrow> (sr_result \<times> 'a kstate_scheme) kres" where
  "sys_fork e exch src s =
     kbind (proc_fork src s) (\<lambda>(child, s1).
     if child \<noteq> PROC_PID_NONE then
       kbind (exch (vfs_pid e) (VFS_FORK src child) s1) (\<lambda>(_, s2).
       kbind (sys_reply e src (word_of_int child) s2) (\<lambda>(r, s3).
       case r of SR_return _ \<Rightarrow> sys_reply e child 0 s3 | _ \<Rightarrow> KOk (r, s3)))
     else sys_reply e src (- 1) s1)"

definition sys_exec ::
    "sys_env \<Rightarrow> 'a kstate_scheme exchange \<Rightarrow> pid \<Rightarrow> u32 \<Rightarrow> u32 \<Rightarrow> 'a kstate_scheme \<Rightarrow> (sr_result \<times> 'a kstate_scheme) kres" where
  "sys_exec e exch src argv envp s =
     kbind (copy_argv_envp (exec_buf e) src argv envp s) (\<lambda>(sts, ln, envoff, s1).
     if sts < 0 then sys_reply e src (word_of_int sts) s1
     else kbind (proc_exec exch (elf_buf e) src (exec_buf e) ln envoff s1) (\<lambda>(sts', s2).
       if sts' < 0 then sys_reply e src (word_of_int sts') s2
       else sys_reply e src 0 s2))"

definition sys_brk :: "sys_env \<Rightarrow> pid \<Rightarrow> u32 \<Rightarrow> 'a kstate_scheme \<Rightarrow> (sr_result \<times> 'a kstate_scheme) kres" where
  "sys_brk e src sz s = kbind (proc_brk src sz s) (\<lambda>(r, s1). sys_reply e src (word_of_int r) s1)"

text \<open>The \<open>switch\<close> on the message in \<open>msg\<close>, received from \<open>src\<close>; other types are ignored.\<close>

definition sys_dispatch ::
    "sys_env \<Rightarrow> 'a kstate_scheme exchange \<Rightarrow> pid \<Rightarrow> 'a kstate_scheme \<Rightarrow> (sr_result \<times> 'a kstate_scheme) kres" where
  "sys_dispatch e exch src s =
     (let ty = load16 (ram s) (msg_in e); w = load32 (ram s) (msg_in e + 4); w2 = load32 (ram s) (msg_in e + 8) in
      if ty = EXIT then kbind (proc_exit src w s) (\<lambda>s1. KOk (SR_return 0, s1))
      else if ty = KILL then sys_kill e exch src (sint (load16 (ram s) (msg_in e + 4))) s
      else if ty = FORK then sys_fork e exch src s
      else if ty = EXEC then sys_exec e exch src w w2 s
      else if ty = WAIT then kbind (proc_wait src s) (\<lambda>s1. KOk (SR_return 0, s1))
      else if ty = BRK then sys_brk e src w s
      else KOk (SR_return 0, s))"

text \<open>
  One turn of the main loop. A negative value is a signal, which resets the machine
  (\<open>k_reset\<close> never returns). When the receive yields, \<open>sys_resume\<close> continues.
\<close>

definition sys_message ::
    "sys_env \<Rightarrow> 'a kstate_scheme exchange \<Rightarrow> pid \<Rightarrow> 'a kstate_scheme \<Rightarrow> (sr_result \<times> 'a kstate_scheme) kres" where
  "sys_message e exch src s = (if src \<ge> 0 then sys_dispatch e exch src s else KHang)"

definition sys_turn ::
    "sys_env \<Rightarrow> 'a kstate_scheme exchange \<Rightarrow> 'a kstate_scheme \<Rightarrow> (sr_result \<times> 'a kstate_scheme) kres" where
  "sys_turn e exch s =
     (let s0 = s\<lparr>ram := (ram s)(msg_out e := 0, msg_out e + 1 := 0)\<rparr> in
      kbind (sendreceive PROC_PID_ANY (msg_in e) O_RECV s0) (\<lambda>(r, s1).
      case r of SR_return src \<Rightarrow> sys_message e exch src s1 | _ \<Rightarrow> KOk (r, s1)))"

definition sys_resume ::
    "sys_env \<Rightarrow> 'a kstate_scheme exchange \<Rightarrow> 'a kstate_scheme \<Rightarrow> (sr_result \<times> 'a kstate_scheme) kres" where
  "sys_resume e exch s = sys_message e exch (sr_resume O_RECV (desc s 0)) s"

section \<open>The scheduling interrupt\<close>

definition B68K_MFP_REG_SYSCFG :: u8 where "B68K_MFP_REG_SYSCFG = 12"
definition B68K_MFP_REG_SYSSTS :: u8 where "B68K_MFP_REG_SYSSTS = 13"
definition B68K_MFP_SYS_IRQ_TMR_MASK :: u8 where "B68K_MFP_SYS_IRQ_TMR_MASK = 0x01"

text \<open>The flags \<open>sts\<close> that have been read are written back to clear them.\<close>

definition sys_irq_ack :: "u8 \<Rightarrow> 's irq \<Rightarrow> 's irq" where
  "sys_irq_ack sts i =
     (let save = mfp_addr i;
          i1 = mfp_write sts (i\<lparr>mfp_addr := B68K_MFP_REG_SYSSTS\<rparr>)
      in i1\<lparr>mfp_addr := save\<rparr>)"

definition k_sys_irq_handler :: "u8 \<Rightarrow> 's irq \<Rightarrow> 'a kstate_scheme \<Rightarrow> ('s irq \<times> 'a kstate_scheme) kres" where
  "k_sys_irq_handler sts i s =
     (let i1 = sys_irq_ack sts i in
      kbind (proc_schedule PROC_PID_ANY s) (\<lambda>(p, s1).
      if p = K_PROC_IDLE then kbind (proc_schedule PROC_PID_ANY s1) (\<lambda>(_, s2). KOk (i1, s2)) else KOk (i1, s1)))"

section \<open>Start\<close>

definition task_name :: "task \<Rightarrow> u8 list" where
  "task_name t = (case t of
     T_system \<Rightarrow> [115, 121, 115, 116, 101, 109, 0] | T_clock \<Rightarrow> [99, 108, 111, 99, 107, 0] | T_debug \<Rightarrow> [100, 101, 98, 117, 103, 0]
   | T_tty \<Rightarrow> [116, 116, 121, 0] | T_mio \<Rightarrow> [109, 105, 111, 0] | T_vfs \<Rightarrow> vfs_name | T_mouse \<Rightarrow> [109, 111, 117, 115, 101, 0]
   | T_pcm \<Rightarrow> [112, 99, 109, 0] | T_opl2 \<Rightarrow> [111, 112, 108, 50, 0] | T_idle \<Rightarrow> idle_name)"

definition task_stack_size :: "task \<Rightarrow> u32" where
  "task_stack_size t = (case t of T_system \<Rightarrow> 2048 | T_clock \<Rightarrow> 1024 | T_debug \<Rightarrow> 1024 | T_tty \<Rightarrow> 1024 | T_mio \<Rightarrow> 2048 | T_vfs \<Rightarrow> 1024 | _ \<Rightarrow> 512)"

definition start_task :: "sys_env \<Rightarrow> pid \<Rightarrow> task \<Rightarrow> 'a kstate_scheme \<Rightarrow> (pid \<times> 'a kstate_scheme) kres" where
  "start_task e p t s = proc_create_task p (task_name t) (task_code e t) (task_stack e t) (task_stack_size t) s"

text \<open>
  The tasks, with \<open>wait p\<close> for what happens while the system task yields until the task \<open>p\<close> blocks.
  The results are the pids of the memory card driver and of the file system.
\<close>

definition create_tasks ::
    "sys_env \<Rightarrow> (pid \<Rightarrow> 'a kstate_scheme \<Rightarrow> 'a kstate_scheme kres) \<Rightarrow> 'a kstate_scheme \<Rightarrow> (pid \<times> 'a kstate_scheme) kres" where
  "create_tasks e wait s =
     kbind (start_task e 2 T_clock s) (\<lambda>(_, s).
     kbind (start_task e 1 T_debug s) (\<lambda>(_, s).
     kbind (start_task e 4 T_tty s) (\<lambda>(tty_pid, s).
     kbind (wait tty_pid s) (\<lambda>s.
     kbind (start_task e 5 T_mio s) (\<lambda>(mio_pid, s).
     kbind (start_task e 3 T_vfs s) (\<lambda>(vfs, s).
     kbind (start_task e PROC_PID_ANY T_mouse s) (\<lambda>(_, s).
     kbind (wait mio_pid s) (\<lambda>s.
     kbind (start_task e PROC_PID_ANY T_pcm s) (\<lambda>(_, s).
     kbind (start_task e PROC_PID_ANY T_opl2 s) (\<lambda>(_, s).
     kbind (wait vfs s) (\<lambda>s. KOk (vfs, s))))))))))))"

text \<open>\<open>_root_boot_list\<close>: pairs of device and file system, and the loop that mounts the first that works.\<close>

definition root_boot_list :: "(u8 list \<times> u8 list) list" where
  "root_boot_list = [([115, 101, 114, 105, 97, 108, 0], [114, 102, 115, 0]),
     ([115, 100, 97, 48, 0], [102, 97, 116, 0]), ([115, 100, 98, 48, 0], [102, 97, 116, 0])]"

fun mount_root ::
    "pid \<Rightarrow> 'a kstate_scheme exchange \<Rightarrow> (u8 list \<times> u8 list) list \<Rightarrow> 'a kstate_scheme \<Rightarrow> (bool \<times> 'a kstate_scheme) kres" where
  "mount_root v exch [] s = KOk (False, s)"
| "mount_root v exch ((dev, type) # rest) s =
     kbind (exch v (MOUNT dev [47, 0] type) s) (\<lambda>(r, s1).
     if r = 0 then KOk (True, s1) else mount_root v exch rest s1)"

text \<open>\<open>argenv\<close>: the arguments of \<open>init\<close>, an argument area as \<open>proc_exec\<close> expects it.\<close>

definition init_argenv :: "u8 list" where
  "init_argenv = [0, 0, 0, 8, 0, 0, 0, 0] @ [47, 115, 98, 105, 110, 47, 105, 110, 105, 116, 0, 0] @ [0, 0, 0, 0]"

definition start_init ::
    "sys_env \<Rightarrow> 'a kstate_scheme exchange \<Rightarrow> u32 \<Rightarrow> 'a kstate_scheme \<Rightarrow> 'a kstate_scheme kres" where
  "start_init e exch argenv s =
     kbind (proc_create_init [105, 110, 105, 116, 0] 0 s) (\<lambda>(init_pid, s1).
     kbind (proc_exec exch (elf_buf e) init_pid argenv (of_nat (length init_argenv)) 0 s1) (\<lambda>(r, s2).
     if r < 0 then KOk s2 else proc_sig init_pid SIGALRM s2))"

definition system_task_start ::
    "sys_env \<Rightarrow> 'a kstate_scheme exchange \<Rightarrow> (pid \<Rightarrow> 'a kstate_scheme \<Rightarrow> 'a kstate_scheme kres) \<Rightarrow> u32 \<Rightarrow>
     'a kstate_scheme \<Rightarrow> 'a kstate_scheme kres" where
  "system_task_start e exch wait argenv s =
     kbind (create_tasks e wait s) (\<lambda>(vfs, s1).
     kbind (mount_root vfs exch root_boot_list s1) (\<lambda>(mounted, s2).
     if \<not> mounted then KOk s2
     else
       kbind (exch vfs (MOUNT [100, 101, 118, 102, 115, 0] [47, 100, 101, 118, 0] [100, 101, 118, 102, 115, 0]) s2) (\<lambda>(r, s3).
       if r \<noteq> 0 then KOk s3 else start_init e exch argenv s3)))"

text \<open>\<open>k_sys_init\<close>: memory, interrupts, processes, devices, then the system task runs.\<close>

definition k_sys_init ::
    "sys_env \<Rightarrow> kstate \<times> (clock \<times> kstate) irq \<times> devtab \<Rightarrow> (kstate \<times> (clock \<times> kstate) irq \<times> devtab) kres" where
  "k_sys_init e x =
     (let (s, i, d) = x; s1 = mem_init s; 
          i1 = mfp_write B68K_MFP_SYS_IRQ_TMR_MASK ((irq_init i)\<lparr>mfp_addr := B68K_MFP_REG_SYSCFG\<rparr>) in
      kbind (proc_init (task_code e T_idle) (task_stack e T_idle) s1) (\<lambda>s2.
      kbind (dev_init d) (\<lambda>d1.
      kbind (start_task e PROC_PID_SYSTEM_TASK T_system s2) (\<lambda>(p, s3).
      kbind (proc_schedule p s3) (\<lambda>(_, s4). KOk (s4, i1, d1))))))"

end
