(* ===== verification/SystemProps.thy ===== *)
theory SystemProps
  imports System KernelProps
begin

text \<open>
  Properties of the system task and of the scheduling interrupt: who may kill whom, what a fork
  gives to its two callers, when the idle task runs, and the state the initialisation leaves.
\<close>

section \<open>Answers to a waiting caller\<close>

text \<open>The system task runs, and \<open>p\<close> waits for it: the answer arrives and \<open>p\<close> is ready again.\<close>

lemma sys_reply_arrives:
  assumes "table_ok s" and "sys_runs s" and "in_call s p" and "p \<noteq> 0"
    and "region (pa_msg (desc s p)) 20 \<inter> region (msg_out e) 20 = {}"
  shows "\<exists>r s'. sys_reply e p v s = KOk (SR_return r, s') \<and> table_ok s' \<and> sys_runs s' \<and>
    p_state (desc s' p) = ST_READY \<and> load32 (ram s') (pa_msg (desc s p) + 4) = v \<and>
    (\<forall>x. x \<noteq> p \<longrightarrow> x \<noteq> 0 \<longrightarrow> desc s' x = desc s x) \<and> blk_sts s' = blk_sts s \<and>
    (\<forall>a. a \<notin> region (pa_msg (desc s p)) 20 \<longrightarrow> a \<notin> region (msg_out e) 20 \<longrightarrow> ram s' a = ram s a)"
proof -
  let ?s0 = "s\<lparr>ram := store32 (ram s) (msg_out e + 4) v\<rparr>"
  have p: "p \<in> pids" "p_state (desc s p) = ST_BLOCKED" "m_to (desc s p) = PROC_PID_NONE" "m_from (desc s p) = 0"
    using assms(3) by (simp_all add: in_call_def PROC_PID_SYSTEM_TASK_def)
  have z: "proc_ptr s = Some 0" "p_state (desc s 0) = ST_READY" using assms(2) by (simp_all add: sys_runs_def)
  have "caller ?s0 0" using assms(1) z(2) by (simp add: caller_def)
  then obtain r s' where s': "sendreceive p (msg_out e) O_SEND ?s0 = KOk (r, s')" "table_ok s'"
    "a_call 0 p (msg_out e) O_SEND (ipc_of ?s0) = (ret_of r, ipc_of s')" "blk_sts s' = blk_sts s"
    "r \<noteq> SR_restart \<longrightarrow> proc_ptr s' = Some 0"
    using sendreceive_run [of ?s0 0 p "msg_out e" O_SEND] p(1) z(1) by auto
  have ops: "O_SEND AND O_RECV = 0" "O_SEND AND O_SEND \<noteq> 0" by (simp_all add: O_RECV_def O_SEND_def)
  have pa: "p \<noteq> PROC_PID_ANY" using p(1) by (auto simp: PROC_PID_ANY_def pids_def)
  have a: "a_call 0 p (msg_out e) O_SEND (ipc_of ?s0) =
      (Some p, (desc s)(0 := (desc s 0)\<lparr>pa_msg := msg_out e, m_to := PROC_PID_NONE, m_from := PROC_PID_NONE\<rparr>,
         p := (desc s p)\<lparr>m_from := 0, d_regs := (d_regs (desc s p))(0 := 0), p_state := ST_READY\<rparr>),
       memcpy32 (ram ?s0) (pa_msg (desc s p)) (msg_out e) MSG_WORDS)"
    using ops p pa assms(4) by (auto simp: ipc_of_def a_call_def a_send_def a_recv_def fun_eq_iff)
  have r: "r = SR_return p" using s'(3) a by (cases r) (auto simp: ret_of_def)
  have d: "desc s' x = (if x = p then (desc s p)\<lparr>m_from := 0, d_regs := (d_regs (desc s p))(0 := 0), p_state := ST_READY\<rparr>
      else if x = 0 then (desc s 0)\<lparr>pa_msg := msg_out e, m_to := PROC_PID_NONE, m_from := PROC_PID_NONE\<rparr> else desc s x)" for x
    using s'(3) a assms(4) by (auto simp: ipc_of_def fun_eq_iff)
  have m: "ram s' = memcpy32 (ram ?s0) (pa_msg (desc s p)) (msg_out e) 5" using s'(3) a by (simp add: ipc_of_def MSG_WORDS_def)
  have cp: "ram s' (pa_msg (desc s p) + of_nat k) = ram ?s0 (msg_out e + of_nat k)" if "k < 20" for k
    unfolding m by (rule memcpy32_disjoint) (use assms(5) that in simp_all)
  have "load32 (ram s') (pa_msg (desc s p) + 4) = load32 (ram ?s0) (msg_out e + 4)"
    using cp [of 4] cp [of 5] cp [of 6] cp [of 7] by (simp add: load32_def add.assoc)
  then have v: "load32 (ram s') (pa_msg (desc s p) + 4) = v" by (simp add: load32_store32)
  have out: "ram s' a = ram s a" if "a \<notin> region (pa_msg (desc s p)) 20" "a \<notin> region (msg_out e) 20" for a
  proof -
    have "a \<notin> region (msg_out e + 4) 4" using that(2) region_sub [of 4 4 20 "msg_out e"] by auto
    with that(1) show ?thesis by (simp add: m memcpy32_outside store32_outside)
  qed
  show ?thesis
    using s'(1,2,4,5) r d v out z assms(4) by (intro exI [of _ p] exI [of _ s']) (simp add: sys_reply_def sys_runs_def)
qed

section \<open>Fork\<close>

lemma fork_frame:
  assumes "reachable s" and "sys_runs s" and "in_call s p" and "user_proc s p" and "proc_fork p s = KOk (c, s1)"
    and "c \<noteq> PROC_PID_NONE"
  shows "proc_ptr s1 = proc_ptr s \<and> c \<noteq> p \<and> c \<noteq> 0 \<and> p_state (desc s1 c) = ST_BLOCKED \<and> m_to (desc s1 c) = m_to (desc s p) \<and>
    m_from (desc s1 c) = m_from (desc s p) \<and> c \<in> pids \<and> mem_sz (desc s1 c) = mem_sz (desc s p) \<and>
    pa_msg (desc s1 c) - mem_ad (desc s1 c) = pa_msg (desc s p) - mem_ad (desc s p) \<and> (\<forall>x. x \<noteq> c \<longrightarrow> desc s1 x = desc s x)"
proof -
  note inv = reachable_kernel_inv [OF assms(1)]
  obtain q where q: "proc_free s = Some q" using assms(5,6) by (cases "proc_free s") (auto simp: proc_fork_def)
  note qf = free_head_pos [OF kernel_invD(1) [OF inv] assms(2) q]
  have p: "p \<in> pids" "p_state (desc s p) = ST_BLOCKED" using assms(3) by (simp_all add: in_call_def)
  have qp: "q \<noteq> p" "q \<noteq> 0" using qf p by auto
  from fork_ok [OF kernel_invD(1) [OF inv] p user_region_small [OF kernel_invD(3) [OF inv] assms(4)] q] assms(5) obtain a where
    s1: "c = (if a = 0 then PROC_PID_NONE else q)" "\<And>x. desc s1 x = (if x = q then fork_desc (desc s p) p a else desc s x)" by auto
  have a: "a \<noteq> 0" "c = q" using assms(6) s1(1) by (auto split: if_splits)
  from fork_ok [OF kernel_invD(1) [OF inv] p user_region_small [OF kernel_invD(3) [OF inv] assms(4)] q] assms(5)
  have "proc_ptr s1 = proc_ptr s" by auto
  with qp a qf(1) show ?thesis by (simp add: s1(2) fork_desc_def)
qed

lemma fork_children:
  assumes "reachable s" and "sys_runs s" and "in_call s p" and "user_proc s p" and "proc_fork p s = KOk (c, s1)"
    and "c \<noteq> PROC_PID_NONE"
  shows "c \<noteq> p \<and> c \<noteq> 0 \<and> in_call s1 p \<and> in_call s1 c \<and>
    pa_msg (desc s1 c) - mem_ad (desc s1 c) = pa_msg (desc s1 p) - mem_ad (desc s1 p)"
  using fork_frame [OF assms] assms(3) by (auto simp: in_call_def)

text \<open>C18. A successful FORK returns twice: both the parent, with the pid of the child, and the child,
  with 0, are ready with the answer in their own message, at the same offset of their memory. The file
  system is assumed to have left the two processes and the system task as they were while it
  duplicated the open files.\<close>

theorem fork_returns_twice:
  assumes "reachable s" and "sys_runs s" and "in_call s p" and "user_proc s p"
    and "proc_fork p s = KOk (c, s1)" and "c \<noteq> PROC_PID_NONE"
    and "exch (vfs_pid e) (VFS_FORK p c) s1 = KOk (x, s2)" and "table_ok s2" and "sys_runs s2"
    and "desc s2 p = desc s1 p" and "desc s2 c = desc s1 c"
    and "region (pa_msg (desc s1 p)) 20 \<inter> region (msg_out e) 20 = {}"
    and "region (pa_msg (desc s1 c)) 20 \<inter> region (msg_out e) 20 = {}"
    and "region (pa_msg (desc s1 p)) 20 \<inter> region (pa_msg (desc s1 c)) 20 = {}"
  shows "\<exists>r s'. sys_fork e exch p s = KOk (SR_return r, s') \<and>
    p_state (desc s' p) = ST_READY \<and> load32 (ram s') (pa_msg (desc s1 p) + 4) = word_of_int c \<and>
    p_state (desc s' c) = ST_READY \<and> load32 (ram s') (pa_msg (desc s1 c) + 4) = 0 \<and>
    pa_msg (desc s1 c) - mem_ad (desc s1 c) = pa_msg (desc s1 p) - mem_ad (desc s1 p)"
proof -
  have "c \<noteq> p \<and> c \<noteq> 0 \<and> in_call s1 p \<and> in_call s1 c \<and>
    pa_msg (desc s1 c) - mem_ad (desc s1 c) = pa_msg (desc s1 p) - mem_ad (desc s1 p)"
    by (rule fork_children [OF assms(1-6)])
  then have cs: "c \<noteq> p" "c \<noteq> 0" "in_call s2 p" "in_call s2 c"
    "pa_msg (desc s1 c) - mem_ad (desc s1 c) = pa_msg (desc s1 p) - mem_ad (desc s1 p)"
    using assms(10,11) by (simp_all add: in_call_def)
  have p0: "p \<noteq> 0" using regions_okD [OF kernel_invD(3) [OF reachable_kernel_inv [OF assms(1)]] assms(4)] by auto
  obtain r3 s3 where s3: "sys_reply e p (word_of_int c) s2 = KOk (SR_return r3, s3)" "table_ok s3" "sys_runs s3"
    "p_state (desc s3 p) = ST_READY" "load32 (ram s3) (pa_msg (desc s2 p) + 4) = word_of_int c"
    "\<forall>x. x \<noteq> p \<longrightarrow> x \<noteq> 0 \<longrightarrow> desc s3 x = desc s2 x"
    using sys_reply_arrives [OF assms(8,9) cs(3) p0, of e "word_of_int c"] assms(10,12) by auto
  have c3: "in_call s3 c" "desc s3 c = desc s1 c" using cs s3(6) assms(11) by (simp_all add: in_call_def)
  have ap: "region (pa_msg (desc s3 c)) 20 \<inter> region (msg_out e) 20 = {}" using assms(13) c3(2) by simp
  obtain r4 s4 where s4: "sys_reply e c 0 s3 = KOk (SR_return r4, s4)"
    "p_state (desc s4 c) = ST_READY" "load32 (ram s4) (pa_msg (desc s3 c) + 4) = 0"
    "\<forall>x. x \<noteq> c \<longrightarrow> x \<noteq> 0 \<longrightarrow> desc s4 x = desc s3 x"
    "\<forall>a. a \<notin> region (pa_msg (desc s3 c)) 20 \<longrightarrow> a \<notin> region (msg_out e) 20 \<longrightarrow> ram s4 a = ram s3 a"
    using sys_reply_arrives [OF s3(2,3) c3(1) cs(2) ap, of 0] by blast
  have "load32 (ram s4) (pa_msg (desc s1 p) + 4) = load32 (ram s3) (pa_msg (desc s1 p) + 4)"
  proof (rule load32_cong)
    fix y assume "y \<in> region (pa_msg (desc s1 p) + 4) 4"
    then have "y \<in> region (pa_msg (desc s1 p)) 20" using region_sub [of 4 4 20 "pa_msg (desc s1 p)"] by auto
    with assms(12,14) c3(2) s4(5) show "ram s4 y = ram s3 y" by (metis disjoint_iff)
  qed
  moreover have "sys_fork e exch p s = KOk (SR_return r4, s4)"
    using assms(5-7) s3(1) s4(1) by (simp add: sys_fork_def)
  ultimately show ?thesis using s3(4,5) s4(2-4) cs p0 c3(2) assms(10) by auto
qed

text \<open>Somewhere below the memory of the processes.\<close>

definition demo_env :: sys_env where
  "demo_env = \<lparr>msg_in = 0x200, msg_out = 0x100, exec_buf = 0x3000, elf_buf = 0x2000, vfs_pid = 3,
     task_code = (\<lambda>_. 0x1000), task_stack = (\<lambda>_. 0x5000)\<rparr>"

lemma region_ok_above:
  assumes "region_ok s p a 32"
  shows "region (a + 4) 20 \<subseteq> region a 32" "region (a + 4) 20 \<inter> region 0x100 20 = {}"
proof -
  show sub: "region (a + 4) 20 \<subseteq> region a 32" using region_sub [of 20 4 32 a] by simp
  obtain b where b: "a = push_bit 12 (of_nat b)" "64 \<le> b" "b + 1 \<le> 512"
    using assms blocks_32 by (auto simp: region_ok_def)
  have "unat (of_nat b :: u32) = b" using b(3) by (simp add: unat_of_nat take_bit_nat_eq_self)
  then have "unat a = b * 4096" using b by (simp add: unat_push_bit)
  then have "region 0x100 20 \<inter> region a 32 = {}"
    by (intro regions_apart) (use b in simp_all)
  with sub show "region (a + 4) 20 \<inter> region 0x100 20 = {}" by blast
qed

theorem fork_returns_twice_witness:
  "\<exists>s p c s1 r s'. reachable s \<and> proc_fork p s = KOk (c, s1) \<and> p \<noteq> c \<and>
     sys_fork demo_env (\<lambda>_ _ s. KOk (0, s)) p s = KOk (SR_return r, s') \<and>
     load32 (ram s') (pa_msg (desc s1 p) + 4) = word_of_int c \<and> load32 (ram s') (pa_msg (desc s1 c) + 4) = 0"
proof -
  obtain s q c s1 where s: "reachable s" "sys_runs s" "in_call s q" "user_proc s q" "proc_free s = Some c"
    "proc_fork q s = KOk (c, s1)" "reachable s1" "q \<noteq> c" "user_proc s1 q" "user_proc s1 c" "mem_sz (desc s q) = 32"
    "pa_msg (desc s q) = mem_ad (desc s q) + 4" using demo_fork by blast
  note cf = free_head_pos [OF kernel_invD(1) [OF reachable_kernel_inv [OF s(1)]] s(2,5)]
  have c: "c \<noteq> PROC_PID_NONE" using cf(3) by (simp add: PROC_PID_NONE_def)
  note f = fork_frame [OF s(1,2,3,4,6) c]
  note ro = regions_okD [OF kernel_invD(3) [OF reachable_kernel_inv [OF s(7)]]]
  have sz: "mem_sz (desc s1 q) = 32" "mem_sz (desc s1 c) = 32" using f s(8,11) by auto
  have rq: "region_ok s1 q (mem_ad (desc s1 q)) 32" and rc: "region_ok s1 c (mem_ad (desc s1 c)) 32"
    using ro [OF s(9)] ro [OF s(10)] sz by simp_all
  have pq: "pa_msg (desc s1 q) = mem_ad (desc s1 q) + 4" using f s(8,12) by auto
  have "pa_msg (desc s1 c) - mem_ad (desc s1 c) = 4" using f s(8,12) by auto
  then have pc: "pa_msg (desc s1 c) = mem_ad (desc s1 c) + 4" by (metis add.commute diff_add_cancel)
  have "region (mem_ad (desc s1 q)) 32 \<inter> region (mem_ad (desc s1 c)) 32 = {}"
    using region_ok_bytes_disjoint [OF rq rc s(8)] by simp
  then have ap: "region (pa_msg (desc s1 q)) 20 \<inter> region (pa_msg (desc s1 c)) 20 = {}"
    using region_ok_above(1) [OF rq] region_ok_above(1) [OF rc] unfolding pq pc by blast
  have out: "region (pa_msg (desc s1 q)) 20 \<inter> region (msg_out demo_env) 20 = {}"
    "region (pa_msg (desc s1 c)) 20 \<inter> region (msg_out demo_env) 20 = {}"
    unfolding pq pc using region_ok_above(2) [OF rq] region_ok_above(2) [OF rc] by (simp_all add: demo_env_def)
  have sys1: "sys_runs s1" using f s(2) cf by (auto simp: sys_runs_def)
  from fork_returns_twice [OF s(1,2,3,4,6) c _ kernel_invD(1) [OF reachable_kernel_inv [OF s(7)]] sys1 refl refl out ap,
      of "\<lambda>_ _ s. KOk (0, s)"] s(1,6,8)
  show ?thesis by blast
qed

section \<open>Kill\<close>

lemma of_int_pid_inj: "p \<in> pids \<Longrightarrow> q \<in> pids \<Longrightarrow> (word_of_int p :: u32) = word_of_int q \<longleftrightarrow> p = q"
  by (auto simp: pids_def word_of_int_eq_iff take_bit_int_eq_self)

lemma of_int_pid_none: "p \<in> pids \<Longrightarrow> (word_of_int p :: u32) \<noteq> - 1"
proof
  assume p: "p \<in> pids" and e: "(word_of_int p :: u32) = - 1"
  have "uint (word_of_int p :: u32) = p" using p by (simp add: pids_def uint_word_of_int_eq take_bit_int_eq_self)
  moreover have "uint (- 1 :: u32) = 4294967295" by code_simp
  ultimately show False using p e by (simp add: pids_def)
qed

definition may_kill :: "'a kstate_scheme \<Rightarrow> pid \<Rightarrow> pid \<Rightarrow> bool" where
  "may_kill s src t \<longleftrightarrow>
     uid (desc s src) = PROC_UID_KERNEL \<or>
     uid (desc s src) = PROC_UID_ROOT \<and> (p_state (desc s t) = ST_NONE \<or> uid (desc s t) \<noteq> PROC_UID_KERNEL) \<or>
     p_state (desc s t) \<noteq> ST_NONE \<and> ppid (desc s t) = src"

lemma kill_allowed:
  assumes "table_ok s" and "src \<in> pids" and "t \<in> pids" and "p_state (desc s src) \<noteq> ST_NONE"
  shows "sys_kill_allowed src t s = KOk (may_kill s src t)"
proof -
  have c: "src < K_PROC_COUNT" "t < K_PROC_COUNT" using assms(2,3) by (simp_all add: pids_def K_PROC_COUNT_def)
  have pp: "ppid (desc s t) \<in> pids" using table_wfD(3) [OF table_okD(1) [OF assms(1)] assms(3)] .
  show ?thesis
    using assms(4) c of_int_pid_inj [OF assms(2) pp] of_int_pid_none [OF assms(2)]
    by (auto simp: sys_kill_allowed_def proc_get_uid_def proc_get_ppid_def entry_pids assms(2,3) may_kill_def
        PROC_UID_NONE_def PROC_UID_KERNEL_def PROC_UID_ROOT_def)
qed

text \<open>C20. KILL by a process that is neither a kernel task, nor root aiming at something other than a
  kernel task, nor the parent of the target, is refused: the caller gets -1 and no other process, no
  memory block and no file changes.\<close>

theorem kill_needs_permission:
  assumes "table_ok s" and "sys_runs s" and "in_call s src" and "src \<noteq> 0" and "t \<in> pids"
    and "uid (desc s src) \<noteq> PROC_UID_KERNEL"
    and "uid (desc s src) = PROC_UID_ROOT \<Longrightarrow> p_state (desc s t) \<noteq> ST_NONE \<and> uid (desc s t) = PROC_UID_KERNEL"
    and "ppid (desc s t) \<noteq> src"
    and "region (pa_msg (desc s src)) 20 \<inter> region (msg_out e) 20 = {}"
  shows "\<exists>r s'. sys_kill e exch src t s = KOk (SR_return r, s') \<and> p_state (desc s' src) = ST_READY \<and>
    load32 (ram s') (pa_msg (desc s src) + 4) = - 1 \<and> blk_sts s' = blk_sts s \<and>
    (\<forall>x. x \<noteq> src \<longrightarrow> x \<noteq> 0 \<longrightarrow> desc s' x = desc s x)"
proof -
  have "src \<in> pids" "p_state (desc s src) \<noteq> ST_NONE" using assms(3) by (simp_all add: in_call_def)
  from kill_allowed [OF assms(1) this(1) assms(5) this(2)]
  have "sys_kill_allowed src t s = KOk False" using assms(6-8) by (auto simp: may_kill_def)
  then have "sys_kill e exch src t s = sys_reply e src (- 1) s" by (simp add: sys_kill_def)
  with sys_reply_arrives [OF assms(1-4,9), of "- 1"] show ?thesis by auto
qed

theorem kill_needs_permission_witness:
  "\<exists>s q r s'. reachable s \<and> user_proc s q \<and> sys_kill demo_env (\<lambda>_ _ s. KOk (0, s)) q 31 s = KOk (SR_return r, s') \<and>
     load32 (ram s') (pa_msg (desc s q) + 4) = - 1"
proof -
  obtain s q where s: "reachable s" "sys_runs s" "in_call s q" "user_proc s q" "mem_sz (desc s q) = 32"
    "pa_msg (desc s q) = mem_ad (desc s q) + 4" "uid (desc s 31) = PROC_UID_KERNEL" "ppid (desc s 31) = 0" using demo_fork by blast
  note ok = kernel_invD(1) [OF reachable_kernel_inv [OF s(1)]]
  note r = regions_okD [OF kernel_invD(3) [OF reachable_kernel_inv [OF s(1)]] s(4)]
  have i: "p_state (desc s 31) = ST_READY" by (rule table_okD(2) [OF ok])
  have ap: "region (pa_msg (desc s q)) 20 \<inter> region (msg_out demo_env) 20 = {}"
    using region_ok_above(2) [of s q "mem_ad (desc s q)"] r s(5,6) by (simp add: demo_env_def)
  have "q \<noteq> 0" "uid (desc s q) \<noteq> PROC_UID_KERNEL" using r s(4) by (auto simp: user_proc_def)
  from kill_needs_permission [OF ok s(2,3) this(1) pids_31(1) this(2) _ _ ap] i s(1,4,7,8) \<open>q \<noteq> 0\<close>
  show ?thesis by (metis proc_state.distinct(3))
qed

section \<open>The scheduling interrupt\<close>

text \<open>The scheduling interrupt always finds a process to run, and it is the idle task only when no
  other process is ready; the interrupted code finds the MFP address register as it left it.\<close>

theorem sys_irq_idle_last:
  assumes "table_ok s"
  shows "\<exists>i' s' q. k_sys_irq_handler sts i s = KOk (i', s') \<and> table_ok s' \<and> mfp_addr i' = mfp_addr i \<and>
    proc_ptr s' = Some q \<and> p_state (desc s' q) = ST_READY \<and> (\<forall>x. desc s' x = desc s x) \<and>
    (q = K_PROC_IDLE \<longrightarrow> {p \<in> pids. p_state (desc s p) = ST_READY} = {K_PROC_IDLE})"
proof -
  obtain q s' where q: "kbind (proc_schedule PROC_PID_ANY s) (\<lambda>(p, s1).
      kbind (if p = K_PROC_IDLE then proc_schedule PROC_PID_ANY s1 else KOk (p, s1)) (\<lambda>(_, s2). KOk (SR_restart, s2))) = KOk (SR_restart, s')"
    "s' = dispatch q s \<or> s' = dispatch q (dispatch 31 s)" "table_ok s'" "q \<in> st_set s ST_READY" "q = 31 \<longrightarrow> st_set s ST_READY = {31}"
    using switch_any [OF assms] by blast
  have "k_sys_irq_handler sts i s = KOk (sys_irq_ack sts i, s')"
    using q(1) by (auto simp: k_sys_irq_handler_def kbind_KOk_iff Let_def split: if_splits prod.splits)
  moreover have "mfp_addr (sys_irq_ack sts i) = mfp_addr i" by (simp add: sys_irq_ack_def)
  ultimately show ?thesis using q(2-5) by (intro exI [of _ "sys_irq_ack sts i"] exI [of _ s'] exI [of _ q])
    (auto simp: st_set_def K_PROC_IDLE_def K_PROC_COUNT_def)
qed

theorem sys_irq_idle_last_witness:
  "\<exists>s i' s'. reachable s \<and> k_sys_irq_handler 1 (irq_init \<lparr>irq_handlers = \<lambda>_. \<lparr>enable = 0, handler = None\<rparr>, mfp_addr = 4, mfp_writes = []\<rparr> :: nat irq) s = KOk (i', s')"
proof -
  obtain s where "reachable s" using demo_boot by blast
  with sys_irq_idle_last [OF kernel_invD(1) [OF reachable_kernel_inv [OF this]]] show ?thesis by blast
qed

section \<open>Initialisation\<close>

lemma dev_init_free:
  "list_all (\<lambda>d. length (dev_nm d) = 8) ds \<Longrightarrow> \<exists>ds'. dev_init_entries ds = KOk ds' \<and> length ds' = length ds \<and> list_all free_dev ds'"
proof (induction ds)
  case (Cons d ds)
  have c: "cstr none_name [110, 111, 110, 101]" by (simp add: cstr_def none_name_def)
  obtain nm where "strcpy (dev_nm d) none_name = Some nm" "length nm = 8" "cstr nm [110, 111, 110, 101]"
    using strcpy_cstr [OF c, of "dev_nm d"] Cons.prems by (auto simp: cstr_def)
  with Cons show ?case by (auto simp: free_dev_def)
qed simp

text \<open>C19. Whatever the memory and the tables held before, \<open>k_sys_init\<close> succeeds and leaves a state
  of the kernel state machine in which the system task runs, every other process entry but the idle
  task's is free, no interrupt has a handler, no device is registered and no memory block has an owner.\<close>

theorem sys_init_starts_system_task:
  assumes "length d0 = K_DEV_COUNT" and "list_all (\<lambda>d. length (dev_nm d) = 8) d0"
  shows "\<exists>s i d. k_sys_init e (s0, i0, d0) = KOk (s, i, d) \<and> reachable s \<and> sys_runs s \<and>
    (\<forall>p \<in> pids. p \<noteq> 0 \<longrightarrow> p \<noteq> K_PROC_IDLE \<longrightarrow> p_state (desc s p) = ST_NONE) \<and>
    dev_view d [] \<and> (\<forall>n < K_IRQ_COUNT. handler (irq_handlers i n) = None) \<and>
    (\<forall>b < K_MEM_BLOCK_COUNT. blk_sts s b = 0)"
proof -
  obtain s2 where s2: "proc_init (task_code e T_idle) (task_stack e T_idle) (mem_init s0) = KOk s2"
    "blk_sts s2 = blk_sts (mem_init s0)" "\<And>p. p \<in> pids \<Longrightarrow> desc s2 p =
      (if p = 31 then new_task [105, 100, 108, 101] (task_code e T_idle) (task_stack e T_idle) 512 else zero_desc)"
    using proc_init_ok [of "task_code e T_idle" "task_stack e T_idle" "mem_init s0"] by auto
  have r2: "reachable s2" by (rule reachable.boot [OF s2(1)])
  obtain d where d: "dev_init d0 = KOk d" "length d = 12" "list_all free_dev d"
    using dev_init_free [OF assms(2)] assms(1) by (auto simp: dev_init_def K_DEV_COUNT_def)
  have dv: "dev_view d []" unfolding dev_view_def using d by (intro exI [of _ "[]"] exI [of _ d]) (simp add: K_DEV_COUNT_def)
  have c: "cstr (task_name T_system) [115, 121, 115, 116, 101, 109]" by (simp add: cstr_def task_name_def)
  have "p_state (desc s2 0) = ST_NONE" using s2(3) [of 0] by (simp add: zero_desc_def)
  from reach_task [OF r2 c pids_31(2) this] obtain s3 where
    s3: "start_task e PROC_PID_SYSTEM_TASK T_system s2 = KOk (0, s3)" "reachable s3" "blk_sts s3 = blk_sts s2"
      "\<forall>x. desc s3 x = (if x = 0 then new_task [115, 121, 115, 116, 101, 109] (task_code e T_system) (task_stack e T_system)
         (task_stack_size T_system) else desc s2 x)"
    unfolding start_task_def PROC_PID_SYSTEM_TASK_def by blast
  have rd: "0 \<in> st_set s3 ST_READY" by (simp add: s3(4) new_task_def)
  note sc = reach_schedule [OF s3(2) rd]
  let ?i = "mfp_write B68K_MFP_SYS_IRQ_TMR_MASK ((irq_init i0)\<lparr>mfp_addr := B68K_MFP_REG_SYSCFG\<rparr>)"
  have run: "k_sys_init e (s0, i0, d0) = KOk (dispatch 0 s3, ?i, d)"
    using s2(1) d(1) s3(1) sc(1) by (simp add: k_sys_init_def)
  have "\<forall>n < K_IRQ_COUNT. handler (irq_handlers ?i n) = None" by (simp add: mfp_write_def irq_init_def Let_def)
  moreover have "\<forall>b < K_MEM_BLOCK_COUNT. blk_sts (dispatch 0 s3) b = 0" using s3(3) s2(2) by (simp add: mem_init_def)
  moreover have "sys_runs (dispatch 0 s3)" using rd by (simp add: sys_runs_def)
  moreover have "\<forall>p \<in> pids. p \<noteq> 0 \<longrightarrow> p \<noteq> K_PROC_IDLE \<longrightarrow> p_state (desc (dispatch 0 s3) p) = ST_NONE"
    using s2(3) s3(4) by (simp add: K_PROC_IDLE_def K_PROC_COUNT_def zero_desc_def)
  ultimately show ?thesis using run sc(2) dv by blast
qed

theorem sys_init_starts_system_task_witness:
  "\<exists>s i d. k_sys_init demo_env (empty_kstate, \<lparr>irq_handlers = \<lambda>_. \<lparr>enable = 0, handler = None\<rparr>, mfp_addr = 4, mfp_writes = []\<rparr>,
     replicate 12 free_entry) = KOk (s, i, d) \<and> reachable s \<and> sys_runs s"
proof -
  have "length (replicate 12 free_entry) = K_DEV_COUNT" "list_all (\<lambda>d. length (dev_nm d) = 8) (replicate 12 free_entry)"
    by (simp_all add: K_DEV_COUNT_def list_all_iff free_entry_def none_name_def)
  from sys_init_starts_system_task [OF this] show ?thesis by blast
qed

end
