(* ===== verification/ExecProps.thy ===== *)
theory ExecProps
  imports Exec KernelProps MemBytes
begin

text \<open>
  Properties of program execution. The file system is described by what its answers do
  (\<open>file_server\<close>): a read may return fewer bytes than asked for, as the limit of 512 bytes of the file
  system task makes it do; meanwhile the process that executes the program, which is blocked in its
  system call, and the memory of the system are left alone.
\<close>

section \<open>What the file system does\<close>

lemma get_pid_ram [simp]: "proc_get_pid nm (s\<lparr>ram := r\<rparr>) = proc_get_pid nm s"
proof -
  have "get_pid_scan (s\<lparr>ram := r\<rparr>) nm ps = get_pid_scan s nm ps" for ps
    by (induction ps) (auto split: option.split)
  then show ?thesis by (simp add: proc_get_pid_def)
qed

text \<open>Only the bytes in \<open>A\<close> change, and neither \<open>p\<close> nor the owners of the memory blocks.\<close>

definition undisturbed :: "pid \<Rightarrow> u32 set \<Rightarrow> 'a kstate_scheme \<Rightarrow> 'a kstate_scheme \<Rightarrow> bool" where
  "undisturbed p A s s' \<longleftrightarrow> desc s' p = desc s p \<and> blk_sts s' = blk_sts s \<and>
     proc_get_pid vfs_name s' = proc_get_pid vfs_name s \<and> (\<forall>a. a \<notin> A \<longrightarrow> ram s' a = ram s a)"

lemma undisturbed_trans: "undisturbed p A s s1 \<Longrightarrow> undisturbed p B s1 s2 \<Longrightarrow> undisturbed p (A \<union> B) s s2"
  by (simp add: undisturbed_def)

lemma undisturbed_mono: "undisturbed p A s s' \<Longrightarrow> A \<subseteq> B \<Longrightarrow> undisturbed p B s s'"
  by (auto simp: undisturbed_def)

lemma undisturbed_refl [simp]: "undisturbed p A s s"
  by (simp add: undisturbed_def)

text \<open>
  The descriptor \<open>f\<close> is open on a file with the bytes \<open>bs\<close>; \<open>pos\<close> is its position. The buffer of a
  read lies in \<open>pa_buf\<close>.
\<close>

definition file_server ::
    "'a kstate_scheme exchange \<Rightarrow> int \<Rightarrow> u8 list \<Rightarrow> ('a kstate_scheme \<Rightarrow> nat) \<Rightarrow> pid \<Rightarrow> u32 \<Rightarrow> bool" where
  "file_server exch f bs pos p pb \<longleftrightarrow>
     (\<forall>s r. pos (s\<lparr>ram := r\<rparr>) = pos s) \<and>
     (\<forall>s v b cnt. pos s \<le> length bs \<longrightarrow> region b (unat cnt) \<subseteq> region pb 1024 \<longrightarrow>
        (\<exists>n s'. exch v (READ f b cnt) s = KOk (int n, s') \<and> n \<le> unat cnt \<and> (n = 0 \<longrightarrow> cnt = 0 \<or> pos s = length bs) \<and>
           pos s + n \<le> length bs \<and> pos s' = pos s + n \<and> holds (ram s') b (take n (drop (pos s) bs)) \<and>
           undisturbed p (region b n) s s')) \<and>
     (\<forall>s v off. unat off \<le> length bs \<longrightarrow>
        (\<exists>r s'. exch v (LSEEK f off SEEK_SET) s = KOk (r, s') \<and> pos s' = unat off \<and> undisturbed p {} s s'))"

lemma server_read:
  assumes "file_server exch f bs pos p pb" and "pos s \<le> length bs" and "region b (unat cnt) \<subseteq> region pb 1024"
  obtains n s' where "exch v (READ f b cnt) s = KOk (int n, s')" "n \<le> unat cnt" "n = 0 \<longrightarrow> cnt = 0 \<or> pos s = length bs"
    "pos s + n \<le> length bs" "pos s' = pos s + n" "holds (ram s') b (take n (drop (pos s) bs))" "undisturbed p (region b n) s s'"
  using assms unfolding file_server_def by metis

lemma server_seek:
  assumes "file_server exch f bs pos p pb" and "unat off \<le> length bs"
  obtains r s' where "exch v (LSEEK f off SEEK_SET) s = KOk (r, s')" "pos s' = unat off" "undisturbed p {} s s'"
  using assms unfolding file_server_def by metis

lemma server_pos: "file_server exch f bs pos p pb \<Longrightarrow> pos (s\<lparr>ram := r\<rparr>) = pos s"
  by (simp add: file_server_def)

section \<open>Reading exactly what was asked for\<close>

lemma read_loop:
  assumes srv: "file_server exch f bs pos p pb" and "cnt \<le> 1024" and "did \<le> cnt"
    and "pos s + (cnt - did) \<le> length bs" and "region b (cnt - did) \<subseteq> region pb 1024"
  shows "\<exists>s'. vfs_read_loop exch v f b cnt did s = KOk (cnt, s') \<and> pos s' = pos s + (cnt - did) \<and>
    holds (ram s') b (take (cnt - did) (drop (pos s) bs)) \<and> undisturbed p (region b (cnt - did)) s s'"
  using assms(2-)
proof (induction "cnt - did" arbitrary: did s b rule: less_induct)
  case less
  show ?case
  proof (cases "did < cnt")
    case False
    with less.prems show ?thesis by (subst vfs_read_loop.simps) auto
  next
    case True
    define k where "k = cnt - did"
    have k: "0 < k" "k \<le> 1024" using True less.prems(1) by (simp_all add: k_def)
    then have u: "unat (of_nat k :: u32) = k" by (simp add: unat_of_nat)
    have le: "pos s \<le> length bs" using less.prems(3) by simp
    obtain n s1 where n: "exch v (READ f b (of_nat k)) s = KOk (int n, s1)" "n \<le> k" "n = 0 \<longrightarrow> of_nat k = (0 :: u32) \<or> pos s = length bs"
      "pos s + n \<le> length bs" "pos s1 = pos s + n" "holds (ram s1) b (take n (drop (pos s) bs))" "undisturbed p (region b n) s s1"
      by (rule server_read [OF srv le, of b "of_nat k" v]) (use less.prems(4) u k_def in auto)
    have n0: "0 < n"
    proof (rule ccontr)
      assume "\<not> 0 < n"
      with n(3) u k(1) have "pos s = length bs" by auto
      with less.prems(3) k(1) k_def show False by simp
    qed
    define m where "m = k - n"
    have m: "k = n + m" "cnt - (did + n) = m" "did + n \<le> cnt" using n(2) True by (simp_all add: m_def k_def)
    have "region (b + of_nat n) m \<subseteq> region pb 1024"
      using region_split [of b n m] less.prems(4) m(1) k_def by auto
    moreover have "cnt - (did + n) < cnt - did" using m n0 k_def by simp
    ultimately obtain s2 where s2: "vfs_read_loop exch v f (b + of_nat n) cnt (did + n) s1 = KOk (cnt, s2)"
      "pos s2 = pos s1 + m" "holds (ram s2) (b + of_nat n) (take m (drop (pos s1) bs))" "undisturbed p (region (b + of_nat n) m) s1 s2"
      using less.hyps [of "did + n" s1 "b + of_nat n"] less.prems(1,3) m n(5) k_def by auto
    have run: "vfs_read_loop exch v f b cnt did s = KOk (cnt, s2)"
      using True n(1) n0 s2(1) k_def by (subst vfs_read_loop.simps) simp
    have len: "length (take n (drop (pos s) bs)) = n" using n(4) by simp
    have "holds (ram s2) b (take n (drop (pos s) bs))"
    proof (rule holds_same [OF n(6)])
      fix x assume "x \<in> region b (length (take n (drop (pos s) bs)))"
      then have "x \<notin> region (b + of_nat n) m" using region_tail [of n m b] k(2) m(1) len by auto
      with s2(4) show "ram s2 x = ram s1 x" by (simp add: undisturbed_def)
    qed
    moreover have "take k (drop (pos s) bs) = take n (drop (pos s) bs) @ take m (drop (pos s1) bs)"
      unfolding m(1) take_add n(5) by (simp add: add.commute)
    ultimately have "holds (ram s2) b (take k (drop (pos s) bs))" using s2(3) len by (simp add: holds_append)
    moreover have "undisturbed p (region b k) s s2"
      using undisturbed_trans [OF n(7) s2(4)] by (simp add: m(1) region_split)
    ultimately show ?thesis using run s2(2) n(5) m(1) by (simp add: k_def [symmetric])
  qed
qed

lemma read_all:
  assumes "file_server exch f bs pos p pb" and "cnt \<le> 1024" and "pos s + cnt \<le> length bs"
    and "proc_get_pid vfs_name s = KOk v"
  shows "\<exists>s'. sendreceive_vfs_read exch f pb cnt s = KOk (cnt, s') \<and> pos s' = pos s + cnt \<and>
    holds (ram s') pb (take cnt (drop (pos s) bs)) \<and> undisturbed p (region pb 1024) s s'"
proof -
  have "region (pb + of_nat 0) cnt \<subseteq> region pb 1024" by (rule region_sub) (use assms(2) in simp)
  then have sub: "region pb cnt \<subseteq> region pb 1024" by simp
  from read_loop [OF assms(1,2), of 0 s pb v] assms(3,4) sub show ?thesis
    by (auto simp: sendreceive_vfs_read_def intro: undisturbed_mono)
qed

lemma seek_to:
  assumes "file_server exch f bs pos p pb" and "unat off \<le> length bs" and "proc_get_pid vfs_name s = KOk v"
  shows "\<exists>r s'. sendreceive_vfs_lseek exch f off SEEK_SET s = KOk (r, s') \<and> pos s' = unat off \<and> undisturbed p {} s s'"
  by (rule server_seek [OF assms(1,2), of v s]) (auto simp: sendreceive_vfs_lseek_def ask_vfs_def assms(3))

section \<open>Loading a segment\<close>

lemma chunks_load:
  assumes srv: "file_server exch f bs pos p pb" and p: "p \<in> pids" and v: "proc_get_pid vfs_name s = KOk v"
    and "pos s + unat fs \<le> length bs" and "region pb 1024 \<inter> region (vaddr + mem_ad (desc s p)) (unat fs) = {}"
  shows "\<exists>s'. exec_chunks exch pb p f vaddr fs s = KOk (True, s') \<and>
    holds (ram s') (vaddr + mem_ad (desc s p)) (take (unat fs) (drop (pos s) bs)) \<and>
    undisturbed p (region pb 1024 \<union> region (vaddr + mem_ad (desc s p)) (unat fs)) s s'"
  using v assms(4-)
proof (induction "unat fs" arbitrary: fs vaddr s rule: less_induct)
  case less
  show ?case
  proof (cases "fs = 0")
    case True
    then show ?thesis by (subst exec_chunks.simps) auto
  next
    case False
    define ln where "ln = (if fs > PA_BUF_LEN then PA_BUF_LEN else fs)"
    have ln: "0 < unat ln" "unat ln \<le> 1024" "ln \<le> fs" using False by (auto simp: ln_def PA_BUF_LEN_def word_le_nat_alt word_less_nat_alt unat_gt_0)
    define n m where "n = unat ln" and "m = unat (fs - ln)"
    have nm: "unat fs = n + m" "0 < n" "n \<le> 1024" "m < unat fs" "unat fs < 2 ^ 32"
      using ln unat_u32_less [of fs] by (auto simp: n_def m_def unat_sub word_le_nat_alt)
    have on: "of_nat n = ln" by (simp add: n_def)
    let ?a = "vaddr + mem_ad (desc s p)"
    obtain s1 where s1: "sendreceive_vfs_read exch f pb n s = KOk (n, s1)" "pos s1 = pos s + n"
      "holds (ram s1) pb (take n (drop (pos s) bs))" "undisturbed p (region pb 1024) s s1"
      using read_all [OF srv nm(3) _ less.prems(1)] less.prems(2) nm(1) by auto
    let ?s2 = "s1\<lparr>ram := memcpy (ram s1) ?a pb n\<rparr>"
    have d1: "desc s1 p = desc s p" using s1(4) by (simp add: undisturbed_def)
    have cp: "copy_to_user p vaddr pb n s1 = KOk ?s2" by (simp add: copy_to_user_def entry_pids [OF p] d1)
    have d2: "desc ?s2 p = desc s p" using d1 by simp
    have a1: "vaddr + ln + mem_ad (desc ?s2 p) = ?a + of_nat n" unfolding d2 on by (simp add: ac_simps)
    have sp: "region ?a (unat fs) = region ?a n \<union> region (?a + of_nat n) m" unfolding nm(1) by (rule region_split)
    have g2: "proc_get_pid vfs_name ?s2 = KOk v"
      using s1(4) less.prems(1) by (simp add: undisturbed_def)
    have u2: "undisturbed p (region ?a n) s1 ?s2"
      using g2 s1(4) less.prems(1) by (simp add: undisturbed_def memcpy_outside)
    have apart: "region pb 1024 \<inter> region (vaddr + ln + mem_ad (desc ?s2 p)) (unat (fs - ln)) = {}"
      unfolding a1 m_def [symmetric] using less.prems(3) sp by blast
    have p2: "pos ?s2 = pos s1" by (rule server_pos [OF srv])
    have room: "pos ?s2 + unat (fs - ln) \<le> length bs" unfolding p2 s1(2) m_def [symmetric] using less.prems(2) nm(1) by simp
    have dec: "unat (fs - ln) < unat fs" using nm(4) by (simp add: m_def)
    obtain s3 where s3: "exec_chunks exch pb p f (vaddr + ln) (fs - ln) ?s2 = KOk (True, s3)"
      "holds (ram s3) (?a + of_nat n) (take m (drop (pos s1) bs))"
      "undisturbed p (region pb 1024 \<union> region (?a + of_nat n) m) ?s2 s3"
      using less.hyps [OF dec g2 room apart] unfolding a1 m_def [symmetric] p2 by blast
    have run: "exec_chunks exch pb p f vaddr fs s = KOk (True, s3)"
      using False s1(1) cp s3(1) by (subst exec_chunks.simps) (simp add: ln_def [symmetric] n_def Let_def)
    have len: "length (take n (drop (pos s) bs)) = n" using less.prems(2) nm(1) by simp
    have "holds (ram ?s2) ?a (take n (drop (pos s) bs))"
    proof -
      have "region pb (n + (1024 - n)) = region pb n \<union> region (pb + of_nat n) (1024 - n)" by (rule region_split)
      then have "region ?a n \<inter> region pb n = {}" using less.prems(3) sp nm(3) by auto
      then show ?thesis using memcpy_holds [OF s1(3) len] nm(5) nm(1) by simp
    qed
    then have "holds (ram s3) ?a (take n (drop (pos s) bs))"
    proof (rule holds_same)
      fix x assume x: "x \<in> region ?a (length (take n (drop (pos s) bs)))"
      then have "x \<notin> region (?a + of_nat n) m" using region_tail [of n m ?a] nm(1,5) len by auto
      moreover have "x \<notin> region pb 1024" using x less.prems(3) sp len by auto
      ultimately show "ram s3 x = ram ?s2 x" using s3(3) by (simp add: undisturbed_def)
    qed
    moreover have "take (unat fs) (drop (pos s) bs) = take n (drop (pos s) bs) @ take m (drop (pos s1) bs)"
      unfolding nm(1) take_add s1(2) by (simp add: add.commute)
    ultimately have "holds (ram s3) ?a (take (unat fs) (drop (pos s) bs))" using s3(2) len by (simp add: holds_append)
    moreover have "undisturbed p (region pb 1024 \<union> region ?a (unat fs)) s s3"
      by (rule undisturbed_mono [OF undisturbed_trans [OF undisturbed_trans [OF s1(4) u2] s3(3)]]) (use sp in blast)
    ultimately show ?thesis using run by blast
  qed
qed

section \<open>One program header\<close>

text \<open>The fields of the program header at offset \<open>h\<close> of the file.\<close>

definition ph_offset :: "u8 list \<Rightarrow> nat \<Rightarrow> u32" where "ph_offset bs h = be32 bs (h + 4)"
definition ph_vaddr :: "u8 list \<Rightarrow> nat \<Rightarrow> u32" where "ph_vaddr bs h = be32 bs (h + 8)"
definition ph_filesz :: "u8 list \<Rightarrow> nat \<Rightarrow> u32" where "ph_filesz bs h = be32 bs (h + 16)"
definition ph_memsz :: "u8 list \<Rightarrow> nat \<Rightarrow> u32" where "ph_memsz bs h = be32 bs (h + 20)"

lemmas ph_defs = ph_offset_def ph_vaddr_def ph_filesz_def ph_memsz_def

definition loadable :: "u8 list \<Rightarrow> nat \<Rightarrow> bool" where
  "loadable bs h \<longleftrightarrow> h + 32 \<le> length bs \<and> be32 bs h = 1 \<and> unat (ph_offset bs h) + unat (ph_filesz bs h) \<le> length bs"

lemma loadable_room: "loadable bs h \<Longrightarrow> length (take (unat (ph_filesz bs h)) (drop (unat (ph_offset bs h)) bs)) = unat (ph_filesz bs h)"
  by (auto simp: loadable_def)

lemma be32_slice: "i + 4 \<le> n \<Longrightarrow> h + n \<le> length bs \<Longrightarrow> be32 (take n (drop h bs)) i = be32 bs (h + i)"
  by (simp add: be32_def)

lemma segment_load:
  assumes srv: "file_server exch f bs pos p pb" and p: "p \<in> pids" and v: "proc_get_pid vfs_name s = KOk v"
    and h: "h = unat (phoff + 0x20 * ucast ph)" and ld: "loadable bs h"
    and fits: "ph_vaddr bs h + ph_memsz bs h \<le> mem_sz (desc s p)"
    and apart: "region pb 1024 \<inter> region (ph_vaddr bs h + mem_ad (desc s p)) (unat (ph_filesz bs h)) = {}"
  shows "\<exists>s'. exec_segment exch pb p f phoff ph hi s =
      KOk (Some (if ph_vaddr bs h + ph_memsz bs h > hi then ALIGN32 (ph_vaddr bs h + ph_memsz bs h) else hi), s') \<and>
    holds (ram s') (ph_vaddr bs h + mem_ad (desc s p)) (take (unat (ph_filesz bs h)) (drop (unat (ph_offset bs h)) bs)) \<and>
    undisturbed p (region pb 1024 \<union> region (ph_vaddr bs h + mem_ad (desc s p)) (unat (ph_filesz bs h))) s s'"
proof -
  have len: "h + 32 \<le> length bs" "be32 bs h = 1" "unat (ph_offset bs h) + unat (ph_filesz bs h) \<le> length bs"
    using ld by (simp_all add: loadable_def)
  obtain r1 s1 where s1: "sendreceive_vfs_lseek exch f (phoff + 0x20 * ucast ph) SEEK_SET s = KOk (r1, s1)"
    "pos s1 = h" "undisturbed p {} s s1"
    using seek_to [OF srv _ v, of "phoff + 0x20 * ucast ph"] len(1) h by auto
  have v1: "proc_get_pid vfs_name s1 = KOk v" using s1(3) v by (simp add: undisturbed_def)
  obtain s2 where s2: "sendreceive_vfs_read exch f pb 0x20 s1 = KOk (32, s2)"
    "holds (ram s2) pb (take 32 (drop h bs))" "undisturbed p (region pb 1024) s1 s2"
    using read_all [OF srv, of 32 s1, OF _ _ v1] s1(2) len(1) by auto
  have ld32: "load32 (ram s2) (pb + of_nat i) = be32 bs (h + i)" if "i + 4 \<le> 32" for i
    using load32_holds [OF s2(2)] that len(1) by (simp add: be32_slice)
  have w: "load32 (ram s2) pb = 1" "load32 (ram s2) (pb + 4) = ph_offset bs h" "load32 (ram s2) (pb + 8) = ph_vaddr bs h"
    "load32 (ram s2) (pb + 16) = ph_filesz bs h" "load32 (ram s2) (pb + 20) = ph_memsz bs h"
    using ld32 [of 0] ld32 [of 4] ld32 [of 8] ld32 [of 16] ld32 [of 20] len(2) by (simp_all add: ph_defs)
  have u2: "undisturbed p (region pb 1024) s s2" using undisturbed_trans [OF s1(3) s2(3)] by simp
  have d2: "desc s2 p = desc s p" and v2: "proc_get_pid vfs_name s2 = KOk v" using u2 v by (simp_all add: undisturbed_def)
  have g: "exec_grow p (ph_vaddr bs h + ph_memsz bs h) s2 = KOk (True, s2)"
    using fits d2 by (simp add: exec_grow_def not_less [symmetric])
  obtain r3 s3 where s3: "sendreceive_vfs_lseek exch f (ph_offset bs h) SEEK_SET s2 = KOk (r3, s3)"
    "pos s3 = unat (ph_offset bs h)" "undisturbed p {} s2 s3"
    using seek_to [OF srv _ v2, of "ph_offset bs h"] len(3) by auto
  have u3: "undisturbed p (region pb 1024) s s3" using undisturbed_trans [OF u2 s3(3)] by simp
  have d3: "desc s3 p = desc s p" and v3: "proc_get_pid vfs_name s3 = KOk v" using u3 v by (simp_all add: undisturbed_def)
  obtain s4 where s4: "exec_chunks exch pb p f (ph_vaddr bs h) (ph_filesz bs h) s3 = KOk (True, s4)"
    "holds (ram s4) (ph_vaddr bs h + mem_ad (desc s p)) (take (unat (ph_filesz bs h)) (drop (unat (ph_offset bs h)) bs))"
    "undisturbed p (region pb 1024 \<union> region (ph_vaddr bs h + mem_ad (desc s p)) (unat (ph_filesz bs h))) s3 s4"
    using chunks_load [OF srv p v3, of "ph_filesz bs h" "ph_vaddr bs h"] s3(2) len(3) apart unfolding d3 by auto
  have u4: "undisturbed p (region pb 1024 \<union> region (ph_vaddr bs h + mem_ad (desc s p)) (unat (ph_filesz bs h))) s s4"
    using undisturbed_trans [OF u3 s4(3)] by (simp add: Un_assoc [symmetric])
  let ?hi = "if ph_vaddr bs h + ph_memsz bs h > hi then ALIGN32 (ph_vaddr bs h + ph_memsz bs h) else hi"
  show ?thesis
  proof (cases "ph_filesz bs h = 0")
    case True
    then have "exec_segment exch pb p f phoff ph hi s = KOk (Some ?hi, s2)"
      using s1(1) s2(1) w g by (simp add: exec_segment_def)
    with True u2 show ?thesis by (intro exI [of _ s2]) simp
  next
    case False
    then have "exec_segment exch pb p f phoff ph hi s = KOk (Some ?hi, s4)"
      using s1(1) s2(1) w g s3(1) s4(1) by (simp add: exec_segment_def)
    with u4 s4(2) show ?thesis by blast
  qed
qed


text \<open>Nothing compares \<open>p_filesz\<close> with \<open>p_memsz\<close>. A program header whose file size reaches beyond
  the end of the memory of the process is accepted when its memory size does not, and the byte behind the
  memory of the process, which belongs to the next owner, is replaced by a byte of the file.\<close>

theorem exec_segment_overruns:
  assumes "file_server exch f bs pos p pb" and "p \<in> pids" and "proc_get_pid vfs_name s = KOk v"
    and "h = unat (phoff + 0x20 * ucast ph)" and "loadable bs h"
    and "ph_vaddr bs h + ph_memsz bs h \<le> mem_sz (desc s p)"
    and "region pb 1024 \<inter> region (ph_vaddr bs h + mem_ad (desc s p)) (unat (ph_filesz bs h)) = {}"
    and "ph_vaddr bs h \<le> mem_sz (desc s p)" and "unat (mem_sz (desc s p)) < unat (ph_vaddr bs h) + unat (ph_filesz bs h)"
  shows "mem_ad (desc s p) + mem_sz (desc s p) \<notin> region (mem_ad (desc s p)) (unat (mem_sz (desc s p))) \<and>
    (\<exists>hi' s'. exec_segment exch pb p f phoff ph hi s = KOk (Some hi', s') \<and>
      ram s' (mem_ad (desc s p) + mem_sz (desc s p)) =
        bs ! (unat (ph_offset bs h) + (unat (mem_sz (desc s p)) - unat (ph_vaddr bs h))))"
proof
  let ?n = "unat (mem_sz (desc s p))"
  show "mem_ad (desc s p) + mem_sz (desc s p) \<notin> region (mem_ad (desc s p)) ?n"
  proof
    assume "mem_ad (desc s p) + mem_sz (desc s p) \<in> region (mem_ad (desc s p)) ?n"
    then obtain i where "i < ?n" "mem_ad (desc s p) + of_nat ?n = mem_ad (desc s p) + of_nat i" using in_region by fastforce
    with of_nat_add_inj [OF this(2)] unat_u32_less [of "mem_sz (desc s p)"] show False by simp
  qed
  define i where "i = ?n - unat (ph_vaddr bs h)"
  have le: "unat (ph_vaddr bs h) \<le> ?n" using assms(8) by (simp add: word_le_nat_alt)
  have i: "i < unat (ph_filesz bs h)" using assms(9) le by (simp add: i_def)
  have "of_nat i = mem_sz (desc s p) - ph_vaddr bs h" using le by (simp add: i_def)
  then have a: "ph_vaddr bs h + mem_ad (desc s p) + of_nat i = mem_ad (desc s p) + mem_sz (desc s p)" by simp
  obtain hi' s' where s': "exec_segment exch pb p f phoff ph hi s = KOk (Some hi', s')"
    "holds (ram s') (ph_vaddr bs h + mem_ad (desc s p)) (take (unat (ph_filesz bs h)) (drop (unat (ph_offset bs h)) bs))"
    using segment_load [OF assms(1-7)] by blast
  have len: "length (take (unat (ph_filesz bs h)) (drop (unat (ph_offset bs h)) bs)) = unat (ph_filesz bs h)"
    using loadable_room [OF assms(5)] by simp
  have "ram s' (mem_ad (desc s p) + mem_sz (desc s p)) = bs ! (unat (ph_offset bs h) + i)"
    using holdsD [OF s'(2), of i] i len unfolding a by (simp add: add.commute)
  with s'(1) show "\<exists>hi' s'. exec_segment exch pb p f phoff ph hi s = KOk (Some hi', s') \<and>
      ram s' (mem_ad (desc s p) + mem_sz (desc s p)) = bs ! (unat (ph_offset bs h) + (?n - unat (ph_vaddr bs h)))"
    unfolding i_def by blast
qed

section \<open>A file system of one file\<close>

text \<open>It answers reads with at most three bytes at a time.\<close>

record file_state = kstate +
  file_pos :: nat

definition demo_exch :: "u8 list \<Rightarrow> file_state exchange" where
  "demo_exch bs v req s =
     (case req of
        READ f b cnt \<Rightarrow>
          let n = min 3 (min (unat cnt) (length bs - file_pos s)) in
          KOk (int n, s\<lparr>ram := put_bytes (ram s) b (take n (drop (file_pos s) bs)), file_pos := file_pos s + n\<rparr>)
      | LSEEK f off wh \<Rightarrow> KOk (0, s\<lparr>file_pos := unat off\<rparr>)
      | _ \<Rightarrow> KOk (0, s))"

lemma get_pid_pos [simp]: "proc_get_pid nm (s\<lparr>file_pos := n\<rparr>) = proc_get_pid nm s"
proof -
  have "get_pid_scan (s\<lparr>file_pos := n\<rparr>) nm ps = get_pid_scan s nm ps" for ps
    by (induction ps) (auto split: option.split)
  then show ?thesis by (simp add: proc_get_pid_def)
qed

lemma demo_server: "file_server (demo_exch bs) f bs file_pos p pb"
  unfolding file_server_def
proof (intro conjI allI impI)
  fix s :: file_state and v :: pid and b cnt :: u32 assume pos: "file_pos s \<le> length bs"
  let ?n = "min 3 (min (unat cnt) (length bs - file_pos s))"
  have len: "length (take ?n (drop (file_pos s) bs)) = ?n" by simp
  have h: "holds (put_bytes (ram s) b (take ?n (drop (file_pos s) bs))) b (take ?n (drop (file_pos s) bs))"
    by (rule put_holds) simp
  have u: "put_bytes (ram s) b (take ?n (drop (file_pos s) bs)) a = ram s a" if "a \<notin> region b ?n" for a
    by (rule put_outside) (unfold len, rule that)
  have z: "?n = 0 \<longrightarrow> cnt = 0 \<or> file_pos s = length bs"
    using pos by (auto simp: min_def unsigned_eq_0_iff split: if_splits)
  show "\<exists>n s'. demo_exch bs v (READ f b cnt) s = KOk (int n, s') \<and> n \<le> unat cnt \<and>
      (n = 0 \<longrightarrow> cnt = 0 \<or> file_pos s = length bs) \<and> file_pos s + n \<le> length bs \<and> file_pos s' = file_pos s + n \<and>
      holds (ram s') b (take n (drop (file_pos s) bs)) \<and> undisturbed p (region b n) s s'"
  proof (intro exI conjI)
    show "demo_exch bs v (READ f b cnt) s =
      KOk (int ?n, s\<lparr>ram := put_bytes (ram s) b (take ?n (drop (file_pos s) bs)), file_pos := file_pos s + ?n\<rparr>)"
      by (simp add: demo_exch_def Let_def)
  qed (use pos h u z in \<open>simp_all add: undisturbed_def\<close>)
qed (auto simp: demo_exch_def undisturbed_def)

text \<open>A program header and eight bytes of contents; \<open>m\<close> is the memory size.\<close>

definition demo_file :: "u8 \<Rightarrow> u8 list" where
  "demo_file m = [0, 0, 0, 1, 0, 0, 0, 32, 0, 0, 0, 0, 0, 0, 0, 0, 0, 0, 0, 8, 0, 0, 0, m, 0, 0, 0, 0, 0, 0, 0, 0,
     11, 12, 13, 14, 15, 16, 17, 18]"

definition demo_state :: "u32 \<Rightarrow> file_state" where
  "demo_state sz = \<lparr>blk_sts = (\<lambda>_. 1), last_base = 0, last_msk = 0, ram = (\<lambda>_. 0), mmu = \<lparr>base_lo = 0, base_hi = 0, mask_lo = 0, mask_hi = 0\<rparr>,
     proc_table = (\<lambda>p. (init_entry p)\<lparr>pl_d := zero_desc\<lparr>p_state := ST_BLOCKED, p_name := vfs_name, mem_ad := 0x40000, mem_sz := sz\<rparr>\<rparr>),
     proc_ready = None, proc_free = None, proc_ptr = None, file_pos = 0\<rparr>"

lemma demo_state_simps:
  "mem_sz (desc (demo_state sz) p) = sz" "mem_ad (desc (demo_state sz) p) = 0x40000" "proc_get_pid vfs_name (demo_state sz) = KOk 0"
  by (simp_all add: demo_state_def proc_get_pid_def K_PROC_COUNT_def upto_rec1 vfs_name_def)

lemma demo_ph:
  "loadable (demo_file m) 0" "ph_vaddr (demo_file m) 0 = 0" "ph_filesz (demo_file m) 0 = 8" "ph_memsz (demo_file m) 0 = ucast m"
  "ph_offset (demo_file m) 0 = 32" "demo_file m ! 36 = 15" "demo_file m ! 39 = 18"
  by (simp_all add: loadable_def ph_defs demo_file_def be32_def)

lemma demo_apart: "region 0x2000 1024 \<inter> region (0 + 0x40000) 8 = {}"
  by (rule regions_apart) simp_all


theorem exec_segment_overruns_witness:
  "\<exists>hi s'. exec_segment (demo_exch (demo_file 4)) 0x2000 1 3 0 0 0 (demo_state 4) = KOk (Some hi, s') \<and> ram s' 0x40004 = 15"
proof -
  have h: "0 = unat (0 + 0x20 * ucast (0 :: u16) :: u32)" by simp
  from exec_segment_overruns [where f = 3 and p = 1 and pb = "0x2000" and hi = 0 and s = "demo_state 4" and bs = "demo_file 4",
      OF demo_server _ demo_state_simps(3) h demo_ph(1)] demo_apart
  show ?thesis by (auto simp: demo_ph demo_state_simps pids_def)
qed

end
