(* ===== verification/ExecArgs.thy ===== *)
theory ExecArgs
  imports ExecProps
begin

text \<open>
  The end of \<open>proc_exec\<close>: the memory of the new program, its arguments and its registers, and what
  happens when there is no memory for them.
\<close>

section \<open>The pointer tables\<close>

lemma reloc_table:
  assumes "table r a ws" and "4 * Suc (length ws) \<le> 2 ^ 32"
  shows "\<exists>r'. exec_reloc r a va n = Some (r', n + of_nat (length ws)) \<and>
    (\<forall>i < length ws. load32 r' (a + 4 * of_nat i) = ws ! i + va) \<and>
    (\<forall>x. x \<notin> region a (4 * length ws) \<longrightarrow> r' x = r x)"
  using assms
proof (induction ws arbitrary: r a n)
  case Nil
  then show ?case by (subst exec_reloc.simps) (simp add: table_Nil)
next
  case (Cons w ws)
  have w: "load32 r a = w" "w \<noteq> 0" "table r (a + 4) ws" using Cons.prems(1) by (simp_all add: table_Cons)
  let ?r = "store32 r a (w + va)"
  have sp: "region a (4 * length (w # ws)) = region a 4 \<union> region (a + 4) (4 * length ws)"
    using region_split [of a 4 "4 * length ws"] by simp
  have dj: "region a 4 \<inter> region (a + 4) (4 * Suc (length ws)) = {}"
    using region_tail [of 4 "4 * Suc (length ws)" a] Cons.prems(2) by simp
  have tl: "region (a + 4) (4 * length ws) \<subseteq> region (a + 4) (4 * Suc (length ws))"
    using region_sub [of "4 * length ws" 0 "4 * Suc (length ws)" "a + 4"] by simp
  have "table ?r (a + 4) ws"
    using w(3) by (subst table_cong [of _ _ _ r]) (use dj in \<open>blast intro: store32_outside\<close>)+
  then obtain r' where r': "exec_reloc ?r (a + 4) va (n + 1) = Some (r', n + 1 + of_nat (length ws))"
    "\<forall>i < length ws. load32 r' (a + 4 + 4 * of_nat i) = ws ! i + va"
    "\<forall>x. x \<notin> region (a + 4) (4 * length ws) \<longrightarrow> r' x = ?r x"
    using Cons.IH Cons.prems(2) by fastforce
  have run: "exec_reloc r a va n = Some (r', n + of_nat (length (w # ws)))"
    using w r'(1) by (subst exec_reloc.simps) (simp add: ac_simps)
  have "load32 r' a = load32 ?r a"
    by (rule load32_cong) (use dj tl r'(3) in blast)
  then have hd: "load32 r' a = w + va" by (simp add: load32_store32)
  have "load32 r' (a + 4 * of_nat i) = (w # ws) ! i + va" if "i < length (w # ws)" for i
    using that hd r'(2) by (cases i) (auto simp: algebra_simps)
  moreover have "r' x = r x" if "x \<notin> region a (4 * length (w # ws))" for x
    using that r'(3) by (simp only: sp) (auto simp: store32_outside)
  ultimately show ?case using run by blast
qed

section \<open>Success\<close>

lemma strncpy_total: "n \<le> length d \<Longrightarrow> n \<le> length src \<Longrightarrow> \<exists>r. strncpy d src n = Some r"
proof (induction d src n rule: strncpy.induct)
  case (2 d dest c src n)
  then show ?case using strncpy_pad_eq [of "Suc n" "d # dest"] by auto
qed auto

lemma unat_alen: "unat (ALIGN32 (ucast (alen :: u16))) = 4 * ((unat alen + 3) div 4)"
proof -
  have l: "unat alen < 2 ^ 16" using unsigned_less [of alen, where ?'a = nat] by simp
  then have u: "unat (ucast alen :: u32) = unat alen" by (simp add: unsigned_ucast_eq take_bit_nat_eq_self)
  with l ALIGN32_unat [of "ucast alen"] u show ?thesis by simp
qed

text \<open>C17. The arguments of the new program. When the memory for it is there, \<open>pc\<close> is the entry
  point, the registers hold the number of arguments and the addresses of the two tables, each entry of
  \<open>argv\<close> in the memory of the process is the address, in the process, of the string its offset denoted,
  and all other bytes of the argument area are copied unchanged.\<close>

theorem exec_passes_arguments:
  assumes "p \<in> pids" and "length (p_name (desc s p)) = 16" and "new_ad \<noteq> 0"
    and "mem_realloc p (mem_ad (desc s p)) (mem_sz (desc s p)) (hi + ALIGN32 (ucast alen)) s = KOk (new_ad, s1)"
    and "table (ram s1) av args" and "eoff \<noteq> 0 \<Longrightarrow> table (ram s1) (av + ucast eoff) env"
    and "4 * Suc (length args) \<le> (if eoff = 0 then unat alen else unat eoff)"
    and "eoff \<noteq> 0 \<Longrightarrow> unat eoff + 4 * Suc (length env) \<le> unat alen"
    and "region (hi + new_ad) (unat (ALIGN32 (ucast alen))) \<inter> region av (unat (ALIGN32 (ucast alen))) = {}"
  shows "\<exists>s'. exec_finish p av alen eoff entry_pc name_at hi s = KOk (True, s') \<and>
    pc (desc s' p) = entry_pc \<and> mem_ad (desc s' p) = new_ad \<and> mem_sz (desc s' p) = hi + ALIGN32 (ucast alen) \<and>
    a_regs (desc s' p) 0 = of_nat (length args) \<and> a_regs (desc s' p) 1 = hi \<and>
    a_regs (desc s' p) 2 = (if eoff = 0 then 0 else hi + ucast eoff) \<and>
    (\<forall>i < length args. load32 (ram s') (new_ad + hi + 4 * of_nat i) = args ! i + hi) \<and>
    (\<forall>k < unat alen. 4 * Suc (length args) \<le> k \<longrightarrow> eoff = 0 \<or> k \<notin> {unat eoff..<unat eoff + 4 * length env} \<longrightarrow>
       ram s' (new_ad + hi + of_nat k) = ram s1 (av + of_nat k))"
proof -
  define n where "n = unat (ALIGN32 (ucast alen))"
  have n: "unat alen \<le> n" "n < 2 ^ 17"
    using unsigned_less [of alen, where ?'a = nat] by (auto simp: n_def unat_alen)
  have la: "4 * Suc (length args) \<le> unat alen" "eoff \<noteq> 0 \<Longrightarrow> 4 * Suc (length args) \<le> unat eoff"
    using assms(7,8) by (auto split: if_splits)
  have l16: "unat alen < 2 ^ 16" using unsigned_less [of alen, where ?'a = nat] by simp
  have d1: "desc s1 p = desc s p" using mem_realloc_keeps [OF assms(4)] by simp
  let ?s2 = "upd_desc p (\<lambda>d. d\<lparr>mem_ad := new_ad, mem_sz := hi + ALIGN32 (ucast alen)\<rparr>) s1"
  have r2: "ram ?s2 = ram s1" by (simp add: upd_desc_def)
  obtain r3 where r3: "exec_reloc (ram s1) av hi 0 = Some (r3, of_nat (length args))"
    "\<forall>i < length args. load32 r3 (av + 4 * of_nat i) = args ! i + hi"
    "\<forall>x. x \<notin> region av (4 * length args) \<longrightarrow> r3 x = ram s1 x"
    using reloc_table [OF assms(5), of hi 0] la(1) l16 by auto
  define ea where "ea = av + ucast eoff"
  have ea: "ea = av + of_nat (unat eoff)" by (simp add: ea_def)
  obtain r4 where r4: "(if eoff \<noteq> 0 then map_option fst (exec_reloc r3 ea hi 0) else Some r3) = Some r4"
    "\<forall>x. eoff = 0 \<or> x \<notin> region ea (4 * length env) \<longrightarrow> r4 x = r3 x"
  proof (cases "eoff = 0")
    case True
    with that show thesis by simp
  next
    case False
    have lim: "unat eoff + 4 * Suc (length env) \<le> unat alen" by (rule assms(8) [OF False])
    have tl: "region av (4 * length args) \<inter> region ea (4 * Suc (length env)) = {}"
    proof -
      have "region av (unat eoff) \<inter> region (av + of_nat (unat eoff)) (4 * Suc (length env)) = {}"
        by (rule region_tail) (use lim l16 in simp)
      moreover have "region (av + of_nat 0) (4 * length args) \<subseteq> region av (unat eoff)"
        by (rule region_sub) (use la(2) [OF False] in simp)
      ultimately show ?thesis by (auto simp: ea)
    qed
    have "table r3 ea env"
      using assms(6) [OF False] by (subst table_cong [of _ _ _ "ram s1"]) (use tl r3(3) in \<open>auto simp: ea_def\<close>)
    from reloc_table [OF this, of hi 0] lim l16 False that show thesis by auto
  qed
  let ?s4 = "?s2\<lparr>ram := r4\<rparr>" and ?dst = "hi + new_ad"
  let ?s5 = "?s4\<lparr>ram := memcpy r4 ?dst av n\<rparr>"
  have m2: "mem_ad (desc ?s4 p) = new_ad" by (simp add: upd_desc_simps)
  have cp: "copy_to_user p hi av n ?s4 = KOk ?s5"
    by (simp add: copy_to_user_def entry_pids [OF assms(1)] upd_desc_simps)
  have cpy: "ram ?s5 (?dst + of_nat k) = r4 (av + of_nat k)" if "k < n" for k
    using memcpy_disjoint [of ?dst n av k] assms(9) that n(2) by (simp add: n_def)
  obtain nm where nm: "strncpy (p_name (desc ?s5 p)) (name_bytes (ram ?s5) name_at) 15 = Some nm"
    using strncpy_total [of 15 "p_name (desc ?s5 p)" "name_bytes (ram ?s5) name_at"] assms(2)
    by (auto simp: upd_desc_simps d1 name_bytes_def)
  define s' where "s' = upd_desc p (\<lambda>d. d\<lparr>p_name := nm, pc := entry_pc,
      a_regs := (a_regs d)(0 := ucast (of_nat (length args) :: u16), 1 := hi, 2 := (if eoff \<noteq> 0 then hi + ucast eoff else 0),
        3 := (if eoff \<noteq> 0 then ucast alen - ucast eoff else 0), 7 := 0xffffffff)\<rparr>) ?s5"
  have run: "exec_finish p av alen eoff entry_pc name_at hi s = KOk (True, s')"
    unfolding exec_finish_def Let_def assms(4) kbind.simps case_prod_conv r2 r3(1)
    using assms(3) r4(1) cp nm unfolding ea_def n_def s'_def by simp
  have argc: "ucast (of_nat (length args) :: u16) = (of_nat (length args) :: u32)"
  proof -
    have "length args < 2 ^ 16" using la(1) l16 by simp
    then have "unat (of_nat (length args) :: u16) = length args" by (simp add: unat_of_nat)
    then show ?thesis by (metis of_nat_unat)
  qed
  have d': "desc s' p = (desc ?s5 p)\<lparr>p_name := nm, pc := entry_pc,
      a_regs := (a_regs (desc ?s5 p))(0 := of_nat (length args), 1 := hi, 2 := (if eoff \<noteq> 0 then hi + ucast eoff else 0),
        3 := (if eoff \<noteq> 0 then ucast alen - ucast eoff else 0), 7 := 0xffffffff)\<rparr>" "ram s' = ram ?s5"
    by (simp_all add: s'_def upd_desc_simps argc)
  have ends: "x \<notin> region ea (4 * length env)" if e: "eoff \<noteq> 0" and x: "x = av + of_nat k" and k: "k < unat alen"
    and nk: "k \<notin> {unat eoff..<unat eoff + 4 * length env}" for x k
  proof
    assume "x \<in> region ea (4 * length env)"
    with in_region obtain j where j: "j < 4 * length env" "x = ea + of_nat j" by blast
    have eq: "av + of_nat k = av + of_nat (unat eoff + j)" using x j(2) by (simp add: ea add.assoc)
    have "k = unat eoff + j"
      by (rule of_nat_add_inj [OF eq]) (use k l16 j(1) assms(8) [OF e] in simp)+
    with j(1) nk show False by simp
  qed
  have word: "load32 (ram s') (new_ad + hi + 4 * of_nat i) = args ! i + hi" if i: "i < length args" for i
  proof -
    have byte: "ram s' (?dst + of_nat (4 * i + j)) = r3 (av + of_nat (4 * i + j))" if "j < 4" for j
    proof -
      have "4 * i + j < unat alen" using i that la(1) by simp
      moreover have "eoff \<noteq> 0 \<Longrightarrow> 4 * i + j < unat eoff" using i that la(2) by simp
      ultimately have "r4 (av + of_nat (4 * i + j)) = r3 (av + of_nat (4 * i + j))"
        using r4(2) ends [OF _ refl, of "4 * i + j"] by fastforce
      then show ?thesis using cpy [of "4 * i + j"] \<open>4 * i + j < unat alen\<close> n(1) by (simp add: d'(2))
    qed
    have "load32 (ram s') (new_ad + hi + 4 * of_nat i) = load32 r3 (av + 4 * of_nat i)"
      using byte [of 0] byte [of 1] byte [of 2] byte [of 3] by (simp add: load32_def algebra_simps)
    with r3(2) i show ?thesis by simp
  qed
  have rest: "ram s' (new_ad + hi + of_nat k) = ram s1 (av + of_nat k)"
    if "k < unat alen" "4 * Suc (length args) \<le> k" "eoff = 0 \<or> k \<notin> {unat eoff..<unat eoff + 4 * length env}" for k
  proof -
    have "av + of_nat k \<notin> region av (4 * length args)"
    proof
      assume "av + of_nat k \<in> region av (4 * length args)"
      then obtain j where j: "j < 4 * length args" "av + of_nat k = av + of_nat j" using in_region by blast
      have "k = j" by (rule of_nat_add_inj [OF j(2)]) (use that(1) l16 j(1) la(1) in simp)+
      with j(1) that(2) show False by simp
    qed
    moreover have "r4 (av + of_nat k) = r3 (av + of_nat k)"
      using r4(2) ends [OF _ refl that(1)] that(3) by blast
    ultimately show ?thesis using cpy [of k] that(1) n(1) r3(3) by (simp add: d'(2) add.commute)
  qed
  show ?thesis
    using run word rest by (intro exI [of _ s']) (simp add: d' upd_desc_simps)
qed

text \<open>Three bytes of arguments: one entry and the string \<open>a\<close>, in a system with free memory.\<close>

definition demo_args :: "pid \<Rightarrow> file_state" where
  "demo_args q = (demo_state 8)\<lparr>blk_sts := (\<lambda>_. q), ram := put_bytes (\<lambda>_. 0) 0x3000 [0, 0, 0, 8, 0, 0, 0, 0, 97, 0],
     proc_table := (\<lambda>p. (init_entry p)\<lparr>pl_d := zero_desc\<lparr>p_state := ST_BLOCKED, mem_ad := 0x40000, mem_sz := 8\<rparr>\<rparr>)\<rparr>"

lemma demo_args_simps:
  "mem_ad (desc (demo_args q) p) = 0x40000" "mem_sz (desc (demo_args q) p) = 8" "length (p_name (desc (demo_args q) p)) = 16"
  "blk_sts (demo_args q) = (\<lambda>_. q)" "ram (demo_args q) = put_bytes (\<lambda>_. 0) 0x3000 [0, 0, 0, 8, 0, 0, 0, 0, 97, 0]"
  by (simp_all add: demo_args_def zero_desc_def)

lemma blocks_20: "unat (mem_blocks 20) = 1" "unat (20 :: u32) \<le> 2 ^ 27" "8 + ALIGN32 (ucast (10 :: u16)) = 20"
proof -
  have "mem_blocks 20 = 1" by code_simp
  then show "unat (mem_blocks 20) = 1" by simp
  show "8 + ALIGN32 (ucast (10 :: u16)) = 20" by code_simp
qed simp

lemma demo_args_alloc: "\<exists>s1. mem_realloc 1 0x40000 8 20 (demo_args 0) = KOk (0x40000, s1) \<and> ram s1 = ram (demo_args 0)"
proof -
  have fit: "realloc_fits (blk_sts (demo_args 0)) 1 64 1" by (simp add: realloc_fits_iff demo_args_simps)
  then have "\<not> (\<forall>b. 64 \<le> b \<and> b < 512 \<and> 1 dvd b \<longrightarrow> \<not> realloc_fits (blk_sts (demo_args 0)) 1 b 1)" by (auto intro!: exI [of _ 64])
  with mem_realloc_cases [OF blocks_20(2), of 1 "0x40000" 8 "demo_args 0", unfolded blocks_20(1)]
  obtain b s1 where b: "mem_realloc 1 0x40000 8 20 (demo_args 0) = KOk (push_bit 12 (of_nat b), s1\<lparr>blk_sts := set_blocks (blk_sts s1) b 1 1\<rparr>)"
    "s1 = (if (0x40000 :: u32) \<noteq> 0 \<and> 0x40000 \<noteq> (push_bit 12 (of_nat b) :: u32)
      then (demo_args 0)\<lparr>ram := memcpy (ram (demo_args 0)) (push_bit 12 (of_nat b)) 0x40000 (unat (8 :: u32)),
        blk_sts := set_blocks (blk_sts (demo_args 0)) (block_of 0x40000) (unat (mem_blocks 8)) 0\<rparr> else demo_args 0)"
    "64 \<le> b" "\<forall>b'. 64 \<le> b' \<and> b' < b \<and> 1 dvd b' \<longrightarrow> \<not> realloc_fits (blk_sts (demo_args 0)) 1 b' 1"
    by (elim disjE exE conjE) auto
  have "b = 64"
  proof (rule ccontr)
    assume "b \<noteq> 64"
    then have "64 < b" using b(3) by simp
    with b(4) fit show False by (auto dest: spec [of _ 64])
  qed
  moreover have "push_bit 12 (of_nat 64 :: u32) = 0x40000" by (simp add: push_bit_eq_mult)
  ultimately show ?thesis using b(1,2) by auto
qed

theorem exec_passes_arguments_witness:
  "\<exists>s'. exec_finish 1 0x3000 10 0 0x100 0x3008 8 (demo_args 0) = KOk (True, s') \<and>
     a_regs (desc s' 1) 0 = 1 \<and> load32 (ram s') 0x40008 = 16 \<and> ram s' 0x40010 = 97"
proof -
  obtain s1 where s1: "mem_realloc 1 0x40000 8 20 (demo_args 0) = KOk (0x40000, s1)" "ram s1 = ram (demo_args 0)"
    using demo_args_alloc by blast
  have r: "mem_realloc 1 (mem_ad (desc (demo_args 0) 1)) (mem_sz (desc (demo_args 0) 1)) (8 + ALIGN32 (ucast (10 :: u16))) (demo_args 0) =
      KOk (0x40000, s1)"
    using s1(1) by (simp only: demo_args_simps blocks_20(3))
  have tab: "table (ram s1) 0x3000 [8]"
    by (simp add: s1(2) demo_args_simps table_Cons table_Nil load32_def put_bytes_def)
  have "unat (ALIGN32 (ucast (10 :: u16))) = 12" by (subst unat_alen) simp
  then have n12: "unat (ALIGN32 10) = 12" by simp
  have ap: "region (8 + 0x40000) 12 \<inter> region 0x3000 12 = {}"
    using regions_apart [of "0x3000" 12 "8 + 0x40000" 12] by auto
  from exec_passes_arguments [where p = 1 and eoff = 0 and alen = 10 and entry_pc = "0x100" and name_at = "0x3008" and env = "[]",
      OF _ demo_args_simps(3) _ r tab] ap
  obtain s' where s': "exec_finish 1 0x3000 10 0 0x100 0x3008 8 (demo_args 0) = KOk (True, s')" "a_regs (desc s' 1) 0 = 1"
    "load32 (ram s') (0x40000 + 8) = 16" "\<forall>k < 10. 8 \<le> k \<longrightarrow> ram s' (0x40000 + 8 + of_nat k) = ram s1 (0x3000 + of_nat k)"
    by (auto simp: pids_def n12)
  have "ram s' (0x40000 + 8 + of_nat 8) = ram s1 (0x3000 + of_nat 8)" using spec [OF s'(4), of 8] by simp
  then have "ram s' 0x40010 = 97" by (simp add: s1(2) demo_args_simps put_bytes_def)
  with s' show ?thesis by auto
qed

section \<open>No memory\<close>

text \<open>When there is no memory for the arguments, \<open>proc_exec\<close> fails, but the descriptor of the
  process already says that its memory starts at address 0: from then on every address of the kernel
  below the size asked for passes the check of the system calls and designates kernel memory.\<close>

theorem exec_out_of_memory_exposes_kernel:
  assumes "p \<in> pids"
    and "mem_realloc p (mem_ad (desc s p)) (mem_sz (desc s p)) (hi + ALIGN32 (ucast alen)) s = KOk (0, s1)"
  shows "\<exists>s'. exec_finish p av alen eoff entry_pc name_at hi s = KOk (False, s') \<and>
    p_state (desc s' p) = p_state (desc s p) \<and> mem_ad (desc s' p) = 0 \<and> blk_sts s' = blk_sts s \<and>
    (\<forall>a ln. a + ln \<le> hi + ALIGN32 (ucast alen) \<longrightarrow> va_to_pa p a ln s' = KOk a)"
proof -
  have "s1 = s" by (rule mem_realloc_failed [OF assms(2)])
  then show ?thesis using assms(2)
    by (simp add: exec_finish_def upd_desc_simps va_to_pa_def entry_pids [OF assms(1)] not_less [symmetric])
qed

theorem exec_out_of_memory_exposes_kernel_witness:
  "\<exists>s'. exec_finish 1 0x3000 10 0 0x100 0x3008 8 (demo_args 5) = KOk (False, s') \<and> va_to_pa 1 4 16 s' = KOk 4"
proof -
  have "\<not> realloc_fits (blk_sts (demo_args 5)) 1 b 1" for b by (auto simp: realloc_fits_iff demo_args_simps)
  with mem_realloc_cases [OF blocks_20(2), of 1 "0x40000" 8 "demo_args 5", unfolded blocks_20(1)]
  have "mem_realloc 1 0x40000 8 20 (demo_args 5) = KOk (0, demo_args 5)" by auto
  then have "mem_realloc 1 (mem_ad (desc (demo_args 5) 1)) (mem_sz (desc (demo_args 5) 1)) (8 + ALIGN32 (ucast (10 :: u16))) (demo_args 5) =
      KOk (0, demo_args 5)" by (simp only: demo_args_simps blocks_20(3))
  from exec_out_of_memory_exposes_kernel [OF _ this, of "0x3000" 0 "0x100" "0x3008"]
  obtain s' where "exec_finish 1 0x3000 10 0 0x100 0x3008 8 (demo_args 5) = KOk (False, s')"
    "\<forall>a ln. a + ln \<le> 8 + ALIGN32 (ucast (10 :: u16)) \<longrightarrow> va_to_pa 1 a ln s' = KOk a"
    by (auto simp: pids_def blocks_20(3))
  then show ?thesis unfolding blocks_20(3) by auto
qed

end
