(* ===== verification/ExecBufProps.thy ===== *)
theory ExecBufProps
  imports ExecBuf ExecArgs
begin

text \<open>
  Properties of the copy of the arguments of an EXEC call: the strings of the caller and their order
  survive, with the layout \<open>proc_exec\<close> expects; and the one case in which the copy leaves the buffer.
\<close>

section \<open>Strings\<close>

lemma strlen_str_at: "str_at r a xs \<Longrightarrow> ram_strlen r a n = Some (n + of_nat (length xs))"
proof (induction xs arbitrary: a n)
  case Nil
  then show ?case by (subst ram_strlen.simps) (simp add: str_at_Nil)
next
  case (Cons x xs)
  then show ?case by (subst ram_strlen.simps) (simp add: str_at_Cons add.assoc)
qed

lemma strcpy_str_at:
  assumes "str_at r src xs" and "region dst (Suc (length xs)) \<inter> region src (Suc (length xs)) = {}"
    and "Suc (length xs) \<le> 2 ^ 32"
  shows "\<exists>r'. ram_strcpy r dst src = Some r' \<and> str_at r' dst xs \<and> (\<forall>x. x \<notin> region dst (Suc (length xs)) \<longrightarrow> r' x = r x)"
  using assms
proof (induction xs arbitrary: r src dst)
  case Nil
  then show ?case by (subst ram_strcpy.simps) (auto simp: str_at_Nil region_Suc)
next
  case (Cons x xs)
  let ?r = "r(dst := r src)" and ?n = "Suc (length xs)"
  have x: "x \<noteq> 0" "r src = x" "str_at r (src + 1) xs" using Cons.prems(1) by (simp_all add: str_at_Cons)
  have d: "region dst (Suc ?n) = insert dst (region (dst + 1) ?n)" "region src (Suc ?n) = insert src (region (src + 1) ?n)"
    by (rule region_Suc)+
  have nd: "dst \<notin> region (dst + 1) ?n"
    using region_tail [of 1 ?n dst] Cons.prems(3) region_offset [of 0 1 dst] by auto
  have dj: "dst \<notin> region (src + 1) ?n" "region (dst + 1) ?n \<inter> region (src + 1) ?n = {}" "?n \<le> 2 ^ 32"
    using Cons.prems(2,3) d by auto
  have "str_at ?r (src + 1) xs"
    by (rule str_at_cong [OF x(3)]) (use dj(1) in auto)
  from Cons.IH [OF this dj(2,3)] obtain r' where r': "ram_strcpy ?r (dst + 1) (src + 1) = Some r'" "str_at r' (dst + 1) xs"
    "\<forall>y. y \<notin> region (dst + 1) ?n \<longrightarrow> r' y = ?r y" by blast
  have "ram_strcpy r dst src = Some r'" using x r'(1) by (subst ram_strcpy.simps) simp
  moreover have "r' dst = x" using r'(3) nd x(2) by simp
  ultimately show ?case using r'(2,3) x(1) d by (auto simp: str_at_Cons)
qed

section \<open>The layout\<close>

text \<open>Whether strings laid out from offset \<open>ln\<close> fit, their offsets, and the end.\<close>

fun fits :: "nat \<Rightarrow> u8 list list \<Rightarrow> bool" where
  "fits ln [] = True"
| "fits ln (x # xs) = (ln + length x < 1024 \<and> fits (ln + length x + 1) xs)"

fun offsets :: "nat \<Rightarrow> u8 list list \<Rightarrow> nat list" where
  "offsets ln [] = []"
| "offsets ln (x # xs) = ln # offsets (ln + length x + 1) xs"

fun str_end :: "nat \<Rightarrow> u8 list list \<Rightarrow> nat" where
  "str_end ln [] = ln"
| "str_end ln (x # xs) = str_end (ln + length x + 1) xs"

lemma length_offsets [simp]: "length (offsets ln xs) = length xs"
  by (induction xs arbitrary: ln) auto

lemma str_end_ge: "ln \<le> str_end ln xs"
proof (induction xs arbitrary: ln)
  case (Cons x xs)
  from Cons [of "ln + length x + 1"] show ?case by simp
qed simp

lemma fits_end: "fits ln xs \<Longrightarrow> ln \<le> 1024 \<Longrightarrow> str_end ln xs \<le> 1024"
  by (induction xs arbitrary: ln) auto

lemma str_end_nth: "i < length xs \<Longrightarrow> offsets ln xs ! i + length (xs ! i) + 1 \<le> str_end ln xs"
proof (induction xs arbitrary: ln i)
  case (Cons x xs)
  then show ?case using str_end_ge [of "ln + length x + 1" xs] by (cases i) auto
qed simp

lemma offsets_bounds: "fits ln xs \<Longrightarrow> i < length xs \<Longrightarrow> ln \<le> offsets ln xs ! i \<and> offsets ln xs ! i < 1024"
proof (induction xs arbitrary: ln i)
  case (Cons x xs)
  then show ?case by (cases i) fastforce+
qed simp

text \<open>Strings in the memory of the caller, reached through the table at \<open>ws\<close>; not in the kernel's buffer.\<close>

definition src_strings :: "u32 \<Rightarrow> ram \<Rightarrow> u32 list \<Rightarrow> u8 list list \<Rightarrow> bool" where
  "src_strings kb r ws xss \<longleftrightarrow>
     list_all2 (\<lambda>w xs. str_at r w xs \<and> length xs < 65536 \<and> region w (Suc (length xs)) \<inter> region kb 1028 = {}) ws xss"

lemma src_strings_cong:
  assumes "src_strings kb r ws xss" and "\<And>x. x \<notin> region kb 1028 \<Longrightarrow> r' x = r x"
  shows "src_strings kb r' ws xss"
  unfolding src_strings_def
proof (rule list_all2_mono [OF assms(1) [unfolded src_strings_def]])
  fix w xs
  assume s: "str_at r w xs \<and> length xs < 65536 \<and> region w (Suc (length xs)) \<inter> region kb 1028 = {}"
  then have "str_at r' w xs" by (elim conjE) (erule str_at_cong, rule assms(2), blast)
  with s show "str_at r' w xs \<and> length xs < 65536 \<and> region w (Suc (length xs)) \<inter> region kb 1028 = {}" by blast
qed

lemma region_in: "i + n \<le> m \<Longrightarrow> region (a + of_nat i) n \<subseteq> region a m"
  using region_sub [of n i m a] by (simp add: add.commute)

lemma region_mono: "n \<le> m \<Longrightarrow> region a n \<subseteq> region a m"
  using region_in [of 0 n m a] by simp

lemma of_nat_nonzero: "0 < n \<Longrightarrow> n < 2 ^ 32 \<Longrightarrow> of_nat n \<noteq> (0 :: u32)"
proof
  assume n: "0 < n" "n < 2 ^ 32" and "of_nat n = (0 :: u32)"
  then have "(2 ^ 32 :: nat) dvd n" by (simp only: word_of_nat_eq_0_iff) simp
  then have "2 ^ 32 \<le> n" by (rule dvd_imp_le) (rule n)
  with n show False by simp
qed

lemma offsets_apart: "i + m \<le> j \<Longrightarrow> j + k \<le> 2 ^ 32 \<Longrightarrow> region (kb + of_nat i) m \<inter> region (kb + of_nat j) k = {}"
proof -
  assume le: "i + m \<le> j" "j + k \<le> 2 ^ 32"
  have "region (kb + of_nat i) (j - i) \<inter> region (kb + of_nat i + of_nat (j - i)) k = {}"
    by (rule region_tail) (use le in simp)
  moreover have "kb + of_nat i + of_nat (j - i) = kb + of_nat j" using le(1) by (simp add: add.assoc flip: of_nat_add)
  moreover have "region (kb + of_nat i + of_nat 0) m \<subseteq> region (kb + of_nat i) (j - i)"
    by (rule region_in) (use le(1) in simp)
  ultimately show ?thesis by auto
qed

lemma copy_strings_layout:
  assumes "table (ram s) (kb + of_nat t) ws" and "src_strings kb (ram s) ws xss"
    and "t + 4 * Suc (length ws) \<le> ln" and "ln \<le> 1028"
  shows "\<exists>s'. copy_strings kb (kb + of_nat t) ln s =
      KOk (if fits ln xss then Inr (str_end ln xss) else Inl (- E2BIG), s') \<and> proc_table s' = proc_table s \<and>
    (\<forall>x. x \<notin> region (kb + of_nat t) (4 * length ws) \<longrightarrow> x \<notin> region (kb + of_nat ln) (1024 - ln) \<longrightarrow> ram s' x = ram s x) \<and>
    (fits ln xss \<longrightarrow> table (ram s') (kb + of_nat t) (map of_nat (offsets ln xss)) \<and>
       (\<forall>i < length xss. str_at (ram s') (kb + of_nat (offsets ln xss ! i)) (xss ! i)))"
  using assms
proof (induction xss arbitrary: ws t ln s)
  case Nil
  then have "ws = []" by (simp add: src_strings_def)
  with Nil show ?case by (subst copy_strings.simps) (simp add: table_Nil)
next
  case (Cons xs xss)
  obtain w ws' where ws: "ws = w # ws'" "str_at (ram s) w xs" "length xs < 65536"
    "region w (Suc (length xs)) \<inter> region kb 1028 = {}" "src_strings kb (ram s) ws' xss"
    using Cons.prems(2) by (auto simp: src_strings_def list_all2_Cons2)
  let ?pa = "kb + of_nat t"
  have pa4: "?pa + 4 = kb + of_nat (t + 4)" by (simp add: add.assoc)
  have tb: "load32 (ram s) ?pa = w" "w \<noteq> 0" "table (ram s) (?pa + 4) ws'" using Cons.prems(1) by (simp_all add: ws(1) table_Cons)
  have sl: "ram_strlen (ram s) w 0 = Some (of_nat (length xs))" using strlen_str_at [OF ws(2)] by simp
  have al: "unat (ucast (of_nat (length xs) :: u32) :: u16) = length xs"
    using ws(3) by (simp add: unsigned_ucast_eq unat_of_nat take_bit_nat_eq_self)
  show ?case
  proof (cases "ln + length xs < 1024")
    case False
    then have "copy_strings kb ?pa ln s = KOk (Inl (- E2BIG), s)"
      using tb sl al by (subst copy_strings.simps) (simp add: EXEC_BUF_SIZE_def)
    with False show ?thesis by auto
  next
    case True
    let ?n = "Suc (length xs)" and ?dst = "kb + of_nat ln"
    have sub: "region ?dst ?n \<subseteq> region kb 1028" by (rule region_in) (use True in simp)
    then have "region ?dst ?n \<inter> region w ?n = {}" using ws(4) by blast
    from strcpy_str_at [OF ws(2) this] ws(3) obtain r1 where r1: "ram_strcpy (ram s) ?dst w = Some r1" "str_at r1 ?dst xs"
      "\<forall>x. x \<notin> region ?dst ?n \<longrightarrow> r1 x = ram s x" by auto
    let ?s1 = "s\<lparr>ram := store32 r1 ?pa (of_nat ln)\<rparr>"
    have run: "copy_strings kb ?pa ln s = copy_strings kb (?pa + 4) (ln + (length xs + 1)) ?s1"
      using tb sl al True r1(1) by (subst copy_strings.simps) (simp add: EXEC_BUF_SIZE_def)
    have keep: "ram ?s1 x = ram s x" if "x \<notin> region ?pa 4" "x \<notin> region ?dst ?n" for x
      using that r1(3) by (simp add: store32_outside)
    have le: "t + 8 + 4 * length ws' \<le> ln" using Cons.prems(3) by (simp add: ws(1))
    have tb1: "table (ram ?s1) (kb + of_nat (t + 4)) ws'"
    proof -
      have a1: "region ?pa 4 \<inter> region (kb + of_nat (t + 4)) (4 * Suc (length ws')) = {}"
        by (rule offsets_apart) (use le True in simp_all)
      have a2: "region (kb + of_nat (t + 4)) (4 * Suc (length ws')) \<inter> region ?dst ?n = {}"
        by (rule offsets_apart) (use le True in simp_all)
      have "table (ram ?s1) (kb + of_nat (t + 4)) ws' = table (ram s) (kb + of_nat (t + 4)) ws'"
        by (rule table_cong, rule keep) (use a1 a2 in blast)+
      then show ?thesis using tb(3) by (simp only: pa4)
    qed
    have inbuf: "region ?pa 4 \<subseteq> region kb 1028" by (rule region_in) (use le True in simp)
    have ss: "src_strings kb (ram ?s1) ws' xss"
      by (rule src_strings_cong [OF ws(5)]) (use keep sub inbuf in blast)
    have l1: "ln + (length xs + 1) \<le> 1028" "t + 4 + 4 * Suc (length ws') \<le> ln + (length xs + 1)" using True le by simp_all
    obtain s' where s': "copy_strings kb (kb + of_nat (t + 4)) (ln + (length xs + 1)) ?s1 =
        KOk (if fits (ln + (length xs + 1)) xss then Inr (str_end (ln + (length xs + 1)) xss) else Inl (- E2BIG), s')"
      "proc_table s' = proc_table ?s1"
      "\<forall>x. x \<notin> region (kb + of_nat (t + 4)) (4 * length ws') \<longrightarrow>
         x \<notin> region (kb + of_nat (ln + (length xs + 1))) (1024 - (ln + (length xs + 1))) \<longrightarrow> ram s' x = ram ?s1 x"
      "fits (ln + (length xs + 1)) xss \<longrightarrow> table (ram s') (kb + of_nat (t + 4)) (map of_nat (offsets (ln + (length xs + 1)) xss)) \<and>
         (\<forall>i < length xss. str_at (ram s') (kb + of_nat (offsets (ln + (length xs + 1)) xss ! i)) (xss ! i))"
      using Cons.IH [OF tb1 ss l1(2,1)] by blast
    have b1: "region (kb + of_nat (t + 4)) (4 * length ws') \<inter> region ?pa 4 = {}"
      using offsets_apart [of t 4 "t + 4" "4 * length ws'" kb] le True by auto
    have b2: "region (kb + of_nat (ln + (length xs + 1))) (1024 - (ln + (length xs + 1))) \<inter> region ?pa 4 = {}"
      using offsets_apart [of t 4 "ln + (length xs + 1)" "1024 - (ln + (length xs + 1))" kb] le True by auto
    have b3: "region (kb + of_nat (t + 4)) (4 * length ws') \<inter> region ?dst ?n = {}"
      using offsets_apart [of "t + 4" "4 * length ws'" ln ?n kb] le True by auto
    have b4: "region ?dst ?n \<inter> region (kb + of_nat (ln + (length xs + 1))) (1024 - (ln + (length xs + 1))) = {}"
      using offsets_apart [of ln ?n "ln + (length xs + 1)" "1024 - (ln + (length xs + 1))" kb] True by auto
    have b5: "region ?pa 4 \<inter> region ?dst ?n = {}" using offsets_apart [of t 4 ln ?n kb] le True by auto
    have hd: "load32 (ram s') ?pa = of_nat ln"
    proof -
      have "load32 (ram s') ?pa = load32 (ram ?s1) ?pa"
        by (rule load32_cong) (use s'(3) b1 b2 in blast)
      then show ?thesis by (simp add: load32_store32)
    qed
    have st: "str_at (ram s') ?dst xs"
    proof (rule str_at_cong [OF r1(2)])
      fix x assume x: "x \<in> region ?dst ?n"
      then have "ram s' x = ram ?s1 x" using s'(3) b3 b4 by blast
      also have "\<dots> = r1 x"
      proof -
        have "x \<notin> region ?pa 4" using x b5 by blast
        then show ?thesis by (simp add: store32_outside)
      qed
      finally show "ram s' x = r1 x" .
    qed
    have nz: "of_nat ln \<noteq> (0 :: u32)" by (rule of_nat_nonzero) (use le True in simp_all)
    have out: "ram s' x = ram s x" if "x \<notin> region ?pa (4 * length ws)" "x \<notin> region ?dst (1024 - ln)" for x
    proof -
      have "region ?pa (4 + 4 * length ws') = region ?pa 4 \<union> region (?pa + of_nat 4) (4 * length ws')" by (rule region_split)
      then have n1: "x \<notin> region ?pa 4" "x \<notin> region (kb + of_nat (t + 4)) (4 * length ws')"
        using that(1) pa4 by (auto simp: ws(1))
      have "1024 - ln = ?n + (1024 - (ln + (length xs + 1)))" using True by simp
      then have "region ?dst (1024 - ln) = region ?dst ?n \<union> region (?dst + of_nat ?n) (1024 - (ln + (length xs + 1)))"
        by (metis region_split)
      moreover have e: "?dst + of_nat ?n = kb + of_nat (ln + (length xs + 1))" by (simp add: add.assoc)
      ultimately have "region ?dst (1024 - ln) = region ?dst ?n \<union> region (kb + of_nat (ln + (length xs + 1))) (1024 - (ln + (length xs + 1)))"
        by (simp only: e)
      then have n2: "x \<notin> region ?dst ?n" "x \<notin> region (kb + of_nat (ln + (length xs + 1))) (1024 - (ln + (length xs + 1)))"
        using that(2) by blast+
      from s'(3) n1(2) n2(2) keep [OF n1(1) n2(1)] show ?thesis by simp
    qed
    have "copy_strings kb ?pa ln s = KOk (if fits ln (xs # xss) then Inr (str_end ln (xs # xss)) else Inl (- E2BIG), s')"
      using run s'(1) True pa4 by simp
    moreover have "proc_table s' = proc_table s" using s'(2) by simp
    moreover have "table (ram s') ?pa (map of_nat (offsets ln (xs # xss)))" if "fits ln (xs # xss)"
      using that s'(4) hd nz by (simp add: table_Cons add.assoc)
    moreover have "\<forall>i < length (xs # xss). str_at (ram s') (kb + of_nat (offsets ln (xs # xss) ! i)) ((xs # xss) ! i)"
      if "fits ln (xs # xss)"
    proof (intro allI impI)
      fix i assume "i < length (xs # xss)"
      then show "str_at (ram s') (kb + of_nat (offsets ln (xs # xss) ! i)) ((xs # xss) ! i)"
        using st that s'(4) by (cases i) simp_all
    qed
    ultimately show ?thesis using out by blast
  qed
qed

section \<open>The pointers of the caller\<close>

text \<open>
  The null-terminated table at the address \<open>va\<close> of the process leads to the physical addresses \<open>ws\<close>;
  it does not lie in the kernel's buffer.
\<close>

fun user_ptrs :: "u32 \<Rightarrow> pid \<Rightarrow> u32 \<Rightarrow> 'a kstate_scheme \<Rightarrow> u32 list \<Rightarrow> bool" where
  "user_ptrs kb p va s [] \<longleftrightarrow> (\<exists>a. va_to_pa p va 4 s = KOk a \<and> a \<noteq> 0 \<and> load32 (ram s) a = 0 \<and> region a 4 \<inter> region kb 1028 = {})"
| "user_ptrs kb p va s (w # ws) \<longleftrightarrow>
     (\<exists>a. va_to_pa p va 4 s = KOk a \<and> a \<noteq> 0 \<and> load32 (ram s) a \<noteq> 0 \<and> region a 4 \<inter> region kb 1028 = {} \<and>
        va_to_pa p (load32 (ram s) a) 4 s = KOk w \<and> w \<noteq> 0) \<and> user_ptrs kb p (va + 4) s ws"

lemma va_to_pa_same:
  assumes "proc_table s' = proc_table s" shows "va_to_pa p a n s' = va_to_pa p a n s"
  unfolding va_to_pa_def assms by (rule refl)

lemma user_ptrs_cong:
  assumes "user_ptrs kb p va s ws" and "proc_table s' = proc_table s" and "\<And>x. x \<notin> region kb 1028 \<Longrightarrow> ram s' x = ram s x"
  shows "user_ptrs kb p va s' ws"
  using assms(1)
proof (induction ws arbitrary: va)
  have ld: "load32 (ram s') a = load32 (ram s) a" if "region a 4 \<inter> region kb 1028 = {}" for a
    by (rule load32_cong, rule assms(3)) (use that in blast)
  case Nil
  then show ?case using ld va_to_pa_same [OF assms(2)] by auto
next
  have ld: "load32 (ram s') a = load32 (ram s) a" if "region a 4 \<inter> region kb 1028 = {}" for a
    by (rule load32_cong, rule assms(3)) (use that in blast)
  case (Cons w ws)
  then obtain a where "va_to_pa p va 4 s = KOk a" "a \<noteq> 0" "load32 (ram s) a \<noteq> 0" "region a 4 \<inter> region kb 1028 = {}"
    "va_to_pa p (load32 (ram s) a) 4 s = KOk w" "w \<noteq> 0" "user_ptrs kb p (va + 4) s ws" by auto
  with Cons.IH ld va_to_pa_same [OF assms(2)] show ?case by auto
qed

text \<open>What both loops do to the table: one entry is written, the rest follows.\<close>

lemma table_step:
  assumes "region (kb + of_nat t) 4 \<inter> region (kb + of_nat (t + 4)) (4 * Suc (length ws)) = {}" and "w \<noteq> 0"
    and "ram s1 = store32 (ram s) (kb + of_nat t) w"
    and "table (ram s') (kb + of_nat (t + 4)) ws"
    and "\<forall>x. x \<notin> region (kb + of_nat (t + 4)) (4 * Suc (length ws)) \<longrightarrow> ram s' x = ram s1 x"
  shows "table (ram s') (kb + of_nat t) (w # ws) \<and>
    (\<forall>x. x \<notin> region (kb + of_nat t) (4 * Suc (length (w # ws))) \<longrightarrow> ram s' x = ram s x)"
proof
  have e: "kb + of_nat t + 4 = kb + of_nat (t + 4)" by (simp add: add.assoc)
  have "load32 (ram s') (kb + of_nat t) = load32 (ram s1) (kb + of_nat t)"
    by (rule load32_cong) (use assms(1,5) in blast)
  then show "table (ram s') (kb + of_nat t) (w # ws)"
    using assms(2,3,4) unfolding table_Cons e by (simp add: load32_store32)
  have "region (kb + of_nat t) (4 + 4 * Suc (length ws)) = region (kb + of_nat t) 4 \<union> region (kb + of_nat t + of_nat 4) (4 * Suc (length ws))"
    by (rule region_split)
  then have "region (kb + of_nat t) (4 * Suc (length (w # ws))) = region (kb + of_nat t) 4 \<union> region (kb + of_nat (t + 4)) (4 * Suc (length ws))"
    using e by simp
  then show "\<forall>x. x \<notin> region (kb + of_nat t) (4 * Suc (length (w # ws))) \<longrightarrow> ram s' x = ram s x"
    using assms(3,5) by (auto simp: store32_outside)
qed

lemma table_last: "ram s1 = store32 (ram s) a 0 \<Longrightarrow> table (ram s1) a [] \<and> (\<forall>x. x \<notin> region a (4 * Suc (length [])) \<longrightarrow> ram s1 x = ram s x)"
  by (simp add: table_Nil load32_store32 store32_outside)

lemma argv_pointers_table:
  assumes "user_ptrs kb p va s ws" and "argc + length ws < 256"
  shows "\<exists>s'. argv_pointers p va (kb + of_nat (4 * argc)) argc s = KOk (Inr (argc + length ws), s') \<and>
    proc_table s' = proc_table s \<and> table (ram s') (kb + of_nat (4 * argc)) ws \<and>
    (\<forall>x. x \<notin> region (kb + of_nat (4 * argc)) (4 * Suc (length ws)) \<longrightarrow> ram s' x = ram s x)"
  using assms
proof (induction ws arbitrary: va argc s)
  case Nil
  then obtain a where a: "va_to_pa p va 4 s = KOk a" "a \<noteq> 0" "load32 (ram s) a = 0" by auto
  let ?s = "s\<lparr>ram := store32 (ram s) (kb + of_nat (4 * argc)) 0\<rparr>"
  have "argv_pointers p va (kb + of_nat (4 * argc)) argc s = KOk (Inr argc, ?s)"
    using a by (subst argv_pointers.simps) simp
  with table_last [of ?s s "kb + of_nat (4 * argc)"] show ?case by (intro exI [of _ ?s]) simp
next
  case (Cons w ws)
  then obtain a where a: "va_to_pa p va 4 s = KOk a" "a \<noteq> 0" "load32 (ram s) a \<noteq> 0" "va_to_pa p (load32 (ram s) a) 4 s = KOk w"
    "w \<noteq> 0" "user_ptrs kb p (va + 4) s ws" by auto
  let ?t = "4 * argc" and ?s1 = "s\<lparr>ram := store32 (ram s) (kb + of_nat (4 * argc)) w\<rparr>"
  have t4: "4 * (argc + 1) = ?t + 4" "kb + of_nat ?t + 4 = kb + of_nat (?t + 4)" by (simp_all add: add.assoc)
  have run: "argv_pointers p va (kb + of_nat ?t) argc s = argv_pointers p (va + 4) (kb + of_nat (4 * (argc + 1))) (argc + 1) ?s1"
    using a Cons.prems(2) unfolding t4(1) by (subst argv_pointers.simps) (simp add: EXEC_BUF_SIZE_def add.assoc)
  have "region (kb + of_nat ?t) 4 \<subseteq> region kb 1028" by (rule region_in) (use Cons.prems(2) in simp)
  then have "user_ptrs kb p (va + 4) ?s1 ws"
    by (intro user_ptrs_cong [OF a(6)]) (auto intro!: store32_outside)
  from Cons.IH [OF this, of "argc + 1"] Cons.prems(2) obtain s' where
    s': "argv_pointers p (va + 4) (kb + of_nat (4 * (argc + 1))) (argc + 1) ?s1 = KOk (Inr (argc + length (w # ws)), s')"
      "proc_table s' = proc_table ?s1" "table (ram s') (kb + of_nat (?t + 4)) ws"
      "\<forall>x. x \<notin> region (kb + of_nat (?t + 4)) (4 * Suc (length ws)) \<longrightarrow> ram s' x = ram ?s1 x"
    unfolding t4(1) by auto
  have "region (kb + of_nat ?t) 4 \<inter> region (kb + of_nat (?t + 4)) (4 * Suc (length ws)) = {}"
    by (rule offsets_apart) (use Cons.prems(2) in simp_all)
  from table_step [OF this a(5) _ s'(3,4)] run s'(1,2) show ?case by auto
qed

lemma envp_pointers_table:
  assumes "user_ptrs kb p va s ws" and "ln + 4 * length ws \<le> 1024" and "ws = [] \<or> ln + 4 * length ws < 1024"
  shows "\<exists>s'. envp_pointers p va (kb + of_nat ln) ln s = KOk (Inr (ln + 4 * Suc (length ws)), s') \<and>
    proc_table s' = proc_table s \<and> table (ram s') (kb + of_nat ln) ws \<and>
    (\<forall>x. x \<notin> region (kb + of_nat ln) (4 * Suc (length ws)) \<longrightarrow> ram s' x = ram s x)"
  using assms
proof (induction ws arbitrary: va ln s)
  case Nil
  then obtain a where a: "va_to_pa p va 4 s = KOk a" "a \<noteq> 0" "load32 (ram s) a = 0" by auto
  let ?s = "s\<lparr>ram := store32 (ram s) (kb + of_nat ln) 0\<rparr>"
  have "envp_pointers p va (kb + of_nat ln) ln s = KOk (Inr (ln + 4), ?s)"
    using a by (subst envp_pointers.simps) simp
  with table_last [of ?s s "kb + of_nat ln"] show ?case by (intro exI [of _ ?s]) simp
next
  case (Cons w ws)
  then obtain a where a: "va_to_pa p va 4 s = KOk a" "a \<noteq> 0" "load32 (ram s) a \<noteq> 0" "va_to_pa p (load32 (ram s) a) 4 s = KOk w"
    "w \<noteq> 0" "user_ptrs kb p (va + 4) s ws" by auto
  let ?s1 = "s\<lparr>ram := store32 (ram s) (kb + of_nat ln) w\<rparr>"
  have t4: "kb + of_nat ln + 4 = kb + of_nat (ln + 4)" by (simp add: add.assoc)
  have run: "envp_pointers p va (kb + of_nat ln) ln s = envp_pointers p (va + 4) (kb + of_nat (ln + 4)) (ln + 4) ?s1"
    using a Cons.prems(3) by (subst envp_pointers.simps) (simp add: EXEC_BUF_SIZE_def add.assoc)
  have "region (kb + of_nat ln) 4 \<subseteq> region kb 1028" by (rule region_in) (use Cons.prems(3) in simp)
  then have "user_ptrs kb p (va + 4) ?s1 ws"
    by (intro user_ptrs_cong [OF a(6)]) (auto intro!: store32_outside)
  from Cons.IH [OF this, of "ln + 4"] Cons.prems(2,3) obtain s' where
    s': "envp_pointers p (va + 4) (kb + of_nat (ln + 4)) (ln + 4) ?s1 = KOk (Inr (ln + 4 * Suc (length (w # ws))), s')"
      "proc_table s' = proc_table ?s1" "table (ram s') (kb + of_nat (ln + 4)) ws"
      "\<forall>x. x \<notin> region (kb + of_nat (ln + 4)) (4 * Suc (length ws)) \<longrightarrow> ram s' x = ram ?s1 x"
    by auto
  have "region (kb + of_nat ln) 4 \<inter> region (kb + of_nat (ln + 4)) (4 * Suc (length ws)) = {}"
    by (rule offsets_apart) (use Cons.prems(2) in simp_all)
  from table_step [OF this a(5) _ s'(3,4)] run s'(1,2) show ?case by auto
qed

section \<open>The arguments in the buffer\<close>

text \<open>A table of offsets into the buffer and the strings they denote.\<close>

definition in_buffer :: "u32 \<Rightarrow> ram \<Rightarrow> nat \<Rightarrow> nat list \<Rightarrow> u8 list list \<Rightarrow> bool" where
  "in_buffer kb r t offs xss \<longleftrightarrow> length offs = length xss \<and> table r (kb + of_nat t) (map of_nat offs) \<and>
     (\<forall>i < length xss. offs ! i < 1024 \<and> str_at r (kb + of_nat (offs ! i)) (xss ! i))"

lemma argv_part:
  assumes "user_ptrs kb p va s ws" and "src_strings kb (ram s) ws args" and "length args < 256"
  shows "\<exists>s1 s2. argv_pointers p va kb 0 s = KOk (Inr (length args), s1) \<and>
    copy_strings kb kb (4 * Suc (length args)) s1 =
      KOk (if fits (4 * Suc (length args)) args then Inr (str_end (4 * Suc (length args)) args) else Inl (- E2BIG), s2) \<and>
    proc_table s2 = proc_table s \<and> (\<forall>x. x \<notin> region kb 1024 \<longrightarrow> ram s2 x = ram s x) \<and>
    (fits (4 * Suc (length args)) args \<longrightarrow> in_buffer kb (ram s2) 0 (offsets (4 * Suc (length args)) args) args)"
proof -
  have l: "length ws = length args" using assms(2) by (auto simp: src_strings_def list_all2_lengthD)
  obtain s1 where s1: "argv_pointers p va kb 0 s = KOk (Inr (length args), s1)" "proc_table s1 = proc_table s"
    "table (ram s1) (kb + of_nat 0) ws" "\<forall>x. x \<notin> region kb (4 * Suc (length args)) \<longrightarrow> ram s1 x = ram s x"
    using argv_pointers_table [OF assms(1), of 0] assms(3) l by auto
  let ?ln = "4 * Suc (length args)"
  have sub: "region kb ?ln \<subseteq> region kb 1024" "region kb 1024 \<subseteq> region kb 1028"
    "region (kb + of_nat ?ln) (1024 - ?ln) \<subseteq> region kb 1024" "region kb (4 * length ws) \<subseteq> region kb 1024"
    by (rule region_mono region_in; use assms(3) l in simp)+
  have "src_strings kb (ram s1) ws args"
    by (rule src_strings_cong [OF assms(2)]) (use s1(4) sub in auto)
  from copy_strings_layout [OF s1(3) this, of ?ln] assms(3) l obtain s2 where
    s2: "copy_strings kb kb ?ln s1 = KOk (if fits ?ln args then Inr (str_end ?ln args) else Inl (- E2BIG), s2)"
      "proc_table s2 = proc_table s1"
      "\<forall>x. x \<notin> region kb (4 * length ws) \<longrightarrow> x \<notin> region (kb + of_nat ?ln) (1024 - ?ln) \<longrightarrow> ram s2 x = ram s1 x"
      "fits ?ln args \<longrightarrow> table (ram s2) kb (map of_nat (offsets ?ln args)) \<and>
         (\<forall>i < length args. str_at (ram s2) (kb + of_nat (offsets ?ln args ! i)) (args ! i))" by auto
  have "ram s2 x = ram s x" if "x \<notin> region kb 1024" for x
  proof -
    have "x \<notin> region kb ?ln" "x \<notin> region (kb + of_nat ?ln) (1024 - ?ln)" "x \<notin> region kb (4 * length ws)"
      using that sub by blast+
    with s2(3) s1(4) show ?thesis by metis
  qed
  moreover have "fits ?ln args \<longrightarrow> in_buffer kb (ram s2) 0 (offsets ?ln args) args"
    using s2(4) offsets_bounds [of ?ln args] by (auto simp: in_buffer_def)
  ultimately show ?thesis using s1(1,2) s2(1,2) by auto
qed

lemma copy_run:
  assumes "argv_pointers p va kb 0 s = KOk (Inr argc, s1)" and "copy_strings kb kb (4 * Suc argc) s1 = KOk (r, s2)"
  shows "copy_argv_envp kb p va ve s = (case r of Inl e \<Rightarrow> KOk (e, 0, 0, s2) | Inr ln \<Rightarrow> copy_envp kb p ve (align4 ln) s2)"
  using assms by (simp add: copy_argv_envp_def mult.commute [of argc 4])

text \<open>C15. The arguments and the environment of an EXEC call survive the copy into the kernel: the buffer
  starts with a null-terminated table of offsets, one for each argument, in order; the string at each
  offset is the string of the caller; behind the last of them, aligned, the same holds for the environment;
  nothing outside the 1024 bytes of the buffer changes. Arguments that do not fit are refused with
  \<open>E2BIG\<close>, again without touching anything else.\<close>

theorem exec_copies_arguments:
  assumes "user_ptrs kb p va_argv s aws" and "src_strings kb (ram s) aws args" and "length args < 256"
    and "user_ptrs kb p va_envp s ews" and "src_strings kb (ram s) ews env" and "va_envp \<noteq> 0"
    and "ln = align4 (str_end (4 * Suc (length args)) args)" and "ln + 4 * Suc (length env) \<le> 1024"
    and "fits (ln + 4 * Suc (length env)) env"
  shows "\<exists>e ln2 s'. copy_argv_envp kb p va_argv va_envp s = KOk (e, ln2, if e = 0 then of_nat ln else 0, s') \<and>
    (\<forall>x. x \<notin> region kb 1024 \<longrightarrow> ram s' x = ram s x) \<and>
    (if fits (4 * Suc (length args)) args
     then e = 0 \<and> ln2 = of_nat (str_end (ln + 4 * Suc (length env)) env) \<and>
       in_buffer kb (ram s') 0 (offsets (4 * Suc (length args)) args) args \<and>
       in_buffer kb (ram s') ln (offsets (ln + 4 * Suc (length env)) env) env
     else e = - E2BIG \<and> ln2 = 0)"
proof -
  let ?la = "4 * Suc (length args)" and ?le = "ln + 4 * Suc (length env)"
  obtain s1 s2 where s2: "argv_pointers p va_argv kb 0 s = KOk (Inr (length args), s1)"
    "copy_strings kb kb ?la s1 = KOk (if fits ?la args then Inr (str_end ?la args) else Inl (- E2BIG), s2)"
    "proc_table s2 = proc_table s" "\<forall>x. x \<notin> region kb 1024 \<longrightarrow> ram s2 x = ram s x"
    "fits ?la args \<longrightarrow> in_buffer kb (ram s2) 0 (offsets ?la args) args"
    using argv_part [OF assms(1-3)] by blast
  show ?thesis
  proof (cases "fits ?la args")
    case False
    then have "copy_argv_envp kb p va_argv va_envp s = KOk (- E2BIG, 0, 0, s2)"
      using copy_run [OF s2(1,2)] by simp
    with False s2(4) show ?thesis by (auto simp: E2BIG_def)
  next
    case True
    have l: "length ews = length env" using assms(5) by (auto simp: src_strings_def list_all2_lengthD)
    have sub: "region kb 1024 \<subseteq> region kb 1028" "region (kb + of_nat ln) (4 * Suc (length ews)) \<subseteq> region kb 1024"
      "region (kb + of_nat ln) (4 * length ews) \<subseteq> region kb 1024" "region (kb + of_nat ?le) (1024 - ?le) \<subseteq> region kb 1024"
      by (rule region_mono region_in; use assms(8) l in simp)+
    have same: "ram s2 x = ram s x" if "x \<notin> region kb 1028" for x using that s2(4) sub(1) by auto
    have "user_ptrs kb p va_envp s2 ews" by (rule user_ptrs_cong [OF assms(4) s2(3) same])
    from envp_pointers_table [OF this, of ln] assms(8) l obtain s3 where
      s3: "envp_pointers p va_envp (kb + of_nat ln) ln s2 = KOk (Inr ?le, s3)" "proc_table s3 = proc_table s2"
        "table (ram s3) (kb + of_nat ln) ews" "\<forall>x. x \<notin> region (kb + of_nat ln) (4 * Suc (length ews)) \<longrightarrow> ram s3 x = ram s2 x"
      by auto
    have "src_strings kb (ram s3) ews env"
    proof (rule src_strings_cong [OF assms(5)])
      fix x assume x: "x \<notin> region kb 1028"
      then have "x \<notin> region (kb + of_nat ln) (4 * Suc (length ews))" using sub by blast
      with s3(4) same [OF x] show "ram s3 x = ram s x" by simp
    qed
    from copy_strings_layout [OF s3(3) this, of ?le] assms(8,9) l obtain s4 where
      s4: "copy_strings kb (kb + of_nat ln) ?le s3 = KOk (Inr (str_end ?le env), s4)" "proc_table s4 = proc_table s3"
        "\<forall>x. x \<notin> region (kb + of_nat ln) (4 * length ews) \<longrightarrow> x \<notin> region (kb + of_nat ?le) (1024 - ?le) \<longrightarrow> ram s4 x = ram s3 x"
        "table (ram s4) (kb + of_nat ln) (map of_nat (offsets ?le env))"
        "\<forall>i < length env. str_at (ram s4) (kb + of_nat (offsets ?le env ! i)) (env ! i)" by auto
    have run: "copy_argv_envp kb p va_argv va_envp s = KOk (0, of_nat (str_end ?le env), of_nat ln, s4)"
      using copy_run [OF s2(1,2), of va_envp] True s3(1) s4(1) assms(6)
      by (simp only: if_True sum.case copy_envp_def assms(7) [symmetric]) simp
    have out: "ram s4 x = ram s x" if "x \<notin> region kb 1024" for x
    proof -
      have "x \<notin> region (kb + of_nat ln) (4 * Suc (length ews))" "x \<notin> region (kb + of_nat ln) (4 * length ews)"
        "x \<notin> region (kb + of_nat ?le) (1024 - ?le)" using that sub(2-4) by blast+
      with that s4(3) s3(4) s2(4) show ?thesis by metis
    qed
    have fin: "str_end ?la args \<le> ln" "ln \<le> 1024"
      using assms(8) unfolding assms(7) align4_def by presburger+
    have low: "ram s4 x = ram s2 x" if "x \<in> region (kb + of_nat i) n" "i + n \<le> str_end ?la args" for x i n
    proof -
      have a: "region (kb + of_nat i) n \<inter> region (kb + of_nat ln) (4 * Suc (length ews)) = {}"
        "region (kb + of_nat i) n \<inter> region (kb + of_nat ln) (4 * length ews) = {}"
        "region (kb + of_nat i) n \<inter> region (kb + of_nat ?le) (1024 - ?le) = {}"
        by (rule offsets_apart; use that(2) fin assms(8) l in simp)+
      with that(1) s4(3) s3(4) show ?thesis by (metis disjoint_iff)
    qed
    have a: "in_buffer kb (ram s4) 0 (offsets ?la args) args"
    proof -
      have b: "in_buffer kb (ram s2) 0 (offsets ?la args) args" using s2(5) True by simp
      have "table (ram s4) (kb + of_nat 0) (map of_nat (offsets ?la args)) = table (ram s2) (kb + of_nat 0) (map of_nat (offsets ?la args))"
        by (rule table_cong, rule low [of _ 0 ?la]) (use str_end_ge [of ?la args] in simp_all)
      moreover have "str_at (ram s4) (kb + of_nat (offsets ?la args ! i)) (args ! i)" if "i < length args" for i
      proof (rule str_at_cong)
        show "str_at (ram s2) (kb + of_nat (offsets ?la args ! i)) (args ! i)" using b that by (simp add: in_buffer_def)
        show "ram s4 x = ram s2 x" if "x \<in> region (kb + of_nat (offsets ?la args ! i)) (Suc (length (args ! i)))" for x
          by (rule low [OF that]) (use str_end_nth [OF \<open>i < length args\<close>, of ?la] in simp)
      qed
      ultimately show ?thesis using b by (simp add: in_buffer_def)
    qed
    have b: "in_buffer kb (ram s4) ln (offsets ?le env) env"
      using s4(4,5) offsets_bounds [OF assms(9)] by (auto simp: in_buffer_def)
    show ?thesis using run out a b True by (intro exI [of _ 0] exI [of _ "of_nat (str_end ?le env)"] exI [of _ s4]) simp
  qed
qed

text \<open>The table of the environment is written before its room is checked. Arguments that fill
  the buffer to within its last three bytes, with an empty environment, make the terminator of that
  table the word behind the buffer, and the call is accepted.\<close>

theorem exec_environment_overflows:
  assumes "user_ptrs kb p va_argv s aws" and "src_strings kb (ram s) aws args" and "length args < 256"
    and "fits (4 * Suc (length args)) args" and "1020 < str_end (4 * Suc (length args)) args"
    and "va_envp \<noteq> 0" and "user_ptrs kb p va_envp s []"
  shows "\<exists>s'. copy_argv_envp kb p va_argv va_envp s = KOk (0, 1028, 1024, s') \<and>
    region (kb + 1024) 4 \<inter> region kb 1024 = {} \<and> load32 (ram s') (kb + 1024) = 0"
proof -
  let ?la = "4 * Suc (length args)"
  obtain s1 s2 where s2: "argv_pointers p va_argv kb 0 s = KOk (Inr (length args), s1)"
    "copy_strings kb kb ?la s1 = KOk (Inr (str_end ?la args), s2)"
    "proc_table s2 = proc_table s" "\<forall>x. x \<notin> region kb 1024 \<longrightarrow> ram s2 x = ram s x"
    using argv_part [OF assms(1-3)] assms(4) by auto
  have "str_end ?la args \<le> 1024" by (rule fits_end [OF assms(4)]) (use assms(3) in simp)
  then have ln: "align4 (str_end ?la args) = 1024" using assms(5) unfolding align4_def by presburger
  have "region (kb + of_nat 0) 1024 \<subseteq> region kb 1028" by (rule region_in) simp
  then have same: "ram s2 x = ram s x" if "x \<notin> region kb 1028" for x using that s2(4) by auto
  have "user_ptrs kb p va_envp s2 []" by (rule user_ptrs_cong [OF assms(7) s2(3) same])
  from envp_pointers_table [OF this, of 1024] obtain s3 where
    s3: "envp_pointers p va_envp (kb + 1024) 1024 s2 = KOk (Inr 1028, s3)" "table (ram s3) (kb + 1024) []" by auto
  have "copy_strings kb (kb + 1024) 1028 s3 = KOk (Inr 1028, s3)"
    using s3(2) by (subst copy_strings.simps) (simp add: table_Nil)
  then have "copy_argv_envp kb p va_argv va_envp s = KOk (0, 1028, 1024, s3)"
    using copy_run [OF s2(1,2), of va_envp] s3(1) assms(6) unfolding ln sum.case copy_envp_def by simp
  moreover have "region (kb + 1024) 4 \<inter> region kb 1024 = {}"
    using region_tail [of 1024 4 kb] by auto
  ultimately show ?thesis using s3(2) by (intro exI [of _ s3]) (simp add: table_Nil)
qed

section \<open>A caller with one argument and an empty environment\<close>

definition demo_user :: "u8 list \<Rightarrow> file_state" where
  "demo_user str = (demo_state 0x1000)\<lparr>ram := put_bytes (put_bytes (\<lambda>_. 0) 0x40110 (str @ [0])) 0x40100 [0, 0, 1, 16, 0, 0, 0, 0, 0, 0, 0, 0]\<rparr>"

lemma demo_user_va: "va_to_pa 1 a 4 (demo_user str) = KOk (if a + 4 > 0x1000 then 0 else a + 0x40000)"
  by (simp add: va_to_pa_def entry_pids pids_def demo_user_def demo_state_def)

lemma demo_user_ram: "ram (demo_user str) = put_bytes (put_bytes (\<lambda>_. 0) 0x40110 (str @ [0])) 0x40100 [0, 0, 1, 16, 0, 0, 0, 0, 0, 0, 0, 0]"
  by (simp add: demo_user_def)

lemma demo_user_words: "load32 (ram (demo_user str)) 0x40100 = 0x110" "load32 (ram (demo_user str)) 0x40104 = 0" "load32 (ram (demo_user str)) 0x40108 = 0"
  by (simp_all add: demo_user_ram load32_def put_bytes_def)

lemma demo_user_far: "region 0x40100 4 \<inter> region 0x3000 1028 = {}" "region 0x40104 4 \<inter> region 0x3000 1028 = {}"
    "region 0x40108 4 \<inter> region 0x3000 1028 = {}" "n \<le> 2000 \<Longrightarrow> region 0x40110 n \<inter> region 0x3000 1028 = {}"
  using regions_apart [of "0x3000" 1028 "0x40100" 4] regions_apart [of "0x3000" 1028 "0x40104" 4]
    regions_apart [of "0x3000" 1028 "0x40108" 4] regions_apart [of "0x3000" 1028 "0x40110" n] by (simp_all add: Int_commute)

lemma demo_user_ptrs: "user_ptrs 0x3000 1 0x100 (demo_user str) [0x40110]" "user_ptrs 0x3000 1 0x108 (demo_user str) []"
  using demo_user_far by (simp_all add: demo_user_va demo_user_words)

lemma demo_user_strings:
  assumes "0 \<notin> set str" and "length str < 1999"
  shows "src_strings 0x3000 (ram (demo_user str)) [0x40110] [str]"
proof -
  have "holds (put_bytes (\<lambda>_. 0) 0x40110 (str @ [0])) 0x40110 (str @ [0])" by (rule put_holds) (use assms(2) in simp)
  then have "holds (ram (demo_user str)) 0x40110 (str @ [0])"
    unfolding demo_user_ram
  proof (rule holds_same)
    fix x assume "x \<in> region 0x40110 (length (str @ [0]))"
    moreover have "region 0x40100 (length [0, 0, 1, 16, 0, 0, 0, 0, 0, 0, 0, 0 :: u8]) \<inter> region 0x40110 (length (str @ [0])) = {}"
      by (rule regions_apart) (use assms(2) in simp_all)
    ultimately have "x \<notin> region 0x40100 (length [0, 0, 1, 16, 0, 0, 0, 0, 0, 0, 0, 0 :: u8])" by blast
    then show "put_bytes (put_bytes (\<lambda>_. 0) 0x40110 (str @ [0])) 0x40100 [0, 0, 1, 16, 0, 0, 0, 0, 0, 0, 0, 0] x =
        put_bytes (\<lambda>_. 0) 0x40110 (str @ [0]) x"
      by (rule put_outside)
  qed
  with assms demo_user_far(4) show ?thesis by (simp add: src_strings_def str_at_def)
qed

theorem exec_copies_arguments_witness:
  "\<exists>s'. copy_argv_envp 0x3000 1 0x100 0x108 (demo_user [97]) = KOk (0, 16, 12, s') \<and> str_at (ram s') 0x3008 [97]"
proof -
  have s: "src_strings 0x3000 (ram (demo_user [97])) [0x40110] [[97]]" by (rule demo_user_strings) simp_all
  have e: "src_strings 0x3000 (ram (demo_user [97])) [] []" by (simp add: src_strings_def)
  have ln: "12 = align4 (str_end (4 * Suc (length [[97 :: u8]])) [[97]])" by (simp add: align4_def)
  from exec_copies_arguments [OF demo_user_ptrs(1) s _ demo_user_ptrs(2) e _ ln]
  obtain ev ln2 s' where r: "copy_argv_envp 0x3000 1 0x100 0x108 (demo_user [97]) = KOk (ev, ln2, if ev = 0 then 12 else 0, s')"
    "ev = 0" "ln2 = 16" "in_buffer 0x3000 (ram s') 0 (offsets 8 [[97]]) [[97]]" by auto
  have "copy_argv_envp 0x3000 1 0x100 0x108 (demo_user [97]) = KOk (0, 16, 12, s')" using r(1-3) by simp
  with r(4) show ?thesis by (auto simp: in_buffer_def)
qed

theorem exec_environment_overflows_witness:
  "\<exists>s'. copy_argv_envp 0x3000 1 0x100 0x108 (demo_user (replicate 1014 97)) = KOk (0, 1028, 1024, s')"
proof -
  have s: "src_strings 0x3000 (ram (demo_user (replicate 1014 97))) [0x40110] [replicate 1014 97]"
    by (rule demo_user_strings) simp_all
  from exec_environment_overflows [OF demo_user_ptrs(1) s _ _ _ _ demo_user_ptrs(2)]
  show ?thesis by auto
qed

end
