(* ===== verification/Vnode.thy ===== *)
theory Vnode
  imports Proc Dev MemBytes
begin

text \<open>
  The data of the file system task: software/system/kernel/include/vfs.h and the tables of vfs.c, the
  pool of vnodes with its free list, reference counts, and the interface \<open>vfsops\<close> / \<open>vnodeops\<close> every
  file system implements. A pointer to a table entry is its index, the null pointer \<open>None\<close>. The private
  data of a file system in a \<open>vfs\<close> or a \<open>vnode\<close> is a union in the code; here each file system has its
  own field, and writes it before it reads it. The sector buffer of a FAT file is memory (\<open>Fat\<close>).
\<close>

section \<open>State\<close>

definition K_VFS_COUNT :: nat where "K_VFS_COUNT = 8"
definition K_VNODE_COUNT :: nat where "K_VNODE_COUNT = 16"
definition K_PROC_FD_COUNT :: nat where "K_PROC_FD_COUNT = 16"
definition K_MAX_FILENAME_LEN :: nat where "K_MAX_FILENAME_LEN = 64"
definition K_MAX_DIRNAME_LEN :: nat where "K_MAX_DIRNAME_LEN = 128"
definition K_MAX_DIRENT_LEN :: u32 where "K_MAX_DIRENT_LEN = 128"
definition K_MAX_READWRITE_LEN :: u32 where "K_MAX_READWRITE_LEN = 512"

datatype vtype = VNON | VREG | VDIR | VBLK | VCHR | VBAD

text \<open>The file systems of \<open>_vfs_fs_types\<close>; a pointer to a table of operations is the name of its owner.\<close>

datatype fsid = FS_devfs | FS_rfs | FS_fat

record rnode =
  rn_rnode :: u32
  rn_lseek :: u32
  rn_FileSize :: u32

record devnode =
  dn_flags :: u32
  dn_dev :: u16
  dn_lseek :: u32

record fnode =
  fn_fnode :: u32
  fn_Attributes :: u8
  fn_FirstCluster :: u16
  fn_FileSize :: u32
  fn_CurrentCluster :: u16
  fn_CurrentSectorInCluster :: u8
  fn_CurrentByte :: u32
  fn_CurrentByteInSector :: u16
  fn_buf_sector :: u32

record vnode =
  vn_next :: "nat option"
  v_count :: u16
  v_vfsmountedhere :: "nat option"
  v_op :: "fsid option"
  v_vfsp :: "nat option"
  v_type :: vtype
  v_rnode :: rnode
  v_devnode :: devnode
  v_fnode :: fnode

record rfs =
  rfs_dev :: u16
  rfs_root :: u32
  rfs_pvn :: "nat option"

record devfs =
  devfs_pvnroot :: "nat option"
  devfs_pvn :: "nat option"

record fat =
  fat_dev :: u16
  fat_BytesPerSector :: u16
  fat_SectorsPerCluster :: u8
  fat_FatCopyNumber :: u8
  fat_FatStartSector :: u32
  fat_RootStartSector :: u32
  fat_DataStartSector :: u32
  fat_MaxRootEntries :: u16
  fat_FirstSector :: u32
  fat_NbSector :: u32
  fat_pvn :: "nat option"

record vfs =
  vfs_next :: "nat option"
  vfs_op :: "fsid option"
  vfs_vnodecovered :: "nat option"
  vfs_flag :: u32
  vfs_rfs :: rfs
  vfs_devfs :: devfs
  vfs_fat :: fat

text \<open>\<open>world\<close> is the state of the device drivers.\<close>

record 'w vstate = kstate +
  vfs_table :: "nat \<Rightarrow> vfs"
  free_vfs :: "nat option"
  used_vfs :: "nat option"
  vnodes :: "nat \<Rightarrow> vnode"
  free_vnodes :: "nat option"
  vnroot :: "nat option"
  cdir :: "pid \<Rightarrow> nat option"
  fd_table :: "pid \<Rightarrow> nat \<Rightarrow> nat option"
  dev_list :: devtab
  world :: 'w

definition upd_vnode :: "nat \<Rightarrow> (vnode \<Rightarrow> vnode) \<Rightarrow> ('w, 'a) vstate_scheme \<Rightarrow> ('w, 'a) vstate_scheme" where
  "upd_vnode v f s = s\<lparr>vnodes := (vnodes s)(v := f (vnodes s v))\<rparr>"

definition upd_vfs :: "nat \<Rightarrow> (vfs \<Rightarrow> vfs) \<Rightarrow> ('w, 'a) vstate_scheme \<Rightarrow> ('w, 'a) vstate_scheme" where
  "upd_vfs m f s = s\<lparr>vfs_table := (vfs_table s)(m := f (vfs_table s m))\<rparr>"

section \<open>The interface of a file system\<close>

text \<open>
  The result is the return value and the new state; a parameter \<open>struct vnode **ppv\<close> is passed in and
  returned, as an operation that fails may leave it alone. \<open>vn_getattr\<close> may leave the attribute unset.
\<close>

record 's fsops =
  vfs_mount :: "nat \<Rightarrow> u16 \<Rightarrow> 's \<Rightarrow> (int \<times> 's) kres"
  vfs_unmount :: "nat \<Rightarrow> 's \<Rightarrow> (int \<times> 's) kres"
  vfs_root :: "nat \<Rightarrow> nat option \<Rightarrow> 's \<Rightarrow> (int \<times> nat option \<times> 's) kres"
  vn_open :: "nat \<Rightarrow> u32 \<Rightarrow> pid \<Rightarrow> 's \<Rightarrow> (int \<times> 's) kres"
  vn_close :: "nat \<Rightarrow> pid \<Rightarrow> 's \<Rightarrow> (int \<times> 's) kres"
  vn_read :: "nat \<Rightarrow> u32 \<Rightarrow> u32 \<Rightarrow> pid \<Rightarrow> 's \<Rightarrow> (int \<times> 's) kres"
  vn_write :: "nat \<Rightarrow> u32 \<Rightarrow> u32 \<Rightarrow> pid \<Rightarrow> 's \<Rightarrow> (int \<times> 's) kres"
  vn_lseek :: "nat \<Rightarrow> u32 \<Rightarrow> u32 \<Rightarrow> 's \<Rightarrow> (int \<times> 's) kres"
  vn_ioctl :: "nat \<Rightarrow> u32 \<Rightarrow> u32 \<Rightarrow> pid \<Rightarrow> 's \<Rightarrow> (int \<times> 's) kres"
  vn_getattr :: "nat \<Rightarrow> 's \<Rightarrow> (u16 option \<times> 's) kres"
  vn_lookup :: "nat \<Rightarrow> u8 list \<Rightarrow> nat option \<Rightarrow> pid \<Rightarrow> 's \<Rightarrow> (int \<times> nat option \<times> 's) kres"
  vn_mkdir :: "nat \<Rightarrow> u8 list \<Rightarrow> pid \<Rightarrow> 's \<Rightarrow> (int \<times> 's) kres"
  vn_getdents :: "nat \<Rightarrow> u32 \<Rightarrow> u32 \<Rightarrow> pid \<Rightarrow> 's \<Rightarrow> (int \<times> 's) kres"
  vn_inactive :: "nat \<Rightarrow> 's \<Rightarrow> (int \<times> 's) kres"

text \<open>A call through \<open>pvn->v_op\<close> or \<open>pvfs->vfs_op\<close>; the pointer is null before the file system sets it.\<close>

definition vn_call :: "(fsid \<Rightarrow> ('w, 'a) vstate_scheme fsops) \<Rightarrow> nat \<Rightarrow> (('w, 'a) vstate_scheme fsops \<Rightarrow> 'b kres) \<Rightarrow> ('w, 'a) vstate_scheme \<Rightarrow> 'b kres" where
  "vn_call ops v f s = (case v_op (vnodes s v) of None \<Rightarrow> KFault | Some fs \<Rightarrow> f (ops fs))"

definition vfs_call :: "(fsid \<Rightarrow> ('w, 'a) vstate_scheme fsops) \<Rightarrow> nat \<Rightarrow> (('w, 'a) vstate_scheme fsops \<Rightarrow> 'b kres) \<Rightarrow> ('w, 'a) vstate_scheme \<Rightarrow> 'b kres" where
  "vfs_call ops m f s = (case vfs_op (vfs_table s m) of None \<Rightarrow> KFault | Some fs \<Rightarrow> f (ops fs))"

section \<open>Reference counts\<close>

definition VN_HOLD :: "nat \<Rightarrow> ('w, 'a) vstate_scheme \<Rightarrow> ('w, 'a) vstate_scheme" where
  "VN_HOLD v s = upd_vnode v (\<lambda>n. n\<lparr>v_count := v_count n + 1\<rparr>) s"

definition VN_RELE :: "(fsid \<Rightarrow> ('w, 'a) vstate_scheme fsops) \<Rightarrow> nat \<Rightarrow> ('w, 'a) vstate_scheme \<Rightarrow> ('w, 'a) vstate_scheme kres" where
  "VN_RELE ops v s =
     (let s1 = (if v_count (vnodes s v) \<noteq> 0 then upd_vnode v (\<lambda>n. n\<lparr>v_count := v_count n - 1\<rparr>) s else s) in
      if v_count (vnodes s1 v) = 0
      then vn_call ops v (\<lambda>f. kbind (vn_inactive f v s1) (\<lambda>(_, s2). KOk s2)) s1
      else KOk s1)"

section \<open>The pool of vnodes\<close>

text \<open>With an empty pool \<open>pvn->next = 0\<close> is a write through the null pointer.\<close>

definition vfs_vnode_alloc :: "('w, 'a) vstate_scheme \<Rightarrow> (nat \<times> ('w, 'a) vstate_scheme) kres" where
  "vfs_vnode_alloc s =
     (case free_vnodes s of
        None \<Rightarrow> KFault
      | Some v \<Rightarrow> KOk (v, upd_vnode v (\<lambda>n. n\<lparr>vn_next := None\<rparr>) (s\<lparr>free_vnodes := vn_next (vnodes s v)\<rparr>)))"

definition vfs_vnode_free :: "nat \<Rightarrow> ('w, 'a) vstate_scheme \<Rightarrow> ('w, 'a) vstate_scheme" where
  "vfs_vnode_free v s = (upd_vnode v (\<lambda>n. n\<lparr>vn_next := free_vnodes s\<rparr>) s)\<lparr>free_vnodes := Some v\<rparr>"

text \<open>
  The loops over a list of vnodes, with \<open>nx\<close> for the field \<open>next\<close>: the first that satisfies \<open>P\<close>, and the
  one in front of \<open>v\<close>. No value means that the list is circular and the loop never ends.
\<close>

partial_function (option) vn_find :: "(nat \<Rightarrow> bool) \<Rightarrow> (nat \<Rightarrow> nat option) \<Rightarrow> nat option \<Rightarrow> nat option option" where
  "vn_find P nx h = (case h of None \<Rightarrow> Some None | Some v \<Rightarrow> if P v then Some (Some v) else vn_find P nx (nx v))"

partial_function (option) vn_before :: "nat \<Rightarrow> (nat \<Rightarrow> nat option) \<Rightarrow> nat option \<Rightarrow> nat option option" where
  "vn_before v nx h = (case h of None \<Rightarrow> Some None | Some u \<Rightarrow> if nx u = Some v then Some (Some u) else vn_before v nx (nx u))"

text \<open>
  \<open>vn_unlink\<close> is the body both file systems give to \<open>vn_inactive\<close>: remove \<open>v\<close> from the list that starts at
  \<open>h\<close> and give it back to the pool. The first component is the new head.
\<close>

definition vn_unlink :: "nat \<Rightarrow> nat option \<Rightarrow> ('w, 'a) vstate_scheme \<Rightarrow> (nat option \<times> ('w, 'a) vstate_scheme) kres" where
  "vn_unlink v h s =
     (if Some v = h then KOk (vn_next (vnodes s v), vfs_vnode_free v s)
      else case vn_before v (\<lambda>u. vn_next (vnodes s u)) h of
        None \<Rightarrow> KHang
      | Some None \<Rightarrow> KOk (h, s)
      | Some (Some u) \<Rightarrow>
          let s1 = upd_vnode u (\<lambda>n. n\<lparr>vn_next := vn_next (vnodes s v)\<rparr>) s;
              s2 = upd_vnode v (\<lambda>n. n\<lparr>vn_next := None\<rparr>) s1
          in KOk (h, vfs_vnode_free v s2))"

section \<open>Requests to the device drivers\<close>

text \<open>
  The messages of a file system to a driver, answered by \<open>msg.body.s32\<close>. Another task runs in between,
  so the exchange is a parameter; a driver reads and writes the memory of the buffers it is given.
\<close>

datatype dev_request =
    DEV_OPEN (dev_minor: u16) (dev_flags: u32)
  | DEV_CLOSE (dev_minor: u16)
  | DEV_READ (dev_minor: u16) (src_seek: u32) (dev_dst: u32) (dev_count: u32)
  | DEV_WRITE (dev_minor: u16) (dst_seek: u32) (dev_src: u32) (dev_count: u32)
  | DEV_IOCTL (dev_minor: u16) (ioctl_pid: pid) (ioctl_request: u32) (ioctl_ptr: u32)

type_synonym 'w dexchange = "pid \<Rightarrow> dev_request \<Rightarrow> kstate \<times> devtab \<times> 'w \<Rightarrow> (int \<times> kstate \<times> devtab \<times> 'w) kres"

text \<open>
  \<open>sendreceive(major(dev), &msg, O_SEND | O_RECV)\<close>. The drivers change the kernel state (which includes
  the memory), the registered devices and their own state, but not the tables of vfs.c, which are
  static data of the file system task.
\<close>

definition ask_driver :: "'w dexchange \<Rightarrow> u16 \<Rightarrow> dev_request \<Rightarrow> ('w, 'a) vstate_scheme \<Rightarrow> (int \<times> ('w, 'a) vstate_scheme) kres" where
  "ask_driver dx d req s =
     kbind (dx (uint (major d)) req (kstate.truncate s, dev_list s, world s)) (\<lambda>(r, k, ds, w).
     KOk (r, (kstate.extend k (kstate.more s))\<lparr>dev_list := ds, world := w\<rparr>))"

section \<open>Initialisation\<close>

definition zero_vnode :: vnode where
  "zero_vnode = \<lparr>vn_next = None, v_count = 0, v_vfsmountedhere = None, v_op = None, v_vfsp = None, v_type = VNON,
     v_rnode = \<lparr>rn_rnode = 0, rn_lseek = 0, rn_FileSize = 0\<rparr>, v_devnode = \<lparr>dn_flags = 0, dn_dev = 0, dn_lseek = 0\<rparr>,
     v_fnode = \<lparr>fn_fnode = 0, fn_Attributes = 0, fn_FirstCluster = 0, fn_FileSize = 0, fn_CurrentCluster = 0,
       fn_CurrentSectorInCluster = 0, fn_CurrentByte = 0, fn_CurrentByteInSector = 0, fn_buf_sector = 0\<rparr>\<rparr>"

definition vfs_init :: "('w, 'a) vstate_scheme \<Rightarrow> ('w, 'a) vstate_scheme" where
  "vfs_init s = s\<lparr>
     vfs_table := (\<lambda>m. if m < K_VFS_COUNT then (vfs_table s m)\<lparr>vfs_next := (if m < K_VFS_COUNT - 1 then Some (m + 1) else None)\<rparr>
                       else vfs_table s m),
     free_vfs := Some 0, used_vfs := None,
     cdir := (\<lambda>p. if 0 \<le> p \<and> p < K_PROC_COUNT then None else cdir s p),
     fd_table := (\<lambda>p. if 0 \<le> p \<and> p < K_PROC_COUNT then (\<lambda>_. None) else fd_table s p),
     vnodes := (\<lambda>v. if v < K_VNODE_COUNT then zero_vnode\<lparr>vn_next := (if v < K_VNODE_COUNT - 1 then Some (v + 1) else None)\<rparr>
                    else vnodes s v),
     free_vnodes := Some 0, vnroot := None\<rparr>"

end
