(* ===== verification/Devfs.thy ===== *)
theory Devfs
  imports Vnode Errno
begin

text \<open>
  The device file system, software/system/kernel/fs/devfs.c: its only directory lists the registered
  devices, each with a vnode while it is in use; the operations on a device are messages to its driver.
\<close>

definition O_DIRECTORY :: u32 where "O_DIRECTORY = 4"
definition SEEK_CUR :: u32 where "SEEK_CUR = 1"
definition SEEK_END :: u32 where "SEEK_END = 2"

definition DT_CHR :: u8 where "DT_CHR = 3"
definition DT_BLK :: u8 where "DT_BLK = 4"

section \<open>Vnodes\<close>

text \<open>\<open>pvn->v_vfsp\<close>.\<close>

definition with_vfs :: "nat \<Rightarrow> (nat \<Rightarrow> 'b kres) \<Rightarrow> ('w, 'a) vstate_scheme \<Rightarrow> 'b kres" where
  "with_vfs v f s = (case v_vfsp (vnodes s v) of None \<Rightarrow> KFault | Some m \<Rightarrow> f m)"

definition devfs_find_vnode :: "nat \<Rightarrow> u16 \<Rightarrow> ('w, 'a) vstate_scheme \<Rightarrow> nat option option" where
  "devfs_find_vnode m d s =
     vn_find (\<lambda>v. dn_dev (v_devnode (vnodes s v)) = d) (\<lambda>v. vn_next (vnodes s v)) (devfs_pvn (vfs_devfs (vfs_table s m)))"

definition devfs_allocate_vnode :: "nat \<Rightarrow> u16 \<Rightarrow> ('w, 'a) vstate_scheme \<Rightarrow> (nat \<times> ('w, 'a) vstate_scheme) kres" where
  "devfs_allocate_vnode m d s =
     kbind (vfs_vnode_alloc s) (\<lambda>(v, s1).
     let s2 = upd_vnode v (\<lambda>n. n\<lparr>v_count := 0, v_op := Some FS_devfs, v_vfsp := Some m,
                 v_devnode := \<lparr>dn_flags = 0, dn_dev = d, dn_lseek = 0\<rparr>, vn_next := devfs_pvn (vfs_devfs (vfs_table s1 m))\<rparr>) s1
     in KOk (v, upd_vfs m (\<lambda>f. f\<lparr>vfs_devfs := (vfs_devfs f)\<lparr>devfs_pvn := Some v\<rparr>\<rparr>) s2))"

text \<open>The vnode of a device: the one in use, or a new one.\<close>

definition devfs_get_vnode :: "nat \<Rightarrow> u16 \<Rightarrow> ('w, 'a) vstate_scheme \<Rightarrow> (nat \<times> ('w, 'a) vstate_scheme) kres" where
  "devfs_get_vnode m d s =
     (case devfs_find_vnode m d s of
        None \<Rightarrow> KHang
      | Some (Some w) \<Rightarrow> KOk (w, s)
      | Some None \<Rightarrow> devfs_allocate_vnode m d s)"

section \<open>Operations on the file system\<close>

definition devfs_mount :: "nat \<Rightarrow> u16 \<Rightarrow> ('w, 'a) vstate_scheme \<Rightarrow> (int \<times> ('w, 'a) vstate_scheme) kres" where
  "devfs_mount m d s =
     (let s1 = upd_vfs m (\<lambda>f. f\<lparr>vfs_op := Some FS_devfs, vfs_vnodecovered := None, vfs_flag := 0\<rparr>) s in
      kbind (vfs_vnode_alloc s1) (\<lambda>(v, s2).
      let s3 = VN_HOLD v (upd_vnode v (\<lambda>n. n\<lparr>v_op := Some FS_devfs, v_vfsp := Some m, v_type := VDIR\<rparr>) s2);
          s4 = upd_vnode v (\<lambda>n. n\<lparr>v_devnode := \<lparr>dn_flags = 0, dn_dev = 0, dn_lseek = 0\<rparr>\<rparr>) s3
      in KOk (0, upd_vfs m (\<lambda>f. f\<lparr>vfs_devfs := \<lparr>devfs_pvnroot = Some v, devfs_pvn = Some v\<rparr>\<rparr>) s4)))"

definition devfs_unmount :: "nat \<Rightarrow> ('w, 'a) vstate_scheme \<Rightarrow> (int \<times> ('w, 'a) vstate_scheme) kres" where
  "devfs_unmount m s = KOk (- 1, s)"

definition devfs_root :: "nat \<Rightarrow> nat option \<Rightarrow> ('w, 'a) vstate_scheme \<Rightarrow> (int \<times> nat option \<times> ('w, 'a) vstate_scheme) kres" where
  "devfs_root m ppv s =
     (case devfs_pvnroot (vfs_devfs (vfs_table s m)) of None \<Rightarrow> KFault | Some v \<Rightarrow> KOk (0, Some v, VN_HOLD v s))"

section \<open>Operations on a device\<close>

definition devfs_open :: "'w dexchange \<Rightarrow> nat \<Rightarrow> u32 \<Rightarrow> pid \<Rightarrow> ('w, 'a) vstate_scheme \<Rightarrow> (int \<times> ('w, 'a) vstate_scheme) kres" where
  "devfs_open dx v fl p s =
     (let d = dn_dev (v_devnode (vnodes s v)) in
      if v_type (vnodes s v) = VDIR then KOk (0, upd_vnode v (\<lambda>n. n\<lparr>v_devnode := (v_devnode n)\<lparr>dn_lseek := 0\<rparr>\<rparr>) s)
      else ask_driver dx d (DEV_OPEN (minor d) fl) s)"

definition devfs_close :: "'w dexchange \<Rightarrow> nat \<Rightarrow> pid \<Rightarrow> ('w, 'a) vstate_scheme \<Rightarrow> (int \<times> ('w, 'a) vstate_scheme) kres" where
  "devfs_close dx v p s =
     (let d = dn_dev (v_devnode (vnodes s v)) in
      if v_type (vnodes s v) = VDIR then KOk (0, s) else ask_driver dx d (DEV_CLOSE (minor d)) s)"

text \<open>The position moves by the answer of the driver, also by a negative one.\<close>

definition devfs_advance :: "nat \<Rightarrow> int \<Rightarrow> ('w, 'a) vstate_scheme \<Rightarrow> ('w, 'a) vstate_scheme" where
  "devfs_advance v r s = upd_vnode v (\<lambda>n. n\<lparr>v_devnode := (v_devnode n)\<lparr>dn_lseek := dn_lseek (v_devnode n) + word_of_int r\<rparr>\<rparr>) s"

definition devfs_read ::
    "'w dexchange \<Rightarrow> nat \<Rightarrow> u32 \<Rightarrow> u32 \<Rightarrow> pid \<Rightarrow> ('w, 'a) vstate_scheme \<Rightarrow> (int \<times> ('w, 'a) vstate_scheme) kres" where
  "devfs_read dx v buf cnt p s =
     (if v_type (vnodes s v) = VDIR then KOk (- EINVAL, s)
      else let d = dn_dev (v_devnode (vnodes s v)) in
        kbind (ask_driver dx d (DEV_READ (minor d) (dn_lseek (v_devnode (vnodes s v))) buf cnt) s) (\<lambda>(r, s1).
        KOk (r, devfs_advance v r s1)))"

definition devfs_write ::
    "'w dexchange \<Rightarrow> nat \<Rightarrow> u32 \<Rightarrow> u32 \<Rightarrow> pid \<Rightarrow> ('w, 'a) vstate_scheme \<Rightarrow> (int \<times> ('w, 'a) vstate_scheme) kres" where
  "devfs_write dx v buf cnt p s =
     (if v_type (vnodes s v) = VDIR then KOk (- EINVAL, s)
      else let d = dn_dev (v_devnode (vnodes s v)) in
        kbind (ask_driver dx d (DEV_WRITE (minor d) (dn_lseek (v_devnode (vnodes s v))) buf cnt) s) (\<lambda>(r, s1).
        KOk (r, devfs_advance v r s1)))"

definition devfs_ioctl ::
    "'w dexchange \<Rightarrow> nat \<Rightarrow> u32 \<Rightarrow> u32 \<Rightarrow> pid \<Rightarrow> ('w, 'a) vstate_scheme \<Rightarrow> (int \<times> ('w, 'a) vstate_scheme) kres" where
  "devfs_ioctl dx v req ptr p s =
     (if v_type (vnodes s v) = VDIR then KOk (- ENOTTY, s)
      else let d = dn_dev (v_devnode (vnodes s v)) in ask_driver dx d (DEV_IOCTL (minor d) p req ptr) s)"

definition devfs_lseek :: "nat \<Rightarrow> u32 \<Rightarrow> u32 \<Rightarrow> ('w, 'a) vstate_scheme \<Rightarrow> (int \<times> ('w, 'a) vstate_scheme) kres" where
  "devfs_lseek v off wh s =
     (if v_type (vnodes s v) = VDIR then KOk (- 1, s)
      else if wh = SEEK_END then KOk (- EINVAL, s)
      else
        let off1 = (if wh = SEEK_CUR then dn_lseek (v_devnode (vnodes s v)) + off else off)
        in KOk (0, upd_vnode v (\<lambda>n. n\<lparr>v_devnode := (v_devnode n)\<lparr>dn_lseek := off1\<rparr>\<rparr>) s))"

text \<open>\<open>struct dirent\<close>: the size in two bytes, the type in one, the name from offset 3.\<close>

definition dirent_bytes :: "nat \<Rightarrow> u8 \<Rightarrow> u8 list \<Rightarrow> u8 list" where
  "dirent_bytes sz ty nm = [of_nat (sz div 256), of_nat sz, ty] @ nm"

definition devfs_getdents ::
    "nat \<Rightarrow> u32 \<Rightarrow> u32 \<Rightarrow> pid \<Rightarrow> ('w, 'a) vstate_scheme \<Rightarrow> (int \<times> ('w, 'a) vstate_scheme) kres" where
  "devfs_getdents v buf cnt p s =
     (if v_type (vnodes s v) \<noteq> VDIR then KOk (- ENOTDIR, s)
      else case dev_name (ucast (dn_lseek (v_devnode (vnodes s v)))) (dev_list s) of
        None \<Rightarrow> KOk (0, s)
      | Some ndev \<Rightarrow>
          (case strlen ndev of None \<Rightarrow> KFault
           | Some n \<Rightarrow>
               let sz = 3 + unat n + 1 in
               if sz \<le> unat cnt then
                 kbind (dev_get ndev (dev_list s)) (\<lambda>pdev.
                 case pdev of None \<Rightarrow> KFault
                 | Some i \<Rightarrow>
                     let ty = (if dev_at (dev_list s ! i) = DEV_ATTR_CHAR then DT_CHR else DT_BLK);
                         s1 = s\<lparr>ram := put_bytes (ram s) buf (dirent_bytes sz ty (take (unat n + 1) ndev))\<rparr>
                     in KOk (int sz, devfs_advance v 1 s1))
               else KOk (0, s)))"

definition devfs_mkdir :: "nat \<Rightarrow> u8 list \<Rightarrow> pid \<Rightarrow> ('w, 'a) vstate_scheme \<Rightarrow> (int \<times> ('w, 'a) vstate_scheme) kres" where
  "devfs_mkdir v nm p s = KOk (EROFS, s)"

text \<open>The last assignments go to the private data of \<open>pvn\<close>, the directory.\<close>

definition devfs_lookup ::
    "nat \<Rightarrow> u8 list \<Rightarrow> nat option \<Rightarrow> pid \<Rightarrow> ('w, 'a) vstate_scheme \<Rightarrow> (int \<times> nat option \<times> ('w, 'a) vstate_scheme) kres" where
  "devfs_lookup v nm ppv p s = with_vfs v (\<lambda>m.
     if Some v \<noteq> devfs_pvnroot (vfs_devfs (vfs_table s m)) then KOk (- ENOTDIR, ppv, s)
     else case strlen nm of None \<Rightarrow> KFault
     | Some n \<Rightarrow>
         if unat n > K_MAX_FILENAME_LEN then KOk (- ENAMETOOLONG, ppv, s)
         else kbind (dev_get nm (dev_list s)) (\<lambda>pdev.
           case pdev of None \<Rightarrow> KOk (- ENOENT, ppv, s)
           | Some i \<Rightarrow>
               let d = dev_id (dev_list s ! i); ty = (if dev_at (dev_list s ! i) = DEV_ATTR_CHAR then VCHR else VBLK) in
               kbind (devfs_get_vnode m d s) (\<lambda>(w, s1).
               let s2 = upd_vnode w (\<lambda>n. n\<lparr>v_vfsmountedhere := None, v_type := ty\<rparr>) (VN_HOLD w s1);
                   s3 = upd_vnode v (\<lambda>n. n\<lparr>v_devnode := \<lparr>dn_flags = 0, dn_dev = d, dn_lseek = 0\<rparr>\<rparr>) s2
               in KOk (0, Some w, s3)))) s"

definition devfs_inactive :: "nat \<Rightarrow> ('w, 'a) vstate_scheme \<Rightarrow> (int \<times> ('w, 'a) vstate_scheme) kres" where
  "devfs_inactive v s = with_vfs v (\<lambda>m.
     kbind (vn_unlink v (devfs_pvn (vfs_devfs (vfs_table s m))) s) (\<lambda>(h, s1).
     KOk (0, upd_vfs m (\<lambda>f. f\<lparr>vfs_devfs := (vfs_devfs f)\<lparr>devfs_pvn := h\<rparr>\<rparr>) s1))) s"

definition devfs_getattr :: "nat \<Rightarrow> ('w, 'a) vstate_scheme \<Rightarrow> (u16 option \<times> ('w, 'a) vstate_scheme) kres" where
  "devfs_getattr v s = KOk (Some (dn_dev (v_devnode (vnodes s v))), s)"

definition devfs_ops :: "'w dexchange \<Rightarrow> ('w, 'a) vstate_scheme fsops" where
  "devfs_ops dx = \<lparr>vfs_mount = devfs_mount, vfs_unmount = devfs_unmount, vfs_root = devfs_root,
     vn_open = devfs_open dx, vn_close = devfs_close dx, vn_read = devfs_read dx, vn_write = devfs_write dx,
     vn_lseek = devfs_lseek, vn_ioctl = devfs_ioctl dx, vn_getattr = devfs_getattr, vn_lookup = devfs_lookup,
     vn_mkdir = devfs_mkdir, vn_getdents = devfs_getdents, vn_inactive = devfs_inactive\<rparr>"

end
