(* ===== verification/Rfs.thy ===== *)
theory Rfs
  imports Devfs
begin

text \<open>
  The remote file system, software/system/kernel/fs/rfs.c and include/sys/rfs.h: each operation sends a
  framed command over a character device and reads a framed answer. The local arrays for the command
  and for the answer are at the addresses \<open>cb\<close> and \<open>ab\<close>. The fields of a request a function does not
  set (the positions, and the flags of the mount) are 0 here; a serial line does not use them.
\<close>

section \<open>Frames\<close>

definition RFS_MAX_NAME_LEN :: nat where "RFS_MAX_NAME_LEN = 16"
definition RFS_MAX_READ :: nat where "RFS_MAX_READ = 64"
definition RFS_PAYLOAD_LEN :: "nat \<Rightarrow> nat" where "RFS_PAYLOAD_LEN n = n - 4"
definition RFS_AREAD_KO :: u8 where "RFS_AREAD_KO = 255"
definition RFS_TYPE_REG :: u8 where "RFS_TYPE_REG = 1"
definition RFS_TYPE_DIR :: u8 where "RFS_TYPE_DIR = 2"

text \<open>32-bit values are little endian on the wire.\<close>

definition rfs_u32le_at :: "u32 \<Rightarrow> u8 list" where
  "rfs_u32le_at w = [ucast w, ucast (drop_bit 8 w), ucast (drop_bit 16 w), ucast (drop_bit 24 w)]"

definition rfs_read_u32le :: "ram \<Rightarrow> u32 \<Rightarrow> u32" where
  "rfs_read_u32le r a =
     ucast (r a) + push_bit 8 (ucast (r (a + 1))) + push_bit 16 (ucast (r (a + 2))) + push_bit 24 (ucast (r (a + 3)))"

fun rfs_sum :: "u8 \<Rightarrow> u8 list \<Rightarrow> u8" where
  "rfs_sum acc [] = acc"
| "rfs_sum acc (x # xs) = rfs_sum (acc + x) xs"

definition rfs_chksum :: "u8 list \<Rightarrow> u8" where
  "rfs_chksum xs = rfs_sum 0 xs"

text \<open>A command: header, length, payload, sum of the payload, trailer.\<close>

definition rfs_frame :: "u8 list \<Rightarrow> u8 list" where
  "rfs_frame pl = [0x55, of_nat (RFS_PAYLOAD_LEN (length pl + 4))] @ pl @ [rfs_chksum pl, 0xAA]"

fun check_sum :: "ram \<Rightarrow> u32 \<Rightarrow> nat \<Rightarrow> u8 \<Rightarrow> u8 \<times> u32" where
  "check_sum r a 0 acc = (acc, a)"
| "check_sum r a (Suc n) acc = check_sum r (a + 1) n (acc + r a)"

definition check_msg :: "ram \<Rightarrow> u32 \<Rightarrow> bool" where
  "check_msg r a \<longleftrightarrow>
     r a = 0x55 \<and> (let (acc, e) = check_sum r (a + 2) (unat (r (a + 1))) 0 in acc = r e \<and> r (e + 1) = 0xAA)"

definition rfs_command ::
    "'w dexchange \<Rightarrow> u32 \<Rightarrow> u16 \<Rightarrow> u8 list \<Rightarrow> ('w, 'a) vstate_scheme \<Rightarrow> ('w, 'a) vstate_scheme kres" where
  "rfs_command dx cb d pl s =
     kbind (ask_driver dx d (DEV_WRITE (minor d) 0 cb (of_nat (length (rfs_frame pl)))) (s\<lparr>ram := put_bytes (ram s) cb (rfs_frame pl)\<rparr>))
       (\<lambda>(_, s1). KOk s1)"

text \<open>The answer of a fixed size \<open>n\<close>; the first component says that it is complete and well formed.\<close>

definition rfs_answer ::
    "'w dexchange \<Rightarrow> u32 \<Rightarrow> u16 \<Rightarrow> nat \<Rightarrow> ('w, 'a) vstate_scheme \<Rightarrow> (bool \<times> ('w, 'a) vstate_scheme) kres" where
  "rfs_answer dx ab d n s =
     kbind (ask_driver dx d (DEV_READ (minor d) 0 ab (of_nat n)) s) (\<lambda>(r, s1). KOk (r = int n \<and> check_msg (ram s1) ab, s1))"

text \<open>\<open>_receive_msg\<close>, for answers of variable size.\<close>

definition rfs_receive_msg ::
    "'w dexchange \<Rightarrow> u16 \<Rightarrow> u32 \<Rightarrow> ('w, 'a) vstate_scheme \<Rightarrow> (bool \<times> ('w, 'a) vstate_scheme) kres" where
  "rfs_receive_msg dx d a s =
     kbind (ask_driver dx d (DEV_READ (minor d) 0 a 2) s) (\<lambda>(r, s1).
     if r \<noteq> 2 then KOk (False, s1)
     else if ram s1 a \<noteq> 0x55 then KOk (False, s1)
     else
       let ln = unat (ram s1 (a + 1)) in
       if ln > RFS_MAX_READ + 2 then KOk (False, s1)
       else kbind (ask_driver dx d (DEV_READ (minor d) 0 (a + 2) (of_nat (ln + 2))) s1) (\<lambda>(r', s2).
         if r' \<noteq> int (ln + 2) then KOk (False, s2) else KOk (check_msg (ram s2) a, s2)))"

section \<open>Vnodes\<close>

definition rfs_find_vnode :: "nat \<Rightarrow> u32 \<Rightarrow> ('w, 'a) vstate_scheme \<Rightarrow> nat option option" where
  "rfs_find_vnode m rn s =
     vn_find (\<lambda>v. rn_rnode (v_rnode (vnodes s v)) = rn) (\<lambda>v. vn_next (vnodes s v)) (rfs_pvn (vfs_rfs (vfs_table s m)))"

definition rfs_allocate_vnode :: "nat \<Rightarrow> u32 \<Rightarrow> ('w, 'a) vstate_scheme \<Rightarrow> (nat \<times> ('w, 'a) vstate_scheme) kres" where
  "rfs_allocate_vnode m rn s =
     kbind (vfs_vnode_alloc s) (\<lambda>(v, s1).
     let s2 = upd_vnode v (\<lambda>n. n\<lparr>v_count := 0, v_op := Some FS_rfs, v_vfsp := Some m,
                 v_rnode := \<lparr>rn_rnode = rn, rn_lseek = 0, rn_FileSize = 0\<rparr>, vn_next := rfs_pvn (vfs_rfs (vfs_table s1 m))\<rparr>) s1
     in KOk (v, upd_vfs m (\<lambda>f. f\<lparr>vfs_rfs := (vfs_rfs f)\<lparr>rfs_pvn := Some v\<rparr>\<rparr>) s2))"

section \<open>Operations on the file system\<close>

definition rfs_mount ::
    "'w dexchange \<Rightarrow> u32 \<Rightarrow> u32 \<Rightarrow> nat \<Rightarrow> u16 \<Rightarrow> ('w, 'a) vstate_scheme \<Rightarrow> (int \<times> ('w, 'a) vstate_scheme) kres" where
  "rfs_mount dx cb ab m d s =
     (if d = 0 then KOk (- ENOTBLK, s)
      else case dev_get_by_id d (dev_list s) of
        None \<Rightarrow> KFault
      | Some i \<Rightarrow>
          if dev_at (dev_list s ! i) \<noteq> DEV_ATTR_CHAR then KOk (- ENOTBLK, s)
          else
            kbind (ask_driver dx d (DEV_OPEN (minor d) 0) s) (\<lambda>(_, s1).
            kbind (rfs_command dx cb d [73] s1) (\<lambda>s2.
            kbind (rfs_answer dx ab d 9 s2) (\<lambda>(ok, s3).
            if ok then
              KOk (0, upd_vfs m (\<lambda>f. f\<lparr>vfs_op := Some FS_rfs, vfs_vnodecovered := None, vfs_flag := 0,
                vfs_rfs := \<lparr>rfs_dev = d, rfs_root = rfs_read_u32le (ram s3) (ab + 3), rfs_pvn = None\<rparr>\<rparr>) s3)
            else KOk (- 1, s3)))))"

definition rfs_unmount :: "nat \<Rightarrow> ('w, 'a) vstate_scheme \<Rightarrow> (int \<times> ('w, 'a) vstate_scheme) kres" where
  "rfs_unmount m s = KOk (- 1, s)"

definition rfs_vfs_root :: "nat \<Rightarrow> nat option \<Rightarrow> ('w, 'a) vstate_scheme \<Rightarrow> (int \<times> nat option \<times> ('w, 'a) vstate_scheme) kres" where
  "rfs_vfs_root m ppv s =
     (let rt = rfs_root (vfs_rfs (vfs_table s m)) in
      case rfs_find_vnode m rt s of
        None \<Rightarrow> KHang
      | Some (Some v) \<Rightarrow> KOk (0, Some v, VN_HOLD v s)
      | Some None \<Rightarrow>
          kbind (rfs_allocate_vnode m rt s) (\<lambda>(v, s1).
          KOk (0, Some v, VN_HOLD v (upd_vnode v (\<lambda>n. n\<lparr>v_type := VDIR\<rparr>) s1))))"

section \<open>Operations on a file\<close>

text \<open>The device of a vnode and its number on the remote side.\<close>

definition with_rfs :: "nat \<Rightarrow> (u16 \<Rightarrow> u32 \<Rightarrow> 'b kres) \<Rightarrow> ('w, 'a) vstate_scheme \<Rightarrow> 'b kres" where
  "with_rfs v f s = with_vfs v (\<lambda>m. f (rfs_dev (vfs_rfs (vfs_table s m))) (rn_rnode (v_rnode (vnodes s v)))) s"

definition upd_rnode :: "nat \<Rightarrow> (rnode \<Rightarrow> rnode) \<Rightarrow> ('w, 'a) vstate_scheme \<Rightarrow> ('w, 'a) vstate_scheme" where
  "upd_rnode v f s = upd_vnode v (\<lambda>n. n\<lparr>v_rnode := f (v_rnode n)\<rparr>) s"

definition rnode_open ::
    "'w dexchange \<Rightarrow> u32 \<Rightarrow> u32 \<Rightarrow> nat \<Rightarrow> u32 \<Rightarrow> pid \<Rightarrow> ('w, 'a) vstate_scheme \<Rightarrow> (int \<times> ('w, 'a) vstate_scheme) kres" where
  "rnode_open dx cb ab v fl p s = with_rfs v (\<lambda>d rn.
     kbind (rfs_command dx cb d ([79] @ rfs_u32le_at rn @ [ucast fl, word_of_int p]) s) (\<lambda>s1.
     kbind (rfs_answer dx ab d 10 s1) (\<lambda>(ok, s2).
     if ok \<and> ram s2 (ab + 3) = 1 then
       KOk (0, upd_rnode v (\<lambda>n. n\<lparr>rn_lseek := 0,
         rn_FileSize := (if fl \<noteq> O_DIRECTORY then rfs_read_u32le (ram s2) (ab + 4) else 0)\<rparr>) s2)
     else KOk (- 1, s2)))) s"

definition rnode_close ::
    "'w dexchange \<Rightarrow> u32 \<Rightarrow> u32 \<Rightarrow> nat \<Rightarrow> pid \<Rightarrow> ('w, 'a) vstate_scheme \<Rightarrow> (int \<times> ('w, 'a) vstate_scheme) kres" where
  "rnode_close dx cb ab v p s = with_rfs v (\<lambda>d rn.
     kbind (rfs_command dx cb d ([67] @ rfs_u32le_at rn) s) (\<lambda>s1.
     kbind (rfs_answer dx ab d 6 s1) (\<lambda>(ok, s2).
     KOk (if ok \<and> ram s2 (ab + 3) = 1 then 0 else - 1, s2)))) s"

text \<open>
  The loop of \<open>_rnode_read\<close>: at most 64 bytes at a time, until \<open>cnt\<close> bytes are there or an answer is
  bad, refused or empty. \<open>did\<close> and \<open>dst\<close> advance by what the answer says it holds. The 32-bit \<open>did\<close> of
  the code differs from the natural number only after more than 4294967040 bytes.
\<close>

function rnode_read_loop ::
    "'w dexchange \<Rightarrow> u32 \<Rightarrow> u32 \<Rightarrow> u16 \<Rightarrow> u32 \<Rightarrow> nat \<Rightarrow> u32 \<Rightarrow> nat \<Rightarrow> nat \<Rightarrow> ('w, 'a) vstate_scheme \<Rightarrow>
     (nat \<times> ('w, 'a) vstate_scheme) kres" where
  "rnode_read_loop dx cb ab d rn v dst cnt did s =
     (if did < cnt then
        let ln = (if cnt - did > 64 then 64 else cnt - did) in
        kbind (rfs_command dx cb d ([82, of_nat ln] @ rfs_u32le_at rn @ rfs_u32le_at (rn_lseek (v_rnode (vnodes s v)))) s) (\<lambda>s1.
        kbind (rfs_receive_msg dx d ab s1) (\<lambda>(ok, s2).
        if \<not> ok then KOk (did, s2)
        else if ram s2 (ab + 3) = RFS_AREAD_KO then KOk (did, s2)
        else
          let blen = ram s2 (ab + 1) - 2 in
          if blen = 0 then KOk (did, s2)
          else
            let s3 = upd_rnode v (\<lambda>n. n\<lparr>rn_lseek := rn_lseek n + ucast blen\<rparr>) s2;
                s4 = s3\<lparr>ram := memcpy (ram s3) dst (ab + 4) (unat blen)\<rparr>
            in rnode_read_loop dx cb ab d rn v (dst + ucast blen) cnt (did + unat blen) s4))
      else KOk (did, s))"
  by pat_completeness auto
termination
  by (relation "measure (\<lambda>(_, _, _, _, _, _, _, cnt, did, _). cnt - did)") (auto simp: unat_gt_0 intro: diff_less_mono2)

declare rnode_read_loop.simps [simp del]

definition rnode_read ::
    "'w dexchange \<Rightarrow> u32 \<Rightarrow> u32 \<Rightarrow> nat \<Rightarrow> u32 \<Rightarrow> u32 \<Rightarrow> pid \<Rightarrow> ('w, 'a) vstate_scheme \<Rightarrow> (int \<times> ('w, 'a) vstate_scheme) kres" where
  "rnode_read dx cb ab v buf cnt p s = with_rfs v (\<lambda>d rn.
     let n = v_rnode (vnodes s v);
         cnt1 = (if rn_lseek n + cnt > rn_FileSize n then rn_FileSize n - rn_lseek n else cnt)
     in kbind (rnode_read_loop dx cb ab d rn v buf (unat cnt1) 0 s) (\<lambda>(did, s1). KOk (int did, s1))) s"

definition rnode_write :: "nat \<Rightarrow> u32 \<Rightarrow> u32 \<Rightarrow> pid \<Rightarrow> ('w, 'a) vstate_scheme \<Rightarrow> (int \<times> ('w, 'a) vstate_scheme) kres" where
  "rnode_write v buf cnt p s = KOk (0, s)"

definition rnode_lseek :: "nat \<Rightarrow> u32 \<Rightarrow> u32 \<Rightarrow> ('w, 'a) vstate_scheme \<Rightarrow> (int \<times> ('w, 'a) vstate_scheme) kres" where
  "rnode_lseek v off wh s =
     (let n = v_rnode (vnodes s v); seek = (\<lambda>x. KOk (0, upd_rnode v (\<lambda>n. n\<lparr>rn_lseek := x\<rparr>) s)) in
      if wh = SEEK_END then (if off > rn_FileSize n then KOk (- 1, s) else seek (rn_FileSize n - off))
      else if wh = SEEK_CUR then (if rn_lseek n + off > rn_FileSize n then KOk (- 1, s) else seek (rn_lseek n + off))
      else seek off)"

definition dirent_type :: "u8 \<Rightarrow> u8" where
  "dirent_type t = (if t = RFS_TYPE_REG then 1 else if t = RFS_TYPE_DIR then 2 else 0)"

definition rnode_getdents ::
    "'w dexchange \<Rightarrow> u32 \<Rightarrow> u32 \<Rightarrow> nat \<Rightarrow> u32 \<Rightarrow> u32 \<Rightarrow> pid \<Rightarrow> ('w, 'a) vstate_scheme \<Rightarrow> (int \<times> ('w, 'a) vstate_scheme) kres" where
  "rnode_getdents dx cb ab v buf cnt p s = with_rfs v (\<lambda>d rn.
     let pos = rn_lseek (v_rnode (vnodes s v)); s0 = upd_rnode v (\<lambda>n. n\<lparr>rn_lseek := rn_lseek n + 1\<rparr>) s in
     kbind (rfs_command dx cb d ([68] @ rfs_u32le_at rn @ [ucast pos]) s0) (\<lambda>s1.
     kbind (rfs_answer dx ab d (6 + RFS_MAX_NAME_LEN) s1) (\<lambda>(ok, s2).
     if \<not> ok then KOk (- 1, s2)
     else if ram s2 (ab + 4) = 0 then KOk (0, s2)
     else
       let s3 = s2\<lparr>ram := (ram s2)(ab + 4 + of_nat RFS_MAX_NAME_LEN - 1 := 0)\<rparr> in
       case ram_strlen (ram s3) (ab + 4) 0 of None \<Rightarrow> KHang
       | Some n \<Rightarrow>
           let sz = 3 + n + 1 in
           if cnt < sz then KOk (- EINVAL, s3)
           else
             let r1 = (ram s3)(buf := ucast (drop_bit 8 sz), buf + 1 := ucast sz);
                 r2 = r1(buf + 2 := dirent_type (r1 (ab + 3)))
             in (case ram_strcpy r2 (buf + 3) (ab + 4) of None \<Rightarrow> KHang
                | Some r3 \<Rightarrow> KOk (uint sz, s3\<lparr>ram := r3\<rparr>))))) s"

definition rnode_ioctl :: "nat \<Rightarrow> u32 \<Rightarrow> u32 \<Rightarrow> pid \<Rightarrow> ('w, 'a) vstate_scheme \<Rightarrow> (int \<times> ('w, 'a) vstate_scheme) kres" where
  "rnode_ioctl v req ptr p s = KOk (- 1, s)"

text \<open>A name in its field of \<open>RFS_MAX_NAME_LEN\<close> bytes.\<close>

definition name_field :: "u8 list \<Rightarrow> nat \<Rightarrow> u8 list" where
  "name_field nm n = take n nm @ replicate (RFS_MAX_NAME_LEN - n) 0"

definition rnode_mkdir ::
    "'w dexchange \<Rightarrow> u32 \<Rightarrow> u32 \<Rightarrow> nat \<Rightarrow> u8 list \<Rightarrow> pid \<Rightarrow> ('w, 'a) vstate_scheme \<Rightarrow> (int \<times> ('w, 'a) vstate_scheme) kres" where
  "rnode_mkdir dx cb ab v nm p s = with_rfs v (\<lambda>d rn.
     case strlen nm of None \<Rightarrow> KFault
     | Some n \<Rightarrow>
         let ln = unat (ucast n :: u16) in
         if ln > RFS_MAX_NAME_LEN - 1 then KOk (- ENAMETOOLONG, s)
         else
           kbind (rfs_command dx cb d ([77] @ rfs_u32le_at rn @ [0, word_of_int p] @ name_field nm ln) s) (\<lambda>s1.
           kbind (rfs_answer dx ab d 6 s1) (\<lambda>(ok, s2).
           if ok \<and> ram s2 (ab + 3) = 0 then KOk (0, s2) else KOk (- uint (ram s2 (ab + 3)), s2)))) s"

definition rnode_lookup ::
    "'w dexchange \<Rightarrow> u32 \<Rightarrow> u32 \<Rightarrow> nat \<Rightarrow> u8 list \<Rightarrow> nat option \<Rightarrow> pid \<Rightarrow> ('w, 'a) vstate_scheme \<Rightarrow>
     (int \<times> nat option \<times> ('w, 'a) vstate_scheme) kres" where
  "rnode_lookup dx cb ab v nm ppv p s = with_vfs v (\<lambda>m. with_rfs v (\<lambda>d rn.
     case strlen nm of None \<Rightarrow> KFault
     | Some n \<Rightarrow>
         if unat n > RFS_MAX_NAME_LEN - 1 then KOk (- ENAMETOOLONG, ppv, s)
         else
           kbind (rfs_command dx cb d ([76] @ rfs_u32le_at rn @ [word_of_int p] @ name_field nm (unat n)) s) (\<lambda>s1.
           kbind (rfs_answer dx ab d 10 s1) (\<lambda>(ok, s2).
           let rn1 = rfs_read_u32le (ram s2) (ab + 3); ty = ram s2 (ab + 7) in
           if \<not> ok \<or> ty = 0 then KOk (- 1, ppv, s2)
           else case rfs_find_vnode m rn1 s2 of
             None \<Rightarrow> KHang
           | Some (Some w) \<Rightarrow> KOk (0, Some w, VN_HOLD w s2)
           | Some None \<Rightarrow>
               kbind (rfs_allocate_vnode m rn1 s2) (\<lambda>(w, s3).
               KOk (0, Some w, upd_vnode w (\<lambda>n. n\<lparr>v_vfsmountedhere := None, v_type := (if ty = RFS_TYPE_DIR then VDIR else VREG),
                 v_rnode := \<lparr>rn_rnode = rn1, rn_lseek = 0, rn_FileSize = 0\<rparr>\<rparr>) (VN_HOLD w s3)))))) s) s"

definition rnode_inactive :: "nat \<Rightarrow> ('w, 'a) vstate_scheme \<Rightarrow> (int \<times> ('w, 'a) vstate_scheme) kres" where
  "rnode_inactive v s = with_vfs v (\<lambda>m.
     kbind (vn_unlink v (rfs_pvn (vfs_rfs (vfs_table s m))) s) (\<lambda>(h, s1).
     KOk (0, upd_vfs m (\<lambda>f. f\<lparr>vfs_rfs := (vfs_rfs f)\<lparr>rfs_pvn := h\<rparr>\<rparr>) s1))) s"

definition rnode_getattr :: "nat \<Rightarrow> ('w, 'a) vstate_scheme \<Rightarrow> (u16 option \<times> ('w, 'a) vstate_scheme) kres" where
  "rnode_getattr v s = KOk (None, s)"

definition rfs_ops :: "'w dexchange \<Rightarrow> u32 \<Rightarrow> u32 \<Rightarrow> ('w, 'a) vstate_scheme fsops" where
  "rfs_ops dx cb ab = \<lparr>vfs_mount = rfs_mount dx cb ab, vfs_unmount = rfs_unmount, vfs_root = rfs_vfs_root,
     vn_open = rnode_open dx cb ab, vn_close = rnode_close dx cb ab, vn_read = rnode_read dx cb ab, vn_write = rnode_write,
     vn_lseek = rnode_lseek, vn_ioctl = rnode_ioctl, vn_getattr = rnode_getattr, vn_lookup = rnode_lookup dx cb ab,
     vn_mkdir = rnode_mkdir dx cb ab, vn_getdents = rnode_getdents dx cb ab, vn_inactive = rnode_inactive\<rparr>"

end
