(* ===== verification/Fat.thy ===== *)
theory Fat
  imports Devfs
begin

text \<open>
  The FAT file system, software/system/kernel/fs/fat.c (read only): the boot record of a partition,
  directories and files as chains of clusters, names in 8.3 form. Sectors are read by messages to the disk
  driver into the buffer of the vnode; \<open>fb v\<close> is the address of \<open>pfn->buf\<close> of the vnode \<open>v\<close>, \<open>sb\<close> the one of
  \<open>_buf\<close>, \<open>de\<close> the one of \<open>de_buf\<close>.

  The loops along a chain of clusters check nothing and may never end: they are partial functions, and
  \<open>looped\<close> makes a loop without end a \<open>KHang\<close>. The null byte that \<open>_to_fat_name\<close> writes behind the array
  \<open>name83[11]\<close> of \<open>_fnode_lookup\<close> goes to a byte of the stack that nothing else uses.
\<close>

section \<open>Loops that may not end\<close>

definition bindk :: "'a kres \<Rightarrow> ('a \<Rightarrow> 'b kres option) \<Rightarrow> 'b kres option" where
  "bindk m f = (case m of KOk x \<Rightarrow> f x | KPanic \<Rightarrow> Some KPanic | KFault \<Rightarrow> Some KFault | KHang \<Rightarrow> Some KHang)"

lemma bindk_mono [partial_function_mono]:
  "(\<And>y. mono_option (\<lambda>f. B f y)) \<Longrightarrow> mono_option (\<lambda>f. bindk m (B f))"
  by (cases m) (simp_all add: bindk_def monotone_def flat_ord_def)

definition looped :: "'a kres option \<Rightarrow> 'a kres" where
  "looped x = (case x of None \<Rightarrow> KHang | Some y \<Rightarrow> y)"

section \<open>Constants and helpers\<close>

definition FAT_DIRENT_ATTR_DIRECTORY_MASK :: u8 where "FAT_DIRENT_ATTR_DIRECTORY_MASK = 0x10"
definition FAT_DIRENT_ATTR_VOLUME_LABEL :: u8 where "FAT_DIRENT_ATTR_VOLUME_LABEL = 0x08"
definition FAT_DIRENT_ATTR_LFN :: u8 where "FAT_DIRENT_ATTR_LFN = 0x0F"
definition FAT_FREE_ENTRY_TAG :: u8 where "FAT_FREE_ENTRY_TAG = 0xE5"
definition FAT_DIRECTORY_ENTRY_SIZE :: u32 where "FAT_DIRECTORY_ENTRY_SIZE = 32"
definition FAT_DIRENT_SIZE :: u32 where "FAT_DIRENT_SIZE = 16"

definition read_u16_le :: "ram \<Rightarrow> u32 \<Rightarrow> u16" where
  "read_u16_le r q = ucast (r q) + push_bit 8 (ucast (r (q + 1)))"

definition read_u32_le :: "ram \<Rightarrow> u32 \<Rightarrow> u32" where
  "read_u32_le r q = ucast (r q) + push_bit 8 (ucast (r (q + 1))) + push_bit 16 (ucast (r (q + 2))) + push_bit 24 (ucast (r (q + 3)))"

text \<open>The first sector of a cluster.\<close>

definition cluster_sector :: "fat \<Rightarrow> u16 \<Rightarrow> u32" where
  "cluster_sector pf c = fat_DataStartSector pf + (ucast c - 2) * ucast (fat_SectorsPerCluster pf)"

definition upd_fnode :: "nat \<Rightarrow> (fnode \<Rightarrow> fnode) \<Rightarrow> ('w, 'a) vstate_scheme \<Rightarrow> ('w, 'a) vstate_scheme" where
  "upd_fnode v f s = upd_vnode v (\<lambda>n. n\<lparr>v_fnode := f (v_fnode n)\<rparr>) s"

text \<open>Reading a sector into the buffer of \<open>v\<close>, which is marked invalid before.\<close>

definition fat_load ::
    "'w dexchange \<Rightarrow> (nat \<Rightarrow> u32) \<Rightarrow> u16 \<Rightarrow> nat \<Rightarrow> u32 \<Rightarrow> ('w, 'a) vstate_scheme \<Rightarrow> (bool \<times> ('w, 'a) vstate_scheme) kres" where
  "fat_load dx fb d v sector s =
     kbind (ask_driver dx d (DEV_READ (minor d) (sector * 512) (fb v) 512) (upd_fnode v (\<lambda>n. n\<lparr>fn_buf_sector := 0\<rparr>) s)) (\<lambda>(r, s1).
     KOk (r = 512, s1))"

text \<open>The same, and the buffer is valid afterwards.\<close>

definition fat_load_cached ::
    "'w dexchange \<Rightarrow> (nat \<Rightarrow> u32) \<Rightarrow> u16 \<Rightarrow> nat \<Rightarrow> u32 \<Rightarrow> ('w, 'a) vstate_scheme \<Rightarrow> (bool \<times> ('w, 'a) vstate_scheme) kres" where
  "fat_load_cached dx fb d v sector s =
     kbind (fat_load dx fb d v sector s) (\<lambda>(ok, s1).
     KOk (ok, if ok then upd_fnode v (\<lambda>n. n\<lparr>fn_buf_sector := sector\<rparr>) s1 else s1))"

section \<open>Vnodes\<close>

definition fat_find_vnode :: "nat \<Rightarrow> u32 \<Rightarrow> ('w, 'a) vstate_scheme \<Rightarrow> nat option option" where
  "fat_find_vnode m fnd s =
     vn_find (\<lambda>v. fn_fnode (v_fnode (vnodes s v)) = fnd) (\<lambda>v. vn_next (vnodes s v)) (fat_pvn (vfs_fat (vfs_table s m)))"

definition new_fnode :: "u32 \<Rightarrow> fnode" where
  "new_fnode fnd = \<lparr>fn_fnode = fnd, fn_Attributes = 0, fn_FirstCluster = 0, fn_FileSize = 0, fn_CurrentCluster = 0,
     fn_CurrentSectorInCluster = 0, fn_CurrentByte = 0, fn_CurrentByteInSector = 0, fn_buf_sector = 0\<rparr>"

definition fat_allocate_vnode :: "nat \<Rightarrow> u32 \<Rightarrow> ('w, 'a) vstate_scheme \<Rightarrow> (nat \<times> ('w, 'a) vstate_scheme) kres" where
  "fat_allocate_vnode m fnd s =
     kbind (vfs_vnode_alloc s) (\<lambda>(v, s1).
     let s2 = upd_vnode v (\<lambda>n. n\<lparr>v_count := 0, v_op := Some FS_fat, v_vfsp := Some m, v_fnode := new_fnode fnd,
                 vn_next := fat_pvn (vfs_fat (vfs_table s1 m))\<rparr>) s1
     in KOk (v, upd_vfs m (\<lambda>f. f\<lparr>vfs_fat := (vfs_fat f)\<lparr>fat_pvn := Some v\<rparr>\<rparr>) s2))"

section \<open>Operations on the file system\<close>

definition fat_root :: "nat \<Rightarrow> nat option \<Rightarrow> ('w, 'a) vstate_scheme \<Rightarrow> (int \<times> nat option \<times> ('w, 'a) vstate_scheme) kres" where
  "fat_root m ppv s =
     (let rt = fat_RootStartSector (vfs_fat (vfs_table s m)) in
      case fat_find_vnode m rt s of
        None \<Rightarrow> KHang
      | Some (Some v) \<Rightarrow> KOk (0, Some v, VN_HOLD v s)
      | Some None \<Rightarrow>
          kbind (fat_allocate_vnode m rt s) (\<lambda>(v, s1).
          KOk (0, Some v, VN_HOLD v (upd_vnode v (\<lambda>n. n\<lparr>v_type := VDIR,
            v_fnode := (v_fnode n)\<lparr>fn_Attributes := FAT_DIRENT_ATTR_DIRECTORY_MASK\<rparr>\<rparr>) s1))))"

text \<open>
  \<open>fat_mount\<close> leaves the root directory held. \<open>fat_layout\<close> is what it computes from the boot record at \<open>b\<close>;
  the parameters of a volume whose sectors are not 512 bytes long remain, without the derived ones.
\<close>

definition fat_params :: "ram \<Rightarrow> u32 \<Rightarrow> u16 \<Rightarrow> u32 \<Rightarrow> u32 \<Rightarrow> fat \<Rightarrow> fat" where
  "fat_params r b d start cnt f = f\<lparr>fat_dev := d, fat_pvn := None, fat_FirstSector := start, fat_NbSector := cnt,
     fat_BytesPerSector := read_u16_le r (b + 0xB), fat_SectorsPerCluster := r (b + 0xD),
     fat_FatCopyNumber := r (b + 0x10), fat_MaxRootEntries := read_u16_le r (b + 0x11)\<rparr>"

definition fat_layout :: "ram \<Rightarrow> u32 \<Rightarrow> fat \<Rightarrow> fat" where
  "fat_layout r b f =
     (let fs = fat_FirstSector f + ucast (read_u16_le r (b + 0xE));
          rs = fs + ucast (fat_FatCopyNumber f) * ucast (read_u16_le r (b + 0x16));
          ds = rs + 32 * ucast (fat_MaxRootEntries f) div 512
      in f\<lparr>fat_FatStartSector := fs, fat_RootStartSector := rs, fat_DataStartSector := ds\<rparr>)"

definition fat_mount ::
    "'w dexchange \<Rightarrow> u32 \<Rightarrow> nat \<Rightarrow> u16 \<Rightarrow> ('w, 'a) vstate_scheme \<Rightarrow> (int \<times> ('w, 'a) vstate_scheme) kres" where
  "fat_mount dx sb m d s =
     (case dev_get_by_id d (dev_list s) of
        None \<Rightarrow> KOk (- ENOTBLK, s)
      | Some i \<Rightarrow>
          (case dev_at (dev_list s ! i) of
             DEV_ATTR_DISK_PARTITION ty cnt start \<Rightarrow>
               kbind (ask_driver dx d (DEV_READ (minor d) (start * 512) sb 512) s) (\<lambda>(r, s1).
               if r \<noteq> 512 then KOk (- EINVAL, s1)
               else
                 let s2 = upd_vfs m (\<lambda>f. f\<lparr>vfs_op := Some FS_fat, vfs_vnodecovered := None, vfs_flag := 0,
                            vfs_fat := fat_params (ram s1) sb d start cnt (vfs_fat f)\<rparr>) s1
                 in if fat_BytesPerSector (vfs_fat (vfs_table s2 m)) \<noteq> 512 then KOk (- EINVAL, s2)
                    else
                      let s3 = upd_vfs m (\<lambda>f. f\<lparr>vfs_fat := fat_layout (ram s2) sb (vfs_fat f)\<rparr>) s2 in
                      kbind (fat_root m None s3) (\<lambda>(r', pvn, s4).
                      KOk (r', upd_vfs m (\<lambda>f. f\<lparr>vfs_fat := (vfs_fat f)\<lparr>fat_pvn := pvn\<rparr>\<rparr>) s4)))
           | _ \<Rightarrow> KOk (- ENOTBLK, s)))"

definition fat_unmount :: "nat \<Rightarrow> ('w, 'a) vstate_scheme \<Rightarrow> (int \<times> ('w, 'a) vstate_scheme) kres" where
  "fat_unmount m s = KOk (- 1, s)"

section \<open>Names\<close>

definition to_upper :: "u8 \<Rightarrow> u8" where
  "to_upper c = (if 97 \<le> c \<and> c \<le> 122 then c - 32 else c)"

fun fat_name_loop :: "u8 list \<Rightarrow> nat \<Rightarrow> u8 list \<Rightarrow> u8 list option" where
  "fat_name_loop [] i dst = None"
| "fat_name_loop (c # src) i dst =
     (if c \<noteq> 0 \<and> i < 11
      then if c = 46 then fat_name_loop src 8 dst else fat_name_loop src (Suc i) (dst[i := to_upper c])
      else Some dst)"

definition to_fat_name :: "u8 list \<Rightarrow> u8 list option" where
  "to_fat_name src = map_option (\<lambda>d. d @ [0]) (fat_name_loop src 0 (replicate 11 32))"

definition to_string_name :: "u8 list \<Rightarrow> u8 list" where
  "to_string_name src =
     takeWhile (\<lambda>c. c \<noteq> 32) (take 8 src) @
     (if src ! 8 \<noteq> 32 then [46] @ takeWhile (\<lambda>c. c \<noteq> 32) (take 3 (drop 8 src)) else []) @ [0]"

section \<open>Clusters\<close>

text \<open>\<open>_fat_next_cluster\<close>: the answer of the driver is not looked at.\<close>

definition fat_next_cluster ::
    "'w dexchange \<Rightarrow> (nat \<Rightarrow> u32) \<Rightarrow> fat \<Rightarrow> nat \<Rightarrow> u16 \<Rightarrow> ('w, 'a) vstate_scheme \<Rightarrow> (u16 \<times> ('w, 'a) vstate_scheme) kres" where
  "fat_next_cluster dx fb pf v c s =
     (let d = fat_dev pf; sector = fat_FatStartSector pf + ucast c * 2 div 512 in
      kbind (ask_driver dx d (DEV_READ (minor d) (sector * 512) (fb v) 512) s) (\<lambda>(_, s1).
      let s2 = upd_fnode v (\<lambda>n. n\<lparr>fn_buf_sector := 0\<rparr>) s1
      in KOk (read_u16_le (ram s2) (fb v + (ucast c * 2 AND 0x1ff)), s2)))"

section \<open>Lookup\<close>

text \<open>A directory entry at \<open>e\<close> that is in use and whose name is the one looked for.\<close>

definition entry_listed :: "ram \<Rightarrow> u32 \<Rightarrow> bool" where
  "entry_listed r e \<longleftrightarrow> r e \<noteq> FAT_FREE_ENTRY_TAG \<and> r (e + 11) \<noteq> FAT_DIRENT_ATTR_VOLUME_LABEL \<and> r (e + 11) \<noteq> FAT_DIRENT_ATTR_LFN"

definition entry_matches :: "u8 list \<Rightarrow> ram \<Rightarrow> u32 \<Rightarrow> bool kres" where
  "entry_matches nm r e =
     (if entry_listed r e then
        (case to_fat_name nm of
           None \<Rightarrow> KFault
         | Some n \<Rightarrow>
             (case strncmp n (map (\<lambda>i. r (e + of_nat i)) [0..<11]) 11 of
                None \<Rightarrow> KFault
              | Some x \<Rightarrow> KOk (x = 0)))
      else KOk False)"

text \<open>The vnode of a matching entry. Only a lookup in the root directory sets \<open>CurrentCluster\<close>.\<close>

definition fat_found ::
    "nat \<Rightarrow> bool \<Rightarrow> u32 \<Rightarrow> ('w, 'a) vstate_scheme \<Rightarrow> (int \<times> nat option \<times> ('w, 'a) vstate_scheme) kres" where
  "fat_found m in_root e s =
     (let start = read_u16_le (ram s) (e + 0x1A);
          sector = cluster_sector (vfs_fat (vfs_table s m)) start
      in case fat_find_vnode m sector s of
           None \<Rightarrow> KHang
         | Some (Some w) \<Rightarrow> KOk (0, Some w, VN_HOLD w s)
         | Some None \<Rightarrow>
             kbind (fat_allocate_vnode m sector s) (\<lambda>(w, s1).
             let attr = ram s1 (e + 0x0B);
                 size = read_u32_le (ram s1) (e + 0x1c)
             in KOk (0, Some w, upd_vnode w (\<lambda>n. n\<lparr>v_vfsmountedhere := None,
                  v_type := (if attr AND FAT_DIRENT_ATTR_DIRECTORY_MASK \<noteq> 0 then VDIR else VREG),
                  v_fnode := (v_fnode n)\<lparr>fn_Attributes := attr, fn_FirstCluster := start, fn_FileSize := size,
                    fn_CurrentCluster := (if in_root then start else fn_CurrentCluster (v_fnode n))\<rparr>\<rparr>) (VN_HOLD w s1))))"

text \<open>The entries \<open>es\<close> of the sector in the buffer; \<open>None\<close> when the search goes on.\<close>

fun fat_scan ::
    "nat \<Rightarrow> bool \<Rightarrow> u32 \<Rightarrow> u8 list \<Rightarrow> nat option \<Rightarrow> nat list \<Rightarrow> ('w, 'a) vstate_scheme \<Rightarrow>
     (int \<times> nat option \<times> ('w, 'a) vstate_scheme) option kres" where
  "fat_scan m in_root b nm ppv [] s = KOk None"
| "fat_scan m in_root b nm ppv (k # ks) s =
     (let e = b + of_nat (32 * k) in
      kbind (entry_matches nm (ram s) e) (\<lambda>eq.
      if eq then kbind (fat_found m in_root e s) (\<lambda>x. KOk (Some x))
      else if ram s e = 0 then KOk (Some (- 1, ppv, s))
      else fat_scan m in_root b nm ppv ks s))"

text \<open>\<open>_fnode_lookup_root\<close>: entry \<open>dent\<close> and the \<open>k\<close> entries from there on; a sector holds 16.\<close>

fun fat_root_entries ::
    "'w dexchange \<Rightarrow> (nat \<Rightarrow> u32) \<Rightarrow> nat \<Rightarrow> nat \<Rightarrow> u8 list \<Rightarrow> nat option \<Rightarrow> nat \<Rightarrow> nat \<Rightarrow> ('w, 'a) vstate_scheme \<Rightarrow>
     (int \<times> nat option \<times> ('w, 'a) vstate_scheme) kres" where
  "fat_root_entries dx fb m v nm ppv dent 0 s = KOk (- 1, ppv, s)"
| "fat_root_entries dx fb m v nm ppv dent (Suc k) s =
     (let pf = vfs_fat (vfs_table s m) in
      kbind (if dent mod 16 = 0 then fat_load dx fb (fat_dev pf) v (fat_RootStartSector pf + of_nat (dent div 16)) s else KOk (True, s)) (\<lambda>(ok, s1).
      if \<not> ok then KOk (- 1, ppv, s1)
      else
        kbind (fat_scan m True (fb v) nm ppv [dent mod 16] s1) (\<lambda>x.
        case x of Some y \<Rightarrow> KOk y | None \<Rightarrow> fat_root_entries dx fb m v nm ppv (Suc dent) k s1)))"

definition fnode_lookup_root ::
    "'w dexchange \<Rightarrow> (nat \<Rightarrow> u32) \<Rightarrow> nat \<Rightarrow> nat \<Rightarrow> u8 list \<Rightarrow> nat option \<Rightarrow> ('w, 'a) vstate_scheme \<Rightarrow>
     (int \<times> nat option \<times> ('w, 'a) vstate_scheme) kres" where
  "fnode_lookup_root dx fb m v nm ppv s =
     fat_root_entries dx fb m v nm ppv 0 (unat (fat_MaxRootEntries (vfs_fat (vfs_table s m)))) s"

text \<open>The sectors of a cluster; \<open>Inr\<close> when the search goes on in the next cluster.\<close>

fun fat_dir_sectors ::
    "'w dexchange \<Rightarrow> (nat \<Rightarrow> u32) \<Rightarrow> nat \<Rightarrow> nat \<Rightarrow> u8 list \<Rightarrow> nat option \<Rightarrow> nat \<Rightarrow> u32 \<Rightarrow> ('w, 'a) vstate_scheme \<Rightarrow>
     ((int \<times> nat option \<times> ('w, 'a) vstate_scheme) + ('w, 'a) vstate_scheme) kres" where
  "fat_dir_sectors dx fb m v nm ppv 0 sector s = KOk (Inr s)"
| "fat_dir_sectors dx fb m v nm ppv (Suc k) sector s =
     kbind (fat_load_cached dx fb (fat_dev (vfs_fat (vfs_table s m))) v sector s) (\<lambda>(ok, s1).
     if \<not> ok then KOk (Inl (- 1, ppv, s1))
     else
       kbind (fat_scan m False (fb v) nm ppv [0..<16] s1) (\<lambda>x.
       case x of Some y \<Rightarrow> KOk (Inl y) | None \<Rightarrow> fat_dir_sectors dx fb m v nm ppv k (sector + 1) s1))"

partial_function (option) fat_dir_clusters ::
    "'w dexchange \<Rightarrow> (nat \<Rightarrow> u32) \<Rightarrow> nat \<Rightarrow> nat \<Rightarrow> u8 list \<Rightarrow> nat option \<Rightarrow> u16 \<Rightarrow> ('w, 'a) vstate_scheme \<Rightarrow>
     (int \<times> nat option \<times> ('w, 'a) vstate_scheme) kres option" where
  "fat_dir_clusters dx fb m v nm ppv c s =
     bindk (fat_dir_sectors dx fb m v nm ppv (unat (fat_SectorsPerCluster (vfs_fat (vfs_table s m)))) (cluster_sector (vfs_fat (vfs_table s m)) c) s) (\<lambda>x.
     case x of
       Inl y \<Rightarrow> Some (KOk y)
     | Inr s1 \<Rightarrow> bindk (fat_next_cluster dx fb (vfs_fat (vfs_table s1 m)) v c s1) (\<lambda>(c', s2). fat_dir_clusters dx fb m v nm ppv c' s2))"

definition fnode_lookup ::
    "'w dexchange \<Rightarrow> (nat \<Rightarrow> u32) \<Rightarrow> nat \<Rightarrow> u8 list \<Rightarrow> nat option \<Rightarrow> pid \<Rightarrow> ('w, 'a) vstate_scheme \<Rightarrow>
     (int \<times> nat option \<times> ('w, 'a) vstate_scheme) kres" where
  "fnode_lookup dx fb v nm ppv p s = with_vfs v (\<lambda>m.
     if fn_fnode (v_fnode (vnodes s v)) = fat_RootStartSector (vfs_fat (vfs_table s m)) then fnode_lookup_root dx fb m v nm ppv s
     else looped (fat_dir_clusters dx fb m v nm ppv (fn_FirstCluster (v_fnode (vnodes s v))) s)) s"

section \<open>Open files\<close>

definition fnode_open :: "nat \<Rightarrow> u32 \<Rightarrow> pid \<Rightarrow> ('w, 'a) vstate_scheme \<Rightarrow> (int \<times> ('w, 'a) vstate_scheme) kres" where
  "fnode_open v fl p s =
     (let s1 = upd_fnode v (\<lambda>n. n\<lparr>fn_CurrentCluster := fn_FirstCluster n, fn_CurrentByteInSector := 0,
                 fn_CurrentSectorInCluster := 0, fn_CurrentByte := 0\<rparr>) s;
          dir = (fn_Attributes (v_fnode (vnodes s1 v)) AND FAT_DIRENT_ATTR_DIRECTORY_MASK \<noteq> 0);
          odir = (fl AND O_DIRECTORY \<noteq> 0)
      in KOk (if dir \<and> odir then 0 else if \<not> dir \<and> \<not> odir then 0 else - 1, s1))"

definition fnode_close :: "nat \<Rightarrow> pid \<Rightarrow> ('w, 'a) vstate_scheme \<Rightarrow> (int \<times> ('w, 'a) vstate_scheme) kres" where
  "fnode_close v p s = KOk (0, s)"

text \<open>
  The sector of the position in the buffer; the step over \<open>bsize\<close> bytes, without and with the end of a
  sector.
\<close>

definition fat_fetch ::
    "'w dexchange \<Rightarrow> (nat \<Rightarrow> u32) \<Rightarrow> fat \<Rightarrow> nat \<Rightarrow> ('w, 'a) vstate_scheme \<Rightarrow> (bool \<times> ('w, 'a) vstate_scheme) kres" where
  "fat_fetch dx fb pf v s =
     (let n = v_fnode (vnodes s v);
          sector = cluster_sector pf (fn_CurrentCluster n) + ucast (fn_CurrentSectorInCluster n)
      in if fn_buf_sector n \<noteq> sector then fat_load_cached dx fb (fat_dev pf) v sector s else KOk (True, s))"

definition fat_advance ::
    "'w dexchange \<Rightarrow> (nat \<Rightarrow> u32) \<Rightarrow> fat \<Rightarrow> nat \<Rightarrow> u32 \<Rightarrow> ('w, 'a) vstate_scheme \<Rightarrow> ('w, 'a) vstate_scheme kres" where
  "fat_advance dx fb pf v k s =
     (let s1 = upd_fnode v (\<lambda>n. n\<lparr>fn_CurrentByte := fn_CurrentByte n + k,
                 fn_CurrentByteInSector := fn_CurrentByteInSector n + ucast k\<rparr>) s
      in if fn_CurrentByteInSector (v_fnode (vnodes s1 v)) \<ge> fat_BytesPerSector pf then
           let s2 = upd_fnode v (\<lambda>n. n\<lparr>fn_CurrentByteInSector := 0, fn_buf_sector := 0,
                      fn_CurrentSectorInCluster := fn_CurrentSectorInCluster n + 1\<rparr>) s1
           in if fn_CurrentSectorInCluster (v_fnode (vnodes s2 v)) \<ge> fat_SectorsPerCluster pf then
                let s3 = upd_fnode v (\<lambda>n. n\<lparr>fn_CurrentSectorInCluster := 0\<rparr>) s2 in
                kbind (fat_next_cluster dx fb pf v (fn_CurrentCluster (v_fnode (vnodes s3 v))) s3) (\<lambda>(c, s4).
                KOk (upd_fnode v (\<lambda>n. n\<lparr>fn_CurrentCluster := c\<rparr>) s4))
              else KOk s2
         else KOk s1)"

text \<open>\<open>bsize\<close>: the bytes taken from the sector; the remaining bytes are an \<open>int\<close> compared as unsigned.\<close>

definition fat_chunk :: "fat \<Rightarrow> fnode \<Rightarrow> u32 \<Rightarrow> u32" where
  "fat_chunk pf n cnt =
     (let rest = ucast (fat_BytesPerSector pf) - ucast (fn_CurrentByteInSector n) in if cnt \<le> rest then cnt else rest)"

partial_function (option) fat_read_loop ::
    "'w dexchange \<Rightarrow> (nat \<Rightarrow> u32) \<Rightarrow> nat \<Rightarrow> nat \<Rightarrow> u32 \<Rightarrow> u32 \<Rightarrow> u32 \<Rightarrow> ('w, 'a) vstate_scheme \<Rightarrow> (int \<times> ('w, 'a) vstate_scheme) kres option" where
  "fat_read_loop dx fb m v dst cnt did s =
     (if cnt = 0 then Some (KOk (uint did, s))
      else
        bindk (fat_fetch dx fb (vfs_fat (vfs_table s m)) v s) (\<lambda>(ok, s1).
        if \<not> ok then Some (KOk (- 1, s1))
        else
          bindk (fat_advance dx fb (vfs_fat (vfs_table s1 m)) v (fat_chunk (vfs_fat (vfs_table s1 m)) (v_fnode (vnodes s1 v)) cnt)
                   (s1\<lparr>ram := memcpy (ram s1) dst (fb v + ucast (fn_CurrentByteInSector (v_fnode (vnodes s1 v))))
                                (unat (fat_chunk (vfs_fat (vfs_table s1 m)) (v_fnode (vnodes s1 v)) cnt))\<rparr>)) (\<lambda>s2.
          fat_read_loop dx fb m v
            (dst + fat_chunk (vfs_fat (vfs_table s1 m)) (v_fnode (vnodes s1 v)) cnt)
            (cnt - fat_chunk (vfs_fat (vfs_table s1 m)) (v_fnode (vnodes s1 v)) cnt)
            (did + fat_chunk (vfs_fat (vfs_table s1 m)) (v_fnode (vnodes s1 v)) cnt) s2)))"

text \<open>Up to the end of a file; a directory has no size.\<close>

definition fat_count :: "fnode \<Rightarrow> u32 \<Rightarrow> u32" where
  "fat_count n cnt =
     (if fn_Attributes n AND FAT_DIRENT_ATTR_DIRECTORY_MASK = 0 \<and> fn_CurrentByte n + cnt \<ge> fn_FileSize n
      then fn_FileSize n - fn_CurrentByte n else cnt)"

definition fnode_read ::
    "'w dexchange \<Rightarrow> (nat \<Rightarrow> u32) \<Rightarrow> nat \<Rightarrow> u32 \<Rightarrow> u32 \<Rightarrow> pid \<Rightarrow> ('w, 'a) vstate_scheme \<Rightarrow> (int \<times> ('w, 'a) vstate_scheme) kres" where
  "fnode_read dx fb v buf cnt p s = with_vfs v (\<lambda>m. looped (fat_read_loop dx fb m v buf (fat_count (v_fnode (vnodes s v)) cnt) 0 s)) s"

definition fnode_write :: "nat \<Rightarrow> u32 \<Rightarrow> u32 \<Rightarrow> pid \<Rightarrow> ('w, 'a) vstate_scheme \<Rightarrow> (int \<times> ('w, 'a) vstate_scheme) kres" where
  "fnode_write v buf cnt p s = KOk (0, s)"

text \<open>The position is rewound and moved forward sector by sector; \<open>CurrentByte\<close> stays as it is.\<close>

partial_function (option) fat_seek_loop ::
    "'w dexchange \<Rightarrow> (nat \<Rightarrow> u32) \<Rightarrow> nat \<Rightarrow> nat \<Rightarrow> u32 \<Rightarrow> ('w, 'a) vstate_scheme \<Rightarrow> ('w, 'a) vstate_scheme kres option" where
  "fat_seek_loop dx fb m v off s =
     (if off = 0 then Some (KOk s)
      else if off < ucast (fat_BytesPerSector (vfs_fat (vfs_table s m))) then
        Some (KOk (upd_fnode v (\<lambda>n. n\<lparr>fn_CurrentByteInSector := ucast off\<rparr>) s))
      else
        bindk (if uint (fn_CurrentSectorInCluster (v_fnode (vnodes s v))) = uint (fat_SectorsPerCluster (vfs_fat (vfs_table s m))) - 1 then
                 kbind (fat_next_cluster dx fb (vfs_fat (vfs_table s m)) v (fn_CurrentCluster (v_fnode (vnodes s v)))
                          (upd_fnode v (\<lambda>n. n\<lparr>fn_CurrentSectorInCluster := 0\<rparr>) s)) (\<lambda>(c, s1).
                 KOk (upd_fnode v (\<lambda>n. n\<lparr>fn_CurrentCluster := c\<rparr>) s1))
               else KOk (upd_fnode v (\<lambda>n. n\<lparr>fn_CurrentSectorInCluster := fn_CurrentSectorInCluster n + 1\<rparr>) s)) (\<lambda>s2.
        fat_seek_loop dx fb m v (off - ucast (fat_BytesPerSector (vfs_fat (vfs_table s m)))) s2))"

definition fnode_lseek ::
    "'w dexchange \<Rightarrow> (nat \<Rightarrow> u32) \<Rightarrow> nat \<Rightarrow> u32 \<Rightarrow> u32 \<Rightarrow> ('w, 'a) vstate_scheme \<Rightarrow> (int \<times> ('w, 'a) vstate_scheme) kres" where
  "fnode_lseek dx fb v off wh s = with_vfs v (\<lambda>m.
     let n = v_fnode (vnodes s v);
         go = (\<lambda>off. kbind (looped (fat_seek_loop dx fb m v off
                 (upd_fnode v (\<lambda>n. n\<lparr>fn_CurrentByteInSector := 0, fn_CurrentSectorInCluster := 0, fn_CurrentCluster := fn_FirstCluster n\<rparr>) s)))
               (\<lambda>s1. KOk (0, s1)))
     in if wh = SEEK_END then (if off > fn_FileSize n then KOk (- 1, s) else go (fn_FileSize n - off))
        else if wh = SEEK_CUR then (if fn_CurrentByte n + off > fn_FileSize n then KOk (- 1, s) else go (fn_CurrentByte n + off))
        else go off) s"

section \<open>Directories\<close>

text \<open>
  \<open>_fat_get_root_entry\<close>: the address of the next entry of the root directory, 0 when the driver fails. The
  number of entries is not compared with the size of the directory.
\<close>

definition fat_get_root_entry ::
    "'w dexchange \<Rightarrow> (nat \<Rightarrow> u32) \<Rightarrow> nat \<Rightarrow> nat \<Rightarrow> ('w, 'a) vstate_scheme \<Rightarrow> (u32 \<times> ('w, 'a) vstate_scheme) kres" where
  "fat_get_root_entry dx fb m v s =
     (let pf = vfs_fat (vfs_table s m); n = v_fnode (vnodes s v);
          sector = fat_RootStartSector pf + ucast (fn_CurrentSectorInCluster n);
          e = fb v + ucast (fn_CurrentByteInSector n)
      in kbind (if sector \<noteq> fn_buf_sector n then fat_load_cached dx fb (fat_dev pf) v sector s else KOk (True, s)) (\<lambda>(ok, s1).
         if \<not> ok then KOk (0, s1)
         else
           KOk (e, upd_fnode v (\<lambda>n. let i = fn_CurrentByteInSector n + 32 in
             if i \<ge> 512 then n\<lparr>fn_CurrentByteInSector := 0, fn_CurrentSectorInCluster := fn_CurrentSectorInCluster n + 1\<rparr>
             else n\<lparr>fn_CurrentByteInSector := i\<rparr>) s1)))"

text \<open>The next entry of a directory; \<open>None\<close> when it cannot be read.\<close>

definition fat_next_entry ::
    "'w dexchange \<Rightarrow> (nat \<Rightarrow> u32) \<Rightarrow> u32 \<Rightarrow> nat \<Rightarrow> nat \<Rightarrow> pid \<Rightarrow> ('w, 'a) vstate_scheme \<Rightarrow> (u32 option \<times> ('w, 'a) vstate_scheme) kres" where
  "fat_next_entry dx fb de m v p s =
     (if fn_CurrentCluster (v_fnode (vnodes s v)) = 0 then
        kbind (fat_get_root_entry dx fb m v s) (\<lambda>(e, s1). KOk (Some e, s1))
      else
        kbind (fnode_read dx fb v de FAT_DIRECTORY_ENTRY_SIZE p s) (\<lambda>(r, s1).
        KOk (if r \<noteq> 32 then None else Some de, s1)))"

definition fat_dirent :: "ram \<Rightarrow> u32 \<Rightarrow> u8 list" where
  "fat_dirent r e =
     dirent_bytes 16 (if r (e + 11) AND FAT_DIRENT_ATTR_DIRECTORY_MASK \<noteq> 0 then 2 else 1)
       (to_string_name (map (\<lambda>i. r (e + of_nat i)) [0..<11]))"

partial_function (option) fat_dents_loop ::
    "'w dexchange \<Rightarrow> (nat \<Rightarrow> u32) \<Rightarrow> u32 \<Rightarrow> nat \<Rightarrow> nat \<Rightarrow> pid \<Rightarrow> u32 \<Rightarrow> u32 \<Rightarrow> int \<Rightarrow> ('w, 'a) vstate_scheme \<Rightarrow>
     (int \<times> ('w, 'a) vstate_scheme) kres option" where
  "fat_dents_loop dx fb de m v p dirp cnt ln s =
     (if cnt < FAT_DIRENT_SIZE then Some (KOk (ln, s))
      else
        bindk (fat_next_entry dx fb de m v p s) (\<lambda>(x, s1).
        case x of
          None \<Rightarrow> Some (KOk (- 1, s1))
        | Some e \<Rightarrow>
            if entry_listed (ram s1) e then
              if ram s1 e = 0 then Some (KOk (ln, s1))
              else fat_dents_loop dx fb de m v p (dirp + FAT_DIRENT_SIZE) (cnt - FAT_DIRENT_SIZE) (ln + 16)
                     (s1\<lparr>ram := put_bytes (ram s1) dirp (fat_dirent (ram s1) e)\<rparr>)
            else fat_dents_loop dx fb de m v p dirp cnt ln s1))"

definition fnode_getdents ::
    "'w dexchange \<Rightarrow> (nat \<Rightarrow> u32) \<Rightarrow> u32 \<Rightarrow> nat \<Rightarrow> u32 \<Rightarrow> u32 \<Rightarrow> pid \<Rightarrow> ('w, 'a) vstate_scheme \<Rightarrow> (int \<times> ('w, 'a) vstate_scheme) kres" where
  "fnode_getdents dx fb de v buf cnt p s =
     (if fn_Attributes (v_fnode (vnodes s v)) AND FAT_DIRENT_ATTR_DIRECTORY_MASK = 0 then KOk (- 1, s)
      else with_vfs v (\<lambda>m. looped (fat_dents_loop dx fb de m v p buf cnt 0 s)) s)"

section \<open>The other operations\<close>

definition fnode_ioctl :: "nat \<Rightarrow> u32 \<Rightarrow> u32 \<Rightarrow> pid \<Rightarrow> ('w, 'a) vstate_scheme \<Rightarrow> (int \<times> ('w, 'a) vstate_scheme) kres" where
  "fnode_ioctl v req ptr p s = KOk (- 1, s)"

definition fnode_mkdir :: "nat \<Rightarrow> u8 list \<Rightarrow> pid \<Rightarrow> ('w, 'a) vstate_scheme \<Rightarrow> (int \<times> ('w, 'a) vstate_scheme) kres" where
  "fnode_mkdir v nm p s = KOk (- EROFS, s)"

definition fnode_inactive :: "nat \<Rightarrow> ('w, 'a) vstate_scheme \<Rightarrow> (int \<times> ('w, 'a) vstate_scheme) kres" where
  "fnode_inactive v s = with_vfs v (\<lambda>m.
     kbind (vn_unlink v (fat_pvn (vfs_fat (vfs_table s m))) s) (\<lambda>(h, s1).
     KOk (0, upd_vfs m (\<lambda>f. f\<lparr>vfs_fat := (vfs_fat f)\<lparr>fat_pvn := h\<rparr>\<rparr>) s1))) s"

definition fnode_getattr :: "nat \<Rightarrow> ('w, 'a) vstate_scheme \<Rightarrow> (u16 option \<times> ('w, 'a) vstate_scheme) kres" where
  "fnode_getattr v s = KOk (None, s)"

definition fat_ops :: "'w dexchange \<Rightarrow> (nat \<Rightarrow> u32) \<Rightarrow> u32 \<Rightarrow> u32 \<Rightarrow> ('w, 'a) vstate_scheme fsops" where
  "fat_ops dx fb sb de = \<lparr>vfs_mount = fat_mount dx sb, vfs_unmount = fat_unmount, vfs_root = fat_root,
     vn_open = fnode_open, vn_close = fnode_close, vn_read = fnode_read dx fb, vn_write = fnode_write,
     vn_lseek = fnode_lseek dx fb, vn_ioctl = fnode_ioctl, vn_getattr = fnode_getattr, vn_lookup = fnode_lookup dx fb,
     vn_mkdir = fnode_mkdir, vn_getdents = fnode_getdents dx fb de, vn_inactive = fnode_inactive\<rparr>"

end
