(* ===== verification/VnodeProps.thy ===== *)
theory VnodeProps
  imports Rfs Fat
begin

text \<open>
  The lists of vnodes: the pool and the list of each file system are null-terminated, share no vnode,
  and the vnodes of the pool have no reference. What allocation, search and removal do to them, and
  the vocabulary for the effect of a file system operation on the reference counts.
\<close>

section \<open>Null-terminated lists\<close>

primrec chain :: "(nat \<Rightarrow> nat option) \<Rightarrow> nat option \<Rightarrow> nat list \<Rightarrow> bool" where
  "chain nx h [] \<longleftrightarrow> h = None"
| "chain nx h (x # xs) \<longleftrightarrow> h = Some x \<and> chain nx (nx x) xs"

lemma chain_None [simp]: "chain nx None xs \<longleftrightarrow> xs = []"
  by (cases xs) auto

lemma chain_Some: "chain nx (Some x) xs \<longleftrightarrow> (\<exists>ys. xs = x # ys \<and> chain nx (nx x) ys)"
  by (cases xs) auto

lemma chain_cong: "(\<And>x. x \<in> set xs \<Longrightarrow> nx' x = nx x) \<Longrightarrow> chain nx' h xs = chain nx h xs"
  by (induction xs arbitrary: h) auto

lemma chain_upd: "u \<notin> set xs \<Longrightarrow> chain (nx(u := y)) h xs = chain nx h xs"
  by (rule chain_cong) auto

lemma chain_fun: "chain nx h xs \<Longrightarrow> chain nx h ys \<Longrightarrow> xs = ys"
  by (induction xs arbitrary: h ys) (auto simp: chain_Some)

lemma chain_suffix: "chain nx h (ys @ x # zs) \<Longrightarrow> chain nx (nx x) zs"
  by (induction ys arbitrary: h) auto

lemma chain_distinct: "chain nx h xs \<Longrightarrow> distinct xs"
proof (induction xs arbitrary: h)
  case (Cons x xs)
  have "x \<notin> set xs"
  proof
    assume "x \<in> set xs"
    then obtain ys zs where xs: "xs = ys @ x # zs" by (meson split_list)
    then have "chain nx (nx x) zs" "chain nx (nx x) xs" using Cons.prems chain_suffix [of nx "nx x" ys x zs] by auto
    from chain_fun [OF this] show False using xs by simp
  qed
  with Cons show ?case by auto
qed simp

lemma vn_find_chain: "chain nx h xs \<Longrightarrow> vn_find P nx h = Some (find P xs)"
  by (induction xs arbitrary: h) (simp_all add: vn_find.simps)

text \<open>The predecessor of \<open>v\<close> in a list that does not start with it.\<close>

lemma vn_before_absent: "chain nx h xs \<Longrightarrow> v \<notin> set xs \<Longrightarrow> vn_before v nx h = Some None"
proof (induction xs arbitrary: h)
  case (Cons x xs)
  then have "nx x \<noteq> Some v" by (cases xs) auto
  with Cons show ?case by (simp add: vn_before.simps [of v nx "Some x"])
qed (simp add: vn_before.simps)

lemma vn_before_present:
  "chain nx h (ys @ u # v # zs) \<Longrightarrow> vn_before v nx h = Some (Some u)"
proof (induction ys arbitrary: h)
  case Nil
  then show ?case by (simp add: vn_before.simps)
next
  case (Cons x ys)
  have "distinct ((x # ys) @ u # v # zs)" by (rule chain_distinct [OF Cons.prems])
  then have "nx x \<noteq> Some v" using Cons.prems by (cases ys) auto
  with Cons show ?case by (simp add: vn_before.simps [of v nx "Some x"])
qed

lemma chain_unlink:
  assumes "chain nx h (ys @ u # v # zs)"
  shows "chain (nx(u := nx v)) h (ys @ u # zs)"
  using assms
proof (induction ys arbitrary: h)
  case Nil
  then have "distinct (u # v # zs)" using chain_distinct [of nx h "u # v # zs"] by simp
  with Nil show ?case by (simp add: chain_upd fun_upd_same del: fun_upd_apply)
next
  case (Cons x ys)
  have "distinct ((x # ys) @ u # v # zs)" by (rule chain_distinct [OF Cons.prems])
  with Cons show ?case by (simp del: fun_upd_apply) (simp add: Cons.IH)
qed

section \<open>The lists of the state\<close>

datatype list_id = L_free | L_devfs nat | L_rfs nat | L_fat nat

fun list_head :: "('w, 'a) vstate_scheme \<Rightarrow> list_id \<Rightarrow> nat option" where
  "list_head s L_free = free_vnodes s"
| "list_head s (L_devfs m) = devfs_pvn (vfs_devfs (vfs_table s m))"
| "list_head s (L_rfs m) = rfs_pvn (vfs_rfs (vfs_table s m))"
| "list_head s (L_fat m) = fat_pvn (vfs_fat (vfs_table s m))"

abbreviation vnx :: "('w, 'a) vstate_scheme \<Rightarrow> nat \<Rightarrow> nat option" where
  "vnx s v \<equiv> vn_next (vnodes s v)"

abbreviation counts :: "('w, 'a) vstate_scheme \<Rightarrow> nat \<Rightarrow> u16" where
  "counts s v \<equiv> v_count (vnodes s v)"

definition lists_view :: "(list_id \<Rightarrow> nat list) \<Rightarrow> ('w, 'a) vstate_scheme \<Rightarrow> bool" where
  "lists_view ls s \<longleftrightarrow> (\<forall>i. chain (vnx s) (list_head s i) (ls i)) \<and> (\<forall>i j. i \<noteq> j \<longrightarrow> set (ls i) \<inter> set (ls j) = {})"

definition vnodes_ok :: "('w, 'a) vstate_scheme \<Rightarrow> bool" where
  "vnodes_ok s \<longleftrightarrow> (\<exists>ls. lists_view ls s \<and> (\<forall>x \<in> set (ls L_free). counts s x = 0))"

lemma vnodes_okE:
  assumes "vnodes_ok s"
  obtains ls where "\<And>i. chain (vnx s) (list_head s i) (ls i)" "\<And>i j. i \<noteq> j \<Longrightarrow> set (ls i) \<inter> set (ls j) = {}"
    "\<And>x. x \<in> set (ls L_free) \<Longrightarrow> counts s x = 0"
  using assms unfolding vnodes_ok_def lists_view_def by blast

lemma vnodes_okI:
  assumes "\<And>i. chain (vnx s) (list_head s i) (ls i)" and "\<And>i j. i \<noteq> j \<Longrightarrow> set (ls i) \<inter> set (ls j) = {}"
    and "\<And>x. x \<in> set (ls L_free) \<Longrightarrow> counts s x = 0"
  shows "vnodes_ok s"
  using assms unfolding vnodes_ok_def lists_view_def by blast

text \<open>Only the links, the heads and the counts of the pool matter.\<close>

lemma vnodes_ok_cong:
  assumes "vnodes_ok s" and "\<And>v. vnx s' v = vnx s v" and "\<And>i. list_head s' i = list_head s i"
    and "\<And>v. counts s v = 0 \<Longrightarrow> counts s' v \<noteq> 0 \<Longrightarrow> \<forall>ls. lists_view ls s \<longrightarrow> v \<notin> set (ls L_free)"
  shows "vnodes_ok s'"
proof -
  obtain ls where ls: "lists_view ls s" "\<forall>x \<in> set (ls L_free). counts s x = 0" using assms(1) by (auto simp: vnodes_ok_def)
  have "vnx s' = vnx s" using assms(2) by auto
  then have "lists_view ls s'" using ls(1) assms(3) by (simp add: lists_view_def assms(2))
  moreover have "\<forall>x \<in> set (ls L_free). counts s' x = 0" using ls assms(4) by blast
  ultimately show ?thesis unfolding vnodes_ok_def by blast
qed

section \<open>Projections of the updates\<close>

lemma upd_vnode_simps [simp]:
  "vnodes (upd_vnode v f s) = (vnodes s)(v := f (vnodes s v))" "free_vnodes (upd_vnode v f s) = free_vnodes s"
  "vfs_table (upd_vnode v f s) = vfs_table s" "free_vfs (upd_vnode v f s) = free_vfs s" "used_vfs (upd_vnode v f s) = used_vfs s"
  "vnroot (upd_vnode v f s) = vnroot s" "cdir (upd_vnode v f s) = cdir s" "fd_table (upd_vnode v f s) = fd_table s"
  "dev_list (upd_vnode v f s) = dev_list s" "ram (upd_vnode v f s) = ram s" "proc_table (upd_vnode v f s) = proc_table s"
  by (simp_all add: upd_vnode_def)

lemma upd_vfs_simps [simp]:
  "vfs_table (upd_vfs m g s) = (vfs_table s)(m := g (vfs_table s m))" "vnodes (upd_vfs m g s) = vnodes s"
  "free_vnodes (upd_vfs m g s) = free_vnodes s" "free_vfs (upd_vfs m g s) = free_vfs s" "used_vfs (upd_vfs m g s) = used_vfs s"
  "vnroot (upd_vfs m g s) = vnroot s" "cdir (upd_vfs m g s) = cdir s" "fd_table (upd_vfs m g s) = fd_table s"
  "dev_list (upd_vfs m g s) = dev_list s" "ram (upd_vfs m g s) = ram s" "proc_table (upd_vfs m g s) = proc_table s"
  by (simp_all add: upd_vfs_def)

lemma VN_HOLD_simps [simp]:
  "vnodes (VN_HOLD v s) = (vnodes s)(v := (vnodes s v)\<lparr>v_count := v_count (vnodes s v) + 1\<rparr>)" "free_vnodes (VN_HOLD v s) = free_vnodes s"
  "vfs_table (VN_HOLD v s) = vfs_table s" "free_vfs (VN_HOLD v s) = free_vfs s" "used_vfs (VN_HOLD v s) = used_vfs s"
  "vnroot (VN_HOLD v s) = vnroot s" "cdir (VN_HOLD v s) = cdir s" "fd_table (VN_HOLD v s) = fd_table s"
  "dev_list (VN_HOLD v s) = dev_list s" "ram (VN_HOLD v s) = ram s" "proc_table (VN_HOLD v s) = proc_table s"
  by (simp_all add: VN_HOLD_def)

lemma vnode_free_simps [simp]:
  "vnodes (vfs_vnode_free v s) = (vnodes s)(v := (vnodes s v)\<lparr>vn_next := free_vnodes s\<rparr>)"
  "vfs_table (vfs_vnode_free v s) = vfs_table s" "vnroot (vfs_vnode_free v s) = vnroot s"
  "cdir (vfs_vnode_free v s) = cdir s" "fd_table (vfs_vnode_free v s) = fd_table s"
  by (simp_all add: vfs_vnode_free_def)

lemma list_head_simps [simp]:
  "list_head (upd_vnode v f s) i = list_head s i" "list_head (VN_HOLD v s) i = list_head s i"
  "list_head (s\<lparr>ram := r\<rparr>) i = list_head s i"
  "list_head (vfs_vnode_free v s) i = (if i = L_free then Some v else list_head s i)"
  by (cases i; simp add: vfs_vnode_free_def)+

section \<open>Effects\<close>

text \<open>
  What an operation of a file system may do: the tables of the processes stay, the lists remain well
  formed, and the counts change as given.
\<close>

abbreviation roots :: "('w, 'a) vstate_scheme \<Rightarrow> nat \<Rightarrow> nat option" where
  "roots s m \<equiv> devfs_pvnroot (vfs_devfs (vfs_table s m))"

definition effect :: "(nat \<Rightarrow> u16) \<Rightarrow> ('w, 'a) vstate_scheme \<Rightarrow> ('w, 'a) vstate_scheme \<Rightarrow> bool" where
  "effect c s s' \<longleftrightarrow> cdir s' = cdir s \<and> fd_table s' = fd_table s \<and> vnroot s' = vnroot s \<and> (\<forall>m. roots s' m = roots s m) \<and>
     vnodes_ok s' \<and> (\<forall>v. counts s' v = c v)"

definition plus_ref :: "nat \<Rightarrow> (nat \<Rightarrow> u16) \<Rightarrow> nat \<Rightarrow> u16" where
  "plus_ref w c = c(w := c w + 1)"

definition keeps :: "('w, 'a) vstate_scheme \<Rightarrow> ('w, 'a) vstate_scheme \<Rightarrow> bool" where
  "keeps s s' \<longleftrightarrow> effect (counts s) s s'"

lemma effect_trans: "effect c s s' \<Longrightarrow> effect c' s' s'' \<Longrightarrow> effect c' s s''"
  by (simp add: effect_def)

lemma keeps_refl: "vnodes_ok s \<Longrightarrow> keeps s s"
  by (simp add: keeps_def effect_def)

lemma keeps_effect: "keeps s s' \<Longrightarrow> effect c s' s'' \<Longrightarrow> effect c s s''"
  unfolding keeps_def by (rule effect_trans)

lemma keeps_counts: "keeps s s' \<Longrightarrow> counts s' v = counts s v"
  by (simp add: keeps_def effect_def)

lemma effect_keeps: "effect c s s' \<Longrightarrow> keeps s' s'' \<Longrightarrow> effect c s s''"
  by (auto simp: keeps_def effect_def)

lemma keeps_trans: "keeps s s' \<Longrightarrow> keeps s' s'' \<Longrightarrow> keeps s s''"
  using effect_keeps keeps_def by blast

lemma effect_ok: "effect c s s' \<Longrightarrow> vnodes_ok s'" "keeps s s' \<Longrightarrow> vnodes_ok s'"
  by (simp_all add: effect_def keeps_def)

text \<open>Updates that touch neither links nor counts nor the tables of the processes.\<close>

lemma keeps_upd_vnode:
  assumes "vnodes_ok s" and "\<And>n. vn_next (f n) = vn_next n" and "\<And>n. v_count (f n) = v_count n"
  shows "keeps s (upd_vnode v f s)"
proof -
  have "vnodes_ok (upd_vnode v f s)" by (rule vnodes_ok_cong [OF assms(1)]) (auto simp: assms(2,3) split: if_splits)
  then show ?thesis by (simp add: keeps_def effect_def assms(3))
qed

lemma keeps_ram: "vnodes_ok s \<Longrightarrow> keeps s (s\<lparr>ram := r\<rparr>)"
proof -
  assume ok: "vnodes_ok s"
  have "vnodes_ok (s\<lparr>ram := r\<rparr>)" by (rule vnodes_ok_cong [OF ok]) simp_all
  then show ?thesis by (simp add: keeps_def effect_def)
qed

section \<open>Allocation\<close>

text \<open>The lists are well formed and \<open>v\<close> is on none of them.\<close>

definition outside :: "nat \<Rightarrow> ('w, 'a) vstate_scheme \<Rightarrow> bool" where
  "outside v s \<longleftrightarrow> (\<exists>ls. lists_view ls s \<and> (\<forall>x \<in> set (ls L_free). counts s x = 0) \<and> (\<forall>i. v \<notin> set (ls i)))"

lemma outside_cong:
  assumes "outside v s" and "\<And>x. x \<noteq> v \<Longrightarrow> vnx s' x = vnx s x" and "\<And>i. list_head s' i = list_head s i"
    and "\<And>x. x \<noteq> v \<Longrightarrow> counts s' x = counts s x"
  shows "outside v s'"
proof -
  obtain ls where ls: "lists_view ls s" "\<forall>x \<in> set (ls L_free). counts s x = 0" "\<forall>i. v \<notin> set (ls i)"
    using assms(1) by (auto simp: outside_def)
  have "chain (vnx s') (list_head s' i) (ls i)" for i
  proof -
    have "chain (vnx s) (list_head s i) (ls i)" using ls(1) by (simp add: lists_view_def)
    moreover have "vnx s' x = vnx s x" if "x \<in> set (ls i)" for x using assms(2) [of x] that ls(3) by metis
    ultimately show ?thesis unfolding assms(3) by (subst chain_cong [where nx = "vnx s"])
  qed
  moreover have "\<forall>x \<in> set (ls L_free). counts s' x = 0" using ls(2,3) assms(4) by metis
  ultimately show ?thesis using ls(1,3) unfolding outside_def lists_view_def by blast
qed

lemma push_ok:
  assumes "outside v s" and "\<And>x. vnx s' x = (if x = v then list_head s i else vnx s x)"
    and "\<And>j. list_head s' j = (if j = i then Some v else list_head s j)"
    and "\<And>x. x \<noteq> v \<Longrightarrow> counts s' x = counts s x" and "i = L_free \<Longrightarrow> counts s' v = 0"
  shows "vnodes_ok s'"
proof -
  obtain ls where ls: "lists_view ls s" "\<forall>x \<in> set (ls L_free). counts s x = 0" "\<forall>i. v \<notin> set (ls i)"
    using assms(1) by (auto simp: outside_def)
  have c: "chain (vnx s') (list_head s j) (ls j)" for j
  proof -
    have "chain (vnx s) (list_head s j) (ls j)" using ls(1) by (simp add: lists_view_def)
    then show ?thesis using ls(3) assms(2) by (subst chain_cong [where nx = "vnx s"]) auto
  qed
  show ?thesis
  proof (rule vnodes_okI [of _ "ls(i := v # ls i)"])
    show "chain (vnx s') (list_head s' j) ((ls(i := v # ls i)) j)" for j
      using c [of j] c [of i] by (simp add: assms(2,3))
    show "set ((ls(i := v # ls i)) j) \<inter> set ((ls(i := v # ls i)) j') = {}" if "j \<noteq> j'" for j j'
      using that ls(1,3) by (auto simp: lists_view_def)
    show "counts s' x = 0" if "x \<in> set ((ls(i := v # ls i)) L_free)" for x
    proof (cases "x = v")
      case True
      with that ls(3) show ?thesis using assms(5) by (auto split: if_splits)
    next
      case False
      with that ls(2) show ?thesis using assms(4) by (auto split: if_splits)
    qed
  qed
qed

lemma alloc_ok:
  assumes "vnodes_ok s" and "vfs_vnode_alloc s = KOk (v, s1)"
  shows "counts s v = 0 \<and> outside v s1 \<and> s1 = upd_vnode v (\<lambda>n. n\<lparr>vn_next := None\<rparr>) (s\<lparr>free_vnodes := vnx s v\<rparr>)"
proof -
  obtain ls where ls: "\<And>i. chain (vnx s) (list_head s i) (ls i)" "\<And>i j. i \<noteq> j \<Longrightarrow> set (ls i) \<inter> set (ls j) = {}"
    "\<And>x. x \<in> set (ls L_free) \<Longrightarrow> counts s x = 0" using vnodes_okE [OF assms(1)] by metis
  have v: "free_vnodes s = Some v" and s1: "s1 = upd_vnode v (\<lambda>n. n\<lparr>vn_next := None\<rparr>) (s\<lparr>free_vnodes := vnx s v\<rparr>)"
    using assms(2) by (auto simp: vfs_vnode_alloc_def split: option.splits)
  obtain fl where fl: "ls L_free = v # fl" "chain (vnx s) (vnx s v) fl" using ls(1) [of L_free] v by (auto simp: chain_Some)
  have nd: "v \<notin> set fl" using chain_distinct [OF ls(1) [of L_free]] fl by simp
  have no: "v \<notin> set ((ls(L_free := fl)) i)" for i using ls(2) [of L_free i] fl nd by auto
  have h: "list_head s1 i = (if i = L_free then vnx s v else list_head s i)" for i by (cases i) (simp_all add: s1)
  have n: "vnx s1 x = (if x = v then None else vnx s x)" for x by (simp add: s1)
  have "chain (vnx s1) (list_head s1 i) ((ls(L_free := fl)) i)" for i
    using ls(1) [of i] fl no [of i] unfolding h by (subst chain_cong [where nx = "vnx s"]) (auto simp: n)
  moreover have "set ((ls(L_free := fl)) i) \<inter> set ((ls(L_free := fl)) j) = {}" if "i \<noteq> j" for i j
    using ls(2) [OF that] fl by (auto split: if_splits)
  moreover have "\<forall>x \<in> set ((ls(L_free := fl)) L_free). counts s1 x = 0" using ls(3) fl by (auto simp: s1)
  ultimately have "outside v s1" using no unfolding outside_def lists_view_def by blast
  then show ?thesis using ls(3) [of v] fl s1 by simp
qed

text \<open>With a vnode in the pool the allocation succeeds.\<close>

lemma alloc_some: "free_vnodes s \<noteq> None \<Longrightarrow> \<exists>v s1. vfs_vnode_alloc s = KOk (v, s1)"
  by (auto simp: vfs_vnode_alloc_def)

section \<open>Search and removal\<close>

lemma find_ok:
  assumes "vnodes_ok s"
  shows "\<exists>r. vn_find P (vnx s) (list_head s i) = Some r"
  using assms vn_find_chain unfolding vnodes_ok_def lists_view_def by blast

lemma unlink_ok:
  fixes s :: "('w, 'a) vstate_scheme"
  assumes "vnodes_ok s" and "i \<noteq> L_free" and "counts s v = 0"
  obtains h s1 where "vn_unlink v (list_head s i) s = KOk (h, s1)"
    and "\<And>s' :: ('w, 'a) vstate_scheme. (\<And>x. vnodes s' x = vnodes s1 x) \<Longrightarrow> (\<And>j. list_head s' j = (if j = i then h else list_head s1 j)) \<Longrightarrow> vnodes_ok s'"
    and "\<And>x. counts s1 x = counts s x"
    and "cdir s1 = cdir s" "fd_table s1 = fd_table s" "vnroot s1 = vnroot s" "vfs_table s1 = vfs_table s"
proof -
  obtain ls where ls: "\<And>i. chain (vnx s) (list_head s i) (ls i)" "\<And>i j. i \<noteq> j \<Longrightarrow> set (ls i) \<inter> set (ls j) = {}"
    "\<And>x. x \<in> set (ls L_free) \<Longrightarrow> counts s x = 0" using vnodes_okE [OF assms(1)] by metis
  let ?t = "\<lambda>xs. ls(i := xs)"
  have go: "vnodes_ok s'" if v: "v \<in> set (ls i)" and xs: "set xs \<subseteq> set (ls i)" "v \<notin> set xs"
    and c: "chain nx h xs" and nx: "\<And>x. x \<notin> set (ls i) \<Longrightarrow> nx x = vnx s x"
    and n: "\<And>x. vnx s' x = (if x = v then free_vnodes s else nx x)"
    and hd: "\<And>j. list_head s' j = (if j = i then h else if j = L_free then Some v else list_head s j)"
    and cn: "\<And>x. counts s' x = counts s x" for s' :: "('w, 'a) vstate_scheme" and xs nx h
  proof (rule vnodes_okI [of _ "(?t xs)(L_free := v # ls L_free)"])
    have vf: "v \<notin> set (ls j)" if "j \<noteq> i" for j using ls(2) [OF that] v by auto
    show "chain (vnx s') (list_head s' j) (((?t xs)(L_free := v # ls L_free)) j)" for j
    proof (cases "j = i")
      case True
      then show ?thesis using c xs(2) assms(2) by (subst chain_cong [where nx = nx]) (auto simp: hd n)
    next
      case False
      have e: "vnx s' x = vnx s x" if "x \<in> set (ls j)" for x
        using that vf [OF False] ls(2) [OF False] nx by (auto simp: n)
      have "chain (vnx s') (list_head s j) (ls j)" using ls(1) [of j] e by (subst chain_cong [where nx = "vnx s"]) auto
      with False show ?thesis using ls(1) [of L_free] by (auto simp: hd n)
    qed
    show "set (((?t xs)(L_free := v # ls L_free)) j) \<inter> set (((?t xs)(L_free := v # ls L_free)) j') = {}" if "j \<noteq> j'" for j j'
      using ls(2) [OF that] ls(2) [of i j] ls(2) [of i j'] ls(2) [of j i] ls(2) [of j' i] xs v vf assms(2) that
      by (auto split: if_splits)
    show "counts s' x = 0" if "x \<in> set (((?t xs)(L_free := v # ls L_free)) L_free)" for x
      using that ls(3) assms(3) by (auto simp: cn)
  qed
  show thesis
  proof (cases "v \<in> set (ls i)")
    case False
    have nh: "Some v \<noteq> list_head s i" using ls(1) [of i] False by (cases "ls i") auto
    have "vn_unlink v (list_head s i) s = KOk (list_head s i, s)"
      using nh vn_before_absent [OF ls(1) False] by (simp add: vn_unlink_def)
    then show thesis
    proof (rule that)
      fix s' :: "('w, 'a) vstate_scheme"
      assume e: "\<And>x. vnodes s' x = vnodes s x" "\<And>j. list_head s' j = (if j = i then list_head s i else list_head s j)"
      show "vnodes_ok s'" by (rule vnodes_ok_cong [OF assms(1)]) (simp_all add: e)
    qed simp_all
  next
    case True
    then obtain ys zs where l: "ls i = ys @ v # zs" by (meson split_list)
    have d: "distinct (ls i)" by (rule chain_distinct [OF ls(1)])
    show thesis
    proof (cases ys rule: rev_cases)
      case Nil
      then have h: "list_head s i = Some v" "chain (vnx s) (vnx s v) zs" using ls(1) [of i] l by auto
      have u: "vn_unlink v (list_head s i) s = KOk (vnx s v, vfs_vnode_free v s)" using h by (simp add: vn_unlink_def)
      show thesis
      proof (rule that [OF u])
        fix s' :: "('w, 'a) vstate_scheme"
        assume e: "\<And>x. vnodes s' x = vnodes (vfs_vnode_free v s) x"
          "\<And>j. list_head s' j = (if j = i then vnx s v else list_head (vfs_vnode_free v s) j)"
        show "vnodes_ok s'"
          by (rule go [OF True _ _ h(2)]) (use l d Nil in \<open>auto simp: e\<close>)
      qed simp_all
    next
      case (snoc ws u)
      then have li: "ls i = ws @ u # v # zs" using l by simp
      have nh: "Some v \<noteq> list_head s i" using ls(1) [of i] d unfolding li by (cases ws) auto
      let ?s1 = "vfs_vnode_free v (upd_vnode v (\<lambda>n. n\<lparr>vn_next := None\<rparr>) (upd_vnode u (\<lambda>n. n\<lparr>vn_next := vnx s v\<rparr>) s))"
      have b: "vn_before v (vnx s) (list_head s i) = Some (Some u)" by (rule vn_before_present) (use ls(1) [of i] li in simp)
      have un: "vn_unlink v (list_head s i) s = KOk (list_head s i, ?s1)" using nh b by (simp add: vn_unlink_def Let_def)
      have c: "chain ((vnx s)(u := vnx s v)) (list_head s i) (ws @ u # zs)"
        by (rule chain_unlink) (use ls(1) [of i] li in simp)
      show thesis
      proof (rule that [OF un])
        fix s' :: "('w, 'a) vstate_scheme"
        assume e: "\<And>x. vnodes s' x = vnodes ?s1 x" "\<And>j. list_head s' j = (if j = i then list_head s i else list_head ?s1 j)"
        show "vnodes_ok s'"
          by (rule go [OF True _ _ c]) (use li d in \<open>auto simp: e\<close>)
      qed simp_all
    qed
  qed
qed

end
