(* ===== verification/Vfs.thy ===== *)
theory Vfs
  imports Rfs Fat Kernel
begin

text \<open>
  The file system task, software/system/kernel/vfs.c: path resolution across mounted file systems, the
  descriptors of the processes, and the handlers of all its messages. The handlers are parametric in the
  operations \<open>ops\<close> of the file systems. A path is read from memory as the list of its characters: the
  null byte that \<open>_lookuppn\<close> puts behind an element while it calls \<open>vn_lookup\<close> is only in the list it
  passes on.
\<close>

section \<open>Descriptors\<close>

fun alloc_fd_scan :: "(nat \<Rightarrow> nat option) \<Rightarrow> nat list \<Rightarrow> int" where
  "alloc_fd_scan t [] = - 1"
| "alloc_fd_scan t (n # ns) = (if t n = None then int n else alloc_fd_scan t ns)"

definition vfs_alloc_fd :: "pid \<Rightarrow> ('w, 'a) vstate_scheme \<Rightarrow> int kres" where
  "vfs_alloc_fd p s = entry p (\<lambda>q. KOk (alloc_fd_scan (fd_table s q) [0..<K_PROC_FD_COUNT]))"

definition set_fd :: "pid \<Rightarrow> nat \<Rightarrow> nat option \<Rightarrow> ('w, 'a) vstate_scheme \<Rightarrow> ('w, 'a) vstate_scheme" where
  "set_fd p n v s = s\<lparr>fd_table := (fd_table s)(p := (fd_table s p)(n := v))\<rparr>"

definition vfs_free_fd :: "pid \<Rightarrow> nat \<Rightarrow> ('w, 'a) vstate_scheme \<Rightarrow> ('w, 'a) vstate_scheme" where
  "vfs_free_fd p n s = set_fd p n None s"

text \<open>The descriptor is compared as an unsigned number.\<close>

definition vfs_vnode_from_fd :: "pid \<Rightarrow> u32 \<Rightarrow> ('w, 'a) vstate_scheme \<Rightarrow> nat option kres" where
  "vfs_vnode_from_fd p n s =
     (if unat n < K_PROC_FD_COUNT then entry p (\<lambda>q. KOk (fd_table s q (unat n))) else KOk None)"

section \<open>Paths\<close>

fun skip_slashes :: "u8 list \<Rightarrow> u8 list" where
  "skip_slashes (c # cs) = (if c = 47 then skip_slashes cs else c # cs)"
| "skip_slashes [] = []"

fun trim_slash :: "u8 list \<Rightarrow> u8 list" where
  "trim_slash (c # cs) = (if c \<noteq> 47 then trim_slash cs else skip_slashes (c # cs))"
| "trim_slash [] = []"

fun subpath_count :: "u8 list \<Rightarrow> nat" where
  "subpath_count (c # cs) = (if c \<noteq> 47 then Suc (subpath_count cs) else 0)"
| "subpath_count [] = 0"

definition subpathlen :: "u8 list \<Rightarrow> u16" where
  "subpathlen path = of_nat (subpath_count path)"

text \<open>
  \<open>change_vfs\<close>: when a file system is mounted on \<open>pvn\<close>, its root takes the place of \<open>pvn\<close>; the status
  of \<open>vfs_root\<close> is ignored.
\<close>

definition change_vfs ::
    "(fsid \<Rightarrow> ('w, 'a) vstate_scheme fsops) \<Rightarrow> nat \<Rightarrow> ('w, 'a) vstate_scheme \<Rightarrow> (nat option \<times> ('w, 'a) vstate_scheme) kres" where
  "change_vfs ops pvn s =
     (case v_vfsmountedhere (vnodes s pvn) of
        None \<Rightarrow> KOk (Some pvn, s)
      | Some m \<Rightarrow>
          kbind (vfs_call ops m (\<lambda>f. vfs_root f m (Some pvn) s) s) (\<lambda>(_, ppv, s1).
          kbind (VN_RELE ops pvn s1) (\<lambda>s2. KOk (ppv, s2))))"

lemma skip_slashes_length: "length (skip_slashes nm) \<le> length nm"
  by (induction nm) auto

lemma trim_slash_length: "length (trim_slash nm) \<le> length nm"
proof (induction nm)
  case (Cons c cs)
  then show ?case using skip_slashes_length [of cs] by auto
qed simp

lemma trim_slash_less: "nm \<noteq> [] \<Longrightarrow> length (trim_slash nm) < length nm"
proof (induction nm)
  case (Cons c cs)
  then show ?case using skip_slashes_length [of cs] trim_slash_length [of cs] by auto
qed simp

lemma rest_less: "nm \<noteq> [] \<Longrightarrow> length (trim_slash (drop e nm)) < length nm"
  using trim_slash_less [of nm] trim_slash_length [of "drop e nm"] by (cases e; cases nm) auto

text \<open>
  The loop over the elements of the path; the element \<open>.\<close> is skipped. The results are the return value,
  \<open>*ppv\<close> and the state.
\<close>

function lookup_loop ::
    "(fsid \<Rightarrow> ('w, 'a) vstate_scheme fsops) \<Rightarrow> pid \<Rightarrow> u8 list \<Rightarrow> nat \<Rightarrow> ('w, 'a) vstate_scheme \<Rightarrow> (int \<times> nat option \<times> ('w, 'a) vstate_scheme) kres" where
  "lookup_loop ops p nm pvn s =
     (if nm = [] then kbind (change_vfs ops pvn s) (\<lambda>(ppv, s1). KOk (0, ppv, s1))
      else
        kbind (change_vfs ops pvn s) (\<lambda>(ppv, s1).
        case ppv of None \<Rightarrow> KFault
        | Some pvn1 \<Rightarrow>
            let elen = unat (subpathlen nm); rest = trim_slash (drop elen nm) in
            if elen > 1 \<or> hd nm \<noteq> 46 then
              kbind (vn_call ops pvn1 (\<lambda>f. vn_lookup f pvn1 (take elen nm @ [0]) (Some pvn1) p s1) s1) (\<lambda>(ret, ppv2, s2).
              kbind (VN_RELE ops pvn1 s2) (\<lambda>s3.
              if ret \<noteq> 0 then KOk (ret, ppv2, s3)
              else case ppv2 of None \<Rightarrow> KFault
                | Some pvn2 \<Rightarrow> lookup_loop ops p rest pvn2 s3))
            else lookup_loop ops p rest pvn1 s1))"
  by pat_completeness auto
termination
  by (relation "measure (\<lambda>(_, _, nm, _, _). length nm)") (auto simp: rest_less)

declare lookup_loop.simps [simp del]

text \<open>\<open>_lookuppn\<close>: an absolute path starts at the root, a relative one at the current directory if there is one.\<close>

definition lookuppn ::
    "(fsid \<Rightarrow> ('w, 'a) vstate_scheme fsops) \<Rightarrow> u8 list \<Rightarrow> nat option \<Rightarrow> pid \<Rightarrow> ('w, 'a) vstate_scheme \<Rightarrow> (int \<times> nat option \<times> ('w, 'a) vstate_scheme) kres" where
  "lookuppn ops nm ppv p s =
     (let abs = (nm \<noteq> [] \<and> hd nm = 47) in
      kbind (if abs then KOk (vnroot s)
             else entry p (\<lambda>q. KOk (case cdir s q of None \<Rightarrow> vnroot s | Some v \<Rightarrow> Some v))) (\<lambda>start.
      case start of
        None \<Rightarrow> KOk (- ENOENT, ppv, s)
      | Some pvn \<Rightarrow> lookup_loop ops p (if abs then trim_slash nm else nm) pvn (VN_HOLD pvn s)))"

end
