(* ===== verification/VfsTask.thy ===== *)
theory VfsTask
  imports Vfs
begin

text \<open>
  The handlers of the file system task, software/system/kernel/vfs.c. A handler computes the answer;
  \<open>vfs_serve\<close> sends it. \<open>ANS_ANY\<close> is an answer whose contents the code leaves as they are, \<open>ANS_NONE\<close> no
  answer at all.
\<close>

datatype vfs_answer = ANS int | ANS_ANY | ANS_NONE

text \<open>
  Addresses: the message buffer, the local \<open>resp\<close>, the mount table; and what the two local variables of
  \<open>_vfs_mount\<close> that are used without being set may hold.
\<close>

record vfs_env =
  vfs_msg :: u32
  vfs_resp :: u32
  vfs_addr :: "nat \<Rightarrow> u32"
  junk_pvn_at :: u32
  junk_rdev :: u16

section \<open>OPEN, CLOSE\<close>

definition vfs_open ::
    "(fsid \<Rightarrow> ('w, 'a) vstate_scheme fsops) \<Rightarrow> pid \<Rightarrow> u32 \<Rightarrow> u16 \<Rightarrow> u32 \<Rightarrow> ('w, 'a) vstate_scheme \<Rightarrow> (vfs_answer \<times> ('w, 'a) vstate_scheme) kres" where
  "vfs_open ops p path_va len fl s =
     kbind (va_to_pa p path_va (scast len) s) (\<lambda>path.
     if len = 0 then KOk (ANS (- ENOENT), s)
     else if path = 0 then KOk (ANS (- EFAULT), s)
     else if ram s (path + scast len) \<noteq> 0 then KOk (ANS (- EINVAL), s)
     else case ram_str (ram s) path of None \<Rightarrow> KHang
     | Some nm \<Rightarrow>
         kbind (lookuppn ops nm None p s) (\<lambda>(r, ppv, s1).
         if r \<noteq> 0 then KOk (ANS r, s1)
         else case ppv of None \<Rightarrow> KFault
         | Some pvn \<Rightarrow>
             kbind (vfs_alloc_fd p s1) (\<lambda>n.
             if n < 0 then kbind (VN_RELE ops pvn s1) (\<lambda>s2. KOk (ANS (- EMFILE), s2))
             else
               kbind (vn_call ops pvn (\<lambda>f. vn_open f pvn fl p s1) s1) (\<lambda>(r', s2).
               if r' \<noteq> 0 then kbind (VN_RELE ops pvn s2) (\<lambda>s3. KOk (ANS r', vfs_free_fd p (nat n) s3))
               else KOk (ANS n, set_fd p (nat n) (Some pvn) s2)))))"

definition vfs_close ::
    "(fsid \<Rightarrow> ('w, 'a) vstate_scheme fsops) \<Rightarrow> pid \<Rightarrow> u32 \<Rightarrow> ('w, 'a) vstate_scheme \<Rightarrow> (vfs_answer \<times> ('w, 'a) vstate_scheme) kres" where
  "vfs_close ops p n s =
     kbind (vfs_vnode_from_fd p n s) (\<lambda>pv.
     case pv of None \<Rightarrow> KOk (ANS (- EBADF), s)
     | Some pvn \<Rightarrow>
         kbind (vn_call ops pvn (\<lambda>f. vn_close f pvn p s) s) (\<lambda>(r, s1).
         kbind (VN_RELE ops pvn s1) (\<lambda>s2. KOk (ANS r, vfs_free_fd p (unat n) s2))))"

section \<open>READ, WRITE, GETDENTS, LSEEK, IOCTL\<close>

definition limit :: "u32 \<Rightarrow> u32 \<Rightarrow> u32" where
  "limit m cnt = (if cnt > m then m else cnt)"

definition vfs_getdents ::
    "(fsid \<Rightarrow> ('w, 'a) vstate_scheme fsops) \<Rightarrow> pid \<Rightarrow> u32 \<Rightarrow> u32 \<Rightarrow> u32 \<Rightarrow> ('w, 'a) vstate_scheme \<Rightarrow> (vfs_answer \<times> ('w, 'a) vstate_scheme) kres" where
  "vfs_getdents ops p n dp cnt0 s =
     (let cnt = limit K_MAX_DIRENT_LEN cnt0 in
      kbind (va_to_pa p dp cnt s) (\<lambda>b.
      if b = 0 then KOk (ANS (- EACCES), s)
      else
        kbind (vfs_vnode_from_fd p n s) (\<lambda>pv.
        case pv of None \<Rightarrow> KOk (ANS (- EBADF), s)
        | Some pvn \<Rightarrow>
            if v_type (vnodes s pvn) \<noteq> VDIR then KOk (ANS (- ENOTDIR), s)
            else kbind (vn_call ops pvn (\<lambda>f. vn_getdents f pvn b cnt p s) s) (\<lambda>(r, s1). KOk (ANS r, s1)))))"

definition vfs_read ::
    "(fsid \<Rightarrow> ('w, 'a) vstate_scheme fsops) \<Rightarrow> pid \<Rightarrow> u32 \<Rightarrow> u32 \<Rightarrow> u32 \<Rightarrow> ('w, 'a) vstate_scheme \<Rightarrow> (vfs_answer \<times> ('w, 'a) vstate_scheme) kres" where
  "vfs_read ops p n buf_va cnt0 s =
     (let cnt = limit K_MAX_READWRITE_LEN cnt0 in
      kbind (va_to_pa p buf_va cnt s) (\<lambda>b.
      if b = 0 then KOk (ANS (- EACCES), s)
      else
        kbind (vfs_vnode_from_fd p n s) (\<lambda>pv.
        case pv of None \<Rightarrow> KOk (ANS (- EBADF), s)
        | Some pvn \<Rightarrow>
            if v_type (vnodes s pvn) = VDIR then KOk (ANS (- EISDIR), s)
            else kbind (vn_call ops pvn (\<lambda>f. vn_read f pvn b cnt p s) s) (\<lambda>(r, s1). KOk (ANS r, s1)))))"

definition vfs_write ::
    "(fsid \<Rightarrow> ('w, 'a) vstate_scheme fsops) \<Rightarrow> pid \<Rightarrow> u32 \<Rightarrow> u32 \<Rightarrow> u32 \<Rightarrow> ('w, 'a) vstate_scheme \<Rightarrow> (vfs_answer \<times> ('w, 'a) vstate_scheme) kres" where
  "vfs_write ops p n buf_va cnt0 s =
     (let cnt = limit K_MAX_READWRITE_LEN cnt0 in
      kbind (va_to_pa p buf_va cnt s) (\<lambda>b.
      if b = 0 then KOk (ANS (- EACCES), s)
      else
        kbind (vfs_vnode_from_fd p n s) (\<lambda>pv.
        case pv of None \<Rightarrow> KOk (ANS (- EBADF), s)
        | Some pvn \<Rightarrow>
            if v_type (vnodes s pvn) = VDIR then KOk (ANS (- EISDIR), s)
            else kbind (vn_call ops pvn (\<lambda>f. vn_write f pvn b cnt p s) s) (\<lambda>(r, s1). KOk (ANS r, s1)))))"

definition vfs_lseek ::
    "(fsid \<Rightarrow> ('w, 'a) vstate_scheme fsops) \<Rightarrow> pid \<Rightarrow> u32 \<Rightarrow> u32 \<Rightarrow> u32 \<Rightarrow> ('w, 'a) vstate_scheme \<Rightarrow> (vfs_answer \<times> ('w, 'a) vstate_scheme) kres" where
  "vfs_lseek ops p n off wh s =
     kbind (vfs_vnode_from_fd p n s) (\<lambda>pv.
     case pv of None \<Rightarrow> KOk (ANS (- EBADF), s)
     | Some pvn \<Rightarrow> kbind (vn_call ops pvn (\<lambda>f. vn_lseek f pvn off wh s) s) (\<lambda>(r, s1). KOk (ANS r, s1)))"

definition vfs_ioctl ::
    "(fsid \<Rightarrow> ('w, 'a) vstate_scheme fsops) \<Rightarrow> pid \<Rightarrow> u32 \<Rightarrow> u32 \<Rightarrow> u32 \<Rightarrow> ('w, 'a) vstate_scheme \<Rightarrow> (vfs_answer \<times> ('w, 'a) vstate_scheme) kres" where
  "vfs_ioctl ops p n req ptr s =
     kbind (vfs_vnode_from_fd p n s) (\<lambda>pv.
     case pv of None \<Rightarrow> KOk (ANS (- EBADF), s)
     | Some pvn \<Rightarrow> kbind (vn_call ops pvn (\<lambda>f. vn_ioctl f pvn req ptr p s) s) (\<lambda>(r, s1). KOk (ANS r, s1)))"

section \<open>CHDIR, MKDIR\<close>

text \<open>The old current directory is overwritten, not released.\<close>

definition vfs_chdir ::
    "(fsid \<Rightarrow> ('w, 'a) vstate_scheme fsops) \<Rightarrow> pid \<Rightarrow> u32 \<Rightarrow> u16 \<Rightarrow> ('w, 'a) vstate_scheme \<Rightarrow> (vfs_answer \<times> ('w, 'a) vstate_scheme) kres" where
  "vfs_chdir ops p path_va len s =
     (if len = 0 \<or> unat len > K_MAX_DIRNAME_LEN then KOk (ANS (- EINVAL), s)
      else
        kbind (va_to_pa p path_va (ucast len) s) (\<lambda>path.
        if path = 0 then KOk (ANS (- EFAULT), s)
        else if ram s (path + (ucast len - 1)) \<noteq> 0 then KOk (ANS (- EINVAL), s)
        else case ram_str (ram s) path of None \<Rightarrow> KHang
        | Some nm \<Rightarrow>
            kbind (lookuppn ops nm None p s) (\<lambda>(r, ppv, s1).
            if r \<noteq> 0 then KOk (ANS r, s1)
            else case ppv of None \<Rightarrow> KFault
            | Some pvn \<Rightarrow>
                if v_type (vnodes s1 pvn) \<noteq> VDIR then kbind (VN_RELE ops pvn s1) (\<lambda>s2. KOk (ANS (- ENOTDIR), s2))
                else KOk (ANS 0, s1\<lparr>cdir := (cdir s1)(p := Some pvn)\<rparr>))))"

text \<open>
  \<open>strncpy(path, pa_path, n); path[n] = 0\<close> on the local array of \<open>K_MAX_DIRNAME_LEN + 1\<close> bytes;
  \<open>strncpy\<close> fills up with null bytes, so that a larger \<open>n\<close> always leaves the array.
\<close>

definition copy_path :: "ram \<Rightarrow> u32 \<Rightarrow> nat \<Rightarrow> u8 list option" where
  "copy_path r a n =
     (if n > K_MAX_DIRNAME_LEN then None
      else map_option (\<lambda>x. x[n := 0]) (strncpy (replicate (K_MAX_DIRNAME_LEN + 1) 0) (map (\<lambda>i. r (a + of_nat i)) [0..<n]) n))"

fun strip_tail :: "u8 list \<Rightarrow> nat \<Rightarrow> u8 list \<times> nat" where
  "strip_tail path 0 = (path, 0)"
| "strip_tail path (Suc n) = (if path ! Suc n = 47 then strip_tail (path[Suc n := 0]) n else (path, Suc n))"

fun base_start :: "u8 list \<Rightarrow> nat \<Rightarrow> nat" where
  "base_start path 0 = 0"
| "base_start path (Suc n) = (if path ! Suc n \<noteq> 47 then base_start path n else Suc n)"

definition array_str :: "u8 list \<Rightarrow> u8 list" where
  "array_str path = takeWhile (\<lambda>c. c \<noteq> 0) path"

text \<open>The directory \<open>dirname\<close> is there: \<open>len1\<close> is the length without trailing slashes.\<close>

definition mkdir_in ::
    "(fsid \<Rightarrow> ('w, 'a) vstate_scheme fsops) \<Rightarrow> pid \<Rightarrow> u32 \<Rightarrow> nat \<Rightarrow> nat \<Rightarrow> ('w, 'a) vstate_scheme \<Rightarrow> (vfs_answer \<times> ('w, 'a) vstate_scheme) kres" where
  "mkdir_in ops p pa_path len1 pvn s =
     (if v_type (vnodes s pvn) \<noteq> VDIR then kbind (VN_RELE ops pvn s) (\<lambda>s2. KOk (ANS (- ENOTDIR), s2))
      else case copy_path (ram s) pa_path len1 of
        None \<Rightarrow> KFault
      | Some path \<Rightarrow>
          let b = base_start path (len1 - 1); b1 = (if path ! b = 47 then b + 1 else b) in
          kbind (vn_call ops pvn (\<lambda>f. vn_mkdir f pvn (drop b1 path) p s) s) (\<lambda>(r, s2).
          kbind (VN_RELE ops pvn s2) (\<lambda>s3. KOk (ANS r, s3))))"

definition vfs_mkdir ::
    "(fsid \<Rightarrow> ('w, 'a) vstate_scheme fsops) \<Rightarrow> pid \<Rightarrow> u32 \<Rightarrow> u16 \<Rightarrow> ('w, 'a) vstate_scheme \<Rightarrow> (vfs_answer \<times> ('w, 'a) vstate_scheme) kres" where
  "vfs_mkdir ops p path_va len s =
     (if len = 0 then KOk (ANS (- ENOENT), s)
      else if sint len > int K_MAX_DIRNAME_LEN then KOk (ANS (- ENAMETOOLONG), s)
      else
        kbind (va_to_pa p path_va (ucast len + 1) s) (\<lambda>pa_path.
        if pa_path = 0 then KOk (ANS (- EFAULT), s)
        else case copy_path (ram s) pa_path (unat (scast len :: u32)) of
          None \<Rightarrow> KFault
        | Some path \<Rightarrow>
            let (path1, ptr) = strip_tail path (unat len - 1) in
            if ptr = 0 then KOk (ANS (- ENOENT), s)
            else
              let b = base_start path1 ptr; path2 = (if b \<noteq> 0 then path1[b := 0] else path1[0 := 47, 1 := 0]) in
              kbind (lookuppn ops (array_str path2) None p s) (\<lambda>(r, ppv, s1).
              if r \<noteq> 0 then KOk (ANS r, s1)
              else (case ppv of None \<Rightarrow> KFault | Some pvn \<Rightarrow> mkdir_in ops p pa_path (ptr + 1) pvn s1))))"

section \<open>MOUNT\<close>

text \<open>\<open>_vfs_fs_types\<close>; the last match counts.\<close>

definition vfs_fs_types :: "(u8 list \<times> fsid) list" where
  "vfs_fs_types = [([100, 101, 118, 102, 115, 0], FS_devfs), ([114, 102, 115, 0], FS_rfs), ([102, 97, 116, 0], FS_fat)]"

fun find_fs_type :: "u8 list \<Rightarrow> fsid option \<Rightarrow> (u8 list \<times> fsid) list \<Rightarrow> fsid option" where
  "find_fs_type ty acc [] = acc"
| "find_fs_type ty acc ((nm, f) # fs) = find_fs_type ty (if strcmp ty nm = Some 0 then Some f else acc) fs"

text \<open>
  The device: kernel tasks name a registered device (or none), other processes give the path of a
  special file. \<open>Inl\<close> is the error that ends the request, \<open>Inr\<close> the device and the value \<open>resp\<close> then has.
\<close>

definition mount_device ::
    "vfs_env \<Rightarrow> (fsid \<Rightarrow> ('w, 'a) vstate_scheme fsops) \<Rightarrow> pid \<Rightarrow> bool \<Rightarrow> u8 list \<Rightarrow> int \<Rightarrow> ('w, 'a) vstate_scheme \<Rightarrow>
     ((int + (u16 \<times> int)) \<times> ('w, 'a) vstate_scheme) kres" where
  "mount_device e ops p by_kernel dv resp s =
     (if by_kernel then
        kbind (dev_get (dv @ [0]) (dev_list s)) (\<lambda>pdev.
        KOk (Inr (case pdev of None \<Rightarrow> 0 | Some i \<Rightarrow> dev_id (dev_list s ! i), resp), s))
      else
        kbind (lookuppn ops dv None p s) (\<lambda>(r, ppv, s1).
        if r \<noteq> 0 then KOk (Inl (- EACCES), s1)
        else case ppv of
          None \<Rightarrow> KFault
        | Some v \<Rightarrow>
            if v_type (vnodes s1 v) \<noteq> VBLK then KOk (Inl (- ENOTBLK), s1)
            else kbind (vn_call ops v (\<lambda>f. vn_getattr f v s1) s1) (\<lambda>(a, s2).
              KOk (Inr (case a of None \<Rightarrow> junk_rdev e | Some d \<Rightarrow> d, r), s2))))"

definition mount_unmount ::
    "(fsid \<Rightarrow> ('w, 'a) vstate_scheme fsops) \<Rightarrow> nat \<Rightarrow> int \<Rightarrow> ('w, 'a) vstate_scheme \<Rightarrow> (vfs_answer \<times> ('w, 'a) vstate_scheme) kres" where
  "mount_unmount ops m r s = kbind (vfs_call ops m (\<lambda>f. vfs_unmount f m s) s) (\<lambda>(_, s1). KOk (ANS r, s1))"

text \<open>The list of mounted file systems gets the new one.\<close>

definition mount_link :: "nat \<Rightarrow> ('w, 'a) vstate_scheme \<Rightarrow> ('w, 'a) vstate_scheme" where
  "mount_link m s =
     (let s1 = s\<lparr>free_vfs := (case free_vfs s of None \<Rightarrow> None | Some f \<Rightarrow> vfs_next (vfs_table s f))\<rparr>
      in (upd_vfs m (\<lambda>f. f\<lparr>vfs_next := used_vfs s\<rparr>) s1)\<lparr>used_vfs := Some m\<rparr>)"

text \<open>
  Where the file system goes. For the root directory \<open>pvn_at\<close> is never set: the store into
  \<open>pvn_at->v_vfsmountedhere\<close> (offset 6) goes to an arbitrary address.
\<close>

definition mount_at ::
    "vfs_env \<Rightarrow> (fsid \<Rightarrow> ('w, 'a) vstate_scheme fsops) \<Rightarrow> pid \<Rightarrow> nat \<Rightarrow> nat \<Rightarrow> u8 list \<Rightarrow> int \<Rightarrow> ('w, 'a) vstate_scheme \<Rightarrow>
     (vfs_answer \<times> ('w, 'a) vstate_scheme) kres" where
  "mount_at e ops p m rt path resp s =
     (if path = [47] then
        if used_vfs s \<noteq> None then kbind (VN_RELE ops rt s) (\<lambda>s1. mount_unmount ops m (- EBUSY) s1)
        else
          let s1 = (upd_vfs m (\<lambda>f. f\<lparr>vfs_vnodecovered := None\<rparr>) s)\<lparr>vnroot := Some rt\<rparr>
          in KOk (ANS resp, mount_link m (s1\<lparr>ram := store32 (ram s1) (junk_pvn_at e + 6) (vfs_addr e m)\<rparr>))
      else
        kbind (lookuppn ops path None p s) (\<lambda>(r, ppv, s1).
        if r \<noteq> 0 then kbind (VN_RELE ops rt s1) (\<lambda>s2. mount_unmount ops m (- EACCES) s2)
        else case ppv of
          None \<Rightarrow> KFault
        | Some v \<Rightarrow>
            if v_type (vnodes s1 v) \<noteq> VDIR then
              kbind (VN_RELE ops rt s1) (\<lambda>s2. kbind (VN_RELE ops v s2) (\<lambda>s3. mount_unmount ops m (- ENOTDIR) s3))
            else
              KOk (ANS r, mount_link m (upd_vnode v (\<lambda>n. n\<lparr>v_vfsmountedhere := Some m\<rparr>)
                (upd_vfs m (\<lambda>f. f\<lparr>vfs_vnodecovered := Some v\<rparr>) s1)))))"

definition mount_fs ::
    "vfs_env \<Rightarrow> (fsid \<Rightarrow> ('w, 'a) vstate_scheme fsops) \<Rightarrow> pid \<Rightarrow> bool \<Rightarrow> int \<Rightarrow> u8 list \<Rightarrow> u8 list \<Rightarrow> u8 list \<Rightarrow> ('w, 'a) vstate_scheme \<Rightarrow>
     (vfs_answer \<times> ('w, 'a) vstate_scheme) kres" where
  "mount_fs e ops p by_kernel resp dv path ty s =
     (case free_vfs s of
        None \<Rightarrow> KOk (ANS (- ENOMEM), s)
      | Some m \<Rightarrow>
          kbind (mount_device e ops p by_kernel dv resp s) (\<lambda>(x, s1).
          case x of
            Inl err \<Rightarrow> KOk (ANS err, s1)
          | Inr (d, resp1) \<Rightarrow>
              (case find_fs_type (ty @ [0]) None vfs_fs_types of
                 None \<Rightarrow> KOk (ANS (- ENODEV), s1)
               | Some fs \<Rightarrow>
                   kbind (vfs_mount (ops fs) m d s1) (\<lambda>(r, s2).
                   if r \<noteq> 0 then KOk (ANS (- EINVAL), s2)
                   else
                     kbind (vfs_call ops m (\<lambda>f. vfs_root f m None s2) s2) (\<lambda>(_, rt, s3).
                     case rt of
                       None \<Rightarrow> mount_unmount ops m (- EINVAL) s3
                     | Some v \<Rightarrow> mount_at e ops p m v path resp1 s3)))))"

text \<open>The value for a caller without permission is set, but the request goes on.\<close>

definition vfs_mount_msg ::
    "vfs_env \<Rightarrow> (fsid \<Rightarrow> ('w, 'a) vstate_scheme fsops) \<Rightarrow> pid \<Rightarrow> u32 \<Rightarrow> u32 \<Rightarrow> u32 \<Rightarrow> ('w, 'a) vstate_scheme \<Rightarrow> (vfs_answer \<times> ('w, 'a) vstate_scheme) kres" where
  "vfs_mount_msg e ops p dev_va path_va type_va s =
     kbind (proc_get_uid p s) (\<lambda>u.
     let resp = (if u \<noteq> PROC_UID_KERNEL \<and> u \<noteq> PROC_UID_ROOT then - EPERM else 0) in
     kbind (va_to_pa_str p path_va (of_nat K_MAX_DIRNAME_LEN) s) (\<lambda>path_to.
     kbind (va_to_pa_str p type_va 8 s) (\<lambda>ty.
     kbind (va_to_pa_str p dev_va (of_nat K_MAX_DIRNAME_LEN) s) (\<lambda>dv.
     if path_to = 0 \<or> ty = 0 \<or> dv = 0 then KOk (ANS (- EFAULT), s)
     else case (ram_str (ram s) dv, ram_str (ram s) path_to, ram_str (ram s) ty) of
       (Some d, Some pt, Some t) \<Rightarrow> mount_fs e ops p (u = PROC_UID_KERNEL) resp d pt t s
     | _ \<Rightarrow> KHang))))"

section \<open>Requests of the system task: FORK, KILL, SYSDIR\<close>

fun hold_all :: "nat option list \<Rightarrow> ('w, 'a) vstate_scheme \<Rightarrow> ('w, 'a) vstate_scheme" where
  "hold_all [] s = s"
| "hold_all (None # vs) s = hold_all vs s"
| "hold_all (Some v # vs) s = hold_all vs (VN_HOLD v s)"

definition vfs_fork :: "pid \<Rightarrow> pid \<Rightarrow> pid \<Rightarrow> ('w, 'a) vstate_scheme \<Rightarrow> (vfs_answer \<times> ('w, 'a) vstate_scheme) kres" where
  "vfs_fork p pp child s =
     kbind (proc_get_uid p s) (\<lambda>u.
     if u = PROC_UID_KERNEL then
       entry child (\<lambda>c. entry pp (\<lambda>q.
       let s1 = s\<lparr>cdir := (cdir s)(c := cdir s q), fd_table := (fd_table s)(c := fd_table s q)\<rparr>;
           s2 = hold_all (map (fd_table s1 q) [0..<K_PROC_FD_COUNT]) s1;
           s3 = (case cdir s2 c of None \<Rightarrow> s2 | Some v \<Rightarrow> VN_HOLD v s2)
       in KOk (ANS_ANY, s3)))
     else KOk (ANS_NONE, s))"

fun close_fds :: "(fsid \<Rightarrow> ('w, 'a) vstate_scheme fsops) \<Rightarrow> pid \<Rightarrow> nat list \<Rightarrow> ('w, 'a) vstate_scheme \<Rightarrow> ('w, 'a) vstate_scheme kres" where
  "close_fds ops p [] s = KOk s"
| "close_fds ops p (n # ns) s =
     kbind (vfs_vnode_from_fd p (of_nat n) s) (\<lambda>pv.
     case pv of
       None \<Rightarrow> close_fds ops p ns s
     | Some pvn \<Rightarrow>
         kbind (vn_call ops pvn (\<lambda>f. vn_close f pvn p s) s) (\<lambda>(_, s1).
         kbind (VN_RELE ops pvn s1) (\<lambda>s2. close_fds ops p ns (vfs_free_fd p n s2))))"

definition vfs_kill ::
    "(fsid \<Rightarrow> ('w, 'a) vstate_scheme fsops) \<Rightarrow> pid \<Rightarrow> pid \<Rightarrow> ('w, 'a) vstate_scheme \<Rightarrow> (vfs_answer \<times> ('w, 'a) vstate_scheme) kres" where
  "vfs_kill ops p victim s =
     (if p = PROC_PID_SYSTEM_TASK then
        kbind (close_fds ops victim [0..<K_PROC_FD_COUNT] s) (\<lambda>s1.
        entry victim (\<lambda>q.
        case cdir s1 q of
          None \<Rightarrow> KOk (ANS_ANY, s1)
        | Some v \<Rightarrow> kbind (VN_RELE ops v s1) (\<lambda>s2. KOk (ANS_ANY, s2\<lparr>cdir := (cdir s2)(q := None)\<rparr>))))
      else KOk (ANS_ANY, s))"

definition vfs_sysdir ::
    "(fsid \<Rightarrow> ('w, 'a) vstate_scheme fsops) \<Rightarrow> pid \<Rightarrow> pid \<Rightarrow> ('w, 'a) vstate_scheme \<Rightarrow> (vfs_answer \<times> ('w, 'a) vstate_scheme) kres" where
  "vfs_sysdir ops src p s =
     (if src = PROC_PID_SYSTEM_TASK then
        (if p \<noteq> PROC_PID_SYSTEM_TASK then
           entry p (\<lambda>q.
           let s1 = s\<lparr>cdir := (cdir s)(0 := cdir s q)\<rparr> in
           KOk (ANS 0, case cdir s1 0 of None \<Rightarrow> s1 | Some v \<Rightarrow> VN_HOLD v s1))
         else case cdir s 0 of
             None \<Rightarrow> KOk (ANS 0, s)
           | Some v \<Rightarrow> kbind (VN_RELE ops v s) (\<lambda>s1. KOk (ANS 0, s1\<lparr>cdir := (cdir s1)(0 := None)\<rparr>)))
      else KOk (ANS 0, s))"

section \<open>The main loop\<close>

text \<open>
  The handlers by message type (MOUNT, OPEN, GETDENTS, CLOSE, READ, WRITE, LSEEK, FORK, CHDIR, IOCTL, MKDIR,
  KILL, SYSDIR), with the fields of the message; other types get no answer.
\<close>

definition vfs_dispatch ::
    "vfs_env \<Rightarrow> (fsid \<Rightarrow> ('w, 'a) vstate_scheme fsops) \<Rightarrow> pid \<Rightarrow> ('w, 'a) vstate_scheme \<Rightarrow> (vfs_answer \<times> ('w, 'a) vstate_scheme) kres" where
  "vfs_dispatch e ops p s =
     (let ty = load16 (ram s) (vfs_msg e); b = vfs_msg e + 4;
          w0 = load32 (ram s) b; w1 = load32 (ram s) (b + 4); w2 = load32 (ram s) (b + 8); h4 = load16 (ram s) (b + 4)
      in if ty = 0x101 then vfs_mount_msg e ops p w0 w1 w2 s
         else if ty = 0x102 then vfs_open ops p w0 h4 (ucast (load16 (ram s) (b + 6))) s
         else if ty = 0x103 then vfs_getdents ops p w0 w1 w2 s
         else if ty = 0x104 then vfs_close ops p w0 s
         else if ty = 0x105 then vfs_read ops p w0 w1 w2 s
         else if ty = 0x106 then vfs_write ops p w0 w1 w2 s
         else if ty = 0x107 then vfs_lseek ops p w0 w1 w2 s
         else if ty = 0x108 then vfs_fork p (sint (load16 (ram s) b)) (sint (load16 (ram s) (b + 2))) s
         else if ty = 0x109 then vfs_chdir ops p w0 h4 s
         else if ty = 0x110 then vfs_ioctl ops p w0 w1 w2 s
         else if ty = 0x112 then vfs_mkdir ops p w0 h4 s
         else if ty = 0x113 then vfs_kill ops p (sint (ucast w0 :: u16)) s
         else if ty = 0x114 then vfs_sysdir ops p (sint (ucast w0 :: u16)) s
         else KOk (ANS_NONE, s))"

definition vfs_reply :: "vfs_env \<Rightarrow> pid \<Rightarrow> vfs_answer \<Rightarrow> ('w, 'a) vstate_scheme \<Rightarrow> (sr_result \<times> ('w, 'a) vstate_scheme) kres" where
  "vfs_reply e p a s =
     (case a of
        ANS r \<Rightarrow> sendreceive p (vfs_resp e) O_SEND (s\<lparr>ram := store32 (ram s) (vfs_resp e + 4) (word_of_int r)\<rparr>)
      | ANS_ANY \<Rightarrow> sendreceive p (vfs_resp e) O_SEND s
      | ANS_NONE \<Rightarrow> KOk (SR_return 0, s))"

definition vfs_serve ::
    "vfs_env \<Rightarrow> (fsid \<Rightarrow> ('w, 'a) vstate_scheme fsops) \<Rightarrow> pid \<Rightarrow> ('w, 'a) vstate_scheme \<Rightarrow> (sr_result \<times> ('w, 'a) vstate_scheme) kres" where
  "vfs_serve e ops p s = kbind (vfs_dispatch e ops p s) (\<lambda>(a, s1). vfs_reply e p a s1)"

text \<open>One turn of the loop; when the receive yields, \<open>vfs_resume\<close> goes on with the task \<open>me\<close> running again.\<close>

definition vfs_turn ::
    "vfs_env \<Rightarrow> (fsid \<Rightarrow> ('w, 'a) vstate_scheme fsops) \<Rightarrow> ('w, 'a) vstate_scheme \<Rightarrow> (sr_result \<times> ('w, 'a) vstate_scheme) kres" where
  "vfs_turn e ops s =
     kbind (sendreceive PROC_PID_ANY (vfs_msg e) O_RECV s) (\<lambda>(r, s1).
     case r of SR_return p \<Rightarrow> vfs_serve e ops p s1 | _ \<Rightarrow> KOk (r, s1))"

definition vfs_resume ::
    "vfs_env \<Rightarrow> (fsid \<Rightarrow> ('w, 'a) vstate_scheme fsops) \<Rightarrow> pid \<Rightarrow> ('w, 'a) vstate_scheme \<Rightarrow> (sr_result \<times> ('w, 'a) vstate_scheme) kres" where
  "vfs_resume e ops me s = vfs_serve e ops (sr_resume O_RECV (desc s me)) s"

text \<open>
  The file systems of the kernel. The addresses are those of their buffers: command and answer of the
  remote file system; vnode buffers, boot record and directory entry of the FAT file system.
\<close>

definition fs_table ::
    "'w dexchange \<Rightarrow> u32 \<Rightarrow> u32 \<Rightarrow> (nat \<Rightarrow> u32) \<Rightarrow> u32 \<Rightarrow> u32 \<Rightarrow> fsid \<Rightarrow> ('w, 'a) vstate_scheme fsops" where
  "fs_table dx cb ab fb sb de fs = (case fs of FS_devfs \<Rightarrow> devfs_ops dx | FS_rfs \<Rightarrow> rfs_ops dx cb ab | FS_fat \<Rightarrow> fat_ops dx fb sb de)"

end
