(* ===== verification/FsLaws.thy ===== *)
theory FsLaws
  imports VnodeProps VfsTask
begin

text \<open>
  The contract between the file system task and a file system, as a locale: what each operation of
  \<open>vfsops\<close> and \<open>vnodeops\<close> may do to the reference counts and to the lists of vnodes. The device file
  system and the remote file system are its instances.
\<close>

section \<open>The contract\<close>

text \<open>A root directory that a file system holds itself is in use.\<close>

definition roots_held :: "('w, 'a) vstate_scheme \<Rightarrow> bool" where
  "roots_held s \<longleftrightarrow> (\<forall>m v. roots s m = Some v \<longrightarrow> counts s v \<noteq> 0)"

text \<open>
  A successful mount may take a vnode without references for its root directory, which the file system
  then finds in its own data; or hold its root directory once for itself.
\<close>

definition new_root :: "nat \<Rightarrow> ('w, 'a) vstate_scheme \<Rightarrow> ('w, 'a) vstate_scheme \<Rightarrow> bool" where
  "new_root m s s' \<longleftrightarrow> cdir s' = cdir s \<and> fd_table s' = fd_table s \<and> vnroot s' = vnroot s \<and> vnodes_ok s' \<and>
     (\<exists>w. counts s w = 0 \<and> (\<forall>v. counts s' v = plus_ref w (counts s) v) \<and> (\<forall>k. roots s' k = (if k = m then Some w else roots s k)))"

text \<open>A vnode is returned with a new reference.\<close>

definition gives :: "nat option \<Rightarrow> ('w, 'a) vstate_scheme \<Rightarrow> ('w, 'a) vstate_scheme \<Rightarrow> bool" where
  "gives ppv s s' \<longleftrightarrow> (\<exists>w. ppv = Some w \<and> effect (plus_ref w (counts s)) s s')"

locale file_system =
  fixes f :: "('w, 'a) vstate_scheme fsops"
  assumes mount_law: "vnodes_ok s \<Longrightarrow> vfs_mount f m d s = KOk (r, s') \<Longrightarrow> keeps s s' \<or> new_root m s s' \<or> (\<exists>w. gives (Some w) s s')"
    and unmount_law: "vnodes_ok s \<Longrightarrow> vfs_unmount f m s = KOk (r, s') \<Longrightarrow> keeps s s'"
    and root_law: "vnodes_ok s \<Longrightarrow> roots_held s \<Longrightarrow> vfs_root f m ppv s = KOk (r, ppv', s') \<Longrightarrow>
      gives ppv' s s' \<or> ppv' = None \<and> keeps s s'"
    and open_law: "vnodes_ok s \<Longrightarrow> vn_open f v fl p s = KOk (r, s') \<Longrightarrow> keeps s s'"
    and close_law: "vnodes_ok s \<Longrightarrow> vn_close f v p s = KOk (r, s') \<Longrightarrow> keeps s s'"
    and read_law: "vnodes_ok s \<Longrightarrow> vn_read f v b n p s = KOk (r, s') \<Longrightarrow> keeps s s'"
    and write_law: "vnodes_ok s \<Longrightarrow> vn_write f v b n p s = KOk (r, s') \<Longrightarrow> keeps s s'"
    and lseek_law: "vnodes_ok s \<Longrightarrow> vn_lseek f v off wh s = KOk (r, s') \<Longrightarrow> keeps s s'"
    and ioctl_law: "vnodes_ok s \<Longrightarrow> vn_ioctl f v req ptr p s = KOk (r, s') \<Longrightarrow> keeps s s'"
    and getattr_law: "vnodes_ok s \<Longrightarrow> vn_getattr f v s = KOk (a, s') \<Longrightarrow> keeps s s'"
    and mkdir_law: "vnodes_ok s \<Longrightarrow> vn_mkdir f v nm p s = KOk (r, s') \<Longrightarrow> keeps s s'"
    and getdents_law: "vnodes_ok s \<Longrightarrow> vn_getdents f v b n p s = KOk (r, s') \<Longrightarrow> keeps s s'"
    and lookup_law: "vnodes_ok s \<Longrightarrow> vn_lookup f v nm ppv p s = KOk (r, ppv', s') \<Longrightarrow>
      if r = 0 then gives ppv' s s' else keeps s s'"
    and inactive_law: "vnodes_ok s \<Longrightarrow> counts s v = 0 \<Longrightarrow> vn_inactive f v s = KOk (r, s') \<Longrightarrow> keeps s s'"

section \<open>Steps the file systems share\<close>

lemma ask_driver_keeps:
  assumes "vnodes_ok s" and "ask_driver dx d req s = KOk (r, s')"
  shows "keeps s s'"
proof -
  obtain k ds w where s': "s' = (kstate.extend k (kstate.more s))\<lparr>dev_list := ds, world := w\<rparr>"
    using assms(2) by (auto simp: ask_driver_def kbind_KOk_iff)
  have e: "vnodes s' = vnodes s" "free_vnodes s' = free_vnodes s" "vfs_table s' = vfs_table s" "cdir s' = cdir s"
    "fd_table s' = fd_table s" "vnroot s' = vnroot s"
    by (cases s; simp add: s' kstate.defs)+
  have h: "list_head s' i = list_head s i" for i by (cases i) (simp_all add: e)
  have "vnodes_ok s'" by (rule vnodes_ok_cong [OF assms(1) _ h]) (simp_all add: e)
  then show ?thesis by (simp add: keeps_def effect_def e)
qed

lemma hold_gives:
  assumes "vnodes_ok s" and "\<And>ls. lists_view ls s \<Longrightarrow> v \<notin> set (ls L_free)"
  shows "effect (plus_ref v (counts s)) s (VN_HOLD v s)"
proof -
  have "vnodes_ok (VN_HOLD v s)" by (rule vnodes_ok_cong [OF assms(1)]) (auto simp: assms(2) split: if_splits)
  then show ?thesis by (simp add: effect_def plus_ref_def)
qed

lemma held_not_free:
  assumes "vnodes_ok s" and "counts s v \<noteq> 0" and "lists_view ls s"
  shows "v \<notin> set (ls L_free)"
proof -
  obtain ls' where ls': "lists_view ls' s" "\<forall>x \<in> set (ls' L_free). counts s x = 0" using assms(1) by (auto simp: vnodes_ok_def)
  have "ls' L_free = ls L_free" using ls'(1) assms(3) chain_fun unfolding lists_view_def by blast
  with ls'(2) assms(2) show ?thesis by auto
qed

lemma hold_held: "vnodes_ok s \<Longrightarrow> counts s v \<noteq> 0 \<Longrightarrow> effect (plus_ref v (counts s)) s (VN_HOLD v s)"
  by (rule hold_gives) (auto dest: held_not_free)

text \<open>A vnode found on the list of a file system.\<close>

lemma hold_found:
  assumes "vnodes_ok s" and "i \<noteq> L_free" and "vn_find P (vnx s) (list_head s i) = Some (Some v)"
  shows "effect (plus_ref v (counts s)) s (VN_HOLD v s)"
proof (rule hold_gives [OF assms(1)])
  fix ls assume ls: "lists_view ls s"
  then have "find P (ls i) = Some v" using vn_find_chain [of "vnx s" "list_head s i" "ls i" P] assms(3) by (auto simp: lists_view_def)
  then have "v \<in> set (ls i)" by (auto simp: find_Some_iff)
  with ls assms(2) show "v \<notin> set (ls L_free)" unfolding lists_view_def by blast
qed

text \<open>A vnode taken from the pool, set up by \<open>g\<close> and put on the list \<open>i\<close>, then held.\<close>

lemma hold_new:
  assumes "vnodes_ok s" and "vfs_vnode_alloc s = KOk (v, s1)" and "i \<noteq> L_free"
    and "\<And>x. vnodes s2 x = (if x = v then g (vnodes s1 v) else vnodes s1 x)" and "vn_next (g (vnodes s1 v)) = list_head s1 i"
    and "v_count (g (vnodes s1 v)) = 0" and "\<And>j. list_head s2 j = (if j = i then Some v else list_head s1 j)"
    and "cdir s2 = cdir s1" "fd_table s2 = fd_table s1" "vnroot s2 = vnroot s1" "\<And>m. roots s2 m = roots s1 m"
  shows "effect (plus_ref v (counts s)) s (VN_HOLD v s2)"
proof -
  note a = alloc_ok [OF assms(1,2)]
  have ok: "vnodes_ok s2" by (rule push_ok [of v s1 s2 i]) (use a assms in auto)
  have out: "v \<notin> set (ls L_free)" if ls: "lists_view ls s2" for ls
  proof -
    have "list_head s2 i = Some v" using assms(7) by simp
    then have "v \<in> set (ls i)" using ls by (cases "ls i") (auto simp: lists_view_def dest: spec [of _ i])
    with ls assms(3) show ?thesis unfolding lists_view_def by blast
  qed
  have h: "effect (plus_ref v (counts s2)) s2 (VN_HOLD v s2)" by (rule hold_gives [OF ok]) (rule out)
  have "counts s2 x = counts s x" for x using a assms(4,6) by auto
  then show ?thesis using h a assms(8-) by (simp add: effect_def plus_ref_def)
qed

lemma inactive_keeps:
  fixes s :: "('w, 'a) vstate_scheme"
  assumes "vnodes_ok s" and "i \<noteq> L_free" and "counts s v = 0" and "vn_unlink v (list_head s i) s = KOk (h, s1)"
    and "\<And>x. vnodes s' x = vnodes s1 x" and "\<And>j. list_head s' j = (if j = i then h else list_head s1 j)"
    and "cdir s' = cdir s1" "fd_table s' = fd_table s1" "vnroot s' = vnroot s1" "\<And>m. roots s' m = roots s1 m"
  shows "keeps s s'"
proof -
  obtain h' t where t: "vn_unlink v (list_head s i) s = KOk (h', t)"
    "\<And>s' :: ('w, 'a) vstate_scheme. (\<And>x. vnodes s' x = vnodes t x) \<Longrightarrow> (\<And>j. list_head s' j = (if j = i then h' else list_head t j)) \<Longrightarrow> vnodes_ok s'"
    "\<And>x. counts t x = counts s x" "cdir t = cdir s" "fd_table t = fd_table s" "vnroot t = vnroot s" "vfs_table t = vfs_table s"
    using unlink_ok [OF assms(1-3)] by blast
  have e: "h' = h" "t = s1" using t(1) assms(4) by simp_all
  have "vnodes_ok s'" by (rule t(2)) (simp_all add: e assms(5,6))
  then show ?thesis using t(3-) assms(5,7-) by (simp add: keeps_def effect_def e)
qed

end
