(* ===== verification/FsInstances.thy ===== *)
theory FsInstances
  imports FsLaws
begin

text \<open>The device file system and the remote file system keep the contract of \<open>FsLaws\<close>.\<close>

named_theorems fs_keeps \<open>operations that keep the reference counts\<close>

section \<open>The device file system\<close>

lemma devfs_advance_keeps [fs_keeps]: "vnodes_ok s \<Longrightarrow> keeps s (devfs_advance v r s)"
  unfolding devfs_advance_def by (rule keeps_upd_vnode) simp_all

lemma ask_advance:
  assumes "vnodes_ok s" and "ask_driver dx d req s = KOk (r, s1)"
  shows "keeps s (devfs_advance v r' s1)"
  using keeps_trans [OF ask_driver_keeps [OF assms] devfs_advance_keeps] effect_ok(2) [OF ask_driver_keeps [OF assms]] by blast

lemma devfs_simple_keeps:
  assumes "vnodes_ok s"
  shows "devfs_open dx v fl p s = KOk (r, s') \<Longrightarrow> keeps s s'" "devfs_close dx v p s = KOk (r, s') \<Longrightarrow> keeps s s'"
    "devfs_read dx v b n p s = KOk (r, s') \<Longrightarrow> keeps s s'" "devfs_write dx v b n p s = KOk (r, s') \<Longrightarrow> keeps s s'"
    "devfs_ioctl dx v req ptr p s = KOk (r, s') \<Longrightarrow> keeps s s'" "devfs_lseek v off wh s = KOk (r, s') \<Longrightarrow> keeps s s'"
  using assms
  by (auto simp: devfs_open_def devfs_close_def devfs_read_def devfs_write_def devfs_ioctl_def devfs_lseek_def Let_def kbind_KOk_iff
      split: if_splits intro: keeps_refl ask_driver_keeps ask_advance keeps_upd_vnode)

lemma devfs_getdents_keeps:
  assumes "vnodes_ok s" and "devfs_getdents v b n p s = KOk (r, s')"
  shows "keeps s s'"
proof -
  have w: "keeps s (devfs_advance v k (s\<lparr>ram := x\<rparr>))" for k x
    using keeps_trans [OF keeps_ram [OF assms(1)] devfs_advance_keeps] effect_ok(2) [OF keeps_ram [OF assms(1)]] by blast
  show ?thesis using assms(2) w keeps_refl [OF assms(1)]
    by (auto simp: devfs_getdents_def Let_def kbind_KOk_iff split: if_splits option.splits)
qed

lemma devfs_root_law:
  assumes "vnodes_ok s" and "roots_held s" and "devfs_root m ppv s = KOk (r, ppv', s')"
  shows "gives ppv' s s'"
proof -
  obtain v where v: "roots s m = Some v" using assms(3) by (auto simp: devfs_root_def split: option.splits)
  then have "counts s v \<noteq> 0" using assms(2) by (auto simp: roots_held_def)
  moreover have "ppv' = Some v" "s' = VN_HOLD v s" using assms(3) v by (auto simp: devfs_root_def)
  ultimately show ?thesis using hold_held [OF assms(1)] by (simp add: gives_def)
qed

lemma upd_vfs_devfs_head:
  "list_head (upd_vfs m (\<lambda>f. f\<lparr>vfs_devfs := (vfs_devfs f)\<lparr>devfs_pvn := h\<rparr>\<rparr>) s) j = (if j = L_devfs m then h else list_head s j)"
  by (cases j) auto

lemma upd_vfs_rfs_head:
  "list_head (upd_vfs m (\<lambda>f. f\<lparr>vfs_rfs := (vfs_rfs f)\<lparr>rfs_pvn := h\<rparr>\<rparr>) s) j = (if j = L_rfs m then h else list_head s j)"
  by (cases j) auto

lemma devfs_allocate_gives:
  assumes "vnodes_ok s" and "devfs_allocate_vnode m d s = KOk (w, s')"
  shows "effect (plus_ref w (counts s)) s (VN_HOLD w s')"
proof -
  obtain s1 where s1: "vfs_vnode_alloc s = KOk (w, s1)"
    and s': "s' = upd_vfs m (\<lambda>f. f\<lparr>vfs_devfs := (vfs_devfs f)\<lparr>devfs_pvn := Some w\<rparr>\<rparr>)
      (upd_vnode w (\<lambda>n. n\<lparr>v_count := 0, v_op := Some FS_devfs, v_vfsp := Some m,
         v_devnode := \<lparr>dn_flags = 0, dn_dev = d, dn_lseek = 0\<rparr>, vn_next := devfs_pvn (vfs_devfs (vfs_table s1 m))\<rparr>) s1)"
    using assms(2) by (auto simp: devfs_allocate_vnode_def kbind_KOk_iff Let_def)
  show ?thesis
    by (rule hold_new [OF assms(1) s1, of "L_devfs m" _ "\<lambda>n. n\<lparr>v_count := 0, v_op := Some FS_devfs, v_vfsp := Some m,
         v_devnode := \<lparr>dn_flags = 0, dn_dev = d, dn_lseek = 0\<rparr>, vn_next := devfs_pvn (vfs_devfs (vfs_table s1 m))\<rparr>"])
      (simp_all add: s' upd_vfs_devfs_head)
qed

lemma effect_upd_vnode:
  assumes "effect c s s'" and "\<And>n. vn_next (g n) = vn_next n" and "\<And>n. v_count (g n) = v_count n"
  shows "effect c s (upd_vnode v g s')"
  using effect_keeps [OF assms(1) keeps_upd_vnode] assms by (auto simp: effect_def)

lemma devfs_get_gives:
  assumes "vnodes_ok s" and "devfs_get_vnode m d s = KOk (w, s1)"
  shows "effect (plus_ref w (counts s)) s (VN_HOLD w s1)"
proof -
  obtain x where x: "devfs_find_vnode m d s = Some x" using assms(2) by (auto simp: devfs_get_vnode_def split: option.splits)
  show ?thesis
  proof (cases x)
    case None
    with x assms show ?thesis using devfs_allocate_gives by (auto simp: devfs_get_vnode_def)
  next
    case (Some w')
    then have "w' = w" "s1 = s" using x assms(2) by (auto simp: devfs_get_vnode_def)
    with x Some show ?thesis using hold_found [OF assms(1), of "L_devfs m"] by (auto simp: devfs_find_vnode_def)
  qed
qed

lemma devfs_lookup_law:
  assumes "vnodes_ok s" and "devfs_lookup v nm ppv p s = KOk (r, ppv', s')"
  shows "if r = 0 then gives ppv' s s' else keeps s s'"
proof -
  have "gives (Some w) s (upd_vnode v (\<lambda>n. n\<lparr>v_devnode := dn\<rparr>) (upd_vnode w (\<lambda>n. n\<lparr>v_vfsmountedhere := None, v_type := ty\<rparr>) (VN_HOLD w s1)))"
    if "devfs_get_vnode m d s = KOk (w, s1)" for m d w s1 dn ty
    using devfs_get_gives [OF assms(1) that] by (auto simp: gives_def intro!: effect_upd_vnode)
  with assms(2) keeps_refl [OF assms(1)] show ?thesis
    by (auto simp: devfs_lookup_def with_vfs_def ENOTDIR_def ENAMETOOLONG_def ENOENT_def Let_def kbind_KOk_iff split: if_splits option.splits)
qed

lemma devfs_inactive_law:
  assumes "vnodes_ok s" and "counts s v = 0" and "devfs_inactive v s = KOk (r, s')"
  shows "keeps s s'"
proof -
  obtain m h s1 where m: "vn_unlink v (list_head s (L_devfs m)) s = KOk (h, s1)"
    and s': "s' = upd_vfs m (\<lambda>f. f\<lparr>vfs_devfs := (vfs_devfs f)\<lparr>devfs_pvn := h\<rparr>\<rparr>) s1"
    using assms(3) by (auto simp: devfs_inactive_def with_vfs_def kbind_KOk_iff split: option.splits)
  show ?thesis by (rule inactive_keeps [OF assms(1) _ assms(2) m]) (simp_all only: s' upd_vfs_devfs_head, simp_all)
qed

lemma devfs_mount_law:
  assumes "vnodes_ok s" and "devfs_mount m d s = KOk (r, s')"
  shows "new_root m s s'"
proof -
  let ?s1 = "upd_vfs m (\<lambda>f. f\<lparr>vfs_op := Some FS_devfs, vfs_vnodecovered := None, vfs_flag := 0\<rparr>) s"
  obtain v s2 where v: "vfs_vnode_alloc ?s1 = KOk (v, s2)"
    and s': "s' = upd_vfs m (\<lambda>f. f\<lparr>vfs_devfs := \<lparr>devfs_pvnroot = Some v, devfs_pvn = Some v\<rparr>\<rparr>)
      (upd_vnode v (\<lambda>n. n\<lparr>v_devnode := \<lparr>dn_flags = 0, dn_dev = 0, dn_lseek = 0\<rparr>\<rparr>)
        (VN_HOLD v (upd_vnode v (\<lambda>n. n\<lparr>v_op := Some FS_devfs, v_vfsp := Some m, v_type := VDIR\<rparr>) s2)))"
    using assms(2) by (auto simp: devfs_mount_def kbind_KOk_iff Let_def)
  have h1: "list_head ?s1 i = list_head s i" for i by (cases i) auto
  have "vnodes_ok ?s1" by (rule vnodes_ok_cong [OF assms(1)]) (simp_all add: h1)
  note a = alloc_ok [OF this v]
  text \<open>The old list of the slot is dropped.\<close>
  let ?t = "upd_vfs m (\<lambda>f. f\<lparr>vfs_devfs := \<lparr>devfs_pvnroot = Some v, devfs_pvn = None\<rparr>\<rparr>) s2"
  have ht: "list_head ?t j = (if j = L_devfs m then None else list_head s2 j)" for j by (cases j) auto
  obtain ls where ls: "lists_view ls s2" "\<forall>x \<in> set (ls L_free). counts s2 x = 0" "\<forall>i. v \<notin> set (ls i)"
    using a by (auto simp: outside_def)
  have "lists_view (ls(L_devfs m := [])) ?t" using ls(1) unfolding lists_view_def ht by auto
  then have "outside v ?t" using ls(2,3) unfolding outside_def by (intro exI [of _ "ls(L_devfs m := [])"]) auto
  moreover have hs: "list_head s' j = (if j = L_devfs m then Some v else list_head ?t j)" for j by (cases j) (auto simp: s')
  moreover have "vnx s' x = (if x = v then list_head ?t (L_devfs m) else vnx ?t x)" for x using a by (auto simp: s')
  moreover have "counts s' x = counts ?t x" if "x \<noteq> v" for x using that by (simp add: s')
  ultimately have ok: "vnodes_ok s'" by (blast intro: push_ok)
  have c: "counts s' x = plus_ref v (counts s) x" for x using a by (auto simp: s' plus_ref_def)
  have "roots s' k = (if k = m then Some v else roots s k)" for k using a by (auto simp: s')
  then show ?thesis using ok a c by (auto simp: new_root_def s' intro!: exI [of _ v])
qed

interpretation devfs: file_system "devfs_ops dx" for dx :: "'w dexchange"
proof unfold_locales
  fix s s' :: "('w, 'a) vstate_scheme" assume ok: "vnodes_ok s"
  show "vfs_mount (devfs_ops dx) m d s = KOk (r, s') \<Longrightarrow> keeps s s' \<or> new_root m s s' \<or> (\<exists>w. gives (Some w) s s')" for m d r
    using devfs_mount_law [OF ok] by (simp add: devfs_ops_def)
  show "vfs_unmount (devfs_ops dx) m s = KOk (r, s') \<Longrightarrow> keeps s s'" for m r
    using keeps_refl [OF ok] by (simp add: devfs_ops_def devfs_unmount_def)
  show "roots_held s \<Longrightarrow> vfs_root (devfs_ops dx) m ppv s = KOk (r, ppv', s') \<Longrightarrow> gives ppv' s s' \<or> ppv' = None \<and> keeps s s'" for m ppv ppv' r
    using devfs_root_law [OF ok] by (simp add: devfs_ops_def)
  show "vn_getattr (devfs_ops dx) v s = KOk (x, s') \<Longrightarrow> keeps s s'" for v x
    using keeps_refl [OF ok] by (simp add: devfs_ops_def devfs_getattr_def)
  show "vn_mkdir (devfs_ops dx) v nm p s = KOk (r, s') \<Longrightarrow> keeps s s'" for v nm p r
    using keeps_refl [OF ok] by (simp add: devfs_ops_def devfs_mkdir_def)
  show "vn_open (devfs_ops dx) v fl p s = KOk (r, s') \<Longrightarrow> keeps s s'" for v fl p r
    using devfs_simple_keeps(1) [OF ok] by (simp add: devfs_ops_def)
  show "vn_close (devfs_ops dx) v p s = KOk (r, s') \<Longrightarrow> keeps s s'" for v p r
    using devfs_simple_keeps(2) [OF ok] by (simp add: devfs_ops_def)
  show "vn_read (devfs_ops dx) v b n p s = KOk (r, s') \<Longrightarrow> keeps s s'" for v b n p r
    using devfs_simple_keeps(3) [OF ok] by (simp add: devfs_ops_def)
  show "vn_write (devfs_ops dx) v b n p s = KOk (r, s') \<Longrightarrow> keeps s s'" for v b n p r
    using devfs_simple_keeps(4) [OF ok] by (simp add: devfs_ops_def)
  show "vn_ioctl (devfs_ops dx) v req ptr p s = KOk (r, s') \<Longrightarrow> keeps s s'" for v req ptr p r
    using devfs_simple_keeps(5) [OF ok] by (simp add: devfs_ops_def)
  show "vn_lseek (devfs_ops dx) v off wh s = KOk (r, s') \<Longrightarrow> keeps s s'" for v off wh r
    using devfs_simple_keeps(6) [OF ok] by (simp add: devfs_ops_def)
  show "vn_getdents (devfs_ops dx) v b n p s = KOk (r, s') \<Longrightarrow> keeps s s'" for v b n p r
    using devfs_getdents_keeps [OF ok] by (simp add: devfs_ops_def)
  show "vn_lookup (devfs_ops dx) v nm ppv p s = KOk (r, ppv', s') \<Longrightarrow> if r = 0 then gives ppv' s s' else keeps s s'" for v nm ppv ppv' p r
    using devfs_lookup_law [OF ok] by (simp add: devfs_ops_def)
  show "counts s v = 0 \<Longrightarrow> vn_inactive (devfs_ops dx) v s = KOk (r, s') \<Longrightarrow> keeps s s'" for v r
    using devfs_inactive_law [OF ok] by (simp add: devfs_ops_def)
qed

section \<open>The remote file system\<close>

lemma rfs_command_keeps:
  assumes "vnodes_ok s" and "rfs_command dx cb d pl s = KOk s'"
  shows "keeps s s'"
proof -
  note r = keeps_ram [OF assms(1), of "put_bytes (ram s) cb (rfs_frame pl)"]
  with assms(2) show ?thesis using keeps_trans [OF r ask_driver_keeps [OF effect_ok(2) [OF r]]]
    by (auto simp: rfs_command_def kbind_KOk_iff)
qed

lemma rfs_answer_keeps: "vnodes_ok s \<Longrightarrow> rfs_answer dx ab d n s = KOk (b, s') \<Longrightarrow> keeps s s'"
  by (auto simp: rfs_answer_def kbind_KOk_iff intro: ask_driver_keeps)

lemma rfs_receive_keeps:
  assumes "vnodes_ok s" and "rfs_receive_msg dx d a s = KOk (b, s')"
  shows "keeps s s'"
proof -
  obtain r s1 where s1: "ask_driver dx d (DEV_READ (minor d) 0 a 2) s = KOk (r, s1)"
    using assms(2) by (auto simp: rfs_receive_msg_def kbind_KOk_iff)
  note k = ask_driver_keeps [OF assms(1) s1]
  have "keeps s1 s'" using assms(2) s1 keeps_refl [OF effect_ok(2) [OF k]] ask_driver_keeps [OF effect_ok(2) [OF k]]
    by (auto simp: rfs_receive_msg_def Let_def kbind_KOk_iff split: if_splits)
  with k show ?thesis by (rule keeps_trans)
qed

text \<open>A command and its answer.\<close>

lemma rfs_exchange_keeps:
  assumes "vnodes_ok s" and "rfs_command dx cb d pl s = KOk s1" and "rfs_answer dx ab d n s1 = KOk (b, s2)"
  shows "keeps s s2"
  using keeps_trans [OF rfs_command_keeps [OF assms(1,2)] rfs_answer_keeps [OF _ assms(3)]]
    effect_ok(2) [OF rfs_command_keeps [OF assms(1,2)]] by blast

lemma upd_rnode_keeps: "vnodes_ok s \<Longrightarrow> keeps s (upd_rnode v g s)"
  unfolding upd_rnode_def by (rule keeps_upd_vnode) simp_all

lemma keeps_upd_rnode: "keeps s s' \<Longrightarrow> keeps s (upd_rnode v g s')"
  using keeps_trans upd_rnode_keeps effect_ok(2) by blast

lemma keeps_set_ram: "keeps s s' \<Longrightarrow> keeps s (s'\<lparr>ram := r\<rparr>)"
  using keeps_trans keeps_ram effect_ok(2) by blast

lemma rnode_simple_keeps:
  assumes "vnodes_ok s"
  shows "rnode_open dx cb ab v fl p s = KOk (r, s') \<Longrightarrow> keeps s s'" "rnode_close dx cb ab v p s = KOk (r, s') \<Longrightarrow> keeps s s'"
    "rnode_lseek v off wh s = KOk (r, s') \<Longrightarrow> keeps s s'" "rnode_mkdir dx cb ab v nm p s = KOk (r, s') \<Longrightarrow> keeps s s'"
  using keeps_refl [OF assms] rfs_exchange_keeps [OF assms] upd_rnode_keeps [OF assms]
  by (auto simp: rnode_open_def rnode_close_def rnode_lseek_def rnode_mkdir_def with_rfs_def with_vfs_def Let_def kbind_KOk_iff
      split: if_splits option.splits intro: keeps_upd_rnode)

lemma rnode_getdents_keeps:
  assumes "vnodes_ok s" and "rnode_getdents dx cb ab v b n p s = KOk (r, s')"
  shows "keeps s s'"
proof -
  let ?s0 = "upd_rnode v (\<lambda>n. n\<lparr>rn_lseek := rn_lseek n + 1\<rparr>) s"
  note k0 = upd_rnode_keeps [OF assms(1), of v "\<lambda>n. n\<lparr>rn_lseek := rn_lseek n + 1\<rparr>"]
  have k: "keeps s s2" if "rfs_command dx cb d pl ?s0 = KOk s1" "rfs_answer dx ab d k s1 = KOk (x, s2)" for d pl s1 k x s2
    using keeps_trans [OF k0 rfs_exchange_keeps [OF effect_ok(2) [OF k0] that]] .
  show ?thesis using assms(2) k
    by (auto simp: rnode_getdents_def with_rfs_def with_vfs_def Let_def kbind_KOk_iff split: if_splits option.splits intro: keeps_set_ram)
qed

lemma rnode_read_loop_keeps:
  "vnodes_ok s \<Longrightarrow> rnode_read_loop dx cb ab d rn v dst cnt did s = KOk (r, s') \<Longrightarrow> keeps s s'"
proof (induction dx cb ab d rn v dst cnt did s arbitrary: r s' rule: rnode_read_loop.induct)
  case (1 dx cb ab d rn v dst cnt did s)
  show ?case
  proof (cases "did < cnt")
    case False
    with 1 show ?thesis by (subst (asm) rnode_read_loop.simps) (simp add: keeps_refl)
  next
    case True
    define ln where "ln = (if cnt - did > 64 then 64 else cnt - did)"
    obtain s1 ok s2 where s1: "rfs_command dx cb d ([82, of_nat ln] @ rfs_u32le_at rn @ rfs_u32le_at (rn_lseek (v_rnode (vnodes s v)))) s = KOk s1"
      and s2: "rfs_receive_msg dx d ab s1 = KOk (ok, s2)"
      using 1(3) True by (subst (asm) rnode_read_loop.simps) (auto simp: ln_def Let_def kbind_KOk_iff)
    note k1 = rfs_command_keeps [OF 1(2) s1]
    note k2 = keeps_trans [OF k1 rfs_receive_keeps [OF effect_ok(2) [OF k1] s2]]
    let ?bl = "ram s2 (ab + 1) - 2"
    let ?s3 = "upd_rnode v (\<lambda>n. n\<lparr>rn_lseek := rn_lseek n + ucast ?bl\<rparr>) s2"
    let ?s4 = "?s3\<lparr>ram := memcpy (ram ?s3) dst (ab + 4) (unat ?bl)\<rparr>"
    have k4: "keeps s ?s4" by (intro keeps_set_ram keeps_upd_rnode k2)
    show ?thesis
    proof (cases "ok \<and> ram s2 (ab + 3) \<noteq> RFS_AREAD_KO \<and> ?bl \<noteq> 0")
      case False
      then have "s' = s2" using 1(3) True s1 s2
        by (subst (asm) rnode_read_loop.simps) (auto simp: ln_def [symmetric] Let_def split: if_splits)
      with k2 show ?thesis by simp
    next
      case c: True
      then have l: "rnode_read_loop dx cb ab d rn v (dst + ucast ?bl) cnt (did + unat ?bl) ?s4 = KOk (r, s')" using 1(3) True s1 s2
        by (subst (asm) rnode_read_loop.simps) (auto simp: ln_def [symmetric] Let_def)
      have "keeps ?s4 s'"
        by (rule 1(1) [OF True refl iffD2 [OF not_not TrueI] _ refl _ refl refl effect_ok(2) [OF k4] l]) (use c in simp_all)
      with k4 show ?thesis by (rule keeps_trans)
    qed
  qed
qed

lemma rfs_allocate_gives:
  assumes "vnodes_ok s" and "rfs_allocate_vnode m rn s = KOk (w, s')"
  shows "effect (plus_ref w (counts s)) s (VN_HOLD w s')"
proof -
  obtain s1 where s1: "vfs_vnode_alloc s = KOk (w, s1)"
    and s': "s' = upd_vfs m (\<lambda>f. f\<lparr>vfs_rfs := (vfs_rfs f)\<lparr>rfs_pvn := Some w\<rparr>\<rparr>)
      (upd_vnode w (\<lambda>n. n\<lparr>v_count := 0, v_op := Some FS_rfs, v_vfsp := Some m,
         v_rnode := \<lparr>rn_rnode = rn, rn_lseek = 0, rn_FileSize = 0\<rparr>, vn_next := rfs_pvn (vfs_rfs (vfs_table s1 m))\<rparr>) s1)"
    using assms(2) by (auto simp: rfs_allocate_vnode_def kbind_KOk_iff Let_def)
  show ?thesis
    by (rule hold_new [OF assms(1) s1, of "L_rfs m" _ "\<lambda>n. n\<lparr>v_count := 0, v_op := Some FS_rfs, v_vfsp := Some m,
         v_rnode := \<lparr>rn_rnode = rn, rn_lseek = 0, rn_FileSize = 0\<rparr>, vn_next := rfs_pvn (vfs_rfs (vfs_table s1 m))\<rparr>"])
      (simp_all add: s' upd_vfs_rfs_head)
qed

lemma rfs_found_gives:
  assumes "vnodes_ok s" and "rfs_find_vnode m rn s = Some (Some w)"
  shows "effect (plus_ref w (counts s)) s (VN_HOLD w s)"
  using hold_found [OF assms(1), of "L_rfs m"] assms(2) by (auto simp: rfs_find_vnode_def)

lemma VN_HOLD_upd_vnode:
  "(\<And>n. v_count (g n) = v_count n) \<Longrightarrow> (\<And>n c. g (n\<lparr>v_count := c\<rparr>) = (g n)\<lparr>v_count := c\<rparr>) \<Longrightarrow> VN_HOLD v (upd_vnode v g s) = upd_vnode v g (VN_HOLD v s)"
  by (simp add: VN_HOLD_def upd_vnode_def)

lemma rfs_root_law:
  assumes "vnodes_ok s" and "rfs_vfs_root m ppv s = KOk (r, ppv', s')"
  shows "gives ppv' s s'"
proof -
  have new: "gives (Some w) s (VN_HOLD w (upd_vnode w (\<lambda>n. n\<lparr>v_type := VDIR\<rparr>) s1))" if "rfs_allocate_vnode m rn s = KOk (w, s1)" for rn w s1
  proof -
    have "VN_HOLD w (upd_vnode w (\<lambda>n. n\<lparr>v_type := VDIR\<rparr>) s1) = upd_vnode w (\<lambda>n. n\<lparr>v_type := VDIR\<rparr>) (VN_HOLD w s1)"
      by (rule VN_HOLD_upd_vnode) simp_all
    then show ?thesis using rfs_allocate_gives [OF assms(1) that] by (auto simp: gives_def intro!: effect_upd_vnode)
  qed
  obtain x where x: "rfs_find_vnode m (rfs_root (vfs_rfs (vfs_table s m))) s = Some x"
    using assms(2) by (auto simp: rfs_vfs_root_def Let_def split: option.splits)
  show ?thesis
  proof (cases x)
    case None
    with x assms(2) new show ?thesis by (auto simp: rfs_vfs_root_def kbind_KOk_iff)
  next
    case (Some w)
    with x assms(2) have "ppv' = Some w" "s' = VN_HOLD w s" by (auto simp: rfs_vfs_root_def)
    with x Some rfs_found_gives [OF assms(1)] show ?thesis by (auto simp: gives_def)
  qed
qed

lemma gives_after_keeps: "keeps s s' \<Longrightarrow> effect (plus_ref w (counts s')) s' s'' \<Longrightarrow> effect (plus_ref w (counts s)) s s''"
  by (auto simp: keeps_def effect_def plus_ref_def)

lemma rnode_lookup_law:
  assumes "vnodes_ok s" and "rnode_lookup dx cb ab v nm ppv p s = KOk (r, ppv', s')"
  shows "if r = 0 then gives ppv' s s' else keeps s s'"
proof -
  have found: "gives (Some w) s (VN_HOLD w s2)" if k: "keeps s s2" and "rfs_find_vnode m rn s2 = Some (Some w)" for m rn w s2
    using gives_after_keeps [OF k rfs_found_gives [OF effect_ok(2) [OF k] that(2)]] by (simp add: gives_def)
  have new: "gives (Some w) s (upd_vnode w (\<lambda>n. n\<lparr>v_vfsmountedhere := None, v_type := ty, v_rnode := rr\<rparr>) (VN_HOLD w s3))"
    if k: "keeps s s2" and "rfs_allocate_vnode m rn s2 = KOk (w, s3)" for m rn w s2 s3 ty rr
    using gives_after_keeps [OF k rfs_allocate_gives [OF effect_ok(2) [OF k] that(2)]] by (auto simp: gives_def intro!: effect_upd_vnode)
  show ?thesis using assms(2) keeps_refl [OF assms(1)]
    by (auto simp: rnode_lookup_def with_rfs_def with_vfs_def ENAMETOOLONG_def Let_def kbind_KOk_iff split: if_splits option.splits
        intro: found new rfs_exchange_keeps [OF assms(1)])
qed

lemma rnode_inactive_law:
  assumes "vnodes_ok s" and "counts s v = 0" and "rnode_inactive v s = KOk (r, s')"
  shows "keeps s s'"
proof -
  obtain m h s1 where m: "vn_unlink v (list_head s (L_rfs m)) s = KOk (h, s1)"
    and s': "s' = upd_vfs m (\<lambda>f. f\<lparr>vfs_rfs := (vfs_rfs f)\<lparr>rfs_pvn := h\<rparr>\<rparr>) s1"
    using assms(3) by (auto simp: rnode_inactive_def with_vfs_def kbind_KOk_iff split: option.splits)
  show ?thesis by (rule inactive_keeps [OF assms(1) _ assms(2) m]) (simp_all only: s' upd_vfs_rfs_head, simp_all)
qed

text \<open>A mount starts with an empty list.\<close>

lemma rfs_mount_law:
  fixes s :: "('w, 'a) vstate_scheme"
  assumes "vnodes_ok s" and "rfs_mount dx cb ab m d s = KOk (r, s')"
  shows "keeps s s'"
proof -
  have init: "keeps s1 (upd_vfs m (\<lambda>f. f\<lparr>vfs_op := op, vfs_vnodecovered := cv, vfs_flag := fl, vfs_rfs := \<lparr>rfs_dev = d, rfs_root = rt, rfs_pvn = None\<rparr>\<rparr>) s1)"
    if ok: "vnodes_ok s1" for s1 :: "('w, 'a) vstate_scheme" and op cv fl rt
  proof -
    let ?s2 = "upd_vfs m (\<lambda>f. f\<lparr>vfs_op := op, vfs_vnodecovered := cv, vfs_flag := fl, vfs_rfs := \<lparr>rfs_dev = d, rfs_root = rt, rfs_pvn = None\<rparr>\<rparr>) s1"
    have h: "list_head ?s2 j = (if j = L_rfs m then None else list_head s1 j)" for j by (cases j) auto
    obtain ls where ls: "lists_view ls s1" "\<forall>x \<in> set (ls L_free). counts s1 x = 0" using ok by (auto simp: vnodes_ok_def)
    have "lists_view (ls(L_rfs m := [])) ?s2" using ls(1) unfolding lists_view_def h by auto
    then have "vnodes_ok ?s2" using ls(2) unfolding vnodes_ok_def by (intro exI [of _ "ls(L_rfs m := [])"]) auto
    then show ?thesis by (simp add: keeps_def effect_def)
  qed
  have fin: "keeps s (upd_vfs m (\<lambda>f. f\<lparr>vfs_op := op, vfs_vnodecovered := cv, vfs_flag := fl, vfs_rfs := \<lparr>rfs_dev = d, rfs_root = rt, rfs_pvn = None\<rparr>\<rparr>) s3)"
    if "keeps s s3" for s3 op cv fl rt
    using keeps_trans [OF that init [OF effect_ok(2) [OF that]]] .
  have k: "keeps s s3"
    if "ask_driver dx d req s = KOk (x, s1)" "rfs_command dx cb d pl s1 = KOk s2" "rfs_answer dx ab d n s2 = KOk (b, s3)" for req x s1 pl s2 n b s3
    using keeps_trans [OF ask_driver_keeps [OF assms(1) that(1)] rfs_exchange_keeps [OF _ that(2,3)]]
      effect_ok(2) [OF ask_driver_keeps [OF assms(1) that(1)]] by blast
  from assms(2) keeps_refl [OF assms(1)] show ?thesis
    by (auto simp: rfs_mount_def kbind_KOk_iff split: if_splits option.splits intro: fin k)
qed

interpretation rfs: file_system "rfs_ops dx cb ab" for dx :: "'w dexchange" and cb ab
proof unfold_locales
  fix s s' :: "('w, 'a) vstate_scheme" assume ok: "vnodes_ok s"
  show "vfs_mount (rfs_ops dx cb ab) m d s = KOk (r, s') \<Longrightarrow> keeps s s' \<or> new_root m s s' \<or> (\<exists>w. gives (Some w) s s')" for m d r
    using rfs_mount_law [OF ok] by (simp add: rfs_ops_def)
  show "vfs_unmount (rfs_ops dx cb ab) m s = KOk (r, s') \<Longrightarrow> keeps s s'" for m r
    using keeps_refl [OF ok] by (simp add: rfs_ops_def rfs_unmount_def)
  show "roots_held s \<Longrightarrow> vfs_root (rfs_ops dx cb ab) m ppv s = KOk (r, ppv', s') \<Longrightarrow> gives ppv' s s' \<or> ppv' = None \<and> keeps s s'" for m ppv ppv' r
    using rfs_root_law [OF ok] by (simp add: rfs_ops_def)
  show "vn_open (rfs_ops dx cb ab) v fl p s = KOk (r, s') \<Longrightarrow> keeps s s'" for v fl p r
    using rnode_simple_keeps(1) [OF ok] by (simp add: rfs_ops_def)
  show "vn_close (rfs_ops dx cb ab) v p s = KOk (r, s') \<Longrightarrow> keeps s s'" for v p r
    using rnode_simple_keeps(2) [OF ok] by (simp add: rfs_ops_def)
  show "vn_read (rfs_ops dx cb ab) v b n p s = KOk (r, s') \<Longrightarrow> keeps s s'" for v b n p r
    using rnode_read_loop_keeps [OF ok]
    by (auto simp: rfs_ops_def rnode_read_def with_rfs_def with_vfs_def Let_def kbind_KOk_iff split: option.splits)
  show "vn_write (rfs_ops dx cb ab) v b n p s = KOk (r, s') \<Longrightarrow> keeps s s'" for v b n p r
    using keeps_refl [OF ok] by (simp add: rfs_ops_def rnode_write_def)
  show "vn_ioctl (rfs_ops dx cb ab) v req ptr p s = KOk (r, s') \<Longrightarrow> keeps s s'" for v req ptr p r
    using keeps_refl [OF ok] by (simp add: rfs_ops_def rnode_ioctl_def)
  show "vn_lseek (rfs_ops dx cb ab) v off wh s = KOk (r, s') \<Longrightarrow> keeps s s'" for v off wh r
    using rnode_simple_keeps(3) [OF ok] by (simp add: rfs_ops_def)
  show "vn_getattr (rfs_ops dx cb ab) v s = KOk (x, s') \<Longrightarrow> keeps s s'" for v x
    using keeps_refl [OF ok] by (simp add: rfs_ops_def rnode_getattr_def)
  show "vn_mkdir (rfs_ops dx cb ab) v nm p s = KOk (r, s') \<Longrightarrow> keeps s s'" for v nm p r
    using rnode_simple_keeps(4) [OF ok] by (simp add: rfs_ops_def)
  show "vn_getdents (rfs_ops dx cb ab) v b n p s = KOk (r, s') \<Longrightarrow> keeps s s'" for v b n p r
    using rnode_getdents_keeps [OF ok] by (simp add: rfs_ops_def)
  show "vn_lookup (rfs_ops dx cb ab) v nm ppv p s = KOk (r, ppv', s') \<Longrightarrow> if r = 0 then gives ppv' s s' else keeps s s'" for v nm ppv ppv' p r
    using rnode_lookup_law [OF ok] by (simp add: rfs_ops_def)
  show "counts s v = 0 \<Longrightarrow> vn_inactive (rfs_ops dx cb ab) v s = KOk (r, s') \<Longrightarrow> keeps s s'" for v r
    using rnode_inactive_law [OF ok] by (simp add: rfs_ops_def)
qed

end
