(* ===== verification/VfsRefs.thy ===== *)
theory VfsRefs
  imports FsInstances ProcInv
begin

text \<open>
  Reference counting across the file system task: path resolution returns exactly one new reference,
  whatever file systems it crosses, and every handler keeps the count of each vnode at least as large as
  the number of places that refer to it.
\<close>

section \<open>References\<close>

definition proc_refs :: "('w, 'a) vstate_scheme \<Rightarrow> nat \<Rightarrow> pid \<Rightarrow> nat" where
  "proc_refs s v p = (\<Sum>n<K_PROC_FD_COUNT. of_bool (fd_table s p n = Some v)) + of_bool (cdir s p = Some v)"

text \<open>Descriptors and current directories, the root directory, the roots a file system holds itself.\<close>

definition refs :: "('w, 'a) vstate_scheme \<Rightarrow> nat \<Rightarrow> nat" where
  "refs s v = (\<Sum>p\<in>pids. proc_refs s v p) + of_bool (vnroot s = Some v) + of_bool (\<exists>m. roots s m = Some v)"

definition vfs_inv :: "('w, 'a) vstate_scheme \<Rightarrow> bool" where
  "vfs_inv s \<longleftrightarrow> vnodes_ok s \<and> (\<forall>v. refs s v \<le> unat (counts s v))"

text \<open>No count is close to wrapping around.\<close>

definition small_counts :: "('w, 'a) vstate_scheme \<Rightarrow> bool" where
  "small_counts s \<longleftrightarrow> (\<forall>v. unat (counts s v) < 65000)"

lemma finite_pids [simp]: "finite pids"
  by (simp add: pids_def)

text \<open>A change in one process.\<close>

lemma refs_one:
  assumes "p \<in> pids" and "\<And>q. q \<noteq> p \<Longrightarrow> fd_table s' q = fd_table s q" and "\<And>q. q \<noteq> p \<Longrightarrow> cdir s' q = cdir s q"
    and "vnroot s' = vnroot s" and "\<And>m. roots s' m = roots s m"
  shows "refs s' v + proc_refs s v p = refs s v + proc_refs s' v p"
proof -
  have "(\<Sum>q\<in>pids - {p}. proc_refs s' v q) = (\<Sum>q\<in>pids - {p}. proc_refs s v q)"
    by (rule sum.cong) (auto simp: proc_refs_def assms(2,3))
  then show ?thesis using sum.remove [OF finite_pids assms(1), of "proc_refs s v"] sum.remove [OF finite_pids assms(1), of "proc_refs s' v"]
    by (simp add: refs_def assms(4,5))
qed

lemma refs_same:
  "cdir s' = cdir s \<Longrightarrow> fd_table s' = fd_table s \<Longrightarrow> vnroot s' = vnroot s \<Longrightarrow> (\<And>m. roots s' m = roots s m) \<Longrightarrow> refs s' v = refs s v"
  by (simp add: refs_def proc_refs_def)

lemma effect_refs: "effect c s s' \<Longrightarrow> refs s' v = refs s v"
  by (rule refs_same) (simp_all add: effect_def)

lemma fd_sum:
  "n < K_PROC_FD_COUNT \<Longrightarrow> (\<Sum>k<K_PROC_FD_COUNT. of_bool ((t(n := x)) k = Some v)) + of_bool (t n = Some v) =
     (\<Sum>k<K_PROC_FD_COUNT. of_bool (t k = Some v)) + (of_bool (x = Some v) :: nat)"
proof -
  assume n: "n < K_PROC_FD_COUNT"
  have "(\<Sum>k\<in>{..<K_PROC_FD_COUNT} - {n}. of_bool ((t(n := x)) k = Some v)) = (\<Sum>k\<in>{..<K_PROC_FD_COUNT} - {n}. (of_bool (t k = Some v) :: nat))"
    by (rule sum.cong) auto
  then show ?thesis using n sum.remove [of "{..<K_PROC_FD_COUNT}" n "\<lambda>k. of_bool ((t(n := x)) k = Some v) :: nat"]
    sum.remove [of "{..<K_PROC_FD_COUNT}" n "\<lambda>k. of_bool (t k = Some v) :: nat"] by simp
qed

lemma refs_set_fd:
  assumes "p \<in> pids" and "n < K_PROC_FD_COUNT"
  shows "refs (set_fd p n x s) v + of_bool (fd_table s p n = Some v) = refs s v + of_bool (x = Some v)"
  using refs_one [OF assms(1), of "set_fd p n x s" s v] fd_sum [OF assms(2), of "fd_table s p" x v]
  by (simp add: set_fd_def proc_refs_def)

lemma refs_set_cdir:
  assumes "p \<in> pids"
  shows "refs (s\<lparr>cdir := (cdir s)(p := x)\<rparr>) v + of_bool (cdir s p = Some v) = refs s v + of_bool (x = Some v)"
  using refs_one [OF assms, of "s\<lparr>cdir := (cdir s)(p := x)\<rparr>" s v] by (simp add: proc_refs_def)

text \<open>What is referred to has a reference.\<close>

lemma refs_pos:
  "p \<in> pids \<Longrightarrow> n < K_PROC_FD_COUNT \<Longrightarrow> fd_table s p n = Some v \<Longrightarrow> 0 < refs s v"
  "p \<in> pids \<Longrightarrow> cdir s p = Some v \<Longrightarrow> 0 < refs s v"
  "vnroot s = Some v \<Longrightarrow> 0 < refs s v" "roots s m = Some v \<Longrightarrow> 0 < refs s v"
proof -
  have one: "proc_refs s v p \<le> (\<Sum>q\<in>pids. proc_refs s v q)" if "p \<in> pids" using that by (intro member_le_sum) auto
  have fd: "(of_bool (fd_table s p n = Some v) :: nat) \<le> (\<Sum>k<K_PROC_FD_COUNT. of_bool (fd_table s p k = Some v))" if "n < K_PROC_FD_COUNT"
    using that by (intro member_le_sum [where f = "\<lambda>k. of_bool (fd_table s p k = Some v)"]) auto
  show "p \<in> pids \<Longrightarrow> n < K_PROC_FD_COUNT \<Longrightarrow> fd_table s p n = Some v \<Longrightarrow> 0 < refs s v"
    using one fd by (simp add: refs_def proc_refs_def)
  show "p \<in> pids \<Longrightarrow> cdir s p = Some v \<Longrightarrow> 0 < refs s v" using one by (simp add: refs_def proc_refs_def)
  show "vnroot s = Some v \<Longrightarrow> 0 < refs s v" by (simp add: refs_def)
  show "roots s m = Some v \<Longrightarrow> 0 < refs s v" by (auto simp: refs_def)
qed

lemma inv_held: "vfs_inv s \<Longrightarrow> 0 < refs s v \<Longrightarrow> counts s v \<noteq> 0"
  unfolding vfs_inv_def using unsigned_0 by (metis leD)

lemma inv_roots_held: "vfs_inv s \<Longrightarrow> roots_held s"
  using inv_held refs_pos(4) unfolding roots_held_def by blast

lemma effect_inv:
  assumes "effect c s s'" and "\<And>v. refs s v \<le> unat (c v)"
  shows "vfs_inv s'"
  using assms effect_refs [OF assms(1)] by (simp add: vfs_inv_def effect_def)

lemma keeps_inv: "vfs_inv s \<Longrightarrow> keeps s s' \<Longrightarrow> vfs_inv s'"
  unfolding keeps_def by (rule effect_inv) (auto simp: vfs_inv_def)

lemma keeps_small: "small_counts s \<Longrightarrow> keeps s s' \<Longrightarrow> small_counts s'"
  by (simp add: small_counts_def keeps_counts)

lemma plus_small: "unat c < 65000 \<Longrightarrow> unat (c + 1 :: u16) = unat c + 1" "unat c < 65000 \<Longrightarrow> (c :: u16) + 1 \<noteq> 0"
  "unat c < 65000 \<Longrightarrow> unat (c + 1 + 1 :: u16) = unat c + 2"
proof -
  assume c: "unat c < 65000"
  show 1: "unat (c + 1) = unat c + 1" using c by (simp add: unat_word_ariths(1))
  then show "c + 1 \<noteq> 0" by (metis add_is_0 one_neq_zero unsigned_0)
  show "unat (c + 1 + 1) = unat c + 2" using c by (simp add: unat_word_ariths(1))
qed

section \<open>Path resolution\<close>

text \<open>All file systems keep the contract.\<close>

locale vfs_ops =
  fixes ops :: "fsid \<Rightarrow> ('w, 'a) vstate_scheme fsops"
  assumes each: "file_system (ops k)"
begin

lemma rele_effect:
  assumes "vnodes_ok s" and "counts s v \<noteq> 0" and "VN_RELE ops v s = KOk s'"
  shows "effect ((counts s)(v := counts s v - 1)) s s'"
proof -
  let ?s1 = "upd_vnode v (\<lambda>n. n\<lparr>v_count := v_count n - 1\<rparr>) s"
  have "vnodes_ok ?s1" by (rule vnodes_ok_cong [OF assms(1)]) (use assms(2) in \<open>auto split: if_splits\<close>)
  then have e: "effect ((counts s)(v := counts s v - 1)) s ?s1" by (simp add: effect_def)
  show ?thesis
  proof (cases "counts ?s1 v = 0")
    case False
    with assms(2,3) e show ?thesis by (auto simp: VN_RELE_def Let_def)
  next
    case True
    then obtain k r where k: "vn_inactive (ops k) v ?s1 = KOk (r, s')"
      using assms(2,3) by (auto simp: VN_RELE_def vn_call_def Let_def kbind_KOk_iff split: option.splits if_splits)
    from effect_keeps [OF e file_system.inactive_law [OF each effect_ok(1) [OF e] True k]] show ?thesis .
  qed
qed

text \<open>Releasing the reference that was taken.\<close>

lemma rele_back:
  assumes "effect (plus_ref v c) s0 s" and "unat (c v) < 65000" and "VN_RELE ops v s = KOk s'"
  shows "effect c s0 s'"
proof -
  have cs: "counts s x = plus_ref v c x" for x using assms(1) by (simp add: effect_def)
  have "counts s v \<noteq> 0" using plus_small(2) [OF assms(2)] by (simp add: cs plus_ref_def)
  from rele_effect [OF effect_ok(1) [OF assms(1)] this assms(3)]
  have "effect c s s'" by (auto simp: effect_def cs plus_ref_def)
  with assms(1) show ?thesis by (rule effect_trans)
qed

lemma change_effect:
  assumes "effect (plus_ref v c) s0 s" and "\<And>x. unat (c x) < 65000" and "\<And>m x. roots s0 m = Some x \<Longrightarrow> c x \<noteq> 0"
    and "change_vfs ops v s = KOk (ppv, s')"
  shows "case ppv of None \<Rightarrow> effect c s0 s' | Some w \<Rightarrow> effect (plus_ref w c) s0 s'"
proof (cases "v_vfsmountedhere (vnodes s v)")
  case None
  with assms show ?thesis by (auto simp: change_vfs_def)
next
  case (Some m)
  obtain k r s1 where k: "vfs_root (ops k) m (Some v) s = KOk (r, ppv, s1)" and s': "VN_RELE ops v s1 = KOk s'"
    using assms(4) Some by (auto simp: change_vfs_def vfs_call_def kbind_KOk_iff split: option.splits)
  note ok = effect_ok(1) [OF assms(1)]
  have cs: "counts s x = plus_ref v c x" for x using assms(1) by (simp add: effect_def)
  have "roots_held s" unfolding roots_held_def
  proof (intro allI impI)
    fix m x assume "roots s m = Some x"
    then have "c x \<noteq> 0" using assms(1,3) by (simp add: effect_def)
    then show "counts s x \<noteq> 0" using plus_small(2) [OF assms(2)] by (simp add: cs plus_ref_def)
  qed
  from file_system.root_law [OF each ok this k] show ?thesis
  proof
    assume "gives ppv s s1"
    then obtain w where w: "ppv = Some w" "effect (plus_ref w (counts s)) s s1" by (auto simp: gives_def)
    have c1: "counts s1 x = plus_ref w (plus_ref v c) x" for x using w(2) cs by (auto simp: effect_def plus_ref_def)
    have nz: "counts s1 v \<noteq> 0"
    proof (cases "w = v")
      case True
      then have "counts s1 v = c v + 1 + 1" by (simp add: c1 plus_ref_def)
      then show ?thesis using plus_small(3) [OF assms(2), of v] by (metis add_is_0 unsigned_0 zero_neq_numeral)
    next
      case False
      then show ?thesis using plus_small(2) [OF assms(2)] by (simp add: c1 plus_ref_def)
    qed
    have "effect (plus_ref w c) s1 s'" using rele_effect [OF effect_ok(1) [OF w(2)] nz s'] by (auto simp: effect_def c1 plus_ref_def)
    with assms(1) w show ?thesis by (auto dest: effect_trans)
  next
    assume n: "ppv = None \<and> keeps s s1"
    with rele_back [OF effect_keeps [OF assms(1)] assms(2) s'] show ?thesis by auto
  qed
qed

lemma lookup_loop_effect:
  assumes "effect (plus_ref v c) s0 s" and "\<And>x. unat (c x) < 65000" and "\<And>m x. roots s0 m = Some x \<Longrightarrow> c x \<noteq> 0"
    and "lookup_loop ops p nm v s = KOk (r, ppv, s')"
  shows "if r \<noteq> 0 then effect c s0 s' else case ppv of None \<Rightarrow> effect c s0 s' | Some w \<Rightarrow> effect (plus_ref w c) s0 s'"
  using assms(1,4)
proof (induction "length nm" arbitrary: nm v s rule: less_induct)
  case less
  obtain ppv1 s1 where s1: "change_vfs ops v s = KOk (ppv1, s1)"
    using less.prems(2) by (subst (asm) lookup_loop.simps) (auto simp: kbind_KOk_iff split: if_splits)
  have c1: "case ppv1 of None \<Rightarrow> effect c s0 s1 | Some w \<Rightarrow> effect (plus_ref w c) s0 s1"
    by (rule change_effect [OF less.prems(1) assms(2) _ s1]) (rule assms(3))
  show ?case
  proof (cases "nm = []")
    case True
    then have "r = 0" "ppv = ppv1" "s' = s1" using less.prems(2) s1 by (simp_all add: lookup_loop.simps)
    with c1 show ?thesis by (cases ppv1) simp_all
  next
    case nm: False
    then obtain v1 where v1: "ppv1 = Some v1" using less.prems(2) s1 by (subst (asm) lookup_loop.simps) (auto split: option.splits)
    let ?e = "unat (subpathlen nm)" and ?rest = "trim_slash (drop (unat (subpathlen nm)) nm)"
    note rest = rest_less [OF nm]
    have e1: "effect (plus_ref v1 c) s0 s1" using c1 v1 by simp
    show ?thesis
    proof (cases "?e > 1 \<or> hd nm \<noteq> 46")
      case False
      then have "lookup_loop ops p ?rest v1 s1 = KOk (r, ppv, s')"
        using less.prems(2) s1 v1 nm by (subst (asm) lookup_loop.simps) (auto simp: Let_def)
      from less.hyps [OF rest e1 this] show ?thesis .
    next
      case True
      obtain k where op: "v_op (vnodes s1 v1) = Some k"
        using less.prems(2) s1 v1 nm True
        by (cases "v_op (vnodes s1 v1)") (auto simp: lookup_loop.simps [of ops p nm v s] Let_def vn_call_def)
      obtain ret ppv2 s2 s3 where k: "vn_lookup (ops k) v1 (take ?e nm @ [0]) (Some v1) p s1 = KOk (ret, ppv2, s2)"
        and s3: "VN_RELE ops v1 s2 = KOk s3"
        and fin: "(if ret \<noteq> 0 then KOk (ret, ppv2, s3) else case ppv2 of None \<Rightarrow> KFault | Some v2 \<Rightarrow> lookup_loop ops p ?rest v2 s3) = KOk (r, ppv, s')"
        using less.prems(2) s1 v1 nm True op
        by (auto simp: lookup_loop.simps [of ops p nm v s] Let_def kbind_KOk_iff vn_call_def)
      note law = file_system.lookup_law [OF each effect_ok(1) [OF e1] k]
      show ?thesis
      proof (cases "ret = 0")
        case False
        with law have "keeps s1 s2" by simp
        from rele_back [OF effect_keeps [OF e1 this] assms(2) s3] False fin show ?thesis by auto
      next
        case r0: True
        with law obtain w where w: "ppv2 = Some w" "effect (plus_ref w (counts s1)) s1 s2" by (auto simp: gives_def)
        have cs: "counts s2 x = plus_ref w (plus_ref v1 c) x" for x using w(2) e1 by (auto simp: effect_def plus_ref_def)
        have nz: "counts s2 v1 \<noteq> 0"
        proof (cases "w = v1")
          case True
          then have "counts s2 v1 = c v1 + 1 + 1" by (simp add: cs plus_ref_def)
          then show ?thesis using plus_small(3) [OF assms(2), of v1] by (metis add_is_0 unsigned_0 zero_neq_numeral)
        next
          case False
          then show ?thesis using plus_small(2) [OF assms(2)] by (simp add: cs plus_ref_def)
        qed
        have "effect (plus_ref w c) s2 s3" using rele_effect [OF effect_ok(1) [OF w(2)] nz s3] by (auto simp: effect_def cs plus_ref_def)
        then have e3: "effect (plus_ref w c) s0 s3" using e1 w(2) effect_trans by blast
        have "lookup_loop ops p ?rest w s3 = KOk (r, ppv, s')" using fin r0 w(1) by simp
        from less.hyps [OF rest e3 this] show ?thesis .
      qed
    qed
  qed
qed

text \<open>The result of \<open>_lookuppn\<close>: one more reference to what it returns, none otherwise.\<close>

lemma lookuppn_effect:
  assumes "vfs_inv s" and "small_counts s" and "lookuppn ops nm ppv0 p s = KOk (r, ppv, s')"
  shows "if r \<noteq> 0 then keeps s s' else case ppv of None \<Rightarrow> keeps s s' | Some w \<Rightarrow> effect (plus_ref w (counts s)) s s'"
proof -
  have ok: "vnodes_ok s" using assms(1) by (simp add: vfs_inv_def)
  let ?abs = "nm \<noteq> [] \<and> hd nm = 47"
  obtain start where st: "(if ?abs then KOk (vnroot s) else entry p (\<lambda>q. KOk (case cdir s q of None \<Rightarrow> vnroot s | Some v \<Rightarrow> Some v))) = KOk start"
    and fin: "(case start of None \<Rightarrow> KOk (- ENOENT, ppv0, s)
      | Some v \<Rightarrow> lookup_loop ops p (if ?abs then trim_slash nm else nm) v (VN_HOLD v s)) = KOk (r, ppv, s')"
    using assms(3) by (auto simp: lookuppn_def Let_def kbind_KOk_iff)
  show ?thesis
  proof (cases start)
    case None
    with fin keeps_refl [OF ok] show ?thesis by (auto simp: ENOENT_def)
  next
    case (Some v)
    then have "vnroot s = Some v \<or> (\<exists>q \<in> pids. cdir s q = Some v)"
      using st by (auto simp: entry_KOk split: if_splits option.splits)
    then have "counts s v \<noteq> 0" using inv_held [OF assms(1)] refs_pos(2,3) by blast
    note e = hold_held [OF ok this]
    have "lookup_loop ops p (if ?abs then trim_slash nm else nm) v (VN_HOLD v s) = KOk (r, ppv, s')" using fin Some by simp
    from lookup_loop_effect [OF e _ _ this] assms(2) inv_held [OF assms(1) refs_pos(4)] show ?thesis
      by (auto simp: small_counts_def keeps_def split: option.splits)
  qed
qed

end

end
