(* ===== verification/VfsInv.thy ===== *)
theory VfsInv
  imports VfsRefs
begin

text \<open>The handlers of the file system task keep the reference counts.\<close>

lemma kbindE: "kbind m f = KOk y \<Longrightarrow> (\<And>x. m = KOk x \<Longrightarrow> f x = KOk y \<Longrightarrow> Q) \<Longrightarrow> Q"
  by (auto simp: kbind_KOk_iff)

section \<open>Spare references\<close>

text \<open>\<open>w\<close> has a reference that no table accounts for yet.\<close>

definition spare :: "nat \<Rightarrow> ('w, 'a) vstate_scheme \<Rightarrow> bool" where
  "spare w s \<longleftrightarrow> vfs_inv s \<and> refs s w < unat (counts s w)"

lemma inv_tables:
  assumes "vfs_inv s" and "\<And>x. vnodes s' x = vnodes s x" and "\<And>i. list_head s' i = list_head s i" and "\<And>v. refs s' v \<le> unat (counts s v)"
  shows "vfs_inv s'"
proof -
  have "vnodes_ok s'" using assms(1) vnodes_ok_cong [of s s'] by (simp add: vfs_inv_def assms(2,3))
  then show ?thesis using assms(4) by (simp add: vfs_inv_def assms(2))
qed

lemma list_head_tables [simp]:
  "list_head (set_fd p n x s) i = list_head s i" "list_head (s\<lparr>cdir := cd\<rparr>) i = list_head s i" "list_head (s\<lparr>vnroot := r\<rparr>) i = list_head s i"
  "list_head (s\<lparr>cdir := cd, fd_table := ft\<rparr>) i = list_head s i" "vnodes (set_fd p n x s) = vnodes s"
  by (cases i; simp add: set_fd_def)+

lemma got_spare:
  assumes "vfs_inv s" and "small_counts s" and "effect (plus_ref w (counts s)) s s1"
  shows "spare w s1"
proof -
  have sm: "unat (counts s v) < 65000" for v using assms(2) by (simp add: small_counts_def)
  have le: "refs s v \<le> unat (plus_ref w (counts s) v)" for v
    using assms(1) plus_small(1) [OF sm [of w]] by (auto simp: vfs_inv_def plus_ref_def intro: le_SucI)
  have "refs s w < unat (plus_ref w (counts s) w)"
    using assms(1) plus_small(1) [OF sm [of w]] by (auto simp: vfs_inv_def plus_ref_def less_Suc_eq_le)
  with effect_inv [OF assms(3) le] show ?thesis using effect_refs [OF assms(3)] assms(3) by (simp add: spare_def effect_def)
qed

lemma spare_inv: "spare w s \<Longrightarrow> vfs_inv s"
  by (simp add: spare_def)

lemma spareD: "spare w s \<Longrightarrow> refs s v + of_bool (w = v) \<le> unat (counts s v)"
  by (cases "w = v") (simp_all add: spare_def vfs_inv_def)

lemma spare_keeps: "spare w s \<Longrightarrow> keeps s s' \<Longrightarrow> spare w s'"
  using keeps_inv effect_refs unfolding spare_def keeps_def by (metis effect_def)

lemma spare_fd: "spare w s \<Longrightarrow> p \<in> pids \<Longrightarrow> n < K_PROC_FD_COUNT \<Longrightarrow> vfs_inv (set_fd p n (Some w) s)"
proof -
  assume sp: "spare w s" and p: "p \<in> pids" and n: "n < K_PROC_FD_COUNT"
  have "refs (set_fd p n (Some w) s) v \<le> unat (counts s v)" for v
    using refs_set_fd [OF p n, of "Some w" s v] spareD [OF sp, of v] by simp
  then show ?thesis by (rule inv_tables [OF spare_inv [OF sp], rotated -1]) simp_all
qed

lemma spare_cdir: "spare w s \<Longrightarrow> p \<in> pids \<Longrightarrow> vfs_inv (s\<lparr>cdir := (cdir s)(p := Some w)\<rparr>)"
proof -
  assume sp: "spare w s" and p: "p \<in> pids"
  have "refs (s\<lparr>cdir := (cdir s)(p := Some w)\<rparr>) v \<le> unat (counts s v)" for v
    using refs_set_cdir [OF p, of s "Some w" v] spareD [OF sp, of v] by simp
  then show ?thesis by (rule inv_tables [OF spare_inv [OF sp], rotated -1]) simp_all
qed

lemma spare_root: "spare w s \<Longrightarrow> vfs_inv (s\<lparr>vnroot := Some w\<rparr>)"
proof -
  assume sp: "spare w s"
  have "refs (s\<lparr>vnroot := Some w\<rparr>) v \<le> unat (counts s v)" for v
    using spareD [OF sp, of v] by (simp add: refs_def proc_refs_def)
  then show ?thesis by (rule inv_tables [OF spare_inv [OF sp], rotated -1]) simp_all
qed

text \<open>A reference that a table gives up.\<close>

lemma dec_refs:
  assumes "vfs_inv s" and "0 < refs s v" and "effect ((counts s)(v := counts s v - 1)) s s1"
    and "refs s' v + 1 = refs s v" and "\<And>x. x \<noteq> v \<Longrightarrow> refs s' x = refs s x"
    and "\<And>x. vnodes s' x = vnodes s1 x" and "\<And>i. list_head s' i = list_head s1 i"
  shows "vfs_inv s'"
proof -
  have "vnodes_ok s'" using vnodes_ok_cong [OF effect_ok(1) [OF assms(3)], of s'] by (simp add: assms(6,7))
  moreover have "refs s' x \<le> unat (counts s' x)" for x
  proof (cases "x = v")
    case True
    have "refs s v \<le> unat (counts s v)" using assms(1) by (simp add: vfs_inv_def)
    moreover have "unat (counts s v - 1) = unat (counts s v) - 1" using inv_held [OF assms(1,2)] unat_minus_one by blast
    ultimately show ?thesis using True assms(3,4) by (simp add: effect_def assms(6))
  next
    case False
    then show ?thesis using assms(1,3,5) by (simp add: effect_def assms(6) vfs_inv_def)
  qed
  ultimately show ?thesis by (simp add: vfs_inv_def)
qed

lemma fd_none_inv: "vfs_inv s \<Longrightarrow> p \<in> pids \<Longrightarrow> n < K_PROC_FD_COUNT \<Longrightarrow> vfs_inv (vfs_free_fd p n s)"
proof -
  assume i: "vfs_inv s" and p: "p \<in> pids" "n < K_PROC_FD_COUNT"
  have le: "refs s v \<le> unat (counts s v)" for v using i by (simp add: vfs_inv_def)
  have "refs (set_fd p n None s) v \<le> unat (counts s v)" for v using refs_set_fd [OF p, of None s v] le [of v] by simp
  then show ?thesis unfolding vfs_free_fd_def by (rule inv_tables [OF i, rotated -1]) simp_all
qed

lemma alloc_fd_scan_cases:
  "alloc_fd_scan t ns < 0 \<and> (\<forall>n \<in> set ns. t n \<noteq> None) \<or> (\<exists>n \<in> set ns. alloc_fd_scan t ns = int n \<and> t n = None)"
  by (induction ns) auto

section \<open>FORK\<close>

lemma held_count: "length (filter (\<lambda>x. x = Some v) (map f [0..<n])) = (\<Sum>k<n. of_bool (f k = Some v))"
  by (induction n) auto

lemma hold_all_effect:
  assumes "vnodes_ok s" and "\<And>v. Some v \<in> set vs \<Longrightarrow> counts s v \<noteq> 0" and "\<And>v. unat (counts s v) + length vs < 65536"
  shows "effect (\<lambda>v. counts s v + of_nat (length (filter (\<lambda>x. x = Some v) vs))) s (hold_all vs s)"
  using assms
proof (induction vs arbitrary: s)
  case Nil
  then show ?case by (simp add: effect_def)
next
  case (Cons x vs)
  have lt: "unat (counts s v) + length vs < 65536" for v using Cons.prems(3) [of v] by simp
  show ?case
  proof (cases x)
    case None
    have "Some v \<in> set vs \<Longrightarrow> counts s v \<noteq> 0" for v using Cons.prems(2) [of v] by simp
    with Cons.IH [OF Cons.prems(1) this lt] None show ?thesis by simp
  next
    case (Some w)
    have e: "effect (plus_ref w (counts s)) s (VN_HOLD w s)" by (rule hold_held [OF Cons.prems(1)]) (use Cons.prems(2) Some in simp)
    have u: "unat (counts s w + 1) = unat (counts s w) + 1" using Cons.prems(3) [of w] by (simp add: unat_word_ariths(1))
    have cs: "counts (VN_HOLD w s) v = plus_ref w (counts s) v" for v using e by (simp add: effect_def)
    have a: "Some v \<in> set vs \<Longrightarrow> counts (VN_HOLD w s) v \<noteq> 0" for v
      using Cons.prems(2) [of v] u unfolding cs plus_ref_def by (cases "v = w") auto
    have b: "unat (counts (VN_HOLD w s) v) + length vs < 65536" for v
      using Cons.prems(3) [of v] u unfolding cs plus_ref_def by (cases "v = w") auto
    have "effect (\<lambda>v. counts (VN_HOLD w s) v + of_nat (length (filter (\<lambda>x. x = Some v) vs))) (VN_HOLD w s) (hold_all vs (VN_HOLD w s))"
      by (rule Cons.IH [OF effect_ok(1) [OF e]]) (use a b in blast)+
    then have "effect (\<lambda>v. counts (VN_HOLD w s) v + of_nat (length (filter (\<lambda>x. x = Some v) vs))) s (hold_all vs (VN_HOLD w s))"
      by (rule effect_trans [OF e])
    then show ?thesis using Some unfolding effect_def cs plus_ref_def by (auto simp: add_ac)
  qed
qed

lemma fork_inv:
  assumes "vfs_inv s" and "small_counts s" and "vfs_fork p pp child s = KOk (a, s')"
  shows "vfs_inv s'"
proof (cases "s' = s")
  case True
  with assms(1) show ?thesis by simp
next
  case False
  let ?s1 = "s\<lparr>cdir := (cdir s)(child := cdir s pp), fd_table := (fd_table s)(child := fd_table s pp)\<rparr>"
  let ?vs = "map (fd_table ?s1 pp) [0..<K_PROC_FD_COUNT]"
  have pp: "pp \<in> pids" "child \<in> pids"
    and s': "s' = (case cdir (hold_all ?vs ?s1) child of None \<Rightarrow> hold_all ?vs ?s1 | Some v \<Rightarrow> VN_HOLD v (hold_all ?vs ?s1))"
    using assms(3) False by (auto simp: vfs_fork_def Let_def kbind_KOk_iff entry_KOk split: if_splits)
  have sm: "unat (counts s v) < 65000" for v using assms(2) by (simp add: small_counts_def)
  have fd: "fd_table ?s1 pp = fd_table s pp" "cdir ?s1 child = cdir s pp" by simp_all
  have ok1: "vnodes_ok ?s1" using assms(1) vnodes_ok_cong [of s ?s1] by (simp add: vfs_inv_def)
  have held: "counts s v \<noteq> 0" if "(\<exists>n < K_PROC_FD_COUNT. fd_table s pp n = Some v) \<or> cdir s pp = Some v" for v
    using that inv_held [OF assms(1)] refs_pos(1,2) [of pp] pp by blast
  have h1: "counts ?s1 v \<noteq> 0" if "Some v \<in> set ?vs" for v
  proof -
    from that obtain n where "n < K_PROC_FD_COUNT" "fd_table s pp n = Some v" by auto
    then show ?thesis using held [of v] by auto
  qed
  have h2: "unat (counts ?s1 v) + length ?vs < 65536" for v using sm [of v] by (simp add: K_PROC_FD_COUNT_def)
  let ?k = "\<lambda>v. \<Sum>n<K_PROC_FD_COUNT. of_bool (fd_table s pp n = Some v) :: nat"
  have k16: "?k v \<le> 16" for v
  proof -
    have "?k v \<le> (\<Sum>n<K_PROC_FD_COUNT. 1)" by (rule sum_mono) auto
    then show ?thesis by (simp add: K_PROC_FD_COUNT_def)
  qed
  have "effect (\<lambda>v. counts ?s1 v + of_nat (length (filter (\<lambda>x. x = Some v) ?vs))) ?s1 (hold_all ?vs ?s1)"
    by (rule hold_all_effect [OF ok1]) (use h1 h2 in blast)+
  then have e: "effect (\<lambda>v. counts s v + of_nat (?k v)) ?s1 (hold_all ?vs ?s1)" unfolding held_count fd by simp
  let ?c = "\<lambda>v. counts s v + of_nat (?k v) + of_nat (of_bool (cdir s pp = Some v))"
  have u0: "unat (counts s v + of_nat (?k v)) = unat (counts s v) + ?k v" for v
    using sm [of v] k16 [of v] by (simp add: unat_word_ariths(1) unat_of_nat)
  have u: "unat (?c v) = unat (counts s v) + ?k v + of_bool (cdir s pp = Some v)" for v
    using sm [of v] k16 [of v] u0 [of v] by (auto simp: unat_word_ariths(1) [of "_ + of_nat _" 1])
  have e': "effect ?c ?s1 s'"
  proof (cases "cdir s pp")
    case None
    with e show ?thesis by (auto simp: s' effect_def)
  next
    case (Some w)
    have "counts s w \<noteq> 0" using held Some by blast
    then have "counts (hold_all ?vs ?s1) w \<noteq> 0" using e u0 [of w] by (auto simp: effect_def unat_eq_0 simp flip: unsigned_eq_0_iff)
    from hold_held [OF effect_ok(1) [OF e] this] Some e show ?thesis by (auto simp: s' effect_def plus_ref_def)
  qed
  have r: "refs ?s1 v + proc_refs s v child = refs s v + proc_refs ?s1 v child" for v
    by (rule refs_one [OF pp(2)]) simp_all
  have y: "proc_refs ?s1 v child = ?k v + of_bool (cdir s pp = Some v)" for v by (simp add: proc_refs_def)
  have le: "refs s v \<le> unat (counts s v)" for v using assms(1) by (simp add: vfs_inv_def)
  have "refs ?s1 v \<le> unat (?c v)" for v using r [of v] y [of v] le [of v] u [of v] by linarith
  with e' show ?thesis by (rule effect_inv)
qed

context vfs_ops begin

lemma spare_rele:
  assumes "spare w s" and "VN_RELE ops w s = KOk s'"
  shows "vfs_inv s'"
proof -
  have ok: "vnodes_ok s" and lt: "refs s w < unat (counts s w)" using assms(1) by (simp_all add: spare_def vfs_inv_def)
  have nz: "counts s w \<noteq> 0" using lt by auto
  have "unat (counts s w - 1) = unat (counts s w) - 1" using nz unat_minus_one by blast
  then have "refs s v \<le> unat (((counts s)(w := counts s w - 1)) v)" for v using spareD [OF assms(1), of v] lt by auto
  with effect_inv [OF rele_effect [OF ok nz assms(2)]] show ?thesis .
qed

lemma close_inv:
  assumes "vfs_inv s" and "p \<in> pids" and "n < K_PROC_FD_COUNT" and "fd_table s p n = Some v" and "VN_RELE ops v s = KOk s1"
  shows "vfs_inv (vfs_free_fd p n s1)"
proof -
  note pos = refs_pos(1) [OF assms(2-4)]
  have ok: "vnodes_ok s" using assms(1) by (simp add: vfs_inv_def)
  note e = rele_effect [OF ok inv_held [OF assms(1) pos] assms(5)]
  have fd: "fd_table s1 p n = Some v" using e assms(4) by (simp add: effect_def)
  have r: "refs (set_fd p n None s1) x + of_bool (x = v) = refs s x" for x
    using refs_set_fd [OF assms(2,3), of None s1 x] effect_refs [OF e] fd by (auto simp: of_bool_def split: if_splits)
  let ?s' = "set_fd p n None s1"
  show ?thesis unfolding vfs_free_fd_def
  proof (rule dec_refs [OF assms(1) pos e])
    show "refs ?s' v + 1 = refs s v" using r [of v] by simp
    show "refs ?s' x = refs s x" if "x \<noteq> v" for x using r [of x] that by simp
  qed simp_all
qed

lemma cdir_none_inv:
  assumes "vfs_inv s" and "p \<in> pids" and "cdir s p = Some v" and "VN_RELE ops v s = KOk s1"
  shows "vfs_inv (s1\<lparr>cdir := (cdir s1)(p := None)\<rparr>)"
proof -
  note pos = refs_pos(2) [OF assms(2,3)]
  have ok: "vnodes_ok s" using assms(1) by (simp add: vfs_inv_def)
  note e = rele_effect [OF ok inv_held [OF assms(1) pos] assms(4)]
  have cd: "cdir s1 p = Some v" using e assms(3) by (simp add: effect_def)
  have r: "refs (s1\<lparr>cdir := (cdir s1)(p := None)\<rparr>) x + of_bool (x = v) = refs s x" for x
    using refs_set_cdir [OF assms(2), of s1 None x] effect_refs [OF e] cd by (auto simp: of_bool_def split: if_splits)
  let ?s' = "s1\<lparr>cdir := (cdir s1)(p := None)\<rparr>"
  show ?thesis
  proof (rule dec_refs [OF assms(1) pos e])
    show "refs ?s' v + 1 = refs s v" using r [of v] by simp
    show "refs ?s' x = refs s x" if "x \<noteq> v" for x using r [of x] that by simp
  qed simp_all
qed

text \<open>A call of an operation that keeps the counts.\<close>

lemma call_keeps:
  assumes "vn_call ops v h s = KOk (r, s')" and "\<And>k. h (ops k) = KOk (r, s') \<Longrightarrow> keeps s s'"
  shows "keeps s s'"
  using assms by (auto simp: vn_call_def split: option.splits)

lemma open_keeps: "vnodes_ok s \<Longrightarrow> vn_call ops v (\<lambda>f. vn_open f v fl p s) s = KOk (r, s') \<Longrightarrow> keeps s s'"
  by (erule call_keeps) (rule file_system.open_law [OF each])

lemma close_keeps: "vnodes_ok s \<Longrightarrow> vn_call ops v (\<lambda>f. vn_close f v p s) s = KOk (r, s') \<Longrightarrow> keeps s s'"
  by (erule call_keeps) (rule file_system.close_law [OF each])

lemma mkdir_keeps: "vnodes_ok s \<Longrightarrow> vn_call ops v (\<lambda>f. vn_mkdir f v nm p s) s = KOk (r, s') \<Longrightarrow> keeps s s'"
  by (erule call_keeps) (rule file_system.mkdir_law [OF each])

lemma getattr_keeps: "vnodes_ok s \<Longrightarrow> vn_call ops v (\<lambda>f. vn_getattr f v s) s = KOk (r, s') \<Longrightarrow> keeps s s'"
  by (erule call_keeps) (rule file_system.getattr_law [OF each])

lemma read_keeps: "vnodes_ok s \<Longrightarrow> vn_call ops v (\<lambda>f. vn_read f v b n p s) s = KOk (r, s') \<Longrightarrow> keeps s s'"
  by (erule call_keeps) (rule file_system.read_law [OF each])

lemma write_keeps: "vnodes_ok s \<Longrightarrow> vn_call ops v (\<lambda>f. vn_write f v b n p s) s = KOk (r, s') \<Longrightarrow> keeps s s'"
  by (erule call_keeps) (rule file_system.write_law [OF each])

lemma getdents_keeps: "vnodes_ok s \<Longrightarrow> vn_call ops v (\<lambda>f. vn_getdents f v b n p s) s = KOk (r, s') \<Longrightarrow> keeps s s'"
  by (erule call_keeps) (rule file_system.getdents_law [OF each])

lemma lseek_keeps: "vnodes_ok s \<Longrightarrow> vn_call ops v (\<lambda>f. vn_lseek f v off wh s) s = KOk (r, s') \<Longrightarrow> keeps s s'"
  by (erule call_keeps) (rule file_system.lseek_law [OF each])

lemma ioctl_keeps: "vnodes_ok s \<Longrightarrow> vn_call ops v (\<lambda>f. vn_ioctl f v rq ptr p s) s = KOk (r, s') \<Longrightarrow> keeps s s'"
  by (erule call_keeps) (rule file_system.ioctl_law [OF each])

text \<open>Requests on an open descriptor.\<close>

lemma transfer_inv:
  assumes "vfs_inv s"
  shows "vfs_read ops p n b cnt s = KOk (a, s') \<Longrightarrow> vfs_inv s'" "vfs_write ops p n b cnt s = KOk (a, s') \<Longrightarrow> vfs_inv s'"
    "vfs_getdents ops p n b cnt s = KOk (a, s') \<Longrightarrow> vfs_inv s'" "vfs_lseek ops p n off wh s = KOk (a, s') \<Longrightarrow> vfs_inv s'"
    "vfs_ioctl ops p n rq ptr s = KOk (a, s') \<Longrightarrow> vfs_inv s'"
proof -
  have ok: "vnodes_ok s" using assms by (simp add: vfs_inv_def)
  note k = keeps_inv [OF assms]
  show "vfs_read ops p n b cnt s = KOk (a, s') \<Longrightarrow> vfs_inv s'"
    using assms k read_keeps [OF ok] by (auto simp: vfs_read_def Let_def kbind_KOk_iff split: if_splits option.splits)
  show "vfs_write ops p n b cnt s = KOk (a, s') \<Longrightarrow> vfs_inv s'"
    using assms k write_keeps [OF ok] by (auto simp: vfs_write_def Let_def kbind_KOk_iff split: if_splits option.splits)
  show "vfs_getdents ops p n b cnt s = KOk (a, s') \<Longrightarrow> vfs_inv s'"
    using assms k getdents_keeps [OF ok] by (auto simp: vfs_getdents_def Let_def kbind_KOk_iff split: if_splits option.splits)
  show "vfs_lseek ops p n off wh s = KOk (a, s') \<Longrightarrow> vfs_inv s'"
    using assms k lseek_keeps [OF ok] by (auto simp: vfs_lseek_def kbind_KOk_iff split: option.splits)
  show "vfs_ioctl ops p n rq ptr s = KOk (a, s') \<Longrightarrow> vfs_inv s'"
    using assms k ioctl_keeps [OF ok] by (auto simp: vfs_ioctl_def kbind_KOk_iff split: option.splits)
qed

text \<open>The outcome of a look-up: an error, nothing, or a vnode with a spare reference.\<close>

lemma lookup_cases:
  assumes "vfs_inv s" and "small_counts s" and "lookuppn ops nm ppv0 p s = KOk (r, ppv, s1)"
  shows "vfs_inv s1 \<and> (r = 0 \<longrightarrow> ppv \<noteq> None \<longrightarrow> spare (the ppv) s1)"
proof -
  note l = lookuppn_effect [OF assms]
  show ?thesis
  proof (cases "r \<noteq> 0 \<or> ppv = None")
    case True
    then have "keeps s s1" using l by (auto split: if_splits)
    with True keeps_inv [OF assms(1)] show ?thesis by auto
  next
    case False
    then obtain w where "ppv = Some w" "effect (plus_ref w (counts s)) s s1" using l by auto
    with got_spare [OF assms(1,2)] spare_inv show ?thesis by auto
  qed
qed

lemma open_inv:
  assumes "vfs_inv s" and "small_counts s" and "vfs_open ops p va len fl s = KOk (a, s')"
  shows "vfs_inv s'"
proof -
  consider "s' = s"
    | nm r ppv s1 where "lookuppn ops nm None p s = KOk (r, ppv, s1)"
        "(if r \<noteq> 0 then KOk (ANS r, s1)
         else case ppv of None \<Rightarrow> KFault
         | Some pvn \<Rightarrow>
             kbind (vfs_alloc_fd p s1) (\<lambda>n.
             if n < 0 then kbind (VN_RELE ops pvn s1) (\<lambda>s2. KOk (ANS (- EMFILE), s2))
             else
               kbind (vn_call ops pvn (\<lambda>f. vn_open f pvn fl p s1) s1) (\<lambda>(r', s2).
               if r' \<noteq> 0 then kbind (VN_RELE ops pvn s2) (\<lambda>s3. KOk (ANS r', vfs_free_fd p (nat n) s3))
               else KOk (ANS n, set_fd p (nat n) (Some pvn) s2)))) = KOk (a, s')"
    using assms(3) by (cases "ram_str (ram s) (va + mem_ad (desc s p))") (auto simp: vfs_open_def va_to_pa_def entry_KOk kbind_KOk_iff split: if_splits option.splits)
  then show ?thesis
  proof cases
    case 1
    with assms(1) show ?thesis by simp
  next
    case 2
    note l = lookup_cases [OF assms(1,2) 2(1)]
    show ?thesis
    proof (cases "r = 0")
      case False
      with 2(2) l show ?thesis by simp
    next
      case True
      then obtain v n where v: "ppv = Some v" and n: "vfs_alloc_fd p s1 = KOk n"
        using 2(2) by (auto simp: kbind_KOk_iff split: option.splits)
      have sp: "spare v s1" using l True v by simp
      then have ok: "vnodes_ok s1" by (simp add: spare_def vfs_inv_def)
      have p: "p \<in> pids" and "n = alloc_fd_scan (fd_table s1 p) [0..<K_PROC_FD_COUNT]" using n by (simp_all add: vfs_alloc_fd_def entry_KOk)
      then have nn: "n < 0 \<or> nat n < K_PROC_FD_COUNT" using alloc_fd_scan_cases [of "fd_table s1 p" "[0..<K_PROC_FD_COUNT]"] by auto
      show ?thesis
      proof (cases "n < 0")
        case neg: True
        with 2(2) True v n spare_rele [OF sp] show ?thesis by (auto simp: kbind_KOk_iff)
      next
        case pos: False
        then obtain r' s2 where o: "vn_call ops v (\<lambda>f. vn_open f v fl p s1) s1 = KOk (r', s2)" using 2(2) True v n by (auto simp: kbind_KOk_iff)
        note sp2 = spare_keeps [OF sp open_keeps [OF ok o]]
        have lt: "nat n < K_PROC_FD_COUNT" using nn pos by simp
        show ?thesis using 2(2) True v n pos o fd_none_inv [OF spare_rele [OF sp2] p lt] spare_fd [OF sp2 p lt]
          by (auto simp: kbind_KOk_iff split: if_splits)
      qed
    qed
  qed
qed

lemma close_handler_inv:
  assumes "vfs_inv s" and "vfs_close ops p n s = KOk (a, s')"
  shows "vfs_inv s'"
proof (cases "s' = s")
  case True
  with assms(1) show ?thesis by simp
next
  case False
  obtain v r s1 s2 where v: "vfs_vnode_from_fd p n s = KOk (Some v)" and c: "vn_call ops v (\<lambda>f. vn_close f v p s) s = KOk (r, s1)"
    and s2: "VN_RELE ops v s1 = KOk s2" and s': "s' = vfs_free_fd p (unat n) s2"
    using assms(2) False by (auto simp: vfs_close_def kbind_KOk_iff split: option.splits)
  have p: "p \<in> pids" "unat n < K_PROC_FD_COUNT" "fd_table s p (unat n) = Some v"
    using v by (auto simp: vfs_vnode_from_fd_def entry_KOk split: if_splits)
  have ok: "vnodes_ok s" using assms(1) by (simp add: vfs_inv_def)
  note k = close_keeps [OF ok c]
  have "fd_table s1 p (unat n) = Some v" using k p(3) by (simp add: keeps_def effect_def)
  from close_inv [OF keeps_inv [OF assms(1) k] p(1,2) this s2] show ?thesis by (simp add: s')
qed

lemma chdir_inv:
  assumes "vfs_inv s" and "small_counts s" and "vfs_chdir ops p va len s = KOk (a, s')"
  shows "vfs_inv s'"
proof (cases "len = 0 \<or> unat len > K_MAX_DIRNAME_LEN")
  case True
  with assms(1,3) show ?thesis by (simp add: vfs_chdir_def)
next
  case len: False
  let ?found = "\<lambda>(r, ppv, s1). if r \<noteq> 0 then KOk (ANS r, s1)
      else case ppv of None \<Rightarrow> KFault
      | Some pvn \<Rightarrow>
          if v_type (vnodes s1 pvn) \<noteq> VDIR then kbind (VN_RELE ops pvn s1) (\<lambda>s2. KOk (ANS (- ENOTDIR), s2))
          else KOk (ANS 0, s1\<lparr>cdir := (cdir s1)(p := Some pvn)\<rparr>)"
  have "kbind (va_to_pa p va (ucast len) s) (\<lambda>path.
        if path = 0 then KOk (ANS (- EFAULT), s)
        else if ram s (path + (ucast len - 1)) \<noteq> 0 then KOk (ANS (- EINVAL), s)
        else case ram_str (ram s) path of None \<Rightarrow> KHang | Some nm \<Rightarrow> kbind (lookuppn ops nm None p s) ?found) = KOk (a, s')"
    using assms(3) len by (simp only: vfs_chdir_def if_False)
  then obtain path where v: "va_to_pa p va (ucast len) s = KOk path"
    and fin: "(if path = 0 then KOk (ANS (- EFAULT), s)
        else if ram s (path + (ucast len - 1)) \<noteq> 0 then KOk (ANS (- EINVAL), s)
        else case ram_str (ram s) path of None \<Rightarrow> KHang | Some nm \<Rightarrow> kbind (lookuppn ops nm None p s) ?found) = KOk (a, s')"
    by (rule kbindE)
  have p: "p \<in> pids" using v by (auto simp: va_to_pa_def entry_KOk)
  show ?thesis
  proof (cases "path = 0 \<or> ram s (path + (ucast len - 1)) \<noteq> 0")
    case True
    with fin assms(1) show ?thesis by (auto split: if_splits)
  next
    case False
    with fin obtain nm where "kbind (lookuppn ops nm None p s) ?found = KOk (a, s')" by (cases "ram_str (ram s) path") simp_all
    then obtain x where x: "lookuppn ops nm None p s = KOk x" "?found x = KOk (a, s')" by (rule kbindE)
    obtain r ppv s1 where x3: "x = (r, ppv, s1)" by (cases x)
    note l = lookup_cases [OF assms(1,2) x(1) [unfolded x3]]
    show ?thesis
    proof (cases "r = 0")
      case False
      with x(2) x3 l show ?thesis by simp
    next
      case True
      then obtain v where v: "ppv = Some v" using x(2) x3 by (cases ppv) simp_all
      have sp: "spare v s1" using l True v by simp
      from x(2) x3 True v spare_rele [OF sp] spare_cdir [OF sp p] show ?thesis by (auto simp: kbind_KOk_iff split: if_splits)
    qed
  qed
qed

lemma mkdir_in_inv:
  assumes "spare v s" and "mkdir_in ops p pa len1 v s = KOk (a, s')"
  shows "vfs_inv s'"
proof (cases "v_type (vnodes s v) = VDIR")
  case False
  with assms(2) spare_rele [OF assms(1)] show ?thesis by (auto simp: mkdir_in_def kbind_KOk_iff)
next
  case True
  have ok: "vnodes_ok s" using assms(1) by (simp add: spare_def vfs_inv_def)
  from assms(2) True obtain nm r s2 s3 where m: "vn_call ops v (\<lambda>f. vn_mkdir f v nm p s) s = KOk (r, s2)"
    and s3: "VN_RELE ops v s2 = KOk s3" and s': "s' = s3"
    by (auto simp: mkdir_in_def Let_def kbind_KOk_iff split: option.splits)
  from spare_rele [OF spare_keeps [OF assms(1) mkdir_keeps [OF ok m]] s3] show ?thesis by (simp add: s')
qed

lemma mkdir_inv:
  assumes "vfs_inv s" and "small_counts s" and "vfs_mkdir ops p va len s = KOk (a, s')"
  shows "vfs_inv s'"
proof -
  consider "s' = s"
    | nm pa n r ppv s1 where "lookuppn ops nm None p s = KOk (r, ppv, s1)"
        "(if r \<noteq> 0 then KOk (ANS r, s1) else (case ppv of None \<Rightarrow> KFault | Some pvn \<Rightarrow> mkdir_in ops p pa n pvn s1)) = KOk (a, s')"
    using assms(3) by (auto simp: vfs_mkdir_def Let_def va_to_pa_def entry_KOk kbind_KOk_iff split: if_splits option.splits prod.splits)
  then show ?thesis
  proof cases
    case 1
    with assms(1) show ?thesis by simp
  next
    case 2
    note l = lookup_cases [OF assms(1,2) 2(1)]
    show ?thesis using l 2(2) mkdir_in_inv by (auto split: if_splits option.splits)
  qed
qed

text \<open>Requests of the system task.\<close>

lemma close_fds_inv: "vfs_inv s \<Longrightarrow> p \<in> pids \<Longrightarrow> \<forall>n \<in> set ns. n < K_PROC_FD_COUNT \<Longrightarrow> close_fds ops p ns s = KOk s' \<Longrightarrow> vfs_inv s'"
proof (induction ns arbitrary: s)
  case (Cons n ns)
  have n: "unat (of_nat n :: u32) = n" using Cons.prems(3) by (simp add: unat_of_nat K_PROC_FD_COUNT_def)
  have fd: "vfs_vnode_from_fd p (of_nat n) s = KOk (fd_table s p n)" using Cons.prems(2,3) by (simp add: vfs_vnode_from_fd_def n entry_def pids_def K_PROC_COUNT_def)
  show ?case
  proof (cases "fd_table s p n")
    case None
    with Cons fd show ?thesis by simp
  next
    case (Some v)
    with Cons.prems(4) fd obtain r s1 s2 where c: "vn_call ops v (\<lambda>f. vn_close f v p s) s = KOk (r, s1)"
      and s2: "VN_RELE ops v s1 = KOk s2" and fin: "close_fds ops p ns (vfs_free_fd p n s2) = KOk s'"
      by (auto simp: kbind_KOk_iff)
    have ok: "vnodes_ok s" using Cons.prems(1) by (simp add: vfs_inv_def)
    note k = close_keeps [OF ok c]
    have t: "fd_table s1 p n = Some v" using k Some by (simp add: keeps_def effect_def)
    have lt: "n < K_PROC_FD_COUNT" using Cons.prems(3) by simp
    from close_inv [OF keeps_inv [OF Cons.prems(1) k] Cons.prems(2) lt t s2] Cons.IH [OF _ Cons.prems(2) _ fin] Cons.prems(3)
    show ?thesis by simp
  qed
qed simp

lemma kill_inv:
  assumes "vfs_inv s" and "victim \<in> pids" and "vfs_kill ops p victim s = KOk (a, s')"
  shows "vfs_inv s'"
proof (cases "p = PROC_PID_SYSTEM_TASK")
  case False
  with assms show ?thesis by (simp add: vfs_kill_def)
next
  case True
  obtain s1 where s1: "close_fds ops victim [0..<K_PROC_FD_COUNT] s = KOk s1" using assms(3) True by (auto simp: vfs_kill_def kbind_KOk_iff)
  have i: "vfs_inv s1" by (rule close_fds_inv [OF assms(1,2) _ s1]) simp
  show ?thesis
  proof (cases "cdir s1 victim")
    case None
    with i assms(3) s1 True show ?thesis by (auto simp: vfs_kill_def entry_KOk)
  next
    case (Some v)
    then obtain s2 where "VN_RELE ops v s1 = KOk s2" "s' = s2\<lparr>cdir := (cdir s2)(victim := None)\<rparr>"
      using assms(3) s1 True by (auto simp: vfs_kill_def entry_KOk kbind_KOk_iff)
    with cdir_none_inv [OF i assms(2) Some] show ?thesis by simp
  qed
qed

lemma sysdir_inv:
  assumes "vfs_inv s" and "small_counts s" and "vfs_sysdir ops src p s = KOk (a, s')"
  shows "vfs_inv s'"
proof -
  have z: "0 \<in> pids" by (simp add: pids_def K_PROC_COUNT_def)
  have ok: "vnodes_ok s" using assms(1) by (simp add: vfs_inv_def)
  have le: "refs s x \<le> unat (counts s x)" for x using assms(1) by (simp add: vfs_inv_def)
  have sm: "unat (counts s v) < 65000" for v using assms(2) by (simp add: small_counts_def)
  consider "s' = s" | v s1 where "cdir s 0 = Some v" "VN_RELE ops v s = KOk s1" "s' = s1\<lparr>cdir := (cdir s1)(0 := None)\<rparr>"
    | "p \<in> pids" "s' = (case cdir s p of None \<Rightarrow> s\<lparr>cdir := (cdir s)(0 := cdir s p)\<rparr> | Some v \<Rightarrow> VN_HOLD v (s\<lparr>cdir := (cdir s)(0 := cdir s p)\<rparr>))"
    using assms(3) by (auto simp: vfs_sysdir_def Let_def entry_KOk kbind_KOk_iff split: if_splits option.splits)
  then show ?thesis
  proof cases
    case 1
    with assms(1) show ?thesis by simp
  next
    case 2
    from cdir_none_inv [OF assms(1) z 2(1,2)] show ?thesis by (simp add: 2(3))
  next
    case 3
    let ?s1 = "s\<lparr>cdir := (cdir s)(0 := cdir s p)\<rparr>"
    have r: "refs ?s1 x + of_bool (cdir s 0 = Some x) = refs s x + of_bool (cdir s p = Some x)" for x by (rule refs_set_cdir [OF z])
    show ?thesis
    proof (cases "cdir s p")
      case None
      have "refs ?s1 x \<le> unat (counts s x)" for x using r [of x] le [of x] None by simp
      then have "vfs_inv ?s1" by (rule inv_tables [OF assms(1), rotated -1]) simp_all
      with 3(2) None show ?thesis by simp
    next
      case (Some v)
      have nz: "counts s v \<noteq> 0" using inv_held [OF assms(1) refs_pos(2) [OF 3(1) Some]] .
      have ok1: "vnodes_ok ?s1" by (rule vnodes_ok_cong [OF ok]) simp_all
      have "counts ?s1 v \<noteq> 0" using nz by simp
      from hold_held [OF ok1 this] have e: "effect (plus_ref v (counts s)) ?s1 (VN_HOLD v ?s1)" by simp
      have "refs ?s1 x \<le> unat (plus_ref v (counts s) x)" for x
        using r [of x] le [of x] plus_small(1) [OF sm [of v]] Some by (cases "x = v") (auto simp: plus_ref_def)
      from effect_inv [OF e this] 3(2) Some show ?thesis by simp
    qed
  qed
qed

end

end
