(* ===== verification/VfsService.thy ===== *)
theory VfsService
  imports VfsInv
begin

text \<open>Mounting a file system, and the whole service of a message, keep the reference counts.\<close>

section \<open>Several references at once\<close>

definition below :: "nat \<Rightarrow> ('w, 'a) vstate_scheme \<Rightarrow> bool" where
  "below n s \<longleftrightarrow> (\<forall>v. unat (counts s v) < n)"

lemma below_small: "below n s \<Longrightarrow> n \<le> 65000 \<Longrightarrow> small_counts s"
  unfolding below_def small_counts_def by (meson less_le_trans)

lemma below_keeps: "below n s \<Longrightarrow> keeps s s' \<Longrightarrow> below n s'"
  by (simp add: below_def keeps_counts)

lemma below_mono: "below n s \<Longrightarrow> n \<le> m \<Longrightarrow> below m s"
  unfolding below_def by (meson less_le_trans)

lemma below_plus:
  assumes "below n s" and "n \<le> 65000" and "\<And>v. counts s' v = plus_ref w (counts s) v"
  shows "below (Suc n) s'"
  unfolding below_def
proof
  fix v
  have "unat (counts s v) < n" "unat (counts s w) < n" using assms(1) by (simp_all add: below_def)
  then show "unat (counts s' v) < Suc n" using plus_small(1) [of "counts s w"] assms(2,3) by (auto simp: plus_ref_def)
qed

lemma spare_effect:
  assumes "spare w s" and "small_counts s" and "effect (plus_ref v (counts s)) s s'"
  shows "vnodes_ok s' \<and> (\<forall>x. refs s' x + of_bool (w = x) + of_bool (v = x) \<le> unat (counts s' x))"
proof -
  have sm: "unat (counts s x) < 65000" for x using assms(2) by (simp add: small_counts_def)
  have "refs s' x + of_bool (w = x) + of_bool (v = x) \<le> unat (counts s' x)" for x
    using spareD [OF assms(1), of x] plus_small(1) [OF sm [of v]] effect_refs [OF assms(3), of x] assms(3) by (auto simp: effect_def plus_ref_def)
  with assms(3) show ?thesis by (simp add: effect_def)
qed

section \<open>MOUNT\<close>

context vfs_ops begin

lemma rele_one_of_two:
  assumes "vnodes_ok s" and "\<And>x. refs s x + of_bool (w = x) + of_bool (v = x) \<le> unat (counts s x)" and "VN_RELE ops w s = KOk s'"
  shows "spare v s'"
proof -
  have w: "refs s w + of_bool (v = w) < unat (counts s w)" using assms(2) [of w] by simp
  then have nz: "counts s w \<noteq> 0" by auto
  have u: "unat (counts s w - 1) = unat (counts s w) - 1" using nz unat_minus_one by blast
  note e = rele_effect [OF assms(1) nz assms(3)]
  have c: "counts s' x = ((counts s)(w := counts s w - 1)) x" for x using e by (simp add: effect_def)
  have all: "refs s' x + of_bool (v = x) \<le> unat (counts s' x)" for x
  proof (cases "x = w")
    case True
    then show ?thesis using w u effect_refs [OF e, of w] by (simp add: c)
  next
    case False
    then show ?thesis using assms(2) [of x] effect_refs [OF e, of x] by (simp add: c)
  qed
  have "refs s' x \<le> unat (counts s' x)" for x using all [of x] by simp
  moreover have "refs s' v < unat (counts s' v)" using all [of v] by simp
  ultimately show ?thesis using e by (simp add: spare_def vfs_inv_def effect_def)
qed

lemma mount_unmount_inv: "vfs_inv s \<Longrightarrow> mount_unmount ops m r s = KOk (a, s') \<Longrightarrow> vfs_inv s'"
proof -
  assume i: "vfs_inv s" and m: "mount_unmount ops m r s = KOk (a, s')"
  then obtain k r' where "vfs_unmount (ops k) m s = KOk (r', s')"
    by (auto simp: mount_unmount_def vfs_call_def kbind_KOk_iff split: option.splits)
  then have "keeps s s'" using i file_system.unmount_law [OF each] unfolding vfs_inv_def by blast
  with i show ?thesis by (rule keeps_inv)
qed

lemma mount_link_same:
  "vnodes (mount_link m s) = vnodes s" "list_head (mount_link m s) i = list_head s i" "cdir (mount_link m s) = cdir s"
  "fd_table (mount_link m s) = fd_table s" "vnroot (mount_link m s) = vnroot s" "roots (mount_link m s) k = roots s k"
  by (cases i; simp add: mount_link_def Let_def)+

lemma mount_link_inv: "vfs_inv s \<Longrightarrow> vfs_inv (mount_link m s)"
proof -
  assume i: "vfs_inv s"
  have "refs (mount_link m s) v = refs s v" for v by (rule refs_same) (simp_all add: mount_link_same)
  then show ?thesis by (intro inv_tables [OF i]) (use i in \<open>simp_all add: mount_link_same vfs_inv_def\<close>)
qed

lemma mount_at_inv:
  assumes "spare rt s" and "small_counts s" and "mount_at e ops p m rt path resp s = KOk (a, s')"
  shows "vfs_inv s'"
proof (cases "path = [47]")
  case True
  show ?thesis
  proof (cases "used_vfs s = None")
    case False
    with assms(3) True obtain s1 where "VN_RELE ops rt s = KOk s1" "mount_unmount ops m (- EBUSY) s1 = KOk (a, s')"
      by (auto simp: mount_at_def kbind_KOk_iff)
    with mount_unmount_inv spare_rele [OF assms(1)] show ?thesis by blast
  next
    case None: True
    let ?s1 = "(upd_vfs m (\<lambda>f. f\<lparr>vfs_vnodecovered := None\<rparr>) s)\<lparr>vnroot := Some rt\<rparr>"
    let ?s2 = "?s1\<lparr>ram := store32 (ram ?s1) (junk_pvn_at e + 6) (vfs_addr e m)\<rparr>"
    have s': "s' = mount_link m ?s2" using assms(3) True None by (simp add: mount_at_def Let_def)
    have h: "list_head ?s2 i = list_head s i" for i by (cases i) simp_all
    have "refs ?s2 v = refs (s\<lparr>vnroot := Some rt\<rparr>) v" for v by (rule refs_same) simp_all
    moreover have "refs (s\<lparr>vnroot := Some rt\<rparr>) v \<le> unat (counts s v)" for v using spare_root [OF assms(1)] by (simp add: vfs_inv_def)
    ultimately have r: "refs ?s2 v \<le> unat (counts s v)" for v by simp
    have "vfs_inv ?s2" by (rule inv_tables [OF spare_inv [OF assms(1)] _ h r]) simp
    then show ?thesis unfolding s' by (rule mount_link_inv)
  qed
next
  case False
  let ?found = "\<lambda>(r, ppv, s1). if r \<noteq> 0 then kbind (VN_RELE ops rt s1) (\<lambda>s2. mount_unmount ops m (- EACCES) s2)
        else case ppv of
          None \<Rightarrow> KFault
        | Some v \<Rightarrow>
            if v_type (vnodes s1 v) \<noteq> VDIR then
              kbind (VN_RELE ops rt s1) (\<lambda>s2. kbind (VN_RELE ops v s2) (\<lambda>s3. mount_unmount ops m (- ENOTDIR) s3))
            else
              KOk (ANS r, mount_link m (upd_vnode v (\<lambda>n. n\<lparr>v_vfsmountedhere := Some m\<rparr>)
                (upd_vfs m (\<lambda>f. f\<lparr>vfs_vnodecovered := Some v\<rparr>) s1)))"
  have "kbind (lookuppn ops path None p s) ?found = KOk (a, s')" using assms(3) False by (simp only: mount_at_def if_False)
  then obtain x where x: "lookuppn ops path None p s = KOk x" "?found x = KOk (a, s')" by (rule kbindE)
  obtain r ppv s1 where x3: "x = (r, ppv, s1)" by (cases x)
  note l = lookuppn_effect [OF spare_inv [OF assms(1)] assms(2) x(1) [unfolded x3]]
  show ?thesis
  proof (cases "r = 0")
    case False
    then have "keeps s s1" using l by simp
    note sp = spare_keeps [OF assms(1) this]
    obtain s2 where "VN_RELE ops rt s1 = KOk s2" "mount_unmount ops m (- EACCES) s2 = KOk (a, s')"
      using x(2) x3 False by (auto simp: kbind_KOk_iff)
    with mount_unmount_inv spare_rele [OF sp] show ?thesis by blast
  next
    case r0: True
    then obtain v where v: "ppv = Some v" using x(2) x3 by (cases ppv) simp_all
    then have e: "effect (plus_ref v (counts s)) s s1" using l r0 by simp
    note two = spare_effect [OF assms(1,2) e]
    show ?thesis
    proof (cases "v_type (vnodes s1 v) = VDIR")
      case False
      then obtain s2 s3 where s2: "VN_RELE ops rt s1 = KOk s2" and s3: "VN_RELE ops v s2 = KOk s3" and m: "mount_unmount ops m (- ENOTDIR) s3 = KOk (a, s')"
        using x(2) x3 r0 v by (auto simp: kbind_KOk_iff)
      have "spare v s2" by (rule rele_one_of_two [OF _ _ s2]) (use two in blast)+
      from mount_unmount_inv [OF spare_rele [OF this s3] m] show ?thesis .
    next
      case True
      let ?s2 = "upd_vnode v (\<lambda>n. n\<lparr>v_vfsmountedhere := Some m\<rparr>) (upd_vfs m (\<lambda>f. f\<lparr>vfs_vnodecovered := Some v\<rparr>) s1)"
      have s': "s' = mount_link m ?s2" using x(2) x3 r0 v True by simp
      have c: "counts ?s2 x = counts s1 x" for x by simp
      have h: "list_head ?s2 i = list_head s1 i" for i by (cases i) simp_all
      have ok: "vnodes_ok ?s2" by (rule vnodes_ok_cong [OF conjunct1 [OF two] _ h]) (auto split: if_splits)
      have "refs ?s2 x = refs s1 x" for x by (rule refs_same) simp_all
      moreover have "refs s1 x \<le> unat (counts s1 x)" for x using two by (meson add_leD1)
      ultimately have "vfs_inv ?s2" using ok unfolding vfs_inv_def c by simp
      then show ?thesis unfolding s' by (rule mount_link_inv)
    qed
  qed
qed

lemma lookup_below:
  assumes "vfs_inv s" and "below n s" and "n \<le> 65000" and "lookuppn ops nm None p s = KOk (r, ppv, s1)"
  shows "vfs_inv s1 \<and> below (Suc n) s1"
proof -
  have sm: "small_counts s" using assms(2,3) by (rule below_small)
  note e = lookuppn_effect [OF assms(1) sm assms(4)] and l = lookup_cases [OF assms(1) sm assms(4)]
  have "below (Suc n) s1"
  proof (cases "r \<noteq> 0 \<or> ppv = None")
    case True
    then have "keeps s s1" using e by (auto split: if_splits)
    with assms(2) below_mono [of n s1 "Suc n"] below_keeps show ?thesis by auto
  next
    case False
    then obtain w where "effect (plus_ref w (counts s)) s s1" using e by auto
    then have "counts s1 v = plus_ref w (counts s) v" for v by (simp add: effect_def)
    with below_plus [OF assms(2,3)] show ?thesis by blast
  qed
  with l show ?thesis by blast
qed

lemma mount_device_inv:
  assumes "vfs_inv s" and "below n s" and "n \<le> 65000" and "mount_device e ops p kt dv resp s = KOk (x, s1)"
  shows "vfs_inv s1 \<and> below (Suc n) s1"
proof (cases kt)
  case True
  then have "s1 = s" using assms(4) by (auto simp: mount_device_def kbind_KOk_iff)
  with assms(1,2) below_mono [of n s "Suc n"] show ?thesis by simp
next
  case False
  let ?dev = "\<lambda>(r, ppv, s1). if r \<noteq> 0 then KOk (Inl (- EACCES), s1)
        else case ppv of
          None \<Rightarrow> KFault
        | Some v \<Rightarrow>
            if v_type (vnodes s1 v) \<noteq> VBLK then KOk (Inl (- ENOTBLK), s1)
            else kbind (vn_call ops v (\<lambda>f. vn_getattr f v s1) s1) (\<lambda>(a, s2).
              KOk (Inr (case a of None \<Rightarrow> junk_rdev e | Some d \<Rightarrow> d, r), s2))"
  have "kbind (lookuppn ops dv None p s) ?dev = KOk (x, s1)" using assms(4) False by (simp only: mount_device_def if_False)
  then obtain y where y: "lookuppn ops dv None p s = KOk y" "?dev y = KOk (x, s1)" by (rule kbindE)
  obtain r ppv s2 where y3: "y = (r, ppv, s2)" by (cases y)
  note l = lookup_below [OF assms(1-3) y(1) [unfolded y3]]
  consider "s1 = s2" | v a where "vn_call ops v (\<lambda>f. vn_getattr f v s2) s2 = KOk (a, s1)"
    using y(2) y3 by (auto simp: kbind_KOk_iff split: if_splits option.splits)
  then show ?thesis
  proof cases
    case 1
    with l show ?thesis by simp
  next
    case 2
    have "keeps s2 s1" by (rule getattr_keeps [OF _ 2]) (use l in \<open>simp add: vfs_inv_def\<close>)
    with l keeps_inv below_keeps show ?thesis by blast
  qed
qed

text \<open>A successful \<open>vfs_mount\<close> of a file system with a root vnode of its own.\<close>

lemma new_root_inv:
  assumes "vfs_inv s" and "below n s" and "n \<le> 65000" and "new_root m s s'"
  shows "vfs_inv s' \<and> below (Suc n) s'"
proof -
  obtain w where w: "counts s w = 0" "\<And>v. counts s' v = plus_ref w (counts s) v" "\<And>k. roots s' k = (if k = m then Some w else roots s k)"
    using assms(4) unfolding new_root_def by blast
  have t: "cdir s' = cdir s" "fd_table s' = fd_table s" "vnroot s' = vnroot s" "vnodes_ok s'" using assms(4) by (simp_all add: new_root_def)
  have le: "refs s v \<le> unat (counts s v)" for v using assms(1) by (simp add: vfs_inv_def)
  have ex: "of_bool (\<exists>k. roots s' k = Some v) \<le> of_bool (\<exists>k. roots s k = Some v) + (of_bool (v = w) :: nat)" for v
    using w(3) by (auto split: if_splits)
  have "refs s' v \<le> refs s v + of_bool (v = w)" for v
    using ex [of v] by (simp add: refs_def proc_refs_def t)
  moreover have "refs s v + of_bool (v = w) \<le> unat (counts s' v)" for v
    using le [of v] w(1) by (auto simp: w(2) plus_ref_def)
  ultimately have "refs s' v \<le> unat (counts s' v)" for v by (meson le_trans)
  with t(4) below_plus [OF assms(2,3) w(2)] show ?thesis by (simp add: vfs_inv_def)
qed

lemma gives_inv:
  assumes "vfs_inv s" and "below n s" and "n \<le> 65000" and "gives (Some w) s s'"
  shows "vfs_inv s' \<and> below (Suc n) s'"
proof -
  have e: "effect (plus_ref w (counts s)) s s'" using assms(4) by (simp add: gives_def)
  then have "counts s' v = plus_ref w (counts s) v" for v by (simp add: effect_def)
  with below_plus [OF assms(2,3)] got_spare [OF assms(1) below_small [OF assms(2,3)] e] spare_inv show ?thesis by blast
qed

lemma mount_fs_inv:
  assumes "vfs_inv s" and "below 64000 s" and "mount_fs e ops p kt resp dv path ty s = KOk (a, s')"
  shows "vfs_inv s'"
proof (cases "free_vfs s")
  case None
  with assms(1,3) show ?thesis by (simp add: mount_fs_def)
next
  case (Some m)
  then obtain x s1 where x: "mount_device e ops p kt dv resp s = KOk (x, s1)"
    and fin: "(case x of
            Inl err \<Rightarrow> KOk (ANS err, s1)
          | Inr (d, resp1) \<Rightarrow>
              (case find_fs_type (ty @ [0]) None vfs_fs_types of
                 None \<Rightarrow> KOk (ANS (- ENODEV), s1)
               | Some fs \<Rightarrow>
                   kbind (vfs_mount (ops fs) m d s1) (\<lambda>(r, s2).
                   if r \<noteq> 0 then KOk (ANS (- EINVAL), s2)
                   else
                     kbind (vfs_call ops m (\<lambda>f. vfs_root f m None s2) s2) (\<lambda>(_, rt, s3).
                     case rt of
                       None \<Rightarrow> mount_unmount ops m (- EINVAL) s3
                     | Some v \<Rightarrow> mount_at e ops p m v path resp1 s3)))) = KOk (a, s')"
    using assms(3) by (simp add: mount_fs_def) (erule kbindE, auto)
  note i1 = mount_device_inv [OF assms(1,2) _ x, simplified]
  consider "s' = s1"
    | fs d r s2 where "vfs_mount (ops fs) m d s1 = KOk (r, s2)" "r \<noteq> 0" "s' = s2"
    | fs d resp1 s2 k r rt s3 where "vfs_mount (ops fs) m d s1 = KOk (0, s2)" "vfs_root (ops k) m None s2 = KOk (r, rt, s3)"
        "(case rt of None \<Rightarrow> mount_unmount ops m (- EINVAL) s3 | Some v \<Rightarrow> mount_at e ops p m v path resp1 s3) = KOk (a, s')"
    using fin by (cases x) (auto simp: kbind_KOk_iff vfs_call_def split: option.splits prod.splits if_splits)
  then show ?thesis
  proof cases
    case 1
    with i1 show ?thesis by simp
  next
    case 2
    have "vnodes_ok s1" using i1 by (simp add: vfs_inv_def)
    from file_system.mount_law [OF each this 2(1)] show ?thesis using i1 keeps_inv [of s1 s2] new_root_inv [of s1 64001 m s2] gives_inv [of s1 64001 _ s2] 2(3) by auto
  next
    case 3
    have "vnodes_ok s1" using i1 by (simp add: vfs_inv_def)
    from file_system.mount_law [OF each this 3(1)]
    have i2: "vfs_inv s2 \<and> below 64002 s2"
      using i1 keeps_inv [of s1 s2] below_keeps [of 64001 s1 s2] below_mono [of 64001 s2 64002] new_root_inv [of s1 64001 m s2] gives_inv [of s1 64001 _ s2] by auto
    have ok2: "vnodes_ok s2" using i2 by (simp add: vfs_inv_def)
    have sm2: "small_counts s2" using i2 below_small [of 64002 s2] by simp
    from file_system.root_law [OF each ok2 inv_roots_held [OF conjunct1 [OF i2]] 3(2)] show ?thesis
    proof
      assume "gives rt s2 s3"
      then obtain v where v: "rt = Some v" "effect (plus_ref v (counts s2)) s2 s3" by (auto simp: gives_def)
      have sp: "spare v s3" by (rule got_spare [OF conjunct1 [OF i2] sm2 v(2)])
      have "counts s3 x = plus_ref v (counts s2) x" for x using v(2) by (simp add: effect_def)
      from below_plus [OF conjunct2 [OF i2] _ this] have "below 64003 s3" by simp
      then have "small_counts s3" by (rule below_small) simp
      from mount_at_inv [OF sp this] 3(3) v(1) show ?thesis by simp
    next
      assume n: "rt = None \<and> keeps s2 s3"
      have "vfs_inv s3" by (rule keeps_inv [OF conjunct1 [OF i2] conjunct2 [OF n]])
      with mount_unmount_inv n 3(3) show ?thesis by auto
    qed
  qed
qed

lemma mount_inv:
  assumes "vfs_inv s" and "below 64000 s" and "vfs_mount_msg e ops p dv pt ty s = KOk (a, s')"
  shows "vfs_inv s'"
proof -
  consider "s' = s" | kt resp d q t where "mount_fs e ops p kt resp d q t s = KOk (a, s')"
    using assms(3) unfolding vfs_mount_msg_def Let_def by (elim kbindE) (simp split: if_splits option.splits; blast)
  then show ?thesis using assms(1) mount_fs_inv [OF assms(1,2)] by cases auto
qed

section \<open>Every message\<close>

text \<open>The process that a KILL names exists, or the look at its descriptors is a fault.\<close>

lemma kill_pid: "vfs_kill ops p victim s = KOk (a, s') \<Longrightarrow> p = PROC_PID_SYSTEM_TASK \<Longrightarrow> victim \<in> pids"
proof -
  assume "vfs_kill ops p victim s = KOk (a, s')" and "p = PROC_PID_SYSTEM_TASK"
  then obtain s1 where "close_fds ops victim [0..<K_PROC_FD_COUNT] s = KOk s1" unfolding vfs_kill_def by (auto elim: kbindE)
  moreover have "[0..<K_PROC_FD_COUNT] = 0 # [1..<K_PROC_FD_COUNT]" by (rule upt_rec [THEN trans]) (simp add: K_PROC_FD_COUNT_def)
  ultimately have "close_fds ops victim (0 # [1..<K_PROC_FD_COUNT]) s = KOk s1" by simp
  then obtain pv where "vfs_vnode_from_fd victim (of_nat 0) s = KOk pv" unfolding close_fds.simps by (rule kbindE)
  then show ?thesis by (simp add: vfs_vnode_from_fd_def K_PROC_FD_COUNT_def entry_KOk)
qed

lemma kill_any_inv:
  assumes "vfs_inv s" and "vfs_kill ops p victim s = KOk (a, s')"
  shows "vfs_inv s'"
proof (cases "p = PROC_PID_SYSTEM_TASK")
  case True
  from kill_inv [OF assms(1) kill_pid [OF assms(2) True] assms(2)] show ?thesis .
next
  case False
  with assms show ?thesis by (simp add: vfs_kill_def)
qed

lemma dispatch_inv:
  assumes "vfs_inv s" and "below 64000 s" and "vfs_dispatch e ops p s = KOk (a, s')"
  shows "vfs_inv s'"
proof -
  have sm: "small_counts s" using assms(2) by (rule below_small) simp
  note h = transfer_inv [OF assms(1)] open_inv [OF assms(1) sm] close_handler_inv [OF assms(1)] chdir_inv [OF assms(1) sm]
    mkdir_inv [OF assms(1) sm] sysdir_inv [OF assms(1) sm] mount_inv [OF assms(1,2)] kill_any_inv [OF assms(1)]
  show ?thesis using assms(3) h fork_inv [OF assms(1) sm] assms(1)
    unfolding vfs_dispatch_def Let_def by (simp split: if_splits) 
qed

end

end
