(* ===== verification/FatLaws.thy ===== *)
theory FatLaws
  imports FsInstances
begin

text \<open>The FAT file system keeps the contract of \<open>FsLaws\<close>, on every path of its loops.\<close>

section \<open>Steps\<close>

lemma bindk_Some_KOk: "bindk m f = Some (KOk y) \<longleftrightarrow> (\<exists>x. m = KOk x \<and> f x = Some (KOk y))"
  by (cases m) (simp_all add: bindk_def)

lemma looped_KOk: "looped x = KOk y \<longleftrightarrow> x = Some (KOk y)"
  by (simp add: looped_def split: option.splits)

lemma keeps_upd_fnode: "keeps s s' \<Longrightarrow> keeps s (upd_fnode v g s')"
  unfolding upd_fnode_def using keeps_trans keeps_upd_vnode effect_ok(2) by fastforce

lemma keeps_ask: "keeps s s' \<Longrightarrow> ask_driver dx d req s' = KOk (r, s'') \<Longrightarrow> keeps s s''"
  using keeps_trans ask_driver_keeps effect_ok(2) by blast

lemma keeps_load: "keeps s s' \<Longrightarrow> fat_load dx fb d v sec s' = KOk (ok, s'') \<Longrightarrow> keeps s s''"
  by (auto simp: fat_load_def kbind_KOk_iff intro: keeps_ask keeps_upd_fnode)

lemma keeps_load_cached: "keeps s s' \<Longrightarrow> fat_load_cached dx fb d v sec s' = KOk (ok, s'') \<Longrightarrow> keeps s s''"
  using keeps_load by (fastforce simp: fat_load_cached_def kbind_KOk_iff intro: keeps_upd_fnode split: if_splits)

lemma keeps_next_cluster: "keeps s s' \<Longrightarrow> fat_next_cluster dx fb pf v c s' = KOk (c', s'') \<Longrightarrow> keeps s s''"
  by (auto simp: fat_next_cluster_def Let_def kbind_KOk_iff intro: keeps_ask keeps_upd_fnode)

lemma keeps_fetch: "keeps s s' \<Longrightarrow> fat_fetch dx fb pf v s' = KOk (ok, s'') \<Longrightarrow> keeps s s''"
  by (auto simp: fat_fetch_def Let_def split: if_splits intro: keeps_load_cached)

lemma keeps_advance: "keeps s s' \<Longrightarrow> fat_advance dx fb pf v k s' = KOk s'' \<Longrightarrow> keeps s s''"
  by (auto simp: fat_advance_def Let_def kbind_KOk_iff split: if_splits intro!: keeps_upd_fnode elim!: keeps_next_cluster [rotated])

lemma keeps_root_entry: "keeps s s' \<Longrightarrow> fat_get_root_entry dx fb m v s' = KOk (e, s'') \<Longrightarrow> keeps s s''"
  by (auto simp: fat_get_root_entry_def Let_def kbind_KOk_iff split: if_splits intro: keeps_load_cached intro!: keeps_upd_fnode)

section \<open>Loops\<close>

lemmas read_induct = fat_read_loop.raw_induct [rotated 1, consumes 1, case_names step]
lemmas seek_induct = fat_seek_loop.raw_induct [rotated 1, consumes 1, case_names step]
lemmas dents_induct = fat_dents_loop.raw_induct [rotated 1, consumes 1, case_names step]
lemmas clusters_induct = fat_dir_clusters.raw_induct [rotated 1, consumes 1, case_names step]

lemma fat_read_loop_keeps:
  "fat_read_loop dx fb m v dst cnt did s = Some x \<Longrightarrow> vnodes_ok s \<Longrightarrow> x = KOk (r, s') \<Longrightarrow> keeps s s'"
proof (induction arbitrary: r s' rule: read_induct)
  case (step loop dx fb m v dst cnt did s x)
  show ?case
  proof (cases "cnt = 0")
    case True
    with step(2-4) keeps_refl [OF step(3)] show ?thesis by simp
  next
    case False
    with step(2,4) obtain ok s1 where f: "fat_fetch dx fb (vfs_fat (vfs_table s m)) v s = KOk (ok, s1)"
      by (auto simp: bindk_Some_KOk)
    note k1 = keeps_fetch [OF keeps_refl [OF step(3)] f]
    show ?thesis
    proof (cases ok)
      case F: False
      with step(2,4) f False k1 show ?thesis by (auto simp: bindk_Some_KOk)
    next
      case True
      let ?k = "fat_chunk (vfs_fat (vfs_table s1 m)) (v_fnode (vnodes s1 v)) cnt"
      from True step(2,4) f False obtain s2 where a: "fat_advance dx fb (vfs_fat (vfs_table s1 m)) v ?k
            (s1\<lparr>ram := memcpy (ram s1) dst (fb v + ucast (fn_CurrentByteInSector (v_fnode (vnodes s1 v)))) (unat ?k)\<rparr>) = KOk s2"
        and l: "loop dx fb m v (dst + ?k) (cnt - ?k) (did + ?k) s2 = Some (KOk (r, s'))"
        by (auto simp: bindk_Some_KOk)
      note k2 = keeps_advance [OF keeps_set_ram [OF k1] a]
      from step(1) [OF l effect_ok(2) [OF k2] refl] k2 show ?thesis by (blast intro: keeps_trans)
    qed
  qed
qed

lemma fnode_read_keeps: "vnodes_ok s \<Longrightarrow> fnode_read dx fb v b n p s = KOk (r, s') \<Longrightarrow> keeps s s'"
  by (auto simp: fnode_read_def with_vfs_def looped_KOk split: option.splits dest: fat_read_loop_keeps)

lemma fat_seek_loop_keeps:
  "fat_seek_loop dx fb m v off s = Some x \<Longrightarrow> vnodes_ok s \<Longrightarrow> x = KOk s' \<Longrightarrow> keeps s s'"
proof (induction arbitrary: s' rule: seek_induct)
  case (step loop dx fb m v off s x)
  let ?bps = "ucast (fat_BytesPerSector (vfs_fat (vfs_table s m))) :: u32"
  let ?sk = "if uint (fn_CurrentSectorInCluster (v_fnode (vnodes s v))) = uint (fat_SectorsPerCluster (vfs_fat (vfs_table s m))) - 1 then
                 kbind (fat_next_cluster dx fb (vfs_fat (vfs_table s m)) v (fn_CurrentCluster (v_fnode (vnodes s v)))
                          (upd_fnode v (\<lambda>n. n\<lparr>fn_CurrentSectorInCluster := 0\<rparr>) s)) (\<lambda>(c, s1).
                 KOk (upd_fnode v (\<lambda>n. n\<lparr>fn_CurrentCluster := c\<rparr>) s1))
               else KOk (upd_fnode v (\<lambda>n. n\<lparr>fn_CurrentSectorInCluster := fn_CurrentSectorInCluster n + 1\<rparr>) s)"
  note k0 = keeps_refl [OF step(3)]
  show ?case
  proof (cases "off = 0 \<or> off < ?bps")
    case True
    with step(2,4) k0 show ?thesis by (auto split: if_splits intro: keeps_upd_fnode)
  next
    case False
    with step(2,4) have "bindk ?sk (\<lambda>s2. loop dx fb m v (off - ?bps) s2) = Some (KOk s')" by simp
    then obtain s2 where s2: "?sk = KOk s2" and l: "loop dx fb m v (off - ?bps) s2 = Some (KOk s')" unfolding bindk_Some_KOk by blast
    have k2: "keeps s s2"
    proof (cases "uint (fn_CurrentSectorInCluster (v_fnode (vnodes s v))) = uint (fat_SectorsPerCluster (vfs_fat (vfs_table s m))) - 1")
      case True
      with s2 show ?thesis using keeps_next_cluster [OF keeps_upd_fnode [OF k0]] by (auto simp: kbind_KOk_iff intro!: keeps_upd_fnode)
    next
      case False
      with s2 k0 show ?thesis by (auto intro: keeps_upd_fnode)
    qed
    from step(1) [OF l effect_ok(2) [OF k2] refl] k2 show ?thesis by (blast intro: keeps_trans)
  qed
qed

lemma fnode_lseek_keeps: "vnodes_ok s \<Longrightarrow> fnode_lseek dx fb v off wh s = KOk (r, s') \<Longrightarrow> keeps s s'"
proof -
  assume ok: "vnodes_ok s" and l: "fnode_lseek dx fb v off wh s = KOk (r, s')"
  note k0 = keeps_upd_fnode [OF keeps_refl [OF ok]]
  have go: "keeps s s1" if "fat_seek_loop dx fb m v o1 (upd_fnode v g s) = Some (KOk s1)" for m o1 s1 g
    using fat_seek_loop_keeps [OF that effect_ok(2) [OF k0] refl] k0 [of v g] by (blast intro: keeps_trans)
  show ?thesis using l keeps_refl [OF ok]
    by (auto simp: fnode_lseek_def with_vfs_def Let_def kbind_KOk_iff looped_KOk split: option.splits if_splits intro: go)
qed

lemma fat_next_entry_keeps:
  assumes k: "keeps s s'" and n: "fat_next_entry dx fb de m v p s' = KOk (x, s'')"
  shows "keeps s s''"
proof (cases "fn_CurrentCluster (v_fnode (vnodes s' v)) = 0")
  case True
  with n keeps_root_entry [OF k] show ?thesis by (auto simp: fat_next_entry_def kbind_KOk_iff)
next
  case False
  with n obtain r where "fnode_read dx fb v de FAT_DIRECTORY_ENTRY_SIZE p s' = KOk (r, s'')"
    by (auto simp: fat_next_entry_def kbind_KOk_iff)
  from fnode_read_keeps [OF effect_ok(2) [OF k] this] k show ?thesis by (blast intro: keeps_trans)
qed

lemma fat_dents_loop_keeps:
  "fat_dents_loop dx fb de m v p dirp cnt ln s = Some x \<Longrightarrow> vnodes_ok s \<Longrightarrow> x = KOk (r, s') \<Longrightarrow> keeps s s'"
proof (induction arbitrary: r s' rule: dents_induct)
  case (step loop dx fb de m v p dirp cnt ln s x)
  show ?case
  proof (cases "cnt < FAT_DIRENT_SIZE")
    case True
    with step(2,4) keeps_refl [OF step(3)] show ?thesis by simp
  next
    case False
    with step(2,4) obtain e s1 where n: "fat_next_entry dx fb de m v p s = KOk (e, s1)" by (auto simp: bindk_Some_KOk)
    note k1 = fat_next_entry_keeps [OF keeps_refl [OF step(3)] n]
    consider "s' = s1"
      | d c l s2 where "keeps s s2" "loop dx fb de m v p d c l s2 = Some (KOk (r, s'))"
    proof (cases e)
      case None
      with step(2,4) False n that(1) show thesis by (simp add: bindk_Some_KOk)
    next
      case (Some a)
      note q = keeps_set_ram [OF k1, of "put_bytes (ram s1) dirp (fat_dirent (ram s1) a)"]
      show thesis using step(2,4) False n Some that(1) that(2) [OF q] that(2) [OF k1]
        by (cases "entry_listed (ram s1) a"; cases "ram s1 a = 0") (simp_all add: bindk_Some_KOk)
    qed
    then show ?thesis
    proof cases
      case 1
      with k1 show ?thesis by simp
    next
      case 2
      from step(1) [OF 2(2) effect_ok(2) [OF 2(1)] refl] 2(1) show ?thesis by (blast intro: keeps_trans)
    qed
  qed
qed

lemma fnode_getdents_keeps: "vnodes_ok s \<Longrightarrow> fnode_getdents dx fb de v b n p s = KOk (r, s') \<Longrightarrow> keeps s s'"
  using keeps_refl by (auto simp: fnode_getdents_def with_vfs_def looped_KOk split: option.splits if_splits dest: fat_dents_loop_keeps)

section \<open>Vnodes\<close>

lemma upd_vfs_fat_head:
  "list_head (upd_vfs m (\<lambda>f. f\<lparr>vfs_fat := (vfs_fat f)\<lparr>fat_pvn := h\<rparr>\<rparr>) s) j = (if j = L_fat m then h else list_head s j)"
  by (cases j) auto

lemma fat_allocate_gives:
  assumes "vnodes_ok s" and "fat_allocate_vnode m k s = KOk (w, s')"
  shows "effect (plus_ref w (counts s)) s (VN_HOLD w s')"
proof -
  obtain s1 where s1: "vfs_vnode_alloc s = KOk (w, s1)"
    and s': "s' = upd_vfs m (\<lambda>f. f\<lparr>vfs_fat := (vfs_fat f)\<lparr>fat_pvn := Some w\<rparr>\<rparr>)
      (upd_vnode w (\<lambda>n. n\<lparr>v_count := 0, v_op := Some FS_fat, v_vfsp := Some m, v_fnode := new_fnode k,
         vn_next := fat_pvn (vfs_fat (vfs_table s1 m))\<rparr>) s1)"
    using assms(2) by (auto simp: fat_allocate_vnode_def kbind_KOk_iff Let_def)
  show ?thesis
    by (rule hold_new [OF assms(1) s1, of "L_fat m" _ "\<lambda>n. n\<lparr>v_count := 0, v_op := Some FS_fat, v_vfsp := Some m, v_fnode := new_fnode k,
         vn_next := fat_pvn (vfs_fat (vfs_table s1 m))\<rparr>"])
      (simp_all add: s' upd_vfs_fat_head)
qed

lemma fat_found_gives:
  assumes "vnodes_ok s" and "fat_find_vnode m k s = Some (Some w)"
  shows "effect (plus_ref w (counts s)) s (VN_HOLD w s)"
  using hold_found [OF assms(1), of "L_fat m"] assms(2) by (auto simp: fat_find_vnode_def)

lemma fat_root_law:
  assumes "vnodes_ok s" and "fat_root m ppv s = KOk (r, ppv', s')"
  shows "\<exists>w. ppv' = Some w \<and> gives (Some w) s s' \<and> (fat_pvn (vfs_fat (vfs_table s m)) = None \<longrightarrow> fat_pvn (vfs_fat (vfs_table s' m)) = Some w)"
proof -
  have new: "gives (Some w) s (VN_HOLD w (upd_vnode w (\<lambda>n. n\<lparr>v_type := VDIR, v_fnode := (v_fnode n)\<lparr>fn_Attributes := at\<rparr>\<rparr>) s1)) \<and>
      fat_pvn (vfs_fat (vfs_table s1 m)) = Some w"
    if "fat_allocate_vnode m k s = KOk (w, s1)" for k w s1 at
  proof -
    have "VN_HOLD w (upd_vnode w (\<lambda>n. n\<lparr>v_type := VDIR, v_fnode := (v_fnode n)\<lparr>fn_Attributes := at\<rparr>\<rparr>) s1) =
      upd_vnode w (\<lambda>n. n\<lparr>v_type := VDIR, v_fnode := (v_fnode n)\<lparr>fn_Attributes := at\<rparr>\<rparr>) (VN_HOLD w s1)"
      by (rule VN_HOLD_upd_vnode) simp_all
    moreover have "fat_pvn (vfs_fat (vfs_table s1 m)) = Some w" using that by (auto simp: fat_allocate_vnode_def kbind_KOk_iff Let_def)
    ultimately show ?thesis using fat_allocate_gives [OF assms(1) that] by (auto simp: gives_def intro!: effect_upd_vnode)
  qed
  obtain x where x: "fat_find_vnode m (fat_RootStartSector (vfs_fat (vfs_table s m))) s = Some x"
    using assms(2) by (auto simp: fat_root_def Let_def split: option.splits)
  show ?thesis
  proof (cases x)
    case None
    with x assms(2) new show ?thesis by (auto simp: fat_root_def kbind_KOk_iff)
  next
    case (Some w)
    with x assms(2) have "ppv' = Some w" "s' = VN_HOLD w s" by (auto simp: fat_root_def)
    moreover have "fat_pvn (vfs_fat (vfs_table s m)) \<noteq> None"
      using x Some by (cases "fat_pvn (vfs_fat (vfs_table s m))") (simp_all add: fat_find_vnode_def vn_find.simps)
    ultimately show ?thesis using x Some fat_found_gives [OF assms(1)] by (auto simp: gives_def)
  qed
qed

section \<open>Lookup\<close>

text \<open>The outcome of a search: a vnode with a new reference, or nothing changed.\<close>

definition outcome :: "('w, 'a) vstate_scheme \<Rightarrow> int \<times> nat option \<times> ('w, 'a) vstate_scheme \<Rightarrow> bool" where
  "outcome s y \<longleftrightarrow> (case y of (r, ppv', s') \<Rightarrow> if r = 0 then gives ppv' s s' else keeps s s')"

lemma outcome_after: "keeps s s1 \<Longrightarrow> outcome s1 y \<Longrightarrow> outcome s y"
  by (auto simp: outcome_def gives_def split: prod.splits if_splits intro: keeps_trans gives_after_keeps)

lemma fat_found_outcome:
  assumes "vnodes_ok s" and "fat_found m root e s = KOk y"
  shows "outcome s y"
proof -
  have new: "gives (Some w) s (upd_vnode w (\<lambda>n. n\<lparr>v_vfsmountedhere := None, v_type := ty, v_fnode := g (v_fnode n)\<rparr>) (VN_HOLD w s1))"
    if "fat_allocate_vnode m k s = KOk (w, s1)" for k w s1 ty g
    using fat_allocate_gives [OF assms(1) that] by (auto simp: gives_def intro!: effect_upd_vnode)
  show ?thesis using assms(2) fat_found_gives [OF assms(1)]
    by (auto simp: fat_found_def Let_def kbind_KOk_iff outcome_def gives_def split: option.splits
        intro: new [where g = "\<lambda>x. x\<lparr>fn_Attributes := _, fn_FirstCluster := _, fn_FileSize := _, fn_CurrentCluster := _ x\<rparr>", unfolded gives_def, simplified])
qed

lemma fat_scan_outcome: "vnodes_ok s \<Longrightarrow> fat_scan m root b nm ppv ks s = KOk (Some y) \<Longrightarrow> outcome s y"
proof (induction ks)
  case (Cons k ks)
  then show ?case using fat_found_outcome [OF Cons.prems(1)] keeps_refl [OF Cons.prems(1)]
    by (auto simp: Let_def kbind_KOk_iff outcome_def split: if_splits)
qed simp

lemma fat_root_entries_outcome: "vnodes_ok s \<Longrightarrow> fat_root_entries dx fb m v nm ppv dent k s = KOk y \<Longrightarrow> outcome s y"
proof (induction k arbitrary: dent s)
  case 0
  then show ?case using keeps_refl by (auto simp: outcome_def)
next
  case (Suc k)
  let ?pf = "vfs_fat (vfs_table s m)"
  let ?ld = "if dent mod 16 = 0 then fat_load dx fb (fat_dev ?pf) v (fat_RootStartSector ?pf + of_nat (dent div 16)) s else KOk (True, s)"
  obtain ok s1 where l: "?ld = KOk (ok, s1)"
    and fin: "(if \<not> ok then KOk (- 1, ppv, s1) else
        kbind (fat_scan m True (fb v) nm ppv [dent mod 16] s1) (\<lambda>x.
        case x of Some y \<Rightarrow> KOk y | None \<Rightarrow> fat_root_entries dx fb m v nm ppv (Suc dent) k s1)) = KOk y"
    using Suc.prems(2) unfolding fat_root_entries.simps Let_def kbind_KOk_iff by (auto simp: kbind_KOk_iff)
  have k1: "keeps s s1" using l keeps_load [OF keeps_refl [OF Suc.prems(1)]] keeps_refl [OF Suc.prems(1)] by (auto split: if_splits)
  note ok1 = effect_ok(2) [OF k1]
  have "outcome s1 y"
  proof (cases ok)
    case False
    with fin keeps_refl [OF ok1] show ?thesis by (auto simp: outcome_def)
  next
    case True
    with fin obtain x where x: "fat_scan m True (fb v) nm ppv [dent mod 16] s1 = KOk x"
      and f: "(case x of Some y \<Rightarrow> KOk y | None \<Rightarrow> fat_root_entries dx fb m v nm ppv (Suc dent) k s1) = KOk y"
      unfolding kbind_KOk_iff by (auto simp: kbind_KOk_iff)
    show ?thesis
    proof (cases x)
      case None
      with f Suc.IH [OF ok1] show ?thesis by simp
    next
      case (Some z)
      with f x fat_scan_outcome [OF ok1, of m True "fb v" nm ppv "[dent mod 16]" y] show ?thesis by (simp del: fat_scan.simps)
    qed
  qed
  with k1 show ?case by (rule outcome_after)
qed

lemma fat_dir_sectors_outcome:
  "vnodes_ok s \<Longrightarrow> fat_dir_sectors dx fb m v nm ppv k sector s = KOk x \<Longrightarrow> (case x of Inl y \<Rightarrow> outcome s y | Inr s1 \<Rightarrow> keeps s s1)"
proof (induction k arbitrary: sector s)
  case 0
  then show ?case using keeps_refl by auto
next
  case (Suc k)
  obtain ok s1 where l: "fat_load_cached dx fb (fat_dev (vfs_fat (vfs_table s m))) v sector s = KOk (ok, s1)"
    and fin: "(if \<not> ok then KOk (Inl (- 1, ppv, s1)) else
       kbind (fat_scan m False (fb v) nm ppv [0..<16] s1) (\<lambda>x.
       case x of Some y \<Rightarrow> KOk (Inl y) | None \<Rightarrow> fat_dir_sectors dx fb m v nm ppv k (sector + 1) s1)) = KOk x"
    using Suc.prems(2) unfolding fat_dir_sectors.simps kbind_KOk_iff by (auto simp: kbind_KOk_iff)
  note k1 = keeps_load_cached [OF keeps_refl [OF Suc.prems(1)] l]
  note ok1 = effect_ok(2) [OF k1]
  have "case x of Inl y \<Rightarrow> outcome s1 y | Inr s1' \<Rightarrow> keeps s1 s1'"
  proof (cases ok)
    case False
    with fin keeps_refl [OF ok1] show ?thesis by (auto simp: outcome_def)
  next
    case True
    with fin obtain z where z: "fat_scan m False (fb v) nm ppv [0..<16] s1 = KOk z"
      and f: "(case z of Some y \<Rightarrow> KOk (Inl y) | None \<Rightarrow> fat_dir_sectors dx fb m v nm ppv k (sector + 1) s1) = KOk x"
      unfolding kbind_KOk_iff by (auto simp: kbind_KOk_iff)
    show ?thesis
    proof (cases z)
      case None
      with f Suc.IH [OF ok1] show ?thesis by simp
    next
      case (Some y)
      with f z fat_scan_outcome [OF ok1, of m False "fb v" nm ppv "[0..<16]" y] show ?thesis by auto
    qed
  qed
  then show ?case using outcome_after [OF k1] keeps_trans [OF k1] by (auto split: sum.splits)
qed

lemma fat_dir_clusters_outcome:
  "fat_dir_clusters dx fb m v nm ppv c s = Some x \<Longrightarrow> vnodes_ok s \<Longrightarrow> x = KOk y \<Longrightarrow> outcome s y"
proof (induction arbitrary: y rule: clusters_induct)
  case (step loop dx fb m v nm ppv c s x)
  from step(2) obtain z where z: "fat_dir_sectors dx fb m v nm ppv (unat (fat_SectorsPerCluster (vfs_fat (vfs_table s m)))) (cluster_sector (vfs_fat (vfs_table s m)) c) s = KOk z"
    and f: "(case z of Inl y \<Rightarrow> Some (KOk y)
       | Inr s1 \<Rightarrow> bindk (fat_next_cluster dx fb (vfs_fat (vfs_table s1 m)) v c s1) (\<lambda>(c', s2). loop dx fb m v nm ppv c' s2)) = Some (KOk y)"
    unfolding step(4) bindk_Some_KOk by blast
  note o = fat_dir_sectors_outcome [OF step(3) z]
  show ?case
  proof (cases z)
    case (Inl a)
    with f o show ?thesis by simp
  next
    case (Inr s1)
    with f obtain c' s2 where n: "fat_next_cluster dx fb (vfs_fat (vfs_table s1 m)) v c s1 = KOk (c', s2)"
      and l: "loop dx fb m v nm ppv c' s2 = Some (KOk y)" by (auto simp: bindk_Some_KOk)
    have "keeps s s1" using o Inr by simp
    note k2 = keeps_next_cluster [OF this n]
    from step(1) [OF l effect_ok(2) [OF k2] refl] outcome_after [OF k2] show ?thesis by blast
  qed
qed

lemma fnode_lookup_law:
  assumes "vnodes_ok s" and "fnode_lookup dx fb v nm ppv p s = KOk (r, ppv', s')"
  shows "if r = 0 then gives ppv' s s' else keeps s s'"
proof -
  have "outcome s (r, ppv', s')"
    using assms(2) fat_root_entries_outcome [OF assms(1)] fat_dir_clusters_outcome [OF _ assms(1) refl]
    by (auto simp: fnode_lookup_def fnode_lookup_root_def with_vfs_def looped_KOk split: option.splits if_splits)
  then show ?thesis by (simp add: outcome_def)
qed

lemma fnode_inactive_law:
  assumes "vnodes_ok s" and "counts s v = 0" and "fnode_inactive v s = KOk (r, s')"
  shows "keeps s s'"
proof -
  obtain m h s1 where m: "vn_unlink v (list_head s (L_fat m)) s = KOk (h, s1)"
    and s': "s' = upd_vfs m (\<lambda>f. f\<lparr>vfs_fat := (vfs_fat f)\<lparr>fat_pvn := h\<rparr>\<rparr>) s1"
    using assms(3) by (auto simp: fnode_inactive_def with_vfs_def kbind_KOk_iff split: option.splits)
  show ?thesis by (rule inactive_keeps [OF assms(1) _ assms(2) m]) (simp_all only: s' upd_vfs_fat_head, simp_all)
qed

section \<open>Mount\<close>

text \<open>A list that is dropped.\<close>

lemma drop_list_keeps:
  assumes "vnodes_ok s" and "i \<noteq> L_free" and "\<And>x. vnodes s' x = vnodes s x" and "\<And>j. list_head s' j = (if j = i then None else list_head s j)"
    and "cdir s' = cdir s" "fd_table s' = fd_table s" "vnroot s' = vnroot s" "\<And>k. roots s' k = roots s k"
  shows "keeps s s'"
proof -
  obtain ls where ls: "lists_view ls s" "\<forall>x \<in> set (ls L_free). counts s x = 0" using assms(1) by (auto simp: vnodes_ok_def)
  have "vnx s' = vnx s" by (simp add: assms(3))
  then have "lists_view (ls(i := [])) s'" using ls(1) unfolding lists_view_def assms(4) by auto
  then have "vnodes_ok s'" using ls(2) assms(2) unfolding vnodes_ok_def by (intro exI [of _ "ls(i := [])"]) (auto simp: assms(3))
  then show ?thesis by (simp add: keeps_def effect_def assms(3,5-))
qed

lemma fat_mount_law:
  assumes "vnodes_ok s" and "fat_mount dx sb m d s = KOk (r, s')"
  shows "keeps s s' \<or> (\<exists>w. gives (Some w) s s')"
proof -
  consider "dev_get_by_id d (dev_list s) = None"
    | i where "dev_get_by_id d (dev_list s) = Some i" "\<nexists>ty cnt start. dev_at (dev_list s ! i) = DEV_ATTR_DISK_PARTITION ty cnt start"
    | (read) i ty b a where "dev_get_by_id d (dev_list s) = Some i" "dev_at (dev_list s ! i) = DEV_ATTR_DISK_PARTITION ty b a"
    by (cases "dev_get_by_id d (dev_list s)") auto
  then show ?thesis
  proof cases
    case 1
    with assms(2) keeps_refl [OF assms(1)] show ?thesis by (simp add: fat_mount_def)
  next
    case 2
    then have "s' = s" using assms(2) by (simp add: fat_mount_def split: dev_attr.splits)
    with keeps_refl [OF assms(1)] show ?thesis by simp
  next
    case read
    from assms(2) read obtain x s1 where x: "ask_driver dx d (DEV_READ (minor d) (a * 512) sb 512) s = KOk (x, s1)"
      by (auto simp: fat_mount_def kbind_KOk_iff)
    note k1 = ask_driver_keeps [OF assms(1) x]
    define s2 where "s2 = upd_vfs m (\<lambda>f. f\<lparr>vfs_op := Some FS_fat, vfs_vnodecovered := None, vfs_flag := 0,
           vfs_fat := fat_params (ram s1) sb d a b (vfs_fat f)\<rparr>) s1"
    let ?s3 = "upd_vfs m (\<lambda>f. f\<lparr>vfs_fat := fat_layout (ram s2) sb (vfs_fat f)\<rparr>) s2"
    have m: "(if x \<noteq> 512 then KOk (- EINVAL, s1)
       else if fat_BytesPerSector (vfs_fat (vfs_table s2 m)) \<noteq> 512 then KOk (- EINVAL, s2)
       else kbind (fat_root m None ?s3) (\<lambda>(r', pvn, s4). KOk (r', upd_vfs m (\<lambda>f. f\<lparr>vfs_fat := (vfs_fat f)\<lparr>fat_pvn := pvn\<rparr>\<rparr>) s4))) = KOk (r, s')"
      using assms(2) read x unfolding s2_def by (simp only: fat_mount_def option.case dev_attr.case Let_def kbind.simps prod.case)
    have h2: "list_head s2 j = (if j = L_fat m then None else list_head s1 j)" for j by (cases j) (auto simp: s2_def fat_params_def)
    have k2: "keeps s1 s2" by (rule drop_list_keeps [OF effect_ok(2) [OF k1] _ _ h2]) (simp_all add: s2_def)
    have h3: "list_head ?s3 j = (if j = L_fat m then None else list_head s2 j)" for j
      by (cases j) (auto simp: fat_layout_def Let_def s2_def fat_params_def)
    have k3: "keeps s2 ?s3" by (rule drop_list_keeps [OF effect_ok(2) [OF k2] _ _ h3]) simp_all
    have k: "keeps s ?s3" using k1 k2 k3 keeps_trans by blast
    show ?thesis
    proof (cases "x \<noteq> 512 \<or> fat_BytesPerSector (vfs_fat (vfs_table s2 m)) \<noteq> 512")
      case True
      then have "s' = s1 \<or> s' = s2" using m by (auto split: if_splits)
      with k1 k2 show ?thesis by (auto intro: keeps_trans)
    next
      case False
      with m obtain r' pvn s4 where rt: "fat_root m None ?s3 = KOk (r', pvn, s4)"
        and s': "s' = upd_vfs m (\<lambda>f. f\<lparr>vfs_fat := (vfs_fat f)\<lparr>fat_pvn := pvn\<rparr>\<rparr>) s4" by (auto simp: kbind_KOk_iff)
      have "fat_pvn (vfs_fat (vfs_table ?s3 m)) = None" using h3 [of "L_fat m"] by simp
      with fat_root_law [OF effect_ok(2) [OF k] rt] obtain w where w: "pvn = Some w" "gives (Some w) ?s3 s4" "fat_pvn (vfs_fat (vfs_table s4 m)) = Some w" by auto
      have h: "list_head s' j = list_head s4 j" for j using w(1,3) by (cases "j = L_fat m") (simp_all add: s' upd_vfs_fat_head)
      have "vnodes_ok s4" using w(2) by (auto simp: gives_def effect_def)
      then have "vnodes_ok s'" by (rule vnodes_ok_cong [OF _ _ h]) (simp_all add: s')
      then have "gives (Some w) ?s3 s'" using w(2) by (auto simp: gives_def effect_def s')
      with gives_after_keeps [OF k] show ?thesis by (auto simp: gives_def)
    qed
  qed
qed

section \<open>The instance\<close>

interpretation fat: file_system "fat_ops dx fb sb de" for dx :: "'w dexchange" and fb sb de
proof unfold_locales
  fix s s' :: "('w, 'a) vstate_scheme" assume ok: "vnodes_ok s"
  show "vfs_mount (fat_ops dx fb sb de) m d s = KOk (r, s') \<Longrightarrow> keeps s s' \<or> new_root m s s' \<or> (\<exists>w. gives (Some w) s s')" for m d r
    using fat_mount_law [OF ok, of dx sb m d r s'] by (auto simp: fat_ops_def)
  show "vfs_unmount (fat_ops dx fb sb de) m s = KOk (r, s') \<Longrightarrow> keeps s s'" for m r
    using keeps_refl [OF ok] by (simp add: fat_ops_def fat_unmount_def)
  show "roots_held s \<Longrightarrow> vfs_root (fat_ops dx fb sb de) m ppv s = KOk (r, ppv', s') \<Longrightarrow> gives ppv' s s' \<or> ppv' = None \<and> keeps s s'" for m ppv ppv' r
    using fat_root_law [OF ok, of m ppv r ppv' s'] by (auto simp: fat_ops_def)
  show "vn_open (fat_ops dx fb sb de) v fl p s = KOk (r, s') \<Longrightarrow> keeps s s'" for v fl p r
    using keeps_upd_fnode [OF keeps_refl [OF ok]] by (auto simp: fat_ops_def fnode_open_def Let_def)
  show "vn_close (fat_ops dx fb sb de) v p s = KOk (r, s') \<Longrightarrow> keeps s s'" for v p r
    using keeps_refl [OF ok] by (simp add: fat_ops_def fnode_close_def)
  show "vn_read (fat_ops dx fb sb de) v b n p s = KOk (r, s') \<Longrightarrow> keeps s s'" for v b n p r
    using fnode_read_keeps [OF ok] by (simp add: fat_ops_def)
  show "vn_write (fat_ops dx fb sb de) v b n p s = KOk (r, s') \<Longrightarrow> keeps s s'" for v b n p r
    using keeps_refl [OF ok] by (simp add: fat_ops_def fnode_write_def)
  show "vn_ioctl (fat_ops dx fb sb de) v req ptr p s = KOk (r, s') \<Longrightarrow> keeps s s'" for v req ptr p r
    using keeps_refl [OF ok] by (simp add: fat_ops_def fnode_ioctl_def)
  show "vn_lseek (fat_ops dx fb sb de) v off wh s = KOk (r, s') \<Longrightarrow> keeps s s'" for v off wh r
    using fnode_lseek_keeps [OF ok] by (simp add: fat_ops_def)
  show "vn_getattr (fat_ops dx fb sb de) v s = KOk (x, s') \<Longrightarrow> keeps s s'" for v x
    using keeps_refl [OF ok] by (simp add: fat_ops_def fnode_getattr_def)
  show "vn_mkdir (fat_ops dx fb sb de) v nm p s = KOk (r, s') \<Longrightarrow> keeps s s'" for v nm p r
    using keeps_refl [OF ok] by (simp add: fat_ops_def fnode_mkdir_def)
  show "vn_getdents (fat_ops dx fb sb de) v b n p s = KOk (r, s') \<Longrightarrow> keeps s s'" for v b n p r
    using fnode_getdents_keeps [OF ok] by (simp add: fat_ops_def)
  show "vn_lookup (fat_ops dx fb sb de) v nm ppv p s = KOk (r, ppv', s') \<Longrightarrow> if r = 0 then gives ppv' s s' else keeps s s'" for v nm ppv ppv' p r
    using fnode_lookup_law [OF ok] by (simp add: fat_ops_def)
  show "counts s v = 0 \<Longrightarrow> vn_inactive (fat_ops dx fb sb de) v s = KOk (r, s') \<Longrightarrow> keeps s s'" for v r
    using fnode_inactive_law [OF ok] by (simp add: fat_ops_def)
qed

end
