(* ===== verification/VfsTheorems.thy ===== *)
theory VfsTheorems
  imports VfsService FatLaws
begin

text \<open>
  The file system task over the kernel's three file systems: the reference counts in every reachable
  state, and how \<open>_vfs_chdir\<close> loses references.
\<close>

interpretation b68k: vfs_ops "fs_table dx cb ab fb sb de" for dx :: "'w dexchange" and cb ab fb sb de
proof (rule vfs_ops.intro)
  fix k
  show "file_system (fs_table dx cb ab fb sb de k :: ('w, 'a) vstate_scheme fsops)"
    using devfs.file_system_axioms rfs.file_system_axioms fat.file_system_axioms by (cases k) (simp_all add: fs_table_def)
qed

section \<open>Reachable states\<close>

text \<open>What the task keeps between two messages; other tasks do not change it.\<close>

definition same_tables :: "('w, 'a) vstate_scheme \<Rightarrow> ('w, 'a) vstate_scheme \<Rightarrow> bool" where
  "same_tables s s' \<longleftrightarrow> vfs_table s' = vfs_table s \<and> free_vfs s' = free_vfs s \<and> used_vfs s' = used_vfs s \<and> vnodes s' = vnodes s \<and>
     free_vnodes s' = free_vnodes s \<and> vnroot s' = vnroot s \<and> cdir s' = cdir s \<and> fd_table s' = fd_table s"

text \<open>The static tables are zero before the task starts.\<close>

definition empty_slot :: "vfs \<Rightarrow> bool" where
  "empty_slot f \<longleftrightarrow> devfs_pvnroot (vfs_devfs f) = None \<and> devfs_pvn (vfs_devfs f) = None \<and> rfs_pvn (vfs_rfs f) = None \<and> fat_pvn (vfs_fat f) = None"

inductive vfs_reach :: "vfs_env \<Rightarrow> (fsid \<Rightarrow> ('w, 'a) vstate_scheme fsops) \<Rightarrow> ('w, 'a) vstate_scheme \<Rightarrow> bool" for e ops where
  vfs_start: "(\<And>m. empty_slot (vfs_table s m)) \<Longrightarrow> vfs_reach e ops (vfs_init s)"
| vfs_other: "vfs_reach e ops s \<Longrightarrow> same_tables s s' \<Longrightarrow> vfs_reach e ops s'"
| vfs_step: "vfs_reach e ops s \<Longrightarrow> below 64000 s \<Longrightarrow> vfs_dispatch e ops p s = KOk (a, s') \<Longrightarrow> vfs_reach e ops s'"

lemma same_tables_inv: "vfs_inv s \<Longrightarrow> same_tables s s' \<Longrightarrow> vfs_inv s'"
proof -
  assume i: "vfs_inv s" and t: "same_tables s s'"
  have h: "list_head s' j = list_head s j" for j using t by (cases j) (simp_all add: same_tables_def)
  have "refs s' v = refs s v" for v by (rule refs_same) (use t in \<open>simp_all add: same_tables_def\<close>)
  moreover have "vnodes_ok s'" by (rule vnodes_ok_cong [OF _ _ h]) (use i t in \<open>simp_all add: vfs_inv_def same_tables_def\<close>)
  ultimately show ?thesis using i t by (simp add: vfs_inv_def same_tables_def)
qed

lemma chain_upto: "(\<And>i. a \<le> i \<Longrightarrow> i < b \<Longrightarrow> nx i = (if Suc i < b then Some (Suc i) else None)) \<Longrightarrow> a < b \<Longrightarrow> chain nx (Some a) [a..<b]"
proof (induction "b - a" arbitrary: a)
  case (Suc k)
  show ?case
  proof (cases "Suc a < b")
    case True
    have "chain nx (Some (Suc a)) [Suc a..<b]" by (rule Suc.hyps(1)) (use Suc.hyps(2) True Suc.prems(1) in auto)
    then show ?thesis using Suc.prems True by (simp add: upt_conv_Cons)
  next
    case False
    then have "b = Suc a" using Suc.prems(2) by simp
    then show ?thesis using Suc.prems(1) [of a] by simp
  qed
qed simp

lemma vfs_init_inv: "(\<And>m. empty_slot (vfs_table s m)) \<Longrightarrow> vfs_inv (vfs_init s)"
proof -
  assume z: "\<And>m. empty_slot (vfs_table s m)"
  let ?s = "vfs_init s"
  have e: "empty_slot (vfs_table ?s m)" for m using z [of m] by (simp add: vfs_init_def empty_slot_def)
  have h: "list_head ?s i = (if i = L_free then Some 0 else None)" for i
    using e by (cases i) (simp_all add: vfs_init_def empty_slot_def)
  have n: "vnodes ?s v = zero_vnode\<lparr>vn_next := (if Suc v < K_VNODE_COUNT then Some (Suc v) else None)\<rparr>" if "v < K_VNODE_COUNT" for v
    using that by (auto simp: vfs_init_def K_VNODE_COUNT_def)
  let ?ls = "(\<lambda>_. [])(L_free := [0..<K_VNODE_COUNT])"
  have "vnodes_ok ?s"
  proof (rule vnodes_okI [of _ ?ls])
    have "chain (vnx ?s) (Some 0) [0..<K_VNODE_COUNT]" by (rule chain_upto) (simp_all add: n, simp add: K_VNODE_COUNT_def)
    then show "chain (vnx ?s) (list_head ?s i) (?ls i)" for i by (simp add: h)
    show "set (?ls i) \<inter> set (?ls j) = {}" if "i \<noteq> j" for i j using that by auto
    show "counts ?s x = 0" if "x \<in> set (?ls L_free)" for x using that n [of x] by (simp add: zero_vnode_def)
  qed
  moreover have "refs ?s v = 0" for v
  proof -
    have "roots ?s m = None" for m using e [of m] by (simp add: empty_slot_def)
    moreover have "proc_refs ?s v p = 0" if "p \<in> pids" for p using that by (simp add: proc_refs_def vfs_init_def pids_def K_PROC_COUNT_def)
    ultimately show ?thesis by (simp add: refs_def vfs_init_def)
  qed
  ultimately show ?thesis by (simp add: vfs_inv_def)
qed

lemma reach_inv: "vfs_reach e (fs_table dx cb ab fb sb de) s \<Longrightarrow> vfs_inv s"
proof (induction rule: vfs_reach.induct)
  case (vfs_start s)
  then show ?case by (rule vfs_init_inv)
next
  case (vfs_other s s')
  then show ?case by (blast intro: same_tables_inv)
next
  case (vfs_step s p a s')
  then show ?case by (blast intro: b68k.dispatch_inv)
qed

text \<open>The vnodes of the pool, from its head on.\<close>

definition in_pool :: "nat \<Rightarrow> ('w, 'a) vstate_scheme \<Rightarrow> bool" where
  "in_pool v s \<longleftrightarrow> (\<exists>xs. chain (vnx s) (free_vnodes s) xs \<and> v \<in> set xs)"

lemma inv_pool: "vfs_inv s \<Longrightarrow> in_pool v s \<Longrightarrow> refs s v = 0"
proof -
  assume i: "vfs_inv s" and p: "in_pool v s"
  obtain ls where ls: "\<And>i. chain (vnx s) (list_head s i) (ls i)" "\<And>x. x \<in> set (ls L_free) \<Longrightarrow> counts s x = 0"
    using i vnodes_okE [of s] unfolding vfs_inv_def by metis
  obtain xs where xs: "chain (vnx s) (free_vnodes s) xs" "v \<in> set xs" using p by (auto simp: in_pool_def)
  have "xs = ls L_free" using chain_fun [OF xs(1)] ls(1) [of L_free] by simp
  then have "counts s v = 0" using ls(2) xs(2) by blast
  then show ?thesis using i by (simp add: vfs_inv_def) (metis unsigned_0 le_zero_eq)
qed

section \<open>A reachable state with a file system\<close>

definition demo_ram :: ram where
  "demo_ram = put_bytes (put_bytes (put_bytes (put_bytes (\<lambda>_. 0) 0x100 [1, 1, 0, 0, 0, 0, 2, 0, 0, 0, 2, 16, 0, 0, 2, 32])
     0x200 [110, 111]) 0x210 [47]) 0x220 [100, 101, 118, 102, 115]"

definition vfs_demo :: "unit vstate" where
  "vfs_demo = \<lparr>blk_sts = (\<lambda>_. 0), last_base = 0, last_msk = 0, ram = demo_ram, mmu = undefined,
     proc_table = (\<lambda>p. \<lparr>pl_d = zero_desc\<lparr>p_state := ST_READY, uid := PROC_UID_KERNEL, mem_sz := 0x1000\<rparr>, pl_pid = p, pl_next = None, pl_prev = None\<rparr>),
     proc_ready = None, proc_free = None, proc_ptr = None,
     vfs_table = (\<lambda>_. undefined\<lparr>vfs_devfs := \<lparr>devfs_pvnroot = None, devfs_pvn = None\<rparr>, vfs_rfs := undefined\<lparr>rfs_pvn := None\<rparr>, vfs_fat := undefined\<lparr>fat_pvn := None\<rparr>\<rparr>),
     free_vfs = None, used_vfs = None, vnodes = (\<lambda>_. zero_vnode), free_vnodes = None, vnroot = None, cdir = undefined, fd_table = undefined,
     dev_list = [], world = ()\<rparr>"

definition demo_vfs_env :: vfs_env where
  "demo_vfs_env = \<lparr>vfs_msg = 0x100, vfs_resp = 0x120, vfs_addr = (\<lambda>_. 0), junk_pvn_at = 0x800, junk_rdev = 0\<rparr>"

lemma ram_str_at: "str_at r a xs \<Longrightarrow> ram_str r a = Some xs"
proof (induction xs arbitrary: a)
  case Nil
  then show ?case by (subst ram_str.simps) (simp add: str_at_Nil)
next
  case (Cons x xs)
  then show ?case by (subst ram_str.simps) (simp add: str_at_Cons)
qed

lemma str_scan_at: "str_at r a xs \<Longrightarrow> length xs < n \<Longrightarrow> str_scan r a n"
proof (induction xs arbitrary: a n)
  case Nil
  then show ?case by (cases n) (simp_all add: str_at_Nil)
next
  case (Cons x xs)
  then show ?case by (cases n) (auto simp: str_at_Cons)
qed

lemma demo_str_at:
  "str_at demo_ram 0x200 [110, 111]" "str_at demo_ram 0x210 [47]" "str_at demo_ram 0x220 [100, 101, 118, 102, 115]"
  by (simp add: str_at_Nil str_at_Cons demo_ram_def put_bytes_def)+

lemmas demo_strings = demo_str_at [THEN ram_str_at]

lemma demo_message:
  "load16 demo_ram 0x100 = 0x101" "load32 demo_ram 0x104 = 0x200" "load32 demo_ram 0x108 = 0x210" "load32 demo_ram 0x10C = 0x220"
  by (simp_all add: load16_def load32_def demo_ram_def put_bytes_def)

lemma demo_vfs_state:
  "ram (vfs_init vfs_demo) = demo_ram" "free_vfs (vfs_init vfs_demo) = Some 0" "used_vfs (vfs_init vfs_demo) = None"
  "dev_list (vfs_init vfs_demo) = []" "free_vnodes (vfs_init vfs_demo) = Some 0" "vnodes (vfs_init vfs_demo) 0 = zero_vnode\<lparr>vn_next := Some 1\<rparr>"
  "proc_table (vfs_init vfs_demo) p = \<lparr>pl_d = zero_desc\<lparr>p_state := ST_READY, uid := PROC_UID_KERNEL, mem_sz := 0x1000\<rparr>, pl_pid = p, pl_next = None, pl_prev = None\<rparr>"
  by (simp_all add: vfs_demo_def vfs_init_def K_VNODE_COUNT_def)

lemma demo_path:
  assumes "str_at demo_ram a xs" and "length xs < unat m" and "a + ucast m \<le> 0x1000" and "a < 0x1000"
  shows "va_to_pa_str 3 a m (vfs_init vfs_demo) = KOk a"
proof -
  have "m \<noteq> 0" using assms(2) by auto
  then show ?thesis using assms(3,4) str_scan_at [OF assms(1,2)]
    by (simp add: va_to_pa_str_def entry_def K_PROC_COUNT_def demo_vfs_state zero_desc_def linorder_not_less [symmetric])
qed

lemma demo_paths:
  "va_to_pa_str 3 0x200 128 (vfs_init vfs_demo) = KOk 0x200" "va_to_pa_str 3 0x210 128 (vfs_init vfs_demo) = KOk 0x210"
  "va_to_pa_str 3 0x220 8 (vfs_init vfs_demo) = KOk 0x220"
  by (rule demo_path, rule demo_str_at, simp, simp, simp)+

lemma demo_uid: "proc_get_uid 3 (vfs_init vfs_demo) = KOk PROC_UID_KERNEL"
  by (simp add: proc_get_uid_def entry_def K_PROC_COUNT_def demo_vfs_state)

lemma demo_mount:
  "\<exists>s'. vfs_dispatch demo_vfs_env (fs_table dx cb ab fb sb de) 3 (vfs_init vfs_demo) = KOk (ANS 0, s') \<and>
     vnroot s' = Some 0 \<and> v_count (vnodes s' 0) = 2"
proof -
  let ?s = "vfs_init vfs_demo" and ?ops = "fs_table dx cb ab fb sb de"
  have ty: "find_fs_type [100, 101, 118, 102, 115, 0] None vfs_fs_types = Some FS_devfs" by (simp add: vfs_fs_types_def)
  have d: "vfs_dispatch demo_vfs_env ?ops 3 ?s = mount_fs demo_vfs_env ?ops 3 True 0 [110, 111] [47] [100, 101, 118, 102, 115] ?s"
    by (simp add: vfs_dispatch_def demo_vfs_env_def demo_vfs_state demo_message vfs_mount_msg_def demo_paths demo_uid demo_strings
        K_MAX_DIRNAME_LEN_def)
  show ?thesis unfolding d
    by (simp add: mount_fs_def demo_vfs_state mount_device_def dev_get_def ty fs_table_def devfs_ops_def devfs_mount_def
        vfs_vnode_alloc_def vfs_call_def devfs_root_def mount_at_def mount_link_def zero_vnode_def Let_def)
qed

section \<open>A directory entered again and again\<close>

primrec repeat_chdir ::
    "(fsid \<Rightarrow> ('w, 'a) vstate_scheme fsops) \<Rightarrow> pid \<Rightarrow> u32 \<Rightarrow> nat \<Rightarrow> ('w, 'a) vstate_scheme \<Rightarrow> ('w, 'a) vstate_scheme kres" where
  "repeat_chdir ops p va 0 s = KOk s"
| "repeat_chdir ops p va (Suc n) s = kbind (vfs_chdir ops p va 2 s) (\<lambda>(a, s1). if a = ANS 0 then repeat_chdir ops p va n s1 else KPanic)"

text \<open>The process \<open>p\<close> is in the directory \<open>v\<close> and has the path \<open>.\<close> in its memory.\<close>

definition in_dir :: "pid \<Rightarrow> u32 \<Rightarrow> nat \<Rightarrow> ('w, 'a) vstate_scheme \<Rightarrow> bool" where
  "in_dir p va v s \<longleftrightarrow> p \<in> pids \<and> cdir s p = Some v \<and> v_vfsmountedhere (vnodes s v) = None \<and> v_type (vnodes s v) = VDIR \<and>
     va + 2 \<le> mem_sz (desc s p) \<and> va + mem_ad (desc s p) \<noteq> 0 \<and> str_at (ram s) (va + mem_ad (desc s p)) [46]"

lemma chdir_dot:
  assumes "in_dir p va v s"
  shows "vfs_chdir ops p va 2 s = KOk (ANS 0, (VN_HOLD v s)\<lparr>cdir := (cdir s)(p := Some v)\<rparr>)"
proof -
  let ?a = "va + mem_ad (desc s p)"
  have p: "p \<in> pids" "cdir s p = Some v" "v_vfsmountedhere (vnodes s v) = None" "v_type (vnodes s v) = VDIR" "?a \<noteq> 0"
    and pa: "va_to_pa p va 2 s = KOk ?a" and st: "str_at (ram s) ?a [46]"
    using assms by (simp_all add: in_dir_def va_to_pa_def entry_def pids_def K_PROC_COUNT_def linorder_not_less [symmetric])
  have e: "entry p f = f p" for f :: "int \<Rightarrow> 'c kres" using p(1) by (simp add: entry_def pids_def K_PROC_COUNT_def)
  have dot: "lookup_loop ops p [46] v (VN_HOLD v s) = KOk (0, Some v, VN_HOLD v s)"
    using p(3) by (simp add: lookup_loop.simps [of ops p "[46]"] lookup_loop.simps [of ops p "[]"] change_vfs_def subpathlen_def Let_def)
  have l: "lookuppn ops [46] None p s = KOk (0, Some v, VN_HOLD v s)"
    using p(2) dot by (simp add: lookuppn_def Let_def e)
  have z: "ram s (?a + (ucast (2 :: u16) - 1)) = 0" using st by (simp add: str_at_Cons str_at_Nil)
  show ?thesis using p(4,5) pa z l ram_str_at [OF st] by (simp add: vfs_chdir_def K_MAX_DIRNAME_LEN_def)
qed

lemma repeat_chdir_counts:
  "in_dir p va v s \<Longrightarrow> \<exists>s'. repeat_chdir ops p va n s = KOk s' \<and> counts s' v = counts s v + of_nat n \<and> cdir s' = cdir s \<and>
     fd_table s' = fd_table s \<and> vnroot s' = vnroot s \<and> vfs_table s' = vfs_table s"
proof (induction n arbitrary: s)
  case (Suc n)
  let ?s1 = "(VN_HOLD v s)\<lparr>cdir := (cdir s)(p := Some v)\<rparr>"
  have c: "cdir ?s1 = cdir s" using Suc.prems by (auto simp: in_dir_def)
  have "in_dir p va v ?s1" using Suc.prems by (simp add: in_dir_def)
  from Suc.IH [OF this] c show ?case by (auto simp: chdir_dot [OF Suc.prems] add_ac)
qed simp

section \<open>Theorems\<close>

text \<open>C21. Every vnode has at least as many references as descriptors, current directories and roots lead to it, in
  every state the file system task reaches by serving messages over its three file systems, whatever the
  drivers and the other tasks do in between, as long as no count comes close to 65536; so no vnode in
  the pool of free vnodes is in use.\<close>

theorem vfs_references_counted:
  assumes "vfs_reach e (fs_table dx cb ab fb sb de) s"
  shows "(\<forall>v. refs s v \<le> unat (counts s v)) \<and> (\<forall>v. in_pool v s \<longrightarrow> refs s v = 0)"
  using reach_inv [OF assms] inv_pool by (auto simp: vfs_inv_def)

lemma demo_reach:
  "vfs_reach demo_vfs_env (fs_table dx cb ab fb sb de) (vfs_init vfs_demo)"
  "below 64000 (vfs_init vfs_demo)"
proof -
  show "vfs_reach demo_vfs_env (fs_table dx cb ab fb sb de) (vfs_init vfs_demo)"
    by (rule vfs_start) (simp add: empty_slot_def vfs_demo_def)
  have "counts (vfs_init vfs_demo) v = 0" for v by (simp add: vfs_init_def vfs_demo_def zero_vnode_def)
  then show "below 64000 (vfs_init vfs_demo)" by (simp add: below_def)
qed

theorem vfs_references_counted_witness:
  "\<exists>s :: unit vstate. vfs_reach demo_vfs_env (fs_table (\<lambda>_ _ _. KFault) 0 0 (\<lambda>_. 0) 0 0) s \<and> vnroot s = Some 0 \<and>
     (\<forall>v. refs s v \<le> unat (counts s v)) \<and> (\<forall>v. in_pool v s \<longrightarrow> refs s v = 0)"
proof -
  let ?ops = "fs_table (\<lambda>_ _ _. KFault) 0 0 (\<lambda>_. 0) 0 0 :: fsid \<Rightarrow> unit vstate fsops"
  obtain s where s: "vfs_dispatch demo_vfs_env ?ops 3 (vfs_init vfs_demo) = KOk (ANS 0, s)" "vnroot s = Some 0"
    using demo_mount by blast
  have "vfs_reach demo_vfs_env ?ops s" by (rule vfs_step [OF demo_reach s(1)])
  with vfs_references_counted [OF this] s(2) show ?thesis by blast
qed

text \<open>C22. CHDIR overwrites the current directory without releasing it: entering \<open>.\<close> takes a reference each time,
  and after as many times as the 16-bit count has values left, the directory has count 0 while the process
  is still in it, so that the next release of any reference gives its vnode back to the pool.\<close>

theorem chdir_loses_references:
  assumes "in_dir p va v s" and "counts s v \<noteq> 0"
  shows "\<exists>s'. repeat_chdir ops p va (65536 - unat (counts s v)) s = KOk s' \<and> counts s' v = 0 \<and> cdir s' p = Some v \<and> refs s' v = refs s v \<and> 0 < refs s' v"
proof -
  obtain s' where s': "repeat_chdir ops p va (65536 - unat (counts s v)) s = KOk s'" "counts s' v = counts s v + of_nat (65536 - unat (counts s v))"
    "cdir s' = cdir s" "fd_table s' = fd_table s" "vnroot s' = vnroot s" "vfs_table s' = vfs_table s"
    using repeat_chdir_counts [OF assms(1)] by blast
  have "unat (counts s v) \<le> 65536" using unsigned_less [of "counts s v", where 'a = nat] by simp
  then have "of_nat (65536 - unat (counts s v)) = (of_nat 65536 - counts s v :: u16)" by (simp add: of_nat_diff)
  then have "counts s' v = 0" using s'(2) by simp
  moreover have "refs s' v = refs s v" by (rule refs_same) (simp_all add: s')
  moreover have "0 < refs s' v" using assms(1) refs_pos(2) [of p s' v] s'(3) by (simp add: in_dir_def)
  ultimately show ?thesis using s' assms(1) by (auto simp: in_dir_def)
qed

definition dir_demo :: "unit vstate" where
  "dir_demo = (vfs_init vfs_demo)\<lparr>cdir := (\<lambda>_. Some 0), vnodes := (\<lambda>_. zero_vnode\<lparr>v_type := VDIR, v_count := 1\<rparr>), ram := put_bytes (\<lambda>_. 0) 0x200 [46]\<rparr>"

theorem chdir_loses_references_witness:
  "\<exists>s'. repeat_chdir (fs_table (\<lambda>_ _ _. KFault) 0 0 (\<lambda>_. 0) 0 0) 5 0x200 65535 dir_demo = KOk s' \<and> counts s' 0 = 0 \<and> 0 < refs s' 0"
proof -
  have d: "in_dir 5 0x200 0 dir_demo"
    by (simp add: in_dir_def dir_demo_def pids_def demo_vfs_state zero_desc_def zero_vnode_def str_at_Cons str_at_Nil put_bytes_def)
  have c: "counts dir_demo 0 = 1" by (simp add: dir_demo_def)
  show ?thesis using chdir_loses_references [OF d, of "fs_table (\<lambda>_ _ _. KFault) 0 0 (\<lambda>_. 0) 0 0"] c by auto
qed

end
