(* ===== verification/VfsPaths.thy ===== *)
theory VfsPaths
  imports Vfs
begin

text \<open>
  Path resolution as a walk along the elements of the path: the loop of \<open>_lookuppn\<close> over a string of
  characters does what a walk over the list of its elements does.
\<close>

section \<open>The elements of a path\<close>

function components :: "u8 list \<Rightarrow> u8 list list" where
  "components nm =
     (let nm1 = dropWhile (\<lambda>c. c = 47) nm in
      if nm1 = [] then [] else takeWhile (\<lambda>c. c \<noteq> 47) nm1 # components (dropWhile (\<lambda>c. c \<noteq> 47) nm1))"
  by pat_completeness auto
termination
proof (relation "measure length")
  fix nm nm1 :: "u8 list"
  assume n: "nm1 = dropWhile (\<lambda>c. c = 47) nm" "nm1 \<noteq> []"
  then have "hd nm1 \<noteq> 47" using hd_dropWhile [of "\<lambda>c. c = 47" nm] by auto
  then have "length (dropWhile (\<lambda>c. c \<noteq> 47) nm1) < length nm1"
    using n(2) length_dropWhile_le [of "\<lambda>c. c \<noteq> 47" "tl nm1"] by (cases nm1) (auto simp: less_Suc_eq_le)
  moreover have "length nm1 \<le> length nm" unfolding n(1) by (rule length_dropWhile_le)
  ultimately show "(dropWhile (\<lambda>c. c \<noteq> 47) nm1, nm) \<in> measure length" by simp
qed simp

declare components.simps [simp del]

text \<open>The element \<open>.\<close> crosses a mount point and looks nothing up.\<close>

fun walk ::
    "(fsid \<Rightarrow> ('w, 'a) vstate_scheme fsops) \<Rightarrow> pid \<Rightarrow> u8 list list \<Rightarrow> nat \<Rightarrow> ('w, 'a) vstate_scheme \<Rightarrow> (int \<times> nat option \<times> ('w, 'a) vstate_scheme) kres" where
  "walk ops p [] v s = kbind (change_vfs ops v s) (\<lambda>(ppv, s1). KOk (0, ppv, s1))"
| "walk ops p (c # cs) v s =
     kbind (change_vfs ops v s) (\<lambda>(ppv, s1).
     case ppv of None \<Rightarrow> KFault
     | Some v1 \<Rightarrow>
         if c = [46] then walk ops p cs v1 s1
         else
           kbind (vn_call ops v1 (\<lambda>f. vn_lookup f v1 (c @ [0]) (Some v1) p s1) s1) (\<lambda>(ret, ppv2, s2).
           kbind (VN_RELE ops v1 s2) (\<lambda>s3.
           if ret \<noteq> 0 then KOk (ret, ppv2, s3)
           else case ppv2 of None \<Rightarrow> KFault | Some v2 \<Rightarrow> walk ops p cs v2 s3)))"

definition resolve ::
    "(fsid \<Rightarrow> ('w, 'a) vstate_scheme fsops) \<Rightarrow> bool \<Rightarrow> u8 list list \<Rightarrow> nat option \<Rightarrow> pid \<Rightarrow> ('w, 'a) vstate_scheme \<Rightarrow>
     (int \<times> nat option \<times> ('w, 'a) vstate_scheme) kres" where
  "resolve ops absolute cs ppv p s =
     kbind (if absolute then KOk (vnroot s)
            else entry p (\<lambda>q. KOk (if cdir s q = None then vnroot s else cdir s q))) (\<lambda>start.
     if start = None then KOk (- ENOENT, ppv, s) else walk ops p cs (the start) (VN_HOLD (the start) s))"

section \<open>The loop over the characters\<close>

lemma subpath_count_while: "subpath_count nm = length (takeWhile (\<lambda>c. c \<noteq> 47) nm)"
  by (induction nm) auto

lemma skip_slashes_while: "skip_slashes nm = dropWhile (\<lambda>c. c = 47) nm"
  by (induction nm) auto

lemma trim_slash_while: "trim_slash nm = dropWhile (\<lambda>c. c = 47) (dropWhile (\<lambda>c. c \<noteq> 47) nm)"
  by (induction nm) (auto simp: skip_slashes_while)

lemma drop_while: "drop (length (takeWhile P xs)) xs = dropWhile P xs"
  by (induction xs) auto

lemma take_while: "take (length (takeWhile P xs)) xs = takeWhile P xs"
  by (induction xs) auto

lemma components_Nil: "components [] = []"
  by (simp add: components.simps)

lemma components_skip: "components (dropWhile (\<lambda>c. c = 47) nm) = components nm"
  by (simp add: components.simps [of nm] components.simps [of "dropWhile (\<lambda>c. c = 47) nm"])

lemma components_Cons:
  "nm \<noteq> [] \<Longrightarrow> hd nm \<noteq> 47 \<Longrightarrow> components nm = takeWhile (\<lambda>c. c \<noteq> 47) nm # components (trim_slash nm)"
proof -
  assume n: "nm \<noteq> []" "hd nm \<noteq> 47"
  then have "dropWhile (\<lambda>c. c = 47) nm = nm" by (cases nm) auto
  then show ?thesis using n(1) by (simp add: components.simps [of nm] trim_slash_while components_skip)
qed

lemma trim_slash_hd: "trim_slash nm \<noteq> [] \<Longrightarrow> hd (trim_slash nm) \<noteq> 47"
  unfolding trim_slash_while using hd_dropWhile [of "\<lambda>c. c = 47" "dropWhile (\<lambda>c. c \<noteq> 47) nm"] by simp

lemma lookup_loop_walk:
  assumes "nm \<noteq> [] \<longrightarrow> hd nm \<noteq> 47" and "\<forall>c \<in> set (components nm). length c < 65536"
  shows "lookup_loop ops p nm v s = walk ops p (components nm) v s"
  using assms
proof (induction "length nm" arbitrary: nm v s rule: less_induct)
  case less
  show ?case
  proof (cases "nm = []")
    case True
    then show ?thesis by (simp add: lookup_loop.simps components_Nil)
  next
    case False
    let ?c = "takeWhile (\<lambda>c. c \<noteq> 47) nm" and ?r = "trim_slash nm"
    have cs: "components nm = ?c # components ?r" using False less.prems(1) by (simp add: components_Cons)
    have "length ?c < 65536" using less.prems(2) cs by simp
    then have e: "unat (subpathlen nm) = length ?c" by (simp add: subpathlen_def subpath_count_while unat_of_nat)
    have rest: "trim_slash (drop (unat (subpathlen nm)) nm) = ?r"
      unfolding e drop_while by (simp add: trim_slash_while)
    have elem: "take (unat (subpathlen nm)) nm = ?c" unfolding e by (rule take_while)
    have dot: "(Suc 0 < unat (subpathlen nm) \<or> hd nm \<noteq> 46) \<longleftrightarrow> ?c \<noteq> [46]"
    proof -
      obtain x xs where nm: "nm = x # xs" using False by (cases nm) auto
      then have "x \<noteq> 47" using less.prems(1) by simp
      then show ?thesis unfolding e using nm by (cases "takeWhile (\<lambda>c. c \<noteq> 47) xs") auto
    qed
    have IH: "lookup_loop ops p ?r v' s' = walk ops p (components ?r) v' s'" for v' s'
      by (rule less.hyps) (use trim_slash_less [OF False] trim_slash_hd less.prems(2) cs in auto)
    show ?thesis using False
      by (cases "?c = [46]") (simp_all add: lookup_loop.simps [of ops p nm v s] cs Let_def rest elem dot IH cong: option.case_cong if_cong)
  qed
qed

lemma lookuppn_resolve:
  assumes "\<forall>c \<in> set (components nm). length c < 65536"
  shows "lookuppn ops nm ppv p s = resolve ops (nm \<noteq> [] \<and> hd nm = 47) (components nm) ppv p s"
proof -
  let ?abs = "nm \<noteq> [] \<and> hd nm = 47" and ?nm = "if nm \<noteq> [] \<and> hd nm = 47 then trim_slash nm else nm"
  have c: "components ?nm = components nm"
  proof (cases ?abs)
    case True
    then have "dropWhile (\<lambda>c. c \<noteq> 47) nm = nm" by (cases nm) auto
    with True show ?thesis by (simp add: trim_slash_while components_skip)
  next
    case False
    then show ?thesis by auto
  qed
  have w: "lookup_loop ops p ?nm v s' = walk ops p (components nm) v s'" for v s'
    using lookup_loop_walk [of ?nm ops p v s'] assms trim_slash_hd [of nm] unfolding c by auto
  have st: "(case cdir s q of None \<Rightarrow> vnroot s | Some v \<Rightarrow> Some v) = (if cdir s q = None then vnroot s else cdir s q)" for q
    by (cases "cdir s q") simp_all
  have "(\<lambda>start. case start of None \<Rightarrow> KOk (- ENOENT, ppv, s) | Some v \<Rightarrow> lookup_loop ops p ?nm v (VN_HOLD v s)) =
      (\<lambda>start. if start = None then KOk (- ENOENT, ppv, s) else walk ops p (components nm) (the start) (VN_HOLD (the start) s))"
    unfolding w by (rule ext) (simp split: option.splits)
  then show ?thesis unfolding lookuppn_def resolve_def Let_def st by (rule arg_cong)
qed

text \<open>C23. Resolving a path is a walk along its elements (what is between slashes), each looked up in the directory
  the walk has reached, from the root for an absolute path and from the current directory otherwise:
  repeated, leading and trailing slashes do not matter. Elements of 65536 characters or more are
  excluded, as their length is counted in 16 bits.\<close>

theorem lookuppn_walks_elements:
  assumes "\<forall>c \<in> set (components nm). length c < 65536"
  shows "lookuppn ops nm ppv p s = resolve ops (nm \<noteq> [] \<and> hd nm = 47) (components nm) ppv p s"
  by (rule lookuppn_resolve [OF assms])

text \<open>The path \<open>//a/./b/\<close>.\<close>

theorem lookuppn_walks_elements_witness:
  "\<forall>ops p (s :: unit vstate). lookuppn ops [47, 47, 97, 47, 46, 47, 98, 47] None p s = resolve ops True [[97], [46], [98]] None p s"
proof (intro allI)
  fix ops p and s :: "unit vstate"
  let ?nm = "[47, 47, 97, 47, 46, 47, 98, 47] :: u8 list"
  have c: "components ?nm = [[97], [46], [98]]" by (simp add: components.simps)
  have "lookuppn ops ?nm None p s = resolve ops (?nm \<noteq> [] \<and> hd ?nm = 47) (components ?nm) None p s"
    by (rule lookuppn_walks_elements) (simp add: c)
  then show "lookuppn ops ?nm None p s = resolve ops True [[97], [46], [98]] None p s" by (simp add: c)
qed

end
