(* ===== verification/RfsProps.thy ===== *)
theory RfsProps
  imports Rfs
begin

text \<open>The frames of the remote file system protocol: what the receiver accepts.\<close>

lemma rfs_sum_list: "rfs_sum acc xs = acc + sum_list xs"
  by (induction xs arbitrary: acc) (simp_all add: add.assoc)

lemma check_sum_list: "check_sum r a n acc = (acc + (\<Sum>i<n. r (a + of_nat i)), a + of_nat n)"
proof (induction n arbitrary: a acc)
  case (Suc n)
  have "(\<Sum>i<Suc n. r (a + of_nat i)) = r a + (\<Sum>i<n. r (a + 1 + of_nat i))"
    by (subst sum.lessThan_Suc_shift) (simp add: add_ac)
  then show ?case by (simp add: Suc.IH add_ac)
qed simp

lemma check_msg_sum:
  "check_msg r a \<longleftrightarrow> r a = 0x55 \<and> (\<Sum>i<unat (r (a + 1)). r (a + 2 + of_nat i)) = r (a + 2 + of_nat (unat (r (a + 1)))) \<and>
     r (a + 2 + of_nat (unat (r (a + 1))) + 1) = 0xAA"
  by (auto simp: check_msg_def check_sum_list Let_def)

text \<open>The bytes of a frame in memory.\<close>

lemma frame_bytes:
  assumes "holds r a (rfs_frame pl)" and "length pl < 256"
  shows "r a = 0x55" and "unat (r (a + 1)) = length pl" and "\<And>i. i < length pl \<Longrightarrow> r (a + 2 + of_nat i) = pl ! i"
    and "r (a + 2 + of_nat (length pl)) = sum_list pl" and "r (a + 2 + of_nat (length pl) + 1) = 0xAA"
proof -
  have h: "r (a + of_nat i) = rfs_frame pl ! i" if "i < length pl + 4" for i
    using holdsD [OF assms(1), of i] that by (simp add: rfs_frame_def)
  show "r a = 0x55" using h [of 0] by (simp add: rfs_frame_def)
  show "unat (r (a + 1)) = length pl" using h [of 1] assms(2) by (simp add: rfs_frame_def RFS_PAYLOAD_LEN_def unat_of_nat)
  show "r (a + 2 + of_nat i) = pl ! i" if "i < length pl" for i
    using h [of "2 + i"] that by (simp add: rfs_frame_def nth_append add.assoc)
  show "r (a + 2 + of_nat (length pl)) = sum_list pl"
    using h [of "2 + length pl"] by (simp add: rfs_frame_def nth_append add.assoc rfs_chksum_def rfs_sum_list)
  show "r (a + 2 + of_nat (length pl) + 1) = 0xAA"
    using h [of "3 + length pl"] by (simp add: rfs_frame_def nth_append add_ac)
qed

lemma sum_bytes: "(\<And>i. i < length pl \<Longrightarrow> f i = pl ! i) \<Longrightarrow> (\<Sum>i<length pl. f i) = sum_list pl"
  by (simp add: sum_list_sum_nth atLeast0LessThan)

lemma sum_update: "i < length xs \<Longrightarrow> sum_list (xs[i := b]) = sum_list xs - xs ! i + (b :: u8)"
proof (induction xs arbitrary: i)
  case (Cons x xs)
  then show ?case by (cases i) auto
qed simp

lemma offset_inj: "i < 2 ^ 16 \<Longrightarrow> j < 2 ^ 16 \<Longrightarrow> (a :: u32) + of_nat i = a + of_nat j \<longleftrightarrow> i = j"
  by (auto simp: unat_of_nat dest: arg_cong [where f = unat])

text \<open>C25. The receiver of the remote file system accepts every frame the sender builds, and rejects it when one byte of
  its payload has been changed on the way: header, length, checksum and trailer of the two sides agree.\<close>

theorem rfs_frames_checked:
  assumes "holds r a (rfs_frame pl)" and "length pl < 256"
  shows "check_msg r a \<and> (\<forall>i < length pl. \<forall>b. b \<noteq> pl ! i \<longrightarrow> \<not> check_msg (r(a + 2 + of_nat i := b)) a)"
proof (intro conjI)
  note f = frame_bytes [OF assms]
  have s: "(\<Sum>i<length pl. r (a + 2 + of_nat i)) = sum_list pl" by (rule sum_bytes) (rule f(3))
  show "check_msg r a" using f s by (simp add: check_msg_sum)
  show "\<forall>i < length pl. \<forall>b. b \<noteq> pl ! i \<longrightarrow> \<not> check_msg (r(a + 2 + of_nat i := b)) a"
  proof (intro allI impI)
    fix i b assume i: "i < length pl" and b: "b \<noteq> pl ! i"
    let ?r = "r(a + 2 + of_nat i := b)"
    have ne: "?r (a + of_nat j) = r (a + of_nat j)" if "j \<noteq> 2 + i" "j < 1000" for j
      using offset_inj [of j "2 + i" a] that i assms(2) by (simp add: add.assoc)
    have len: "unat (?r (a + 1)) = length pl" using ne [of 1] f(2) by simp
    have e: "?r (a + 2 + of_nat (length pl)) = sum_list pl" using ne [of "2 + length pl"] f(4) i assms(2) by (simp add: add.assoc)
    have "(\<Sum>j<length pl. ?r (a + 2 + of_nat j)) = sum_list (pl[i := b])"
    proof -
      have "?r (a + 2 + of_nat j) = pl[i := b] ! j" if "j < length pl" for j
      proof (cases "j = i")
        case True
        then show ?thesis using i by simp
      next
        case False
        then show ?thesis using ne [of "2 + j"] f(3) [OF that] that assms(2) by (simp add: add.assoc)
      qed
      then show ?thesis using sum_bytes [of "pl[i := b]" "\<lambda>j. ?r (a + 2 + of_nat j)"] by simp
    qed
    moreover have "sum_list (pl[i := b]) = sum_list pl - pl ! i + b" using i by (rule sum_update)
    ultimately have "(\<Sum>j<length pl. ?r (a + 2 + of_nat j)) \<noteq> sum_list pl" using b by simp
    then show "\<not> check_msg ?r a" using len e by (simp add: check_msg_sum)
  qed
qed

text \<open>The reset command.\<close>

theorem rfs_frames_checked_witness:
  "check_msg (put_bytes (\<lambda>_. 0) 0x100 (rfs_frame [73])) 0x100 \<and> \<not> check_msg ((put_bytes (\<lambda>_. 0) 0x100 (rfs_frame [73]))(0x102 := 74)) 0x100"
proof -
  have h: "holds (put_bytes (\<lambda>_. 0) 0x100 (rfs_frame [73])) 0x100 (rfs_frame [73])" by (rule put_holds) (simp add: rfs_frame_def)
  show ?thesis using rfs_frames_checked [OF h] by auto
qed

end
