(* ===== verification/FatNames.thy ===== *)
theory FatNames
  imports Fat
begin

text \<open>File names in 8.3 form: the name an entry is printed with is the name it is found by, in upper case.\<close>

lemma to_upper_simps [simp]: "to_upper 0 = 0" "to_upper 46 = 46"
  by (simp_all add: to_upper_def)

lemma to_upper_space [simp]: "to_upper c = 32 \<longleftrightarrow> c = 32"
proof
  assume u: "to_upper c = 32"
  show "c = 32"
  proof (rule ccontr)
    assume n: "c \<noteq> 32"
    then have l: "97 \<le> c" "c \<le> 122" "c - 32 = 32" using u by (auto simp: to_upper_def split: if_splits)
    then have "c = 64" by (simp add: algebra_simps)
    with l(1) show False by simp
  qed
qed (simp add: to_upper_def)

text \<open>A base of at most 8 characters, an extension of at most 3, neither with a space, a dot or a null byte.\<close>

definition name_char :: "u8 \<Rightarrow> bool" where
  "name_char c \<longleftrightarrow> c \<noteq> 0 \<and> c \<noteq> 32 \<and> c \<noteq> 46"

definition name83 :: "u8 list \<Rightarrow> u8 list \<Rightarrow> bool" where
  "name83 base ext \<longleftrightarrow> length base \<le> 8 \<and> length ext \<le> 3 \<and> list_all name_char base \<and> list_all name_char ext"

definition name_of :: "u8 list \<Rightarrow> u8 list \<Rightarrow> u8 list" where
  "name_of base ext = base @ (if ext = [] then [] else 46 # ext)"

lemma fat_name_part:
  "list_all name_char xs \<Longrightarrow> length old = length xs \<Longrightarrow> length pre = i \<Longrightarrow> i + length xs \<le> 11 \<Longrightarrow>
   fat_name_loop (xs @ rest) i (pre @ old @ post) = fat_name_loop rest (i + length xs) (pre @ map to_upper xs @ post)"
proof (induction xs arbitrary: i pre old)
  case (Cons x xs)
  then obtain y ys where old: "old = y # ys" "length ys = length xs" by (cases old) auto
  have "fat_name_loop (xs @ rest) (Suc i) ((pre @ [to_upper x]) @ ys @ post) =
      fat_name_loop rest (Suc i + length xs) ((pre @ [to_upper x]) @ map to_upper xs @ post)"
    by (rule Cons.IH) (use Cons.prems old in auto)
  then show ?case using Cons.prems old by (auto simp: name_char_def list_update_append)
qed simp

lemma fat_name_bytes:
  assumes "name83 base ext"
  shows "to_fat_name (name_of base ext @ [0]) =
    Some (map to_upper base @ replicate (8 - length base) 32 @ map to_upper ext @ replicate (3 - length ext) 32 @ [0])"
proof -
  have l: "length base \<le> 8" "length ext \<le> 3" "list_all name_char base" "list_all name_char ext" using assms by (simp_all add: name83_def)
  let ?b = "map to_upper base @ replicate (8 - length base) (32 :: u8)"
  have b: "fat_name_loop (base @ rest) 0 (replicate 11 32) = fat_name_loop rest (length base) (?b @ replicate 3 32)" for rest
  proof -
    have "replicate 11 (32 :: u8) = [] @ replicate (length base) 32 @ (replicate (8 - length base) 32 @ replicate 3 32)"
      using l(1) by (simp flip: replicate_add)
    then show ?thesis
      using fat_name_part [OF l(3), of "replicate (length base) 32" "[]" 0 rest "replicate (8 - length base) 32 @ replicate 3 32"] l(1) by simp
  qed
  show ?thesis
  proof (cases "ext = []")
    case True
    then show ?thesis using b [of "[0]"] by (simp add: to_fat_name_def name_of_def)
  next
    case False
    have "replicate 3 (32 :: u8) = replicate (length ext) 32 @ replicate (3 - length ext) 32" using l(2) by (simp flip: replicate_add)
    then have "fat_name_loop (ext @ [0]) 8 (?b @ replicate 3 32) = Some (?b @ map to_upper ext @ replicate (3 - length ext) 32)"
      using fat_name_part [OF l(4), of "replicate (length ext) 32" ?b 8 "[0]" "replicate (3 - length ext) 32"] l(1,2) by simp
    moreover have "length base < 11" using l(1) by simp
    ultimately show ?thesis using False b [of "46 # ext @ [0]"] by (simp add: to_fat_name_def name_of_def)
  qed
qed

lemma takeWhile_upper: "list_all name_char xs \<Longrightarrow> takeWhile (\<lambda>c. c \<noteq> 32) (map to_upper xs @ replicate n 32) = map to_upper xs"
  by (induction xs) (auto simp: name_char_def)

text \<open>C26. A name in 8.3 form, turned into the 11 bytes of a directory entry and back into a string, is the name in upper
  case: a file is listed under the name by which a lookup finds it, whatever the case of the letters.\<close>

theorem fat_name_roundtrip:
  assumes "name83 base ext"
  shows "map_option to_string_name (to_fat_name (name_of base ext @ [0])) = Some (map to_upper (name_of base ext) @ [0])"
proof -
  have l: "length base \<le> 8" "length ext \<le> 3" "list_all name_char base" "list_all name_char ext" using assms by (simp_all add: name83_def)
  let ?d = "map to_upper base @ replicate (8 - length base) 32 @ map to_upper ext @ replicate (3 - length ext) 32 @ [0]"
  have "take 8 ?d = map to_upper base @ replicate (8 - length base) 32" using l(1) by simp
  moreover have d: "drop 8 ?d = map to_upper ext @ replicate (3 - length ext) 32 @ [0]" using l(1) by simp
  moreover have "?d ! 8 = (map to_upper ext @ replicate (3 - length ext) 32 @ [0]) ! 0" using l(1) by (simp add: nth_append)
  moreover have "take 3 (drop 8 ?d) = map to_upper ext @ replicate (3 - length ext) 32" unfolding d using l(2) by simp
  ultimately have "to_string_name ?d = map to_upper (name_of base ext) @ [0]"
    using takeWhile_upper [OF l(3)] takeWhile_upper [OF l(4)] l(4)
    unfolding to_string_name_def name_of_def by (cases ext) (simp_all add: name_char_def numeral_3_eq_3)
  then show ?thesis by (simp only: fat_name_bytes [OF assms] option.map)
qed

text \<open>\<open>a.b\<close>\<close>

theorem fat_name_roundtrip_witness: "map_option to_string_name (to_fat_name [97, 46, 98, 0]) = Some [65, 46, 66, 0]"
  using fat_name_roundtrip [of "[97]" "[98]"] by (simp add: name83_def name_char_def name_of_def to_upper_def)

end
