(* ===== verification/FatRead.thy ===== *)
theory FatRead
  imports Fat
begin

text \<open>
  Reading a file of a FAT volume: what arrives in memory are the bytes of the sectors along the file's
  chain of clusters. The disk is a function \<open>D\<close> from the byte offset of a sector to its 512 bytes.
\<close>

section \<open>The disk\<close>

text \<open>The driver of the volume's device answers a request for a sector with the bytes of the disk, and does nothing else.\<close>

definition reads_disk :: "'w dexchange \<Rightarrow> u16 \<Rightarrow> (u32 \<Rightarrow> u8 list) \<Rightarrow> bool" where
  "reads_disk dx d D \<longleftrightarrow> (\<forall>off. length (D off) = 512) \<and>
     (\<forall>off a k ds w. dx (uint (major d)) (DEV_READ (minor d) off a 512) (k, ds, w) = KOk (512, k\<lparr>ram := put_bytes (ram k) a (D off)\<rparr>, ds, w))"

lemma ask_disk:
  "reads_disk dx d D \<Longrightarrow> ask_driver dx d (DEV_READ (minor d) off a 512) s = KOk (512, s\<lparr>ram := put_bytes (ram s) a (D off)\<rparr>)"
  by (cases s) (simp add: ask_driver_def reads_disk_def kstate.defs)

lemma put_bytes_at: "i < length xs \<Longrightarrow> length xs < 2 ^ 32 \<Longrightarrow> put_bytes r b xs (b + of_nat i) = xs ! i"
  by (simp add: put_bytes_def unat_of_nat)

section \<open>The bytes of a file\<close>

text \<open>The entry of a cluster in the file allocation table; the sector of a file after \<open>i\<close> others.\<close>

definition next_cluster :: "(u32 \<Rightarrow> u8 list) \<Rightarrow> fat \<Rightarrow> u16 \<Rightarrow> u16" where
  "next_cluster D pf c =
     (let sec = D ((fat_FatStartSector pf + ucast c * 2 div 512) * 512); i = 2 * unat c mod 512
      in ucast (sec ! i) + push_bit 8 (ucast (sec ! (i + 1))))"

definition next_sector :: "(u32 \<Rightarrow> u8 list) \<Rightarrow> fat \<Rightarrow> u16 \<times> nat \<Rightarrow> u16 \<times> nat" where
  "next_sector D pf = (\<lambda>(c, k). if Suc k < unat (fat_SectorsPerCluster pf) then (c, Suc k) else (next_cluster D pf c, 0))"

fun sector_pos :: "(u32 \<Rightarrow> u8 list) \<Rightarrow> fat \<Rightarrow> u16 \<Rightarrow> nat \<Rightarrow> u16 \<times> nat" where
  "sector_pos D pf c0 0 = (c0, 0)"
| "sector_pos D pf c0 (Suc i) = next_sector D pf (sector_pos D pf c0 i)"

definition file_sector :: "(u32 \<Rightarrow> u8 list) \<Rightarrow> fat \<Rightarrow> u16 \<Rightarrow> nat \<Rightarrow> u32" where
  "file_sector D pf c0 i = (case sector_pos D pf c0 i of (c, k) \<Rightarrow> cluster_sector pf c + of_nat k)"

definition file_byte :: "(u32 \<Rightarrow> u8 list) \<Rightarrow> fat \<Rightarrow> u16 \<Rightarrow> nat \<Rightarrow> u8" where
  "file_byte D pf c0 j = D (file_sector D pf c0 (j div 512) * 512) ! (j mod 512)"

text \<open>The vnode \<open>v\<close> stands at byte \<open>q\<close> of its file; a valid buffer holds the sector it is said to hold.\<close>

definition file_at :: "(u32 \<Rightarrow> u8 list) \<Rightarrow> fat \<Rightarrow> (nat \<Rightarrow> u32) \<Rightarrow> nat \<Rightarrow> nat \<Rightarrow> u16 \<Rightarrow> nat \<Rightarrow> ('w, 'a) vstate_scheme \<Rightarrow> bool" where
  "file_at D pf fb m v c0 q s \<longleftrightarrow> vfs_fat (vfs_table s m) = pf \<and>
     (let n = v_fnode (vnodes s v) in
      sector_pos D pf c0 (q div 512) = (fn_CurrentCluster n, unat (fn_CurrentSectorInCluster n)) \<and>
      unat (fn_CurrentByteInSector n) = q mod 512 \<and> fn_CurrentByte n = of_nat q \<and>
      (fn_buf_sector n \<noteq> 0 \<longrightarrow> holds (ram s) (fb v) (D (fn_buf_sector n * 512))))"

definition geometry :: "fat \<Rightarrow> bool" where
  "geometry pf \<longleftrightarrow> fat_BytesPerSector pf = 512 \<and> fat_SectorsPerCluster pf \<noteq> 0"

lemma sector_pos_bound: "geometry pf \<Longrightarrow> snd (sector_pos D pf c0 i) < unat (fat_SectorsPerCluster pf)"
proof (induction i)
  case 0
  then show ?case by (simp add: geometry_def unat_gt_0)
next
  case (Suc i)
  have "0 < unat (fat_SectorsPerCluster pf)" using Suc.prems by (simp add: geometry_def unat_gt_0)
  then show ?case by (auto simp: next_sector_def split: prod.splits)
qed

section \<open>Steps\<close>

lemma upd_fnode_simps [simp]:
  "vfs_table (upd_fnode v f s) = vfs_table s" "ram (upd_fnode v f s) = ram s"
  "v_fnode (vnodes (upd_fnode v f s) v) = f (v_fnode (vnodes s v))" "vnodes (s\<lparr>ram := r\<rparr>) = vnodes s"
  by (simp_all add: upd_fnode_def upd_vnode_def)

lemma and_511: "unat ((x :: u32) AND 0x1ff) = unat x mod 512"
proof -
  have a: "x AND 0x1ff = take_bit 9 x" by (simp add: take_bit_eq_mask mask_eq_exp_minus_1)
  show ?thesis unfolding a unsigned_take_bit_eq by (simp add: take_bit_eq_mod)
qed

lemma next_cluster_disk:
  assumes "reads_disk dx (fat_dev pf) D"
  shows "fat_next_cluster dx fb pf v c s = KOk (next_cluster D pf c,
    upd_fnode v (\<lambda>n. n\<lparr>fn_buf_sector := 0\<rparr>) (s\<lparr>ram := put_bytes (ram s) (fb v) (D ((fat_FatStartSector pf + ucast c * 2 div 512) * 512))\<rparr>))"
proof -
  let ?xs = "D ((fat_FatStartSector pf + ucast c * 2 div 512) * 512)" and ?i = "2 * unat c mod 512"
  have l: "length ?xs = 512" using assms by (simp add: reads_disk_def)
  have "unat (ucast c * 2 :: u32) = 2 * unat c"
    using unsigned_less [of c, where 'a = nat] by (simp add: unat_word_ariths(2) unsigned_ucast_eq take_bit_nat_eq_self)
  then have u: "unat (ucast c * 2 AND 0x1ff :: u32) = ?i" unfolding and_511 by simp
  have "unat (of_nat ?i :: u32) = ?i" unfolding unat_of_nat by (rule mod_less) (simp add: less_trans [OF mod_less_divisor])
  with u have a: "ucast c * 2 AND 0x1ff = (of_nat ?i :: u32)" unfolding word_unat_eq_iff by (rule trans [OF _ sym])
  have "?i = 2 * (unat c mod 256)" using mod_mult_mult1 [of 2 "unat c" 256] by simp
  moreover have "unat c mod 256 < 256" by simp
  ultimately have lt: "?i + 1 < 512" by linarith
  have r0: "put_bytes (ram s) (fb v) ?xs (fb v + of_nat ?i) = ?xs ! ?i" by (rule put_bytes_at) (use lt l in simp_all)
  have "put_bytes (ram s) (fb v) ?xs (fb v + of_nat (?i + 1)) = ?xs ! (?i + 1)" by (rule put_bytes_at) (use lt l in simp_all)
  then have r1: "put_bytes (ram s) (fb v) ?xs (fb v + of_nat ?i + 1) = ?xs ! (?i + 1)" by (simp only: of_nat_add of_nat_1 add.assoc)
  have "read_u16_le (put_bytes (ram s) (fb v) ?xs) (fb v + (ucast c * 2 AND 0x1ff)) = next_cluster D pf c"
    unfolding read_u16_le_def a r0 r1 next_cluster_def Let_def ..
  then show ?thesis by (simp add: fat_next_cluster_def Let_def ask_disk [OF assms])
qed

lemma of_nat_unat8: "of_nat (unat (k :: u8)) = (ucast k :: u32)"
  by (simp add: word_unat_eq_iff unat_of_nat unsigned_ucast_eq take_bit_eq_mod)

lemma file_atD:
  assumes "file_at D pf fb m v c0 q s"
  shows "cluster_sector pf (fn_CurrentCluster (v_fnode (vnodes s v))) + ucast (fn_CurrentSectorInCluster (v_fnode (vnodes s v))) = file_sector D pf c0 (q div 512)"
    and "unat (fn_CurrentByteInSector (v_fnode (vnodes s v))) = q mod 512" and "vfs_fat (vfs_table s m) = pf"
  using assms by (simp_all add: file_at_def file_sector_def Let_def of_nat_unat8)

lemma fetch_disk:
  assumes "reads_disk dx (fat_dev pf) D" and "file_at D pf fb m v c0 q s" and "file_sector D pf c0 (q div 512) \<noteq> 0"
  shows "\<exists>s1. fat_fetch dx fb pf v s = KOk (True, s1) \<and> file_at D pf fb m v c0 q s1 \<and>
    holds (ram s1) (fb v) (D (file_sector D pf c0 (q div 512) * 512)) \<and> (\<forall>x. x \<notin> region (fb v) 512 \<longrightarrow> ram s1 x = ram s x)"
proof -
  let ?sec = "file_sector D pf c0 (q div 512)" and ?n = "v_fnode (vnodes s v)"
  have len: "length (D off) = 512" for off using assms(1) by (simp add: reads_disk_def)
  show ?thesis
  proof (cases "fn_buf_sector ?n = ?sec")
    case True
    then have "fat_fetch dx fb pf v s = KOk (True, s)" by (simp add: fat_fetch_def Let_def file_atD(1) [OF assms(2)])
    moreover have "holds (ram s) (fb v) (D (?sec * 512))" using assms(2,3) True by (simp add: file_at_def Let_def)
    ultimately show ?thesis using assms(2) by blast
  next
    case False
    let ?s0 = "upd_fnode v (\<lambda>n. n\<lparr>fn_buf_sector := 0\<rparr>) s"
    let ?s1 = "upd_fnode v (\<lambda>n. n\<lparr>fn_buf_sector := ?sec\<rparr>) (?s0\<lparr>ram := put_bytes (ram ?s0) (fb v) (D (?sec * 512))\<rparr>)"
    have "fat_fetch dx fb pf v s = KOk (True, ?s1)" using False
      by (simp add: fat_fetch_def Let_def file_atD(1) [OF assms(2)] fat_load_cached_def fat_load_def ask_disk [OF assms(1)])
    moreover have h: "holds (ram ?s1) (fb v) (D (?sec * 512))" by (simp add: put_holds len)
    moreover have "file_at D pf fb m v c0 q ?s1" using assms(2) h by (simp add: file_at_def Let_def)
    moreover have "ram ?s1 x = ram s x" if "x \<notin> region (fb v) 512" for x using that by (simp add: put_outside len)
    ultimately show ?thesis by blast
  qed
qed

lemma unat_plus16: "unat (a :: u16) + k < 65536 \<Longrightarrow> unat (a + ucast (of_nat k :: u32)) = unat a + k"
  by (simp add: unat_word_ariths(1) unsigned_ucast_eq unat_of_nat take_bit_eq_mod mod_mod_cancel)

lemma pos_inside: "(q :: nat) mod 512 + k < 512 \<Longrightarrow> (q + k) div 512 = q div 512" "q mod 512 + k < 512 \<Longrightarrow> (q + k) mod 512 = q mod 512 + k"
proof -
  assume lt: "q mod 512 + k < 512"
  have e: "q + k = (q mod 512 + k) + (q div 512) * 512" by simp
  have "((q mod 512 + k) + (q div 512) * 512) div 512 = q div 512 + (q mod 512 + k) div 512" by (rule div_mult_self1) simp
  then show "(q + k) div 512 = q div 512" using lt unfolding e [symmetric] by (simp only: div_less add_0_right)
  have "((q mod 512 + k) + (q div 512) * 512) mod 512 = (q mod 512 + k) mod 512" by (rule mod_mult_self1)
  then show "(q + k) mod 512 = q mod 512 + k" using lt unfolding e [symmetric] by (simp only: mod_less)
qed

lemma pos_next: "(q :: nat) mod 512 + k = 512 \<Longrightarrow> (q + k) div 512 = Suc (q div 512)" "q mod 512 + k = 512 \<Longrightarrow> (q + k) mod 512 = 0"
proof -
  assume "q mod 512 + k = 512"
  then have e: "q + k = Suc (q div 512) * 512" using mult_div_mod_eq [of 512 q] unfolding mult_Suc mult.commute [of "q div 512"] by linarith
  show "(q + k) div 512 = Suc (q div 512)" "(q + k) mod 512 = 0" unfolding e by simp_all
qed

lemma advance_disk:
  assumes "reads_disk dx (fat_dev pf) D" and "geometry pf" and "file_at D pf fb m v c0 q s"
    and "0 < k" and "q mod 512 + k \<le> 512"
  shows "\<exists>s1. fat_advance dx fb pf v (of_nat k) s = KOk s1 \<and> file_at D pf fb m v c0 (q + k) s1 \<and>
    (\<forall>x. x \<notin> region (fb v) 512 \<longrightarrow> ram s1 x = ram s x)"
proof -
  let ?n = "v_fnode (vnodes s v)"
  let ?s1 = "upd_fnode v (\<lambda>n. n\<lparr>fn_CurrentByte := fn_CurrentByte n + of_nat k, fn_CurrentByteInSector := fn_CurrentByteInSector n + ucast (of_nat k :: u32)\<rparr>) s"
  have len: "length (D off) = 512" for off using assms(1) by (simp add: reads_disk_def)
  have b: "unat (fn_CurrentByteInSector ?n) = q mod 512" by (rule file_atD(2) [OF assms(3)])
  have pos: "sector_pos D pf c0 (q div 512) = (fn_CurrentCluster ?n, unat (fn_CurrentSectorInCluster ?n))" and cb: "fn_CurrentByte ?n = of_nat q"
    and pf: "vfs_fat (vfs_table s m) = pf" using assms(3) by (simp_all add: file_at_def Let_def)
  have u: "unat (fn_CurrentByteInSector ?n + ucast (of_nat k :: u32)) = q mod 512 + k"
    using unat_plus16 [of "fn_CurrentByteInSector ?n" k] b assms(5) by simp
  have ge: "fn_CurrentByteInSector ?n + ucast (of_nat k :: u32) \<ge> fat_BytesPerSector pf \<longleftrightarrow> q mod 512 + k = 512"
    using assms(2,5) u by (auto simp: geometry_def word_le_nat_alt)
  show ?thesis
  proof (cases "q mod 512 + k = 512")
    case False
    then have lt: "q mod 512 + k < 512" using assms(5) by simp
    note dm = pos_inside [OF lt]
    have "fat_advance dx fb pf v (of_nat k) s = KOk ?s1" using ge False by (simp add: fat_advance_def Let_def)
    moreover have "file_at D pf fb m v c0 (q + k) ?s1" using assms(3) dm u by (simp add: file_at_def Let_def)
    ultimately show ?thesis by auto
  next
    case True
    note dm = pos_next [OF True]
    let ?s2 = "upd_fnode v (\<lambda>n. n\<lparr>fn_CurrentByteInSector := 0, fn_buf_sector := 0, fn_CurrentSectorInCluster := fn_CurrentSectorInCluster n + 1\<rparr>) ?s1"
    have k: "unat (fn_CurrentSectorInCluster ?n) < unat (fat_SectorsPerCluster pf)"
      using sector_pos_bound [OF assms(2), of D c0 "q div 512"] pos by simp
    have uk: "unat (fn_CurrentSectorInCluster ?n + 1) = Suc (unat (fn_CurrentSectorInCluster ?n))"
      using k unsigned_less [of "fat_SectorsPerCluster pf", where 'a = nat] by (simp add: unat_word_ariths(1))
    have adv: "fat_advance dx fb pf v (of_nat k) s =
      (if fn_CurrentSectorInCluster ?n + 1 \<ge> fat_SectorsPerCluster pf then
         kbind (fat_next_cluster dx fb pf v (fn_CurrentCluster ?n) (upd_fnode v (\<lambda>n. n\<lparr>fn_CurrentSectorInCluster := 0\<rparr>) ?s2)) (\<lambda>(c, s4).
         KOk (upd_fnode v (\<lambda>n. n\<lparr>fn_CurrentCluster := c\<rparr>) s4))
       else KOk ?s2)"
      using ge True by (simp add: fat_advance_def Let_def)
    show ?thesis
    proof (cases "fn_CurrentSectorInCluster ?n + 1 \<ge> fat_SectorsPerCluster pf")
      case False
      then have "Suc (unat (fn_CurrentSectorInCluster ?n)) < unat (fat_SectorsPerCluster pf)" using uk by (simp add: word_le_nat_alt)
      then have "sector_pos D pf c0 ((q + k) div 512) = (fn_CurrentCluster ?n, unat (fn_CurrentSectorInCluster ?n + 1))"
        using pos uk by (simp add: dm next_sector_def)
      then have "file_at D pf fb m v c0 (q + k) ?s2" using pf cb by (simp add: file_at_def Let_def dm)
      with adv False show ?thesis by auto
    next
      case last: True
      then have "\<not> Suc (unat (fn_CurrentSectorInCluster ?n)) < unat (fat_SectorsPerCluster pf)" using uk by (simp add: word_le_nat_alt)
      then have sp: "sector_pos D pf c0 ((q + k) div 512) = (next_cluster D pf (fn_CurrentCluster ?n), 0)"
        using pos by (simp add: dm next_sector_def)
      let ?xs = "D ((fat_FatStartSector pf + ucast (fn_CurrentCluster ?n) * 2 div 512) * 512)"
      let ?s3 = "upd_fnode v (\<lambda>n. n\<lparr>fn_CurrentSectorInCluster := 0\<rparr>) ?s2"
      let ?s4 = "upd_fnode v (\<lambda>n. n\<lparr>fn_CurrentCluster := next_cluster D pf (fn_CurrentCluster ?n)\<rparr>)
        (upd_fnode v (\<lambda>n. n\<lparr>fn_buf_sector := 0\<rparr>) (?s3\<lparr>ram := put_bytes (ram ?s3) (fb v) ?xs\<rparr>))"
      have "fat_advance dx fb pf v (of_nat k) s = KOk ?s4" using adv last by (simp add: next_cluster_disk [OF assms(1)])
      moreover have "file_at D pf fb m v c0 (q + k) ?s4" using sp pf cb by (simp add: file_at_def Let_def dm)
      moreover have "ram ?s4 x = ram s x" if "x \<notin> region (fb v) 512" for x using that by (simp add: put_outside len)
      ultimately show ?thesis by blast
    qed
  qed
qed

section \<open>The loop\<close>

lemma file_at_ram:
  assumes "file_at D pf fb m v c0 q s" and "\<And>x. x \<in> region (fb v) 512 \<Longrightarrow> r x = ram s x" and "\<And>off. length (D off) = 512"
  shows "file_at D pf fb m v c0 q (s\<lparr>ram := r\<rparr>)"
proof -
  have "holds r (fb v) (D off)" if "holds (ram s) (fb v) (D off)" for off
    by (rule holds_same [OF that]) (simp add: assms(2,3))
  with assms(1) show ?thesis by (simp add: file_at_def Let_def)
qed

lemma chunk_bytes:
  assumes "geometry pf" and "unat (fn_CurrentByteInSector n) = q mod 512" and "cnt < 2 ^ 31"
  shows "fat_chunk pf n (of_nat cnt) = of_nat (min cnt (512 - q mod 512))"
proof -
  have "q mod 512 < 512" by simp
  then have r: "unat (ucast (fat_BytesPerSector pf) - ucast (fn_CurrentByteInSector n) :: u32) = 512 - q mod 512"
    using assms(1,2) by (subst unat_sub) (simp_all add: geometry_def word_le_nat_alt unsigned_ucast_eq take_bit_eq_mod)
  have c: "unat (of_nat cnt :: u32) = cnt" using assms(3) by (simp add: unat_of_nat)
  have rr: "(ucast (fat_BytesPerSector pf) - ucast (fn_CurrentByteInSector n) :: u32) = of_nat (512 - q mod 512)"
    unfolding r [symmetric] by simp
  show ?thesis
  proof (cases "cnt \<le> 512 - q mod 512")
    case True
    then have "(of_nat cnt :: u32) \<le> ucast (fat_BytesPerSector pf) - ucast (fn_CurrentByteInSector n)" unfolding word_le_nat_alt r c .
    with True show ?thesis by (simp add: fat_chunk_def min_def)
  next
    case False
    then have "\<not> (of_nat cnt :: u32) \<le> ucast (fat_BytesPerSector pf) - ucast (fn_CurrentByteInSector n)" unfolding word_le_nat_alt r c .
    with False show ?thesis unfolding fat_chunk_def Let_def rr by (simp add: min_def)
  qed
qed

lemma read_loop_disk:
  assumes "reads_disk dx (fat_dev pf) D" and "geometry pf"
  shows "file_at D pf fb m v c0 q s \<Longrightarrow> n < 2 ^ 31 \<Longrightarrow> region dst n \<inter> region (fb v) 512 = {} \<Longrightarrow>
    \<forall>i. i * 512 < q + n \<longrightarrow> file_sector D pf c0 i \<noteq> 0 \<Longrightarrow>
    \<exists>s'. fat_read_loop dx fb m v dst (of_nat n) did s = Some (KOk (uint (did + of_nat n), s')) \<and> file_at D pf fb m v c0 (q + n) s' \<and>
      (\<forall>j < n. ram s' (dst + of_nat j) = file_byte D pf c0 (q + j)) \<and>
      (\<forall>x. x \<notin> region dst n \<longrightarrow> x \<notin> region (fb v) 512 \<longrightarrow> ram s' x = ram s x)"
proof (induction n arbitrary: q s dst did rule: less_induct)
  case (less n)
  have len: "length (D off) = 512" for off using assms(1) by (simp add: reads_disk_def)
  show ?case
  proof (cases "n = 0")
    case True
    with less.prems(1) show ?thesis by (simp add: fat_read_loop.simps)
  next
    case False
    have nz: "(of_nat n :: u32) \<noteq> 0" using False less.prems(2) by (simp add: word_unat_eq_iff unat_of_nat)
    have "q div 512 * 512 < q + n" using div_mult_mod_eq [of q 512] False by linarith
    then have sec: "file_sector D pf c0 (q div 512) \<noteq> 0" using less.prems(4) by blast
    from fetch_disk [OF assms(1) less.prems(1) sec] obtain s1 where s1: "fat_fetch dx fb pf v s = KOk (True, s1)" "file_at D pf fb m v c0 q s1"
      "holds (ram s1) (fb v) (D (file_sector D pf c0 (q div 512) * 512))" "\<And>x. x \<notin> region (fb v) 512 \<Longrightarrow> ram s1 x = ram s x" by blast
    let ?n1 = "v_fnode (vnodes s1 v)" and ?k = "min n (512 - q mod 512)"
    have b: "unat (fn_CurrentByteInSector ?n1) = q mod 512" and pf1: "vfs_fat (vfs_table s1 m) = pf" using file_atD [OF s1(2)] by simp_all
    have pf0: "vfs_fat (vfs_table s m) = pf" using file_atD(3) [OF less.prems(1)] .
    have ch: "fat_chunk pf ?n1 (of_nat n) = of_nat ?k" by (rule chunk_bytes [OF assms(2) b less.prems(2)])
    have q5: "q mod 512 < 512" by simp
    have k: "0 < ?k" "?k \<le> n" "q mod 512 + ?k \<le> 512" using False q5 by auto
    have src: "ucast (fn_CurrentByteInSector ?n1) = (of_nat (q mod 512) :: u32)"
      using b by (simp add: word_unat_eq_iff unat_of_nat unsigned_ucast_eq take_bit_eq_mod)
    have uk: "unat (of_nat ?k :: u32) = ?k" using k(2) less.prems(2) by (simp add: unat_of_nat)
    define r1 where "r1 = memcpy (ram s1) dst (fb v + of_nat (q mod 512)) ?k"
    have rsub: "region dst ?k \<subseteq> region dst n" using region_sub [of ?k 0 n dst] k(2) by simp
    have bsub: "region (fb v + of_nat (q mod 512)) ?k \<subseteq> region (fb v) 512" by (rule region_sub) (use k(3) in simp)
    have out1: "r1 x = ram s1 x" if "x \<notin> region dst n" for x
      unfolding r1_def by (rule memcpy_outside) (use that rsub in blast)
    have in1: "r1 (dst + of_nat j) = file_byte D pf c0 (q + j)" if "j < ?k" for j
    proof -
      have lt: "q mod 512 + j < 512" using that k(3) by linarith
      have "r1 (dst + of_nat j) = ram s1 (fb v + of_nat (q mod 512) + of_nat j)" unfolding r1_def
        by (rule memcpy_disjoint) (use rsub bsub less.prems(2,3) that k(2) in auto)
      also have "\<dots> = D (file_sector D pf c0 (q div 512) * 512) ! (q mod 512 + j)"
        using holdsD [OF s1(3), of "q mod 512 + j"] lt len by (simp add: add.assoc)
      finally show ?thesis by (simp only: file_byte_def pos_inside [OF lt])
    qed
    have "file_at D pf fb m v c0 q (s1\<lparr>ram := r1\<rparr>)" by (rule file_at_ram [OF s1(2) _ len]) (use out1 less.prems(3) in blast)
    from advance_disk [OF assms this k(1,3)] obtain s2 where s2: "fat_advance dx fb pf v (of_nat ?k) (s1\<lparr>ram := r1\<rparr>) = KOk s2"
      "file_at D pf fb m v c0 (q + ?k) s2" "\<And>x. x \<notin> region (fb v) 512 \<Longrightarrow> ram s2 x = r1 x" by auto
    have dsub: "region (dst + of_nat ?k) (n - ?k) \<subseteq> region dst n" by (rule region_sub) (use k(2) in simp)
    have IH: "\<exists>s'. fat_read_loop dx fb m v (dst + of_nat ?k) (of_nat (n - ?k)) (did + of_nat ?k) s2 = Some (KOk (uint (did + of_nat ?k + of_nat (n - ?k)), s')) \<and>
      file_at D pf fb m v c0 (q + ?k + (n - ?k)) s' \<and>
      (\<forall>j < n - ?k. ram s' (dst + of_nat ?k + of_nat j) = file_byte D pf c0 (q + ?k + j)) \<and>
      (\<forall>x. x \<notin> region (dst + of_nat ?k) (n - ?k) \<longrightarrow> x \<notin> region (fb v) 512 \<longrightarrow> ram s' x = ram s2 x)"
      by (rule less.IH [OF _ s2(2)]) (use k less.prems(2-4) dsub in auto)
    then obtain s' where s': "fat_read_loop dx fb m v (dst + of_nat ?k) (of_nat (n - ?k)) (did + of_nat ?k) s2 = Some (KOk (uint (did + of_nat ?k + of_nat (n - ?k)), s'))"
      "file_at D pf fb m v c0 (q + ?k + (n - ?k)) s'" "\<And>j. j < n - ?k \<Longrightarrow> ram s' (dst + of_nat ?k + of_nat j) = file_byte D pf c0 (q + ?k + j)"
      "\<And>x. x \<notin> region (dst + of_nat ?k) (n - ?k) \<Longrightarrow> x \<notin> region (fb v) 512 \<Longrightarrow> ram s' x = ram s2 x" by blast
    have nk: "(of_nat (n - ?k) :: u32) = of_nat n - of_nat ?k" using k(2) by (rule of_nat_diff)
    have "fat_read_loop dx fb m v dst (of_nat n) did s = fat_read_loop dx fb m v (dst + of_nat ?k) (of_nat n - of_nat ?k) (did + of_nat ?k) s2"
      using nz s1(1) s2(1) unfolding r1_def
      by (subst fat_read_loop.simps) (simp add: pf0 pf1 ch uk src bindk_def)
    also have "\<dots> = Some (KOk (uint (did + of_nat n), s'))" using s'(1) unfolding nk by (simp add: add.assoc)
    finally have run: "fat_read_loop dx fb m v dst (of_nat n) did s = Some (KOk (uint (did + of_nat n), s'))" .
    have data: "ram s' (dst + of_nat j) = file_byte D pf c0 (q + j)" if "j < n" for j
    proof (cases "j < ?k")
      case True
      have "dst + of_nat j \<in> region dst ?k" using True by (rule region_offset)
      then have "dst + of_nat j \<notin> region (dst + of_nat ?k) (n - ?k)" "dst + of_nat j \<notin> region (fb v) 512"
        using region_tail [of ?k "n - ?k" dst] rsub k(2) less.prems(2,3) by auto
      with s'(4) s2(3) in1 [OF True] show ?thesis by simp
    next
      case False
      then obtain i where i: "j = ?k + i" using le_Suc_ex by (metis not_less)
      then have "i < n - ?k" using that by simp
      from s'(3) [OF this] show ?thesis unfolding i by (simp add: add.assoc)
    qed
    have frame: "ram s' x = ram s x" if "x \<notin> region dst n" "x \<notin> region (fb v) 512" for x
    proof -
      have "x \<notin> region (dst + of_nat ?k) (n - ?k)" using that(1) dsub by blast
      then show ?thesis using s'(4) s2(3) out1 s1(4) that by simp
    qed
    have "file_at D pf fb m v c0 (q + n) s'" using s'(2) k(2) by simp
    with run data frame show ?thesis by blast
  qed
qed

section \<open>Reading a file\<close>

text \<open>C24. A read from a file of a FAT volume always returns: it delivers the bytes of the file from the current position on, as
  many as asked for or as the file has left, follows the chain of clusters across sectors and clusters, and
  leaves the position behind the last byte delivered. The disk driver is assumed to answer with the
  sector asked for; the sectors of the file are not sector 0, which stands for an invalid buffer, and
  the memory of the caller is apart from the buffer of the vnode.\<close>

theorem fat_read_returns_file:
  assumes "reads_disk dx (fat_dev pf) D" and "geometry pf" and "file_at D pf fb m v c0 q s" and "v_vfsp (vnodes s v) = Some m"
    and "fn_Attributes (v_fnode (vnodes s v)) AND FAT_DIRENT_ATTR_DIRECTORY_MASK = 0"
    and "q \<le> unat (fn_FileSize (v_fnode (vnodes s v)))" and "unat cnt < 2 ^ 31" and "q + unat cnt < 2 ^ 32"
    and "n = min (unat cnt) (unat (fn_FileSize (v_fnode (vnodes s v))) - q)" and "region buf n \<inter> region (fb v) 512 = {}"
    and "\<forall>i. i * 512 < q + n \<longrightarrow> file_sector D pf c0 i \<noteq> 0"
  shows "\<exists>s'. fnode_read dx fb v buf cnt p s = KOk (int n, s') \<and> (\<forall>j < n. ram s' (buf + of_nat j) = file_byte D pf c0 (q + j)) \<and>
    file_at D pf fb m v c0 (q + n) s'"
proof -
  let ?f = "v_fnode (vnodes s v)"
  have q: "fn_CurrentByte ?f = of_nat q" using assms(3) by (simp add: file_at_def Let_def)
  have uq: "unat (of_nat q :: u32) = q" using assms(8) by (simp add: unat_of_nat)
  have sum: "unat (of_nat q + cnt) = q + unat cnt" using assms(8) uq by (simp add: unat_word_ariths(1))
  have n31: "n < 2 ^ 31" using assms(7,9) by simp
  have "fat_count ?f cnt = of_nat n"
  proof (cases "fn_FileSize ?f \<le> of_nat q + cnt")
    case True
    then have "unat (fn_FileSize ?f) \<le> q + unat cnt" using sum by (simp add: word_le_nat_alt)
    then have n: "n = unat (fn_FileSize ?f) - q" using assms(9) by simp
    have u: "unat (fn_FileSize ?f - of_nat q) = n" using assms(6) uq n by (subst unat_sub) (simp_all add: word_le_nat_alt)
    have "fn_FileSize ?f - of_nat q = of_nat n" unfolding u [symmetric] by simp
    with True assms(5) show ?thesis by (simp add: fat_count_def q)
  next
    case False
    then have "q + unat cnt < unat (fn_FileSize ?f)" using sum by (simp add: word_le_nat_alt)
    then have "n = unat cnt" using assms(9) by simp
    with False show ?thesis by (simp add: fat_count_def q)
  qed
  moreover obtain s' where "fat_read_loop dx fb m v buf (of_nat n) 0 s = Some (KOk (uint (0 + of_nat n :: u32), s'))" "file_at D pf fb m v c0 (q + n) s'"
    "\<forall>j < n. ram s' (buf + of_nat j) = file_byte D pf c0 (q + j)"
    using read_loop_disk [OF assms(1-3) n31 assms(10,11), of 0] by blast
  moreover have "uint (of_nat n :: u32) = int n" using n31 by (simp add: unsigned_of_nat take_bit_nat_eq_self take_bit_eq_mod)
  ultimately show ?thesis using assms(4) by (auto simp: fnode_read_def with_vfs_def looped_def)
qed

text \<open>A volume with a file of 520 bytes in the clusters 2 and 5, one sector each, read from byte 510 on.\<close>

definition demo_fat :: fat where
  "demo_fat = \<lparr>fat_dev = 0x101, fat_BytesPerSector = 512, fat_SectorsPerCluster = 1, fat_FatCopyNumber = 1, fat_FatStartSector = 1,
     fat_RootStartSector = 2, fat_DataStartSector = 3, fat_MaxRootEntries = 16, fat_FirstSector = 0, fat_NbSector = 100, fat_pvn = Some 0\<rparr>"

text \<open>The table has 5 as the entry of cluster 2; the other sectors are filled with their number.\<close>

definition demo_disk :: "u32 \<Rightarrow> u8 list" where
  "demo_disk off = (if off = 512 then [0, 0, 0, 0, 5, 0] @ replicate 506 0 else replicate 512 (ucast (off div 512)))"

definition demo_driver :: "unit dexchange" where
  "demo_driver p req = (\<lambda>(k, ds, w). case req of
     DEV_READ mi off a n \<Rightarrow> KOk (512, k\<lparr>ram := put_bytes (ram k) a (demo_disk off)\<rparr>, ds, w) | _ \<Rightarrow> KFault)"

definition fat_demo :: "unit vstate" where
  "fat_demo = (undefined :: unit vstate)\<lparr>vfs_table := (\<lambda>_. undefined\<lparr>vfs_fat := demo_fat\<rparr>),
     vnodes := (\<lambda>_. zero_vnode\<lparr>v_vfsp := Some 0, v_fnode := (new_fnode 3)\<lparr>fn_FirstCluster := 2, fn_CurrentCluster := 2, fn_FileSize := 520,
       fn_CurrentByte := 510, fn_CurrentByteInSector := 510\<rparr>\<rparr>)\<rparr>"

lemma demo_next: "next_cluster demo_disk demo_fat 2 = 5"
  by (simp add: next_cluster_def demo_disk_def demo_fat_def Let_def)

lemma demo_file: "file_sector demo_disk demo_fat 2 0 = 3" "file_sector demo_disk demo_fat 2 1 = 6"
  by (simp_all add: file_sector_def next_sector_def demo_next cluster_sector_def) (simp_all add: demo_fat_def)

theorem fat_read_returns_file_witness:
  "\<exists>s'. fnode_read demo_driver (\<lambda>_. 0x4000) 7 0x1000 64 4 fat_demo = KOk (10, s') \<and> ram s' 0x1001 = 3 \<and> ram s' 0x1002 = 6"
proof -
  have d: "reads_disk demo_driver (fat_dev demo_fat) demo_disk"
    by (simp add: reads_disk_def demo_driver_def) (simp add: demo_disk_def)
  have g: "geometry demo_fat" by (simp add: geometry_def demo_fat_def)
  have f: "file_at demo_disk demo_fat (\<lambda>_. 0x4000) 0 7 2 510 fat_demo" by (simp add: file_at_def fat_demo_def new_fnode_def)
  have nz: "file_sector demo_disk demo_fat 2 i \<noteq> 0" if "i * 512 < 520" for i
  proof -
    have "i = 0 \<or> i = 1" using that by auto
    then show ?thesis using demo_file by auto
  qed
  have r: "region 0x1000 10 \<inter> region 0x4000 512 = {}" by (rule regions_apart) simp_all
  obtain s' where s': "fnode_read demo_driver (\<lambda>_. 0x4000) 7 0x1000 64 4 fat_demo = KOk (10, s')"
    "\<forall>j < 10. ram s' (0x1000 + of_nat j) = file_byte demo_disk demo_fat 2 (510 + j)"
    using fat_read_returns_file [OF d g f, where cnt = "64" and n = "10" and buf = "0x1000" and p = "4"] r nz
    by (auto simp: fat_demo_def new_fnode_def)
  have "ram s' 0x1001 = file_byte demo_disk demo_fat 2 511" "ram s' 0x1002 = file_byte demo_disk demo_fat 2 512"
    using s'(2) [rule_format, of 1] s'(2) [rule_format, of 2] by simp_all
  moreover have "file_byte demo_disk demo_fat 2 511 = 3" "file_byte demo_disk demo_fat 2 512 = 6"
    using demo_file by (simp_all add: file_byte_def demo_disk_def)
  ultimately show ?thesis using s'(1) by auto
qed

end
