(* ===== verification/Libc.thy ===== *)
theory Libc
  imports Errno MemBytes Proc
begin

text \<open>
  The user library, software/system/lib/libc: the static data of a process that uses it, the system calls of
  unistd.c, wait.c, signal.c, getdents.c and ioctl.c, and the memory allocator of stdlib.c. The memory is the
  address space of the process. The trap into the kernel is a parameter: it takes the message and the destination
  and gives the value of the trap, the 32-bit body of the message afterwards, and the state.
\<close>

unbundle bit_operations_syntax

section \<open>State and system calls\<close>

record ustate =
  umem :: ram
  ck_list :: u32
  libc_brk :: u32
  errno :: u32
  environ :: u32
  xorshift32_state :: u32

text \<open>\<open>message_t\<close> as the library fills it in.\<close>

datatype umsg =
    M_OPEN u32 u32 u32
  | M_CLOSE u32
  | M_READ u32 u32 u32
  | M_WRITE u32 u32 u32
  | M_FORK
  | M_EXEC u32 u32
  | M_CHDIR u32 u32
  | M_MOUNT u32 u32 u32
  | M_BRK u32
  | M_WAIT
  | M_KILL u32 u32
  | M_GETDENTS u32 u32 u32
  | M_IOCTL u32 u32 u32
  | M_EXIT u32

type_synonym 's utrap = "umsg \<Rightarrow> u32 \<Rightarrow> 's \<Rightarrow> ((u32 \<times> u32) \<times> 's) kres"

text \<open>The common end of the calls: -1 when the kernel was not reached, and \<open>errno\<close> from a negative answer.\<close>

definition syscall :: "('a ustate_scheme) utrap \<Rightarrow> umsg \<Rightarrow> u32 \<Rightarrow> (u32 \<Rightarrow> u32) \<Rightarrow> 'a ustate_scheme \<Rightarrow> (u32 \<times> 'a ustate_scheme) kres" where
  "syscall trap m dst res s =
     kbind (trap m dst s) (\<lambda>((rval, body), s1).
     if rval \<noteq> dst then KOk (- 1, s1)
     else if sint body < 0 then KOk (- 1, s1\<lparr>errno := - body\<rparr>)
     else KOk (res body, s1))"

definition libc_open where
  "libc_open trap pathname flags s =
     (case ram_strlen (umem s) pathname 0 of None \<Rightarrow> KHang
      | Some n \<Rightarrow> syscall trap (M_OPEN pathname n flags) 3 (\<lambda>r. r) s)"

definition libc_close :: "('a ustate_scheme) utrap \<Rightarrow> u32 \<Rightarrow> 'a ustate_scheme \<Rightarrow> (u32 \<times> 'a ustate_scheme) kres" where
  "libc_close trap fd s =
     kbind (trap (M_CLOSE fd) 3 s) (\<lambda>((rval, body), s1).
     if rval \<noteq> 3 then KOk (- 1, s1)
     else if body \<noteq> 0 then KOk (- 1, s1\<lparr>errno := - body\<rparr>)
     else KOk (0, s1))"

definition libc_read where "libc_read trap fd buf cnt s = syscall trap (M_READ fd buf cnt) 3 (\<lambda>r. r) s"
definition libc_write where "libc_write trap fd buf cnt s = syscall trap (M_WRITE fd buf cnt) 3 (\<lambda>r. r) s"
definition libc_fork where "libc_fork trap s = syscall trap M_FORK 0 (\<lambda>r. r) s"

definition libc_execve :: "('a ustate_scheme) utrap \<Rightarrow> u32 \<Rightarrow> u32 \<Rightarrow> 'a ustate_scheme \<Rightarrow> (u32 \<times> 'a ustate_scheme) kres" where
  "libc_execve trap argv envp s =
     kbind (trap (M_EXEC argv envp) 0 s) (\<lambda>((rval, body), s1).
     if rval \<noteq> 0 then KOk (- 1, s1) else KOk (- 1, s1\<lparr>errno := - body\<rparr>))"

definition libc_chdir where
  "libc_chdir trap path s =
     (case ram_strlen (umem s) path 0 of None \<Rightarrow> KHang
      | Some n \<Rightarrow> syscall trap (M_CHDIR path (n + 1)) 3 (\<lambda>r. 0) s)"

definition libc_mount where
  "libc_mount trap source target fstype s = syscall trap (M_MOUNT source target fstype) 3 (\<lambda>r. 0) s"

text \<open>\<open>wait\<close>, \<open>kill\<close>, \<open>getdents\<close> and \<open>ioctl\<close> hand the answer on as it is.\<close>

definition syscall_raw :: "('a ustate_scheme) utrap \<Rightarrow> umsg \<Rightarrow> u32 \<Rightarrow> 'a ustate_scheme \<Rightarrow> (u32 \<times> 'a ustate_scheme) kres" where
  "syscall_raw trap m dst s =
     kbind (trap m dst s) (\<lambda>((rval, body), s1). if rval \<noteq> dst then KOk (- 1, s1) else KOk (body, s1))"

definition libc_wait where "libc_wait trap s = syscall_raw trap M_WAIT 0 s"
definition libc_kill where "libc_kill trap p sig s = syscall_raw trap (M_KILL p sig) 0 s"
definition libc_getdents where "libc_getdents trap fd dirp cnt s = syscall_raw trap (M_GETDENTS fd dirp cnt) 3 s"
definition libc_ioctl where "libc_ioctl trap fd req ptr s = syscall_raw trap (M_IOCTL fd req ptr) 3 s"

text \<open>\<open>exit\<close>: the call should not return, and the loop behind it never does.\<close>

definition libc_exit :: "('a ustate_scheme) utrap \<Rightarrow> u32 \<Rightarrow> 'a ustate_scheme \<Rightarrow> (unit \<times> 'a ustate_scheme) kres" where
  "libc_exit trap status s = kbind (trap (M_EXIT status) 0 s) (\<lambda>_. KHang)"

definition libc_brk_call :: "('a ustate_scheme) utrap \<Rightarrow> u32 \<Rightarrow> 'a ustate_scheme \<Rightarrow> (u32 \<times> 'a ustate_scheme) kres" where
  "libc_brk_call trap addr s =
     kbind (trap (M_BRK addr) 0 s) (\<lambda>((rval, body), s1).
     if rval \<noteq> 0 then KOk (- 1, s1)
     else if body \<noteq> 0 then KOk (- 1, s1\<lparr>errno := - body\<rparr>)
     else KOk (0, s1\<lparr>libc_brk := addr\<rparr>))"

definition sbrk :: "('a ustate_scheme) utrap \<Rightarrow> u32 \<Rightarrow> 'a ustate_scheme \<Rightarrow> (u32 \<times> 'a ustate_scheme) kres" where
  "sbrk trap increment s =
     (let old_brk = libc_brk s in
      if increment \<noteq> 0 then
        kbind (libc_brk_call trap (old_brk + increment) s) (\<lambda>(r, s1). KOk (if r \<noteq> 0 then - 1 else old_brk, s1))
      else KOk (old_brk, s))"

section \<open>Numbers\<close>

definition xorshift32 :: "u32 \<Rightarrow> u32" where
  "xorshift32 x0 =
     (let x1 = x0 XOR push_bit 13 x0; x2 = x1 XOR drop_bit 17 x1 in x2 XOR push_bit 5 x2)"

definition srand :: "u32 \<Rightarrow> 'a ustate_scheme \<Rightarrow> 'a ustate_scheme" where
  "srand seed s = s\<lparr>xorshift32_state := seed\<rparr>"

definition rand :: "'a ustate_scheme \<Rightarrow> u32 \<times> 'a ustate_scheme" where
  "rand s = (let x = xorshift32 (xorshift32_state s) in (x, s\<lparr>xorshift32_state := x\<rparr>))"

definition libc_abs :: "u32 \<Rightarrow> u32" where
  "libc_abs j = (if sint j < 0 then - j else j)"

section \<open>The allocator\<close>

text \<open>
  A chunk is a header, \<open>mem_chunk_head_t\<close> (the length of the data with a flag in bit 0, and the next header), with the data behind it.
\<close>

definition HEAD_SIZE :: u32 where "HEAD_SIZE = 8"
definition BRK_INCREMENT_MIN :: u32 where "BRK_INCREMENT_MIN = 4096"
definition CK_ALLOCATED :: u32 where "CK_ALLOCATED = 1"

definition ck_len :: "ram \<Rightarrow> u32 \<Rightarrow> u32" where "ck_len r a = load32 r a"
definition ck_next :: "ram \<Rightarrow> u32 \<Rightarrow> u32" where "ck_next r a = load32 r (a + 4)"
definition set_ck_len :: "u32 \<Rightarrow> u32 \<Rightarrow> 'a ustate_scheme \<Rightarrow> 'a ustate_scheme" where
  "set_ck_len a v s = s\<lparr>umem := store32 (umem s) a v\<rparr>"
definition set_ck_next :: "u32 \<Rightarrow> u32 \<Rightarrow> 'a ustate_scheme \<Rightarrow> 'a ustate_scheme" where
  "set_ck_next a v s = s\<lparr>umem := store32 (umem s) (a + 4) v\<rparr>"

text \<open>\<open>__s_heap\<close> and \<open>__e_heap\<close> are symbols of the linker script.\<close>

definition mem_heap_init :: "u32 \<Rightarrow> u32 \<Rightarrow> 'a ustate_scheme \<Rightarrow> 'a ustate_scheme" where
  "mem_heap_init s_heap e_heap s =
     set_ck_next s_heap 0 (set_ck_len s_heap (e_heap - s_heap - HEAD_SIZE) (s\<lparr>ck_list := s_heap\<rparr>))"

text \<open>\<open>__mem_add_chunk\<close>: the header is written at \<open>chkp\<close>, not at the aligned address.\<close>

fun align_chunk :: "nat \<Rightarrow> u32 \<Rightarrow> u32 \<Rightarrow> u32 \<times> u32" where
  "align_chunk 0 startp len = (startp, len)"
| "align_chunk (Suc n) startp len =
     (if startp AND 3 \<noteq> 0 then align_chunk n (startp + 1) (len - 1) else (startp, len))"

definition mem_add_chunk :: "u32 \<Rightarrow> u32 \<Rightarrow> 'a ustate_scheme \<Rightarrow> 'a ustate_scheme" where
  "mem_add_chunk chkp len0 s =
     (let len = snd (align_chunk 3 chkp len0) AND NOT 3 in
      if len \<ge> HEAD_SIZE + 4 then
        (set_ck_next chkp (ck_list s) (set_ck_len chkp (len - HEAD_SIZE) s))\<lparr>ck_list := chkp\<rparr>
      else s)"

text \<open>\<open>_find_chunk\<close>: \<open>None\<close> when the list has a cycle that is never left. The comparisons are unsigned.\<close>

partial_function (option) find_chunk_loop :: "ram \<Rightarrow> u32 \<Rightarrow> u32 \<Rightarrow> u32 \<Rightarrow> u32 \<Rightarrow> u32 option" where
  "find_chunk_loop r sz pch best_pch best_diff =
     (if pch = 0 then Some best_pch
      else let len = ck_len r pch; nxt = ck_next r pch in
        if len AND CK_ALLOCATED = 0 then
          if len = sz then Some pch
          else if len > sz then
            if best_pch \<noteq> 0 then
              if len - sz < best_diff then find_chunk_loop r sz nxt pch (len - sz)
              else find_chunk_loop r sz nxt best_pch best_diff
            else find_chunk_loop r sz nxt pch (len - sz)
          else find_chunk_loop r sz nxt best_pch best_diff
        else find_chunk_loop r sz nxt best_pch best_diff)"

definition find_chunk :: "u32 \<Rightarrow> 'a ustate_scheme \<Rightarrow> u32 option" where
  "find_chunk sz s = find_chunk_loop (umem s) sz (ck_list s) 0 0"

partial_function (option) last_chunk :: "ram \<Rightarrow> u32 \<Rightarrow> u32 option" where
  "last_chunk r pch = (let nxt = ck_next r pch in if nxt \<noteq> 0 then last_chunk r nxt else Some pch)"

text \<open>The branch of \<open>malloc\<close> that asks the kernel for more memory; 0 when there is none.\<close>

definition malloc_grow :: "('a ustate_scheme) utrap \<Rightarrow> u32 \<Rightarrow> 'a ustate_scheme \<Rightarrow> (u32 \<times> 'a ustate_scheme) kres" where
  "malloc_grow trap chunk_size s =
     (let new_size = (if chunk_size > BRK_INCREMENT_MIN then chunk_size else BRK_INCREMENT_MIN) in
      kbind (sbrk trap new_size s) (\<lambda>(new_ch, s1).
      if new_ch \<noteq> - 1 then
        let s2 = set_ck_next new_ch 0 (set_ck_len new_ch (new_size - HEAD_SIZE) s1) in
        (case last_chunk (umem s2) (ck_list s2) of
           None \<Rightarrow> KHang
         | Some pch \<Rightarrow> KOk (new_ch, set_ck_next pch new_ch s2))
      else KOk (0, s1)))"

text \<open>The branch that cuts the allocated chunk from the end of a free one.\<close>

definition malloc_carve :: "u32 \<Rightarrow> u32 \<Rightarrow> 'a ustate_scheme \<Rightarrow> u32 \<times> 'a ustate_scheme" where
  "malloc_carve sz best_pch s =
     (let len = ck_len (umem s) best_pch in
      if len = sz then (best_pch, set_ck_len best_pch (len OR CK_ALLOCATED) s)
      else
        let new_ch = best_pch + (len - sz);
            s1 = set_ck_len new_ch (sz OR CK_ALLOCATED) s;
            s2 = set_ck_next new_ch (ck_next (umem s1) best_pch) s1;
            s3 = set_ck_len best_pch (ck_len (umem s2) best_pch - (sz + HEAD_SIZE)) s2
        in (new_ch, set_ck_next best_pch new_ch s3))"

definition malloc :: "('a ustate_scheme) utrap \<Rightarrow> u32 \<Rightarrow> 'a ustate_scheme \<Rightarrow> (u32 \<times> 'a ustate_scheme) kres" where
  "malloc trap sz0 s =
     (if sz0 = 0 then KOk (0, s)
      else let sz = ALIGN32 sz0 in
        case find_chunk sz s of None \<Rightarrow> KHang
        | Some best \<Rightarrow>
            kbind (if best = 0 then malloc_grow trap (sz + HEAD_SIZE) s else KOk (best, s)) (\<lambda>(best_pch, s1).
            if best_pch \<noteq> 0 then
              let (new_ch, s2) = malloc_carve sz best_pch s1 in KOk (new_ch + HEAD_SIZE, s2)
            else KOk (0, s1\<lparr>errno := word_of_int ENOMEM\<rparr>)))"

partial_function (option) free_find :: "ram \<Rightarrow> u32 \<Rightarrow> u32 \<Rightarrow> u32 \<Rightarrow> (u32 \<times> u32) option" where
  "free_find r ptr_h pch prev =
     (if pch = 0 then Some (0, prev)
      else if pch = ptr_h then Some (pch, prev)
      else free_find r ptr_h (ck_next r pch) pch)"

text \<open>Both merges: \<open>a\<close> takes over the chunk \<open>b\<close> behind it.\<close>

definition free_adjacent :: "ram \<Rightarrow> u32 \<Rightarrow> u32 \<Rightarrow> bool" where
  "free_adjacent r a b \<longleftrightarrow> b = ck_len r a + HEAD_SIZE + a"

definition free_merge :: "u32 \<Rightarrow> u32 \<Rightarrow> 'a ustate_scheme \<Rightarrow> 'a ustate_scheme" where
  "free_merge a b s =
     (let s1 = set_ck_len a (ck_len (umem s) a + (ck_len (umem s) b + HEAD_SIZE)) s
      in set_ck_next a (ck_next (umem s1) b) s1)"

definition free_chunk :: "u32 \<Rightarrow> u32 \<Rightarrow> 'a ustate_scheme \<Rightarrow> 'a ustate_scheme" where
  "free_chunk pch prev s =
     (let pnext = ck_next (umem s) pch;
          s1 = set_ck_len pch (ck_len (umem s) pch AND NOT CK_ALLOCATED) s;
          s2 = (if pnext \<noteq> 0 \<and> ck_len (umem s1) pnext AND CK_ALLOCATED = 0 \<and> free_adjacent (umem s1) pch pnext
                then free_merge pch pnext s1 else s1)
      in if prev \<noteq> 0 \<and> ck_len (umem s2) prev AND CK_ALLOCATED = 0 \<and> free_adjacent (umem s2) prev pch
         then free_merge prev pch s2 else s2)"

definition libc_free :: "u32 \<Rightarrow> 'a ustate_scheme \<Rightarrow> 'a ustate_scheme kres" where
  "libc_free ptr s =
     (if ptr \<noteq> 0 then
        (case free_find (umem s) (ptr - HEAD_SIZE) (ck_list s) 0 of
           None \<Rightarrow> KHang
         | Some (pch, prev) \<Rightarrow> KOk (if pch \<noteq> 0 then free_chunk pch prev s else s))
      else KOk s)"

end
