(* ===== verification/MallocInv.thy ===== *)
theory MallocInv
  imports Libc
begin

text \<open>
  The list of chunks of the allocator (Libc) as a HOL list: what a well-formed heap is, the best fit, and the
  effect of cutting, merging and appending chunks on the list.
\<close>

unbundle bit_operations_syntax

section \<open>Headers in memory\<close>

lemma of_nat_u32_inj: "a < 2 ^ 32 \<Longrightarrow> b < 2 ^ 32 \<Longrightarrow> (of_nat a :: u32) = of_nat b \<longleftrightarrow> a = b"
  using of_nat_add_inj [of 0 a b] by auto

text \<open>Two headers are the same one or do not overlap.\<close>

definition hsep :: "nat \<Rightarrow> nat \<Rightarrow> bool" where
  "hsep a b \<longleftrightarrow> a + 8 < 2 ^ 32 \<and> b + 8 < 2 ^ 32 \<and> (a = b \<or> a + 8 \<le> b \<or> b + 8 \<le> a)"

lemma load_store_nat:
  assumes "a + 4 < 2 ^ 32" and "b + 4 < 2 ^ 32" and "a + 4 \<le> b \<or> b + 4 \<le> a"
  shows "load32 (store32 r (of_nat a) v) (of_nat b) = load32 r (of_nat b)"
proof (rule load32_other)
  show "region (of_nat a) 4 \<inter> region (of_nat b) 4 = {}"
    using assms regions_apart [of "of_nat a" 4 "of_nat b" 4] regions_apart [of "of_nat b" 4 "of_nat a" 4]
    by (auto simp: unat_of_nat)
qed

lemma head_len_len:
  "hsep a b \<Longrightarrow> ck_len (store32 r (of_nat a) v) (of_nat b) = (if a = b then v else ck_len r (of_nat b))"
  using load_store_nat [of a b r v] by (auto simp: ck_len_def hsep_def load32_store32)

lemma head_next_len: "hsep a b \<Longrightarrow> ck_next (store32 r (of_nat a) v) (of_nat b) = ck_next r (of_nat b)"
  using load_store_nat [of a "b + 4" r v] by (auto simp: ck_next_def hsep_def)

lemma head_len_next: "hsep a b \<Longrightarrow> ck_len (store32 r (of_nat a + 4) v) (of_nat b) = ck_len r (of_nat b)"
  using load_store_nat [of "a + 4" b r v] by (auto simp: ck_len_def hsep_def)

lemma head_next_next:
  "hsep a b \<Longrightarrow> ck_next (store32 r (of_nat a + 4) v) (of_nat b) = (if a = b then v else ck_next r (of_nat b))"
  using load_store_nat [of "a + 4" "b + 4" r v] by (auto simp: ck_next_def hsep_def load32_store32)

lemmas heads = head_len_len head_next_len head_len_next head_next_next

lemma hsep_refl: "a + 8 < 2 ^ 32 \<Longrightarrow> hsep a a"
  by (simp add: hsep_def)

section \<open>The list of chunks\<close>

datatype chunk = Chunk (ca: nat) (cl: nat) (cb: bool)

definition cend :: "chunk \<Rightarrow> nat" where "cend c = ca c + 8 + cl c"

definition len_word :: "nat \<Rightarrow> bool \<Rightarrow> u32" where
  "len_word l b = of_nat l OR (if b then CK_ALLOCATED else 0)"

fun seg :: "ram \<Rightarrow> u32 \<Rightarrow> chunk list \<Rightarrow> u32 \<Rightarrow> bool" where
  "seg r p [] q \<longleftrightarrow> p = q"
| "seg r p (c # cs) q \<longleftrightarrow> p = of_nat (ca c) \<and> ck_len r p = len_word (cl c) (cb c) \<and> seg r (ck_next r p) cs q"

definition ok_chunk :: "chunk \<Rightarrow> bool" where
  "ok_chunk c \<longleftrightarrow> 0 < ca c \<and> cend c < 2 ^ 32 \<and> 4 dvd cl c"

definition apart :: "chunk \<Rightarrow> chunk \<Rightarrow> bool" where
  "apart c d \<longleftrightarrow> cend c \<le> ca d \<or> cend d \<le> ca c"

definition wf_chunks :: "chunk list \<Rightarrow> bool" where
  "wf_chunks cs \<longleftrightarrow> (\<forall>c \<in> set cs. ok_chunk c) \<and> sorted_wrt apart cs"

definition wf_heap :: "ram \<Rightarrow> u32 \<Rightarrow> chunk list \<Rightarrow> bool" where
  "wf_heap r p cs \<longleftrightarrow> seg r p cs 0 \<and> wf_chunks cs"

lemma apart_sym: "apart c d \<Longrightarrow> apart d c"
  by (auto simp: apart_def)

lemma seg_append: "seg r p (xs @ ys) q \<longleftrightarrow> (\<exists>m. seg r p xs m \<and> seg r m ys q)"
  by (induction xs arbitrary: p) auto

lemma seg_cong:
  assumes "\<And>c. c \<in> set cs \<Longrightarrow> ck_len r' (of_nat (ca c)) = ck_len r (of_nat (ca c)) \<and> ck_next r' (of_nat (ca c)) = ck_next r (of_nat (ca c))"
  shows "seg r' p cs q = seg r p cs q"
  using assms by (induction cs arbitrary: p) auto

lemma seg_len: "seg r p cs q \<Longrightarrow> c \<in> set cs \<Longrightarrow> ck_len r (of_nat (ca c)) = len_word (cl c) (cb c)"
  by (induction cs arbitrary: p) auto

lemma wf_chunks_middle:
  "wf_chunks (xs @ c # ys) \<longleftrightarrow> wf_chunks (xs @ ys) \<and> ok_chunk c \<and> (\<forall>d \<in> set (xs @ ys). apart c d)"
  by (auto simp: wf_chunks_def sorted_wrt_append intro: apart_sym)

lemma wf_chunks_append: "wf_chunks (cs @ [c]) \<longleftrightarrow> wf_chunks cs \<and> ok_chunk c \<and> (\<forall>d \<in> set cs. apart c d)"
  using wf_chunks_middle [of cs c "[]"] by simp

text \<open>A part of a chunk is apart from whatever the chunk is apart from.\<close>

lemma apart_part: "apart c d \<Longrightarrow> ca c \<le> ca c' \<Longrightarrow> cend c' \<le> cend c \<Longrightarrow> apart c' d"
  by (auto simp: apart_def)

lemma apart_hsep: "apart c d \<Longrightarrow> ok_chunk c \<Longrightarrow> ok_chunk d \<Longrightarrow> hsep (ca c) (ca d)"
  by (auto simp: apart_def hsep_def ok_chunk_def cend_def)

lemma apart_not_eq: "apart c d \<Longrightarrow> ca c \<noteq> ca d"
  by (auto simp: apart_def cend_def)

section \<open>Lengths\<close>

lemma even_and_1: "even l \<Longrightarrow> (of_nat l :: u32) AND 1 = 0"
  by (elim evenE) (simp add: and_one_eq mod2_eq_if)

lemma len_word_free: "even l \<Longrightarrow> len_word l b AND CK_ALLOCATED = 0 \<longleftrightarrow> \<not> b"
  by (simp add: len_word_def CK_ALLOCATED_def bit.conj_disj_distrib2 even_and_1)

lemma len_word_False [simp]: "len_word l False = of_nat l"
  by (simp add: len_word_def)

lemma len_word_alloc: "len_word l False OR CK_ALLOCATED = len_word l True"
  by (simp add: len_word_def)

lemma len_word_clear: "even l \<Longrightarrow> len_word l True AND NOT CK_ALLOCATED = of_nat l"
proof -
  assume e: "even l"
  have "\<not> bit (of_nat l :: u32) 0" using e by (elim evenE) (simp add: bit_0)
  then have "(of_nat l :: u32) AND NOT 1 = of_nat l"
    by (auto intro!: bit_word_eqI gr0I simp: bit_and_iff bit_not_iff bit_1_iff)
  then show ?thesis by (simp add: len_word_def CK_ALLOCATED_def bit.conj_disj_distrib2)
qed

lemma ok_even: "ok_chunk c \<Longrightarrow> even (cl c)"
  unfolding ok_chunk_def by presburger

lemma ok_bounds: "ok_chunk c \<Longrightarrow> ca c + 8 < 2 ^ 32 \<and> cl c < 2 ^ 32 \<and> 0 < ca c"
  by (auto simp: ok_chunk_def cend_def)

lemma ok_addr: "ok_chunk c \<Longrightarrow> (of_nat (ca c) :: u32) \<noteq> 0"
  using of_nat_u32_inj [of "ca c" 0] ok_bounds [of c] by simp

section \<open>The best fit\<close>

fun find_best :: "nat \<Rightarrow> chunk list \<Rightarrow> chunk option \<Rightarrow> chunk option" where
  "find_best n [] best = best"
| "find_best n (c # cs) best =
     (if \<not> cb c \<and> cl c = n then Some c
      else if \<not> cb c \<and> n < cl c \<and> (case best of None \<Rightarrow> True | Some b \<Rightarrow> cl c < cl b) then find_best n cs (Some c)
      else find_best n cs best)"

lemma find_chunk_loop_best:
  assumes "seg r p cs 0" and "\<forall>c \<in> set cs. ok_chunk c" and "n < 2 ^ 32"
    and "case best of None \<Rightarrow> bp = 0 | Some b \<Rightarrow> ok_chunk b \<and> n < cl b \<and> bp = of_nat (ca b) \<and> bd = of_nat (cl b - n)"
  shows "find_chunk_loop r (of_nat n) p bp bd = Some (case find_best n cs best of None \<Rightarrow> 0 | Some c \<Rightarrow> of_nat (ca c))"
  using assms
proof (induction cs arbitrary: p best bp bd)
  case Nil
  then show ?case by (auto simp: find_chunk_loop.simps split: option.splits)
next
  case (Cons c cs)
  have ok: "ok_chunk c" and oks: "\<forall>c \<in> set cs. ok_chunk c" using Cons.prems(2) by auto
  note b = ok_bounds [OF ok]
  have p: "p = of_nat (ca c)" "p \<noteq> 0" and l: "ck_len r p = len_word (cl c) (cb c)" and sg: "seg r (ck_next r p) cs 0"
    using Cons.prems(1) ok_addr [OF ok] by auto
  have step: "find_chunk_loop r (of_nat n) p bp bd =
     (let len = ck_len r p; nxt = ck_next r p in
        if len AND CK_ALLOCATED = 0 then
          if len = of_nat n then Some p
          else if len > of_nat n then
            if bp \<noteq> 0 then
              if len - of_nat n < bd then find_chunk_loop r (of_nat n) nxt p (len - of_nat n)
              else find_chunk_loop r (of_nat n) nxt bp bd
            else find_chunk_loop r (of_nat n) nxt p (len - of_nat n)
          else find_chunk_loop r (of_nat n) nxt bp bd
        else find_chunk_loop r (of_nat n) nxt bp bd)"
    using p(2) by (subst find_chunk_loop.simps) simp
  show ?case
  proof (cases "cb c")
    case True
    then show ?thesis using Cons.IH [OF sg oks Cons.prems(3,4)] l len_word_free [OF ok_even [OF ok]] by (simp add: step)
  next
    case False
    have a: "ck_len r p AND CK_ALLOCATED = 0" using l False len_word_free [OF ok_even [OF ok], of False] by simp
    have lw: "ck_len r p = of_nat (cl c)" using l False by simp
    have eq: "ck_len r p = of_nat n \<longleftrightarrow> cl c = n" using lw of_nat_u32_inj [of "cl c" n] b Cons.prems(3) by simp
    have gt: "ck_len r p > of_nat n \<longleftrightarrow> n < cl c" using lw b Cons.prems(3) by (simp add: word_less_nat_alt unat_of_nat)
    have mn: "ck_len r p - of_nat n = of_nat (cl c - n)" if "n < cl c" using lw that by (simp add: of_nat_diff)
    have take: "find_chunk_loop r (of_nat n) (ck_next r p) p (of_nat (cl c - n)) =
        Some (case find_best n cs (Some c) of None \<Rightarrow> 0 | Some c \<Rightarrow> of_nat (ca c))" if "n < cl c"
      using Cons.IH [OF sg oks Cons.prems(3), where best = "Some c" and bp = p and bd = "of_nat (cl c - n)"] ok that p by simp
    note keep = Cons.IH [OF sg oks Cons.prems(3,4)]
    show ?thesis
    proof (cases best)
      case None
      then show ?thesis unfolding step Let_def using False Cons.prems(4) take keep eq gt mn a p(1) by auto
    next
      case (Some d)
      have d: "ok_chunk d" "n < cl d" "bp = of_nat (ca d)" "bd = of_nat (cl d - n)" using Cons.prems(4) Some by auto
      have bp: "bp \<noteq> 0" using d ok_addr by simp
      have lt: "of_nat (cl c - n) < bd \<longleftrightarrow> cl c < cl d" if "n < cl c"
        using that d b ok_bounds [OF d(1)] by (auto simp: word_less_nat_alt unat_of_nat simp del: of_nat_diff)
      show ?thesis unfolding step Let_def using False Some take keep eq gt mn a bp lt p(1) by auto
    qed
  qed
qed

lemma find_best_sound:
  "find_best n cs best = Some c \<Longrightarrow> best = Some c \<or> c \<in> set cs \<and> \<not> cb c \<and> n \<le> cl c"
  by (induction n cs best rule: find_best.induct) (auto split: if_splits option.splits)

lemma find_best_min:
  "find_best n cs best = Some c \<Longrightarrow> (\<forall>b. best = Some b \<longrightarrow> n < cl b) \<Longrightarrow>
     (\<forall>d \<in> set cs. \<not> cb d \<and> n \<le> cl d \<longrightarrow> cl c \<le> cl d) \<and> (\<forall>b. best = Some b \<longrightarrow> cl c \<le> cl b)"
proof (induction n cs best rule: find_best.induct)
  case (2 n d cs best)
  show ?case
  proof (cases "\<not> cb d \<and> cl d = n")
    case True
    then show ?thesis using 2(3,4) by auto
  next
    case no: False
    show ?thesis
    proof (cases "\<not> cb d \<and> n < cl d \<and> (case best of None \<Rightarrow> True | Some b \<Rightarrow> cl d < cl b)")
      case True
      have "find_best n cs (Some d) = Some c" using 2(3) no True by simp
      from 2(1) [OF no True this] True show ?thesis by (auto split: option.splits)
    next
      case False
      have "find_best n cs best = Some c" using 2(3) no False by (simp split: if_splits)
      from 2(2) [OF no False this 2(4)] no False show ?thesis by (auto split: option.splits)
    qed
  qed
qed simp

lemma find_best_None: "find_best n cs best = None \<Longrightarrow> best = None \<and> (\<forall>d \<in> set cs. \<not> cb d \<longrightarrow> cl d < n)"
  by (induction n cs best rule: find_best.induct) (auto split: if_splits option.splits)

section \<open>Cutting a chunk\<close>

text \<open>The list after \<open>malloc_carve\<close>; a free chunk of \<open>n + 4\<close> bytes has no room for the second header.\<close>

definition carve :: "nat \<Rightarrow> chunk \<Rightarrow> chunk list" where
  "carve n c = (if cl c = n then [Chunk (ca c) n True]
     else [Chunk (ca c) (cl c - n - 8) False, Chunk (ca c + (cl c - n)) n True])"

definition carved :: "nat \<Rightarrow> chunk \<Rightarrow> nat" where "carved n c = ca c + (cl c - n)"

lemma malloc_carve_list:
  assumes "wf_heap (umem s) (ck_list s) (xs @ c # ys)" and "\<not> cb c" and "4 dvd n" and "cl c = n \<or> n + 8 \<le> cl c"
  shows "\<exists>s'. malloc_carve (of_nat n) (of_nat (ca c)) s = (of_nat (carved n c), s') \<and>
    wf_heap (umem s') (ck_list s') (xs @ carve n c @ ys) \<and> s' = s\<lparr>umem := umem s'\<rparr> \<and>
    (\<forall>x. x \<notin> region (of_nat (ca c)) 8 \<longrightarrow> x \<notin> region (of_nat (carved n c)) 8 \<longrightarrow> umem s' x = umem s x)"
proof -
  let ?r = "umem s"
  have wf: "wf_chunks (xs @ c # ys)" and sg: "seg ?r (ck_list s) xs (of_nat (ca c))" "seg ?r (ck_next ?r (of_nat (ca c))) ys 0"
    and lw: "ck_len ?r (of_nat (ca c)) = of_nat (cl c)"
    using assms(1,2) by (auto simp: wf_heap_def seg_append)
  have ok: "ok_chunk c" and ap: "\<forall>d \<in> set (xs @ ys). apart c d" and wf0: "wf_chunks (xs @ ys)"
    using wf by (auto simp: wf_chunks_middle)
  have oks: "\<forall>d \<in> set (xs @ ys). ok_chunk d \<and> apart c d" using ap wf0 by (auto simp: wf_chunks_def)
  note b = ok_bounds [OF ok]
  show ?thesis
  proof (cases "cl c = n")
    case True
    let ?s = "set_ck_len (of_nat (ca c)) (of_nat n OR CK_ALLOCATED) s"
    have h: "hsep (ca c) (ca d)" "ca d \<noteq> ca c" if "d \<in> set xs \<union> set ys" for d
      using that oks ok apart_hsep [of c d] apart_not_eq [of c d] by auto
    have eq: "malloc_carve (of_nat n) (of_nat (ca c)) s = (of_nat (carved n c), ?s)"
      using lw True by (simp add: malloc_carve_def carved_def)
    have len: "len_word n True = of_nat n OR CK_ALLOCATED" by (simp add: len_word_def)
    have "ck_len (umem ?s) (of_nat (ca d)) = ck_len ?r (of_nat (ca d)) \<and> ck_next (umem ?s) (of_nat (ca d)) = ck_next ?r (of_nat (ca d))"
      if "d \<in> set xs \<union> set ys" for d
      using h [OF that] by (auto simp: set_ck_len_def heads)
    then have "seg (umem ?s) (ck_list s) xs (of_nat (ca c))" "seg (umem ?s) (ck_next ?r (of_nat (ca c))) ys 0"
      using sg by (auto intro: seg_cong [THEN iffD2])
    then have "seg (umem ?s) (ck_list s) (xs @ carve n c @ ys) 0"
      using True b by (simp add: seg_append carve_def set_ck_len_def heads hsep_refl len)
    moreover have "wf_chunks (xs @ carve n c @ ys)"
      using True wf0 ok oks by (auto simp: carve_def wf_chunks_middle ok_chunk_def cend_def intro: apart_part [of c])
    ultimately have "wf_heap (umem ?s) (ck_list ?s) (xs @ carve n c @ ys)" by (simp add: wf_heap_def set_ck_len_def)
    moreover have "umem ?s x = ?r x" if "x \<notin> region (of_nat (ca c)) 8" for x
      using that region_sub [of 4 0 8 "of_nat (ca c)"] by (auto simp: set_ck_len_def intro: store32_outside)
    moreover have "?s = s\<lparr>umem := umem ?s\<rparr>" by (simp add: set_ck_len_def)
    ultimately show ?thesis using eq by blast
  next
    case False
    then have n: "n + 8 \<le> cl c" using assms(4) by simp
    let ?a = "ca c" and ?b = "carved n c"
    define r1 where "r1 = store32 ?r (of_nat ?b) (of_nat n OR CK_ALLOCATED)"
    define r2 where "r2 = store32 r1 (of_nat ?b + 4) (ck_next ?r (of_nat ?a))"
    define r3 where "r3 = store32 r2 (of_nat ?a) (of_nat (cl c - n - 8))"
    define r4 where "r4 = store32 r3 (of_nat ?a + 4) (of_nat ?b)"
    have ok': "ok_chunk (Chunk ?a (cl c - n - 8) False)" "ok_chunk (Chunk ?b n True)"
      using ok n assms(3) by (auto simp: ok_chunk_def cend_def carved_def)
    have sub: "ca (Chunk ?b n True) \<ge> ca c" "cend (Chunk ?b n True) \<le> cend c"
      "ca (Chunk ?a (cl c - n - 8) False) \<ge> ca c" "cend (Chunk ?a (cl c - n - 8) False) \<le> cend c"
      using n by (auto simp: cend_def carved_def)
    have hab: "hsep ?a ?b" "hsep ?b ?a" "?a \<noteq> ?b" "hsep ?a ?a" "hsep ?b ?b"
      using ok n by (auto simp: hsep_def carved_def ok_chunk_def cend_def)
    have h: "hsep ?a (ca d) \<and> hsep ?b (ca d) \<and> ca d \<noteq> ?a \<and> ca d \<noteq> ?b" if "d \<in> set xs \<union> set ys" for d
    proof -
      have d: "ok_chunk d" "apart c d" using that oks by auto
      have "apart (Chunk ?b n True) d" by (rule apart_part [OF d(2) sub(1,2)])
      from apart_hsep [OF this ok'(2) d(1)] apart_not_eq [OF this] apart_hsep [OF d(2) ok d(1)] apart_not_eq [OF d(2)]
      show ?thesis by auto
    qed
    have nb: "of_nat ?a + (of_nat (cl c) - of_nat n) = (of_nat ?b :: u32)"
      using n by (simp add: carved_def of_nat_diff)
    have l4: "of_nat (cl c) - (of_nat n + HEAD_SIZE) = (of_nat (cl c - n - 8) :: u32)"
      using n by (simp add: HEAD_SIZE_def of_nat_diff)
    have neq: "(of_nat (cl c) :: u32) \<noteq> of_nat n" using False b n of_nat_u32_inj [of "cl c" n] by simp
    have n1: "ck_next r1 (of_nat ?a) = ck_next ?r (of_nat ?a)" using hab by (simp add: r1_def heads)
    have l2: "ck_len r2 (of_nat ?a) = of_nat (cl c)" using hab lw by (simp add: r2_def r1_def heads)
    let ?s = "s\<lparr>umem := r4\<rparr>"
    have eq: "malloc_carve (of_nat n) (of_nat ?a) s = (of_nat ?b, ?s)"
      using lw neq nb n1 l2 l4
      by (simp add: malloc_carve_def set_ck_len_def set_ck_next_def Let_def flip: r1_def) (simp add: r2_def r3_def r4_def r1_def)
    have hd: "ck_len r4 (of_nat ?a) = of_nat (cl c - n - 8)" "ck_next r4 (of_nat ?a) = of_nat ?b"
      "ck_len r4 (of_nat ?b) = len_word n True" "ck_next r4 (of_nat ?b) = ck_next ?r (of_nat ?a)"
      using hab by (auto simp: r4_def r3_def r2_def r1_def heads len_word_def)
    have "ck_len r4 (of_nat (ca d)) = ck_len ?r (of_nat (ca d)) \<and> ck_next r4 (of_nat (ca d)) = ck_next ?r (of_nat (ca d))"
      if "d \<in> set xs \<union> set ys" for d
      using h [OF that] by (auto simp: r4_def r3_def r2_def r1_def heads)
    then have "seg r4 (ck_list s) xs (of_nat ?a)" "seg r4 (ck_next ?r (of_nat ?a)) ys 0"
      using sg by (auto intro: seg_cong [THEN iffD2])
    then have "seg r4 (ck_list s) (xs @ carve n c @ ys) 0"
      using False hd by (simp add: seg_append carve_def flip: carved_def)
    moreover have "wf_chunks (xs @ carve n c @ ys)"
    proof -
      have ap: "apart (Chunk ?a (cl c - n - 8) False) (Chunk ?b n True)" using n by (simp add: apart_def cend_def carved_def)
      have "wf_chunks (xs @ Chunk ?b n True # ys)"
        using wf0 ok' oks apart_part [OF _ sub(1,2)] by (auto simp: wf_chunks_middle)
      moreover have "\<forall>d \<in> set (xs @ Chunk ?b n True # ys). apart (Chunk ?a (cl c - n - 8) False) d"
        using ap oks apart_part [OF _ sub(3,4)] by auto
      ultimately have "wf_chunks (xs @ Chunk ?a (cl c - n - 8) False # Chunk ?b n True # ys)"
        using wf_chunks_middle [of xs _ "Chunk ?b n True # ys", THEN iffD2] ok'(1) by blast
      then show ?thesis using False by (simp add: carve_def flip: carved_def)
    qed
    ultimately have "wf_heap (umem ?s) (ck_list ?s) (xs @ carve n c @ ys)" by (simp add: wf_heap_def)
    moreover have "r4 x = ?r x" if "x \<notin> region (of_nat ?a) 8" "x \<notin> region (of_nat ?b) 8" for x
    proof -
      have "x \<notin> region (of_nat ?a) 4" "x \<notin> region (of_nat ?a + 4) 4" "x \<notin> region (of_nat ?b) 4" "x \<notin> region (of_nat ?b + 4) 4"
        using that region_sub [of 4 0 8] region_sub [of 4 4 8] by auto
      then show ?thesis by (simp add: r4_def r3_def r2_def r1_def store32_outside)
    qed
    ultimately show ?thesis using eq by (intro exI [of _ ?s]) simp
  qed
qed

section \<open>Freeing a chunk\<close>

text \<open>The list after \<open>free_chunk\<close>: the chunk behind, then the chunk before it in the list are merged when they are free and adjacent.\<close>

definition joins :: "chunk \<Rightarrow> chunk \<Rightarrow> bool" where
  "joins c d \<longleftrightarrow> \<not> cb c \<and> \<not> cb d \<and> ca d = cend c"

definition join :: "chunk \<Rightarrow> chunk \<Rightarrow> chunk" where
  "join c d = Chunk (ca c) (cl c + (cl d + 8)) False"

fun join_next :: "chunk \<Rightarrow> chunk list \<Rightarrow> chunk list" where
  "join_next c [] = [c]"
| "join_next c (d # ys) = (if joins c d then join c d # ys else c # d # ys)"

definition release :: "chunk list \<Rightarrow> chunk \<Rightarrow> chunk list \<Rightarrow> chunk list" where
  "release xs c ys =
     (let zs = join_next (Chunk (ca c) (cl c) False) ys in
      if xs = [] then zs else butlast xs @ join_next (last xs) zs)"

lemma join_next_head:
  assumes "\<not> cb c"
  obtains e zs where "join_next c ys = e # zs" "ca e = ca c" "\<not> cb e"
  using assms that by (cases ys; cases "joins c (hd ys)") (auto simp: join_def)

lemma wf_chunks_join:
  assumes "wf_chunks (xs @ c # d # ys)" and "joins c d"
  shows "wf_chunks (xs @ join c d # ys)"
proof -
  have c: "ok_chunk c" "ok_chunk d" "wf_chunks (xs @ ys)" and ap: "\<forall>e \<in> set (xs @ ys). apart c e \<and> apart d e"
    using assms(1) wf_chunks_middle [of xs c "d # ys"] wf_chunks_middle [of xs d ys] by auto
  have oks: "\<forall>e \<in> set (xs @ ys). ok_chunk e" using c(3) by (simp add: wf_chunks_def)
  have "ok_chunk (join c d)" using c assms(2) by (auto simp: ok_chunk_def join_def joins_def cend_def)
  moreover have "apart (join c d) e" if "e \<in> set (xs @ ys)" for e
    using ap that assms(2) oks by (fastforce simp: apart_def join_def joins_def cend_def)
  ultimately show ?thesis using c(3) by (simp add: wf_chunks_middle)
qed

lemma free_merge_list:
  assumes "wf_heap (umem s) (ck_list s) (xs @ c # d # ys)" and "joins c d"
  shows "\<exists>s'. free_merge (of_nat (ca c)) (of_nat (ca d)) s = s' \<and> wf_heap (umem s') (ck_list s') (xs @ join c d # ys) \<and>
    s' = s\<lparr>umem := umem s'\<rparr> \<and> (\<forall>x. x \<notin> region (of_nat (ca c)) 8 \<longrightarrow> umem s' x = umem s x)"
proof -
  let ?r = "umem s" and ?a = "ca c" and ?b = "ca d"
  have wf: "wf_chunks (xs @ c # d # ys)" and sg: "seg ?r (ck_list s) xs (of_nat ?a)" "seg ?r (ck_next ?r (of_nat ?b)) ys 0"
    and lw: "ck_len ?r (of_nat ?a) = of_nat (cl c)" "ck_len ?r (of_nat ?b) = of_nat (cl d)" "ck_next ?r (of_nat ?a) = of_nat ?b"
    using assms by (auto simp: wf_heap_def seg_append joins_def)
  have ok: "ok_chunk c" "ok_chunk d" and cd: "apart c d" and ap: "\<forall>e \<in> set (xs @ ys). apart c e" and wf0: "wf_chunks (xs @ ys)"
    using wf wf_chunks_middle [of xs c "d # ys"] wf_chunks_middle [of xs d ys] by auto
  have oks: "\<forall>e \<in> set (xs @ ys). ok_chunk e" using wf0 by (simp add: wf_chunks_def)
  define r1 where "r1 = store32 ?r (of_nat ?a) (of_nat (cl c + (cl d + 8)))"
  define r2 where "r2 = store32 r1 (of_nat ?a + 4) (ck_next ?r (of_nat ?b))"
  have hab: "hsep ?a ?a" "hsep ?a ?b" "?a \<noteq> ?b" using apart_hsep [OF cd ok] apart_not_eq [OF cd] ok_bounds [OF ok(1)] by (auto simp: hsep_refl)
  have h: "hsep ?a (ca e) \<and> ca e \<noteq> ?a" if "e \<in> set xs \<union> set ys" for e
    using that oks ok ap apart_hsep [of c e] apart_not_eq [of c e] by auto
  have eq: "free_merge (of_nat ?a) (of_nat ?b) s = s\<lparr>umem := r2\<rparr>"
    using lw hab by (simp add: free_merge_def set_ck_len_def set_ck_next_def HEAD_SIZE_def Let_def r2_def r1_def heads)
  have "ck_len r2 (of_nat (ca e)) = ck_len ?r (of_nat (ca e)) \<and> ck_next r2 (of_nat (ca e)) = ck_next ?r (of_nat (ca e))"
    if "e \<in> set xs \<union> set ys" for e
    using h [OF that] by (auto simp: r2_def r1_def heads)
  then have "seg r2 (ck_list s) xs (of_nat ?a)" "seg r2 (ck_next ?r (of_nat ?b)) ys 0" using sg by (auto intro: seg_cong [THEN iffD2])
  then have "seg r2 (ck_list s) (xs @ join c d # ys) 0" using hab by (simp add: seg_append join_def r2_def r1_def heads)
  then have "wf_heap r2 (ck_list s) (xs @ join c d # ys)" using wf_chunks_join [OF wf assms(2)] by (simp add: wf_heap_def)
  moreover have "r2 x = ?r x" if "x \<notin> region (of_nat ?a) 8" for x
  proof -
    have "x \<notin> region (of_nat ?a) 4" "x \<notin> region (of_nat ?a + 4) 4" using that region_sub [of 4 0 8] region_sub [of 4 4 8] by auto
    then show ?thesis by (simp add: r2_def r1_def store32_outside)
  qed
  ultimately show ?thesis using eq by auto
qed

lemma free_adjacent_joins:
  assumes "ck_len r (of_nat (ca c)) = of_nat (cl c)" and "ok_chunk c" and "ok_chunk d"
  shows "free_adjacent r (of_nat (ca c)) (of_nat (ca d)) \<longleftrightarrow> ca d = cend c"
proof -
  have "of_nat (cl c) + HEAD_SIZE + of_nat (ca c) = (of_nat (cend c) :: u32)" by (simp add: HEAD_SIZE_def cend_def)
  then show ?thesis using assms of_nat_u32_inj [of "ca d" "cend c"] by (auto simp: free_adjacent_def ok_chunk_def cend_def)
qed

lemma free_find_list:
  assumes "seg r p (xs @ c # ys) 0" and "wf_chunks (xs @ c # ys)"
  shows "free_find r (of_nat (ca c)) p pv = Some (of_nat (ca c), if xs = [] then pv else of_nat (ca (last xs)))"
  using assms
proof (induction xs arbitrary: p pv)
  case Nil
  then have p: "p = of_nat (ca c)" and "ok_chunk c" by (auto simp: wf_chunks_def)
  then show ?case using ok_addr [of c] by (subst free_find.simps) simp
next
  case (Cons d xs)
  have p: "p = of_nat (ca d)" and sg: "seg r (ck_next r p) (xs @ c # ys) 0" using Cons.prems(1) by auto
  have wf: "wf_chunks (xs @ c # ys)" and ok: "ok_chunk d" "ok_chunk c" and "apart d c"
    using Cons.prems(2) by (auto simp: wf_chunks_def)
  then have "p \<noteq> of_nat (ca c)" "p \<noteq> 0"
    using p apart_not_eq [of d c] of_nat_u32_inj [of "ca d" "ca c"] ok_bounds [of d] ok_bounds [of c] ok_addr [OF ok(1)] by auto
  then have "free_find r (of_nat (ca c)) p pv = free_find r (of_nat (ca c)) (ck_next r p) p"
    by (subst free_find.simps) simp
  then show ?case using Cons.IH [OF sg wf] p by simp
qed

definition headers :: "chunk list \<Rightarrow> u32 set" where
  "headers cs = (\<Union>c \<in> set cs. region (of_nat (ca c)) 8)"

lemma free_chunk_list:
  assumes "wf_heap (umem s) (ck_list s) (xs @ c # ys)" and "cb c"
  shows "\<exists>s'. free_chunk (of_nat (ca c)) (if xs = [] then 0 else of_nat (ca (last xs))) s = s' \<and>
    wf_heap (umem s') (ck_list s') (release xs c ys) \<and> s' = s\<lparr>umem := umem s'\<rparr> \<and>
    (\<forall>x. x \<notin> headers (xs @ c # ys) \<longrightarrow> umem s' x = umem s x)"
proof -
  let ?r = "umem s" and ?a = "ca c" and ?c = "Chunk (ca c) (cl c) False"
  let ?H = "headers (xs @ c # ys)"
  have wf: "wf_chunks (xs @ c # ys)" and sg: "seg ?r (ck_list s) xs (of_nat ?a)" "seg ?r (ck_next ?r (of_nat ?a)) ys 0"
    and lw: "ck_len ?r (of_nat ?a) = len_word (cl c) True"
    using assms by (auto simp: wf_heap_def seg_append)
  have ok: "ok_chunk c" and ap: "\<forall>d \<in> set (xs @ ys). apart c d" and wf0: "wf_chunks (xs @ ys)"
    using wf by (auto simp: wf_chunks_middle)
  have oks: "\<forall>d \<in> set (xs @ ys). ok_chunk d" using wf0 by (simp add: wf_chunks_def)
  define s1 where "s1 = set_ck_len (of_nat ?a) (ck_len ?r (of_nat ?a) AND NOT CK_ALLOCATED) s"
  have m1: "umem s1 = store32 ?r (of_nat ?a) (of_nat (cl c))" "s1 = s\<lparr>umem := umem s1\<rparr>"
    using len_word_clear [OF ok_even [OF ok]] lw by (simp_all add: s1_def set_ck_len_def)
  have haa: "hsep ?a ?a" using ok_bounds [OF ok] by (simp add: hsep_refl)
  have h: "hsep ?a (ca d) \<and> ca d \<noteq> ?a" if "d \<in> set xs \<union> set ys" for d
    using that oks ok ap apart_hsep [of c d] apart_not_eq [of c d] by auto
  have "ck_len (umem s1) (of_nat (ca d)) = ck_len ?r (of_nat (ca d)) \<and> ck_next (umem s1) (of_nat (ca d)) = ck_next ?r (of_nat (ca d))"
    if "d \<in> set xs \<union> set ys" for d
    using h [OF that] by (auto simp: m1(1) heads)
  then have "seg (umem s1) (ck_list s) xs (of_nat ?a)" "seg (umem s1) (ck_next ?r (of_nat ?a)) ys 0"
    using sg by (auto intro: seg_cong [THEN iffD2])
  then have "seg (umem s1) (ck_list s) (xs @ ?c # ys) 0" using haa by (simp add: seg_append m1(1) heads)
  moreover have "wf_chunks (xs @ ?c # ys)" using wf0 ok ap oks
    by (auto simp: wf_chunks_middle ok_chunk_def cend_def apart_def)
  moreover have "ck_list s1 = ck_list s" by (subst m1(2)) simp
  ultimately have w1: "wf_heap (umem s1) (ck_list s1) (xs @ ?c # ys)" by (simp add: wf_heap_def)
  have f1: "umem s1 x = ?r x" if "x \<notin> ?H" for x
    using that region_sub [of 4 0 8 "of_nat ?a"] by (auto simp: m1(1) headers_def intro: store32_outside)
  have l1: "ck_len (umem s1) (of_nat ?a) = of_nat (cl c)" "ck_next (umem s1) (of_nat ?a) = ck_next ?r (of_nat ?a)"
    using haa by (simp_all add: m1(1) heads)
  have lx: "ck_len (umem s1) (of_nat (ca d)) = len_word (cl d) (cb d)" if "d \<in> set xs \<union> set ys" for d
    using w1 that seg_len [of "umem s1" _ "xs @ ?c # ys" 0 d] by (auto simp: wf_heap_def)
  \<comment> \<open>the chunk behind\<close>
  define s2 where "s2 = (if ck_next ?r (of_nat ?a) \<noteq> 0 \<and> ck_len (umem s1) (ck_next ?r (of_nat ?a)) AND CK_ALLOCATED = 0 \<and>
      free_adjacent (umem s1) (of_nat ?a) (ck_next ?r (of_nat ?a)) then free_merge (of_nat ?a) (ck_next ?r (of_nat ?a)) s1 else s1)"
  have s2: "wf_heap (umem s2) (ck_list s2) (xs @ join_next ?c ys) \<and> s2 = s\<lparr>umem := umem s2\<rparr> \<and>
      (\<forall>x. x \<notin> ?H \<longrightarrow> umem s2 x = ?r x)"
  proof (cases ys)
    case Nil
    then have "ck_next ?r (of_nat ?a) = 0" using sg(2) by simp
    then show ?thesis using Nil w1 m1(2) f1 by (simp add: s2_def)
  next
    case (Cons d zs)
    have d: "ck_next ?r (of_nat ?a) = of_nat (ca d)" "ok_chunk d" using sg(2) oks Cons by auto
    have cond: "s2 = (if joins ?c d then free_merge (of_nat ?a) (of_nat (ca d)) s1 else s1)"
      using d ok_addr [OF d(2)] lx [of d] Cons len_word_free [OF ok_even [OF d(2)], of "cb d"]
        free_adjacent_joins [of "umem s1" ?c d] l1(1) ok
      by (auto simp: s2_def joins_def ok_chunk_def cend_def)
    show ?thesis
    proof (cases "joins ?c d")
      case True
      from free_merge_list [OF w1 [unfolded Cons] True] obtain s' where s': "free_merge (of_nat ?a) (of_nat (ca d)) s1 = s'"
        "wf_heap (umem s') (ck_list s') (xs @ join ?c d # zs)" "s' = s1\<lparr>umem := umem s'\<rparr>"
        "\<forall>x. x \<notin> region (of_nat ?a) 8 \<longrightarrow> umem s' x = umem s1 x" by auto
      have "s2 = s'" using cond True s'(1) by simp
      moreover have "s' = s\<lparr>umem := umem s'\<rparr>" by (subst s'(3), subst m1(2)) simp
      moreover have "umem s' x = ?r x" if "x \<notin> ?H" for x using s'(4) f1 [OF that] that by (auto simp: headers_def)
      ultimately show ?thesis using s'(2) True Cons by simp
    qed (use cond Cons w1 m1(2) f1 in auto)
  qed
  \<comment> \<open>the chunk before\<close>
  let ?pv = "if xs = [] then 0 else of_nat (ca (last xs)) :: u32"
  have fc: "free_chunk (of_nat ?a) ?pv s = (if ?pv \<noteq> 0 \<and> ck_len (umem s2) ?pv AND CK_ALLOCATED = 0 \<and>
      free_adjacent (umem s2) ?pv (of_nat ?a) then free_merge ?pv (of_nat ?a) s2 else s2)"
    unfolding free_chunk_def Let_def s2_def s1_def ..
  show ?thesis
  proof (cases xs rule: rev_cases)
    case Nil
    then show ?thesis using fc s2 by (intro exI [of _ s2]) (simp add: release_def)
  next
    case (snoc us d)
    obtain e zs where e: "join_next ?c ys = e # zs" "ca e = ?a" "\<not> cb e" 
      using join_next_head [of ?c ys] by auto
    have w2: "wf_heap (umem s2) (ck_list s2) (us @ d # e # zs)" using s2 snoc e(1) by simp
    have d: "ok_chunk d" "ok_chunk e" "ck_len (umem s2) (of_nat (ca d)) = len_word (cl d) (cb d)"
      using w2 by (auto simp: wf_heap_def seg_append wf_chunks_def)
    have cond: "free_chunk (of_nat ?a) ?pv s = (if joins d e then free_merge (of_nat (ca d)) (of_nat (ca e)) s2 else s2)"
      using fc snoc e d ok_addr [OF d(1)] len_word_free [OF ok_even [OF d(1)], of "cb d"] free_adjacent_joins [of "umem s2" d e]
      by (auto simp: joins_def)
    show ?thesis
    proof (cases "joins d e")
      case True
      from free_merge_list [OF w2 True] obtain s' where s': "free_merge (of_nat (ca d)) (of_nat (ca e)) s2 = s'"
        "wf_heap (umem s') (ck_list s') (us @ join d e # zs)" "s' = s2\<lparr>umem := umem s'\<rparr>"
        "\<forall>x. x \<notin> region (of_nat (ca d)) 8 \<longrightarrow> umem s' x = umem s2 x" by auto
      have "s' = s\<lparr>umem := umem s'\<rparr>" by (subst s'(3), subst s2 [THEN conjunct2, THEN conjunct1]) simp
      moreover have "umem s' x = ?r x" if "x \<notin> ?H" for x using s'(4) s2 that snoc by (auto simp: headers_def)
      ultimately show ?thesis using s'(1,2) True cond snoc e by (intro exI [of _ s']) (simp add: release_def)
    next
      case False
      then show ?thesis using s2 cond snoc e w2 by (intro exI [of _ s2]) (simp add: release_def)
    qed
  qed
qed

end
