(* ===== verification/Malloc.thy ===== *)
theory Malloc
  imports MallocInv Kernel
begin

text \<open>
  The contract of the allocator of the user library: \<open>malloc\<close> and \<open>free\<close> keep the heap well formed, hand out and
  take back exactly one block, and leave the contents of every other block alone. The kernel is seen through the
  locale \<open>brk_service\<close>, the promise of the BRK call.
\<close>

unbundle bit_operations_syntax

section \<open>The allocated blocks\<close>

definition blocks :: "chunk list \<Rightarrow> (nat \<times> nat) set" where
  "blocks cs = {(ca c + 8, cl c) | c. c \<in> set cs \<and> cb c}"

definition data_kept :: "chunk list \<Rightarrow> ram \<Rightarrow> ram \<Rightarrow> bool" where
  "data_kept cs r r' \<longleftrightarrow> (\<forall>a l i. (a, l) \<in> blocks cs \<longrightarrow> i < l \<longrightarrow> r' (of_nat (a + i)) = r (of_nat (a + i)))"

definition heap_ok :: "'a ustate_scheme \<Rightarrow> chunk list \<Rightarrow> bool" where
  "heap_ok s cs \<longleftrightarrow> wf_heap (umem s) (ck_list s) cs \<and> cs \<noteq> [] \<and> (\<forall>c \<in> set cs. cend c \<le> unat (libc_brk s))"

lemma blocks_simps [simp]:
  "blocks [] = {}" "blocks (c # cs) = (if cb c then insert (ca c + 8, cl c) (blocks cs) else blocks cs)"
  "blocks (xs @ ys) = blocks xs \<union> blocks ys"
  by (auto simp: blocks_def)

lemma in_blocks: "(a, l) \<in> blocks cs \<Longrightarrow> \<exists>c \<in> set cs. cb c \<and> a = ca c + 8 \<and> l = cl c"
  by (auto simp: blocks_def)

lemma data_keptI:
  "(\<And>d i. d \<in> set cs \<Longrightarrow> cb d \<Longrightarrow> i < cl d \<Longrightarrow> r' (of_nat (ca d + 8 + i)) = r (of_nat (ca d + 8 + i))) \<Longrightarrow> data_kept cs r r'"
  unfolding data_kept_def blocks_def by blast

lemma data_keptD: "data_kept cs r r' \<Longrightarrow> d \<in> set cs \<Longrightarrow> cb d \<Longrightarrow> i < cl d \<Longrightarrow> r' (of_nat (ca d + 8 + i)) = r (of_nat (ca d + 8 + i))"
  unfolding data_kept_def blocks_def by blast

lemma data_kept_trans: "data_kept cs r r1 \<Longrightarrow> data_kept ds r1 r2 \<Longrightarrow> blocks cs \<subseteq> blocks ds \<Longrightarrow> data_kept cs r r2"
  unfolding data_kept_def by (metis subsetD)

lemma wf_apart: "wf_chunks cs \<Longrightarrow> c \<in> set cs \<Longrightarrow> d \<in> set cs \<Longrightarrow> c = d \<or> apart c d"
  by (induction cs) (auto simp: wf_chunks_def intro: apart_sym)

lemma region_iff: "a + n < 2 ^ 32 \<Longrightarrow> x < 2 ^ 32 \<Longrightarrow> (of_nat x :: u32) \<in> region (of_nat a) n \<longleftrightarrow> a \<le> x \<and> x < a + n"
proof
  assume b: "a + n < 2 ^ 32" "x < 2 ^ 32" and "(of_nat x :: u32) \<in> region (of_nat a) n"
  then obtain i where i: "i < n" "(of_nat x :: u32) = of_nat (a + i)" by (auto simp: region_def)
  then show "a \<le> x \<and> x < a + n" using of_nat_u32_inj [of x "a + i"] b by auto
next
  assume "a \<le> x \<and> x < a + n"
  then have "x = a + (x - a)" "x - a < n" by auto
  then show "(of_nat x :: u32) \<in> region (of_nat a) n" by (metis of_nat_add region_offset)
qed

lemma data_not_header:
  assumes "wf_chunks cs" and "c \<in> set cs" and "d \<in> set cs" and "i < cl d"
  shows "of_nat (ca d + 8 + i) \<notin> region (of_nat (ca c)) 8"
proof -
  have ok: "ok_chunk c" "ok_chunk d" and a: "c = d \<or> apart c d" using assms wf_apart by (auto simp: wf_chunks_def)
  then show ?thesis using assms(4) region_iff [of "ca c" 8 "ca d + 8 + i"] ok_bounds [OF ok(1)]
    by (auto simp: ok_chunk_def apart_def cend_def)
qed

lemma data_not_headers:
  "wf_chunks cs \<Longrightarrow> d \<in> set cs \<Longrightarrow> i < cl d \<Longrightarrow> of_nat (ca d + 8 + i) \<notin> headers cs"
  using data_not_header unfolding headers_def by blast

lemma blocks_disjoint:
  assumes "wf_chunks cs" and "(a, l) \<in> blocks cs" and "(b, m) \<in> blocks cs" and "(a, l) \<noteq> (b, m)"
  shows "a + l \<le> b \<or> b + m \<le> a"
proof -
  obtain c d where c: "c \<in> set cs" "a = ca c + 8" "l = cl c" and d: "d \<in> set cs" "b = ca d + 8" "m = cl d"
    using assms(2,3) by (auto simp: blocks_def)
  then have "c \<noteq> d" using assms(4) by auto
  then have "apart c d" using wf_apart [OF assms(1) c(1) d(1)] by simp
  then show ?thesis using c d by (auto simp: apart_def cend_def)
qed

section \<open>Cutting and freeing blocks\<close>

lemma blocks_carve: "\<not> cb c \<Longrightarrow> blocks (xs @ carve n c @ ys) = insert (carved n c + 8, n) (blocks (xs @ c # ys))"
  by (simp add: carve_def carved_def)

lemma in_carve: "d \<in> set (carve n c) \<Longrightarrow> cl c = n \<or> n + 8 \<le> cl c \<Longrightarrow> cend d \<le> cend c"
  by (auto simp: carve_def cend_def split: if_splits)

lemma carve_keeps_data:
  assumes "wf_chunks (xs @ c # ys)" and "wf_chunks (xs @ carve n c @ ys)" and "\<not> cb c"
    and "\<And>x. x \<notin> region (of_nat (ca c)) 8 \<Longrightarrow> x \<notin> region (of_nat (carved n c)) 8 \<Longrightarrow> r' x = r x"
  shows "data_kept (xs @ c # ys) r r'"
proof (rule data_keptI)
  fix d i assume d: "d \<in> set (xs @ c # ys)" "cb d" "i < cl d"
  then have m: "d \<in> set (xs @ carve n c @ ys)" using assms(3) by auto
  have "Chunk (carved n c) n True \<in> set (xs @ carve n c @ ys)" by (auto simp: carve_def carved_def)
  from data_not_header [OF assms(2) this m d(3)] have "of_nat (ca d + 8 + i) \<notin> region (of_nat (carved n c)) 8" by simp
  moreover have "of_nat (ca d + 8 + i) \<notin> region (of_nat (ca c)) 8"
    by (rule data_not_header [OF assms(1) _ d(1,3)]) simp
  ultimately show "r' (of_nat (ca d + 8 + i)) = r (of_nat (ca d + 8 + i))" by (intro assms(4))
qed

lemma set_join_next: "c \<noteq> d \<Longrightarrow> cb d \<Longrightarrow> \<not> cb c \<Longrightarrow> d \<in> set (join_next c ys) \<longleftrightarrow> d \<in> set ys"
  by (cases ys; cases "joins c (hd ys)") (auto simp: join_def joins_def)

lemma set_join_last: "cb d \<Longrightarrow> \<not> cb (hd zs) \<Longrightarrow> zs \<noteq> [] \<Longrightarrow> d \<in> set (join_next c zs) \<longleftrightarrow> d = c \<or> d \<in> set zs"
  by (cases zs; cases "joins c (hd zs)") (auto simp: join_def joins_def)

lemma set_release: "cb d \<Longrightarrow> d \<in> set (release xs c ys) \<longleftrightarrow> d \<in> set (xs @ ys)"
proof -
  assume d: "cb d"
  let ?c = "Chunk (ca c) (cl c) False"
  obtain e zs where e: "join_next ?c ys = e # zs" "ca e = ca c" "\<not> cb e" using join_next_head [of ?c ys] by auto
  have j: "d \<in> set (join_next ?c ys) \<longleftrightarrow> d \<in> set ys" using d by (intro set_join_next) auto
  show ?thesis
  proof (cases xs rule: rev_cases)
    case Nil
    with j show ?thesis by (simp add: release_def)
  next
    case (snoc us l)
    have "d \<in> set (join_next l (e # zs)) \<longleftrightarrow> d = l \<or> d \<in> set (e # zs)" using d e(3) by (intro set_join_last) auto
    with j e(1) snoc show ?thesis by (auto simp: release_def)
  qed
qed

lemma blocks_release:
  assumes "wf_chunks (xs @ c # ys)" and "cb c"
  shows "blocks (release xs c ys) = blocks (xs @ c # ys) - {(ca c + 8, cl c)}"
proof -
  have "ca d \<noteq> ca c" if "d \<in> set (xs @ ys)" for d
    using that assms(1) apart_not_eq [of c d] by (auto simp: wf_chunks_middle)
  then show ?thesis using assms(2) set_release by (auto simp: blocks_def)
qed

lemma cend_release: "(\<forall>d \<in> set (xs @ c # ys). cend d \<le> m) \<Longrightarrow> d \<in> set (release xs c ys) \<Longrightarrow> cend d \<le> m"
proof -
  have j: "(\<forall>d \<in> set zs. cend d \<le> m) \<Longrightarrow> cend b \<le> m \<Longrightarrow> d \<in> set (join_next b zs) \<Longrightarrow> cend d \<le> m" for b zs d
    by (cases zs; cases "joins b (hd zs)") (auto simp: join_def joins_def cend_def)
  assume a: "\<forall>d \<in> set (xs @ c # ys). cend d \<le> m" and d: "d \<in> set (release xs c ys)"
  have r: "e \<in> set (join_next (Chunk (ca c) (cl c) False) ys) \<Longrightarrow> cend e \<le> m" for e
    by (rule j [of ys "Chunk (ca c) (cl c) False"]) (use a in \<open>auto simp: cend_def\<close>)
  show ?thesis
  proof (cases xs rule: rev_cases)
    case Nil
    with d r show ?thesis by (simp add: release_def)
  next
    case (snoc us l)
    have l: "\<forall>e \<in> set (join_next (Chunk (ca c) (cl c) False) ys). cend e \<le> m" "cend l \<le> m" using r a snoc by auto
    have "d \<in> set us \<or> d \<in> set (join_next l (join_next (Chunk (ca c) (cl c) False) ys))"
      using d snoc by (simp add: release_def Let_def)
    then show ?thesis using j [OF l] a snoc by auto
  qed
qed

lemma release_not_Nil: "release xs c ys \<noteq> []"
  by (cases ys; cases "release xs c ys") (auto simp: release_def Let_def split: if_splits elim!: join_next.elims)

text \<open>\<open>free\<close> of an allocated block: exactly that block is gone and the others keep their contents.\<close>

lemma free_ok:
  assumes "heap_ok s cs" and "(a, l) \<in> blocks cs"
  shows "\<exists>s' cs'. libc_free (of_nat a) s = KOk s' \<and> heap_ok s' cs' \<and> blocks cs' = blocks cs - {(a, l)} \<and>
    data_kept cs' (umem s) (umem s') \<and> s' = s\<lparr>umem := umem s'\<rparr>"
proof -
  obtain c where c: "c \<in> set cs" "cb c" "a = ca c + 8" "l = cl c" using assms(2) by (auto simp: blocks_def)
  obtain xs ys where xs: "cs = xs @ c # ys" using c(1) by (meson split_list)
  have w: "wf_heap (umem s) (ck_list s) (xs @ c # ys)" and le: "\<forall>d \<in> set (xs @ c # ys). cend d \<le> unat (libc_brk s)"
    using assms(1) xs by (auto simp: heap_ok_def)
  have sg: "seg (umem s) (ck_list s) (xs @ c # ys) 0" and wf: "wf_chunks (xs @ c # ys)" using w by (auto simp: wf_heap_def)
  have ok: "ok_chunk c" using wf by (simp add: wf_chunks_middle)
  have p: "(of_nat a :: u32) \<noteq> 0" "(of_nat a :: u32) - HEAD_SIZE = of_nat (ca c)"
    using ok c(3) of_nat_u32_inj [of a 0] by (auto simp: ok_chunk_def cend_def HEAD_SIZE_def)
  from free_chunk_list [OF w c(2)] obtain s' where s':
    "free_chunk (of_nat (ca c)) (if xs = [] then 0 else of_nat (ca (last xs))) s = s'"
    "wf_heap (umem s') (ck_list s') (release xs c ys)" "s' = s\<lparr>umem := umem s'\<rparr>"
    "\<forall>x. x \<notin> headers (xs @ c # ys) \<longrightarrow> umem s' x = umem s x" by blast
  have "libc_free (of_nat a) s = KOk s'"
    using p(1) ok_addr [OF ok] by (simp only: libc_free_def p(2) free_find_list [OF sg wf] s'(1) if_True option.case prod.case not_False_eq_True)
  moreover have b: "libc_brk s' = libc_brk s" using arg_cong [OF s'(3), of libc_brk] by simp
  have "heap_ok s' (release xs c ys)" unfolding heap_ok_def b
    using s'(2) cend_release [OF le] release_not_Nil by blast
  moreover have "data_kept (release xs c ys) (umem s) (umem s')"
  proof (rule data_keptI)
    fix d i assume d: "d \<in> set (release xs c ys)" "cb d" "i < cl d"
    then have "d \<in> set (xs @ c # ys)" using set_release [of d xs c ys] by auto
    note data_not_headers [OF wf this d(3)]
    with s'(4) show "umem s' (of_nat (ca d + 8 + i)) = umem s (of_nat (ca d + 8 + i))" by blast
  qed
  moreover have "blocks (release xs c ys) = blocks cs - {(a, l)}" using blocks_release [OF wf c(2)] c xs by simp
  ultimately show ?thesis using s'(3) by blast
qed

section \<open>Growing the heap\<close>

lemma last_chunk_list:
  "seg r p (xs @ [c]) 0 \<Longrightarrow> \<forall>d \<in> set (xs @ [c]). ok_chunk d \<Longrightarrow> last_chunk r p = Some (of_nat (ca c))"
proof (induction xs arbitrary: p)
  case Nil
  then show ?case by (subst last_chunk.simps) (auto simp: Let_def)
next
  case (Cons d xs)
  have sg: "seg r (ck_next r p) (xs @ [c]) 0" using Cons.prems(1) by auto
  have "ck_next r p \<noteq> 0"
  proof (cases xs)
    case Nil
    then show ?thesis using sg Cons.prems(2) ok_addr [of c] by auto
  next
    case (Cons e zs)
    then show ?thesis using sg Cons.prems(2) ok_addr [of e] by auto
  qed
  then show ?case using Cons.IH [OF sg] Cons.prems(2) by (subst last_chunk.simps) simp
qed

lemma append_chunk:
  assumes w: "wf_heap (umem s) (ck_list s) cs" "cs \<noteq> []" and le: "\<forall>c \<in> set cs. cend c \<le> b"
    and b: "b + 8 + l < 2 ^ 32" "4 dvd l"
    and s1: "s1 = set_ck_next (of_nat b) 0 (set_ck_len (of_nat b) (of_nat l) s)"
  shows "\<exists>pch s2. last_chunk (umem s1) (ck_list s1) = Some pch \<and> set_ck_next pch (of_nat b) s1 = s2 \<and>
    wf_heap (umem s2) (ck_list s) (cs @ [Chunk b l False]) \<and> s2 = s\<lparr>umem := umem s2\<rparr> \<and>
    (\<forall>x. x \<notin> headers (cs @ [Chunk b l False]) \<longrightarrow> umem s2 x = umem s x)"
proof -
  obtain xs c where xs: "cs = xs @ [c]" using w(2) by (metis rev_exhaust)
  let ?d = "Chunk b l False" and ?r = "umem s"
  have sg: "seg ?r (ck_list s) cs 0" and wf: "wf_chunks cs" using w(1) by (auto simp: wf_heap_def)
  have oks: "\<forall>e \<in> set cs. ok_chunk e" using wf by (simp add: wf_chunks_def)
  have okd: "ok_chunk ?d" and ap: "\<forall>e \<in> set cs. apart ?d e"
    using b le xs by (auto simp: ok_chunk_def cend_def apart_def)
  have hb: "hsep b b" using b by (simp add: hsep_refl)
  have h: "hsep b (ca e) \<and> ca e \<noteq> b" if "e \<in> set cs" for e
    using that ap oks okd apart_hsep [of ?d e] apart_not_eq [of ?d e] by auto
  have m1: "umem s1 = store32 (store32 ?r (of_nat b) (of_nat l)) (of_nat b + 4) 0" "ck_list s1 = ck_list s" "s1 = s\<lparr>umem := umem s1\<rparr>"
    by (simp_all add: s1 set_ck_next_def set_ck_len_def)
  have "ck_len (umem s1) (of_nat (ca e)) = ck_len ?r (of_nat (ca e)) \<and> ck_next (umem s1) (of_nat (ca e)) = ck_next ?r (of_nat (ca e))"
    if "e \<in> set cs" for e using h [OF that] by (auto simp: m1(1) heads)
  then have sg1: "seg (umem s1) (ck_list s) (xs @ [c]) 0" using sg xs by (auto intro: seg_cong [THEN iffD2])
  have hd: "ck_len (umem s1) (of_nat b) = of_nat l" "ck_next (umem s1) (of_nat b) = 0" using hb by (simp_all add: m1(1) heads)
  have lst: "last_chunk (umem s1) (ck_list s1) = Some (of_nat (ca c))" using last_chunk_list [OF sg1] oks xs m1(2) by simp
  define s2 where "s2 = set_ck_next (of_nat (ca c)) (of_nat b) s1"
  have m2: "umem s2 = store32 (umem s1) (of_nat (ca c) + 4) (of_nat b)" by (simp add: s2_def set_ck_next_def)
  have e2: "s2 = s\<lparr>umem := umem s2\<rparr>" by (simp add: s2_def s1 set_ck_next_def set_ck_len_def)
  have c: "ok_chunk c" "\<forall>e \<in> set xs. apart e c" using xs wf wf_chunks_append [of xs c] oks apart_sym by auto
  have hc: "hsep (ca c) (ca c)" "hsep (ca c) b" "ca c \<noteq> b"
    using h [of c] xs ok_bounds [OF c(1)] by (auto simp: hsep_def)
  have hx: "hsep (ca c) (ca e) \<and> ca c \<noteq> ca e" if "e \<in> set xs" for e
    using that c oks xs apart_hsep [of c e] apart_not_eq [of c e] apart_sym by auto
  have "ck_len (umem s2) (of_nat (ca e)) = ck_len (umem s1) (of_nat (ca e)) \<and> ck_next (umem s2) (of_nat (ca e)) = ck_next (umem s1) (of_nat (ca e))"
    if "e \<in> set xs" for e using hx [OF that] by (auto simp: m2 heads)
  then have "seg (umem s2) (ck_list s) xs (of_nat (ca c))" using sg1 by (auto simp: seg_append intro: seg_cong [THEN iffD2])
  then have "seg (umem s2) (ck_list s) (xs @ [c, ?d]) 0"
    using hd hc sg1 by (auto simp: seg_append m2 heads)
  moreover have "wf_chunks (cs @ [?d])" using wf okd ap by (auto simp: wf_chunks_append)
  ultimately have "wf_heap (umem s2) (ck_list s) (cs @ [?d])" using xs by (simp add: wf_heap_def)
  moreover have "umem s2 x = ?r x" if "x \<notin> headers (cs @ [?d])" for x
  proof -
    have "x \<notin> region (of_nat (ca c)) 8" "x \<notin> region (of_nat b) 8" using that xs by (auto simp: headers_def)
    then have "x \<notin> region (of_nat (ca c) + 4) 4" "x \<notin> region (of_nat b) 4" "x \<notin> region (of_nat b + 4) 4"
      using region_sub [of 4 0 8] region_sub [of 4 4 8] by auto
    then show ?thesis by (simp add: m2 m1(1) store32_outside)
  qed
  ultimately show ?thesis using lst e2 s2_def by blast
qed

section \<open>The promise of the kernel and of the allocator\<close>

text \<open>
  No free chunk that the search would choose is one word larger than the request: cutting such a chunk would put
  the second header over the first.
\<close>

definition fits :: "nat \<Rightarrow> chunk list \<Rightarrow> bool" where
  "fits n cs \<longleftrightarrow> (case find_best n cs None of Some c \<Rightarrow> cl c \<noteq> n + 4 | None \<Rightarrow> n \<noteq> 4084)"

locale brk_service =
  fixes trap :: "('a ustate_scheme) utrap" and ready :: "'a ustate_scheme \<Rightarrow> bool"
  assumes brk_grow: "ready s \<Longrightarrow> unat (libc_brk s) \<le> unat a \<Longrightarrow> unat a \<le> 2 ^ 27 \<Longrightarrow> 4 dvd unat a \<Longrightarrow>
      \<exists>body s'. trap (M_BRK a) 0 s = KOk ((0, body), s') \<and> ck_list s' = ck_list s \<and> libc_brk s' = libc_brk s \<and>
        (\<forall>x. unat x < unat (libc_brk s) \<longrightarrow> umem s' x = umem s x) \<and>
        (if body = 0 then ready (s'\<lparr>libc_brk := a\<rparr>) else ready s')"
    and ready_mem: "ready s \<Longrightarrow> ready (s\<lparr>umem := m\<rparr>)"
    and ready_aligned: "ready s \<Longrightarrow> 4 dvd unat (libc_brk s)"
    and ready_errno: "ready s \<Longrightarrow> ready (s\<lparr>errno := e\<rparr>)"
begin

lemma sbrk_grow:
  assumes "ready s" and "0 < n" and "unat (libc_brk s) + n \<le> 2 ^ 27" and "4 dvd n"
  shows "\<exists>r s'. sbrk trap (of_nat n) s = KOk (r, s') \<and> ready s' \<and> ck_list s' = ck_list s \<and>
    (\<forall>x. unat x < unat (libc_brk s) \<longrightarrow> umem s' x = umem s x) \<and>
    (r = - 1 \<and> libc_brk s' = libc_brk s \<or> r = libc_brk s \<and> libc_brk s' = libc_brk s + of_nat n)"
proof -
  let ?a = "libc_brk s + of_nat n"
  have a: "unat ?a = unat (libc_brk s) + n" using assms(3) by (intro unat_add_of_nat) simp
  have nz: "(of_nat n :: u32) \<noteq> 0" using assms(2,3) of_nat_u32_inj [of n 0] by simp
  have "4 dvd unat ?a" using a assms(4) ready_aligned [OF assms(1)] by simp
  from brk_grow [OF assms(1) _ _ this] a assms(3) obtain body s1 where s1: "trap (M_BRK ?a) 0 s = KOk ((0, body), s1)"
    "ck_list s1 = ck_list s" "libc_brk s1 = libc_brk s" "\<forall>x. unat x < unat (libc_brk s) \<longrightarrow> umem s1 x = umem s x"
    "if body = 0 then ready (s1\<lparr>libc_brk := ?a\<rparr>) else ready s1" by auto
  show ?thesis
  proof (cases "body = 0")
    case True
    then have "sbrk trap (of_nat n) s = KOk (libc_brk s, s1\<lparr>libc_brk := ?a\<rparr>)"
      using s1(1) nz by (simp add: sbrk_def libc_brk_call_def Let_def)
    then show ?thesis using s1 True by (intro exI conjI) (assumption | simp)+
  next
    case False
    then have "sbrk trap (of_nat n) s = KOk (- 1, s1\<lparr>errno := - body\<rparr>)"
      using s1(1) nz by (simp add: sbrk_def libc_brk_call_def Let_def)
    moreover have "ready (s1\<lparr>errno := - body\<rparr>)" using s1(5) False ready_errno by simp
    ultimately show ?thesis using s1 by (intro exI conjI) (assumption | simp)+
  qed
qed

lemma malloc_grow_ok:
  assumes "ready s" and h: "heap_ok s cs" and "4 dvd n" and N: "N = max 4096 (n + 8)" and b: "unat (libc_brk s) + N \<le> 2 ^ 27"
  shows "\<exists>r s'. malloc_grow trap (of_nat n + HEAD_SIZE) s = KOk (r, s') \<and> ready s' \<and> data_kept cs (umem s) (umem s') \<and>
    (r = 0 \<and> heap_ok s' cs \<or>
     r = of_nat (unat (libc_brk s)) \<and> heap_ok s' (cs @ [Chunk (unat (libc_brk s)) (N - 8) False]))"
proof -
  let ?b = "unat (libc_brk s)" and ?d = "Chunk (unat (libc_brk s)) (N - 8) False"
  have bb: "(of_nat ?b :: u32) = libc_brk s" by simp
  have w: "wf_heap (umem s) (ck_list s) cs" "cs \<noteq> []" and le: "\<forall>c \<in> set cs. cend c \<le> ?b" using h by (auto simp: heap_ok_def)
  have ns: "(if of_nat n + HEAD_SIZE > BRK_INCREMENT_MIN then of_nat n + HEAD_SIZE else BRK_INCREMENT_MIN) = (of_nat N :: u32)"
    using b N by (auto simp: HEAD_SIZE_def BRK_INCREMENT_MIN_def word_less_nat_alt unat_word_ariths unat_of_nat max_def)
  have n8: "(of_nat N :: u32) - HEAD_SIZE = of_nat (N - 8)" using N by (simp add: HEAD_SIZE_def of_nat_diff)
  have N0: "0 < N" "4 dvd N - 8" "4 dvd N" using N assms(3) by (auto simp: max_def)
  from sbrk_grow [OF assms(1) N0(1) b N0(3)] obtain r s1 where s1: "sbrk trap (of_nat N) s = KOk (r, s1)" "ready s1"
    "ck_list s1 = ck_list s" "\<forall>x. unat x < ?b \<longrightarrow> umem s1 x = umem s x"
    "r = - 1 \<and> libc_brk s1 = libc_brk s \<or> r = libc_brk s \<and> libc_brk s1 = libc_brk s + of_nat N" by blast
  have below: "umem s1 (of_nat i) = umem s (of_nat i)" if "i < ?b" for i
    using s1(4) that unat_u32_less [of "libc_brk s"] by (simp add: unat_of_nat)
  have hdr: "ck_len (umem s1) (of_nat (ca c)) = ck_len (umem s) (of_nat (ca c)) \<and> ck_next (umem s1) (of_nat (ca c)) = ck_next (umem s) (of_nat (ca c))"
    if "c \<in> set cs" for c
  proof -
    have "ca c + 8 \<le> ?b" using le that by (auto simp: cend_def)
    then have "umem s1 x = umem s x" if m: "x \<in> region (of_nat (ca c)) 8" for x
    proof -
      obtain i where i: "i < 8" "x = of_nat (ca c + i)" using in_region [OF m] by auto
      with \<open>ca c + 8 \<le> ?b\<close> show ?thesis using below [of "ca c + i"] by simp
    qed
    then show ?thesis using region_sub [of 4 0 8 "of_nat (ca c)"] region_sub [of 4 4 8 "of_nat (ca c)"]
      unfolding ck_len_def ck_next_def by (intro conjI load32_cong) auto
  qed
  have w1: "wf_heap (umem s1) (ck_list s1) cs" using w(1) hdr s1(3) seg_cong [of cs "umem s1" "umem s"] by (simp add: wf_heap_def)
  have d1: "data_kept cs (umem s) (umem s1)"
  proof (rule data_keptI)
    fix d i assume "d \<in> set cs" "cb d" "i < cl d"
    then show "umem s1 (of_nat (ca d + 8 + i)) = umem s (of_nat (ca d + 8 + i))"
      using le below [of "ca d + 8 + i"] by (auto simp: cend_def)
  qed
  have m1: "libc_brk s \<noteq> - 1" using b by (auto simp: unat_minus_1_u32)
  show ?thesis
  proof (cases "r = - 1")
    case True
    then have "malloc_grow trap (of_nat n + HEAD_SIZE) s = KOk (0, s1)" using s1(1) ns by (simp add: malloc_grow_def Let_def)
    moreover have "heap_ok s1 cs" using w1 w(2) le s1(5) True m1 by (auto simp: heap_ok_def)
    ultimately show ?thesis using s1(2) d1 by blast
  next
    case False
    then have r: "r = of_nat ?b" "libc_brk s1 = libc_brk s + of_nat N" using s1(5) by auto
    have brk: "unat (libc_brk s1) = ?b + N" using b r(2) by (simp add: unat_add_of_nat)
    define s2 where "s2 = set_ck_next (of_nat ?b) 0 (set_ck_len (of_nat ?b) (of_nat (N - 8)) s1)"
    have "?b + 8 + (N - 8) < 2 ^ 32" using b N by simp
    from append_chunk [OF w1 w(2) le this N0(2) s2_def] obtain pch s3 where
      s3: "last_chunk (umem s2) (ck_list s2) = Some pch" "set_ck_next pch (of_nat ?b) s2 = s3"
      "wf_heap (umem s3) (ck_list s1) (cs @ [?d])" "s3 = s1\<lparr>umem := umem s3\<rparr>"
      "\<forall>x. x \<notin> headers (cs @ [?d]) \<longrightarrow> umem s3 x = umem s1 x" by blast
    have "malloc_grow trap (of_nat n + HEAD_SIZE) s = KOk (r, s3)"
      using s1(1) ns n8 False s3(1,2) r(1) by (simp add: malloc_grow_def Let_def s2_def)
    moreover have "ready s3" using ready_mem [OF s1(2), of "umem s3"] s3(4) by simp
    moreover have "libc_brk s3 = libc_brk s1" "ck_list s3 = ck_list s1"
      using arg_cong [OF s3(4), of libc_brk] arg_cong [OF s3(4), of ck_list] by simp_all
    then have "heap_ok s3 (cs @ [?d])" using s3(3) brk le N by (fastforce simp: heap_ok_def cend_def)
    moreover have "data_kept cs (umem s) (umem s3)"
    proof (rule data_keptI)
      fix d i assume d: "d \<in> set cs" "cb d" "i < cl d"
      have wf3: "wf_chunks (cs @ [?d])" using s3(3) by (simp add: wf_heap_def)
      have "of_nat (ca d + 8 + i) \<notin> headers (cs @ [?d])"
        using data_not_headers [OF wf3 _ d(3)] d(1) by simp
      then show "umem s3 (of_nat (ca d + 8 + i)) = umem s (of_nat (ca d + 8 + i))"
        using s3(5) data_keptD [OF d1 d] by simp
    qed
    ultimately show ?thesis using r(1) by blast
  qed
qed

lemma carve_ok:
  assumes t: "ready t" "heap_ok t ds" and c: "c \<in> set ds" "\<not> cb c" "cl c = n \<or> n + 8 \<le> cl c" and n: "4 dvd n"
  shows "\<exists>p s' cs'. (let (new_ch, s2) = malloc_carve (of_nat n) (of_nat (ca c)) t in KOk (new_ch + HEAD_SIZE, s2)) = KOk (p, s') \<and>
    ready s' \<and> heap_ok s' cs' \<and> data_kept ds (umem t) (umem s') \<and> p \<noteq> 0 \<and> blocks cs' = insert (unat p, n) (blocks ds) \<and>
    (\<forall>m. (unat p, m) \<notin> blocks ds)"
proof -
  obtain xs ys where ds: "ds = xs @ c # ys" using c(1) by (meson split_list)
  have wt: "wf_heap (umem t) (ck_list t) (xs @ c # ys)" and lt: "\<forall>d \<in> set (xs @ c # ys). cend d \<le> unat (libc_brk t)"
    using t(2) ds by (auto simp: heap_ok_def)
  from malloc_carve_list [OF wt c(2) n c(3)] obtain s' where s': "malloc_carve (of_nat n) (of_nat (ca c)) t = (of_nat (carved n c), s')"
    "wf_heap (umem s') (ck_list s') (xs @ carve n c @ ys)" "s' = t\<lparr>umem := umem s'\<rparr>"
    "\<forall>x. x \<notin> region (of_nat (ca c)) 8 \<longrightarrow> x \<notin> region (of_nat (carved n c)) 8 \<longrightarrow> umem s' x = umem t x" by blast
  let ?p = "of_nat (carved n c) + HEAD_SIZE :: u32"
  have wfs: "wf_chunks (xs @ c # ys)" "wf_chunks (xs @ carve n c @ ys)" using wt s'(2) by (auto simp: wf_heap_def)
  have "Chunk (carved n c) n True \<in> set (xs @ carve n c @ ys)" by (auto simp: carve_def carved_def)
  then have okn: "ok_chunk (Chunk (carved n c) n True)" using wfs(2) by (auto simp: wf_chunks_def)
  have p: "?p = of_nat (carved n c + 8)" by (simp add: HEAD_SIZE_def)
  have up: "unat ?p = carved n c + 8" 
  proof -
    have "carved n c + 8 < 2 ^ 32" using okn by (simp add: ok_chunk_def cend_def)
    then show ?thesis unfolding p by (simp add: unat_of_nat del: of_nat_add)
  qed
  have r: "ready s'" using ready_mem [OF t(1), of "umem s'"] s'(3) by simp
  have "libc_brk s' = libc_brk t" using arg_cong [OF s'(3), of libc_brk] by simp
  then have hp: "heap_ok s' (xs @ carve n c @ ys)"
    using s'(2) lt in_carve [OF _ c(3)] by (fastforce simp: heap_ok_def carve_def)
  have dk: "data_kept ds (umem t) (umem s')" unfolding ds by (rule carve_keeps_data [OF wfs c(2)]) (use s'(4) in blast)
  have bl: "blocks (xs @ carve n c @ ys) = insert (unat ?p, n) (blocks ds)" using blocks_carve [OF c(2)] up ds by simp
  have "(unat ?p, m) \<notin> blocks ds" for m
  proof
    assume "(unat ?p, m) \<in> blocks ds"
    then obtain d where d: "d \<in> set ds" "cb d" "ca d = carved n c" using up in_blocks by fastforce
    then have "d \<noteq> c" using c(2) by auto
    then have "apart c d" using wf_apart [OF wfs(1)] d(1) c(1) ds by blast
    then show False using d(3) c(3) by (auto simp: apart_def cend_def carved_def)
  qed
  moreover have "?p \<noteq> 0" using up by auto
  moreover have "(let (new_ch, s2) = malloc_carve (of_nat n) (of_nat (ca c)) t in KOk (new_ch + HEAD_SIZE, s2)) = KOk (?p, s')"
    using s'(1) by simp
  ultimately show ?thesis using r hp dk bl by blast
qed

lemma malloc_ok:
  assumes "ready s" and h: "heap_ok s cs" and sz: "0 < unat sz" and n: "n = 4 * ((unat sz + 3) div 4)"
    and b: "unat (libc_brk s) + max 4096 (n + 8) \<le> 2 ^ 27" and fit: "fits n cs"
  shows "\<exists>p s' cs'. malloc trap sz s = KOk (p, s') \<and> ready s' \<and> heap_ok s' cs' \<and> data_kept cs (umem s) (umem s') \<and>
    (p = 0 \<and> blocks cs' = blocks cs \<and> errno s' = word_of_int ENOMEM \<and> find_best n cs None = None \<or>
     p \<noteq> 0 \<and> unat sz \<le> n \<and> blocks cs' = insert (unat p, n) (blocks cs) \<and> (\<forall>m. (unat p, m) \<notin> blocks cs))"
proof -
  have n4: "4 dvd n" "n < 2 ^ 32" "0 < n" and le: "unat sz \<le> n" using n b sz by auto
  have "unat sz \<le> 2 ^ 27" using le b by simp
  then have u: "unat (ALIGN32 sz) = n" using ALIGN32_unat [of sz] n by simp
  have al: "ALIGN32 sz = of_nat n" unfolding u [symmetric] by simp
  have sz0: "sz \<noteq> 0" using sz by auto
  have w: "wf_heap (umem s) (ck_list s) cs" using h by (simp add: heap_ok_def)
  have sg: "seg (umem s) (ck_list s) cs 0" and oks: "\<forall>c \<in> set cs. ok_chunk c" using w by (auto simp: wf_heap_def wf_chunks_def)
  have fc: "find_chunk (of_nat n) s = Some (case find_best n cs None of None \<Rightarrow> 0 | Some c \<Rightarrow> of_nat (ca c))"
    unfolding find_chunk_def by (rule find_chunk_loop_best [OF sg oks n4(2)]) simp
  show ?thesis
  proof (cases "find_best n cs None")
    case (Some c)
    have c: "c \<in> set cs" "\<not> cb c" "n \<le> cl c" using find_best_sound [OF Some] by auto
    have "ok_chunk c" using c(1) oks by blast
    then have "4 dvd cl c" "of_nat (ca c) \<noteq> (0 :: u32)" using ok_addr by (auto simp: ok_chunk_def)
    moreover have "cl c \<noteq> n + 4" using fit Some by (simp add: fits_def)
    ultimately have "cl c = n \<or> n + 8 \<le> cl c" using c(3) n4(1) by presburger
    from carve_ok [OF assms(1) h c(1,2) this n4(1)] show ?thesis
      using sz0 al fc Some le \<open>of_nat (ca c) \<noteq> (0 :: u32)\<close> by (simp add: malloc_def Let_def)
  next
    case None
    let ?N = "max 4096 (n + 8)" and ?b = "unat (libc_brk s)"
    let ?d = "Chunk ?b (?N - 8) False"
    from malloc_grow_ok [OF assms(1) h n4(1) refl b] obtain r s1 where s1: "malloc_grow trap (of_nat n + HEAD_SIZE) s = KOk (r, s1)"
      "ready s1" "data_kept cs (umem s) (umem s1)" "r = 0 \<and> heap_ok s1 cs \<or> r = of_nat ?b \<and> heap_ok s1 (cs @ [?d])" by blast
    have start: "malloc trap sz s = kbind (malloc_grow trap (of_nat n + HEAD_SIZE) s) (\<lambda>(best_pch, s1).
            if best_pch \<noteq> 0 then
              let (new_ch, s2) = malloc_carve (of_nat n) best_pch s1 in KOk (new_ch + HEAD_SIZE, s2)
            else KOk (0, s1\<lparr>errno := word_of_int ENOMEM\<rparr>))"
      using sz0 al fc None by (simp add: malloc_def Let_def)
    show ?thesis
    proof (cases "r = 0")
      case True
      then have hs: "heap_ok s1 cs"
      proof (cases "r = of_nat ?b \<and> heap_ok s1 (cs @ [?d])")
        case t: True
        then have "ok_chunk ?d" by (simp add: heap_ok_def wf_heap_def wf_chunks_append)
        from ok_addr [OF this] t True show ?thesis by simp
      qed (use s1(4) in blast)
      have "malloc trap sz s = KOk (0, s1\<lparr>errno := word_of_int ENOMEM\<rparr>)" using start s1(1) True by simp
      moreover have "heap_ok (s1\<lparr>errno := word_of_int ENOMEM\<rparr>) cs" using hs by (simp add: heap_ok_def)
      ultimately show ?thesis using s1(2,3) None ready_errno
        by (intro exI [of _ 0] exI [of _ "s1\<lparr>errno := word_of_int ENOMEM\<rparr>"] exI [of _ cs]) simp
    next
      case False
      then have r: "r = of_nat (ca ?d)" "heap_ok s1 (cs @ [?d])" using s1(4) by auto
      have "n \<noteq> 4084" using fit None by (simp add: fits_def)
      then have "cl ?d = n \<or> n + 8 \<le> cl ?d" using n4(1) by (auto simp: max_def elim!: dvdE)
      from carve_ok [OF s1(2) r(2) _ _ this n4(1)] obtain p s' cs' where
        s': "(let (new_ch, s2) = malloc_carve (of_nat n) (of_nat (ca ?d)) s1 in KOk (new_ch + HEAD_SIZE, s2)) = KOk (p, s')"
          "ready s'" "heap_ok s' cs'" "data_kept (cs @ [?d]) (umem s1) (umem s')" "p \<noteq> 0" "blocks cs' = insert (unat p, n) (blocks cs)"
          "\<forall>m. (unat p, m) \<notin> blocks cs" by auto
      have "malloc trap sz s = KOk (p, s')" using start s1(1) False s'(1) r(1) by simp
      moreover have "data_kept cs (umem s) (umem s')" by (rule data_kept_trans [OF s1(3) s'(4)]) simp
      ultimately show ?thesis using s' le by blast
    qed
  qed
qed

end

end
