(* ===== verification/MallocKernel.thy ===== *)
theory MallocKernel
  imports Malloc KernelProps
begin

text \<open>
  The allocator on top of the kernel: the user memory of a process is its window of the physical memory, the BRK
  call is \<open>proc_brk\<close> of proc.c, and it keeps the promise \<open>brk_service\<close> in every state that satisfies the kernel invariant.
\<close>

unbundle bit_operations_syntax

section \<open>A process on the kernel\<close>

record kproc = ustate +
  kern :: kstate

text \<open>
  The memory of process \<open>p\<close> is what the MMU maps: the user writes it, the kernel moves it. Addresses behind the
  window are not memory of the process; the model keeps their value.
\<close>

definition put_window :: "pid \<Rightarrow> kproc \<Rightarrow> kstate" where
  "put_window p s = (kern s)\<lparr>ram := (\<lambda>a. let v = a - mem_ad (desc (kern s) p) in
     if unat v < unat (mem_sz (desc (kern s) p)) then umem s v else ram (kern s) a)\<rparr>"

definition get_window :: "pid \<Rightarrow> kstate \<Rightarrow> ram \<Rightarrow> ram" where
  "get_window p k m = (\<lambda>v. if unat v < unat (mem_sz (desc k p)) then ram k (mem_ad (desc k p) + v) else m v)"

text \<open>The trap, for the one message the allocator sends; the value of the trap is the destination.\<close>

definition brk_trap :: "pid \<Rightarrow> kproc utrap" where
  "brk_trap p m dst s =
     (case m of
        M_BRK a \<Rightarrow> kbind (proc_brk p a (put_window p s)) (\<lambda>(r, k).
          KOk ((dst, word_of_int r), s\<lparr>kern := k, umem := get_window p k (umem s)\<rparr>))
      | _ \<Rightarrow> KFault)"

text \<open>The break of the library and the size the kernel has recorded are in step.\<close>

definition brk_ready :: "pid \<Rightarrow> kproc \<Rightarrow> bool" where
  "brk_ready p s \<longleftrightarrow> kernel_inv (kern s) \<and> user_proc (kern s) p \<and> mem_sz (desc (kern s) p) = libc_brk s \<and>
     4 dvd unat (libc_brk s)"

section \<open>The kernel keeps its promise\<close>

lemma kernel_inv_ram: "kernel_inv s \<Longrightarrow> kernel_inv (s\<lparr>ram := m\<rparr>)"
  unfolding kernel_inv_def by (auto intro: regions_ok_frame)

lemma aligned_same: "4 dvd unat a \<Longrightarrow> unat a \<le> 2 ^ 27 \<Longrightarrow> ALIGN32 a = a"
proof -
  assume a: "4 dvd unat a" "unat a \<le> 2 ^ 27"
  have "unat (ALIGN32 a) = unat a" using ALIGN32_unat [OF a(2)] a(1) by (auto elim!: dvdE)
  from arg_cong [OF this, of "of_nat :: nat \<Rightarrow> u32"] show ?thesis by simp
qed

lemma brk_trap_ok:
  assumes r: "brk_ready p s" and le: "unat (libc_brk s) \<le> unat a" "unat a \<le> 2 ^ 27" and d: "4 dvd unat a"
  shows "\<exists>body s'. brk_trap p (M_BRK a) 0 s = KOk ((0, body), s') \<and> ck_list s' = ck_list s \<and> libc_brk s' = libc_brk s \<and>
     (\<forall>x. unat x < unat (libc_brk s) \<longrightarrow> umem s' x = umem s x) \<and>
     (if body = 0 then brk_ready p (s'\<lparr>libc_brk := a\<rparr>) else brk_ready p s')"
proof -
  let ?k = "put_window p s" and ?d = "desc (kern s) p"
  have inv: "kernel_inv ?k" and u: "user_proc ?k p" and sz: "mem_sz ?d = libc_brk s"
    using r kernel_inv_ram by (auto simp: brk_ready_def put_window_def user_proc_def)
  have p: "p \<in> pids" using u by (simp add: user_proc_def)
  have dk: "proc_table ?k = proc_table (kern s)" by (simp add: put_window_def)
  have win: "ram ?k (mem_ad ?d + x) = umem s x" if "unat x < unat (libc_brk s)" for x
    using that sz by (simp add: put_window_def)
  note rk = regions_okD [OF kernel_invD(3) [OF inv] u, unfolded dk]
  from proc_brk_ok [OF kernel_invD(1) [OF inv] p le(2), unfolded dk] obtain rv ad s1 k' where k':
    "proc_brk p a ?k = KOk (rv, k')" "mem_realloc p (mem_ad ?d) (mem_sz ?d) a ?k = KOk (ad, s1)"
    "if ad = 0 then rv = - ENOMEM \<and> k' = ?k
     else rv = 0 \<and> k' = upd_desc p (\<lambda>d. d\<lparr>pa_msg := pa_msg d - mem_ad d + ad, mem_ad := ad, mem_sz := ALIGN32 a\<rparr>) s1"
    by blast
  define s' where "s' = s\<lparr>kern := k', umem := get_window p k' (umem s)\<rparr>"
  have run: "brk_trap p (M_BRK a) 0 s = KOk ((0, word_of_int rv), s')" using k'(1) by (simp add: brk_trap_def s'_def)
  have inv': "kernel_inv k'" by (rule inv_brk [OF inv u k'(1)])
  show ?thesis
  proof (cases "ad = 0")
    case True
    then have k: "rv = - ENOMEM" "k' = ?k" using k'(3) by auto
    have "umem s' x = umem s x" for x using win sz by (simp add: s'_def k(2) get_window_def dk)
    moreover have "brk_ready p s'" using r inv' u k(2) sz dk by (simp add: brk_ready_def s'_def)
    moreover have "(word_of_int rv :: u32) \<noteq> 0" using k(1) by (simp add: ENOMEM_def)
    ultimately show ?thesis using run by (intro exI [of _ "word_of_int rv"] exI [of _ s']) (simp add: s'_def)
  next
    case False
    then have k: "rv = 0" "k' = upd_desc p (\<lambda>d. d\<lparr>pa_msg := pa_msg d - mem_ad d + ad, mem_ad := ad, mem_sz := ALIGN32 a\<rparr>) s1"
      using k'(3) by auto
    have m: "mem_ad (desc k' p) = ad" "mem_sz (desc k' p) = a" "ram k' = ram s1"
      using aligned_same [OF d le(2)] by (simp_all add: k(2) upd_desc_simps)
    have "umem s' x = umem s x" if x: "unat x < unat (libc_brk s)" for x
    proof -
      have "ram s1 (ad + of_nat (unat x)) = ram ?k (mem_ad ?d + of_nat (unat x))"
        using mem_realloc_moves_data [OF k'(2) False, of "unat x"] rk sz le(1) x by simp
      then show ?thesis using win [OF x] x le(1) m by (simp add: s'_def get_window_def)
    qed
    moreover have "user_proc k' p"
      using u mem_realloc_keeps [OF k'(2)] by (simp add: user_proc_def k(2) upd_desc_simps dk)
    then have "brk_ready p (s'\<lparr>libc_brk := a\<rparr>)" using inv' m d by (simp add: brk_ready_def s'_def)
    ultimately show ?thesis using run k(1) by (intro exI [of _ 0] exI [of _ s']) (simp add: s'_def)
  qed
qed

interpretation kmalloc: brk_service "brk_trap p" "brk_ready p"
  by unfold_locales (use brk_trap_ok in \<open>auto simp: brk_ready_def\<close>)

section \<open>The properties of the allocator\<close>

lemma heap_init_ok:
  assumes "0 < a" and "a + 8 \<le> e" and "e < 2 ^ 32" and "4 dvd e - a - 8" and "e \<le> unat (libc_brk s)"
  shows "heap_ok (mem_heap_init (of_nat a) (of_nat e) s) [Chunk a (e - a - 8) False]"
proof -
  have l: "of_nat e - of_nat a - HEAD_SIZE = (of_nat (e - a - 8) :: u32)" using assms(2) by (simp add: HEAD_SIZE_def of_nat_diff)
  have h: "hsep a a" using assms(2,3) by (simp add: hsep_refl)
  show ?thesis using assms h
    by (simp add: heap_ok_def wf_heap_def wf_chunks_def mem_heap_init_def l set_ck_len_def set_ck_next_def heads ok_chunk_def cend_def)
qed


text \<open>A process of 32 bytes with a heap from address 8 on asks for 8 bytes.\<close>

lemma demo_heap:
  "\<exists>q s. brk_ready q s \<and> heap_ok s [Chunk 8 16 False]"
proof -
  obtain k q where k: "reachable k" "user_proc k q" "mem_sz (desc k q) = 32" using demo_fork by blast
  define s0 where "s0 = (undefined :: kproc)\<lparr>kern := k, libc_brk := 32\<rparr>"
  have r0: "brk_ready q s0" using k reachable_kernel_inv by (simp add: brk_ready_def s0_def)
  let ?s = "mem_heap_init (of_nat 8) (of_nat 32) s0"
  have "heap_ok ?s [Chunk 8 (32 - 8 - 8) False]" by (rule heap_init_ok) (simp_all add: s0_def)
  moreover have "brk_ready q ?s" using r0
    by (simp add: brk_ready_def mem_heap_init_def set_ck_len_def set_ck_next_def)
  ultimately show ?thesis by (intro exI [of _ q] exI [of _ ?s]) simp
qed




section \<open>A chunk one word larger\<close>

text \<open>
  Without \<open>fits\<close> the allocator breaks its own list: a free chunk that is one word larger than the request gets the
  length -4, and the header of the new chunk covers its link.
\<close>

theorem malloc_cuts_too_small:
  assumes "heap_ok s [Chunk a (n + 4) False]" and "0 < n" and "4 dvd n"
  shows "\<exists>s'. malloc_carve (of_nat n) (of_nat a) s = (of_nat (a + 4), s') \<and> ck_len (umem s') (of_nat a) = - 4 \<and>
    ck_next (umem s') (of_nat a) = of_nat (a + 4) \<and> ck_len (umem s') (of_nat (a + 4)) = of_nat (a + 4)"
proof -
  let ?r = "umem s" and ?w = "of_nat n OR CK_ALLOCATED :: u32"
  have w: "ck_len ?r (of_nat a) = of_nat (n + 4)" and ok: "ok_chunk (Chunk a (n + 4) False)"
    using assms(1) by (auto simp: heap_ok_def wf_heap_def wf_chunks_def)
  have bound: "a + 16 < 2 ^ 32" "n < 2 ^ 32" "n + 4 < 2 ^ 32" using ok assms(2,3) by (auto simp: ok_chunk_def cend_def elim!: dvdE)
  have neq: "(of_nat (n + 4) :: u32) \<noteq> of_nat n" using bound of_nat_u32_inj [of "n + 4" n] by simp
  have new: "of_nat a + (of_nat (n + 4) - of_nat n) = (of_nat (a + 4) :: u32)" by simp
  define r1 where "r1 = store32 ?r (of_nat (a + 4)) ?w"
  have n1: "ck_next r1 (of_nat a) = ?w" by (simp add: r1_def ck_next_def load32_store32)
  define r2 where "r2 = store32 r1 (of_nat (a + 8)) ?w"
  have l2: "ck_len r2 (of_nat a) = of_nat (n + 4)"
    using w load_store_nat [of "a + 8" a r1 ?w] load_store_nat [of "a + 4" a ?r ?w] bound
    by (simp add: ck_len_def r2_def r1_def)
  define r3 where "r3 = store32 r2 (of_nat a) (- 4)"
  define r4 where "r4 = store32 r3 (of_nat (a + 4)) (of_nat (a + 4))"
  have "malloc_carve (of_nat n) (of_nat a) s = (of_nat (a + 4), s\<lparr>umem := r4\<rparr>)"
    using w neq new n1 l2
    by (simp add: malloc_carve_def HEAD_SIZE_def set_ck_len_def set_ck_next_def Let_def r4_def r3_def r2_def r1_def add.assoc)
  moreover have "ck_len r4 (of_nat a) = - 4"
    using load_store_nat [of "a + 4" a r3 "of_nat (a + 4)"] bound by (simp add: ck_len_def r4_def r3_def load32_store32)
  moreover have "ck_next r4 (of_nat a) = of_nat (a + 4)" by (simp add: ck_next_def r4_def load32_store32)
  moreover have "ck_len r4 (of_nat (a + 4)) = of_nat (a + 4)" unfolding ck_len_def r4_def by (rule load32_store32)
  ultimately show ?thesis by (intro exI [of _ "s\<lparr>umem := r4\<rparr>"]) simp
qed

end
