(* ===== verification/Stdio.thy ===== *)
theory Stdio
  imports MemBytes CString
begin

text \<open>
  Formatted output: kernel/libc/src/stdio.c and the printing half of lib/libc/src/stdio.c. The functions give the
  characters they put out, in order; the arguments behind the format are a list of words, and a string argument is
  an address in the memory.
\<close>

unbundle bit_operations_syntax

section \<open>Numbers, kernel\<close>

text \<open>\<open>__print_x\<close>; \<open>lu\<close> is the static \<open>_f_lower_upper\<close>, the letter of the digit 10 minus 10.\<close>

definition hex_digit :: "u32 \<Rightarrow> u32 \<Rightarrow> u8" where
  "hex_digit lu x = (let y = x AND 15 in if y \<ge> 10 then ucast (lu + y) else ucast (48 + y))"

lemma unat_shift4_le: "unat (drop_bit 4 x) \<le> unat (x :: u32)"
  by (simp add: unat_drop_bit)

lemma unat_shift4_less: "x AND NOT 15 \<noteq> 0 \<Longrightarrow> unat (drop_bit 4 x) < unat (x :: u32)"
proof -
  assume "x AND NOT 15 \<noteq> 0"
  then have "x \<noteq> 0" by auto
  then have "0 < unat x" by (simp add: unat_gt_0)
  then show ?thesis by (simp add: unat_drop_bit)
qed

function print_x :: "u32 \<Rightarrow> u32 \<Rightarrow> int \<Rightarrow> u8 list" where
  "print_x lu x to_pad =
     (if x AND NOT 15 \<noteq> 0 \<or> to_pad > 0 then print_x lu (drop_bit 4 x) (to_pad - 1) else []) @ [hex_digit lu x]"
  by pat_completeness auto
termination
proof (relation "measure (\<lambda>(lu, x, t). unat x + nat t)")
  fix lu x :: u32 and t :: int
  assume "x AND NOT 15 \<noteq> 0 \<or> 0 < t"
  then show "((lu, drop_bit 4 x, t - 1), lu, x, t) \<in> measure (\<lambda>(lu, x, t). unat x + nat t)"
    using unat_shift4_le [of x] unat_shift4_less [of x] by auto
qed simp

declare print_x.simps [simp del]

definition umod10 :: "u32 \<Rightarrow> u32" where
  "umod10 d = d - push_bit 1 (d div 10 * 5)"

function print_u :: "u32 \<Rightarrow> u8 list" where
  "print_u d = (if d \<ge> 10 then print_u (d div 10) @ [ucast (48 + umod10 d)] else [ucast (48 + d)])"
  by pat_completeness auto
termination
proof (relation "measure unat")
  fix d :: u32 assume "10 \<le> d"
  then have "0 < unat d" by (simp add: word_le_nat_alt)
  then show "(d div 10, d) \<in> measure unat" by (simp add: unat_div)
qed simp

declare print_u.simps [simp del]

section \<open>Numbers, user library\<close>

text \<open>
  The instruction \<open>divu #10\<close>: remainder in the upper and quotient in the lower word, nothing when the quotient
  does not fit.
\<close>

definition divu10 :: "u32 \<Rightarrow> u32" where
  "divu10 nl = (if nl div 10 \<ge> 0x10000 then nl else push_bit 16 (nl mod 10) OR nl div 10)"

definition div10w :: "u16 \<Rightarrow> u16 \<times> u32" where
  "div10w n = (let qr = divu10 (ucast n) in (ucast qr, drop_bit 16 qr))"

definition div10 :: "u32 \<Rightarrow> u32 \<times> u32" where
  "div10 n =
     (if n < 65536 then (let (q, r) = div10w (ucast n) in (ucast q, r))
      else
        let (q1, r1) = div10w (ucast (drop_bit 16 n));
            (q2, r2) = div10w (ucast (push_bit 8 r1 OR drop_bit 8 (n AND 0xffff)));
            (q3, r3) = div10w (ucast (push_bit 8 r2 OR (n AND 0xff)))
        in (push_bit 16 (ucast q1) + push_bit 8 (ucast q2) + ucast q3, r3))"

text \<open>The long division in base 256 is right; both printers of the library stop because of it.\<close>

lemma take_bit_small: "unat q < 2 ^ k \<Longrightarrow> take_bit k q = (q :: 'a::len word)"
proof -
  assume "unat q < 2 ^ k"
  then have "unat (take_bit k q) = unat q" by (simp add: unsigned_take_bit_eq take_bit_nat_eq_self)
  from arg_cong [OF this, of "of_nat :: nat \<Rightarrow> 'a word"] show ?thesis by simp
qed

lemma or_add:
  assumes "unat q < 2 ^ k"
  shows "push_bit k r OR q = push_bit k r + (q :: 'a::len word)"
proof (rule disjunctive_add [symmetric])
  fix n
  have "bit q n \<Longrightarrow> n < k" using take_bit_small [OF assms] by (metis bit_take_bit_iff)
  then show "\<not> bit (push_bit k r) n \<or> \<not> bit q n" by (auto simp: bit_simps)
qed

lemma divu10_small:
  assumes "unat nl < 655360"
  shows "unat (ucast (divu10 nl) :: u16) = unat nl div 10" and "unat (drop_bit 16 (divu10 nl)) = unat nl mod 10"
proof -
  define q where "q = nl div 10"
  define r where "r = nl mod 10"
  have q: "unat q = unat nl div 10" "unat q < 65536" and r: "unat r = unat nl mod 10" "unat r < 10"
    using assms by (simp_all add: q_def r_def unat_div unat_mod)
  have "divu10 nl = push_bit 16 r OR q" using q(2) by (simp add: divu10_def q_def r_def word_le_nat_alt)
  then have d: "divu10 nl = push_bit 16 r + q" using or_add [of q 16 r] q(2) by simp
  have "unat (push_bit 16 r) = unat r * 65536" using r(2) by (simp add: unat_push_bit)
  then have u: "unat (divu10 nl) = unat r * 65536 + unat q" using d q(2) r(2) by (simp add: unat_word_ariths)
  show "unat (ucast (divu10 nl) :: u16) = unat nl div 10" using u q by (simp add: unsigned_ucast_eq take_bit_eq_mod)
  show "unat (drop_bit 16 (divu10 nl)) = unat nl mod 10" using u q r by (simp add: unat_drop_bit)
qed

lemma div10w_unat:
  "unat (fst (div10w n)) = unat n div 10" "unat (snd (div10w n)) = unat n mod 10"
proof -
  have "unat n < 2 ^ LENGTH(16)" by (rule unsigned_less)
  then have u: "unat (ucast n :: u32) < 655360" "unat (ucast n :: u32) = unat n" by (simp_all add: unsigned_ucast_eq take_bit_nat_eq_self)
  show "unat (fst (div10w n)) = unat n div 10" "unat (snd (div10w n)) = unat n mod 10"
    using divu10_small [OF u(1)] u(2) by (simp_all add: div10w_def Let_def)
qed

lemma shift_byte: "unat r < 10 \<Longrightarrow> unat b < 256 \<Longrightarrow> unat (ucast (push_bit 8 r OR b :: u32) :: u16) = unat r * 256 + unat b"
proof -
  assume a: "unat r < 10" "unat b < 256"
  have "unat (push_bit 8 r + b) = unat r * 256 + unat b" using a by (simp add: unat_push_bit unat_word_ariths)
  then show ?thesis using or_add [of b 8 r] a by (simp add: unsigned_ucast_eq take_bit_eq_mod)
qed

lemma unat_word_and_mask: "unat (x AND 0xff :: u32) = unat x mod 256" "unat (x AND 0xffff :: u32) = unat x mod 65536"
proof -
  have "(0xff :: u32) = mask 8" "(0xffff :: u32) = mask 16" by (simp_all add: mask_eq_exp_minus_1)
  then show "unat (x AND 0xff :: u32) = unat x mod 256" "unat (x AND 0xffff :: u32) = unat x mod 65536"
    by (simp_all only: take_bit_eq_mask [symmetric] unsigned_take_bit_eq) (simp_all add: take_bit_eq_mod)
qed

lemma long_division:
  fixes A B C n q1 r1 q2 r2 q3 r3 :: nat
  assumes "n = A * 65536 + B * 256 + C" and "A = 10 * q1 + r1" and "r1 * 256 + B = 10 * q2 + r2" and "r2 * 256 + C = 10 * q3 + r3"
    and "r3 < 10"
  shows "q1 * 65536 + q2 * 256 + q3 = n div 10" and "r3 = n mod 10"
proof -
  have "n = 10 * (q1 * 65536 + q2 * 256 + q3) + r3" using assms(1-4) by simp
  then have n: "n = r3 + 10 * (q1 * 65536 + q2 * 256 + q3)" by simp
  show "q1 * 65536 + q2 * 256 + q3 = n div 10" unfolding n using assms(5) by simp
  show "r3 = n mod 10" unfolding n mod_mult_self2 using assms(5) by simp
qed

lemma three_bytes: "n = n div 65536 * 65536 + n div 256 mod 256 * 256 + n mod 256" for n :: nat
proof -
  have "n mod 65536 = n div 256 mod 256 * 256 + n mod 256" using mod_mult2_eq [of n 256 256] by simp
  moreover have "n = n div 65536 * 65536 + n mod 65536" by simp
  ultimately show ?thesis by simp
qed

lemma div10_unat: "unat (fst (div10 n)) = unat n div 10" "unat (snd (div10 n)) = unat n mod 10"
proof -
  let ?n = "unat n"
  have both: "unat (fst (div10 n)) = ?n div 10 \<and> unat (snd (div10 n)) = ?n mod 10"
  proof (cases "n < 65536")
    case True
    then have s: "?n < 65536" by (simp add: word_less_nat_alt)
    then have u: "unat (ucast n :: u16) = ?n" by (simp add: unsigned_ucast_eq take_bit_nat_eq_self)
    have "unat (fst (div10w (ucast n))) < 2 ^ LENGTH(16)" by (rule unsigned_less)
    then show ?thesis using True u div10w_unat [of "ucast n"]
      by (simp add: div10_def split_beta unsigned_ucast_eq take_bit_nat_eq_self)
  next
    case False
    define a where "a = div10w (ucast (drop_bit 16 n))"
    define b where "b = div10w (ucast (push_bit 8 (snd a) OR drop_bit 8 (n AND 0xffff)))"
    define c where "c = div10w (ucast (push_bit 8 (snd b) OR (n AND 0xff)))"
    have d: "div10 n = (push_bit 16 (ucast (fst a)) + push_bit 8 (ucast (fst b)) + ucast (fst c), snd c)"
      using False by (simp add: div10_def split_beta a_def b_def c_def)
    have n32: "?n < 2 ^ 32" by (rule unat_u32_less)
    have h: "unat (ucast (drop_bit 16 n) :: u16) = ?n div 65536"
      using n32 by (simp add: unsigned_ucast_eq take_bit_eq_mod unat_drop_bit)
    have a: "unat (fst a) = ?n div 65536 div 10" "unat (snd a) = ?n div 65536 mod 10"
      unfolding a_def by (simp_all add: div10w_unat h)
    have m: "unat (drop_bit 8 (n AND 0xffff)) = ?n div 256 mod 256"
      using mod_mult2_eq [of ?n 256 256] by (simp only: unat_drop_bit unat_word_and_mask) simp
    have "unat (ucast (push_bit 8 (snd a) OR drop_bit 8 (n AND 0xffff)) :: u16) = ?n div 65536 mod 10 * 256 + ?n div 256 mod 256"
      using shift_byte [of "snd a" "drop_bit 8 (n AND 0xffff)"] a(2) m by simp
    then have b: "unat (fst b) = (?n div 65536 mod 10 * 256 + ?n div 256 mod 256) div 10"
        "unat (snd b) = (?n div 65536 mod 10 * 256 + ?n div 256 mod 256) mod 10"
      unfolding b_def by (simp_all add: div10w_unat)
    have "unat (ucast (push_bit 8 (snd b) OR (n AND 0xff)) :: u16) =
        (?n div 65536 mod 10 * 256 + ?n div 256 mod 256) mod 10 * 256 + ?n mod 256"
      using shift_byte [of "snd b" "n AND 0xff"] b(2) unat_word_and_mask(1) [of n] by simp
    then have c: "unat (fst c) = ((?n div 65536 mod 10 * 256 + ?n div 256 mod 256) mod 10 * 256 + ?n mod 256) div 10"
        "unat (snd c) = ((?n div 65536 mod 10 * 256 + ?n div 256 mod 256) mod 10 * 256 + ?n mod 256) mod 10"
      unfolding c_def by (simp_all add: div10w_unat)
    have st: "?n div 65536 = 10 * (?n div 65536 div 10) + ?n div 65536 mod 10"
      "?n div 65536 mod 10 * 256 + ?n div 256 mod 256 = 10 * unat (fst b) + unat (snd b)"
      "unat (snd b) * 256 + ?n mod 256 = 10 * unat (fst c) + unat (snd c)" "unat (snd c) < 10"
      by (simp_all only: b c mult_div_mod_eq)
    note q = long_division [OF three_bytes [of ?n] st]
    have "?n div 65536 < 65536" using n32 by simp
    then have "?n div 65536 div 10 < 6554" by simp
    moreover have "?n div 65536 mod 10 < 10" "?n div 256 mod 256 < 256" "?n mod 256 < 256" "unat (snd b) < 10" by (simp_all add: b(2))
    then have "unat (fst b) < 256" "unat (fst c) < 256" using st(2,3) by linarith+
    ultimately have "unat (push_bit 16 (ucast (fst a)) + push_bit 8 (ucast (fst b)) + ucast (fst c) :: u32) =
        ?n div 65536 div 10 * 65536 + unat (fst b) * 256 + unat (fst c)"
      using a(1) by (simp add: unat_word_ariths unat_push_bit unsigned_ucast_eq take_bit_eq_mod)
    then show ?thesis using d q by simp
  qed
  then show "unat (fst (div10 n)) = unat n div 10" "unat (snd (div10 n)) = unat n mod 10" by auto
qed

text \<open>\<open>__print_u\<close> and \<open>__sprint_u\<close> of the library.\<close>

function sprint_u :: "u32 \<Rightarrow> u8 list" where
  "sprint_u d = (if d \<ge> 10 then (let (q, rem) = div10 d in sprint_u q @ [ucast (48 + rem)]) else [ucast (48 + d)])"
  by pat_completeness auto
termination
proof (relation "measure unat")
  fix d q rem :: u32 and x assume "10 \<le> d" "x = div10 d" "(q, rem) = x"
  then show "(q, d) \<in> measure unat" using div10_unat(1) [of d] by (auto simp: word_le_nat_alt dest!: sym [of "(q, rem)"])
qed simp

declare sprint_u.simps [simp del]

section \<open>The format\<close>

datatype fmode = M_FORMAT | M_FLAG

text \<open>
  What one character behind a \<open>%\<close> does: a whole string or single characters are put out and an argument is used up,
  a field width is set, the flag is set, or the character is ignored.
\<close>

datatype fstep = PutS "u8 list" "u32 list" | PutC "u8 list" "u32 list" | Width int | Flag | Unknown

definition null_text :: "u8 list" where "null_text = [40, 110, 117, 108, 108, 41]"

text \<open>
  The \<open>switch (*format)\<close>; \<open>pu\<close> is the decimal printer of the library at hand. \<open>None\<close>: the arguments are used up, or
  a string has no end.
\<close>

definition fmt_switch :: "(u32 \<Rightarrow> u8 list) \<Rightarrow> ram \<Rightarrow> u8 \<Rightarrow> int \<Rightarrow> u32 list \<Rightarrow> fstep option" where
  "fmt_switch pu r c w args =
     (if c = 115 then
        (case args of [] \<Rightarrow> None
         | s # as \<Rightarrow> map_option (\<lambda>t. PutS t as) (if s \<noteq> 0 then ram_str r s else Some null_text))
      else if c = 100 \<or> c = 105 then
        (case args of [] \<Rightarrow> None | d # as \<Rightarrow> Some (PutC (if sint d < 0 then 45 # pu (- d) else pu d) as))
      else if c = 117 then (case args of [] \<Rightarrow> None | x # as \<Rightarrow> Some (PutC (pu x) as))
      else if c = 120 \<or> c = 112 then (case args of [] \<Rightarrow> None | x # as \<Rightarrow> Some (PutC (print_x (97 - 10) x (w - 1)) as))
      else if c = 88 then (case args of [] \<Rightarrow> None | x # as \<Rightarrow> Some (PutC (print_x (65 - 10) x (w - 1)) as))
      else if c = 99 then (case args of [] \<Rightarrow> None | x # as \<Rightarrow> Some (PutC [ucast x] as))
      else if c = 37 then Some (PutC [37] args)
      else if c = 48 then Some Flag
      else if 50 \<le> c \<and> c \<le> 56 then Some (Width (uint c - 48))
      else Some Unknown)"

text \<open>\<open>_my_fprintf\<close> of the kernel: the characters handed to \<open>__putchar\<close>.\<close>

fun kfmt :: "ram \<Rightarrow> u8 list \<Rightarrow> fmode \<Rightarrow> int \<Rightarrow> u32 list \<Rightarrow> u8 list option" where
  "kfmt r [] m w args = Some []"
| "kfmt r (c # f) M_FORMAT w args =
     (if c = 37 then kfmt r f M_FLAG 0 args else map_option ((#) c) (kfmt r f M_FORMAT w args))"
| "kfmt r (c # f) M_FLAG w args =
     (case fmt_switch print_u r c w args of
        None \<Rightarrow> None
      | Some (PutS t as) \<Rightarrow> map_option ((@) t) (kfmt r f M_FORMAT w as)
      | Some (PutC t as) \<Rightarrow> map_option ((@) t) (kfmt r f M_FORMAT w as)
      | Some (Width n) \<Rightarrow> kfmt r f M_FLAG n args
      | Some Flag \<Rightarrow> kfmt r f M_FLAG w args
      | Some Unknown \<Rightarrow> kfmt r f M_FORMAT w args)"

definition kfprintf :: "ram \<Rightarrow> u32 \<Rightarrow> u32 list \<Rightarrow> u8 list option" where
  "kfprintf r fmt args = Option.bind (ram_str r fmt) (\<lambda>f. kfmt r f M_FORMAT 0 args)"

text \<open>
  \<open>vsprintf\<close> of the library: the characters stored from \<open>str\<close> on, with the null byte. The buffer is taken not to
  overlap the format and the string arguments, which are read first here.
\<close>

fun sfmt :: "ram \<Rightarrow> u8 list \<Rightarrow> fmode \<Rightarrow> int \<Rightarrow> u32 list \<Rightarrow> u8 list option" where
  "sfmt r [] m w args = Some []"
| "sfmt r (c # f) M_FORMAT w args =
     (if c = 37 then sfmt r f M_FLAG 0 args else map_option ((#) c) (sfmt r f M_FORMAT w args))"
| "sfmt r (c # f) M_FLAG w args =
     (case fmt_switch sprint_u r c w args of
        None \<Rightarrow> None
      | Some (PutS t as) \<Rightarrow> map_option ((@) t) (sfmt r f M_FORMAT w as)
      | Some (PutC t as) \<Rightarrow> map_option ((@) t) (sfmt r f M_FORMAT w as)
      | Some (Width n) \<Rightarrow> sfmt r f M_FLAG n args
      | Some Flag \<Rightarrow> sfmt r f M_FLAG w args
      | Some Unknown \<Rightarrow> sfmt r f M_FORMAT w args)"

definition vsprintf :: "ram \<Rightarrow> u32 \<Rightarrow> u32 \<Rightarrow> u32 list \<Rightarrow> ram option" where
  "vsprintf r str fmt args =
     Option.bind (ram_str r fmt) (\<lambda>f. map_option (\<lambda>t. put_bytes r str (t @ [0])) (sfmt r f M_FORMAT 0 args))"

text \<open>
  \<open>vfprintf\<close> of the library: the pieces handed to \<open>write\<close>. The text between two conversions is one piece, collected
  from \<open>c_start\<close> on (\<open>chunk\<close>); a number is written digit by digit.
\<close>

fun vfmt :: "ram \<Rightarrow> u8 list \<Rightarrow> fmode \<Rightarrow> int \<Rightarrow> u32 list \<Rightarrow> u8 list \<Rightarrow> u8 list list option" where
  "vfmt r [] m w args chunk = Some (if chunk \<noteq> [] then [chunk] else [])"
| "vfmt r (c # f) M_FORMAT w args chunk =
     (if c = 37 then map_option ((@) (if chunk \<noteq> [] then [chunk] else [])) (vfmt r f M_FLAG 0 args [])
      else vfmt r f M_FORMAT w args (chunk @ [c]))"
| "vfmt r (c # f) M_FLAG w args chunk =
     (case fmt_switch sprint_u r c w args of
        None \<Rightarrow> None
      | Some (PutS t as) \<Rightarrow> map_option ((#) t) (vfmt r f M_FORMAT w as chunk)
      | Some (PutC t as) \<Rightarrow> map_option ((@) (map (\<lambda>x. [x]) t)) (vfmt r f M_FORMAT w as chunk)
      | Some (Width n) \<Rightarrow> vfmt r f M_FLAG n args chunk
      | Some Flag \<Rightarrow> vfmt r f M_FLAG w args chunk
      | Some Unknown \<Rightarrow> vfmt r f M_FORMAT w args chunk)"

definition vfprintf :: "ram \<Rightarrow> u32 \<Rightarrow> u32 list \<Rightarrow> u8 list list option" where
  "vfprintf r fmt args = Option.bind (ram_str r fmt) (\<lambda>f. vfmt r f M_FORMAT 0 args [])"

section \<open>The three printers agree\<close>

lemma print_u_same: "sprint_u d = print_u d"
proof (induction d rule: print_u.induct)
  case (1 d)
  show ?case
  proof (cases "d \<ge> 10")
    case True
    have "unat (fst (div10 d)) = unat (d div 10)" by (simp add: div10_unat unat_div)
    then have q: "fst (div10 d) = d div 10" by (simp add: word_unat_eq_iff)
    have "d - push_bit 1 (d div 10 * 5) = d - d div 10 * 10" by (simp add: push_bit_eq_mult)
    also have "\<dots> = d mod 10" using word_mod_div_equality [of d 10] by (metis add_diff_cancel_left')
    finally have "umod10 d = d mod 10" by (simp add: umod10_def)
    moreover have "unat (snd (div10 d)) = unat (d mod 10)" by (simp add: div10_unat unat_mod)
    then have "snd (div10 d) = d mod 10" by (simp add: word_unat_eq_iff)
    ultimately show ?thesis using 1 [OF True] True q
      by (simp add: print_u.simps [of d] sprint_u.simps [of d] split_beta)
  qed (simp add: print_u.simps [of d] sprint_u.simps [of d])
qed

lemma switch_same: "fmt_switch sprint_u = fmt_switch print_u"
  by (intro ext) (simp add: fmt_switch_def print_u_same cong: if_cong option.case_cong list.case_cong)

lemma sfmt_kfmt: "sfmt r f m w args = kfmt r f m w args"
  by (induction r f m w args rule: kfmt.induct) (simp_all add: switch_same split: option.split fstep.split)

lemma concat_singles: "concat (map (\<lambda>x. [x]) t) = t"
  by (induction t) auto

lemma map_append_Nil: "map_option ((@) []) x = x"
  by (cases x) auto

lemma map_concat:
  "map_option concat v = map_option (\<lambda>a. a) k \<Longrightarrow> map_option (\<lambda>x. t @ concat x) v = map_option ((@) t) k"
  by (cases v; cases k) auto

lemma vfmt_kfmt:
  "(m = M_FLAG \<longrightarrow> chunk = []) \<Longrightarrow> map_option concat (vfmt r f m w args chunk) = map_option ((@) chunk) (kfmt r f m w args)"
proof (induction r f m w args chunk rule: vfmt.induct)
  case (2 r c f w args chunk)
  show ?case
  proof (cases "c = 37")
    case True
    with 2(1) have "kfmt r f M_FLAG 0 args = map_option concat (vfmt r f M_FLAG 0 args [])" by (simp add: option.map_ident)
    then show ?thesis using True by (auto simp: option.map_comp comp_def)
  next
    case False
    with 2(2) show ?thesis by (simp add: option.map_comp comp_def)
  qed
next
  case (3 r c f w args chunk)
  then show ?case
    by (auto simp: switch_same option.map_comp comp_def concat_singles map_concat split: option.split fstep.split)
qed simp

section \<open>Properties\<close>

text \<open>C29. The three formatted printers of the system agree: for every format and all arguments, \<open>vsprintf\<close> of the user
  library stores, and the pieces \<open>vfprintf\<close> writes add up to, exactly the characters the kernel's \<open>fprintf\<close> puts out,
  although the two libraries divide by 10 in different ways; and they fail on the same inputs.\<close>

theorem printers_agree:
  "vsprintf r str fmt args = map_option (\<lambda>t. put_bytes r str (t @ [0])) (kfprintf r fmt args) \<and>
   map_option concat (vfprintf r fmt args) = kfprintf r fmt args"
proof (cases "ram_str r fmt")
  case (Some f)
  then show ?thesis using vfmt_kfmt [of M_FORMAT "[]" r f 0 args]
    by (simp add: vsprintf_def kfprintf_def vfprintf_def sfmt_kfmt map_append_Nil)
qed (simp add: vsprintf_def kfprintf_def vfprintf_def)

lemma digit_cases: "unat (m :: u32) < 10 \<Longrightarrow> m \<in> {0, 1, 2, 3, 4, 5, 6, 7, 8, 9}"
proof -
  assume "unat m < 10"
  then have "unat m \<in> {0, 1, 2, 3, 4, 5, 6, 7, 8, 9}" by auto
  then have "of_nat (unat m) \<in> (of_nat ` {0, 1, 2, 3, 4, 5, 6, 7, 8, 9} :: u32 set)" by blast
  then show ?thesis by simp
qed

lemma digit_char:
  assumes "unat (m :: u32) < 10"
  shows "(ucast (48 + m) :: u8) \<noteq> 0" and "48 \<le> (ucast (48 + m) :: u8)" and "(ucast (48 + m) :: u8) \<le> 57"
    and "ucast (ucast (48 + m) :: u8) - 48 = m"
  using digit_cases [OF assms] by auto

lemma umod10_mod: "umod10 d = d mod 10"
proof -
  have "d - push_bit 1 (d div 10 * 5) = d - d div 10 * 10" by (simp add: push_bit_eq_mult)
  also have "\<dots> = d mod 10" using word_mod_div_equality [of d 10] by (metis add_diff_cancel_left')
  finally show ?thesis by (simp add: umod10_def)
qed

lemma atoi_print_u: "atoi_loop (print_u d @ rest) 0 = atoi_loop rest d"
proof (induction d arbitrary: rest rule: print_u.induct)
  case (1 d)
  show ?case
  proof (cases "d \<ge> 10")
    case True
    have m: "unat (umod10 d) < 10" by (simp add: umod10_mod unat_mod)
    have "atoi_loop (print_u d @ rest) 0 = atoi_loop (ucast (48 + umod10 d) # rest) (d div 10)"
      using 1 [OF True] True by (simp add: print_u.simps [of d])
    also have "\<dots> = atoi_loop rest (d div 10 * 10 + umod10 d)" using digit_char [OF m] by simp
    also have "d div 10 * 10 + umod10 d = d" unfolding umod10_mod by (rule word_mod_div_equality)
    finally show ?thesis .
  next
    case False
    then have "unat d < 10" by (simp add: not_le word_less_nat_alt)
    from digit_char [OF this] False show ?thesis by (simp add: print_u.simps [of d])
  qed
qed

lemma print_u_head: "\<exists>c t. print_u d = c # t \<and> c \<noteq> 45"
proof (induction d rule: print_u.induct)
  case (1 d)
  show ?case
  proof (cases "d \<ge> 10")
    case True
    with 1 [OF True] show ?thesis by (auto simp: print_u.simps [of d])
  next
    case False
    then have "unat d < 10" by (simp add: not_le word_less_nat_alt)
    from digit_char(2) [OF this] False show ?thesis by (auto simp: print_u.simps [of d])
  qed
qed

text \<open>C30. Printing and reading a number: what \<open>%d\<close> puts out for any 32-bit integer, the smallest one included, is read back
  by \<open>atoi\<close> as that integer.\<close>

theorem decimal_roundtrip: "Option.bind (kfmt r [37, 100] M_FORMAT 0 [d]) (\<lambda>t. atoi (t @ [0])) = Some d"
proof (cases "sint d < 0")
  case True
  then have "kfmt r [37, 100] M_FORMAT 0 [d] = Some (45 # print_u (- d))" by (simp add: fmt_switch_def)
  then show ?thesis using atoi_print_u [of "- d" "[0]"] by (simp add: atoi_def)
next
  case False
  then have k: "kfmt r [37, 100] M_FORMAT 0 [d] = Some (print_u d)" by (simp add: fmt_switch_def)
  obtain c t where c: "print_u d = c # t" "c \<noteq> 45" using print_u_head by blast
  have "atoi_loop (c # t @ [0]) 0 = Some (Some d)" using atoi_print_u [of d "[0]"] c(1) by simp
  then show ?thesis using k c by (simp add: atoi_def del: atoi_loop.simps)
qed

end
