(* ===== verification/Keymap.thy ===== *)
theory Keymap
  imports Prelude
begin

text \<open>
  The keyboard layout, software/system/kernel/keymap/fr.c: the character of a PS/2 scan code (its lower
  seven bits) without and with the shift key; 0 is no character, the values from 0xF1 to 0xFC are the function keys.
\<close>

definition ps2_codes_tbl :: "u8 list" where
  "ps2_codes_tbl =
    [0, 249, 247, 245, 243, 241, 242, 252, 0, 250, 248, 246, 244, 9, 0, 0,
     0, 0, 0, 0, 0, 97, 38, 0, 0, 0, 119, 115, 113, 122, 130, 0,
     0, 99, 120, 100, 101, 39, 34, 0, 0, 32, 118, 102, 116, 114, 40, 0,
     0, 110, 98, 104, 103, 121, 45, 0, 0, 0, 44, 106, 117, 138, 95, 0,
     0, 59, 107, 105, 111, 133, 135, 0, 0, 58, 33, 108, 109, 112, 41, 0,
     0, 0, 151, 0, 94, 61, 0, 0, 0, 0, 10, 36, 0, 42, 0, 0,
     0, 60, 0, 0, 0, 0, 8, 0, 0, 0, 0, 0, 0, 0, 0, 0,
     0, 0, 0, 0, 0, 0, 27, 0, 251, 0, 0, 0, 0, 0, 0, 0]"

definition ps2_codes_shifted_tbl :: "u8 list" where
  "ps2_codes_shifted_tbl =
    [0, 0, 0, 0, 0, 0, 0, 0, 0, 0, 0, 0, 0, 0, 0, 0,
     0, 0, 0, 0, 0, 65, 49, 0, 0, 0, 87, 83, 81, 90, 50, 0,
     0, 67, 88, 68, 69, 52, 51, 0, 0, 32, 86, 70, 84, 82, 53, 0,
     0, 78, 66, 72, 71, 89, 54, 0, 0, 0, 63, 74, 85, 55, 56, 0,
     0, 46, 75, 73, 79, 48, 57, 0, 0, 47, 159, 76, 77, 80, 248, 0,
     0, 0, 37, 0, 34, 43, 0, 0, 0, 0, 10, 156, 0, 230, 0, 0,
     0, 62, 0, 0, 0, 0, 8, 0, 0, 0, 0, 0, 0, 0, 0, 0,
     0, 0, 0, 0, 0, 0, 27, 0, 0, 0, 0, 0, 0, 0, 0, 0]"

lemma length_ps2_tables [simp]: "length ps2_codes_tbl = 128" "length ps2_codes_shifted_tbl = 128"
  by (simp_all add: ps2_codes_tbl_def ps2_codes_shifted_tbl_def)

end
