(* ===== verification/Tty.thy ===== *)
theory Tty
  imports Keymap Proc Vnode Errno
begin

text \<open>
  The terminal driver, software/system/kernel/tty.c: four terminals with an input ring each, the text
  screen and its cursor, the display lists sent to the graphics processor, the PS/2 keyboard interrupt and one
  turn of the task. A pointer to a terminal is its index in \<open>_tty_table\<close>. The display list under
  construction is the list of its words (\<open>_gpu_pdl\<close> points behind the last one); \<open>gpu_run\<close> collects the
  lists handed to the graphics processor. The processor itself, the RAMDAC and the load of the FPGA are hardware and
  not modelled.
\<close>

section \<open>State\<close>

definition K_TTY_COUNT :: nat where "K_TTY_COUNT = 4"
definition K_TTY_CBLK_MS :: u32 where "K_TTY_CBLK_MS = 1000"
definition TTY_COLS :: nat where "TTY_COLS = 80"
definition TTY_ROWS :: nat where "TTY_ROWS = 48"
definition SPCH :: nat where "SPCH = 512"
definition CSZY :: nat where "CSZY = 10"
definition FONT_ADDR :: u16 where "FONT_ADDR = 0x7400"
definition FB_ADDR :: u32 where "FB_ADDR = 0x20000"
definition TTY_FLAG_ECHO :: u16 where "TTY_FLAG_ECHO = 1"
definition TTY_FLAG_CURSOR :: u16 where "TTY_FLAG_CURSOR = 2"
definition TTY_IOCTL_KBD_POS :: u32 where "TTY_IOCTL_KBD_POS = 1"
definition TTY_IOCTL_SET_FLAGS :: u32 where "TTY_IOCTL_SET_FLAGS = 2"

lemmas tty_consts = K_TTY_COUNT_def TTY_COLS_def TTY_ROWS_def SPCH_def CSZY_def FONT_ADDR_def FB_ADDR_def

definition ROLL_FB :: "u32 \<Rightarrow> u32" where
  "ROLL_FB ad = (ad AND (FB_ADDR - 1)) + FB_ADDR"

record tty_attr =
  i_buf :: "u16 list"
  i_wp :: u8
  i_rp :: u8
  i_dp :: u8
  i_nline :: u8
  screen :: "u16 list"
  px :: u8
  py :: u8
  ptoggle :: u8
  tty_flags :: u16

record tty =
  tty_table :: "tty_attr list"
  tty_ptr :: nat
  tty_pid :: pid
  tty_fb_addr :: u32
  gpu_pdl :: "u16 list"
  gpu_run :: "u16 list list"
  kbd_extended :: u8
  kbd_break :: u8
  kbd_shifted :: u8
  kbd_ctrled :: u8
  kbd_alted :: u8
  kbd_keys_pos :: "u8 list"

definition upd_tty :: "nat \<Rightarrow> (tty_attr \<Rightarrow> tty_attr) \<Rightarrow> tty \<Rightarrow> tty" where
  "upd_tty i f t = t\<lparr>tty_table := (tty_table t)[i := f (tty_table t ! i)]\<rparr>"

section \<open>Display lists\<close>

definition dl_emit :: "u16 list \<Rightarrow> tty \<Rightarrow> tty" where
  "dl_emit ws t = t\<lparr>gpu_pdl := gpu_pdl t @ ws\<rparr>"

definition gpu_set_fb_addr :: "tty \<Rightarrow> tty" where
  "gpu_set_fb_addr t =
     (let ad = tty_fb_addr t
      in dl_emit [ucast (ad AND 0x7fff), ucast (0x8000 OR (drop_bit 6 ad AND 0x0600) OR 0x100 OR push_bit 4 4 OR 8)] t)"

definition fb_cell :: "u32 \<Rightarrow> nat \<Rightarrow> nat \<Rightarrow> u32" where
  "fb_cell fb x y = ROLL_FB (fb + of_nat (y * (CSZY div 2 * SPCH)) + of_nat (x * 4))"

definition gpu_draw :: "u8 \<Rightarrow> u8 \<Rightarrow> u8 \<Rightarrow> u8 \<Rightarrow> tty \<Rightarrow> tty" where
  "gpu_draw x y c lut t =
     (let src = FONT_ADDR + ucast c * 10; dst = fb_cell (tty_fb_addr t) (unat x) (unat y)
      in dl_emit [src, 0x8000 OR push_bit 4 4, 0xc000 OR push_bit 4 3,
           ucast (dst AND 0x7fff), ucast (0x8000 OR drop_bit 6 (dst AND 0x78000) OR push_bit 4 4),
           0xc000 OR push_bit 9 1 OR push_bit 8 1 OR push_bit 4 3 OR ((ucast lut AND 1) OR 8)] t)"

fun gpu_clear_cells :: "nat \<Rightarrow> u32 \<Rightarrow> tty \<Rightarrow> tty" where
  "gpu_clear_cells 0 dst t = t"
| "gpu_clear_cells (Suc n) dst t =
     gpu_clear_cells n (dst + 4)
       (dl_emit [ucast (dst AND 0x7fff), ucast (0x8000 OR drop_bit 6 (dst AND 0x78000) OR push_bit 4 4),
          0xc000 OR push_bit 9 1 OR push_bit 8 1 OR push_bit 4 3 OR 8] t)"

definition gpu_clear_line :: "nat \<Rightarrow> tty \<Rightarrow> tty" where
  "gpu_clear_line y t =
     gpu_clear_cells TTY_COLS (fb_cell (tty_fb_addr t) 0 y) (dl_emit [FONT_ADDR, 0xc000 OR push_bit 4 3] t)"

text \<open>Waiting for the graphics processor is not modelled.\<close>

definition gpu_start_dl :: "tty \<Rightarrow> tty" where
  "gpu_start_dl t = t\<lparr>gpu_pdl := []\<rparr>"

definition gpu_flush_dl :: "tty \<Rightarrow> tty" where
  "gpu_flush_dl t =
     (if gpu_pdl t = [] then t
      else t\<lparr>gpu_run := gpu_run t @ [gpu_pdl t @ [0x8000 OR 0x0100 OR push_bit 4 4]], gpu_pdl := []\<rparr>)"

section \<open>Writing a character\<close>

text \<open>A store into \<open>screen\<close>; an index outside the array is a fault.\<close>

definition screen_set :: "nat \<Rightarrow> u16 \<Rightarrow> u16 list \<Rightarrow> u16 list kres" where
  "screen_set k v scr = (if k < length scr then KOk (scr[k := v]) else KFault)"

fun screen_clear :: "nat list \<Rightarrow> u8 \<Rightarrow> u16 list \<Rightarrow> u16 list kres" where
  "screen_clear [] y scr = KOk scr"
| "screen_clear (x # xs) y scr = kbind (screen_set (x + unat y * TTY_COLS) 0 scr) (screen_clear xs y)"

fun screen_scroll :: "nat list \<Rightarrow> u16 list \<Rightarrow> u16 list kres" where
  "screen_scroll [] scr = KOk scr"
| "screen_scroll (ch # chs) scr =
     (if ch + TTY_COLS < length scr then kbind (screen_set ch (scr ! (ch + TTY_COLS)) scr) (screen_scroll chs) else KFault)"

text \<open>What happens to a terminal, and to the display when the terminal is the visible one.\<close>

definition tty_putc :: "nat \<Rightarrow> u8 \<Rightarrow> tty \<Rightarrow> tty kres" where
  "tty_putc i c t =
     (let pt = tty_table t ! i; live = (i = tty_ptr t) in
      if c = 10 then
        let t1 = (if live then gpu_draw (px pt) (py pt) 32 0 t else t);
            t2 = upd_tty i (\<lambda>p. p\<lparr>px := 0\<rparr>) t1
        in if unat (py pt) < TTY_ROWS - 1 then
             kbind (screen_clear [0..<TTY_COLS] (py pt + 1) (screen pt)) (\<lambda>scr.
             let t3 = upd_tty i (\<lambda>p. p\<lparr>py := py pt + 1, screen := scr\<rparr>) t2;
                 t4 = (if live then gpu_clear_line (unat (py pt + 1)) t3 else t3)
             in KOk (if live then gpu_flush_dl t4 else t4))
           else
             kbind (screen_scroll [0..<TTY_COLS * (TTY_ROWS - 1)] (screen pt)) (\<lambda>scr1.
             kbind (screen_clear [0..<TTY_COLS] (py pt) scr1) (\<lambda>scr2.
             let t3 = upd_tty i (\<lambda>p. p\<lparr>screen := scr2\<rparr>) t2;
                 t4 = (if live then gpu_clear_line TTY_ROWS t3 else t3);
                 t5 = gpu_set_fb_addr (t4\<lparr>tty_fb_addr := ROLL_FB (tty_fb_addr t4 + of_nat (CSZY div 2 * SPCH))\<rparr>)
             in KOk (if live then gpu_flush_dl t5 else t5)))
      else
        kbind (screen_set (unat (px pt) + unat (py pt) * TTY_COLS) (ucast c) (screen pt)) (\<lambda>scr.
        let t1 = upd_tty i (\<lambda>p. p\<lparr>screen := scr\<rparr>) t;
            t2 = (if live then gpu_draw (px pt) (py pt) c 0 t1 else t1)
        in KOk (if unat (px pt) < TTY_COLS - 1 then upd_tty i (\<lambda>p. p\<lparr>px := px pt + 1\<rparr>) t2 else t2)))"

definition tty_putchar :: "int \<Rightarrow> tty \<Rightarrow> (int \<times> tty) kres" where
  "tty_putchar c t = kbind (tty_putc (tty_ptr t) (word_of_int c) t) (\<lambda>t'. KOk (c, t'))"

fun gpu_redraw_row :: "nat list \<Rightarrow> nat \<Rightarrow> tty \<Rightarrow> tty" where
  "gpu_redraw_row [] y t = t"
| "gpu_redraw_row (x # xs) y t =
     gpu_redraw_row xs y (gpu_draw (of_nat x) (of_nat y) (ucast (screen (tty_table t ! tty_ptr t) ! (x + y * TTY_COLS))) 0 t)"

fun gpu_redraw_rows :: "nat list \<Rightarrow> tty \<Rightarrow> tty" where
  "gpu_redraw_rows [] t = t"
| "gpu_redraw_rows (y # ys) t = gpu_redraw_rows ys (gpu_flush_dl (gpu_redraw_row [0..<TTY_COLS] y (gpu_start_dl t)))"

definition gpu_redraw :: "tty \<Rightarrow> tty" where
  "gpu_redraw t = gpu_redraw_rows [0..<TTY_ROWS] t"

section \<open>Initialisation\<close>

definition zero_tty :: tty_attr where
  "zero_tty = \<lparr>i_buf = replicate 256 0, i_wp = 0, i_rp = 0, i_dp = 0, i_nline = 0,
     screen = replicate (TTY_COLS * TTY_ROWS) 0, px = 0, py = 0, ptoggle = 0, tty_flags = 0\<rparr>"

definition tty_init :: "pid \<Rightarrow> tty \<Rightarrow> tty" where
  "tty_init self t =
     t\<lparr>tty_table := replicate K_TTY_COUNT (zero_tty\<lparr>py := 1, tty_flags := TTY_FLAG_ECHO OR TTY_FLAG_CURSOR\<rparr>),
       tty_ptr := 0, tty_pid := self, kbd_shifted := 0, kbd_ctrled := 0, kbd_alted := 0, kbd_break := 0,
       kbd_extended := 0, kbd_keys_pos := replicate 16 0\<rparr>"

text \<open>The names \<open>tty0\<close> to \<open>tty3\<close>.\<close>

fun tty_register :: "nat list \<Rightarrow> pid \<Rightarrow> devtab \<Rightarrow> devtab kres" where
  "tty_register [] self ds = KOk ds"
| "tty_register (n # ns) self ds =
     kbind (dev_register_char [116, 116, 121, 48 + of_nat n, 0, 0] (word_of_int self) (of_nat n) ds) (\<lambda>(_, ds1).
     tty_register ns self ds1)"

definition tty_setup_fb :: "tty \<Rightarrow> tty" where
  "tty_setup_fb t = gpu_redraw (gpu_set_fb_addr (t\<lparr>tty_fb_addr := FB_ADDR, gpu_pdl := []\<rparr>))"

text \<open>The copy of the font into the video memory: 256 times two words of 32 bits.\<close>

definition tty_load_font :: "u32 \<Rightarrow> u32 \<Rightarrow> ram \<Rightarrow> ram" where
  "tty_load_font src vram r = memcpy32 r (vram + ucast FONT_ADDR) src (256 * 2)"

section \<open>The keyboard interrupt\<close>

definition kbd_pos_update :: "u8 \<Rightarrow> bool \<Rightarrow> u8 list \<Rightarrow> u8 list" where
  "kbd_pos_update code brk ks =
     (let k = unat (drop_bit 3 (code AND 0x7F)); m = push_bit (unat (code AND 7)) 1
      in ks[k := (if brk then ks ! k AND NOT m else ks ! k OR m)])"

text \<open>The decoder: the key the code stands for (0 is none), and whether CTRL-ALT-DEL has been pressed.\<close>

definition kbd_decode :: "u8 \<Rightarrow> tty \<Rightarrow> u8 \<times> bool \<times> tty" where
  "kbd_decode code t =
     (if code = 0xE0 then (0, False, t\<lparr>kbd_extended := 1\<rparr>)
      else if code = 0xF0 then (0, False, t\<lparr>kbd_break := 1\<rparr>)
      else
        let t1 = t\<lparr>kbd_keys_pos := kbd_pos_update code (kbd_break t \<noteq> 0) (kbd_keys_pos t)\<rparr>;
            (key, reboot, t2) =
              (if code = 0x12 \<or> code = 0x59 then (0, False, t1\<lparr>kbd_shifted := 1 - kbd_break t\<rparr>)
               else if code = 0x14 then (0, False, t1\<lparr>kbd_ctrled := 1 - kbd_break t\<rparr>)
               else if code = 0x11 then (0, False, t1\<lparr>kbd_alted := 1 - kbd_break t\<rparr>)
               else if kbd_break t = 0 then
                 ((if kbd_shifted t \<noteq> 0 then ps2_codes_shifted_tbl else ps2_codes_tbl) ! unat (code AND 0x7F),
                  kbd_ctrled t \<noteq> 0 \<and> kbd_alted t \<noteq> 0 \<and> code = 0x71, t1)
               else (0, False, t1))
        in (key, reboot, t2\<lparr>kbd_break := 0, kbd_extended := 0\<rparr>))"

text \<open>
  The store into the ring. The test for a full ring is computed as an \<open>int\<close>: the sum is 256, not 0, when
  the write pointer is 255.
\<close>

definition ring_has_room :: "tty_attr \<Rightarrow> bool" where
  "ring_has_room pt \<longleftrightarrow> unat (i_wp pt) + 1 \<noteq> unat (i_rp pt)"

definition ring_put :: "u8 \<Rightarrow> tty_attr \<Rightarrow> tty_attr" where
  "ring_put key pt = pt\<lparr>i_buf := (i_buf pt)[unat (i_wp pt) := ucast key], i_wp := i_wp pt + 1\<rparr>"

definition keyboard_interrupt :: "u8 \<Rightarrow> tty \<times> 'a kstate_scheme \<Rightarrow> (tty \<times> 'a kstate_scheme) kres" where
  "keyboard_interrupt code x =
     (let (key, reboot, t) = kbd_decode code (fst x) in
      kbind (if reboot then proc_sig PROC_PID_SYSTEM_TASK SIGALRM (snd x) else KOk (snd x)) (\<lambda>s.
      if key \<noteq> 0 \<and> ring_has_room (tty_table t ! tty_ptr t) then
        kbind (proc_sig (tty_pid t) SIGALRM s) (\<lambda>s1. KOk (upd_tty (tty_ptr t) (ring_put key) t, s1))
      else KOk (t, s)))"

section \<open>The task\<close>

text \<open>DEV_WRITE: the bytes from the address \<open>p\<close> on, one after the other.\<close>

fun tty_write_loop :: "ram \<Rightarrow> nat \<Rightarrow> u32 \<Rightarrow> nat \<Rightarrow> tty \<Rightarrow> tty kres" where
  "tty_write_loop r i p 0 t = KOk t"
| "tty_write_loop r i p (Suc n) t = kbind (tty_putc i (r p) t) (tty_write_loop r i (p + 1) n)"

text \<open>DEV_READ: at most 256 turns, because the read pointer counts up to the write pointer in eight bits.\<close>

fun tty_read_loop :: "nat \<Rightarrow> u32 \<Rightarrow> u32 \<Rightarrow> nat \<Rightarrow> tty_attr \<times> ram \<Rightarrow> (nat \<times> tty_attr \<times> ram) kres" where
  "tty_read_loop 0 cnt dst n x = (if i_rp (fst x) = i_wp (fst x) then KOk (n, x) else KHang)"
| "tty_read_loop (Suc fuel) cnt dst n x =
     (let pt = fst x; r = snd x in
      if i_rp pt = i_wp pt then KOk (n, x)
      else
        let c = ucast (i_buf pt ! unat (i_rp pt)) :: u8; pt1 = pt\<lparr>i_rp := i_rp pt + 1\<rparr>; r1 = r(dst := c) in
        if c = 10 then KOk (n + 1, pt1\<lparr>i_nline := i_nline pt1 - 1\<rparr>, r1)
        else if of_nat (n + 1) = cnt then KOk (n + 1, pt1, r1)
        else tty_read_loop fuel cnt (dst + 1) (n + 1) (pt1, r1))"

definition tty_read :: "u32 \<Rightarrow> u32 \<Rightarrow> tty_attr \<times> ram \<Rightarrow> (nat \<times> tty_attr \<times> ram) kres" where
  "tty_read dst cnt x = (if i_nline (fst x) \<noteq> 0 \<and> cnt \<noteq> 0 then tty_read_loop 256 cnt dst 0 x else KOk (0, x))"

text \<open>The refresh on an event: what has been typed is echoed and the lines are counted; again at most 256 turns.\<close>

definition tty_refresh_one :: "tty \<Rightarrow> tty kres" where
  "tty_refresh_one t =
     (let i = tty_ptr t; pt = tty_table t ! i; c = ucast (i_buf pt ! unat (i_dp pt)) :: u8;
          t1 = upd_tty i (\<lambda>p. p\<lparr>i_dp := i_dp p + 1\<rparr>) t
      in kbind (if c AND 0x80 = 0 \<and> tty_flags pt AND TTY_FLAG_ECHO \<noteq> 0 then tty_putc i c t1 else KOk t1) (\<lambda>t2.
         KOk (if c = 10 then upd_tty i (\<lambda>p. p\<lparr>i_nline := i_nline p + 1\<rparr>) t2 else t2)))"

fun tty_refresh :: "nat \<Rightarrow> tty \<Rightarrow> tty kres" where
  "tty_refresh 0 t =
     (let pt = tty_table t ! tty_ptr t in if i_dp pt = i_wp pt then KOk t else KHang)"
| "tty_refresh (Suc fuel) t =
     (let pt = tty_table t ! tty_ptr t
      in if i_dp pt = i_wp pt then KOk t else kbind (tty_refresh_one t) (tty_refresh fuel))"

text \<open>
  What the task sends: an answer to a request, or \<open>SLEEP\<close> to the clock. \<open>TTY_EXIT\<close>: the \<open>break\<close> on a
  message of a user process leaves the loop of the task.
\<close>

datatype tty_out = TTY_ANS pid int | TTY_SLEEP u32 | TTY_EXIT

definition minor_tty :: "u16 \<Rightarrow> nat option" where
  "minor_tty m = (if unat m < K_TTY_COUNT then Some (unat m) else None)"

fun tty_request :: "pid \<Rightarrow> dev_request \<Rightarrow> tty \<times> 'a kstate_scheme \<Rightarrow> (tty_out list \<times> bool \<times> tty \<times> 'a kstate_scheme) kres" where
  "tty_request src (DEV_OPEN mi fl) (t, s) = KOk ([TTY_ANS src 0], False, t, s)"
| "tty_request src (DEV_CLOSE mi) (t, s) = KOk ([TTY_ANS src 0], False, t, s)"
| "tty_request src (DEV_WRITE mi seek p cnt) (t, s) =
     (case minor_tty mi of
        None \<Rightarrow> KOk ([TTY_ANS src (- EBADF)], False, t, s)
      | Some i \<Rightarrow>
          kbind (tty_write_loop (ram s) i p (unat cnt) (gpu_start_dl t)) (\<lambda>t1.
          KOk ([TTY_ANS src (sint cnt)], True, t1, s)))"
| "tty_request src (DEV_READ mi seek dst cnt) (t, s) =
     (case minor_tty mi of
        None \<Rightarrow> KOk ([TTY_ANS src (- EBADF)], False, t, s)
      | Some i \<Rightarrow>
          kbind (tty_read dst cnt (tty_table t ! i, ram s)) (\<lambda>(n, pt, r).
          KOk ([TTY_ANS src (int n)], False, upd_tty i (\<lambda>_. pt) t, s\<lparr>ram := r\<rparr>)))"
| "tty_request src (DEV_IOCTL mi p req ptr) (t, s) =
     (case minor_tty mi of
        None \<Rightarrow> KOk ([TTY_ANS src (- EBADF)], False, t, s)
      | Some i \<Rightarrow>
          if req = TTY_IOCTL_KBD_POS then
            kbind (va_to_pa p ptr 16 s) (\<lambda>pa.
            if pa \<noteq> 0 then KOk ([TTY_ANS src 0], False, t, s\<lparr>ram := put_bytes (ram s) pa (kbd_keys_pos t)\<rparr>)
            else KOk ([TTY_ANS src EFAULT], False, t, s))
          else if req = TTY_IOCTL_SET_FLAGS then
            KOk ([TTY_ANS src 0], False, upd_tty i (\<lambda>p. p\<lparr>tty_flags := ucast ptr\<rparr>) t, s)
          else KOk ([TTY_ANS src EINVAL], False, t, s))"

text \<open>The end of a turn: the cursor of the visible terminal.\<close>

definition tty_cursor :: "bool \<Rightarrow> bool \<Rightarrow> tty \<Rightarrow> tty_out list \<times> tty" where
  "tty_cursor reset draw t =
     (let t1 = (if reset then upd_tty (tty_ptr t) (\<lambda>p. p\<lparr>ptoggle := 1\<rparr>) t else t);
          d = (reset \<or> draw); pt = tty_table t1 ! tty_ptr t1;
          t2 = (if d \<and> tty_flags pt AND TTY_FLAG_CURSOR \<noteq> 0 then gpu_draw (px pt) (py pt) 32 (ptoggle pt) t1 else t1)
      in (if d then [TTY_SLEEP (K_TTY_CBLK_MS div 2)] else [], gpu_flush_dl t2))"

text \<open>A signal: keyboard input or the timer of the cursor.\<close>

definition tty_event :: "tty \<Rightarrow> (tty_out list \<times> tty) kres" where
  "tty_event t =
     (let pt = tty_table t ! tty_ptr t; pending = (i_dp pt \<noteq> i_wp pt) in
      kbind (tty_refresh 256 (gpu_start_dl t)) (\<lambda>t1.
      KOk (tty_cursor pending True (upd_tty (tty_ptr t1) (\<lambda>p. p\<lparr>ptoggle := 1 - ptoggle p\<rparr>) t1))))"

text \<open>
  One turn of the loop on what \<open>receive\<close> returned; a message with an unknown type is \<open>None\<close>. The request is
  taken from the message by the caller.
\<close>

definition tty_turn :: "pid \<Rightarrow> dev_request option \<Rightarrow> tty \<times> 'a kstate_scheme \<Rightarrow> (tty_out list \<times> tty \<times> 'a kstate_scheme) kres" where
  "tty_turn src req x =
     (if src \<ge> 0 then
        kbind (proc_get_uid src (snd x)) (\<lambda>u.
        if u = PROC_UID_KERNEL then
          kbind (case req of Some q \<Rightarrow> tty_request src q x | None \<Rightarrow> KOk ([], False, x)) (\<lambda>(out, reset, t, s).
          let (out', t') = tty_cursor reset False t in KOk (out @ out', t', s))
        else KOk ([TTY_EXIT], x))
      else kbind (tty_event (fst x)) (\<lambda>(out, t). KOk (out, t, snd x)))"

section \<open>Display operations and terminals\<close>

lemma dl_emit_simps [simp]:
  "tty_table (dl_emit ws t) = tty_table t" "tty_ptr (dl_emit ws t) = tty_ptr t" "tty_pid (dl_emit ws t) = tty_pid t"
  "kbd_break (dl_emit ws t) = kbd_break t" "kbd_shifted (dl_emit ws t) = kbd_shifted t" "tty_fb_addr (dl_emit ws t) = tty_fb_addr t"
  "gpu_run (dl_emit ws t) = gpu_run t" "gpu_pdl (dl_emit ws t) = gpu_pdl t @ ws"
  by (simp_all add: dl_emit_def)

lemma gpu_cells_simps [simp]:
  "tty_table (gpu_clear_cells n dst t) = tty_table t" "tty_ptr (gpu_clear_cells n dst t) = tty_ptr t"
  "tty_pid (gpu_clear_cells n dst t) = tty_pid t" "kbd_break (gpu_clear_cells n dst t) = kbd_break t"
  "kbd_shifted (gpu_clear_cells n dst t) = kbd_shifted t" "tty_fb_addr (gpu_clear_cells n dst t) = tty_fb_addr t"
  "gpu_run (gpu_clear_cells n dst t) = gpu_run t"
  by (induction n arbitrary: dst t) simp_all

lemma gpu_simps [simp]:
  "tty_table (gpu_draw x y c lut t) = tty_table t" "tty_ptr (gpu_draw x y c lut t) = tty_ptr t"
  "tty_pid (gpu_draw x y c lut t) = tty_pid t" "kbd_break (gpu_draw x y c lut t) = kbd_break t"
  "kbd_shifted (gpu_draw x y c lut t) = kbd_shifted t" "tty_fb_addr (gpu_draw x y c lut t) = tty_fb_addr t"
  "gpu_run (gpu_draw x y c lut t) = gpu_run t"
  "tty_table (gpu_clear_line y' t) = tty_table t" "tty_ptr (gpu_clear_line y' t) = tty_ptr t"
  "tty_pid (gpu_clear_line y' t) = tty_pid t" "kbd_break (gpu_clear_line y' t) = kbd_break t"
  "kbd_shifted (gpu_clear_line y' t) = kbd_shifted t" "tty_fb_addr (gpu_clear_line y' t) = tty_fb_addr t"
  "gpu_run (gpu_clear_line y' t) = gpu_run t"
  "tty_table (gpu_set_fb_addr t) = tty_table t" "tty_ptr (gpu_set_fb_addr t) = tty_ptr t"
  "tty_pid (gpu_set_fb_addr t) = tty_pid t" "kbd_break (gpu_set_fb_addr t) = kbd_break t"
  "kbd_shifted (gpu_set_fb_addr t) = kbd_shifted t" "tty_fb_addr (gpu_set_fb_addr t) = tty_fb_addr t"
  "gpu_run (gpu_set_fb_addr t) = gpu_run t"
  "tty_table (gpu_start_dl t) = tty_table t" "tty_ptr (gpu_start_dl t) = tty_ptr t"
  "tty_pid (gpu_start_dl t) = tty_pid t" "kbd_break (gpu_start_dl t) = kbd_break t"
  "kbd_shifted (gpu_start_dl t) = kbd_shifted t" "tty_fb_addr (gpu_start_dl t) = tty_fb_addr t"
  "tty_table (gpu_flush_dl t) = tty_table t" "tty_ptr (gpu_flush_dl t) = tty_ptr t"
  "tty_pid (gpu_flush_dl t) = tty_pid t" "kbd_break (gpu_flush_dl t) = kbd_break t"
  "kbd_shifted (gpu_flush_dl t) = kbd_shifted t" "tty_fb_addr (gpu_flush_dl t) = tty_fb_addr t"
  by (simp_all add: gpu_draw_def gpu_clear_line_def gpu_set_fb_addr_def gpu_start_dl_def gpu_flush_dl_def Let_def)

lemma gpu_redraw_row_simps [simp]:
  "tty_table (gpu_redraw_row xs y t) = tty_table t" "tty_ptr (gpu_redraw_row xs y t) = tty_ptr t"
  "tty_pid (gpu_redraw_row xs y t) = tty_pid t" "kbd_break (gpu_redraw_row xs y t) = kbd_break t"
  "kbd_shifted (gpu_redraw_row xs y t) = kbd_shifted t" "tty_fb_addr (gpu_redraw_row xs y t) = tty_fb_addr t"
  by (induction xs arbitrary: t) simp_all

lemma gpu_redraw_rows_simps [simp]:
  "tty_table (gpu_redraw_rows ys t) = tty_table t" "tty_ptr (gpu_redraw_rows ys t) = tty_ptr t"
  "tty_pid (gpu_redraw_rows ys t) = tty_pid t" "kbd_break (gpu_redraw_rows ys t) = kbd_break t"
  "kbd_shifted (gpu_redraw_rows ys t) = kbd_shifted t" "tty_fb_addr (gpu_redraw_rows ys t) = tty_fb_addr t"
  by (induction ys arbitrary: t) simp_all

lemma tty_setup_simps [simp]:
  "tty_table (tty_setup_fb t) = tty_table t" "tty_ptr (tty_setup_fb t) = tty_ptr t" "tty_pid (tty_setup_fb t) = tty_pid t"
  "kbd_break (tty_setup_fb t) = kbd_break t" "kbd_shifted (tty_setup_fb t) = kbd_shifted t" "tty_fb_addr (tty_setup_fb t) = FB_ADDR"
  by (simp_all add: tty_setup_fb_def gpu_redraw_def)

end
