(* ===== verification/Ring.thy ===== *)
theory Ring
  imports Prelude
begin

text \<open>
  A ring buffer of 256 entries with 8-bit indices, as the terminal driver and the serial driver have it: the entries
  between the read index and the write index are a queue, which holds at most 255 of them.
\<close>

definition ring8 :: "'a list \<Rightarrow> u8 \<Rightarrow> u8 \<Rightarrow> 'a list" where
  "ring8 b r w = map (\<lambda>k. b ! unat (r + of_nat k)) [0..<unat (w - r)]"

lemma length_ring8 [simp]: "length (ring8 b r w) = unat (w - r)"
  by (simp add: ring8_def)

lemma nth_ring8: "k < unat (w - r) \<Longrightarrow> ring8 b r w ! k = b ! unat (r + of_nat k)"
  by (simp add: ring8_def)

lemma unat_u8_less: "unat (x :: u8) < 256"
  using unsigned_less [of x] by simp

lemma unat_dec: "(w :: u8) \<noteq> r \<Longrightarrow> unat (w - r) = Suc (unat (w - (r + 1)))"
proof -
  assume "w \<noteq> r"
  then have "w - r \<noteq> 0" by simp
  then have "unat (w - r - 1) = unat (w - r) - 1" by (rule unat_minus_one)
  moreover have "unat (w - r) \<noteq> 0" using \<open>w - r \<noteq> 0\<close> by (simp add: unat_eq_0)
  ultimately show ?thesis by (simp add: algebra_simps)
qed

lemma unat_inc: "unat (w - r) < 255 \<Longrightarrow> unat (w + 1 - r) = Suc (unat (w - (r :: u8)))"
proof -
  assume l: "unat (w - r) < 255"
  have "unat (w - r + 1) = unat (w - r) + 1" using l by (simp add: unat_word_ariths)
  then show ?thesis by (simp add: algebra_simps)
qed

lemma ring8_Nil [simp]: "ring8 b r r = []"
  by (simp add: ring8_def)

lemma ring8_Cons: "r \<noteq> w \<Longrightarrow> ring8 b r w = b ! unat r # ring8 b (r + 1) w"
proof -
  assume "r \<noteq> w"
  then have e: "unat (w - r) = Suc (unat (w - (r + 1)))" by (intro unat_dec) simp
  show ?thesis unfolding ring8_def e upt_conv_Cons [OF zero_less_Suc] by (simp add: map_Suc_upt [symmetric] add.assoc del: upt_Suc)
qed

lemma ring8_put:
  assumes "length b = 256" and "unat (w - r) < 255"
  shows "ring8 (b[unat w := c]) r (w + 1) = ring8 b r w @ [c]"
proof -
  have ne: "unat (r + of_nat k) \<noteq> unat w" if "k < unat (w - r)" for k
  proof
    assume "unat (r + of_nat k) = unat w"
    then have "w = r + of_nat k" by (simp only: word_unat_eq_iff)
    then have "w - r = of_nat k" by simp
    with that show False using assms(2) by (simp add: unat_of_nat)
  qed
  have e: "r + of_nat (unat (w - r)) = w" by simp
  have "map (\<lambda>k. b[unat w := c] ! unat (r + of_nat k)) [0..<unat (w - r)] = ring8 b r w"
    unfolding ring8_def by (rule map_cong [OF refl]) (simp add: nth_list_update_neq [OF not_sym [OF ne]])
  then show ?thesis
    using assms(1) unat_u8_less [of w] unat_inc [OF assms(2)] e by (simp add: ring8_def del: of_nat_unat)
qed

text \<open>The test \<open>w + 1 != r\<close> of the drivers, computed on \<open>int\<close>: it is exact but for the one case in which the write index is 255.\<close>

lemma ring8_room:
  "unat (w - r) < 255 \<Longrightarrow> unat (w :: u8) + 1 \<noteq> unat r"
  "\<not> (w = 255 \<and> r = 0) \<Longrightarrow> unat w + 1 \<noteq> unat r \<Longrightarrow> unat (w - r) < 255"
proof -
  show "unat w + 1 \<noteq> unat r" if "unat (w - r) < 255"
  proof
    assume "unat w + 1 = unat r"
    then have "(of_nat (unat r) :: u8) = of_nat (unat w + 1)" by simp
    then have "r = w + 1" by simp
    with that show False by (simp add: unsigned_minus_1_eq_mask mask_eq_exp_minus_1)
  qed
  show "unat (w - r) < 255" if n: "\<not> (w = 255 \<and> r = 0)" "unat w + 1 \<noteq> unat r"
  proof (rule ccontr)
    assume "\<not> ?thesis"
    then have "unat (w - r) = 255" using unat_u8_less [of "w - r"] by linarith
    then have "w - r = - 1" by (simp add: word_unat_eq_iff unsigned_minus_1_eq_mask mask_eq_exp_minus_1)
    then have r: "r = w + 1" by (simp add: algebra_simps)
    show False
    proof (cases "w = 255")
      case True
      with r n(1) show False by simp
    next
      case False
      then have "unat w \<noteq> 255" by (simp add: word_unat_eq_iff)
      then have "unat (w + 1) = unat w + 1" using unat_u8_less [of w] by (simp add: unat_word_ariths)
      with r n(2) show False by simp
    qed
  qed
qed

end
