(* ===== verification/TtyInput.thy ===== *)
theory TtyInput
  imports Tty Ring
begin

text \<open>
  The input of a terminal: the ring between the keyboard interrupt and the readers is a queue of characters, a
  prefix of which has been echoed, and a reader gets at most one line of the echoed part.
\<close>

section \<open>The ring as a queue\<close>

definition ring_queue :: "tty_attr \<Rightarrow> u8 list" where
  "ring_queue pt = map ucast (ring8 (i_buf pt) (i_rp pt) (i_wp pt))"

definition ring_shown :: "tty_attr \<Rightarrow> nat" where
  "ring_shown pt = unat (i_dp pt - i_rp pt)"

definition ring_ok :: "tty_attr \<Rightarrow> bool" where
  "ring_ok pt \<longleftrightarrow> length (i_buf pt) = 256 \<and> ring_shown pt \<le> length (ring_queue pt) \<and>
     unat (i_nline pt) = count_list (take (ring_shown pt) (ring_queue pt)) 10"

lemma length_ring_queue [simp]: "length (ring_queue pt) = unat (i_wp pt - i_rp pt)"
  by (simp add: ring_queue_def)

lemma ucast_u16_u8: "ucast (ucast (x :: u8) :: u16) = x"
  by (rule bit_word_eqI) (simp add: bit_ucast_iff)

lemma ring_queue_empty: "i_rp pt = i_wp pt \<Longrightarrow> ring_queue pt = []"
  by (simp add: ring_queue_def)

lemma ring_queue_Cons:
  "i_rp pt \<noteq> i_wp pt \<Longrightarrow> ring_queue pt = ucast (i_buf pt ! unat (i_rp pt)) # ring_queue (pt\<lparr>i_rp := i_rp pt + 1\<rparr>)"
  by (simp add: ring_queue_def ring8_Cons)

lemma ring_queue_put:
  assumes "length (i_buf pt) = 256" and "unat (i_wp pt - i_rp pt) < 255"
  shows "ring_queue (ring_put key pt) = ring_queue pt @ [key]"
  using ring8_put [OF assms] by (simp add: ring_queue_def ring_put_def ucast_u16_u8)

lemma ring_queue_cong:
  "i_buf p = i_buf q \<Longrightarrow> i_wp p = i_wp q \<Longrightarrow> i_rp p = i_rp q \<Longrightarrow> ring_queue p = ring_queue q"
  by (simp add: ring_queue_def)

lemma ring_room:
  "unat (i_wp pt - i_rp pt) < 255 \<Longrightarrow> ring_has_room pt"
  "\<not> (i_wp pt = 255 \<and> i_rp pt = 0) \<Longrightarrow> ring_has_room pt \<Longrightarrow> unat (i_wp pt - i_rp pt) < 255"
  using ring8_room [of "i_wp pt" "i_rp pt"] by (auto simp: ring_has_room_def)

section \<open>What writing leaves alone\<close>

definition tty_in :: "tty_attr \<Rightarrow> u16 list \<times> u8 \<times> u8 \<times> u8 \<times> u8" where
  "tty_in p = (i_buf p, i_wp p, i_rp p, i_dp p, i_nline p)"

definition kbd_of :: "tty \<Rightarrow> u8 \<times> u8 \<times> u8 \<times> u8 \<times> u8 \<times> u8 list" where
  "kbd_of t = (kbd_extended t, kbd_break t, kbd_shifted t, kbd_ctrled t, kbd_alted t, kbd_keys_pos t)"

definition same_input :: "tty \<Rightarrow> tty \<Rightarrow> bool" where
  "same_input t t' \<longleftrightarrow> tty_ptr t' = tty_ptr t \<and> tty_pid t' = tty_pid t \<and> kbd_of t' = kbd_of t \<and>
     length (tty_table t') = length (tty_table t) \<and> (\<forall>j. tty_in (tty_table t' ! j) = tty_in (tty_table t ! j))"

named_theorems same_intros \<open>operations on the screen and the display keep the input\<close>

lemma same_refl [same_intros]: "same_input t t"
  by (simp add: same_input_def)

lemma same_trans: "same_input t t1 \<Longrightarrow> same_input t1 t2 \<Longrightarrow> same_input t t2"
  by (simp add: same_input_def)

lemma same_dl [same_intros]: "same_input t t1 \<Longrightarrow> same_input t (dl_emit ws t1)"
  by (simp add: same_input_def dl_emit_def kbd_of_def)

lemma same_draw [same_intros]: "same_input t t1 \<Longrightarrow> same_input t (gpu_draw x y c lut t1)"
  by (simp add: gpu_draw_def Let_def same_dl)

lemma same_clear_cells: "same_input t t1 \<Longrightarrow> same_input t (gpu_clear_cells n dst t1)"
  by (induction n arbitrary: dst t1) (simp_all add: same_dl)

lemma same_display [same_intros]:
  "same_input t t1 \<Longrightarrow> same_input t (gpu_clear_line y t1)"
  "same_input t t1 \<Longrightarrow> same_input t (gpu_set_fb_addr t1)"
  "same_input t t1 \<Longrightarrow> same_input t (gpu_start_dl t1)"
  "same_input t t1 \<Longrightarrow> same_input t (gpu_flush_dl t1)"
  "same_input t t1 \<Longrightarrow> same_input t (t1\<lparr>tty_fb_addr := a\<rparr>)"
  by (simp_all add: gpu_clear_line_def gpu_set_fb_addr_def Let_def same_clear_cells same_dl)
    (simp_all add: same_input_def gpu_start_dl_def gpu_flush_dl_def kbd_of_def)

lemma same_upd:
  assumes "same_input t t1" and "\<And>p. tty_in (f p) = tty_in p"
  shows "same_input t (upd_tty i f t1)"
proof -
  have "tty_in ((tty_table t1)[i := f (tty_table t1 ! i)] ! j) = tty_in (tty_table t1 ! j)" for j
    using assms(2) by (cases "j = i \<and> i < length (tty_table t1)") (auto simp: not_less list_update_beyond)
  then show ?thesis using assms(1) by (simp add: same_input_def upd_tty_def kbd_of_def)
qed

lemma same_upd_screen [same_intros]:
  "same_input t t1 \<Longrightarrow> same_input t (upd_tty i (\<lambda>p. p\<lparr>px := a\<rparr>) t1)"
  "same_input t t1 \<Longrightarrow> same_input t (upd_tty i (\<lambda>p. p\<lparr>screen := scr\<rparr>) t1)"
  "same_input t t1 \<Longrightarrow> same_input t (upd_tty i (\<lambda>p. p\<lparr>py := b, screen := scr\<rparr>) t1)"
  "same_input t t1 \<Longrightarrow> same_input t (upd_tty i (\<lambda>p. p\<lparr>ptoggle := g p\<rparr>) t1)"
  "same_input t t1 \<Longrightarrow> same_input t (upd_tty i (\<lambda>p. p\<lparr>tty_flags := fl\<rparr>) t1)"
  by (simp_all add: same_upd tty_in_def)

lemma same_putc: "tty_putc i c t = KOk t' \<Longrightarrow> same_input t t'"
  by (auto simp: tty_putc_def Let_def kbind_KOk_iff split: if_splits intro!: same_intros)

lemma same_write: "tty_write_loop r i p n t = KOk t' \<Longrightarrow> same_input t t'"
  by (induction n arbitrary: p t) (auto simp: kbind_KOk_iff same_refl dest: same_putc intro: same_trans)

lemma same_cursor: "same_input t (snd (tty_cursor reset draw t))"
  by (auto simp: tty_cursor_def Let_def intro!: same_intros)

section \<open>Echoing and reading\<close>

lemma ring_queue_in: "tty_in p = tty_in q \<Longrightarrow> ring_queue p = ring_queue q"
  by (simp add: tty_in_def ring_queue_def)

lemma ring_shown_in: "tty_in p = tty_in q \<Longrightarrow> ring_shown p = ring_shown q"
  by (simp add: tty_in_def ring_shown_def)

lemma ring_ok_in: "tty_in p = tty_in q \<Longrightarrow> ring_ok p \<longleftrightarrow> ring_ok q"
  using ring_queue_in [of p q] ring_shown_in [of p q] by (simp add: ring_ok_def tty_in_def)

lemma ring_queue_nth: "k < unat (i_wp pt - i_rp pt) \<Longrightarrow> ring_queue pt ! k = ucast (i_buf pt ! unat (i_rp pt + of_nat k))"
  by (simp add: ring_queue_def nth_ring8)

lemma count_take_Suc: "n < length xs \<Longrightarrow> count_list (take (Suc n) xs) y = count_list (take n xs) y + (if xs ! n = y then 1 else 0)"
  by (simp add: take_Suc_conv_app_nth)

lemma count_take_le: "count_list (take n xs) y \<le> n"
  using count_le_length [of "take n xs" y] by simp

lemma unat_inc_less: "unat (x :: u8) < 255 \<Longrightarrow> unat (x + 1) = Suc (unat x)"
  by (simp add: unat_word_ariths)

text \<open>One echoed character: one more is shown, and a newline is counted.\<close>

lemma ring_echo:
  assumes "ring_ok pt" and "i_dp pt \<noteq> i_wp pt"
    and "tty_in pt' = tty_in (pt\<lparr>i_dp := i_dp pt + 1,
      i_nline := i_nline pt + (if (ucast (i_buf pt ! unat (i_dp pt)) :: u8) = 10 then 1 else 0)\<rparr>)"
  shows "ring_ok pt' \<and> ring_queue pt' = ring_queue pt \<and> ring_shown pt' = Suc (ring_shown pt)"
proof -
  let ?L = "unat (i_wp pt - i_rp pt)" and ?n = "ring_shown pt"
  have v: "ring_queue pt' = ring_queue pt" using assms(3) by (simp add: tty_in_def ring_queue_def)
  have ok: "length (i_buf pt) = 256" "?n \<le> ?L" "unat (i_nline pt) = count_list (take ?n (ring_queue pt)) 10"
    using assms(1) by (simp_all add: ring_ok_def)
  have "?n \<noteq> ?L" using assms(2) by (simp add: ring_shown_def flip: word_unat_eq_iff)
  then have n: "?n < ?L" using ok(2) by simp
  then have s: "unat (i_dp pt + 1 - i_rp pt) = Suc ?n"
    using unat_inc [of "i_dp pt" "i_rp pt"] unat_u8_less [of "i_wp pt - i_rp pt"] by (simp add: ring_shown_def)
  have s': "ring_shown pt' = Suc ?n" using assms(3) s by (simp add: tty_in_def ring_shown_def)
  have d: "i_rp pt + of_nat ?n = i_dp pt" by (simp add: ring_shown_def)
  have c: "ring_queue pt ! ?n = ucast (i_buf pt ! unat (i_dp pt))" using ring_queue_nth [OF n] by (simp only: d)
  have "unat (i_nline pt) < 255" using count_take_le [of ?n "ring_queue pt" 10] n unat_u8_less [of "i_wp pt - i_rp pt"] ok(3) by linarith
  then have "unat (i_nline pt') = count_list (take (Suc ?n) (ring_queue pt)) 10"
    using assms(3) ok(3) n c by (simp add: tty_in_def count_take_Suc unat_inc_less)
  then show ?thesis using ok n s' v assms(3) by (simp add: ring_ok_def tty_in_def)
qed

definition line_len :: "u8 list \<Rightarrow> nat" where
  "line_len xs = length (takeWhile (\<lambda>c. c \<noteq> 10) xs) + (if 10 \<in> set xs then 1 else 0)"

lemma line_len_simps [simp]: "line_len [] = 0" "line_len (c # cs) = (if c = 10 then 1 else Suc (line_len cs))"
  by (simp_all add: line_len_def)

lemma line_len_le: "line_len xs \<le> length xs"
  by (induction xs) auto

lemma line_len_take: "10 \<in> set (take n xs) \<Longrightarrow> line_len xs \<le> n"
proof (induction xs arbitrary: n)
  case (Cons c cs)
  then show ?case by (cases n) (auto split: if_splits)
qed simp

lemma line_newline: "k \<le> line_len xs \<Longrightarrow> 10 \<notin> set (butlast (take k xs))"
proof (induction xs arbitrary: k)
  case (Cons c cs)
  then show ?case by (cases k) (auto split: if_splits dest: in_set_butlastD)
qed simp

lemma line_count: "k \<le> line_len xs \<Longrightarrow> count_list (take k xs) 10 = (if 10 \<in> set (take k xs) then 1 else 0)"
proof (induction xs arbitrary: k)
  case (Cons c cs)
  then show ?case by (cases k) (auto split: if_splits)
qed simp

fun put_seq :: "ram \<Rightarrow> u32 \<Rightarrow> u8 list \<Rightarrow> ram" where
  "put_seq r d [] = r"
| "put_seq r d (b # bs) = put_seq (r(d := b)) (d + 1) bs"

lemma put_seq_outside: "a \<notin> region d (length bs) \<Longrightarrow> put_seq r d bs a = r a"
  by (induction bs arbitrary: r d) (auto simp: region_Suc)

lemma put_seq_holds: "length bs \<le> 2 ^ 32 \<Longrightarrow> holds (put_seq r d bs) d bs"
proof (induction bs arbitrary: r d)
  case (Cons b bs)
  have o: "d \<notin> region (d + 1) (length bs)"
    using region_tail [of 1 "length bs" d] Cons.prems by (simp add: region_Suc)
  have "holds (put_seq (r(d := b)) (d + 1) bs) (d + 1) bs" by (rule Cons.IH) (use Cons.prems in simp)
  then show ?case using holds_append [of _ d "[b]" bs] put_seq_outside [OF o] by (simp add: holds_def)
qed simp

lemma read_loop_ring:
  assumes "length (ring_queue pt) \<le> fuel" and "n < unat cnt"
  defines "k \<equiv> min (unat cnt - n) (line_len (ring_queue pt))"
  shows "tty_read_loop fuel cnt dst n (pt, r) =
    KOk (n + k, pt\<lparr>i_rp := i_rp pt + of_nat k, i_nline := i_nline pt - (if 10 \<in> set (take k (ring_queue pt)) then 1 else 0)\<rparr>,
      put_seq r dst (take k (ring_queue pt)))"
  using assms(1,2) unfolding k_def
proof (induction fuel arbitrary: pt n dst r)
  case 0
  then have "ring_queue pt = []" by (simp del: length_ring_queue)
  moreover from this have "unat (i_wp pt - i_rp pt) = 0" using length_ring_queue [of pt] by simp
  ultimately show ?case by (simp add: unat_eq_0)
next
  case (Suc fuel)
  show ?case
  proof (cases "i_rp pt = i_wp pt")
    case True
    then show ?thesis by (simp add: ring_queue_empty)
  next
    case False
    let ?c = "ucast (i_buf pt ! unat (i_rp pt)) :: u8" and ?p = "pt\<lparr>i_rp := i_rp pt + 1\<rparr>"
    note V = ring_queue_Cons [OF False]
    have l: "length (ring_queue ?p) \<le> fuel" using Suc.prems(1) V by (simp del: length_ring_queue)
    have "unat (of_nat (n + 1) :: u32) = n + 1"
      using Suc.prems(2) unat_u32_less [of cnt] by (simp add: unat_of_nat del: of_nat_add of_nat_Suc)
    then have last: "of_nat (n + 1) = cnt \<longleftrightarrow> n + 1 = unat cnt" unfolding word_unat_eq_iff by (simp only:)
    show ?thesis
    proof (cases "?c = 10 \<or> n + 1 = unat cnt")
      case True
      have k: "min (unat cnt - n) (line_len (ring_queue pt)) = 1"
        unfolding V using True Suc.prems(2) by (auto simp: min_def)
      have tk: "take 1 (ring_queue pt) = [?c]" unfolding V by simp
      have o: "(of_nat (Suc 0) :: u8) = 1" by simp
      show ?thesis unfolding k tk using True False last
        by (auto simp: Let_def o fun_upd_def simp del: of_nat_add of_nat_Suc)
    next
      case go: False
      then have "n + 1 < unat cnt" using Suc.prems(2) by simp
      note IH = Suc.IH [OF l this]
      define k' where "k' = min (unat cnt - (n + 1)) (line_len (ring_queue ?p))"
      have k: "min (unat cnt - n) (line_len (ring_queue pt)) = Suc k'"
      proof -
        have "unat cnt - n = Suc (unat cnt - (n + 1))" using \<open>n + 1 < unat cnt\<close> by linarith
        then show ?thesis unfolding k'_def V using go by (simp only: line_len_simps if_False min_Suc_Suc de_Morgan_disj)
      qed
      have tk: "take (Suc k') (ring_queue pt) = ?c # take k' (ring_queue ?p)" unfolding V by simp
      have "tty_read_loop (Suc fuel) cnt dst n (pt, r) = tty_read_loop fuel cnt (dst + 1) (n + 1) (?p, r(dst := ?c))"
        using go False last by (simp add: Let_def del: of_nat_add of_nat_Suc)
      also have "\<dots> = KOk (n + 1 + k', ?p\<lparr>i_rp := i_rp ?p + of_nat k',
          i_nline := i_nline ?p - (if 10 \<in> set (take k' (ring_queue ?p)) then 1 else 0)\<rparr>,
          put_seq (r(dst := ?c)) (dst + 1) (take k' (ring_queue ?p)))"
        unfolding IH k'_def ..
      finally show ?thesis unfolding k tk using go by (simp add: add.assoc)
    qed
  qed
qed

lemma ring_queue_drop:
  "k \<le> length (ring_queue pt) \<Longrightarrow> ring_queue (pt\<lparr>i_rp := i_rp pt + of_nat k, i_nline := m\<rparr>) = drop k (ring_queue pt)"
proof (induction k arbitrary: pt)
  case 0
  then show ?case by (simp add: ring_queue_def)
next
  case (Suc k)
  from Suc.prems have "i_rp pt \<noteq> i_wp pt" by auto
  note V = ring_queue_Cons [OF this]
  then have "k \<le> length (ring_queue (pt\<lparr>i_rp := i_rp pt + 1\<rparr>))" using Suc.prems by (simp del: length_ring_queue)
  from Suc.IH [OF this] V show ?case by (simp add: add.assoc)
qed

lemma ring_shown_drop:
  "k \<le> ring_shown pt \<Longrightarrow> ring_shown (pt\<lparr>i_rp := i_rp pt + of_nat k, i_nline := m\<rparr>) = ring_shown pt - k"
proof -
  assume k: "k \<le> ring_shown pt"
  then have "k < 256" using unat_u8_less [of "i_dp pt - i_rp pt"] by (simp add: ring_shown_def)
  then have u: "unat (of_nat k :: u8) = k" by (simp add: unat_of_nat)
  then have "(of_nat k :: u8) \<le> i_dp pt - i_rp pt" using k by (simp add: ring_shown_def word_le_nat_alt)
  then have "unat (i_dp pt - i_rp pt - of_nat k) = unat (i_dp pt - i_rp pt) - k" using u by (simp add: unat_sub)
  then show ?thesis by (simp add: ring_shown_def algebra_simps)
qed

text \<open>The bytes a read takes: at most one line, at most \<open>cnt\<close>, and none before a line is complete.\<close>

definition read_len :: "u32 \<Rightarrow> tty_attr \<Rightarrow> nat" where
  "read_len cnt pt = (if 10 \<in> set (take (ring_shown pt) (ring_queue pt)) then min (unat cnt) (line_len (ring_queue pt)) else 0)"

lemma read_len_le: "ring_ok pt \<Longrightarrow> read_len cnt pt \<le> ring_shown pt \<and> read_len cnt pt \<le> length (ring_queue pt)"
  using line_len_take [of "ring_shown pt" "ring_queue pt"] line_len_le [of "ring_queue pt"]
  by (auto simp: read_len_def min_def ring_ok_def simp del: length_ring_queue)

lemma tty_read_ring:
  assumes "ring_ok pt"
  obtains pt' where "tty_read dst cnt (pt, r) = KOk (read_len cnt pt, pt', put_seq r dst (take (read_len cnt pt) (ring_queue pt)))"
    and "ring_ok pt'" and "ring_queue pt' = drop (read_len cnt pt) (ring_queue pt)"
    and "ring_shown pt' = ring_shown pt - read_len cnt pt"
    and "i_wp pt' = i_wp pt" "screen pt' = screen pt" "px pt' = px pt" "py pt' = py pt"
proof -
  let ?q = "ring_queue pt" and ?s = "ring_shown pt" and ?k = "read_len cnt pt"
  define m where "m = i_nline pt - (if 10 \<in> set (take ?k ?q) then 1 else 0)"
  define pt' where "pt' = pt\<lparr>i_rp := i_rp pt + of_nat ?k, i_nline := m\<rparr>"
  note ok = assms [unfolded ring_ok_def]
  note le = read_len_le [OF assms, of cnt]
  have nl: "i_nline pt \<noteq> 0 \<longleftrightarrow> 10 \<in> set (take ?s ?q)"
    using ok by (simp add: unat_eq_0 [symmetric] count_list_0_iff)
  have read: "tty_read dst cnt (pt, r) = KOk (?k, pt', put_seq r dst (take ?k ?q))"
  proof (cases "i_nline pt \<noteq> 0 \<and> cnt \<noteq> 0")
    case True
    have "length ?q \<le> 256" using unat_u8_less [of "i_wp pt - i_rp pt"] by simp
    moreover have "0 < unat cnt" using True by (simp add: unat_eq_0 flip: neq0_conv)
    moreover have "min (unat cnt - 0) (line_len ?q) = ?k" using True nl by (simp add: read_len_def)
    ultimately show ?thesis using read_loop_ring [of pt 256 0 cnt dst r] True by (simp add: tty_read_def pt'_def m_def)
  next
    case False
    then have "?k = 0" using nl by (auto simp: read_len_def)
    then show ?thesis using False by (auto simp: tty_read_def pt'_def m_def)
  qed
  have q: "ring_queue pt' = drop ?k ?q" unfolding pt'_def using le by (intro ring_queue_drop) simp
  have s: "ring_shown pt' = ?s - ?k" unfolding pt'_def using le by (intro ring_shown_drop) simp
  have "?k \<le> line_len ?q" by (simp add: read_len_def)
  note cnt = line_count [OF this]
  have "take ?s ?q = take ?k ?q @ take (?s - ?k) (drop ?k ?q)" using le take_add [of ?k "?s - ?k" ?q] by simp
  then have "count_list (take ?s ?q) 10 = (if 10 \<in> set (take ?k ?q) then 1 else 0) + count_list (take (?s - ?k) (drop ?k ?q)) 10"
    using cnt by simp
  then have "unat m = count_list (take (?s - ?k) (drop ?k ?q)) 10"
    using ok unat_minus_one [of "i_nline pt"] by (cases "i_nline pt = 0") (auto simp: m_def)
  moreover have "?s - ?k \<le> length ?q - ?k" using ok by (simp add: diff_le_mono)
  moreover have "i_buf pt' = i_buf pt" "i_nline pt' = m" by (simp_all add: pt'_def)
  ultimately have "ring_ok pt'" unfolding ring_ok_def q s using ok by (simp del: length_ring_queue)
  from that [OF read this q s] show thesis by (simp add: pt'_def)
qed

section \<open>Runs of the terminal\<close>

abbreviation "visible t \<equiv> tty_table t ! tty_ptr t"

definition input_ok :: "tty \<Rightarrow> bool" where
  "input_ok t \<longleftrightarrow> tty_ptr t < length (tty_table t) \<and> ring_ok (visible t)"

lemma visible_upd: "tty_ptr t < length (tty_table t) \<Longrightarrow> visible (upd_tty (tty_ptr t) f t) = f (visible t)"
  by (simp add: upd_tty_def)

lemma upd_tty_other: "i \<noteq> j \<Longrightarrow> tty_table (upd_tty i f t) ! j = tty_table t ! j"
  by (simp add: upd_tty_def)

lemma upd_tty_simps [simp]:
  "tty_ptr (upd_tty i f t) = tty_ptr t" "length (tty_table (upd_tty i f t)) = length (tty_table t)" "tty_pid (upd_tty i f t) = tty_pid t"
  by (simp_all add: upd_tty_def)

lemma same_visible: "same_input t t' \<Longrightarrow> tty_ptr t' = tty_ptr t \<and> length (tty_table t') = length (tty_table t) \<and> tty_in (visible t') = tty_in (visible t)"
  by (simp add: same_input_def)

lemma same_input_ok: "same_input t t' \<Longrightarrow> input_ok t \<Longrightarrow> input_ok t' \<and> ring_queue (visible t') = ring_queue (visible t)"
proof -
  assume a: "same_input t t'" "input_ok t"
  note S = same_visible [OF a(1)]
  then have e: "tty_in (visible t') = tty_in (visible t)" by (elim conjE)
  show ?thesis using S a(2) ring_ok_in [OF e] ring_queue_in [OF e] by (simp add: input_ok_def)
qed

lemma refresh_one_ok:
  assumes "tty_refresh_one t = KOk t'" and "input_ok t" and "i_dp (visible t) \<noteq> i_wp (visible t)"
  shows "input_ok t' \<and> ring_queue (visible t') = ring_queue (visible t) \<and> ring_shown (visible t') = Suc (ring_shown (visible t))"
proof -
  let ?c = "ucast (i_buf (visible t) ! unat (i_dp (visible t))) :: u8"
  let ?t1 = "upd_tty (tty_ptr t) (\<lambda>p. p\<lparr>i_dp := i_dp p + 1\<rparr>) t"
  have l: "tty_ptr t < length (tty_table t)" using assms(2) by (simp add: input_ok_def)
  obtain t2 where t2: "same_input ?t1 t2" "t' = (if ?c = 10 then upd_tty (tty_ptr t) (\<lambda>p. p\<lparr>i_nline := i_nline p + 1\<rparr>) t2 else t2)"
  proof -
    obtain t2 where p: "(if ?c AND 0x80 = 0 \<and> tty_flags (visible t) AND TTY_FLAG_ECHO \<noteq> 0 then tty_putc (tty_ptr t) ?c ?t1 else KOk ?t1) = KOk t2"
      and t': "t' = (if ?c = 10 then upd_tty (tty_ptr t) (\<lambda>p. p\<lparr>i_nline := i_nline p + 1\<rparr>) t2 else t2)"
      using assms(1) unfolding tty_refresh_one_def Let_def kbind_KOk_iff kres.inject by (elim exE conjE) (rule that, assumption, rule sym)
    have "same_input ?t1 t2" using p same_putc [of "tty_ptr t" ?c ?t1 t2] same_refl [of ?t1] by (simp split: if_splits)
    from that [OF this t'] show thesis .
  qed
  note S = same_visible [OF t2(1)]
  have e: "tty_in (visible t') = tty_in ((visible t)\<lparr>i_dp := i_dp (visible t) + 1, i_nline := i_nline (visible t) + (if ?c = 10 then 1 else 0)\<rparr>)"
    using S l visible_upd [of t2] t2(2) visible_upd [OF l] by (auto simp: tty_in_def)
  have "ring_ok (visible t)" using assms(2) by (simp add: input_ok_def)
  from ring_echo [OF this assms(3) e] show ?thesis using S l t2(2) by (simp add: input_ok_def)
qed

lemma refresh_ok:
  assumes "tty_refresh n t = KOk t'" and "input_ok t"
  shows "input_ok t' \<and> ring_queue (visible t') = ring_queue (visible t) \<and> i_dp (visible t') = i_wp (visible t')"
  using assms
proof (induction n arbitrary: t)
  case 0
  then show ?case by (simp add: Let_def split: if_splits)
next
  case (Suc n)
  show ?case
  proof (cases "i_dp (visible t) = i_wp (visible t)")
    case True
    then show ?thesis using Suc.prems by simp
  next
    case False
    then obtain t1 where t1: "tty_refresh_one t = KOk t1" "tty_refresh n t1 = KOk t'"
      using Suc.prems(1) by (auto simp: Let_def kbind_KOk_iff)
    from refresh_one_ok [OF t1(1) Suc.prems(2) False] Suc.IH [OF t1(2)] show ?thesis by simp
  qed
qed

lemma event_ok:
  assumes "tty_event t = KOk (out, t')" and "input_ok t"
  shows "input_ok t' \<and> ring_queue (visible t') = ring_queue (visible t)"
proof -
  obtain t1 where t1: "tty_refresh 256 (gpu_start_dl t) = KOk t1"
    and t': "t' = snd (tty_cursor (i_dp (visible t) \<noteq> i_wp (visible t)) True (upd_tty (tty_ptr t1) (\<lambda>p. p\<lparr>ptoggle := 1 - ptoggle p\<rparr>) t1))"
  proof -
    have "\<exists>t1. tty_refresh 256 (gpu_start_dl t) = KOk t1 \<and>
        KOk (tty_cursor (i_dp (visible t) \<noteq> i_wp (visible t)) True (upd_tty (tty_ptr t1) (\<lambda>p. p\<lparr>ptoggle := 1 - ptoggle p\<rparr>) t1)) = KOk (out, t')"
      using assms(1) unfolding tty_event_def Let_def kbind_KOk_iff .
    then show thesis by (elim exE conjE) (rule that, assumption, simp)
  qed
  have a: "same_input t (gpu_start_dl t)" by (intro same_intros)
  have b: "same_input t1 (upd_tty (tty_ptr t1) (\<lambda>p. p\<lparr>ptoggle := 1 - ptoggle p\<rparr>) t1)" by (intro same_intros)
  have c: "same_input t1 t'" unfolding t' by (rule same_trans [OF b same_cursor])
  from same_input_ok [OF a assms(2)] refresh_ok [OF t1] same_input_ok [OF c] show ?thesis by simp
qed

text \<open>The keys that reach the ring when the keyboard sends \<open>code\<close>.\<close>

definition typed :: "u8 \<Rightarrow> tty \<Rightarrow> u8 list" where
  "typed code t =
     (case kbd_decode code t of (key, _, t1) \<Rightarrow> if key \<noteq> 0 \<and> ring_has_room (visible t1) then [key] else [])"

text \<open>The one state in which the test for a full ring fails.\<close>

definition overrun :: "tty \<Rightarrow> bool" where
  "overrun t \<longleftrightarrow> i_wp (visible t) = 255 \<and> i_rp (visible t) = 0"

lemma decode_table: "kbd_decode code t = (key, b, t1) \<Longrightarrow> tty_table t1 = tty_table t \<and> tty_ptr t1 = tty_ptr t \<and> tty_pid t1 = tty_pid t"
  by (auto simp: kbd_decode_def Let_def split: if_splits)

lemma keyboard_ok:
  assumes "keyboard_interrupt code (t, s) = KOk (t', s')" and "input_ok t" and "\<not> overrun t"
  shows "input_ok t' \<and> ring_queue (visible t') = ring_queue (visible t) @ typed code t"
proof -
  obtain key b t1 where d: "kbd_decode code t = (key, b, t1)" by (metis prod_cases3)
  note D = decode_table [OF d]
  let ?p = "visible t"
  have ok: "ring_ok ?p" "tty_ptr t < length (tty_table t)" using assms(2) by (simp_all add: input_ok_def)
  show ?thesis
  proof (cases "key \<noteq> 0 \<and> ring_has_room ?p")
    case True
    then have t': "t' = upd_tty (tty_ptr t1) (ring_put key) t1" and ty: "typed code t = [key]"
      using assms(1) d D by (auto simp: keyboard_interrupt_def typed_def Let_def kbind_KOk_iff)
    have room: "unat (i_wp ?p - i_rp ?p) < 255" using ring_room(2) [of ?p] True assms(3) by (simp add: overrun_def)
    have len: "length (i_buf ?p) = 256" "ring_shown ?p \<le> length (ring_queue ?p)" using ok(1) by (simp_all add: ring_ok_def)
    note q = ring_queue_put [OF len(1) room, of key]
    have v: "visible t' = ring_put key ?p" using visible_upd [of t1] D ok(2) by (simp add: t')
    have "take (ring_shown ?p) (ring_queue ?p @ [key]) = take (ring_shown ?p) (ring_queue ?p)" using len(2) by simp
    then have "ring_ok (ring_put key ?p)"
      using ok(1) len q length_ring_queue [of "ring_put key ?p"]
      by (simp add: ring_ok_def ring_shown_def ring_put_def del: length_ring_queue)
    then show ?thesis using v q ty ok(2) D by (simp add: input_ok_def t')
  next
    case False
    then have "t' = t1" "typed code t = []"
      using assms(1) d D by (auto simp: keyboard_interrupt_def typed_def Let_def kbind_KOk_iff)
    then show ?thesis using D assms(2) by (simp add: input_ok_def)
  qed
qed

text \<open>What a turn hands to the reader of the visible terminal: the bytes it finds, as many as the answer says.\<close>

definition delivered :: "tty \<Rightarrow> dev_request option \<Rightarrow> tty_out list \<Rightarrow> ram \<Rightarrow> u8 list list" where
  "delivered t req out r =
     (case req of
        Some (DEV_READ mi seek dst cnt) \<Rightarrow>
          (case out of
             TTY_ANS p n # _ \<Rightarrow>
               if minor_tty mi = Some (tty_ptr t) then [map (\<lambda>i. r (dst + of_nat i)) [0..<nat n]] else []
           | _ \<Rightarrow> [])
      | _ \<Rightarrow> [])"

text \<open>From the start of the task: codes from the keyboard, output, and turns of the task.\<close>

inductive tty_run :: "tty \<Rightarrow> u8 list \<Rightarrow> u8 list list \<Rightarrow> bool" where
  start: "tty_run (tty_setup_fb (tty_init self t)) [] []"
| banner: "tty_run t ks g \<Longrightarrow> tty_putchar c t = KOk (c', t') \<Longrightarrow> tty_run t' ks g"
| key: "tty_run t ks g \<Longrightarrow> \<not> overrun t \<Longrightarrow> keyboard_interrupt code (t, s :: kstate) = KOk (t', s') \<Longrightarrow> tty_run t' (ks @ typed code t) g"
| turn: "tty_run t ks g \<Longrightarrow> tty_turn src req (t, s :: kstate) = KOk (out, t', s') \<Longrightarrow> tty_run t' ks (g @ delivered t req out (ram s'))"

lemma holds_map: "holds r a bs \<Longrightarrow> map (\<lambda>i. r (a + of_nat i)) [0..<length bs] = bs"
  by (rule nth_equalityI) (simp_all add: holds_def)

lemma same_redraw_row: "same_input t t1 \<Longrightarrow> same_input t (gpu_redraw_row xs y t1)"
  by (induction xs arbitrary: t1) (simp_all add: same_draw)

lemma same_redraw: "same_input t t1 \<Longrightarrow> same_input t (gpu_redraw_rows ys t1)"
  by (induction ys arbitrary: t1) (simp_all add: same_redraw_row same_intros)

lemma same_setup: "same_input t (tty_setup_fb t)"
proof -
  have "same_input t (t\<lparr>tty_fb_addr := FB_ADDR, gpu_pdl := []\<rparr>)" by (simp add: same_input_def kbd_of_def)
  then show ?thesis unfolding tty_setup_fb_def gpu_redraw_def by (intro same_redraw same_intros)
qed

lemma init_ok: "input_ok (tty_init self t) \<and> ring_queue (visible (tty_init self t)) = []"
  by (simp add: input_ok_def tty_init_def K_TTY_COUNT_def ring_ok_def ring_shown_def ring_queue_def zero_tty_def)

lemma read_ok:
  assumes "tty_request src (DEV_READ mi seek dst cnt) (t, s) = KOk (out, reset, t', s')" and "input_ok t"
  shows "input_ok t' \<and> concat (delivered t (Some (DEV_READ mi seek dst cnt)) out (ram s')) @ ring_queue (visible t') = ring_queue (visible t) \<and>
    (\<forall>x \<in> set (delivered t (Some (DEV_READ mi seek dst cnt)) out (ram s')). 10 \<notin> set (butlast x))"
proof (cases "minor_tty mi = Some (tty_ptr t)")
  case True
  have l: "tty_ptr t < length (tty_table t)" "ring_ok (visible t)" using assms(2) by (simp_all add: input_ok_def)
  let ?k = "read_len cnt (visible t)" and ?q = "ring_queue (visible t)"
  from tty_read_ring [OF l(2), of dst cnt "ram s"] obtain pt' where
    r: "tty_read dst cnt (visible t, ram s) = KOk (?k, pt', put_seq (ram s) dst (take ?k ?q))"
    and p: "ring_ok pt'" "ring_queue pt' = drop ?k ?q" by blast
  have le: "?k \<le> length ?q" using read_len_le [OF l(2), of cnt] by (elim conjE)
  have o: "out = [TTY_ANS src (int ?k)]" "t' = upd_tty (tty_ptr t) (\<lambda>_. pt') t" "ram s' = put_seq (ram s) dst (take ?k ?q)"
    using assms(1) r True by auto
  have "length (take ?k ?q) = ?k" using le by (simp del: length_ring_queue)
  moreover have "holds (ram s') dst (take ?k ?q)"
    unfolding o(3) by (rule put_seq_holds) (use le unat_u8_less [of "i_wp (visible t) - i_rp (visible t)"] in simp)
  ultimately have d: "delivered t (Some (DEV_READ mi seek dst cnt)) out (ram s') = [take ?k ?q]"
    using holds_map [of "ram s'" dst "take ?k ?q"] True o(1) by (simp add: delivered_def del: length_ring_queue)
  have "?k \<le> line_len ?q" by (simp add: read_len_def)
  moreover have "tty_table t' ! tty_ptr t = pt'" "tty_ptr t' = tty_ptr t" "length (tty_table t') = length (tty_table t)"
    using o(2) l(1) by (simp_all add: upd_tty_def)
  ultimately show ?thesis using d p l line_newline [of ?k ?q] by (simp add: input_ok_def)
next
  case False
  then have "delivered t (Some (DEV_READ mi seek dst cnt)) out (ram s') = []"
    by (auto simp: delivered_def split: list.splits tty_out.splits)
  moreover have "visible t' = visible t" "tty_ptr t' = tty_ptr t" "length (tty_table t') = length (tty_table t)"
    using assms(1) False by (auto simp: kbind_KOk_iff upd_tty_other split: option.splits)
  ultimately show ?thesis using assms(2) by (simp add: input_ok_def)
qed

lemma request_ok:
  assumes "tty_request src req (t, s) = KOk (out, reset, t', s')" and "input_ok t"
  shows "input_ok t' \<and> concat (delivered t (Some req) out (ram s')) @ ring_queue (visible t') = ring_queue (visible t) \<and>
    (\<forall>x \<in> set (delivered t (Some req) out (ram s')). 10 \<notin> set (butlast x))"
proof (cases req)
  case (DEV_READ mi seek dst cnt)
  then show ?thesis using read_ok [of src mi seek dst cnt] assms by simp
next
  case (DEV_WRITE mi seek p cnt)
  then have "same_input t t'"
    using assms(1) by (auto simp: kbind_KOk_iff same_refl split: option.splits intro: same_trans [OF same_display(3) [OF same_refl] same_write])
  from same_input_ok [OF this assms(2)] show ?thesis by (simp add: DEV_WRITE delivered_def)
next
  case (DEV_IOCTL mi p rq ptr)
  then have "same_input t t'"
    using assms(1) by (auto simp: kbind_KOk_iff split: option.splits if_splits intro!: same_intros)
  from same_input_ok [OF this assms(2)] show ?thesis by (simp add: DEV_IOCTL delivered_def)
qed (use assms in \<open>auto simp: delivered_def\<close>)

lemma turn_ok:
  assumes "tty_turn src req (t, s) = KOk (out, t', s')" and "input_ok t"
  shows "input_ok t' \<and> concat (delivered t req out (ram s')) @ ring_queue (visible t') = ring_queue (visible t) \<and>
    (\<forall>x \<in> set (delivered t req out (ram s')). 10 \<notin> set (butlast x))"
proof (cases "src \<ge> 0")
  case False
  then have e: "tty_event t = KOk (out, t')" "s' = s" using assms(1) by (auto simp: tty_turn_def kbind_KOk_iff)
  from this(1) have "out \<noteq> [] \<Longrightarrow> hd out = TTY_SLEEP (K_TTY_CBLK_MS div 2)"
    by (auto simp: tty_event_def tty_cursor_def Let_def kbind_KOk_iff)
  then have "delivered t req out (ram s') = []"
    by (auto simp: delivered_def split: option.splits dev_request.splits list.splits tty_out.splits)
  then show ?thesis using event_ok [OF e(1) assms(2)] by simp
next
  case True
  have "kbind (proc_get_uid src s) (\<lambda>u. if u = PROC_UID_KERNEL then
          kbind (case req of Some q \<Rightarrow> tty_request src q (t, s) | None \<Rightarrow> KOk ([], False, t, s)) (\<lambda>(out, reset, t, s).
          let (out', t') = tty_cursor reset False t in KOk (out @ out', t', s))
        else KOk ([TTY_EXIT], t, s)) = KOk (out, t', s')"
    using assms(1) True by (simp add: tty_turn_def)
  then obtain u where u: "proc_get_uid src s = KOk u"
    and run: "(if u = PROC_UID_KERNEL then
          kbind (case req of Some q \<Rightarrow> tty_request src q (t, s) | None \<Rightarrow> KOk ([], False, t, s)) (\<lambda>(out, reset, t, s).
          let (out', t') = tty_cursor reset False t in KOk (out @ out', t', s))
        else KOk ([TTY_EXIT], t, s)) = KOk (out, t', s')"
    unfolding kbind_KOk_iff by blast
  show ?thesis
  proof (cases "u = PROC_UID_KERNEL")
    case False
    then show ?thesis using run assms(2) by (auto simp: delivered_def split: option.splits dev_request.splits)
  next
    case kernel: True
    with run obtain o1 reset t1 s1 where
      q: "(case req of Some q \<Rightarrow> tty_request src q (t, s) | None \<Rightarrow> KOk ([], False, t, s)) = KOk (o1, reset, t1, s1)"
      and o: "out = o1 @ fst (tty_cursor reset False t1)" "t' = snd (tty_cursor reset False t1)" "s' = s1"
      by (auto simp: kbind_KOk_iff Let_def case_prod_beta)
    have c: "same_input t1 t'" unfolding o(2) by (rule same_cursor)
    show ?thesis
    proof (cases req)
      case None
      then show ?thesis using q same_input_ok [OF c] assms(2) by (simp add: delivered_def)
    next
      case (Some rq)
      then have r: "tty_request src rq (t, s) = KOk (o1, reset, t1, s1)" using q by simp
      have "o1 \<noteq> []" using r by (cases rq) (auto simp: kbind_KOk_iff split: option.splits if_splits)
      then have "delivered t req out (ram s') = delivered t (Some rq) o1 (ram s1)"
        by (cases o1) (auto simp: o Some delivered_def split: dev_request.splits tty_out.splits)
      then show ?thesis using request_ok [OF r assms(2)] same_input_ok [OF c] by simp
    qed
  qed
qed

lemma run_ok:
  "tty_run t ks g \<Longrightarrow> input_ok t \<and> concat g @ ring_queue (visible t) = ks \<and> (\<forall>x \<in> set g. 10 \<notin> set (butlast x))"
proof (induction rule: tty_run.induct)
  case (start self t)
  show ?case using same_input_ok [OF same_setup] init_ok [of self t] by simp
next
  case (banner t ks g c c' t')
  then have "same_input t t'" by (auto simp: tty_putchar_def kbind_KOk_iff dest: same_putc)
  then show ?case using same_input_ok banner.IH by simp
next
  case (key t ks g code s t' s')
  from keyboard_ok [OF key.hyps(3) _ key.hyps(2)] key.IH show ?case by auto
next
  case (turn t ks g src req s out t' s')
  from turn_ok [OF turn.hyps(2)] turn.IH show ?case by auto
qed

text \<open>C31. What is typed on the visible terminal reaches its readers unchanged, in order and line by line: in every run of
  the terminal driver from its start, with any codes from the keyboard, output, requests and events in any order, the bytes
  the readers have found in their buffers, followed by what still waits in the ring, are exactly the keys that were
  accepted, and no read goes beyond the end of a line. The one exception is a code that arrives when the write pointer is
  255 and the read pointer 0: there the test for a full ring fails and the whole ring is lost.\<close>

theorem tty_delivers_typed_lines:
  assumes "tty_run t ks g"
  shows "concat g @ ring_queue (visible t) = ks \<and> (\<forall>x \<in> set g. 10 \<notin> set (butlast x))"
  using run_ok [OF assms] by simp

section \<open>A line is typed and read\<close>

definition tty_demo :: kstate where
  "tty_demo = \<lparr>blk_sts = (\<lambda>_. 0), last_base = 0, last_msk = 0, ram = (\<lambda>_. 0), mmu = undefined,
     proc_table = (\<lambda>p. \<lparr>pl_d = zero_desc\<lparr>p_state := ST_STOPPED\<rparr>, pl_pid = p, pl_next = None, pl_prev = None\<rparr>),
     proc_ready = None, proc_free = None, proc_ptr = None\<rparr>"

definition demo_at :: "tty_attr \<Rightarrow> tty \<Rightarrow> bool" where
  "demo_at pt t \<longleftrightarrow> tty_ptr t = 0 \<and> tty_table t \<noteq> [] \<and> tty_table t ! 0 = pt \<and> tty_pid t = 5 \<and> kbd_break t = 0 \<and> kbd_shifted t = 0"

lemma demo_sig: "proc_sig 5 SIGALRM tty_demo = KOk tty_demo"
  by (simp add: proc_sig_def entry_def K_PROC_COUNT_def tty_demo_def zero_desc_def)

lemma demo_start: "demo_at (zero_tty\<lparr>py := 1, tty_flags := TTY_FLAG_ECHO OR TTY_FLAG_CURSOR\<rparr>) (tty_setup_fb (tty_init 5 t))"
  by (simp add: demo_at_def tty_init_def K_TTY_COUNT_def)

lemma demo_quiet:
  assumes "demo_at pt t"
  shows "\<exists>t'. tty_turn 3 (Some (DEV_IOCTL 0 0 2 0)) (t, tty_demo) = KOk ([TTY_ANS 3 0], t', tty_demo) \<and> demo_at (pt\<lparr>tty_flags := 0\<rparr>) t'"
  using assms
  by (simp add: tty_turn_def proc_get_uid_def entry_def K_PROC_COUNT_def tty_demo_def zero_desc_def PROC_UID_KERNEL_def
      minor_tty_def K_TTY_COUNT_def TTY_IOCTL_KBD_POS_def TTY_IOCTL_SET_FLAGS_def tty_cursor_def demo_at_def upd_tty_def)

lemma demo_key:
  assumes "demo_at pt t" and "code = 0x1C \<and> k = 113 \<or> code = 0x5A \<and> k = 10" and "ring_has_room pt"
  shows "\<exists>t'. keyboard_interrupt code (t, tty_demo) = KOk (t', tty_demo) \<and> demo_at (ring_put k pt) t' \<and> typed code t = [k]"
  using assms demo_sig
  by (auto simp: keyboard_interrupt_def kbd_decode_def typed_def ps2_codes_tbl_def demo_at_def upd_tty_def Let_def)

lemma demo_refresh_one:
  assumes "demo_at pt t" and "tty_flags pt = 0"
  shows "\<exists>t'. tty_refresh_one t = KOk t' \<and> demo_at (pt\<lparr>i_dp := i_dp pt + 1,
    i_nline := i_nline pt + (if (ucast (i_buf pt ! unat (i_dp pt)) :: u8) = 10 then 1 else 0)\<rparr>) t'"
  using assms by (auto simp: tty_refresh_one_def demo_at_def upd_tty_def Let_def)

definition demo_line :: tty_attr where
  "demo_line = ring_put 10 (ring_put 113 (zero_tty\<lparr>py := 1, tty_flags := 0\<rparr>))"

lemma demo_line_simps:
  "i_dp demo_line = 0" "i_wp demo_line = 2" "i_rp demo_line = 0" "i_nline demo_line = 0" "tty_flags demo_line = 0"
  "i_buf demo_line ! 0 = 113" "i_buf demo_line ! 1 = 10" "i_buf demo_line ! Suc 0 = 10"
  by (simp_all add: demo_line_def ring_put_def zero_tty_def)

lemma demo_event:
  assumes "demo_at demo_line t"
  shows "\<exists>t' out. tty_turn (- 2) None (t, tty_demo) = KOk (out, t', tty_demo) \<and>
    demo_at (demo_line\<lparr>i_dp := 2, i_nline := 1, ptoggle := 1\<rparr>) t'"
proof -
  have a: "demo_at demo_line (gpu_start_dl t)" using assms by (simp add: demo_at_def)
  obtain t1 where t1: "tty_refresh_one (gpu_start_dl t) = KOk t1" "demo_at (demo_line\<lparr>i_dp := 1, i_nline := 0\<rparr>) t1"
    using demo_refresh_one [OF a] by (auto simp: demo_line_simps)
  obtain t2 where t2: "tty_refresh_one t1 = KOk t2" "demo_at (demo_line\<lparr>i_dp := 2, i_nline := 1\<rparr>) t2"
    using demo_refresh_one [OF t1(2)] by (auto simp: demo_line_simps)
  note n = tty_refresh.simps(2) [of 255, simplified] tty_refresh.simps(2) [of 254, simplified]
  have r0: "tty_refresh 254 t2 = KOk t2" using t2(2) by (simp add: numeral_eq_Suc demo_at_def demo_line_simps Let_def)
  have "tty_refresh 256 (gpu_start_dl t) = KOk t2"
    using a t1 t2 r0 by (simp add: n demo_at_def demo_line_simps Let_def del: One_nat_def)
  then show ?thesis using t2(2) assms
    by (auto simp: tty_turn_def tty_event_def tty_cursor_def Let_def demo_at_def upd_tty_def demo_line_simps case_prod_beta)
qed

lemma demo_read:
  assumes "demo_at (demo_line\<lparr>i_dp := 2, i_nline := 1, ptoggle := 1\<rparr>) t"
  shows "\<exists>t' s'. tty_turn 3 (Some (DEV_READ 0 0 0x100 80)) (t, tty_demo) = KOk ([TTY_ANS 3 2], t', s') \<and>
    delivered t (Some (DEV_READ 0 0 0x100 80)) [TTY_ANS 3 2] (ram s') = [[113, 10]] \<and> i_rp (visible t') = i_wp (visible t')"
proof -
  note n = tty_read_loop.simps(2) [of 255, simplified] tty_read_loop.simps(2) [of 254, simplified]
  have "tty_read 0x100 80 (demo_line\<lparr>i_dp := 2, i_nline := 1, ptoggle := 1\<rparr>, ram tty_demo) =
    KOk (2, demo_line\<lparr>i_dp := 2, i_nline := 0, ptoggle := 1, i_rp := 2\<rparr>, (ram tty_demo)(0x100 := 113, 0x101 := 10))"
    unfolding tty_read_def by (simp add: n demo_line_simps Let_def)
  then show ?thesis using assms
    by (simp add: tty_turn_def proc_get_uid_def entry_def K_PROC_COUNT_def tty_demo_def zero_desc_def PROC_UID_KERNEL_def
      minor_tty_def K_TTY_COUNT_def tty_cursor_def demo_at_def upd_tty_def delivered_def demo_line_simps upt_rec)
qed

theorem tty_delivers_typed_lines_witness: "\<exists>t. tty_run t [113, 10] [[113, 10]] \<and> ring_queue (visible t) = []"
proof -
  obtain t :: tty where True by simp
  have r0: "tty_run (tty_setup_fb (tty_init 5 t)) [] []" by (rule start)
  obtain t1 where t1: "tty_turn 3 (Some (DEV_IOCTL 0 0 2 0)) (tty_setup_fb (tty_init 5 t), tty_demo) = KOk ([TTY_ANS 3 0], t1, tty_demo)"
    "demo_at (zero_tty\<lparr>py := 1, tty_flags := 0\<rparr>) t1" using demo_quiet [OF demo_start, of t] by auto
  have r1: "tty_run t1 [] []" using turn [OF r0 t1(1)] by (simp add: delivered_def)
  obtain t2 where t2: "keyboard_interrupt 0x1C (t1, tty_demo) = KOk (t2, tty_demo)"
    "demo_at (ring_put 113 (zero_tty\<lparr>py := 1, tty_flags := 0\<rparr>)) t2" "typed 0x1C t1 = [113]"
    using demo_key [OF t1(2), of "0x1C" 113] by (auto simp: ring_has_room_def zero_tty_def)
  have "\<not> overrun t1" using t1(2) by (simp add: overrun_def demo_at_def zero_tty_def)
  from key [OF r1 this t2(1)] have r2: "tty_run t2 [113] []" using t2(3) by simp
  obtain t3 where t3: "keyboard_interrupt 0x5A (t2, tty_demo) = KOk (t3, tty_demo)" "demo_at demo_line t3" "typed 0x5A t2 = [10]"
    using demo_key [OF t2(2), of "0x5A" 10] by (auto simp: ring_has_room_def zero_tty_def ring_put_def demo_line_def)
  have "\<not> overrun t2" using t2(2) by (simp add: overrun_def demo_at_def zero_tty_def ring_put_def)
  from key [OF r2 this t3(1)] have r3: "tty_run t3 [113, 10] []" using t3(3) by simp
  obtain t4 out where t4: "tty_turn (- 2) None (t3, tty_demo) = KOk (out, t4, tty_demo)"
    "demo_at (demo_line\<lparr>i_dp := 2, i_nline := 1, ptoggle := 1\<rparr>) t4" using demo_event [OF t3(2)] by blast
  have r4: "tty_run t4 [113, 10] []" using turn [OF r3 t4(1)] by (simp add: delivered_def)
  obtain t5 s5 where t5: "tty_turn 3 (Some (DEV_READ 0 0 0x100 80)) (t4, tty_demo) = KOk ([TTY_ANS 3 2], t5, s5)"
    "delivered t4 (Some (DEV_READ 0 0 0x100 80)) [TTY_ANS 3 2] (ram s5) = [[113, 10]]" using demo_read [OF t4(2)] by blast
  have r5: "tty_run t5 [113, 10] [[113, 10]]" using turn [OF r4 t5(1)] t5(2) by simp
  from tty_delivers_typed_lines [OF r5] r5 show ?thesis by auto
qed

end
