(* ===== verification/TtyScreen.thy ===== *)
theory TtyScreen
  imports TtyInput
begin

text \<open>
  The text screen: the cursor never leaves it, no turn of the task indexes an array out of its bounds, and what a
  fresh terminal shows is the end of the text that has been written to it.
\<close>

section \<open>Loops over the screen\<close>

definition SCREEN :: nat where "SCREEN = TTY_COLS * TTY_ROWS"

lemma screen_num: "TTY_COLS = 80" "TTY_ROWS = 48" "SCREEN = 3840"
  by (simp_all add: SCREEN_def TTY_COLS_def TTY_ROWS_def)

lemma screen_clear_ok:
  assumes "length scr = SCREEN" and "\<And>x. x \<in> set xs \<Longrightarrow> x + unat y * TTY_COLS < SCREEN"
  shows "\<exists>scr'. screen_clear xs y scr = KOk scr' \<and> length scr' = SCREEN \<and>
    (\<forall>k < SCREEN. scr' ! k = (if k \<in> (\<lambda>x. x + unat y * TTY_COLS) ` set xs then 0 else scr ! k))"
  using assms
proof (induction xs arbitrary: scr)
  case (Cons x xs)
  let ?k = "x + unat y * TTY_COLS"
  have k: "?k < length scr" using Cons.prems by simp
  obtain scr' where r: "screen_clear xs y (scr[?k := 0]) = KOk scr'" "length scr' = SCREEN"
    "\<forall>k < SCREEN. scr' ! k = (if k \<in> (\<lambda>x. x + unat y * TTY_COLS) ` set xs then 0 else scr[?k := 0] ! k)"
    using Cons.IH [of "scr[?k := 0]"] Cons.prems by auto
  have "screen_clear (x # xs) y scr = KOk scr'" using k r(1) by (simp add: screen_set_def)
  moreover have "\<forall>j < SCREEN. scr' ! j = (if j \<in> (\<lambda>x. x + unat y * TTY_COLS) ` set (x # xs) then 0 else scr ! j)"
    using r(3) k by (auto simp: nth_list_update Cons.prems(1))
  ultimately show ?case using r(2) by blast
qed simp

lemma screen_scroll_append: "screen_scroll (xs @ ys) scr = kbind (screen_scroll xs scr) (screen_scroll ys)"
proof (induction xs arbitrary: scr)
  case (Cons x xs)
  have "screen_scroll (xs @ ys) = (\<lambda>s. kbind (screen_scroll xs s) (screen_scroll ys))" by (rule ext) (rule Cons.IH)
  then show ?case by (simp add: kbind_assoc)
qed simp

lemma screen_scroll_ok:
  assumes "length scr = SCREEN" and "n + TTY_COLS \<le> SCREEN"
  shows "\<exists>scr'. screen_scroll [0..<n] scr = KOk scr' \<and> length scr' = SCREEN \<and>
    (\<forall>k < SCREEN. scr' ! k = (if k < n then scr ! (k + TTY_COLS) else scr ! k))"
  using assms(2)
proof (induction n)
  case 0
  then show ?case using assms(1) by simp
next
  case (Suc n)
  then obtain s1 where s1: "screen_scroll [0..<n] scr = KOk s1" "length s1 = SCREEN"
    "\<forall>k < SCREEN. s1 ! k = (if k < n then scr ! (k + TTY_COLS) else scr ! k)" by auto
  have "n + TTY_COLS < length s1" "n < length s1" using Suc.prems s1(2) by (simp_all add: screen_num)
  then have "screen_scroll [n] s1 = KOk (s1[n := s1 ! (n + TTY_COLS)])" by (simp add: screen_set_def)
  then have "screen_scroll [0..<Suc n] scr = KOk (s1[n := s1 ! (n + TTY_COLS)])"
    using s1(1) by (simp add: screen_scroll_append)
  moreover have "\<forall>k < SCREEN. s1[n := s1 ! (n + TTY_COLS)] ! k = (if k < Suc n then scr ! (k + TTY_COLS) else scr ! k)"
    using s1(2,3) Suc.prems by (auto simp: nth_list_update screen_num less_Suc_eq)
  ultimately show ?case using s1(2) by auto
qed

section \<open>Cells and the cursor\<close>

definition cell :: "tty_attr \<Rightarrow> nat \<Rightarrow> nat \<Rightarrow> u16" where
  "cell p x y = screen p ! (x + y * TTY_COLS)"

definition attr_wf :: "tty_attr \<Rightarrow> bool" where
  "attr_wf p \<longleftrightarrow> length (screen p) = SCREEN \<and> unat (px p) < TTY_COLS \<and> unat (py p) < TTY_ROWS \<and> length (i_buf p) = 256"

lemma cell_index: "x < TTY_COLS \<Longrightarrow> y < TTY_ROWS \<Longrightarrow> x + y * TTY_COLS < SCREEN"
  by (simp add: screen_num)

lemma cell_inj: "x < TTY_COLS \<Longrightarrow> x' < TTY_COLS \<Longrightarrow> x + y * TTY_COLS = x' + y' * TTY_COLS \<longleftrightarrow> x = x' \<and> y = y'"
proof
  assume l: "x < TTY_COLS" "x' < TTY_COLS" and e: "x + y * TTY_COLS = x' + y' * TTY_COLS"
  from l have "x = (x + y * TTY_COLS) mod TTY_COLS" "x' = (x' + y' * TTY_COLS) mod TTY_COLS"
    "y = (x + y * TTY_COLS) div TTY_COLS" "y' = (x' + y' * TTY_COLS) div TTY_COLS" by simp_all
  then show "x = x' \<and> y = y'" using e by metis
qed simp

lemma clear_row:
  assumes "length scr = SCREEN" and "unat y < TTY_ROWS"
  obtains scr' where "screen_clear [0..<TTY_COLS] y scr = KOk scr'" and "length scr' = SCREEN"
    and "\<And>x z. x < TTY_COLS \<Longrightarrow> z < TTY_ROWS \<Longrightarrow> scr' ! (x + z * TTY_COLS) = (if z = unat y then 0 else scr ! (x + z * TTY_COLS))"
proof -
  have i: "x \<in> set [0..<TTY_COLS] \<Longrightarrow> x + unat y * TTY_COLS < SCREEN" for x using cell_index [of x "unat y"] assms(2) by simp
  obtain scr' where r: "screen_clear [0..<TTY_COLS] y scr = KOk scr'" "length scr' = SCREEN"
    "\<forall>k < SCREEN. scr' ! k = (if k \<in> (\<lambda>x. x + unat y * TTY_COLS) ` set [0..<TTY_COLS] then 0 else scr ! k)"
    using screen_clear_ok [OF assms(1) i] by blast
  have "scr' ! (x + z * TTY_COLS) = (if z = unat y then 0 else scr ! (x + z * TTY_COLS))" if "x < TTY_COLS" "z < TTY_ROWS" for x z
  proof -
    have "x + z * TTY_COLS \<in> (\<lambda>x. x + unat y * TTY_COLS) ` set [0..<TTY_COLS] \<longleftrightarrow> z = unat y"
    proof
      assume "x + z * TTY_COLS \<in> (\<lambda>x. x + unat y * TTY_COLS) ` set [0..<TTY_COLS]"
      then obtain x' where "x' \<in> set [0..<TTY_COLS]" "x + z * TTY_COLS = x' + unat y * TTY_COLS" by (rule imageE)
      with that(1) cell_inj [of x x' z "unat y"] show "z = unat y" by simp
    next
      assume "z = unat y"
      with that(1) show "x + z * TTY_COLS \<in> (\<lambda>x. x + unat y * TTY_COLS) ` set [0..<TTY_COLS]" by (intro image_eqI [of _ _ x]) simp_all
    qed
    with r(3) cell_index [OF that] show ?thesis by simp
  qed
  from that [OF r(1,2) this] show thesis .
qed

text \<open>What a character does to the cells and the cursor of a terminal.\<close>

definition putc_effect :: "u8 \<Rightarrow> tty_attr \<Rightarrow> tty_attr \<Rightarrow> bool" where
  "putc_effect c p p' \<longleftrightarrow>
     (if c = 10 then
        unat (px p') = 0 \<and> unat (py p') = min (TTY_ROWS - 1) (unat (py p) + 1) \<and>
        (\<forall>x < TTY_COLS. \<forall>y < TTY_ROWS. cell p' x y =
          (if y = unat (py p') then 0 else if unat (py p) < TTY_ROWS - 1 then cell p x y else cell p x (y + 1)))
      else
        unat (px p') = min (TTY_COLS - 1) (unat (px p) + 1) \<and> py p' = py p \<and>
        (\<forall>x < TTY_COLS. \<forall>y < TTY_ROWS. cell p' x y = (if x = unat (px p) \<and> y = unat (py p) then ucast c else cell p x y)))"

lemma unat_Suc_u8: "unat (x :: u8) < 255 \<Longrightarrow> unat (x + 1) = unat x + 1"
  by (simp add: unat_word_ariths)

lemma putc_newline:
  assumes "i < length (tty_table t)" and "attr_wf (tty_table t ! i)" and "unat (py (tty_table t ! i)) < TTY_ROWS - 1"
  shows "\<exists>t'. tty_putc i 10 t = KOk t' \<and> attr_wf (tty_table t' ! i) \<and> putc_effect 10 (tty_table t ! i) (tty_table t' ! i) \<and>
    (\<forall>j. j \<noteq> i \<longrightarrow> tty_table t' ! j = tty_table t ! j)"
proof -
  let ?p = "tty_table t ! i"
  have wf: "length (screen ?p) = SCREEN" "length (i_buf ?p) = 256" using assms(2) by (simp_all add: attr_wf_def)
  have y: "unat (py ?p + 1) = unat (py ?p) + 1" using assms(3) by (intro unat_Suc_u8) (simp add: screen_num)
  have yr: "unat (py ?p + 1) < TTY_ROWS" using y assms(3) by simp
  obtain scr where s: "screen_clear [0..<TTY_COLS] (py ?p + 1) (screen ?p) = KOk scr" "length scr = SCREEN"
    "\<And>x z. x < TTY_COLS \<Longrightarrow> z < TTY_ROWS \<Longrightarrow>
      scr ! (x + z * TTY_COLS) = (if z = unat (py ?p + 1) then 0 else screen ?p ! (x + z * TTY_COLS))"
    using clear_row [OF wf(1) yr] by blast
  obtain t' where t': "tty_putc i 10 t = KOk t'" "tty_table t' = (tty_table t)[i := ?p\<lparr>px := 0, py := py ?p + 1, screen := scr\<rparr>]"
    using s(1) assms(1,3) by (simp add: tty_putc_def Let_def upd_tty_def)
  then have p: "tty_table t' ! i = ?p\<lparr>px := 0, py := py ?p + 1, screen := scr\<rparr>" using assms(1) by simp
  have "attr_wf (tty_table t' ! i)" using wf s(2) yr by (simp add: p attr_wf_def screen_num)
  moreover have "putc_effect 10 ?p (tty_table t' ! i)"
    using s(3) assms(3) y by (simp add: putc_effect_def p cell_def)
  ultimately show ?thesis using t' by simp
qed

lemma putc_scroll:
  assumes "i < length (tty_table t)" and "attr_wf (tty_table t ! i)" and "\<not> unat (py (tty_table t ! i)) < TTY_ROWS - 1"
  shows "\<exists>t'. tty_putc i 10 t = KOk t' \<and> attr_wf (tty_table t' ! i) \<and> putc_effect 10 (tty_table t ! i) (tty_table t' ! i) \<and>
    (\<forall>j. j \<noteq> i \<longrightarrow> tty_table t' ! j = tty_table t ! j)"
proof -
  let ?p = "tty_table t ! i"
  have wf: "length (screen ?p) = SCREEN" "length (i_buf ?p) = 256" "unat (py ?p) < TTY_ROWS" using assms(2) by (simp_all add: attr_wf_def)
  have y: "unat (py ?p) = TTY_ROWS - 1" using assms(3) wf(3) by simp
  have "TTY_COLS * (TTY_ROWS - 1) + TTY_COLS \<le> SCREEN" by (simp add: screen_num)
  from screen_scroll_ok [OF wf(1) this] obtain s1 where
    s1: "screen_scroll [0..<TTY_COLS * (TTY_ROWS - 1)] (screen ?p) = KOk s1" "length s1 = SCREEN"
    "\<forall>k < SCREEN. s1 ! k = (if k < TTY_COLS * (TTY_ROWS - 1) then screen ?p ! (k + TTY_COLS) else screen ?p ! k)" by blast
  obtain scr where s: "screen_clear [0..<TTY_COLS] (py ?p) s1 = KOk scr" "length scr = SCREEN"
    "\<And>x z. x < TTY_COLS \<Longrightarrow> z < TTY_ROWS \<Longrightarrow> scr ! (x + z * TTY_COLS) = (if z = unat (py ?p) then 0 else s1 ! (x + z * TTY_COLS))"
    using clear_row [OF s1(2) wf(3)] by blast
  obtain t' where t': "tty_putc i 10 t = KOk t'" "tty_table t' = (tty_table t)[i := ?p\<lparr>px := 0, screen := scr\<rparr>]"
    using s1(1) s(1) assms(1,3) by (simp add: tty_putc_def Let_def upd_tty_def)
  then have p: "tty_table t' ! i = ?p\<lparr>px := 0, screen := scr\<rparr>" using assms(1) by simp
  have "s1 ! (x + z * TTY_COLS) = screen ?p ! (x + (z + 1) * TTY_COLS)" if "x < TTY_COLS" "z < TTY_ROWS" "z \<noteq> TTY_ROWS - 1" for x z
  proof -
    have "x + z * TTY_COLS < TTY_COLS * (TTY_ROWS - 1)" using that by (simp add: screen_num)
    then show ?thesis using s1(3) cell_index [OF that(1,2)] by (simp add: add_ac)
  qed
  then have "cell (tty_table t' ! i) x z = (if z = TTY_ROWS - 1 then 0 else cell ?p x (z + 1))" if "x < TTY_COLS" "z < TTY_ROWS" for x z
    using s(3) [OF that] that y by (simp add: p cell_def)
  moreover have "attr_wf (tty_table t' ! i)" using wf s(2) by (simp add: p attr_wf_def screen_num)
  moreover have "unat (px (tty_table t' ! i)) = 0" "py (tty_table t' ! i) = py ?p" by (simp_all add: p)
  ultimately show ?thesis using t' assms(1,3) y by (simp add: putc_effect_def)
qed

lemma putc_char:
  assumes "i < length (tty_table t)" and "attr_wf (tty_table t ! i)" and "c \<noteq> 10"
  shows "\<exists>t'. tty_putc i c t = KOk t' \<and> attr_wf (tty_table t' ! i) \<and> putc_effect c (tty_table t ! i) (tty_table t' ! i) \<and>
    (\<forall>j. j \<noteq> i \<longrightarrow> tty_table t' ! j = tty_table t ! j)"
proof -
  let ?p = "tty_table t ! i"
  let ?k = "unat (px ?p) + unat (py ?p) * TTY_COLS"
  have wf: "length (screen ?p) = SCREEN" "length (i_buf ?p) = 256" "unat (py ?p) < TTY_ROWS" "unat (px ?p) < TTY_COLS"
    using assms(2) by (simp_all add: attr_wf_def)
  have k: "?k < length (screen ?p)" using cell_index [OF wf(4,3)] wf(1) by simp
  let ?x = "if unat (px ?p) < TTY_COLS - 1 then px ?p + 1 else px ?p"
  have x: "unat ?x = min (TTY_COLS - 1) (unat (px ?p) + 1)"
    using unat_Suc_u8 [of "px ?p"] wf(4) by (auto simp: screen_num)
  let ?s = "(screen ?p)[?k := ucast c]"
  define q where "q = (if unat (px ?p) < TTY_COLS - 1 then ?p\<lparr>screen := ?s, px := px ?p + 1\<rparr> else ?p\<lparr>screen := ?s\<rparr>)"
  have q: "screen q = ?s" "px q = ?x" "py q = py ?p" "i_buf q = i_buf ?p" by (simp_all add: q_def)
  have "\<exists>t'. tty_putc i c t = KOk t' \<and> tty_table t' = (tty_table t)[i := q]"
    using k assms(1,3) by (cases "i = tty_ptr t") (simp_all add: tty_putc_def Let_def upd_tty_def screen_set_def q_def)
  then obtain t' where t': "tty_putc i c t = KOk t'" "tty_table t' = (tty_table t)[i := q]" by blast
  then have p: "tty_table t' ! i = q" using assms(1) by simp
  have "attr_wf q" using wf x by (simp add: attr_wf_def screen_num q)
  moreover have "cell q a b = (if a = unat (px ?p) \<and> b = unat (py ?p) then ucast c else cell ?p a b)"
    if "a < TTY_COLS" "b < TTY_ROWS" for a b
    using k cell_inj [OF that(1) wf(4), of b "unat (py ?p)"] by (auto simp: cell_def q nth_list_update)
  then have "putc_effect c ?p q" using x assms(3) by (simp add: putc_effect_def q)
  ultimately show ?thesis using t' p by simp
qed

lemma putc_ok:
  assumes "i < length (tty_table t)" and "attr_wf (tty_table t ! i)"
  shows "\<exists>t'. tty_putc i c t = KOk t' \<and> attr_wf (tty_table t' ! i) \<and> putc_effect c (tty_table t ! i) (tty_table t' ! i) \<and>
    (\<forall>j. j \<noteq> i \<longrightarrow> tty_table t' ! j = tty_table t ! j)"
proof (cases "c = 10")
  case True
  then show ?thesis using putc_newline [OF assms] putc_scroll [OF assms] by (cases "unat (py (tty_table t ! i)) < TTY_ROWS - 1") simp_all
next
  case False
  then show ?thesis by (rule putc_char [OF assms])
qed

section \<open>No turn leaves the arrays\<close>

definition tty_wf :: "tty \<Rightarrow> bool" where
  "tty_wf t \<longleftrightarrow> length (tty_table t) = K_TTY_COUNT \<and> tty_ptr t < K_TTY_COUNT \<and> (\<forall>j < K_TTY_COUNT. attr_wf (tty_table t ! j))"

lemma tty_wf_cong:
  "tty_wf t \<Longrightarrow> tty_ptr t' = tty_ptr t \<Longrightarrow> tty_table t' = tty_table t \<Longrightarrow> tty_wf t'"
  by (simp add: tty_wf_def)

lemma tty_wf_display [simp]:
  "tty_wf (gpu_start_dl t) = tty_wf t" "tty_wf (gpu_flush_dl t) = tty_wf t" "tty_wf (gpu_draw x y c lut t) = tty_wf t"
  "tty_wf (tty_setup_fb t) = tty_wf t"
  by (simp_all add: tty_wf_def)

lemma tty_wf_upd: "tty_wf t \<Longrightarrow> (\<And>p. attr_wf p \<Longrightarrow> attr_wf (f p)) \<Longrightarrow> tty_wf (upd_tty i f t)"
  by (cases "i < length (tty_table t)") (auto simp: tty_wf_def upd_tty_def nth_list_update list_update_beyond)

lemma tty_wf_set: "tty_wf t \<Longrightarrow> attr_wf q \<Longrightarrow> tty_wf (upd_tty i (\<lambda>_. q) t)"
  by (rule tty_wf_upd)

lemma tty_wf_init: "tty_wf (tty_init self t)"
  by (simp add: tty_wf_def tty_init_def K_TTY_COUNT_def zero_tty_def attr_wf_def screen_num nth_Cons')

lemma putc_wf:
  assumes "tty_wf t" and "i < K_TTY_COUNT"
  shows "\<exists>t'. tty_putc i c t = KOk t' \<and> tty_wf t'"
proof -
  obtain t' where t': "tty_putc i c t = KOk t'" "attr_wf (tty_table t' ! i)" "\<forall>j. j \<noteq> i \<longrightarrow> tty_table t' ! j = tty_table t ! j"
    using putc_ok [of i t c] assms by (auto simp: tty_wf_def)
  have "attr_wf (tty_table t' ! j)" if "j < K_TTY_COUNT" for j
    using t'(2,3) assms that by (cases "j = i") (auto simp: tty_wf_def)
  then have "tty_wf t'" using same_visible [OF same_putc [OF t'(1)]] assms by (simp add: tty_wf_def)
  with t'(1) show ?thesis by blast
qed

lemma write_wf: "tty_wf t \<Longrightarrow> i < K_TTY_COUNT \<Longrightarrow> \<exists>t'. tty_write_loop r i p n t = KOk t' \<and> tty_wf t'"
proof (induction n arbitrary: p t)
  case (Suc n)
  from putc_wf [OF Suc.prems] obtain t1 where "tty_putc i (r p) t = KOk t1" "tty_wf t1" by blast
  with Suc.IH [OF _ Suc.prems(2)] show ?case by simp
qed simp

lemma refresh_one_wf:
  assumes "tty_wf t"
  obtains t' where "tty_refresh_one t = KOk t'" and "tty_wf t'" and "tty_ptr t' = tty_ptr t"
    and "i_dp (visible t') = i_dp (visible t) + 1" and "i_wp (visible t') = i_wp (visible t)"
proof -
  let ?i = "tty_ptr t" and ?c = "ucast (i_buf (visible t) ! unat (i_dp (visible t))) :: u8"
  let ?t1 = "upd_tty ?i (\<lambda>p. p\<lparr>i_dp := i_dp p + 1\<rparr>) t"
  let ?b = "?c AND 0x80 = 0 \<and> tty_flags (visible t) AND TTY_FLAG_ECHO \<noteq> 0"
  have i: "?i < K_TTY_COUNT" "?i < length (tty_table t)" using assms by (simp_all add: tty_wf_def)
  have w1: "tty_wf ?t1" using assms by (rule tty_wf_upd) (simp add: attr_wf_def)
  have v1: "visible ?t1 = (visible t)\<lparr>i_dp := i_dp (visible t) + 1\<rparr>" using i(2) by (simp add: upd_tty_def)
  obtain t2 where t2: "(if ?b then tty_putc ?i ?c ?t1 else KOk ?t1) = KOk t2" "tty_wf t2" "same_input ?t1 t2"
  proof (cases ?b)
    case True
    then show thesis using putc_wf [OF w1 i(1), of ?c] same_putc that by auto
  next
    case False
    then show thesis using w1 same_refl that by auto
  qed
  let ?t' = "if ?c = 10 then upd_tty ?i (\<lambda>p. p\<lparr>i_nline := i_nline p + 1\<rparr>) t2 else t2"
  have r: "tty_refresh_one t = KOk ?t'" unfolding tty_refresh_one_def Let_def t2(1) by simp
  have w: "tty_wf ?t'" using t2(2) by (auto intro!: tty_wf_upd simp: attr_wf_def)
  note S = same_visible [OF t2(3)]
  have p: "tty_ptr t2 = ?i" "length (tty_table t2) = length (tty_table t)" using S by simp_all
  from S have "tty_in (visible t2) = tty_in (visible ?t1)" by (elim conjE)
  then have e: "tty_in (tty_table t2 ! ?i) = tty_in ((visible t)\<lparr>i_dp := i_dp (visible t) + 1\<rparr>)" unfolding p(1) v1 .
  have "tty_ptr ?t' = ?i" using p(1) by simp
  moreover have "i_dp (tty_table ?t' ! ?i) = i_dp (visible t) + 1" "i_wp (tty_table ?t' ! ?i) = i_wp (visible t)"
    using p i(2) e by (auto simp: upd_tty_def tty_in_def)
  ultimately show thesis using that [OF r w] by simp
qed

lemma refresh_wf:
  "tty_wf t \<Longrightarrow> unat (i_wp (visible t) - i_dp (visible t)) \<le> n \<Longrightarrow> \<exists>t'. tty_refresh n t = KOk t' \<and> tty_wf t'"
proof (induction n arbitrary: t)
  case 0
  then have "i_wp (visible t) = i_dp (visible t)" by (simp add: unat_eq_0)
  then show ?case using 0 by simp
next
  case (Suc n)
  show ?case
  proof (cases "i_dp (visible t) = i_wp (visible t)")
    case True
    then show ?thesis using Suc.prems by simp
  next
    case False
    obtain t1 where t1: "tty_refresh_one t = KOk t1" "tty_wf t1" "tty_ptr t1 = tty_ptr t"
      "i_dp (visible t1) = i_dp (visible t) + 1" "i_wp (visible t1) = i_wp (visible t)"
      using refresh_one_wf [OF Suc.prems(1)] by blast
    have "unat (i_wp (visible t1) - i_dp (visible t1)) \<le> n"
      using unat_dec [of "i_wp (visible t)" "i_dp (visible t)"] False Suc.prems(2) t1(4,5) by simp
    with Suc.IH [OF t1(2)] t1(1) False show ?thesis by simp
  qed
qed

lemma cursor_wf: "tty_wf t \<Longrightarrow> tty_wf (snd (tty_cursor reset draw t))"
  by (auto simp: tty_cursor_def Let_def attr_wf_def intro!: tty_wf_upd)

lemma event_wf:
  assumes "tty_wf t"
  shows "\<exists>out t'. tty_event t = KOk (out, t') \<and> tty_wf t'"
proof -
  have "unat (i_wp (visible (gpu_start_dl t)) - i_dp (visible (gpu_start_dl t))) \<le> 256"
    using unat_u8_less [of "i_wp (visible (gpu_start_dl t)) - i_dp (visible (gpu_start_dl t))"] by simp
  from refresh_wf [OF _ this] assms obtain t1 where t1: "tty_refresh 256 (gpu_start_dl t) = KOk t1" "tty_wf t1" by auto
  have "tty_wf (upd_tty (tty_ptr t1) (\<lambda>p. p\<lparr>ptoggle := 1 - ptoggle p\<rparr>) t1)"
    using t1(2) by (rule tty_wf_upd) (simp add: attr_wf_def)
  note W = cursor_wf [OF this, of "i_dp (visible t) \<noteq> i_wp (visible t)" True]
  obtain out t' where c: "tty_cursor (i_dp (visible t) \<noteq> i_wp (visible t)) True (upd_tty (tty_ptr t1) (\<lambda>p. p\<lparr>ptoggle := 1 - ptoggle p\<rparr>) t1) = (out, t')"
    by (rule prod.exhaust)
  have "tty_event t = KOk (out, t')" unfolding tty_event_def Let_def t1(1) kbind.simps c ..
  with W show ?thesis unfolding c by auto
qed

lemma read_wf:
  assumes "attr_wf pt"
  shows "\<exists>n pt' r'. tty_read dst cnt (pt, r) = KOk (n, pt', r') \<and> attr_wf pt'"
proof (cases "i_nline pt \<noteq> 0 \<and> cnt \<noteq> 0")
  case True
  have "length (ring_queue pt) \<le> 256" using unat_u8_less [of "i_wp pt - i_rp pt"] by simp
  moreover have "0 < unat cnt" using True by (simp add: unat_eq_0 flip: neq0_conv)
  ultimately show ?thesis using read_loop_ring [of pt 256 0 cnt dst r] True assms by (simp add: tty_read_def attr_wf_def)
qed (use assms in \<open>auto simp: tty_read_def\<close>)

text \<open>The pid an IOCTL names is the caller's, which the file system task passes on.\<close>

definition request_pid_ok :: "dev_request option \<Rightarrow> bool" where
  "request_pid_ok req = (case req of Some (DEV_IOCTL mi p rq ptr) \<Rightarrow> 0 \<le> p \<and> p < K_PROC_COUNT | _ \<Rightarrow> True)"

lemma minor_tty_Some: "minor_tty mi = Some i \<Longrightarrow> i < K_TTY_COUNT"
  by (auto simp: minor_tty_def split: if_splits)

lemma request_wf:
  assumes "tty_wf t" and "request_pid_ok (Some req)"
  shows "\<exists>out reset t' s'. tty_request src req (t, s) = KOk (out, reset, t', s') \<and> tty_wf t'"
proof (cases req)
  case (DEV_READ mi seek dst cnt)
  show ?thesis
  proof (cases "minor_tty mi")
    case (Some i)
    have "attr_wf (tty_table t ! i)" using assms(1) minor_tty_Some [OF Some] by (simp add: tty_wf_def)
    from read_wf [OF this, of dst cnt "ram s"] obtain n pt' r' where
      "tty_read dst cnt (tty_table t ! i, ram s) = KOk (n, pt', r')" "attr_wf pt'" by blast
    then show ?thesis using tty_wf_set [OF assms(1)] by (auto simp: DEV_READ Some)
  qed (auto simp: DEV_READ assms(1))
next
  case (DEV_WRITE mi seek p cnt)
  show ?thesis
  proof (cases "minor_tty mi")
    case (Some i)
    from write_wf [OF _ minor_tty_Some [OF Some], of "gpu_start_dl t" "ram s" p "unat cnt"] assms(1)
    show ?thesis by (auto simp: DEV_WRITE Some)
  qed (auto simp: DEV_WRITE assms(1))
next
  case (DEV_IOCTL mi p rq ptr)
  show ?thesis
  proof (cases "minor_tty mi")
    case (Some i)
    have "tty_wf (upd_tty i (\<lambda>p. p\<lparr>tty_flags := ucast ptr\<rparr>) t)" using assms(1) by (rule tty_wf_upd) (simp add: attr_wf_def)
    then show ?thesis using assms by (simp add: DEV_IOCTL Some va_to_pa_def entry_def request_pid_ok_def) blast
  qed (auto simp: DEV_IOCTL assms(1))
qed (auto simp: assms(1))



section \<open>What is shown\<close>

text \<open>The lines of a text; the last one is not finished.\<close>

fun text_lines :: "u8 list \<Rightarrow> u8 list list" where
  "text_lines [] = [[]]"
| "text_lines (c # cs) = (if c = 10 then [] # text_lines cs else (c # hd (text_lines cs)) # tl (text_lines cs))"

lemma text_lines_not_Nil [simp]: "text_lines bs \<noteq> []"
  by (induction bs) auto

lemma text_lines_snoc:
  "text_lines (bs @ [c]) = (if c = 10 then text_lines bs @ [[]] else butlast (text_lines bs) @ [last (text_lines bs) @ [c]])"
proof (induction bs)
  case (Cons b bs)
  obtain l ls where e: "text_lines bs = l # ls" using text_lines_not_Nil by (cases "text_lines bs") auto
  show ?case using Cons.IH by (cases ls) (auto simp: e)
qed simp

text \<open>A line on a row of 80 columns: what does not fit is written over the last column.\<close>

definition row_image :: "u8 list \<Rightarrow> nat \<Rightarrow> u16" where
  "row_image l x = (if x < TTY_COLS - 1 then (if x < length l then ucast (l ! x) else 0)
     else if TTY_COLS \<le> length l then ucast (last l) else 0)"

text \<open>The terminal shows the last 48 of the lines, the first of which stays empty.\<close>

definition shows_text :: "u8 list \<Rightarrow> tty_attr \<Rightarrow> bool" where
  "shows_text bs p \<longleftrightarrow>
     (let ls = [] # text_lines bs; off = length ls - TTY_ROWS in
      unat (px p) = min (TTY_COLS - 1) (length (last ls)) \<and> off + unat (py p) + 1 = length ls \<and>
      (\<forall>x < TTY_COLS. \<forall>y < TTY_ROWS. cell p x y = row_image (if off + y < length ls then ls ! (off + y) else []) x))"

lemma row_image_Nil [simp]: "row_image [] x = 0"
  by (simp add: row_image_def screen_num)

lemma row_image_snoc:
  "x < TTY_COLS \<Longrightarrow> row_image (l @ [c]) x = (if x = min (TTY_COLS - 1) (length l) then ucast c else row_image l x)"
  by (auto simp: row_image_def nth_append screen_num min_def)

lemma shows_newline:
  assumes "shows_text bs p" and "putc_effect 10 p p'"
  shows "shows_text (bs @ [10]) p'"
proof -
  define ls where "ls = [] # text_lines bs"
  let ?n = "length ls"
  have n: "ls \<noteq> []" "length ls \<ge> 2" using text_lines_not_Nil [of bs] by (auto simp: ls_def Suc_le_eq)
  have a: "?n - TTY_ROWS + unat (py p) + 1 = ?n"
    "\<And>x y. x < TTY_COLS \<Longrightarrow> y < TTY_ROWS \<Longrightarrow> cell p x y = row_image (if ?n - TTY_ROWS + y < ?n then ls ! (?n - TTY_ROWS + y) else []) x"
    using assms(1) unfolding shows_text_def Let_def ls_def [symmetric] by blast+
  have b: "unat (px p') = 0" "unat (py p') = min (TTY_ROWS - 1) (unat (py p) + 1)"
    "\<And>x y. x < TTY_COLS \<Longrightarrow> y < TTY_ROWS \<Longrightarrow> cell p' x y =
          (if y = unat (py p') then 0 else if unat (py p) < TTY_ROWS - 1 then cell p x y else cell p x (y + 1))"
    using assms(2) by (simp_all add: putc_effect_def)
  have new: "[] # text_lines (bs @ [10]) = ls @ [[]]" by (simp add: text_lines_snoc ls_def)
  have py: "?n + 1 - TTY_ROWS + unat (py p') + 1 = ?n + 1" using a(1) b(2) n(2) by (simp add: screen_num min_def) linarith
  have c: "cell p' x y = row_image (if ?n + 1 - TTY_ROWS + y < ?n + 1 then (ls @ [[]]) ! (?n + 1 - TTY_ROWS + y) else []) x"
    if "x < TTY_COLS" "y < TTY_ROWS" for x y
  proof (cases "y = unat (py p')")
    case True
    then have "?n + 1 - TTY_ROWS + y = ?n" using py by linarith
    then show ?thesis using b(3) [OF that] True by simp
  next
    case False
    show ?thesis
    proof (cases "unat (py p) < TTY_ROWS - 1")
      case True
      then have o: "?n - TTY_ROWS = 0" "?n + 1 - TTY_ROWS = 0" using a(1) by linarith+
      then have "y \<noteq> ?n" using False py by linarith
      then show ?thesis using b(3) [OF that] a(2) [OF that] False True o by (auto simp: nth_append)
    next
      case full: False
      then have y47: "unat (py p') = TTY_ROWS - 1" using b(2) by simp
      then have y1: "y + 1 < TTY_ROWS" using False that(2) by linarith
      have o: "?n + 1 - TTY_ROWS = ?n - TTY_ROWS + 1" using a(1) full py y47 by linarith
      have "?n - TTY_ROWS + 1 + y < ?n" using py y47 y1 o by linarith
      then show ?thesis using b(3) [OF that] a(2) [OF that(1) y1] False full o by (simp add: nth_append add.commute add.left_commute)
    qed
  qed
  have len: "length (ls @ [[]]) = ?n + 1" by simp
  have "unat (px p') = min (TTY_COLS - 1) (length (last (ls @ [[]])))" using b(1) by simp
  then show ?thesis unfolding shows_text_def new Let_def len using py c by blast
qed

lemma shows_char:
  assumes "shows_text bs p" and "putc_effect c p p'" and "c \<noteq> 10"
  shows "shows_text (bs @ [c]) p'"
proof -
  define ls where "ls = [] # text_lines bs"
  let ?n = "length ls" and ?off = "length ls - TTY_ROWS"
  have n: "ls \<noteq> []" by (simp add: ls_def)
  have last: "last ls = last (text_lines bs)" "ls = butlast ls @ [last ls]" by (simp_all add: ls_def)
  have a: "unat (px p) = min (TTY_COLS - 1) (length (last ls))" "?off + unat (py p) + 1 = ?n"
    "\<And>x y. x < TTY_COLS \<Longrightarrow> y < TTY_ROWS \<Longrightarrow> cell p x y = row_image (if ?off + y < ?n then ls ! (?off + y) else []) x"
    using assms(1) unfolding shows_text_def Let_def ls_def [symmetric] by blast+
  have b: "unat (px p') = min (TTY_COLS - 1) (unat (px p) + 1)" "py p' = py p"
    "\<And>x y. x < TTY_COLS \<Longrightarrow> y < TTY_ROWS \<Longrightarrow> cell p' x y = (if x = unat (px p) \<and> y = unat (py p) then ucast c else cell p x y)"
    using assms(2,3) by (simp_all add: putc_effect_def)
  have new: "[] # text_lines (bs @ [c]) = butlast ls @ [last ls @ [c]]" using assms(3) by (simp add: text_lines_snoc ls_def)
  have len: "length (butlast ls @ [last ls @ [c]]) = ?n" using n by simp
  have nl: "?n - 1 = ?off + unat (py p)" using a(2) by linarith
  have c: "cell p' x y = row_image (if ?off + y < ?n then (butlast ls @ [last ls @ [c]]) ! (?off + y) else []) x"
    if "x < TTY_COLS" "y < TTY_ROWS" for x y
  proof (cases "y = unat (py p)")
    case True
    then have e: "?off + y = length (butlast ls)" using nl by simp
    have "ls ! (?off + y) = last ls" using e last_conv_nth [OF n] by simp
    moreover have "(butlast ls @ [last ls @ [c]]) ! (?off + y) = last ls @ [c]" unfolding e by (rule nth_append_length)
    moreover have "?off + y < ?n" using e n by simp
    ultimately show ?thesis using b(3) [OF that] a(3) [OF that] True a(1) row_image_snoc [OF that(1), of "last ls" c] by simp
  next
    case False
    have "(butlast ls @ [last ls @ [c]]) ! (?off + y) = ls ! (?off + y)" if "?off + y < ?n"
    proof -
      have "?off + y < length (butlast ls)" using that False a(2) by simp
      then show ?thesis by (simp add: nth_append nth_butlast)
    qed
    then show ?thesis using b(3) [OF that] a(3) [OF that] False by simp
  qed
  show ?thesis unfolding shows_text_def new Let_def len using a b(1,2) c by (simp add: min_def)
qed

lemma write_shows:
  assumes "tty_wf t" and "i < K_TTY_COUNT" and "shows_text done (tty_table t ! i)" and "holds r a bs"
  shows "\<exists>t'. tty_write_loop r i a (length bs) t = KOk t' \<and> shows_text (done @ bs) (tty_table t' ! i)"
  using assms
proof (induction bs arbitrary: t a "done")
  case (Cons b bs)
  have i: "i < length (tty_table t)" "attr_wf (tty_table t ! i)" using Cons.prems(1,2) by (simp_all add: tty_wf_def)
  have b: "r a = b" "holds r (a + 1) bs" using Cons.prems(4) holds_append [of r a "[b]" bs] by (simp_all add: holds_def)
  from putc_ok [OF i, of b] obtain t1 where t1: "tty_putc i b t = KOk t1" "putc_effect b (tty_table t ! i) (tty_table t1 ! i)" by blast
  have "shows_text (done @ [b]) (tty_table t1 ! i)"
    using shows_newline [OF Cons.prems(3)] shows_char [OF Cons.prems(3) t1(2)] t1(2) by (cases "b = 10") auto
  moreover have "tty_wf t1" using putc_wf [OF Cons.prems(1,2), of b] t1(1) by simp
  ultimately show ?case using Cons.IH [of t1 "done @ [b]" "a + 1"] Cons.prems(2) b t1(1) by simp
qed simp

lemma fresh_shows: "i < K_TTY_COUNT \<Longrightarrow> shows_text [] (tty_table (tty_init self t) ! i)"
proof -
  assume i: "i < K_TTY_COUNT"
  have "replicate SCREEN (0 :: u16) ! k = 0" if "k < SCREEN" for k using that by simp
  with i show ?thesis using cell_index
    by (simp add: shows_text_def tty_init_def zero_tty_def cell_def SCREEN_def [symmetric])
      (auto simp: screen_num less_Suc_eq numeral_2_eq_2)
qed

text \<open>C33. A terminal shows the end of its text: when bytes are written to a terminal that has just been set up, its
  48 rows hold the last 48 of the lines of the text (after an empty first row), each cut at 80 columns with the
  surplus written over the last column, and the cursor stands behind the last character of the last line.\<close>

theorem tty_shows_text:
  assumes "i < K_TTY_COUNT" and "holds r a bs"
  shows "\<exists>t'. tty_write_loop r i a (length bs) (tty_setup_fb (tty_init self t)) = KOk t' \<and> shows_text bs (tty_table t' ! i)"
  using write_shows [of "tty_setup_fb (tty_init self t)" i "[]" r a bs] fresh_shows [OF assms(1), of self t] tty_wf_init [of self t] assms
  by simp

theorem tty_shows_text_witness:
  "\<exists>t t'. tty_write_loop (put_bytes (\<lambda>_. 0) 0x100 [72, 105, 10, 33]) 2 0x100 4 t = KOk t' \<and> px (tty_table t' ! 2) = 1 \<and> py (tty_table t' ! 2) = 2 \<and>
     cell (tty_table t' ! 2) 1 1 = 105 \<and> cell (tty_table t' ! 2) 0 2 = 33"
proof -
  obtain t :: tty where True by simp
  let ?r = "put_bytes (\<lambda>_. 0) 0x100 [72, 105, 10, 33]" and ?t = "tty_setup_fb (tty_init 5 t)"
  have "holds ?r 0x100 [72, 105, 10, 33]" by (rule put_holds) simp
  from tty_shows_text [OF _ this, of 2 5 t] obtain t' where
    t': "tty_write_loop ?r 2 0x100 4 ?t = KOk t'" "shows_text [72, 105, 10, 33] (tty_table t' ! 2)"
    by (auto simp: K_TTY_COUNT_def numeral_eq_Suc simp del: tty_write_loop.simps)
  have "unat (px (tty_table t' ! 2)) = 1" "unat (py (tty_table t' ! 2)) = 2" using t'(2) by (simp_all add: shows_text_def screen_num Let_def)
  then have "px (tty_table t' ! 2) = 1" "py (tty_table t' ! 2) = 2" by (simp_all add: word_unat_eq_iff)
  moreover have "cell (tty_table t' ! 2) 1 1 = 105" "cell (tty_table t' ! 2) 0 2 = 33"
    using t'(2) by (simp_all add: shows_text_def screen_num Let_def row_image_def)
  ultimately show ?thesis using t'(1) by blast
qed

end
