(* ===== verification/TtyDisplay.thy ===== *)
theory TtyDisplay
  imports TtyScreen
begin

text \<open>
  The display lists of the terminal driver, read back with the format of their words that the comment in
  \<open>_gpu_clear_line\<close> of software/system/kernel/tty.c documents: what the lists draw is what the screen array of the
  visible terminal holds, also across scrolling, which only moves the start of the frame buffer.
\<close>

section \<open>Reading a display list\<close>

text \<open>
  A word with bit 15 clear sets the low 15 bits of the address; with bits 15, 14 = 10 the bits 18 to 15 (and what
  is not needed here); with bits 15, 14 = 11 it moves a block, read (bit 8 clear) or written at the address. The result is
  the list of writes: destination and source of the block.
\<close>

definition dl_addr :: "u16 \<Rightarrow> u16 \<Rightarrow> u32" where
  "dl_addr lo hi = ucast lo + push_bit 6 (ucast (hi AND 0x1E00))"

fun dl_writes :: "u16 \<Rightarrow> u16 \<Rightarrow> u16 \<Rightarrow> u16 list \<Rightarrow> (u32 \<times> u16) list" where
  "dl_writes lo hi src [] = []"
| "dl_writes lo hi src (w # ws) =
     (if w AND 0x8000 = 0 then dl_writes w hi src ws
      else if w AND 0x4000 = 0 then dl_writes lo w src ws
      else if w AND 0x100 = 0 then dl_writes lo hi lo ws
      else (dl_addr lo hi, src) # dl_writes lo hi src ws)"

text \<open>Lists that set all they use, so that their writes do not depend on what comes before.\<close>

definition draws :: "u16 list \<Rightarrow> (u32 \<times> u16) list \<Rightarrow> bool" where
  "draws ws W \<longleftrightarrow> (\<forall>lo hi src rest. \<exists>lo' hi' src'. dl_writes lo hi src (ws @ rest) = W @ dl_writes lo' hi' src' rest)"

lemma draws_Nil: "draws [] []"
  by (auto simp: draws_def)

lemma draws_append:
  assumes "draws a A" and "draws b B"
  shows "draws (a @ b) (A @ B)"
  unfolding draws_def
proof (intro allI)
  fix lo hi src rest
  obtain l h s where 1: "dl_writes lo hi src (a @ (b @ rest)) = A @ dl_writes l h s (b @ rest)"
    using assms(1) unfolding draws_def by blast
  obtain l' h' s' where 2: "dl_writes l h s (b @ rest) = B @ dl_writes l' h' s' rest"
    using assms(2) unfolding draws_def by blast
  show "\<exists>lo' hi' src'. dl_writes lo hi src ((a @ b) @ rest) = (A @ B) @ dl_writes lo' hi' src' rest"
    using 1 2 by auto
qed

lemma draws_fun: "draws ws W \<Longrightarrow> draws ws W' \<Longrightarrow> W = W'"
proof -
  assume a: "draws ws W" "draws ws W'"
  obtain l h s where 1: "dl_writes 0 0 0 (ws @ []) = W @ dl_writes l h s []" using a(1) unfolding draws_def by blast
  obtain l' h' s' where 2: "dl_writes 0 0 0 (ws @ []) = W' @ dl_writes l' h' s' []" using a(2) unfolding draws_def by blast
  show ?thesis using 1 2 by simp
qed

section \<open>Addresses in the frame buffer\<close>

lemma and_mask_mod: "unat (a AND 0x1ffff :: u32) = unat a mod 131072"
proof -
  have "a AND 0x1ffff = take_bit 17 a" by (simp add: take_bit_eq_mask mask_eq_exp_minus_1)
  then show ?thesis by (simp only: unsigned_take_bit_eq) (simp add: take_bit_eq_mod)
qed

lemma unat_plus_mod: "unat ((a :: u32) + of_nat n) = (unat a + n) mod 2 ^ 32"
  by (simp add: unat_word_ariths unat_of_nat mod_add_right_eq)

lemma unat_ROLL_FB: "unat (ROLL_FB a) = 131072 + unat a mod 131072"
proof -
  have "unat (a AND 0x1ffff) + 0x20000 < 2 ^ 32" by (simp add: and_mask_mod)
  then show ?thesis by (simp add: ROLL_FB_def FB_ADDR_def unat_word_ariths and_mask_mod)
qed

lemma unat_fb_cell:
  shows "unat (fb_cell fb x y) = 131072 + (unat fb + 2560 * y + 4 * x) mod 131072"
proof -
  have "fb + of_nat (y * (CSZY div 2 * SPCH)) + of_nat (x * 4) = fb + of_nat (2560 * y + 4 * x)"
    by (simp add: CSZY_def SPCH_def mult.commute)
  then have "unat (fb + of_nat (y * (CSZY div 2 * SPCH)) + of_nat (x * 4)) = (unat fb + 2560 * y + 4 * x) mod 2 ^ 32"
    by (simp only: unat_plus_mod add.assoc)
  moreover have "(unat fb + 2560 * y + 4 * x) mod 2 ^ 32 mod 131072 = (unat fb + 2560 * y + 4 * x) mod 131072"
    by (rule mod_mod_cancel) simp
  ultimately show ?thesis by (simp add: fb_cell_def unat_ROLL_FB)
qed

lemma mod_close: "(a :: nat) mod m = b mod m \<Longrightarrow> a \<le> b \<Longrightarrow> b < a + m \<Longrightarrow> a = b"
proof -
  assume "a mod m = b mod m" "a \<le> b" "b < a + m"
  then have "m dvd b - a" by (simp add: mod_eq_dvd_iff_nat [symmetric])
  moreover have "b - a < m" using \<open>a \<le> b\<close> \<open>b < a + m\<close> by linarith
  ultimately have "b - a = 0" by (meson dvd_imp_le leD neq0_conv)
  with \<open>a \<le> b\<close> show "a = b" by simp
qed

lemma fb_cell_inj:
  assumes "x < TTY_COLS" "x' < TTY_COLS" "y \<le> TTY_ROWS" "y' \<le> TTY_ROWS"
  shows "fb_cell fb x y = fb_cell fb x' y' \<longleftrightarrow> x = x' \<and> y = y'"
proof
  assume "fb_cell fb x y = fb_cell fb x' y'"
  then have "unat (fb_cell fb x y) = unat (fb_cell fb x' y')" by simp
  then have m: "(unat fb + 2560 * y + 4 * x) mod 131072 = (unat fb + 2560 * y' + 4 * x') mod 131072"
    using assms by (simp add: unat_fb_cell screen_num)
  have b: "2560 * y + 4 * x < 131072" "2560 * y' + 4 * x' < 131072" using assms by (simp_all add: screen_num)
  have "unat fb + 2560 * y + 4 * x = unat fb + 2560 * y' + 4 * x'"
  proof (cases "2560 * y + 4 * x \<le> 2560 * y' + 4 * x'")
    case True
    show ?thesis by (rule mod_close [OF m]) (use True b in linarith)+
  next
    case False
    show ?thesis by (rule sym, rule mod_close [OF m [symmetric]]) (use False b in linarith)+
  qed
  then have e: "640 * y + x = 640 * y' + x'" by linarith
  have "x < 640" "x' < 640" using assms by (simp_all add: screen_num)
  then have "x = (640 * y + x) mod 640" "x' = (640 * y' + x') mod 640" by simp_all
  with e have "x = x'" by metis
  with e show "x = x' \<and> y = y'" by simp
qed simp

lemma fb_cell_row:
  assumes "512 dvd unat fb" and "x < TTY_COLS" and "y \<le> TTY_ROWS"
  shows "fb_cell fb x y = fb_cell fb 0 y + of_nat (4 * x)"
proof -
  let ?a = "unat fb + 2560 * y"
  have "512 dvd ?a" using assms(1) by (simp add: dvd_add)
  then have "512 dvd ?a mod 131072" by (simp add: dvd_mod)
  moreover have "?a mod 131072 < 131072" by simp
  ultimately have "?a mod 131072 + 512 \<le> 131072" by (auto elim!: dvdE)
  then have s: "?a mod 131072 + 4 * x < 131072" using assms(2) by (simp add: screen_num)
  have "(?a + 4 * x) mod 131072 = (?a mod 131072 + 4 * x) mod 131072" by (simp add: mod_add_left_eq)
  also have "\<dots> = ?a mod 131072 + 4 * x" using s by simp
  finally have e: "unat (fb_cell fb x y) = unat (fb_cell fb 0 y) + 4 * x" by (simp add: unat_fb_cell)
  have "unat (fb_cell fb 0 y) + 4 * x < 2 ^ 32" using s by (simp add: unat_fb_cell)
  then show ?thesis using e unat_add_of_nat [of "fb_cell fb 0 y" "4 * x"] by (simp add: word_unat_eq_iff)
qed

lemma fb_cell_scroll:
  shows "fb_cell (ROLL_FB (fb + of_nat (CSZY div 2 * SPCH))) x y = fb_cell fb x (y + 1)"
proof -
  have "unat (fb + of_nat (CSZY div 2 * SPCH)) mod 131072 = (unat fb + 2560) mod 131072"
  proof -
    have "unat (fb + of_nat (CSZY div 2 * SPCH)) = (unat fb + 2560) mod 2 ^ 32" by (simp add: unat_word_ariths CSZY_def SPCH_def)
    then show ?thesis by (simp add: mod_mod_cancel)
  qed
  then have "unat (ROLL_FB (fb + of_nat (CSZY div 2 * SPCH))) = 131072 + (unat fb + 2560) mod 131072" by (simp add: unat_ROLL_FB)
  then have "unat (fb_cell (ROLL_FB (fb + of_nat (CSZY div 2 * SPCH))) x y)
      = 131072 + ((unat fb + 2560) mod 131072 + (2560 * y + 4 * x)) mod 131072"
    unfolding unat_fb_cell by (simp add: add.assoc)
  also have "\<dots> = 131072 + (unat fb + 2560 + (2560 * y + 4 * x)) mod 131072" by (simp only: mod_add_left_eq)
  also have "unat fb + 2560 + (2560 * y + 4 * x) = unat fb + 2560 * (y + 1) + 4 * x" by simp
  also have "131072 + (unat fb + 2560 * (y + 1) + 4 * x) mod 131072 = unat (fb_cell fb x (y + 1))" by (simp only: unat_fb_cell)
  finally show ?thesis by (simp add: word_unat_eq_iff)
qed

text \<open>The two address words of a destination give it back.\<close>

lemma bit_power: "bit (push_bit k 1 :: 'a::len word) m \<longleftrightarrow> m = k \<and> m < LENGTH('a)"
  by (simp only: bit_push_bit_iff bit_1_iff) auto

lemma bit_field: "bit (push_bit k (mask n) :: 'a::len word) m \<longleftrightarrow> k \<le> m \<and> m < k + n \<and> m < LENGTH('a)"
  by (auto simp: bit_push_bit_iff bit_mask_iff)

lemma word_bits:
  "bit (0x7fff :: u32) m \<longleftrightarrow> m < 15" "bit (0x78000 :: u32) m \<longleftrightarrow> 15 \<le> m \<and> m < 19" "bit (0x1E00 :: u16) m \<longleftrightarrow> 9 \<le> m \<and> m < 13"
  "bit (0x8000 :: u32) m \<longleftrightarrow> m = 15" "bit (push_bit 4 (4 :: u32)) m \<longleftrightarrow> m = 6"
  "bit (0x8000 :: u16) m \<longleftrightarrow> m = 15" "bit (0x4000 :: u16) m \<longleftrightarrow> m = 14" "bit (0x100 :: u16) m \<longleftrightarrow> m = 8"
proof -
  have c: "(0x7fff :: u32) = push_bit 0 (mask 15)" "(0x78000 :: u32) = push_bit 15 (mask 4)" "(0x1E00 :: u16) = push_bit 9 (mask 4)"
    "(0x8000 :: u32) = push_bit 15 1" "push_bit 4 (4 :: u32) = push_bit 6 1" "(0x8000 :: u16) = push_bit 15 1" "(0x4000 :: u16) = push_bit 14 1"
    "(0x100 :: u16) = push_bit 8 1"
    by (simp_all add: mask_eq_exp_minus_1)
  show "bit (0x7fff :: u32) m \<longleftrightarrow> m < 15" "bit (0x78000 :: u32) m \<longleftrightarrow> 15 \<le> m \<and> m < 19" "bit (0x1E00 :: u16) m \<longleftrightarrow> 9 \<le> m \<and> m < 13"
    unfolding c bit_field by auto
  show "bit (0x8000 :: u32) m \<longleftrightarrow> m = 15" "bit (push_bit 4 (4 :: u32)) m \<longleftrightarrow> m = 6"
    "bit (0x8000 :: u16) m \<longleftrightarrow> m = 15" "bit (0x4000 :: u16) m \<longleftrightarrow> m = 14" "bit (0x100 :: u16) m \<longleftrightarrow> m = 8"
    unfolding c bit_power by auto
qed

definition dst_hi :: "u32 \<Rightarrow> u16" where
  "dst_hi dst = ucast (0x8000 OR drop_bit 6 (dst AND 0x78000) OR push_bit 4 4)"

lemma bit_dst_hi: "m < 16 \<Longrightarrow> bit (dst_hi dst) m \<longleftrightarrow> m = 15 \<or> m = 6 \<or> 9 \<le> m \<and> m < 13 \<and> bit dst (m + 6)"
  unfolding dst_hi_def
  by (simp only: bit_ucast_iff bit_or_iff bit_and_iff bit_drop_bit_eq word_bits o_apply) (auto simp: add.commute)

lemma dst_words:
  assumes "unat dst < 2 ^ 19"
  shows "dl_addr (ucast (dst AND 0x7fff)) (dst_hi dst) = dst"
proof -
  have "take_bit 19 dst = dst" 
    using assms by (simp only: word_unat_eq_iff unsigned_take_bit_eq) (simp add: take_bit_eq_mod)
  then have hi: "bit dst n \<Longrightarrow> n < 19" for n by (metis bit_take_bit_iff)
  let ?a = "ucast (ucast (dst AND 0x7fff) :: u16) :: u32" and ?b = "push_bit 6 (ucast (dst_hi dst AND 0x1E00)) :: u32"
  have a: "bit ?a n \<longleftrightarrow> n < 15 \<and> bit dst n" if "n < 32" for n
    using that by (auto simp: word_bits bit_ucast_iff bit_and_iff simp del: bit_numeral_word_iff)
  have b: "bit ?b n \<longleftrightarrow> 15 \<le> n \<and> bit dst n" if "n < 32" for n
  proof (cases "15 \<le> n \<and> n < 19")
    case True
    define m where "m = n - 6"
    then have "n = m + 6" "9 \<le> m" "m < 13" using True by linarith+
    then show ?thesis using bit_dst_hi [of m dst] by (simp add: word_bits bit_push_bit_iff bit_ucast_iff bit_and_iff del: bit_numeral_word_iff)
  next
    case False
    then show ?thesis using hi [of n] that by (auto simp: word_bits bit_push_bit_iff bit_ucast_iff bit_and_iff simp del: bit_numeral_word_iff)
  qed
  have "?a + ?b = ?a OR ?b"
  proof (rule disjunctive_add)
    fix n show "\<not> bit ?a n \<or> \<not> bit ?b n"
    proof (cases "n < 32")
      case True
      then show ?thesis using a b by auto
    next
      case False
      then show ?thesis by (auto dest: bit_imp_le_length)
    qed
  qed
  also have "\<dots> = dst" by (rule bit_word_eqI) (use a b in \<open>auto simp: bit_or_iff\<close>)
  finally show ?thesis by (simp add: dl_addr_def)
qed

lemma and_zero_bits: "(w :: u16) AND v = 0 \<longleftrightarrow> (\<forall>n. \<not> (bit w n \<and> bit v n))"
proof
  assume z: "w AND v = 0"
  show "\<forall>n. \<not> (bit w n \<and> bit v n)" by (simp only: bit_and_iff [symmetric] z bit_0_eq) simp
next
  assume "\<forall>n. \<not> (bit w n \<and> bit v n)"
  then show "w AND v = 0" by (intro bit_word_eqI) (simp add: bit_and_iff)
qed

lemma and_bit:
  "(w :: u16) AND 0x8000 = 0 \<longleftrightarrow> \<not> bit w 15" "w AND 0x4000 = 0 \<longleftrightarrow> \<not> bit w 14" "w AND 0x100 = 0 \<longleftrightarrow> \<not> bit w 8"
  by (auto simp: and_zero_bits word_bits simp del: bit_numeral_word_iff)

lemma dst_word_tags:
  "(ucast (dst AND 0x7fff :: u32) :: u16) AND 0x8000 = 0" "dst_hi dst AND 0x8000 \<noteq> 0" "dst_hi dst AND 0x4000 = 0"
  by (simp_all add: and_bit bit_dst_hi bit_ucast_iff bit_and_iff word_bits del: bit_numeral_word_iff)

section \<open>What the operations draw\<close>

lemma unat_ucast_u16: "unat (ucast (c :: u8) :: u16) = unat c"
  by (simp add: unsigned_ucast_eq take_bit_eq_mod unat_u8_less less_trans [OF unat_u8_less])


definition glyph_src :: "u8 \<Rightarrow> u16" where
  "glyph_src c = FONT_ADDR + ucast c * 10"

lemma glyph_src_tag: "glyph_src c AND 0x8000 = 0"
proof -
  have "unat (ucast c * 10 :: u16) = unat c * 10" using unat_u8_less [of c] by (simp add: unat_word_ariths unat_ucast_u16)
  then have "unat (glyph_src c) = 0x7400 + unat c * 10" using unat_u8_less [of c]
    by (simp add: glyph_src_def FONT_ADDR_def unat_word_ariths)
  then have "unat (glyph_src c) < 2 ^ 15" using unat_u8_less [of c] by simp
  then have "take_bit 15 (glyph_src c) = glyph_src c"
    by (simp only: word_unat_eq_iff unsigned_take_bit_eq) (simp add: take_bit_eq_mod)
  then have "\<not> bit (glyph_src c) 15" by (metis bit_take_bit_iff less_irrefl)
  then show ?thesis by (simp add: and_bit)
qed

lemma const_tags:
  "(0x8000 OR push_bit 4 4 :: u16) AND 0x8000 \<noteq> 0" "(0x8000 OR push_bit 4 4 :: u16) AND 0x4000 = 0"
  "(0xc000 OR push_bit 4 3 :: u16) AND 0x8000 \<noteq> 0" "(0xc000 OR push_bit 4 3 :: u16) AND 0x4000 \<noteq> 0" "(0xc000 OR push_bit 4 3 :: u16) AND 0x100 = 0"
  "(0x8000 OR 0x0100 OR push_bit 4 4 :: u16) AND 0x8000 \<noteq> 0" "(0x8000 OR 0x0100 OR push_bit 4 4 :: u16) AND 0x4000 = 0"
  by simp_all

lemma write_tags:
  "(0xc000 OR push_bit 9 1 OR push_bit 8 1 OR push_bit 4 3 OR v :: u16) AND 0x8000 \<noteq> 0"
  "(0xc000 OR push_bit 9 1 OR push_bit 8 1 OR push_bit 4 3 OR v :: u16) AND 0x4000 \<noteq> 0"
  "(0xc000 OR push_bit 9 1 OR push_bit 8 1 OR push_bit 4 3 OR v :: u16) AND 0x100 \<noteq> 0"
  by (simp_all add: and_bit bit_or_iff)

lemma fb_cell_bound: "unat (fb_cell fb x y) < 2 ^ 19"
  by (simp add: unat_fb_cell)

lemma draws_glyph:
  assumes "dst = fb_cell fb x y"
  shows "draws [glyph_src c, 0x8000 OR push_bit 4 4, 0xc000 OR push_bit 4 3, ucast (dst AND 0x7fff), dst_hi dst,
    0xc000 OR push_bit 9 1 OR push_bit 8 1 OR push_bit 4 3 OR v] [(dst, glyph_src c)]"
  unfolding draws_def assms
  by (simp only: append.simps dl_writes.simps const_tags write_tags glyph_src_tag dst_word_tags if_True if_False simp_thms
      dst_words [OF fb_cell_bound]) blast

lemma draws_stop: "draws [0x8000 OR 0x0100 OR push_bit 4 4] []"
  unfolding draws_def by (simp only: append.simps dl_writes.simps const_tags if_True if_False simp_thms) blast

lemma draws_fb: "draws [ucast (ad AND 0x7fff :: u32), ucast (0x8000 OR (drop_bit 6 ad AND 0x0600) OR 0x100 OR push_bit 4 4 OR 8 :: u32)] []"
proof -
  have "(ucast (0x8000 OR (drop_bit 6 ad AND 0x0600) OR 0x100 OR push_bit 4 4 OR 8 :: u32) :: u16) AND 0x8000 \<noteq> 0"
    "(ucast (0x8000 OR (drop_bit 6 ad AND 0x0600) OR 0x100 OR push_bit 4 4 OR 8 :: u32) :: u16) AND 0x4000 = 0"
    by (simp_all add: and_bit bit_ucast_iff bit_or_iff bit_and_iff)
  then show ?thesis unfolding draws_def by (simp only: append.simps dl_writes.simps dst_word_tags if_True if_False simp_thms) blast
qed

text \<open>All words since the start, and the writes they stand for.\<close>

definition drawn :: "tty \<Rightarrow> (u32 \<times> u16) list \<Rightarrow> bool" where
  "drawn t W \<longleftrightarrow> draws (concat (gpu_run t) @ gpu_pdl t) W"

lemma drawn_emit: "drawn t W \<Longrightarrow> draws ws A \<Longrightarrow> drawn (dl_emit ws t) (W @ A)"
  using draws_append [of "concat (gpu_run t) @ gpu_pdl t" W ws A] by (simp add: drawn_def)

lemma drawn_flush: "drawn t W \<Longrightarrow> drawn (gpu_flush_dl t) W"
  using draws_append [OF _ draws_stop, of "concat (gpu_run t) @ gpu_pdl t" W]
  by (cases "gpu_pdl t = []") (simp_all add: drawn_def gpu_flush_dl_def)

lemma drawn_start: "drawn t W \<Longrightarrow> gpu_pdl t = [] \<Longrightarrow> drawn (gpu_start_dl t) W"
  by (simp add: drawn_def gpu_start_dl_def)

lemma drawn_cong: "gpu_run t' = gpu_run t \<Longrightarrow> gpu_pdl t' = gpu_pdl t \<Longrightarrow> drawn t' W \<longleftrightarrow> drawn t W"
  by (simp add: drawn_def)

lemma drawn_draw: "drawn t W \<Longrightarrow> drawn (gpu_draw x y c lut t) (W @ [(fb_cell (tty_fb_addr t) (unat x) (unat y), glyph_src c)])"
  unfolding gpu_draw_def Let_def glyph_src_def [symmetric] dst_hi_def [symmetric]
  by (rule drawn_emit, assumption, rule draws_glyph [OF refl])

lemma drawn_set_fb: "drawn t W \<Longrightarrow> drawn (gpu_set_fb_addr t) W"
  using drawn_emit [OF _ draws_fb, of t W "tty_fb_addr t"] by (simp add: gpu_set_fb_addr_def Let_def)

lemma glyph_src_0: "glyph_src 0 = FONT_ADDR"
  by (simp add: glyph_src_def)

text \<open>A cleared line: the glyph 0 in every cell of it.\<close>

definition row_writes :: "u32 \<Rightarrow> nat \<Rightarrow> (u32 \<times> u16) list" where
  "row_writes fb y = map (\<lambda>x. (fb_cell fb x y, glyph_src 0)) [0..<TTY_COLS]"

text \<open>With the source already in place, one cell is three words; the list of a line starts with the source.\<close>

definition clears :: "u16 list \<Rightarrow> (u32 \<times> u16) list \<Rightarrow> bool" where
  "clears ws W \<longleftrightarrow> (\<forall>lo hi rest. \<exists>lo' hi'. dl_writes lo hi FONT_ADDR (ws @ rest) = W @ dl_writes lo' hi' FONT_ADDR rest)"

lemma clears_append:
  assumes "clears a A" and "clears b B"
  shows "clears (a @ b) (A @ B)"
  unfolding clears_def
proof (intro allI)
  fix lo hi rest
  obtain l h where 1: "dl_writes lo hi FONT_ADDR (a @ (b @ rest)) = A @ dl_writes l h FONT_ADDR (b @ rest)"
    using assms(1) unfolding clears_def by blast
  obtain l' h' where 2: "dl_writes l h FONT_ADDR (b @ rest) = B @ dl_writes l' h' FONT_ADDR rest"
    using assms(2) unfolding clears_def by blast
  show "\<exists>lo' hi'. dl_writes lo hi FONT_ADDR ((a @ b) @ rest) = (A @ B) @ dl_writes lo' hi' FONT_ADDR rest" using 1 2 by auto
qed

lemma clears_cell:
  "unat dst < 2 ^ 19 \<Longrightarrow> clears [ucast (dst AND 0x7fff), dst_hi dst, 0xc000 OR push_bit 9 1 OR push_bit 8 1 OR push_bit 4 3 OR 8] [(dst, FONT_ADDR)]"
  unfolding clears_def
  by (simp only: append.simps dl_writes.simps write_tags dst_word_tags if_True if_False simp_thms dst_words) blast

lemma draws_clears:
  assumes "clears ws W"
  shows "draws ([FONT_ADDR, 0xc000 OR push_bit 4 3] @ ws) W"
proof -
  have f: "FONT_ADDR AND 0x8000 = 0" using glyph_src_tag [of 0] by (simp add: glyph_src_0)
  show ?thesis unfolding draws_def
  proof (intro allI)
    fix lo hi src rest
    obtain l h where "dl_writes FONT_ADDR hi FONT_ADDR (ws @ rest) = W @ dl_writes l h FONT_ADDR rest"
      using assms unfolding clears_def by blast
    moreover have "dl_writes lo hi src (([FONT_ADDR, 0xc000 OR push_bit 4 3] @ ws) @ rest) = dl_writes FONT_ADDR hi FONT_ADDR (ws @ rest)"
      by (simp only: append.simps dl_writes.simps f const_tags if_True if_False simp_thms)
    ultimately show "\<exists>lo' hi' src'. dl_writes lo hi src (([FONT_ADDR, 0xc000 OR push_bit 4 3] @ ws) @ rest) = W @ dl_writes lo' hi' src' rest"
      by auto
  qed
qed

fun clear_words :: "nat \<Rightarrow> u32 \<Rightarrow> u16 list" where
  "clear_words 0 dst = []"
| "clear_words (Suc n) dst = [ucast (dst AND 0x7fff), dst_hi dst, 0xc000 OR push_bit 9 1 OR push_bit 8 1 OR push_bit 4 3 OR 8] @ clear_words n (dst + 4)"

lemma clear_cells_words: "gpu_clear_cells n dst t = dl_emit (clear_words n dst) t"
  by (induction n arbitrary: dst t) (simp_all only: gpu_clear_cells.simps clear_words.simps dst_hi_def [symmetric], simp_all add: dl_emit_def)

lemma clears_words:
  "unat dst + 4 * n < 2 ^ 19 \<Longrightarrow> clears (clear_words n dst) (map (\<lambda>x. (dst + of_nat (4 * x), FONT_ADDR)) [0..<n])"
proof (induction n arbitrary: dst)
  case 0
  then show ?case by (auto simp: clears_def)
next
  case (Suc n)
  have "unat (dst + of_nat 4) = unat dst + 4" by (rule unat_add_of_nat) (use Suc.prems in simp)
  then have "unat (dst + 4) + 4 * n < 2 ^ 19" using Suc.prems by simp
  note IH = Suc.IH [OF this]
  have m: "map (\<lambda>x. (dst + of_nat (4 * x), FONT_ADDR)) [0..<Suc n] = (dst, FONT_ADDR) # map (\<lambda>x. (dst + 4 + of_nat (4 * x), FONT_ADDR)) [0..<n]"
    unfolding upt_conv_Cons [OF zero_less_Suc] by (simp add: map_Suc_upt [symmetric] add.assoc comp_def del: upt_Suc)
  show ?case unfolding clear_words.simps m using clears_append [OF clears_cell IH] Suc.prems by simp
qed

lemma drawn_clear_line:
  assumes "drawn t W" and "512 dvd unat (tty_fb_addr t)" and "y \<le> TTY_ROWS"
  shows "drawn (gpu_clear_line y t) (W @ row_writes (tty_fb_addr t) y)"
proof -
  let ?d = "fb_cell (tty_fb_addr t) 0 y"
  have "unat ?d < 131072 + 131072" by (simp add: unat_fb_cell)
  then have "unat ?d + 4 * TTY_COLS < 2 ^ 19" by (simp add: screen_num)
  note c = clears_words [OF this]
  have e: "map (\<lambda>x. (?d + of_nat (4 * x), FONT_ADDR)) [0..<TTY_COLS] = row_writes (tty_fb_addr t) y"
    unfolding row_writes_def glyph_src_0
  proof (rule map_cong [OF refl])
    fix x assume "x \<in> set [0..<TTY_COLS]"
    then have "x < TTY_COLS" by simp
    from fb_cell_row [OF assms(2) this assms(3)] show "(?d + of_nat (4 * x), FONT_ADDR) = (fb_cell (tty_fb_addr t) x y, FONT_ADDR)" by (simp only:)
  qed
  have "gpu_clear_line y t = dl_emit ([FONT_ADDR, 0xc000 OR push_bit 4 3] @ clear_words TTY_COLS ?d) t"
    unfolding gpu_clear_line_def clear_cells_words dl_emit_def by simp
  then show ?thesis using drawn_emit [OF assms(1) draws_clears [OF c]] e by (simp only:)
qed

text \<open>A character on the visible terminal, and on another one that does not scroll.\<close>

definition putc_writes :: "u8 \<Rightarrow> tty_attr \<Rightarrow> u32 \<Rightarrow> (u32 \<times> u16) list" where
  "putc_writes c p fb =
     (if c = 10 then (fb_cell fb (unat (px p)) (unat (py p)), glyph_src 32) # row_writes fb (unat (py p) + 1)
      else [(fb_cell fb (unat (px p)) (unat (py p)), glyph_src c)])"

definition scrolls :: "u8 \<Rightarrow> tty_attr \<Rightarrow> bool" where
  "scrolls c p \<longleftrightarrow> c = 10 \<and> \<not> unat (py p) < TTY_ROWS - 1"

definition fb_after :: "u8 \<Rightarrow> tty_attr \<Rightarrow> u32 \<Rightarrow> u32" where
  "fb_after c p fb = (if scrolls c p then ROLL_FB (fb + of_nat (CSZY div 2 * SPCH)) else fb)"

lemma upd_tty_dl [simp]: "gpu_run (upd_tty i f t) = gpu_run t" "gpu_pdl (upd_tty i f t) = gpu_pdl t" "tty_fb_addr (upd_tty i f t) = tty_fb_addr t"
  by (simp_all add: upd_tty_def)

lemma drawn_upd [simp]: "drawn (upd_tty i f t) W = drawn t W" "drawn (t\<lparr>tty_fb_addr := a\<rparr>) W = drawn t W"
  by (simp_all add: drawn_def)

lemma putc_draws:
  assumes "tty_putc (tty_ptr t) c t = KOk t'" and "attr_wf (visible t)" and "drawn t W" and "512 dvd unat (tty_fb_addr t)"
  shows "drawn t' (W @ putc_writes c (visible t) (tty_fb_addr t)) \<and> tty_fb_addr t' = fb_after c (visible t) (tty_fb_addr t)"
proof (cases "c = 10")
  case False
  then obtain scr where "t' = (if unat (px (visible t)) < TTY_COLS - 1
      then upd_tty (tty_ptr t) (\<lambda>p. p\<lparr>px := px (visible t) + 1\<rparr>) (gpu_draw (px (visible t)) (py (visible t)) c 0 (upd_tty (tty_ptr t) (\<lambda>p. p\<lparr>screen := scr\<rparr>) t))
      else gpu_draw (px (visible t)) (py (visible t)) c 0 (upd_tty (tty_ptr t) (\<lambda>p. p\<lparr>screen := scr\<rparr>) t))"
    using assms(1) by (auto simp: tty_putc_def Let_def kbind_KOk_iff cong: if_cong)
  then show ?thesis using drawn_draw [of "upd_tty (tty_ptr t) (\<lambda>p. p\<lparr>screen := scr\<rparr>) t" W "px (visible t)" "py (visible t)" c 0] assms(3) False
    by (simp add: putc_writes_def fb_after_def scrolls_def)
next
  case True
  let ?p = "visible t" and ?fb = "tty_fb_addr t"
  define t2 where "t2 = upd_tty (tty_ptr t) (\<lambda>p. p\<lparr>px := 0\<rparr>) (gpu_draw (px ?p) (py ?p) 32 0 t)"
  have d2: "drawn t2 (W @ [(fb_cell ?fb (unat (px ?p)) (unat (py ?p)), glyph_src 32)])" "tty_fb_addr t2 = ?fb"
    unfolding t2_def using drawn_draw [OF assms(3)] by simp_all
  have y: "unat (py ?p) + 1 \<le> TTY_ROWS" using assms(2) by (simp add: attr_wf_def)
  have line: "drawn (gpu_clear_line (unat (py ?p) + 1) (upd_tty (tty_ptr t) f t2)) (W @ putc_writes c ?p ?fb)" for f
    using drawn_clear_line [of "upd_tty (tty_ptr t) f t2" "W @ [(fb_cell ?fb (unat (px ?p)) (unat (py ?p)), glyph_src 32)]" "unat (py ?p) + 1"]
      d2 y assms(4) True by (simp add: putc_writes_def)
  show ?thesis
  proof (cases "unat (py ?p) < TTY_ROWS - 1")
    case noscroll: True
    then have y1: "unat (py ?p + 1) = unat (py ?p) + 1" by (intro unat_Suc_u8) (simp add: screen_num)
    obtain scr where "t' = gpu_flush_dl (gpu_clear_line (unat (py ?p + 1)) (upd_tty (tty_ptr t) (\<lambda>p. p\<lparr>py := py ?p + 1, screen := scr\<rparr>) t2))"
      using assms(1) True noscroll unfolding t2_def by (auto simp: tty_putc_def Let_def kbind_KOk_iff)
    then show ?thesis using line drawn_flush d2(2) noscroll True by (simp add: y1 fb_after_def scrolls_def)
  next
    case scroll: False
    then have y1: "TTY_ROWS = unat (py ?p) + 1" using y by simp
    obtain scr where t': "t' = gpu_flush_dl (gpu_set_fb_addr ((gpu_clear_line TTY_ROWS (upd_tty (tty_ptr t) (\<lambda>p. p\<lparr>screen := scr\<rparr>) t2))
        \<lparr>tty_fb_addr := ROLL_FB (?fb + of_nat (CSZY div 2 * SPCH))\<rparr>))"
      using assms(1) True scroll d2(2) unfolding t2_def by (auto simp: tty_putc_def Let_def kbind_KOk_iff)
    have "drawn (gpu_clear_line TTY_ROWS (upd_tty (tty_ptr t) (\<lambda>p. p\<lparr>screen := scr\<rparr>) t2)) (W @ putc_writes c ?p ?fb)"
      using line unfolding y1 [symmetric] .
    then have "drawn t' (W @ putc_writes c ?p ?fb)" unfolding t' by (intro drawn_flush drawn_set_fb) simp
    then show ?thesis using scroll True by (simp add: t' fb_after_def scrolls_def)
  qed
qed

lemma putc_background:
  assumes "tty_putc i c t = KOk t'" and "i \<noteq> tty_ptr t" and "\<not> scrolls c (tty_table t ! i)"
  shows "gpu_run t' = gpu_run t \<and> gpu_pdl t' = gpu_pdl t \<and> tty_fb_addr t' = tty_fb_addr t \<and> visible t' = visible t"
  using assms by (auto simp: tty_putc_def Let_def kbind_KOk_iff scrolls_def upd_tty_other split: if_splits)

text \<open>A newline on the last row of a terminal in the background moves the frame buffer of the visible one.\<close>

lemma putc_background_scroll:
  assumes "tty_putc i c t = KOk t'" and "i \<noteq> tty_ptr t" and "scrolls c (tty_table t ! i)"
  shows "tty_fb_addr t' = ROLL_FB (tty_fb_addr t + of_nat (CSZY div 2 * SPCH))"
  using assms by (auto simp: tty_putc_def Let_def kbind_KOk_iff scrolls_def split: if_splits)

section \<open>The display shows the screen\<close>

text \<open>The glyphs of the null character and of the space are both empty.\<close>

definition same_glyph :: "u16 \<Rightarrow> u16 \<Rightarrow> bool" where
  "same_glyph a b \<longleftrightarrow> a = b \<or> (a \<in> {0, 32} \<and> b \<in> {0, 32})"

text \<open>The last block written at the place of a cell is the glyph of its character.\<close>

definition cell_shown :: "(u32 \<times> u16) list \<Rightarrow> u32 \<Rightarrow> tty_attr \<Rightarrow> nat \<Rightarrow> nat \<Rightarrow> bool" where
  "cell_shown W fb p x y \<longleftrightarrow> (\<exists>c. map_of (rev W) (fb_cell fb x y) = Some (glyph_src c) \<and> same_glyph (ucast c) (cell p x y))"

definition coherent :: "(u32 \<times> u16) list \<Rightarrow> u32 \<Rightarrow> tty_attr \<Rightarrow> bool" where
  "coherent W fb p \<longleftrightarrow> 512 dvd unat fb \<and> (\<forall>x < TTY_COLS - 1. \<forall>y < TTY_ROWS. cell_shown W fb p x y) \<and>
     (\<forall>x. unat (px p) \<le> x \<and> x < TTY_COLS - 1 \<longrightarrow> cell p x (unat (py p)) = 0)"

lemma cell_shown_keep:
  "cell_shown W fb p x y \<Longrightarrow> map_of (rev A) (fb_cell fb x y) = None \<Longrightarrow> cell p' x y = cell p x y \<Longrightarrow> cell_shown (W @ A) fb p' x y"
  by (simp add: cell_shown_def map_add_def)

lemma cell_shown_new:
  "map_of (rev A) (fb_cell fb x y) = Some (glyph_src c) \<Longrightarrow> same_glyph (ucast c) (cell p' x y) \<Longrightarrow> cell_shown (W @ A) fb p' x y"
  by (auto simp: cell_shown_def map_add_def)

lemma map_of_const: "(\<forall>q \<in> set qs. snd q = v) \<Longrightarrow> a \<in> fst ` set qs \<Longrightarrow> map_of qs a = Some v"
  by (induction qs) auto

lemma row_writes_at:
  assumes "x < TTY_COLS" and "y \<le> TTY_ROWS" and "z \<le> TTY_ROWS"
  shows "map_of (rev (row_writes fb y)) (fb_cell fb x z) = (if z = y then Some (glyph_src 0) else None)"
proof (cases "z = y")
  case True
  have "map_of (rev (row_writes fb y)) (fb_cell fb x y) = Some (glyph_src 0)"
    by (rule map_of_const) (use assms(1) in \<open>auto simp: row_writes_def image_iff\<close>)
  with True show ?thesis by simp
next
  case False
  have "fb_cell fb x z \<noteq> fb_cell fb x' y" if "x' < TTY_COLS" for x'
    using fb_cell_inj [OF assms(1) that assms(3,2)] False by simp
  then have "fb_cell fb x z \<notin> fst ` set (row_writes fb y)" unfolding row_writes_def by fastforce
  then show ?thesis using False by (simp add: map_of_eq_None_iff)
qed

lemma cols: "x < TTY_COLS - 1 \<Longrightarrow> x < TTY_COLS"
  by simp

lemma coherent_char:
  assumes "coherent W fb p" and "putc_effect c p p'" and "c \<noteq> 10" and "attr_wf p"
  shows "coherent (W @ putc_writes c p fb) fb p'"
proof -
  have wf: "unat (px p) < TTY_COLS" "unat (py p) \<le> TTY_ROWS" using assms(4) by (simp_all add: attr_wf_def)
  have e: "unat (px p') = min (TTY_COLS - 1) (unat (px p) + 1)" "py p' = py p"
    "\<And>x y. x < TTY_COLS \<Longrightarrow> y < TTY_ROWS \<Longrightarrow> cell p' x y = (if x = unat (px p) \<and> y = unat (py p) then ucast c else cell p x y)"
    using assms(2,3) by (simp_all add: putc_effect_def)
  have "cell_shown (W @ putc_writes c p fb) fb p' x y" if x: "x < TTY_COLS - 1" and y: "y < TTY_ROWS" for x y
  proof (cases "x = unat (px p) \<and> y = unat (py p)")
    case True
    then show ?thesis using assms(3) e(3) [OF cols [OF x] y]
      by (intro cell_shown_new [where c = c]) (simp_all add: putc_writes_def same_glyph_def)
  next
    case False
    then have "fb_cell fb x y \<noteq> fb_cell fb (unat (px p)) (unat (py p))"
      using fb_cell_inj [OF cols [OF x] wf(1) _ wf(2), of y fb] y by auto
    then show ?thesis using assms(1,3) e(3) [OF cols [OF x] y] False x y
      by (intro cell_shown_keep [of W fb p]) (auto simp: putc_writes_def coherent_def)
  qed
  moreover have "cell p' x (unat (py p')) = 0" if "unat (px p') \<le> x" "x < TTY_COLS - 1" for x
  proof -
    have "unat (px p) < x" using that e(1) by simp
    then show ?thesis using assms(1,4) e(2) e(3) [OF cols [OF that(2)], of "unat (py p)"] that
      by (simp add: coherent_def attr_wf_def)
  qed
  ultimately show ?thesis using assms(1) by (simp add: coherent_def)
qed

lemma newline_writes_at:
  assumes "attr_wf p" and "x < TTY_COLS" and "z \<le> TTY_ROWS"
  shows "map_of (rev (putc_writes 10 p fb)) (fb_cell fb x z) =
    (if z = unat (py p) + 1 then Some (glyph_src 0) else if z = unat (py p) \<and> x = unat (px p) then Some (glyph_src 32) else None)"
proof -
  have wf: "unat (px p) < TTY_COLS" "unat (py p) < TTY_ROWS" using assms(1) by (simp_all add: attr_wf_def)
  then have y: "unat (py p) + 1 \<le> TTY_ROWS" "unat (py p) \<le> TTY_ROWS" by simp_all
  have "fb_cell fb x z = fb_cell fb (unat (px p)) (unat (py p)) \<longleftrightarrow> x = unat (px p) \<and> z = unat (py p)"
    by (rule fb_cell_inj [OF assms(2) wf(1) assms(3) y(2)])
  then show ?thesis using row_writes_at [OF assms(2) y(1) assms(3), of fb] by (simp add: putc_writes_def map_add_def)
qed

text \<open>Where the old display, with what a newline draws, shows a row of the old screen.\<close>

lemma newline_shown:
  assumes "coherent W fb p" and "attr_wf p" and "x < TTY_COLS - 1" and "z \<le> TTY_ROWS"
    and "v = (if z = unat (py p) + 1 then 0 else cell p x z)" and "z = TTY_ROWS \<longrightarrow> z = unat (py p) + 1"
  shows "\<exists>c. map_of (rev (W @ putc_writes 10 p fb)) (fb_cell fb x z) = Some (glyph_src c) \<and> same_glyph (ucast c) v"
proof -
  note at = newline_writes_at [OF assms(2) cols [OF assms(3)] assms(4), of fb]
  consider "z = unat (py p) + 1" | "z = unat (py p)" "x = unat (px p)" | "z \<noteq> unat (py p) + 1" "\<not> (z = unat (py p) \<and> x = unat (px p))" by blast
  then show ?thesis
  proof cases
    case 1
    then show ?thesis using at assms(5) by (auto simp: map_add_def same_glyph_def intro!: exI [of _ 0])
  next
    case 2
    then have "cell p x z = 0" using assms(1,3) by (simp add: coherent_def)
    then show ?thesis using at 2 assms(5) by (auto simp: map_add_def same_glyph_def intro!: exI [of _ 32])
  next
    case 3
    then have "z < TTY_ROWS" using assms(4,6) by linarith
    then have "cell_shown W fb p x z" using assms(1,3) by (simp add: coherent_def)
    then show ?thesis using at 3 assms(5) by (simp add: cell_shown_def map_add_def)
  qed
qed

lemma coherent_newline:
  assumes "coherent W fb p" and "putc_effect 10 p p'" and "attr_wf p"
  shows "coherent (W @ putc_writes 10 p fb) (fb_after 10 p fb) p'"
proof -
  have e: "unat (px p') = 0" "unat (py p') = min (TTY_ROWS - 1) (unat (py p) + 1)"
    "\<And>x y. x < TTY_COLS \<Longrightarrow> y < TTY_ROWS \<Longrightarrow> cell p' x y =
          (if y = unat (py p') then 0 else if unat (py p) < TTY_ROWS - 1 then cell p x y else cell p x (y + 1))"
    using assms(2) by (simp_all add: putc_effect_def)
  have wf: "unat (py p) < TTY_ROWS" using assms(3) by (simp add: attr_wf_def)
  have dvd: "512 dvd unat (fb_after 10 p fb)"
  proof -
    have "512 dvd unat (ROLL_FB (fb + of_nat (CSZY div 2 * SPCH)))"
      using assms(1) unfolding unat_ROLL_FB unat_plus_mod
      by (intro dvd_add dvd_mod) (simp_all add: coherent_def CSZY_def SPCH_def)
    then show ?thesis using assms(1) by (simp add: fb_after_def coherent_def)
  qed
  have "cell_shown (W @ putc_writes 10 p fb) (fb_after 10 p fb) p' x y" if x: "x < TTY_COLS - 1" and y: "y < TTY_ROWS" for x y
  proof (cases "unat (py p) < TTY_ROWS - 1")
    case True
    then have f: "fb_after 10 p fb = fb" by (simp add: fb_after_def scrolls_def)
    have v: "cell p' x y = (if y = unat (py p) + 1 then 0 else cell p x y)" using e(2) e(3) [OF cols [OF x] y] True by simp
    have "y = TTY_ROWS \<longrightarrow> y = unat (py p) + 1" using y by simp
    from newline_shown [OF assms(1,3) x less_imp_le [OF y] v this] show ?thesis unfolding cell_shown_def f .
  next
    case False
    then have q: "unat (py p) = TTY_ROWS - 1" "unat (py p') = TTY_ROWS - 1" using wf e(2) by simp_all
    have "fb_cell (fb_after 10 p fb) x y = fb_cell fb x (y + 1)" using False by (simp only: fb_after_def scrolls_def simp_thms if_True fb_cell_scroll)
    moreover have v: "cell p' x y = (if y + 1 = unat (py p) + 1 then 0 else cell p x (y + 1))"
      using e(3) [OF cols [OF x] y] False q by simp
    moreover have "y + 1 \<le> TTY_ROWS" "y + 1 = TTY_ROWS \<longrightarrow> y + 1 = unat (py p) + 1" using y q by auto
    ultimately show ?thesis using newline_shown [OF assms(1,3) x _ v] unfolding cell_shown_def by simp
  qed
  moreover have "cell p' x (unat (py p')) = 0" if "x < TTY_COLS - 1" for x
    using e(2) e(3) [OF cols [OF that], of "unat (py p')"] wf by simp
  ultimately show ?thesis using dvd by (simp add: coherent_def)
qed

lemma coherent_cursor:
  assumes "coherent W fb p" and "attr_wf p"
  shows "coherent (W @ [(fb_cell fb (unat (px p)) (unat (py p)), glyph_src 32)]) fb p"
proof -
  have wf: "unat (px p) < TTY_COLS" "unat (py p) \<le> TTY_ROWS" using assms(2) by (simp_all add: attr_wf_def)
  have "cell_shown (W @ [(fb_cell fb (unat (px p)) (unat (py p)), glyph_src 32)]) fb p x y" if x: "x < TTY_COLS - 1" and y: "y < TTY_ROWS" for x y
  proof (cases "x = unat (px p) \<and> y = unat (py p)")
    case True
    then have "cell p x y = 0" using assms(1) x by (simp add: coherent_def)
    then show ?thesis using True by (intro cell_shown_new [where c = 32]) (simp_all add: same_glyph_def)
  next
    case False
    then have "fb_cell fb x y \<noteq> fb_cell fb (unat (px p)) (unat (py p))"
      using fb_cell_inj [OF cols [OF x] wf(1) _ wf(2), of y fb] y by auto
    then show ?thesis using assms(1) x y by (intro cell_shown_keep [of W fb p]) (auto simp: coherent_def)
  qed
  then show ?thesis using assms(1) by (simp add: coherent_def)
qed

section \<open>Runs\<close>

definition display_ok :: "tty \<Rightarrow> bool" where
  "display_ok t \<longleftrightarrow> tty_wf t \<and> (\<exists>W. drawn t W \<and> coherent W (tty_fb_addr t) (visible t))"

lemma coherent_cong: "screen q = screen p \<Longrightarrow> px q = px p \<Longrightarrow> py q = py p \<Longrightarrow> coherent W fb q \<longleftrightarrow> coherent W fb p"
  by (simp add: coherent_def cell_shown_def cell_def)

lemma display_cong:
  assumes "display_ok t" and "tty_wf t'" and "gpu_run t' = gpu_run t" "gpu_pdl t' = gpu_pdl t" "tty_fb_addr t' = tty_fb_addr t"
    and "screen (visible t') = screen (visible t)" "px (visible t') = px (visible t)" "py (visible t') = py (visible t)"
  shows "display_ok t'"
  using assms(1,2) drawn_cong [OF assms(3,4)] coherent_cong [OF assms(6-8)] by (simp add: display_ok_def assms(5))

lemma display_upd:
  assumes "display_ok t" and "\<And>p. screen (f p) = screen p \<and> px (f p) = px p \<and> py (f p) = py p \<and> (attr_wf p \<longrightarrow> attr_wf (f p))"
  shows "display_ok (upd_tty i f t)"
proof -
  have w: "tty_wf t" "tty_ptr t < length (tty_table t)" using assms(1) by (simp_all add: display_ok_def tty_wf_def)
  have v: "visible (upd_tty i f t) = (if i = tty_ptr t then f (visible t) else visible t)" using w(2) by (simp add: upd_tty_def)
  have "tty_wf (upd_tty i f t)" by (rule tty_wf_upd [OF w(1)]) (use assms(2) in blast)
  then show ?thesis
  proof (rule display_cong [OF assms(1)])
    show "screen (visible (upd_tty i f t)) = screen (visible t)" "px (visible (upd_tty i f t)) = px (visible t)"
      "py (visible (upd_tty i f t)) = py (visible t)" unfolding v using assms(2) [of "visible t"] by (cases "i = tty_ptr t"; simp)+
  qed simp_all
qed

lemma display_putc:
  assumes "display_ok t" and "i < K_TTY_COUNT" and "tty_putc i c t = KOk t'" and "i \<noteq> tty_ptr t \<longrightarrow> \<not> scrolls c (tty_table t ! i)"
  shows "display_ok t'"
proof (cases "i = tty_ptr t")
  case True
  have w: "tty_wf t" "attr_wf (visible t)" "tty_ptr t < length (tty_table t)" using assms(1) by (simp_all add: display_ok_def tty_wf_def)
  obtain W where W: "drawn t W" "coherent W (tty_fb_addr t) (visible t)" using assms(1) by (auto simp: display_ok_def)
  have "tty_wf t'" using putc_wf [OF w(1) assms(2), of c] assms(3) by simp
  moreover have "drawn t' (W @ putc_writes c (visible t) (tty_fb_addr t))" "tty_fb_addr t' = fb_after c (visible t) (tty_fb_addr t)"
    using putc_draws [of t c t' W] assms(3) True w W by (auto simp: coherent_def)
  moreover have "putc_effect c (visible t) (tty_table t' ! tty_ptr t)"
    using putc_ok [OF w(3,2), of c] assms(3) True by auto
  then have "coherent (W @ putc_writes c (visible t) (tty_fb_addr t)) (fb_after c (visible t) (tty_fb_addr t)) (tty_table t' ! tty_ptr t)"
    using coherent_newline [OF W(2) _ w(2)] coherent_char [OF W(2) _ _ w(2), of c]
    by (cases "c = 10") (simp_all add: fb_after_def scrolls_def)
  moreover have "tty_ptr t' = tty_ptr t" using same_visible [OF same_putc [OF assms(3)]] by simp
  ultimately show ?thesis unfolding display_ok_def by auto
next
  case False
  have "tty_wf t'" using putc_wf [of t i c] assms(1-3) by (simp add: display_ok_def)
  with putc_background [OF assms(3) False] assms(1,4) False show ?thesis by (intro display_cong [OF assms(1)]) simp_all
qed

lemma display_write:
  "display_ok t \<Longrightarrow> tty_write_loop r (tty_ptr t) p n t = KOk t' \<Longrightarrow> display_ok t'"
proof (induction n arbitrary: p t)
  case (Suc n)
  from Suc.prems(2) obtain t1 where t1: "tty_putc (tty_ptr t) (r p) t = KOk t1" "tty_write_loop r (tty_ptr t) (p + 1) n t1 = KOk t'"
    by (auto simp: kbind_KOk_iff)
  have "tty_ptr t < K_TTY_COUNT" using Suc.prems(1) by (simp add: display_ok_def tty_wf_def)
  from display_putc [OF Suc.prems(1) this t1(1)] have "display_ok t1" by simp
  moreover have "tty_ptr t1 = tty_ptr t" using same_visible [OF same_putc [OF t1(1)]] by simp
  ultimately show ?case using Suc.IH [of t1 "p + 1"] t1(2) by simp
qed simp

lemma display_refresh_one:
  assumes "display_ok t" and "tty_refresh_one t = KOk t'"
  shows "display_ok t'"
proof -
  let ?i = "tty_ptr t" and ?c = "ucast (i_buf (visible t) ! unat (i_dp (visible t))) :: u8"
  let ?t1 = "upd_tty ?i (\<lambda>p. p\<lparr>i_dp := i_dp p + 1\<rparr>) t"
  have d1: "display_ok ?t1" using assms(1) by (rule display_upd) (simp add: attr_wf_def)
  have i: "?i < K_TTY_COUNT" using assms(1) by (simp add: display_ok_def tty_wf_def)
  obtain t2 where p: "(if ?c AND 0x80 = 0 \<and> tty_flags (visible t) AND TTY_FLAG_ECHO \<noteq> 0 then tty_putc ?i ?c ?t1 else KOk ?t1) = KOk t2"
    and t': "t' = (if ?c = 10 then upd_tty ?i (\<lambda>p. p\<lparr>i_nline := i_nline p + 1\<rparr>) t2 else t2)"
    using assms(2) unfolding tty_refresh_one_def Let_def kbind_KOk_iff kres.inject by (elim exE conjE) (rule that, assumption, rule sym)
  have "display_ok t2" using p d1 display_putc [OF d1 i, of ?c t2] by (simp split: if_splits)
  then have "display_ok (upd_tty ?i (\<lambda>p. p\<lparr>i_nline := i_nline p + 1\<rparr>) t2)" by (rule display_upd) (simp add: attr_wf_def)
  with \<open>display_ok t2\<close> show ?thesis by (simp add: t')
qed

lemma display_refresh: "display_ok t \<Longrightarrow> tty_refresh n t = KOk t' \<Longrightarrow> display_ok t'"
proof (induction n arbitrary: t)
  case 0
  then show ?case by (simp add: Let_def split: if_splits)
next
  case (Suc n)
  then show ?case by (auto simp: Let_def kbind_KOk_iff split: if_splits dest: display_refresh_one)
qed

lemma display_start: "display_ok t \<Longrightarrow> gpu_pdl t = [] \<Longrightarrow> display_ok (gpu_start_dl t)"
  by (auto simp: display_ok_def dest: drawn_start)

lemma flush_pdl [simp]: "gpu_pdl (gpu_flush_dl t) = []"
  by (simp add: gpu_flush_dl_def)

lemma display_flush: "display_ok t \<Longrightarrow> display_ok (gpu_flush_dl t)"
  by (auto simp: display_ok_def dest: drawn_flush)

lemma display_cursor:
  assumes "display_ok t"
  shows "display_ok (snd (tty_cursor reset draw t)) \<and> gpu_pdl (snd (tty_cursor reset draw t)) = []"
proof -
  define t1 where "t1 = (if reset then upd_tty (tty_ptr t) (\<lambda>p. p\<lparr>ptoggle := 1\<rparr>) t else t)"
  have "display_ok (upd_tty (tty_ptr t) (\<lambda>p. p\<lparr>ptoggle := 1\<rparr>) t)" using assms by (rule display_upd) (simp add: attr_wf_def)
  then have t1: "display_ok t1" using assms by (simp add: t1_def)
  have "attr_wf (visible t1)" using t1 by (simp add: display_ok_def tty_wf_def)
  then have "display_ok (gpu_draw (px (visible t1)) (py (visible t1)) 32 (ptoggle (visible t1)) t1)"
    using t1 coherent_cursor drawn_draw unfolding display_ok_def by (auto simp: display_ok_def) blast
  with t1 show ?thesis by (auto simp: tty_cursor_def Let_def t1_def [symmetric] intro: display_flush)
qed

text \<open>A turn that writes to no terminal but the visible one.\<close>

definition foreground :: "tty \<Rightarrow> dev_request option \<Rightarrow> bool" where
  "foreground t req = (case req of Some (DEV_WRITE mi seek p cnt) \<Rightarrow> minor_tty mi \<in> {None, Some (tty_ptr t)} | _ \<Rightarrow> True)"

lemma read_screen:
  "tty_read dst cnt (pt, r) = KOk (n, pt', r') \<Longrightarrow> screen pt' = screen pt \<and> px pt' = px pt \<and> py pt' = py pt \<and> (attr_wf pt \<longrightarrow> attr_wf pt')"
proof -
  assume a: "tty_read dst cnt (pt, r) = KOk (n, pt', r')"
  show ?thesis
  proof (cases "i_nline pt \<noteq> 0 \<and> cnt \<noteq> 0")
    case True
    have "length (ring_queue pt) \<le> 256" using unat_u8_less [of "i_wp pt - i_rp pt"] by simp
    moreover have "0 < unat cnt" using True by (simp add: unat_eq_0 flip: neq0_conv)
    ultimately show ?thesis using read_loop_ring [of pt 256 0 cnt dst r] True a by (auto simp: tty_read_def attr_wf_def)
  qed (use a in \<open>auto simp: tty_read_def\<close>)
qed

lemma display_set:
  assumes "display_ok t" and "screen q = screen (tty_table t ! i) \<and> px q = px (tty_table t ! i) \<and> py q = py (tty_table t ! i) \<and> attr_wf q"
  shows "display_ok (upd_tty i (\<lambda>_. q) t)"
proof -
  have w: "tty_wf t" "tty_ptr t < length (tty_table t)" using assms(1) by (simp_all add: display_ok_def tty_wf_def)
  have "visible (upd_tty i (\<lambda>_. q) t) = (if i = tty_ptr t then q else visible t)" using w(2) by (simp add: upd_tty_def)
  then show ?thesis using assms by (intro display_cong [OF assms(1)] tty_wf_set [OF w(1)]) auto
qed

lemma display_request:
  assumes "tty_request src req (t, s) = KOk (out, reset, t', s')" and "display_ok t" and "gpu_pdl t = []" and "foreground t (Some req)"
  shows "display_ok t'"
proof (cases req)
  case (DEV_READ mi seek dst cnt)
  show ?thesis
  proof (cases "minor_tty mi")
    case (Some i)
    have "attr_wf (tty_table t ! i)" using assms(2) minor_tty_Some [OF Some] by (simp add: display_ok_def tty_wf_def)
    then show ?thesis using assms(1,2) by (auto simp: DEV_READ Some kbind_KOk_iff intro!: display_set dest!: read_screen)
  qed (use assms in \<open>simp add: DEV_READ\<close>)
next
  case (DEV_WRITE mi seek p cnt)
  show ?thesis
  proof (cases "minor_tty mi")
    case (Some i)
    then have "i = tty_ptr (gpu_start_dl t)" using assms(4) by (simp add: DEV_WRITE foreground_def)
    then show ?thesis using assms(1) display_write [OF display_start [OF assms(2,3)], of "ram s" p "unat cnt"]
      by (auto simp: DEV_WRITE Some kbind_KOk_iff)
  qed (use assms in \<open>simp add: DEV_WRITE\<close>)
next
  case (DEV_IOCTL mi p rq ptr)
  have "display_ok (upd_tty i (\<lambda>p. p\<lparr>tty_flags := ucast ptr\<rparr>) t)" for i
    using assms(2) by (rule display_upd) (simp add: attr_wf_def)
  then show ?thesis using assms(1,2) by (auto simp: DEV_IOCTL kbind_KOk_iff split: option.splits if_splits)
qed (use assms in simp_all)

lemma display_turn:
  assumes "tty_turn src req (t, s) = KOk (out, t', s')" and "display_ok t" and "gpu_pdl t = []" and "foreground t req"
  shows "display_ok t' \<and> gpu_pdl t' = []"
proof (cases "src \<ge> 0")
  case False
  then have "tty_event t = KOk (out, t')" using assms(1) by (auto simp: tty_turn_def kbind_KOk_iff)
  then have "\<exists>t1. tty_refresh 256 (gpu_start_dl t) = KOk t1 \<and>
        KOk (tty_cursor (i_dp (visible t) \<noteq> i_wp (visible t)) True (upd_tty (tty_ptr t1) (\<lambda>p. p\<lparr>ptoggle := 1 - ptoggle p\<rparr>) t1)) = KOk (out, t')"
    unfolding tty_event_def Let_def kbind_KOk_iff .
  then obtain t1 where t1: "tty_refresh 256 (gpu_start_dl t) = KOk t1"
    and t': "tty_cursor (i_dp (visible t) \<noteq> i_wp (visible t)) True (upd_tty (tty_ptr t1) (\<lambda>p. p\<lparr>ptoggle := 1 - ptoggle p\<rparr>) t1) = (out, t')"
    by auto
  have "display_ok t1" by (rule display_refresh [OF display_start [OF assms(2,3)] t1])
  then have "display_ok (upd_tty (tty_ptr t1) (\<lambda>p. p\<lparr>ptoggle := 1 - ptoggle p\<rparr>) t1)" by (rule display_upd) (simp add: attr_wf_def)
  from display_cursor [OF this, of "i_dp (visible t) \<noteq> i_wp (visible t)" True] show ?thesis unfolding t' by simp
next
  case True
  have "kbind (proc_get_uid src s) (\<lambda>u. if u = PROC_UID_KERNEL then
          kbind (case req of Some q \<Rightarrow> tty_request src q (t, s) | None \<Rightarrow> KOk ([], False, t, s)) (\<lambda>(out, reset, t, s).
          let (out', t') = tty_cursor reset False t in KOk (out @ out', t', s))
        else KOk ([TTY_EXIT], t, s)) = KOk (out, t', s')"
    using assms(1) True by (simp add: tty_turn_def)
  then obtain u where run: "(if u = PROC_UID_KERNEL then
          kbind (case req of Some q \<Rightarrow> tty_request src q (t, s) | None \<Rightarrow> KOk ([], False, t, s)) (\<lambda>(out, reset, t, s).
          let (out', t') = tty_cursor reset False t in KOk (out @ out', t', s))
        else KOk ([TTY_EXIT], t, s)) = KOk (out, t', s')"
    unfolding kbind_KOk_iff by blast
  show ?thesis
  proof (cases "u = PROC_UID_KERNEL")
    case False
    then show ?thesis using run assms(2,3) by simp
  next
    case kernel: True
    with run obtain o1 reset t1 s1 where
      q: "(case req of Some q \<Rightarrow> tty_request src q (t, s) | None \<Rightarrow> KOk ([], False, t, s)) = KOk (o1, reset, t1, s1)"
      and o: "t' = snd (tty_cursor reset False t1)"
      by (auto simp: kbind_KOk_iff Let_def case_prod_beta)
    have "display_ok t1"
      using q assms(2-4) display_request [of src _ t s o1 reset t1 s1] by (cases req) auto
    from display_cursor [OF this, of reset False] show ?thesis unfolding o .
  qed
qed

lemma display_keyboard:
  assumes "keyboard_interrupt code (t, s) = KOk (t', s')" and "display_ok t"
  shows "display_ok t' \<and> gpu_pdl t' = gpu_pdl t"
proof -
  obtain key b t1 where d: "kbd_decode code t = (key, b, t1)" by (metis prod_cases3)
  note D = decode_table [OF d]
  have g: "gpu_run t1 = gpu_run t" "gpu_pdl t1 = gpu_pdl t" "tty_fb_addr t1 = tty_fb_addr t"
    using d by (auto simp: kbd_decode_def Let_def split: if_splits)
  have w: "tty_wf t1" using assms(2) D tty_wf_cong [of t t1] by (simp add: display_ok_def)
  have d1: "display_ok t1" by (rule display_cong [OF assms(2) w g]) (simp_all add: D)
  then have "display_ok (upd_tty (tty_ptr t1) (ring_put key) t1)" by (rule display_upd) (simp add: ring_put_def attr_wf_def)
  moreover have "t' = t1 \<or> t' = upd_tty (tty_ptr t1) (ring_put key) t1"
    using assms(1) d by (auto simp: keyboard_interrupt_def kbind_KOk_iff split: if_splits)
  ultimately show ?thesis using d1 g(2) by auto
qed

lemma drawn_redraw_row:
  assumes "drawn t W" and "\<forall>x \<in> set xs. x < TTY_COLS \<and> screen (visible t) ! (x + y * TTY_COLS) = 0" and "y < TTY_ROWS"
  shows "drawn (gpu_redraw_row xs y t) (W @ map (\<lambda>x. (fb_cell (tty_fb_addr t) x y, glyph_src 0)) xs)"
  using assms(1,2)
proof (induction xs arbitrary: t W)
  case (Cons x xs)
  have u: "unat (of_nat x :: u8) = x" "unat (of_nat y :: u8) = y" using Cons.prems(2) assms(3) by (simp_all add: unat_of_nat screen_num)
  have "drawn (gpu_draw (of_nat x) (of_nat y) (ucast (screen (visible t) ! (x + y * TTY_COLS))) 0 t) (W @ [(fb_cell (tty_fb_addr t) x y, glyph_src 0)])"
    using drawn_draw [OF Cons.prems(1), of "of_nat x" "of_nat y" 0 0] Cons.prems(2) by (simp add: u)
  from Cons.IH [OF this] Cons.prems(2) show ?case by simp
qed simp

lemma drawn_redraw_rows:
  assumes "draws (concat (gpu_run t)) W" and "screen (visible t) = replicate SCREEN 0" and "\<forall>y \<in> set ys. y < TTY_ROWS"
  shows "draws (concat (gpu_run (gpu_redraw_rows ys t))) (W @ concat (map (row_writes (tty_fb_addr t)) ys)) \<and>
    (gpu_pdl t = [] \<or> ys \<noteq> [] \<longrightarrow> gpu_pdl (gpu_redraw_rows ys t) = [])"
  using assms
proof (induction ys arbitrary: t W)
  case (Cons y ys)
  let ?t = "gpu_flush_dl (gpu_redraw_row [0..<TTY_COLS] y (gpu_start_dl t))"
  have y: "y < TTY_ROWS" using Cons.prems(3) by simp
  have "drawn (gpu_start_dl t) W" using Cons.prems(1) by (simp add: drawn_def gpu_start_dl_def)
  from drawn_redraw_row [OF this _ y, of "[0..<TTY_COLS]"] Cons.prems(2) cell_index y
  have "drawn (gpu_redraw_row [0..<TTY_COLS] y (gpu_start_dl t)) (W @ row_writes (tty_fb_addr t) y)"
    by (simp add: row_writes_def)
  then have "drawn ?t (W @ row_writes (tty_fb_addr t) y)" by (rule drawn_flush)
  then have "draws (concat (gpu_run ?t)) (W @ row_writes (tty_fb_addr t) y)" by (simp add: drawn_def)
  from Cons.IH [OF this] Cons.prems(2,3) show ?case by simp
qed simp

lemma display_init:
  assumes "gpu_run t = []"
  shows "display_ok (tty_setup_fb (tty_init self t)) \<and> gpu_pdl (tty_setup_fb (tty_init self t)) = []"
proof -
  let ?v = "gpu_set_fb_addr ((tty_init self t)\<lparr>tty_fb_addr := FB_ADDR, gpu_pdl := []\<rparr>)"
  let ?t = "tty_setup_fb (tty_init self t)" and ?W = "concat (map (row_writes FB_ADDR) [0..<TTY_ROWS])"
  have run0: "gpu_run ?v = []" using assms by (simp add: tty_init_def)
  have scr: "screen (visible ?v) = replicate SCREEN 0" by (simp add: tty_init_def K_TTY_COUNT_def zero_tty_def SCREEN_def)
  have "draws (concat (gpu_run ?v)) []" unfolding run0 using draws_Nil by simp
  note rows = drawn_redraw_rows [OF this scr, of "[0..<TTY_ROWS]"]
  have ne: "[0..<TTY_ROWS] \<noteq> []" by (simp add: screen_num)
  have eq: "?t = gpu_redraw_rows [0..<TTY_ROWS] ?v" by (simp only: tty_setup_fb_def gpu_redraw_def)
  have fb: "tty_fb_addr ?v = FB_ADDR" by simp
  have "\<forall>y \<in> set [0..<TTY_ROWS]. y < TTY_ROWS" by simp
  from rows [OF this] have r: "draws (concat (gpu_run ?t)) ?W" "gpu_pdl ?t = []"
    unfolding eq fb append_Nil using ne by blast+
  then have d: "drawn ?t ?W" by (simp add: drawn_def)
  have z: "cell (visible ?t) x y = 0" if "x < TTY_COLS" "y < TTY_ROWS" for x y
    using cell_index [OF that] scr by (simp add: cell_def)
  have "cell_shown ?W FB_ADDR (visible ?t) x y" if x: "x < TTY_COLS" and y: "y < TTY_ROWS" for x y
  proof -
    have "map_of (rev ?W) (fb_cell FB_ADDR x y) = Some (glyph_src 0)"
    proof (rule map_of_const)
      show "\<forall>q \<in> set (rev ?W). snd q = glyph_src 0" by (auto simp: row_writes_def)
      have "(fb_cell FB_ADDR x y, glyph_src 0) \<in> set (row_writes FB_ADDR y)" using x by (auto simp: row_writes_def)
      then have "(fb_cell FB_ADDR x y, glyph_src 0) \<in> set (rev ?W)" using y by auto
      then show "fb_cell FB_ADDR x y \<in> fst ` set (rev ?W)" by force
    qed
    then show ?thesis using z [OF x y] by (auto simp: cell_shown_def same_glyph_def)
  qed
  moreover have "py (visible ?t) = 1" by (simp add: tty_init_def K_TTY_COUNT_def)
  ultimately have "coherent ?W FB_ADDR (visible ?t)"
    using z [of _ 1] by (simp add: coherent_def FB_ADDR_def screen_num)
  then show ?thesis using d r(2) tty_wf_init [of self t] unfolding display_ok_def by auto
qed

text \<open>Runs in which nothing is written to a terminal in the background.\<close>

inductive display_run :: "tty \<Rightarrow> bool" where
  start: "gpu_run t = [] \<Longrightarrow> display_run (tty_setup_fb (tty_init self t))"
| banner: "display_run t \<Longrightarrow> tty_write_loop r (tty_ptr t) p n (gpu_start_dl t) = KOk t' \<Longrightarrow> display_run (gpu_flush_dl t')"
| key: "display_run t \<Longrightarrow> keyboard_interrupt code (t, s :: kstate) = KOk (t', s') \<Longrightarrow> display_run t'"
| turn: "display_run t \<Longrightarrow> foreground t req \<Longrightarrow> tty_turn src req (t, s :: kstate) = KOk (out, t', s') \<Longrightarrow> display_run t'"

lemma display_run_ok: "display_run t \<Longrightarrow> display_ok t \<and> gpu_pdl t = []"
proof (induction rule: display_run.induct)
  case (start t self)
  then show ?case by (rule display_init)
next
  case (banner t r p n t')
  then have "display_ok (gpu_start_dl t)" by (simp add: display_start)
  moreover have "tty_write_loop r (tty_ptr (gpu_start_dl t)) p n (gpu_start_dl t) = KOk t'" using banner.hyps(2) by simp
  ultimately have "display_ok t'" by (rule display_write)
  then show ?case by (simp add: display_flush)
next
  case (key t code s t' s')
  then show ?case using display_keyboard [OF key.hyps(2)] by simp
next
  case (turn t req src s out t' s')
  then show ?case using display_turn [OF turn.hyps(3)] by simp
qed



end

