(* ===== verification/Rfsd.thy ===== *)
theory Rfsd
  imports RfsProps
begin

text \<open>
  The server of the remote file system, tools/rfsd/rfsd.c, which runs on the host at the other end of the serial line:
  the state machine that recognises a frame, the commands and the table of descriptors. The host operating system is a
  parameter: the record \<open>host\<close> holds what the server uses of it, over a state of the host.
\<close>

section \<open>State\<close>

definition F_DIRECTORY :: u8 where "F_DIRECTORY = 4"
definition RFS_AREAD_OK :: u8 where "RFS_AREAD_OK = 0"
definition RFS_TYPE_UNK :: u8 where "RFS_TYPE_UNK = 0"
definition DT_REG :: u8 where "DT_REG = 8"
definition DT_DIR :: u8 where "DT_DIR = 4"

text \<open>
  The host: \<open>stat\<close> (inode number, whether it is a directory), \<open>opendir\<close> with what \<open>readdir\<close> will return,
  \<open>fopen\<close>, the bytes \<open>fread\<close> sees, and \<open>mkdir\<close> with its \<open>errno\<close>.
\<close>

record 'w host =
  h_stat :: "'w \<Rightarrow> u8 list \<Rightarrow> (nat \<times> bool) option"
  h_opendir :: "'w \<Rightarrow> u8 list \<Rightarrow> (u8 list \<times> u8) list option"
  h_fopen :: "'w \<Rightarrow> u8 list \<Rightarrow> bool"
  h_bytes :: "'w \<Rightarrow> u8 list \<Rightarrow> u8 list"
  h_mkdir :: "'w \<Rightarrow> u8 list \<Rightarrow> u8 \<times> 'w"

text \<open>The union \<open>open\<close>; a null pointer is \<open>H_none\<close>.\<close>

datatype handle = H_none | H_file "u8 list" | H_dir "(u8 list \<times> u8) list"

record sdesc =
  sd_ino :: nat
  sd_isdir :: bool
  sd_open :: handle
  sd_pathname :: "u8 list"

datatype fsm_t = F_SOF | F_LEN | F_CMD | F_CKS | F_EOF

text \<open>\<open>rd_smash\<close> records a store one byte behind the array \<open>aread\<close>; \<open>rd_out\<close> is what has been written to the line.\<close>

record 'w rfsd =
  rd_descs :: "sdesc list"
  rd_path :: "u8 list"
  rd_host :: 'w
  rd_out :: "u8 list"
  rd_smash :: bool
  framer_fsm :: fsm_t
  framer_len :: nat
  framer_buf :: "u8 list"

section \<open>Messages and strings\<close>

fun send_bytes :: "u8 list \<Rightarrow> u8 \<Rightarrow> 'w rfsd \<Rightarrow> u8 \<times> 'w rfsd" where
  "send_bytes [] csum s = (csum, s)"
| "send_bytes (b # bs) csum s = send_bytes bs (csum + b) (s\<lparr>rd_out := rd_out s @ [b]\<rparr>)"

definition send_msg :: "u8 list \<Rightarrow> 'w rfsd \<Rightarrow> 'w rfsd" where
  "send_msg msg s =
     (let (csum, s1) = send_bytes msg 0 (s\<lparr>rd_out := rd_out s @ [0x55, of_nat (length msg)]\<rparr>)
      in s1\<lparr>rd_out := rd_out s1 @ [csum, 0xAA]\<rparr>)"

text \<open>\<open>rfs_read_u32le\<close> on the command, and the string at an offset of it (\<open>None\<close>: no null byte up to the end of the buffer).\<close>

definition cmd_u32le :: "u8 list \<Rightarrow> nat \<Rightarrow> u32" where
  "cmd_u32le cmd i = ucast (cmd ! i) + push_bit 8 (ucast (cmd ! (i + 1))) + push_bit 16 (ucast (cmd ! (i + 2))) + push_bit 24 (ucast (cmd ! (i + 3)))"

definition cmd_string :: "u8 list \<Rightarrow> nat \<Rightarrow> u8 list option" where
  "cmd_string cmd i = (if 0 \<in> set (drop i cmd) then Some (takeWhile (\<lambda>c. c \<noteq> 0) (drop i cmd)) else None)"

text \<open>\<open>snprintf(buf, n, "%s/%s", path, name)\<close>\<close>

definition join_path :: "nat \<Rightarrow> u8 list \<Rightarrow> u8 list \<Rightarrow> u8 list" where
  "join_path n p nm = take (n - 1) (p @ [47] @ nm)"

fun find_by_node :: "u32 \<Rightarrow> sdesc list \<Rightarrow> nat option" where
  "find_by_node rn [] = None"
| "find_by_node rn (d # ds) = (if sd_ino d = unat rn then Some 0 else map_option Suc (find_by_node rn ds))"

definition upd_sdesc :: "nat \<Rightarrow> (sdesc \<Rightarrow> sdesc) \<Rightarrow> 'w rfsd \<Rightarrow> 'w rfsd" where
  "upd_sdesc k f s = s\<lparr>rd_descs := (rd_descs s)[k := f (rd_descs s ! k)]\<rparr>"

section \<open>Commands\<close>

text \<open>\<open>closedir\<close> or \<open>fclose\<close>, by the type of the descriptor: the pointer must be of that kind, or null.\<close>

definition closable :: "sdesc \<Rightarrow> bool" where
  "closable d = (case sd_open d of H_none \<Rightarrow> True | H_file _ \<Rightarrow> \<not> sd_isdir d | H_dir _ \<Rightarrow> sd_isdir d)"

definition cmd_init :: "'w host \<Rightarrow> 'w rfsd \<Rightarrow> 'w rfsd kres" where
  "cmd_init h s =
     (if \<not> list_all closable (rd_descs s) then KFault
      else case h_stat h (rd_host s) (rd_path s) of
        None \<Rightarrow> KOk (send_msg [73, 0, 0, 0, 0] (s\<lparr>rd_descs := []\<rparr>))
      | Some (ino, isdir) \<Rightarrow>
          if \<not> isdir then KOk (send_msg [73, 0, 0, 0, 0] (s\<lparr>rd_descs := []\<rparr>))
          else KOk (send_msg (73 # rfs_u32le_at (of_nat ino))
                 (s\<lparr>rd_descs := [\<lparr>sd_ino = ino, sd_isdir = True, sd_open = H_none, sd_pathname = rd_path s\<rparr>]\<rparr>)))"

definition cmd_lookup :: "'w host \<Rightarrow> u8 list \<Rightarrow> 'w rfsd \<Rightarrow> 'w rfsd kres" where
  "cmd_lookup h cmd s =
     (let none = send_msg [108, 0, 0, 0, 0, 0] s in
      case cmd_string cmd 6 of None \<Rightarrow> KFault
      | Some name \<Rightarrow>
          (case find_by_node (cmd_u32le cmd 1) (rd_descs s) of
             None \<Rightarrow> KOk none
           | Some k \<Rightarrow>
               if \<not> sd_isdir (rd_descs s ! k) then KOk none
               else
                 let path = join_path 256 (sd_pathname (rd_descs s ! k)) name in
                 (case h_stat h (rd_host s) path of
                    None \<Rightarrow> KOk none
                  | Some (ino, isdir) \<Rightarrow>
                      KOk (send_msg ([108] @ rfs_u32le_at (of_nat ino) @ [if isdir then RFS_TYPE_DIR else RFS_TYPE_REG])
                        (s\<lparr>rd_descs := \<lparr>sd_ino = ino, sd_isdir = isdir, sd_open = H_none, sd_pathname = path\<rparr> # rd_descs s\<rparr>)))))"

definition cmd_open :: "'w host \<Rightarrow> u8 list \<Rightarrow> 'w rfsd \<Rightarrow> 'w rfsd kres" where
  "cmd_open h cmd s =
     (case find_by_node (cmd_u32le cmd 1) (rd_descs s) of
        None \<Rightarrow> KOk (send_msg [111, 0, 0, 0, 0, 0] s)
      | Some k \<Rightarrow>
          let path = sd_pathname (rd_descs s ! k);
              (hd, sz) = (if cmd ! 5 = F_DIRECTORY then
                  ((case h_opendir h (rd_host s) path of Some es \<Rightarrow> H_dir es | None \<Rightarrow> H_none), 0)
                else if h_fopen h (rd_host s) path then (H_file path, of_nat (length (h_bytes h (rd_host s) path)))
                else (H_none, 0))
          in KOk (send_msg ([111, if hd \<noteq> H_none then 1 else 0] @ rfs_u32le_at sz) (upd_sdesc k (\<lambda>d. d\<lparr>sd_open := hd\<rparr>) s)))"

definition cmd_close :: "u8 list \<Rightarrow> 'w rfsd \<Rightarrow> 'w rfsd kres" where
  "cmd_close cmd s =
     (case find_by_node (cmd_u32le cmd 1) (rd_descs s) of
        None \<Rightarrow> KOk (send_msg [99, 0] s)
      | Some k \<Rightarrow>
          if \<not> closable (rd_descs s ! k) then KFault
          else KOk (send_msg [99, 1] (upd_sdesc k (\<lambda>d. d\<lparr>sd_open := H_none\<rparr>) s)))"

text \<open>The answer to getdents in its array of 18 bytes.\<close>

definition dents_answer :: "u8 \<Rightarrow> u8 list \<Rightarrow> u8 list" where
  "dents_answer ty name = [100, ty] @ name @ replicate (RFS_MAX_NAME_LEN - length name) 0"

definition cmd_getdents :: "u8 list \<Rightarrow> 'w rfsd \<Rightarrow> 'w rfsd kres" where
  "cmd_getdents cmd s =
     (let none = KOk (send_msg (dents_answer RFS_TYPE_UNK []) s) in
      case find_by_node (cmd_u32le cmd 1) (rd_descs s) of
        None \<Rightarrow> none
      | Some k \<Rightarrow>
          (case sd_open (rd_descs s ! k) of
             H_none \<Rightarrow> none
           | H_file p \<Rightarrow> KFault
           | H_dir [] \<Rightarrow> none
           | H_dir ((name, ty) # es) \<Rightarrow>
               let s1 = upd_sdesc k (\<lambda>d. d\<lparr>sd_open := H_dir es\<rparr>) s in
               if length name < RFS_MAX_NAME_LEN then
                 KOk (send_msg (dents_answer (if ty = DT_REG then RFS_TYPE_REG else if ty = DT_DIR then RFS_TYPE_DIR else RFS_TYPE_UNK) name) s1)
               else KOk (send_msg (dents_answer RFS_TYPE_UNK []) s1)))"

text \<open>
  Read: the array \<open>aread\<close> has \<open>RFS_MAX_READ + 1\<close> bytes, so that the store of 64 bytes from index 2 on goes one
  byte beyond it. As the compiled program does, the model goes on, and \<open>rd_smash\<close> remembers it. What the file does not
  fill stays 0.
\<close>

definition cmd_read :: "'w host \<Rightarrow> u8 list \<Rightarrow> 'w rfsd \<Rightarrow> 'w rfsd kres" where
  "cmd_read h cmd s =
     (let ln = unat (cmd ! 1); off = unat (cmd_u32le cmd 6) in
      if ln > RFS_MAX_READ then KOk (send_msg [114, RFS_AREAD_KO] s)
      else case find_by_node (cmd_u32le cmd 2) (rd_descs s) of
        None \<Rightarrow> KOk (send_msg [114, RFS_AREAD_KO] s)
      | Some k \<Rightarrow>
          (case sd_open (rd_descs s ! k) of
             H_file p \<Rightarrow>
               let got = take ln (drop off (h_bytes h (rd_host s) p)) in
               KOk (send_msg ([114, RFS_AREAD_OK] @ got @ replicate (ln - length got) 0)
                 (s\<lparr>rd_smash := (rd_smash s \<or> 2 + length got > RFS_MAX_READ + 1)\<rparr>))
           | _ \<Rightarrow> KFault))"

definition cmd_mkdir :: "'w host \<Rightarrow> u8 list \<Rightarrow> 'w rfsd \<Rightarrow> 'w rfsd kres" where
  "cmd_mkdir h cmd s =
     (case find_by_node (cmd_u32le cmd 1) (rd_descs s) of
        None \<Rightarrow> KOk (send_msg [109, - 1] s)
      | Some k \<Rightarrow>
          (case cmd_string cmd 7 of None \<Rightarrow> KFault
           | Some name \<Rightarrow>
               let (ret, w) = h_mkdir h (rd_host s) (join_path 128 (sd_pathname (rd_descs s ! k)) name)
               in KOk (send_msg [109, ret] (s\<lparr>rd_host := w\<rparr>))))"

definition do_cmd :: "'w host \<Rightarrow> u8 list \<Rightarrow> 'w rfsd \<Rightarrow> 'w rfsd kres" where
  "do_cmd h cmd s =
     (if rd_descs s = [] \<and> cmd ! 0 \<noteq> 73 then KOk s
      else if cmd ! 0 = 73 then cmd_init h s
      else if cmd ! 0 = 76 then cmd_lookup h cmd s
      else if cmd ! 0 = 79 then cmd_open h cmd s
      else if cmd ! 0 = 67 then cmd_close cmd s
      else if cmd ! 0 = 68 then cmd_getdents cmd s
      else if cmd ! 0 = 82 then cmd_read h cmd s
      else if cmd ! 0 = 77 then cmd_mkdir h cmd s
      else KOk s)"

section \<open>Frames\<close>

text \<open>What one call of \<open>read\<close> for a byte returns: the byte, nothing within the timeout, or an error.\<close>

datatype rd_event = RD_byte u8 | RD_none | RD_err

definition buf_set :: "nat \<Rightarrow> u8 \<Rightarrow> u8 list \<Rightarrow> u8 list kres" where
  "buf_set k b buf = (if k < length buf then KOk (buf[k := b]) else KFault)"

text \<open>
  The loop of \<open>F_CMD\<close>, which reads byte after byte; the third component tells that the loop has been left, otherwise the
  input is used up. On an error the \<open>break\<close> leaves the loop only, and the state becomes \<open>F_CKS\<close> all the same.
\<close>

fun framer_cmd :: "rd_event list \<Rightarrow> nat \<Rightarrow> u8 list \<Rightarrow> (nat \<times> u8 list \<times> bool \<times> rd_event list) kres" where
  "framer_cmd [] len buf = KOk (len, buf, \<not> len < unat (buf ! 1), [])"
| "framer_cmd (e # es) len buf =
     (if len < unat (buf ! 1) then
        (case e of
           RD_byte b \<Rightarrow> kbind (buf_set (2 + len) b buf) (framer_cmd es (len + 1))
         | RD_none \<Rightarrow> framer_cmd es len buf
         | RD_err \<Rightarrow> KOk (len, buf, True, es))
      else KOk (len, buf, True, e # es))"

definition framer_sum :: "nat \<Rightarrow> u8 list \<Rightarrow> u8" where
  "framer_sum len buf = sum_list (take len (drop 2 buf))"

text \<open>One byte (or none) in the other states.\<close>

definition framer_byte :: "'w host \<Rightarrow> rd_event \<Rightarrow> 'w rfsd \<Rightarrow> 'w rfsd kres" where
  "framer_byte h e s =
     (let len = framer_len s; buf = framer_buf s in
      case (framer_fsm s, e) of
        (F_SOF, RD_byte b) \<Rightarrow>
          kbind (buf_set 0 b buf) (\<lambda>buf1. KOk (s\<lparr>framer_len := 0, framer_buf := buf1, framer_fsm := (if b = 0x55 then F_LEN else F_SOF)\<rparr>))
      | (F_SOF, _) \<Rightarrow> KOk (s\<lparr>framer_len := 0\<rparr>)
      | (F_LEN, RD_byte b) \<Rightarrow> kbind (buf_set 1 b buf) (\<lambda>buf1. KOk (s\<lparr>framer_buf := buf1, framer_fsm := F_CMD\<rparr>))
      | (F_CKS, RD_byte b) \<Rightarrow>
          kbind (buf_set (2 + len) b buf) (\<lambda>buf1.
          KOk (s\<lparr>framer_buf := buf1, framer_fsm := (if framer_sum len buf1 \<noteq> b then F_SOF else F_EOF)\<rparr>))
      | (F_EOF, RD_byte b) \<Rightarrow>
          kbind (buf_set (2 + len + 1) b buf) (\<lambda>buf1.
          let s1 = s\<lparr>framer_buf := buf1\<rparr> in
          kbind (if b = 0xAA then do_cmd h (drop 2 buf1) s1 else KOk s1) (\<lambda>s2. KOk (s2\<lparr>framer_fsm := F_SOF\<rparr>)))
      | _ \<Rightarrow> KOk (s\<lparr>framer_fsm := F_SOF\<rparr>))"

lemma framer_cmd_shorter: "framer_cmd es len buf = KOk (len', buf', b, es') \<Longrightarrow> length es' \<le> length es"
proof (induction es arbitrary: len buf)
  case (Cons e es)
  then show ?case by (cases e) (fastforce simp: kbind_KOk_iff split: if_splits)+
qed simp

text \<open>The loop of \<open>main\<close> over the input; it stops where the next read would wait.\<close>

fun rfsd_loop :: "nat \<Rightarrow> 'w host \<Rightarrow> rd_event list \<Rightarrow> 'w rfsd \<Rightarrow> 'w rfsd kres" where
  "rfsd_loop 0 h es s = KOk s"
| "rfsd_loop (Suc fuel) h es s =
     (if framer_fsm s = F_CMD then
        kbind (framer_cmd es (framer_len s) (framer_buf s)) (\<lambda>(len, buf, left, es1).
        let s1 = s\<lparr>framer_len := len, framer_buf := buf\<rparr> in
        if left then rfsd_loop fuel h es1 (s1\<lparr>framer_fsm := F_CKS\<rparr>) else KOk s1)
      else case es of
        [] \<Rightarrow> KOk s
      | e # es1 \<Rightarrow> kbind (framer_byte h e s) (rfsd_loop fuel h es1))"

text \<open>Two turns per byte are enough: only \<open>F_CMD\<close> may take a turn without reading, and it follows a byte.\<close>

definition rfsd_run :: "'w host \<Rightarrow> rd_event list \<Rightarrow> 'w rfsd \<Rightarrow> 'w rfsd kres" where
  "rfsd_run h es s = rfsd_loop (2 * length es + 2) h es s"

definition rfsd_start :: "u8 list \<Rightarrow> 'w \<Rightarrow> 'w rfsd" where
  "rfsd_start path w = \<lparr>rd_descs = [], rd_path = path, rd_host = w, rd_out = [], rd_smash = False,
     framer_fsm = F_SOF, framer_len = 0, framer_buf = replicate 256 0\<rparr>"

end
