(* ===== verification/RfsRemote.thy ===== *)
theory RfsRemote
  imports RfsdProps
begin

text \<open>
  The client in the kernel and the server on the host over a line that loses nothing: a file that is opened and read
  through the remote file system is the file on the host.
\<close>

section \<open>The line\<close>

text \<open>
  What is written reaches the server; what the server has sent, and nobody has read yet, is what reads return. (A read of more than
  has been sent would wait: nothing is said of it.)
\<close>

definition lossless_line :: "'w host \<Rightarrow> 'w rfsd dexchange \<Rightarrow> bool" where
  "lossless_line h dx \<longleftrightarrow>
     (\<forall>p mi pos a n k ds w. dx p (DEV_WRITE mi pos a n) (k, ds, w) =
        kbind (rfsd_run h (map (\<lambda>i. RD_byte (ram k (a + of_nat i))) [0..<unat n]) w) (\<lambda>w'. KOk (uint n, k, ds, w'))) \<and>
     (\<forall>p mi pos a n k ds w. unat n \<le> length (rd_out w) \<longrightarrow> dx p (DEV_READ mi pos a n) (k, ds, w) =
        KOk (uint n, k\<lparr>ram := put_bytes (ram k) a (take (unat n) (rd_out w))\<rparr>, ds, w\<lparr>rd_out := drop (unat n) (rd_out w)\<rparr>))"

lemma kstate_back: "(kstate.extend (kstate.truncate s) (kstate.more s))\<lparr>dev_list := dev_list s, world := w\<rparr> = (s\<lparr>world := w\<rparr> :: ('w, 'a) vstate_scheme)"
  by (cases s) (simp add: kstate.defs)

lemma kstate_back_ram:
  "(kstate.extend ((kstate.truncate s)\<lparr>ram := r\<rparr>) (kstate.more s))\<lparr>dev_list := dev_list s, world := w\<rparr> =
     (s\<lparr>ram := r, world := w\<rparr> :: ('w, 'a) vstate_scheme)"
  by (cases s) (simp add: kstate.defs)

lemma kstate_ram: "ram (kstate.truncate s) = ram (s :: ('w, 'a) vstate_scheme)"
  by (cases s) (simp add: kstate.defs)

lemma ask_write:
  assumes "lossless_line h dx"
  shows "ask_driver dx d (DEV_WRITE mi pos a n) s =
    kbind (rfsd_run h (map (\<lambda>i. RD_byte (ram s (a + of_nat i))) [0..<unat n]) (world s)) (\<lambda>w. KOk (uint n, s\<lparr>world := w\<rparr>))"
  using assms by (simp add: lossless_line_def ask_driver_def kbind_assoc kstate_back kstate_ram)

lemma ask_read:
  assumes "lossless_line h dx" and "unat n \<le> length (rd_out (world s))"
  shows "ask_driver dx d (DEV_READ mi pos a n) s = KOk (uint n,
    s\<lparr>ram := put_bytes (ram s) a (take (unat n) (rd_out (world s))), world := (world s)\<lparr>rd_out := drop (unat n) (rd_out (world s))\<rparr>\<rparr>)"
  using assms by (simp add: lossless_line_def ask_driver_def kstate_back_ram kstate_ram)

section \<open>Frames through the line\<close>

lemma put_bytes_append:
  assumes "length xs + length ys < 2 ^ 32"
  shows "put_bytes (put_bytes r a xs) (a + of_nat (length xs)) ys = put_bytes r a (xs @ ys)"
proof
  fix x
  have e: "x = a + of_nat (unat (x - a))" by simp
  show "put_bytes (put_bytes r a xs) (a + of_nat (length xs)) ys x = put_bytes r a (xs @ ys) x"
  proof (cases "unat (x - a) < length xs")
    case True
    have "x \<in> region a (length xs)" using region_offset [OF True, of a] by simp
    then have "x \<notin> region (a + of_nat (length xs)) (length ys)" using region_tail [of "length xs" "length ys" a] assms by auto
    then have "put_bytes (put_bytes r a xs) (a + of_nat (length xs)) ys x = put_bytes r a xs x" by (rule put_outside)
    then show ?thesis using True by (simp add: put_bytes_def nth_append)
  next
    case False
    have "x - (a + of_nat (length xs)) = (x - a) - of_nat (length xs)" by simp
    moreover have "unat (of_nat (length xs) :: u32) = length xs" using assms by (simp add: unat_of_nat)
    ultimately have "unat (x - (a + of_nat (length xs))) = unat (x - a) - length xs"
      using False by (metis not_less unat_sub word_le_nat_alt)
    then show ?thesis using False by (auto simp: put_bytes_def nth_append)
  qed
qed

lemma of_nat_u32: "m < 2 ^ 32 \<Longrightarrow> unat (of_nat m :: u32) = m" "m < 2 ^ 32 \<Longrightarrow> uint (of_nat m :: u32) = int m"
  by (simp_all add: unat_of_nat uint_nat)

lemma check_accepts: "holds r a (rfs_frame pl) \<Longrightarrow> length pl < 256 \<Longrightarrow> check_msg r a"
  using frame_bytes [of r a pl] sum_bytes [of pl "\<lambda>i. r (a + 2 + of_nat i)"] by (simp add: check_msg_sum)

lemma map_holds: "holds r a bs \<Longrightarrow> map (\<lambda>i. f (r (a + of_nat i))) [0..<length bs] = map f bs"
  by (rule nth_equalityI) (simp_all add: holdsD)

text \<open>A command reaches the server, which does it once.\<close>

lemma command_done:
  assumes "lossless_line h dx" and "srv_ready (world s)" and "length pl \<le> 252"
  shows "\<exists>cmd w1. length cmd = 254 \<and> take (length pl) cmd = pl \<and> same_srv (world s) w1 \<and> length (framer_buf w1) = 256 \<and>
    rfs_command dx cb d pl s =
      kbind (do_cmd h cmd w1) (\<lambda>w2. KOk (s\<lparr>ram := put_bytes (ram s) cb (rfs_frame pl), world := w2\<lparr>framer_fsm := F_SOF\<rparr>\<rparr>))"
proof -
  obtain cmd w1 where c: "length cmd = 254" "take (length pl) cmd = pl" "same_srv (world s) w1" "length (framer_buf w1) = 256"
    "rfsd_run h (map RD_byte ([] @ rfs_frame pl)) (world s) = kbind (do_cmd h cmd w1) (\<lambda>s2. KOk (s2\<lparr>framer_fsm := F_SOF\<rparr>))"
    using run_intact [OF assms(2,3), of "[]" h] by auto
  have n: "unat (of_nat (length (rfs_frame pl)) :: u32) = length (rfs_frame pl)" using assms(3) by (simp add: unat_of_nat del: of_nat_add)
  have "holds (put_bytes (ram s) cb (rfs_frame pl)) cb (rfs_frame pl)" by (rule put_holds) (use assms(3) in simp)
  from map_holds [OF this, of RD_byte] c(5)
  have "rfs_command dx cb d pl s =
      kbind (do_cmd h cmd w1) (\<lambda>w2. KOk (s\<lparr>ram := put_bytes (ram s) cb (rfs_frame pl), world := w2\<lparr>framer_fsm := F_SOF\<rparr>\<rparr>))"
    by (simp add: rfs_command_def ask_write [OF assms(1)] n kbind_assoc del: of_nat_add frame_length)
  then show ?thesis using c by blast
qed

text \<open>The answer that the server has sent is received whole.\<close>

lemma answer_fixed:
  assumes "lossless_line h dx" and "rd_out (world s) = rfs_frame msg" and "n = length msg + 4" and "length msg < 250"
  shows "rfs_answer dx ab d n s = KOk (True, s\<lparr>ram := put_bytes (ram s) ab (rfs_frame msg), world := (world s)\<lparr>rd_out := []\<rparr>\<rparr>)"
proof -
  have n: "unat (of_nat n :: u32) = n" "uint (of_nat n :: u32) = int n" by (rule of_nat_u32; use assms(3,4) in simp)+
  have "holds (put_bytes (ram s) ab (rfs_frame msg)) ab (rfs_frame msg)" by (rule put_holds) (use assms(4) in simp)
  then have "check_msg (put_bytes (ram s) ab (rfs_frame msg)) ab" using assms(4) by (simp add: check_accepts)
  moreover have "ask_driver dx d (DEV_READ (minor d) 0 ab (of_nat n)) s =
      KOk (int n, s\<lparr>ram := put_bytes (ram s) ab (rfs_frame msg), world := (world s)\<lparr>rd_out := []\<rparr>\<rparr>)"
    using ask_read [OF assms(1), of "of_nat n" s d "minor d" 0 ab] assms(2,3) unfolding n by simp
  ultimately show ?thesis by (simp add: rfs_answer_def)
qed

lemma answer_variable:
  assumes "lossless_line h dx" and "rd_out (world s) = rfs_frame msg" and "length msg \<le> RFS_MAX_READ + 2"
  shows "rfs_receive_msg dx d ab s = KOk (True, s\<lparr>ram := put_bytes (ram s) ab (rfs_frame msg), world := (world s)\<lparr>rd_out := []\<rparr>\<rparr>)"
proof -
  let ?f = "rfs_frame msg"
  let ?r1 = "put_bytes (ram s) ab (take 2 ?f)"
  let ?s1 = "s\<lparr>ram := ?r1, world := (world s)\<lparr>rd_out := drop 2 ?f\<rparr>\<rparr>"
  have l: "length msg \<le> 66" using assms(3) by (simp add: RFS_MAX_READ_def)
  have r: "ask_driver dx d (DEV_READ (minor d) 0 ab 2) s = KOk (2, ?s1)"
    using ask_read [OF assms(1), of 2 s] assms(2) by simp
  have h1: "holds ?r1 ab (take 2 ?f)" by (rule put_holds) simp
  have b0: "?r1 ab = 0x55" using holdsD [OF h1, of 0] by (simp add: rfs_frame_def)
  have b1: "unat (?r1 (ab + 1)) = length msg"
    using holdsD [OF h1, of 1] l by (simp add: rfs_frame_def RFS_PAYLOAD_LEN_def unat_of_nat)
  have n: "unat (of_nat (length msg + 2) :: u32) = length msg + 2" "uint (of_nat (length msg + 2) :: u32) = int (length msg + 2)"
    by (rule of_nat_u32; use l in simp)+
  have p: "put_bytes ?r1 (ab + 2) (drop 2 ?f) = put_bytes (ram s) ab ?f"
  proof -
    have "length (take 2 ?f) = 2" "length (take 2 ?f) + length (drop 2 ?f) < 2 ^ 32" using l by simp_all
    then show ?thesis using put_bytes_append [of "take 2 ?f" "drop 2 ?f" "ram s" ab] by (simp only: append_take_drop_id of_nat_numeral)
  qed
  have r2: "ask_driver dx d (DEV_READ (minor d) 0 (ab + 2) (of_nat (length msg + 2))) ?s1 =
      KOk (int (length msg + 2), s\<lparr>ram := put_bytes (ram s) ab ?f, world := (world s)\<lparr>rd_out := []\<rparr>\<rparr>)"
    using ask_read [OF assms(1), of "of_nat (length msg + 2)" ?s1 d "minor d" 0 "ab + 2"] unfolding n by (simp add: p)
  have "holds (put_bytes (ram s) ab ?f) ab ?f" by (rule put_holds) (use l in simp)
  then have "check_msg (put_bytes (ram s) ab ?f) ab" using l by (simp add: check_accepts)
  moreover have "ask_driver dx d (DEV_READ (minor d) 0 (ab + 2) (2 + of_nat (length msg))) ?s1 =
      KOk (2 + int (length msg), s\<lparr>ram := put_bytes (ram s) ab ?f, world := (world s)\<lparr>rd_out := []\<rparr>\<rparr>)"
    using r2 by (simp add: add.commute)
  ultimately show ?thesis using l by (simp add: rfs_receive_msg_def r b0 b1 Let_def RFS_MAX_READ_def)
qed

section \<open>Values on the wire\<close>

lemma wire_le32:
  "ucast (ucast w :: u8) + push_bit 8 (ucast (ucast (drop_bit 8 w) :: u8)) + push_bit 16 (ucast (ucast (drop_bit 16 w) :: u8)) +
     push_bit 24 (ucast (ucast (drop_bit 24 w) :: u8)) = (w :: u32)" (is "?a + ?b + ?c + ?d = w")
proof -
  have 1: "?a + ?b = ?a OR ?b" by (rule disjunctive_add) (auto simp: bit_simps)
  have 2: "(?a OR ?b) + ?c = ?a OR ?b OR ?c" unfolding or.assoc [symmetric] by (rule disjunctive_add) (auto simp: bit_simps)
  have 3: "(?a OR ?b OR ?c) + ?d = ?a OR ?b OR ?c OR ?d" unfolding or.assoc [symmetric] by (rule disjunctive_add) (auto simp: bit_simps)
  show ?thesis unfolding 1 2 3 using bytes_of_u32 [of w] by (simp add: or.commute or.left_commute)
qed

lemma wire_u32: "take 4 (drop i cmd) = rfs_u32le_at w \<Longrightarrow> cmd_u32le cmd i = w"
proof -
  assume a: "take 4 (drop i cmd) = rfs_u32le_at w"
  have "4 \<le> length (drop i cmd)" using arg_cong [OF a, of length] by (simp add: rfs_u32le_at_def)
  then have n: "cmd ! (i + j) = rfs_u32le_at w ! j" if "j < 4" for j
    using arg_cong [OF a, of "\<lambda>xs. xs ! j"] that by simp
  show ?thesis using n [of 0] n [of 1] n [of 2] n [of 3] wire_le32 [of w] by (simp add: cmd_u32le_def rfs_u32le_at_def)
qed

lemma wire_ram: "holds r a (rfs_u32le_at w) \<Longrightarrow> rfs_read_u32le r a = w"
  using holdsD [of r a "rfs_u32le_at w" 0] holdsD [of r a "rfs_u32le_at w" 1] holdsD [of r a "rfs_u32le_at w" 2]
    holdsD [of r a "rfs_u32le_at w" 3] wire_le32 [of w] by (simp add: rfs_read_u32le_def rfs_u32le_at_def)

section \<open>The server's answers\<close>

lemma cmd_nth: "take n cmd = pl \<Longrightarrow> i < n \<Longrightarrow> cmd ! i = pl ! i"
  by auto

lemma do_read:
  assumes "take 10 cmd = [82, of_nat ln] @ rfs_u32le_at rn @ rfs_u32le_at off" and "ln \<le> 64"
    and "find_by_node rn (rd_descs w) = Some k" and "sd_open (rd_descs w ! k) = H_file p"
    and "unat off + ln \<le> length (h_bytes h (rd_host w) p)"
  shows "\<exists>b. do_cmd h cmd w = KOk (send_msg ([114, 0] @ take ln (drop (unat off) (h_bytes h (rd_host w) p))) (w\<lparr>rd_smash := b\<rparr>))"
proof -
  have d: "rd_descs w \<noteq> []" using assms(3) by auto
  have c: "cmd ! 0 = 82" "cmd ! 1 = of_nat ln" using cmd_nth [OF assms(1)] by simp_all
  have "take 4 (drop 2 (take 10 cmd)) = rfs_u32le_at rn" "take 4 (drop 6 (take 10 cmd)) = rfs_u32le_at off"
    unfolding assms(1) by (simp_all add: rfs_u32le_at_def)
  then have u: "cmd_u32le cmd 2 = rn" "cmd_u32le cmd 6 = off" by (intro wire_u32; simp add: drop_take min_def)+
  have l: "unat (of_nat ln :: u8) = ln" using assms(2) by (simp add: unat_of_nat)
  have g: "ln - (length (h_bytes h (rd_host w) p) - unat off) = 0" "min (length (h_bytes h (rd_host w) p) - unat off) ln = ln" using assms(5) by simp_all
  show ?thesis using assms(2-5) d c u l g by (auto simp: do_cmd_def cmd_read_def Let_def RFS_MAX_READ_def RFS_AREAD_OK_def)
qed

section \<open>Reading\<close>

text \<open>The server waits for a command and has the file open whose contents are \<open>file\<close>.\<close>

definition serves :: "'w host \<Rightarrow> u32 \<Rightarrow> u8 list \<Rightarrow> 'w rfsd \<Rightarrow> bool" where
  "serves h rn file w \<longleftrightarrow> srv_ready w \<and> rd_out w = [] \<and>
     (\<exists>k p. find_by_node rn (rd_descs w) = Some k \<and> sd_open (rd_descs w ! k) = H_file p \<and> h_bytes h (rd_host w) p = file)"

text \<open>The memory after one command to the device and its answer.\<close>

definition exchanged :: "u32 \<Rightarrow> u8 list \<Rightarrow> u32 \<Rightarrow> u8 list \<Rightarrow> ram \<Rightarrow> ram" where
  "exchanged cb pl ab msg r = put_bytes (put_bytes r cb (rfs_frame pl)) ab (rfs_frame msg)"

lemma exchanged_holds: "length msg < 250 \<Longrightarrow> holds (exchanged cb pl ab msg r) ab (rfs_frame msg)"
  unfolding exchanged_def by (rule put_holds) simp

lemma exchanged_bytes:
  assumes "length msg < 250" and "i < length msg"
  shows "exchanged cb pl ab msg r (ab + 2 + of_nat i) = msg ! i" and "unat (exchanged cb pl ab msg r (ab + 1)) = length msg"
  using frame_bytes [OF exchanged_holds [OF assms(1), of cb pl ab r]] assms by simp_all

lemma exchanged_outside: "x \<notin> region cb (length pl + 4) \<Longrightarrow> x \<notin> region ab (length msg + 4) \<Longrightarrow> exchanged cb pl ab msg r x = r x"
  by (simp add: exchanged_def put_outside)

text \<open>A command and its answer: the client has the server's message in memory.\<close>

lemma read_exchange:
  assumes "lossless_line h dx" and "serves h rn file (world s)" and "ln \<le> 64" and "unat off + ln \<le> length file"
  shows "\<exists>w'. serves h rn file w' \<and>
    kbind (rfs_command dx cb d ([82, of_nat ln] @ rfs_u32le_at rn @ rfs_u32le_at off) s) (rfs_receive_msg dx d ab) =
      KOk (True, s\<lparr>ram := exchanged cb ([82, of_nat ln] @ rfs_u32le_at rn @ rfs_u32le_at off) ab ([114, 0] @ take ln (drop (unat off) file)) (ram s),
        world := w'\<rparr>)"
proof -
  let ?pl = "[82, of_nat ln] @ rfs_u32le_at rn @ rfs_u32le_at off"
  let ?msg = "[114, 0] @ take ln (drop (unat off) file)"
  have len: "length ?pl = 10" by (simp add: rfs_u32le_at_def)
  from assms(2) obtain k p where sv: "srv_ready (world s)" "rd_out (world s) = []" "find_by_node rn (rd_descs (world s)) = Some k"
    "sd_open (rd_descs (world s) ! k) = H_file p" "h_bytes h (rd_host (world s)) p = file" by (auto simp: serves_def)
  obtain cmd w1 where c: "length cmd = 254" "take (length ?pl) cmd = ?pl" "same_srv (world s) w1" "length (framer_buf w1) = 256"
    "rfs_command dx cb d ?pl s = kbind (do_cmd h cmd w1) (\<lambda>w2. KOk (s\<lparr>ram := put_bytes (ram s) cb (rfs_frame ?pl), world := w2\<lparr>framer_fsm := F_SOF\<rparr>\<rparr>))"
    using command_done [OF assms(1) sv(1), of ?pl cb d] len by auto
  have w1: "rd_descs w1 = rd_descs (world s)" "rd_host w1 = rd_host (world s)" "rd_out w1 = []" using c(3) sv(2) by (simp_all add: same_srv_def)
  have t: "take 10 cmd = ?pl" using c(2) len by simp
  obtain b where b: "do_cmd h cmd w1 = KOk (send_msg ?msg (w1\<lparr>rd_smash := b\<rparr>))"
    using do_read [OF t assms(3), of w1 k p h] w1 sv assms(4) by auto
  let ?w2 = "w1\<lparr>rd_smash := b, rd_out := rfs_frame ?msg, framer_fsm := F_SOF\<rparr>"
  let ?s1 = "s\<lparr>ram := put_bytes (ram s) cb (rfs_frame ?pl), world := ?w2\<rparr>"
  have 1: "rfs_command dx cb d ?pl s = KOk ?s1" using c(5) b w1(3) by (simp add: send_msg_frame)
  have 2: "rfs_receive_msg dx d ab ?s1 = KOk (True, ?s1\<lparr>ram := put_bytes (ram ?s1) ab (rfs_frame ?msg), world := (world ?s1)\<lparr>rd_out := []\<rparr>\<rparr>)"
    by (rule answer_variable [OF assms(1)]) (use assms(3) in \<open>simp_all add: RFS_MAX_READ_def\<close>)
  have "serves h rn file (?w2\<lparr>rd_out := []\<rparr>)" using sv w1 c(4) by (auto simp: serves_def srv_ready_def)
  then show ?thesis unfolding 1 using 2 by (intro exI [of _ "?w2\<lparr>rd_out := []\<rparr>"]) (simp add: exchanged_def)
qed

lemma upd_rnode_simps:
  "ram (upd_rnode v f s) = ram s" "world (upd_rnode v f s) = world s" "v_rnode (vnodes (upd_rnode v f s) v) = f (v_rnode (vnodes s v))"
  by (simp_all add: upd_rnode_def upd_vnode_def)

lemma rnode_read_turn:
  assumes "lossless_line h dx" and "serves h rn file (world s)" and "did < cnt" and "ln = (if cnt - did > 64 then 64 else cnt - did)"
    and "off = rn_lseek (v_rnode (vnodes s v))" and "unat off + ln \<le> length file"
    and "r1 = exchanged cb ([82, of_nat ln] @ rfs_u32le_at rn @ rfs_u32le_at off) ab ([114, 0] @ take ln (drop (unat off) file)) (ram s)"
  shows "\<exists>w'. serves h rn file w' \<and> rnode_read_loop dx cb ab d rn v dst cnt did s =
    rnode_read_loop dx cb ab d rn v (dst + of_nat ln) cnt (did + ln)
      ((upd_rnode v (\<lambda>n. n\<lparr>rn_lseek := rn_lseek n + of_nat ln\<rparr>) (s\<lparr>ram := r1, world := w'\<rparr>))\<lparr>ram := memcpy r1 dst (ab + 4) ln\<rparr>)"
proof -
  let ?pl = "[82, of_nat ln] @ rfs_u32le_at rn @ rfs_u32le_at off"
  let ?msg = "[114, 0] @ take ln (drop (unat off) file)"
  have ln: "0 < ln" "ln \<le> 64" using assms(3,4) by auto
  obtain w' where w': "serves h rn file w'" "kbind (rfs_command dx cb d ?pl s) (rfs_receive_msg dx d ab) = KOk (True, s\<lparr>ram := r1, world := w'\<rparr>)"
    using read_exchange [OF assms(1,2) ln(2) assms(6), of cb d ab] assms(7) by auto
  from w'(2) obtain s1 where s1: "rfs_command dx cb d ?pl s = KOk s1" "rfs_receive_msg dx d ab s1 = KOk (True, s\<lparr>ram := r1, world := w'\<rparr>)"
    unfolding kbind_KOk_iff by blast
  have m: "length ?msg = ln + 2" using assms(6) by simp
  have b3: "r1 (ab + 3) = 0"
    using exchanged_bytes(1) [of ?msg 1 cb ?pl ab "ram s"] m ln by (simp add: assms(7) add.assoc)
  have b1: "unat (r1 (ab + 1)) = ln + 2" using exchanged_bytes(2) [of ?msg 0 cb ?pl ab "ram s"] m ln by (simp add: assms(7))
  have bl: "unat (r1 (ab + 1) - 2) = ln" using b1 by (simp add: unat_sub word_le_nat_alt)
  then have nz: "r1 (ab + 1) - 2 \<noteq> 0" using ln(1) by auto
  have bu: "ucast (r1 (ab + 1) - 2) = (of_nat ln :: u32)" unfolding bl [symmetric] by simp
  have ul: "unat (of_nat ln :: u8) = ln" using ln(2) by (simp add: unat_of_nat)
  show ?thesis
    apply (intro exI [of _ w'] conjI w'(1))
    apply (subst rnode_read_loop.simps)
    using assms(3) s1 b3 nz ul unfolding assms(4) [symmetric] assms(5) [symmetric]
    apply (simp add: Let_def RFS_AREAD_KO_def bu bl upd_rnode_simps del: append_Cons append_Nil)
    done
qed

text \<open>One turn as the caller sees it: the bytes are at \<open>dst\<close>, and nothing else but the two arrays has changed.\<close>

lemma rnode_read_step:
  assumes "lossless_line h dx" and "serves h rn file (world s)" and "did < cnt" and "ln = (if cnt - did > 64 then 64 else cnt - did)"
    and "off = rn_lseek (v_rnode (vnodes s v))" and "unat off + ln \<le> length file" and "region dst ln \<inter> region ab 70 = {}"
  shows "\<exists>s'. rnode_read_loop dx cb ab d rn v dst cnt did s = rnode_read_loop dx cb ab d rn v (dst + of_nat ln) cnt (did + ln) s' \<and>
    serves h rn file (world s') \<and> rn_lseek (v_rnode (vnodes s' v)) = off + of_nat ln \<and>
    holds (ram s') dst (take ln (drop (unat off) file)) \<and>
    (\<forall>x. x \<notin> region dst ln \<union> region cb 14 \<union> region ab 70 \<longrightarrow> ram s' x = ram s x)"
proof -
  let ?pl = "[82, of_nat ln] @ rfs_u32le_at rn @ rfs_u32le_at off"
  let ?ch = "take ln (drop (unat off) file)"
  let ?r1 = "exchanged cb ?pl ab ([114, 0] @ ?ch) (ram s)"
  have ln: "0 < ln" "ln \<le> 64" using assms(3,4) by auto
  have m: "length ([114, 0] @ ?ch) = ln + 2" "length ?ch = ln" "length ?pl = 10" using assms(6) by (simp_all add: rfs_u32le_at_def)
  obtain w' where w': "serves h rn file w'" "rnode_read_loop dx cb ab d rn v dst cnt did s =
    rnode_read_loop dx cb ab d rn v (dst + of_nat ln) cnt (did + ln)
      ((upd_rnode v (\<lambda>n. n\<lparr>rn_lseek := rn_lseek n + of_nat ln\<rparr>) (s\<lparr>ram := ?r1, world := w'\<rparr>))\<lparr>ram := memcpy ?r1 dst (ab + 4) ln\<rparr>)"
    using rnode_read_turn [OF assms(1-6) refl, of cb ab d dst] by blast
  let ?s = "(upd_rnode v (\<lambda>n. n\<lparr>rn_lseek := rn_lseek n + of_nat ln\<rparr>) (s\<lparr>ram := ?r1, world := w'\<rparr>))\<lparr>ram := memcpy ?r1 dst (ab + 4) ln\<rparr>"
  have sub: "region (ab + of_nat 4) ln \<subseteq> region ab 70" "region ab (ln + 6) \<subseteq> region ab 70"
    using region_sub [of ln 4 70 ab] region_sub [of "ln + 6" 0 70 ab] ln(2) by simp_all
  have "?r1 (ab + 4 + of_nat i) = ?ch ! i" if "i < ln" for i
    using exchanged_bytes(1) [of "[114, 0] @ ?ch" "2 + i" cb ?pl ab "ram s"] that m ln(2) by (simp add: add_ac)
  then have "holds ?r1 (ab + 4) ?ch" using m(2) by (simp add: holds_def)
  then have h: "holds (memcpy ?r1 dst (ab + 4) ln) dst ?ch"
    by (rule memcpy_holds) (use m(2) sub(1) assms(7) ln(2) in auto)
  have out: "memcpy ?r1 dst (ab + 4) ln x = ram s x" if "x \<notin> region dst ln \<union> region cb 14 \<union> region ab 70" for x
    using that sub(2) m by (subst memcpy_outside, simp) (rule exchanged_outside; auto simp: add.commute)
  show ?thesis
    by (intro exI [of _ ?s] conjI w'(2)) (use w'(1) h out assms(5) in \<open>simp_all add: upd_rnode_simps\<close>)
qed

lemma rnode_read_all:
  assumes "lossless_line h dx" and "serves h rn file (world s)" and "did \<le> cnt" and "cnt < 2 ^ 32" and "length file < 2 ^ 32"
    and "unat (rn_lseek (v_rnode (vnodes s v))) + (cnt - did) \<le> length file"
    and "region dst (cnt - did) \<inter> (region cb 14 \<union> region ab 70) = {}"
  shows "\<exists>s'. rnode_read_loop dx cb ab d rn v dst cnt did s = KOk (cnt, s') \<and>
    serves h rn file (world s') \<and> rn_lseek (v_rnode (vnodes s' v)) = rn_lseek (v_rnode (vnodes s v)) + of_nat (cnt - did) \<and>
    holds (ram s') dst (take (cnt - did) (drop (unat (rn_lseek (v_rnode (vnodes s v)))) file)) \<and>
    (\<forall>x. x \<notin> region dst (cnt - did) \<union> region cb 14 \<union> region ab 70 \<longrightarrow> ram s' x = ram s x)"
  using assms
proof (induction "cnt - did" arbitrary: did dst s rule: less_induct)
  case less
  let ?off = "rn_lseek (v_rnode (vnodes s v))"
  show ?case
  proof (cases "did < cnt")
    case False
    then have "did = cnt" using less.prems(3) by simp
    then have "rnode_read_loop dx cb ab d rn v dst cnt did s = KOk (cnt, s)" by (simp add: rnode_read_loop.simps)
    then show ?thesis using less.prems(2) \<open>did = cnt\<close> by auto
  next
    case True
    define ln where "ln = (if cnt - did > 64 then 64 else cnt - did)"
    have ln: "0 < ln" "ln \<le> cnt - did" using True by (auto simp: ln_def)
    have n: "cnt - did = ln + (cnt - (did + ln))" using ln by simp
    have le: "ln + (cnt - (did + ln)) \<le> 2 ^ 32" using n less.prems(4) by linarith
    have split: "region dst (cnt - did) = region dst ln \<union> region (dst + of_nat ln) (cnt - (did + ln))"
      by (subst n) (rule region_split)
    have off: "unat ?off + ln \<le> length file" using less.prems(6) ln by simp
    obtain s1 where s1: "rnode_read_loop dx cb ab d rn v dst cnt did s = rnode_read_loop dx cb ab d rn v (dst + of_nat ln) cnt (did + ln) s1"
      "serves h rn file (world s1)" "rn_lseek (v_rnode (vnodes s1 v)) = ?off + of_nat ln"
      "holds (ram s1) dst (take ln (drop (unat ?off) file))"
      "\<And>x. x \<notin> region dst ln \<union> region cb 14 \<union> region ab 70 \<Longrightarrow> ram s1 x = ram s x"
      using rnode_read_step [OF less.prems(1,2) True ln_def refl off] less.prems(7) split by (blast 10)
    have o1: "unat (?off + of_nat ln) = unat ?off + ln" using off less.prems(5) by (simp add: unat_word_ariths unat_of_nat)
    obtain s2 where s2: "rnode_read_loop dx cb ab d rn v (dst + of_nat ln) cnt (did + ln) s1 = KOk (cnt, s2)" "serves h rn file (world s2)"
      "rn_lseek (v_rnode (vnodes s2 v)) = (?off + of_nat ln) + of_nat (cnt - (did + ln))"
      "holds (ram s2) (dst + of_nat ln) (take (cnt - (did + ln)) (drop (unat ?off + ln) file))"
      "\<And>x. x \<notin> region (dst + of_nat ln) (cnt - (did + ln)) \<union> region cb 14 \<union> region ab 70 \<Longrightarrow> ram s2 x = ram s1 x"
    proof -
      have "\<exists>s'. rnode_read_loop dx cb ab d rn v (dst + of_nat ln) cnt (did + ln) s1 = KOk (cnt, s') \<and>
        serves h rn file (world s') \<and> rn_lseek (v_rnode (vnodes s' v)) = rn_lseek (v_rnode (vnodes s1 v)) + of_nat (cnt - (did + ln)) \<and>
        holds (ram s') (dst + of_nat ln) (take (cnt - (did + ln)) (drop (unat (rn_lseek (v_rnode (vnodes s1 v)))) file)) \<and>
        (\<forall>x. x \<notin> region (dst + of_nat ln) (cnt - (did + ln)) \<union> region cb 14 \<union> region ab 70 \<longrightarrow> ram s' x = ram s1 x)"
        by (rule less.hyps) (use ln less.prems split s1(2,3) o1 in auto)
      then show ?thesis unfolding s1(3) o1 using that by blast
    qed
    have h1: "holds (ram s2) dst (take ln (drop (unat ?off) file))"
    proof (rule holds_same [OF s1(4)], rule s2(5))
      fix x assume "x \<in> region dst (length (take ln (drop (unat ?off) file)))"
      then have x: "x \<in> region dst ln" using off by simp
      then have "x \<notin> region cb 14 \<union> region ab 70" using less.prems(7) split by auto
      moreover have "x \<notin> region (dst + of_nat ln) (cnt - (did + ln))"
        using x region_tail [OF le, of dst] by auto
      ultimately show "x \<notin> region (dst + of_nat ln) (cnt - (did + ln)) \<union> region cb 14 \<union> region ab 70" by simp
    qed
    have app: "take (cnt - did) (drop (unat ?off) file) =
        take ln (drop (unat ?off) file) @ take (cnt - (did + ln)) (drop (unat ?off + ln) file)"
      by (subst n) (simp add: take_add add.commute)
    have h: "holds (ram s2) dst (take (cnt - did) (drop (unat ?off) file))"
      unfolding app holds_append using h1 s2(4) off by (simp add: min_def)
    have l: "?off + of_nat ln + of_nat (cnt - (did + ln)) = ?off + of_nat (cnt - did)"
      by (subst n) (simp add: add.assoc)
    show ?thesis
      unfolding s1(1) s2(1) using s2(2,3,5) s1(5) h l split by (intro exI [of _ s2]) auto
  qed
qed

lemma rnode_read_served:
  assumes "lossless_line h dx" and "v_vfsp (vnodes s v) = Some m" and "serves h (rn_rnode (v_rnode (vnodes s v))) file (world s)"
    and "length file < 2 ^ 32" and "rn_FileSize (v_rnode (vnodes s v)) = of_nat (length file)"
    and "off = unat (rn_lseek (v_rnode (vnodes s v)))" and "off \<le> length file" and "off + unat cnt < 2 ^ 32"
    and "n = min (unat cnt) (length file - off)" and "region buf n \<inter> (region cb 14 \<union> region ab 70) = {}"
  shows "\<exists>s'. rnode_read dx cb ab v buf cnt p s = KOk (int n, s') \<and> holds (ram s') buf (take n (drop off file)) \<and>
    serves h (rn_rnode (v_rnode (vnodes s v))) file (world s') \<and>
    (\<forall>x. x \<notin> region buf n \<union> region cb 14 \<union> region ab 70 \<longrightarrow> ram s' x = ram s x)"
proof -
  let ?N = "v_rnode (vnodes s v)"
  have fs: "unat (rn_FileSize ?N) = length file" using assms(4,5) by (simp add: of_nat_u32)
  have sum: "unat (rn_lseek ?N + cnt) = off + unat cnt" using assms(6,8) by (simp add: unat_word_ariths)
  have c: "unat (if rn_lseek ?N + cnt > rn_FileSize ?N then rn_FileSize ?N - rn_lseek ?N else cnt) = n"
    using sum fs assms(6,7,9) by (auto simp: word_less_nat_alt word_le_nat_alt unat_sub)
  have n: "n < 2 ^ 32" "off + n \<le> length file" using assms(4,7,9) by auto
  from rnode_read_all [OF assms(1,3), where did = 0 and cnt = n and dst = buf and v = v and d = "rfs_dev (vfs_rfs (vfs_table s m))" and cb = cb and ab = ab] n assms(4,6,10)
  obtain s' where s': "rnode_read_loop dx cb ab (rfs_dev (vfs_rfs (vfs_table s m))) (rn_rnode ?N) v buf n 0 s = KOk (n, s')"
    "holds (ram s') buf (take n (drop off file))" "serves h (rn_rnode ?N) file (world s')"
    "\<forall>x. x \<notin> region buf n \<union> region cb 14 \<union> region ab 70 \<longrightarrow> ram s' x = ram s x" by auto
  have "rnode_read dx cb ab v buf cnt p s = KOk (int n, s')"
    using s'(1) assms(2) by (simp add: rnode_read_def with_rfs_def with_vfs_def Let_def c)
  then show ?thesis using s' by blast
qed

section \<open>Opening\<close>

lemma find_same: "find_by_node rn ds = Some k \<Longrightarrow> find_by_node rn (ds[k := (ds ! k)\<lparr>sd_open := hn\<rparr>]) = Some k \<and> k < length ds"
proof (induction ds arbitrary: k)
  case (Cons d ds)
  then show ?case by (auto split: if_splits)
qed simp

lemma do_open:
  assumes "take 7 cmd = [79] @ rfs_u32le_at rn @ [fl, pb]" and "find_by_node rn (rd_descs w) = Some k" and "fl \<noteq> F_DIRECTORY"
    and "path = sd_pathname (rd_descs w ! k)" and "h_fopen h (rd_host w) path" and "file = h_bytes h (rd_host w) path"
  shows "do_cmd h cmd w = KOk (send_msg ([111, 1] @ rfs_u32le_at (of_nat (length file))) (upd_sdesc k (\<lambda>d. d\<lparr>sd_open := H_file path\<rparr>) w))"
proof -
  have d: "rd_descs w \<noteq> []" using assms(2) by auto
  have c: "cmd ! 0 = 79" "cmd ! 5 = fl" using cmd_nth [OF assms(1), of 0] cmd_nth [OF assms(1), of 5] by (simp_all add: rfs_u32le_at_def)
  have "take 4 (drop 1 (take 7 cmd)) = rfs_u32le_at rn" unfolding assms(1) by (simp add: rfs_u32le_at_def)
  then have u: "cmd_u32le cmd 1 = rn" by (intro wire_u32) (simp add: drop_take min_def)
  show ?thesis using assms(2-6) d c u by (simp add: do_cmd_def cmd_open_def Let_def)
qed

lemma rnode_open_served:
  assumes "lossless_line h dx" and "srv_ready (world s)" and "rd_out (world s) = []" and "v_vfsp (vnodes s v) = Some m"
    and "find_by_node (rn_rnode (v_rnode (vnodes s v))) (rd_descs (world s)) = Some k"
    and "path = sd_pathname (rd_descs (world s) ! k)" and "h_fopen h (rd_host (world s)) path" and "file = h_bytes h (rd_host (world s)) path"
    and "ucast fl \<noteq> F_DIRECTORY"
  shows "\<exists>s'. rnode_open dx cb ab v fl p s = KOk (0, s') \<and> serves h (rn_rnode (v_rnode (vnodes s v))) file (world s') \<and>
    v_vfsp (vnodes s' v) = Some m \<and>
    v_rnode (vnodes s' v) = \<lparr>rn_rnode = rn_rnode (v_rnode (vnodes s v)), rn_lseek = 0, rn_FileSize = of_nat (length file)\<rparr> \<and>
    (\<forall>x. x \<notin> region cb 14 \<union> region ab 70 \<longrightarrow> ram s' x = ram s x)"
proof -
  let ?rn = "rn_rnode (v_rnode (vnodes s v))"
  let ?d = "rfs_dev (vfs_rfs (vfs_table s m))"
  let ?pl = "[79] @ rfs_u32le_at ?rn @ [ucast fl, word_of_int p]"
  let ?msg = "[111, 1] @ rfs_u32le_at (of_nat (length file))"
  have len: "length ?pl = 7" "length ?msg = 6" by (simp_all add: rfs_u32le_at_def)
  obtain cmd w1 where c: "length cmd = 254" "take (length ?pl) cmd = ?pl" "same_srv (world s) w1" "length (framer_buf w1) = 256"
    "rfs_command dx cb ?d ?pl s = kbind (do_cmd h cmd w1) (\<lambda>w2. KOk (s\<lparr>ram := put_bytes (ram s) cb (rfs_frame ?pl), world := w2\<lparr>framer_fsm := F_SOF\<rparr>\<rparr>))"
    using command_done [OF assms(1,2), of ?pl cb ?d] len(1) by auto
  have w1: "rd_descs w1 = rd_descs (world s)" "rd_host w1 = rd_host (world s)" "rd_out w1 = []" using c(3) assms(3) by (simp_all add: same_srv_def)
  have t: "take 7 cmd = ?pl" using c(2) len(1) by simp
  let ?w0 = "upd_sdesc k (\<lambda>d. d\<lparr>sd_open := H_file path\<rparr>) w1"
  have dc: "do_cmd h cmd w1 = KOk (send_msg ?msg ?w0)"
    by (rule do_open [OF t]) (use w1 assms(5-9) in simp_all)
  have o0: "rd_out ?w0 = []" using w1(3) by (simp add: upd_sdesc_def)
  let ?w2 = "?w0\<lparr>rd_out := rfs_frame ?msg, framer_fsm := F_SOF\<rparr>"
  let ?s1 = "s\<lparr>ram := put_bytes (ram s) cb (rfs_frame ?pl), world := ?w2\<rparr>"
  let ?r = "exchanged cb ?pl ab ?msg (ram s)"
  let ?s2 = "s\<lparr>ram := ?r, world := ?w2\<lparr>rd_out := []\<rparr>\<rparr>"
  have 1: "rfs_command dx cb ?d ?pl s = KOk ?s1" using c(5) dc o0 by (simp add: send_msg_frame)
  have "rfs_answer dx ab ?d 10 ?s1 = KOk (True, ?s1\<lparr>ram := put_bytes (ram ?s1) ab (rfs_frame ?msg), world := (world ?s1)\<lparr>rd_out := []\<rparr>\<rparr>)"
    by (rule answer_fixed [OF assms(1)]) (use len(2) in simp_all)
  then have 2: "rfs_answer dx ab ?d 10 ?s1 = KOk (True, ?s2)" by (simp add: exchanged_def)
  have e: "?r (ab + 2 + of_nat i) = ?msg ! i" if "i < 6" for i
    using exchanged_bytes(1) [of ?msg i cb ?pl ab "ram s"] that len(2) by simp
  have b3: "?r (ab + 3) = 1" using e [of 1] by (simp add: add.assoc)
  have "?r (ab + 4 + of_nat i) = rfs_u32le_at (of_nat (length file)) ! i" if "i < 4" for i
    using e [of "2 + i"] that by (simp add: add_ac)
  then have "holds ?r (ab + 4) (rfs_u32le_at (of_nat (length file)))" by (simp add: holds_def rfs_u32le_at_def)
  then have sz: "rfs_read_u32le ?r (ab + 4) = of_nat (length file)" by (rule wire_ram)
  have fl: "fl \<noteq> O_DIRECTORY" using assms(9) by (auto simp: O_DIRECTORY_def F_DIRECTORY_def)
  let ?s3 = "upd_rnode v (\<lambda>n. n\<lparr>rn_lseek := 0, rn_FileSize := of_nat (length file)\<rparr>) ?s2"
  have "rnode_open dx cb ab v fl p s = KOk (0, ?s3)"
    using 1 2 b3 sz fl assms(4) by (simp add: rnode_open_def with_rfs_def with_vfs_def del: append_Cons append_Nil)
  moreover have "serves h ?rn file (world ?s3)"
    using assms(2,5,6,8) w1 c(4) find_same [OF assms(5)] by (auto simp: serves_def srv_ready_def upd_rnode_simps upd_sdesc_def)
  moreover have "?r x = ram s x" if "x \<notin> region cb 14 \<union> region ab 70" for x
    using that len region_sub [of 11 0 14 cb] region_sub [of 10 0 70 ab] by (intro exchanged_outside) auto
  ultimately show ?thesis using assms(4)
    by (intro exI [of _ ?s3]) (simp add: upd_rnode_simps, simp add: upd_rnode_def upd_vnode_def)
qed

section \<open>The properties\<close>

text \<open>C35. The server of the remote file system does each command that reaches it in an intact frame exactly once, whatever bytes
  other than the start of a frame precede it, and then waits for the next frame; of a frame in which one byte of the payload has been changed it does
  nothing and sends nothing.\<close>

theorem server_does_intact_frames:
  assumes "srv_ready s" and "length pl \<le> 252" and "0x55 \<notin> set noise"
  shows "(\<exists>cmd s1. take (length pl) cmd = pl \<and> length cmd = 254 \<and> same_srv s s1 \<and> length (framer_buf s1) = 256 \<and>
        rfsd_run h (map RD_byte (noise @ rfs_frame pl)) s = kbind (do_cmd h cmd s1) (\<lambda>s2. KOk (s2\<lparr>framer_fsm := F_SOF\<rparr>))) \<and>
    (\<forall>i < length pl. \<forall>b. b \<noteq> pl ! i \<longrightarrow>
      (\<exists>s'. rfsd_run h (map RD_byte (noise @ (rfs_frame pl)[2 + i := b])) s = KOk s' \<and> srv_ready s' \<and> same_srv s s'))"
proof (intro conjI allI impI)
  show "\<exists>cmd s1. take (length pl) cmd = pl \<and> length cmd = 254 \<and> same_srv s s1 \<and> length (framer_buf s1) = 256 \<and>
        rfsd_run h (map RD_byte (noise @ rfs_frame pl)) s = kbind (do_cmd h cmd s1) (\<lambda>s2. KOk (s2\<lparr>framer_fsm := F_SOF\<rparr>))"
    using run_intact [OF assms] by blast
next
  fix i b assume i: "i < length pl" and b: "b \<noteq> pl ! i"
  have e: "(rfs_frame pl)[2 + i := b] = [0x55, of_nat (length (pl[i := b]))] @ pl[i := b] @ [sum_list pl, 0xAA]"
    using i by (simp add: rfs_frame_def RFS_PAYLOAD_LEN_def rfs_chksum_def rfs_sum_list list_update_append)
  have "sum_list (pl[i := b]) \<noteq> sum_list pl" using sum_update [OF i, of b] b by simp
  then show "\<exists>s'. rfsd_run h (map RD_byte (noise @ (rfs_frame pl)[2 + i := b])) s = KOk s' \<and> srv_ready s' \<and> same_srv s s'"
    unfolding e by (intro run_damaged) (use assms in simp_all)
qed

definition demo_host :: "unit host" where
  "demo_host = \<lparr>h_stat = (\<lambda>_ _. Some (7, False)), h_opendir = (\<lambda>_ _. None), h_fopen = (\<lambda>_ p. p = [47, 97]), h_bytes = (\<lambda>_ _. [10, 20, 30]),
     h_mkdir = (\<lambda>_ _. (13, ()))\<rparr>"

definition demo_server :: "unit rfsd" where
  "demo_server = (rfsd_start [47] ())\<lparr>rd_descs := [\<lparr>sd_ino = 7, sd_isdir = False, sd_open = H_none, sd_pathname = [47, 97]\<rparr>]\<rparr>"

text \<open>A damaged close command after two bytes of noise.\<close>

theorem server_does_intact_frames_witness:
  "\<exists>s'. rfsd_run demo_host (map RD_byte ([1, 2] @ (rfs_frame [67, 7, 0, 0, 0])[3 := 8])) demo_server = KOk s' \<and> srv_ready s' \<and> same_srv demo_server s'"
proof -
  have "srv_ready demo_server" by (simp add: srv_ready_def demo_server_def rfsd_start_def)
  from server_does_intact_frames [OF this, of "[67, 7, 0, 0, 0]" "[1, 2]" demo_host, THEN conjunct2, rule_format, of 1 8]
  show ?thesis by simp
qed


text \<open>The line itself, as a driver.\<close>

definition demo_line :: "'w host \<Rightarrow> 'w rfsd dexchange" where
  "demo_line h p req = (\<lambda>(k, ds, w). case req of
     DEV_WRITE mi pos a n \<Rightarrow> kbind (rfsd_run h (map (\<lambda>i. RD_byte (ram k (a + of_nat i))) [0..<unat n]) w) (\<lambda>w'. KOk (uint n, k, ds, w'))
   | DEV_READ mi pos a n \<Rightarrow>
       (if unat n \<le> length (rd_out w)
        then KOk (uint n, k\<lparr>ram := put_bytes (ram k) a (take (unat n) (rd_out w))\<rparr>, ds, w\<lparr>rd_out := drop (unat n) (rd_out w)\<rparr>) else KHang)
   | _ \<Rightarrow> KOk (0, k, ds, w))"

lemma demo_line_lossless: "lossless_line h (demo_line h)"
  by (simp add: lossless_line_def demo_line_def)

definition remote_demo :: "unit rfsd vstate" where
  "remote_demo = (undefined :: unit rfsd vstate)\<lparr>world := demo_server, vfs_table := (\<lambda>_. undefined),
     vnodes := (\<lambda>_. zero_vnode\<lparr>v_vfsp := Some 0, v_rnode := \<lparr>rn_rnode = 7, rn_lseek = 0, rn_FileSize = 0\<rparr>\<rparr>)\<rparr>"


text \<open>A second lookup of an open file puts a descriptor with a null pointer in front of the open one; a read of that node
  then takes the null pointer.\<close>

lemma lookup_hides_open_file:
  assumes "find_by_node rn (rd_descs w) = Some k" and "sd_isdir (rd_descs w ! k)" and "cmd_u32le cmd 1 = rn" and "cmd_string cmd 6 = Some nm"
    and "h_stat h (rd_host w) (join_path 256 (sd_pathname (rd_descs w ! k)) nm) = Some (ino, isd)" and "ino < 2 ^ 32"
    and "cmd_u32le rcmd 2 = of_nat ino" and "unat (rcmd ! 1) \<le> RFS_MAX_READ"
  shows "\<exists>w'. cmd_lookup h cmd w = KOk w' \<and> cmd_read h rcmd w' = KFault"
proof -
  let ?d = "\<lparr>sd_ino = ino, sd_isdir = isd, sd_open = H_none, sd_pathname = join_path 256 (sd_pathname (rd_descs w ! k)) nm\<rparr>"
  let ?w = "send_msg ([108] @ rfs_u32le_at (of_nat ino) @ [if isd then RFS_TYPE_DIR else RFS_TYPE_REG]) (w\<lparr>rd_descs := ?d # rd_descs w\<rparr>)"
  have "cmd_lookup h cmd w = KOk ?w" using assms(1-5) by (simp add: cmd_lookup_def Let_def)
  moreover have "find_by_node (of_nat ino) (rd_descs ?w) = Some 0" using assms(6) by (simp add: send_msg_frame of_nat_u32)
  moreover have "sd_open (rd_descs ?w ! 0) = H_none" by (simp add: send_msg_frame)
  ultimately show ?thesis using assms(7,8) by (intro exI [of _ ?w]) (simp add: cmd_read_def Let_def not_less)
qed

end
