(* ===== verification/Mio.thy ===== *)
theory Mio
  imports Dev Vnode
begin

text \<open>
  The driver of the multi-io board, software/system/kernel/mio.c: the serial port with its receive ring, and SD cards
  behind an SPI bus. The board is a parameter: its registers are read and written through an address and a data
  register, and \<open>iodev\<close> says what a read gives and what reads and writes do to the board. A loop that waits for a bit of a
  status register may not end; it is \<open>KHang\<close> then.
\<close>

section \<open>Registers and state\<close>

definition B68K_IO_REG_SPI_SEL :: u8 where "B68K_IO_REG_SPI_SEL = 0"
definition B68K_IO_REG_SPI_CTRL :: u8 where "B68K_IO_REG_SPI_CTRL = 1"
definition B68K_IO_REG_SPI_DATA :: u8 where "B68K_IO_REG_SPI_DATA = 2"
definition B68K_IO_REG_UART_STS :: u8 where "B68K_IO_REG_UART_STS = 4"
definition B68K_IO_REG_UART_DATA :: u8 where "B68K_IO_REG_UART_DATA = 5"
definition B68K_IO_REG_IRQCFG :: u8 where "B68K_IO_REG_IRQCFG = 14"
definition B68K_IO_REG_IRQSTS :: u8 where "B68K_IO_REG_IRQSTS = 15"
definition B68K_IO_SPI_BUSY_MASK :: u8 where "B68K_IO_SPI_BUSY_MASK = 0x80"
definition B68K_IO_SPI_CLRBF_MASK :: u8 where "B68K_IO_SPI_CLRBF_MASK = 0x04"
definition B68K_IO_SPI_CLRBF_TXR :: u8 where "B68K_IO_SPI_CLRBF_TXR = 0x02"
definition B68K_IO_SPI_CLRBF_RXR :: u8 where "B68K_IO_SPI_CLRBF_RXR = 0x01"
definition B68K_IO_SPI_SEL_SDA :: u16 where "B68K_IO_SPI_SEL_SDA = push_bit 3 4"
definition B68K_IO_SPI_SEL_SDB :: u16 where "B68K_IO_SPI_SEL_SDB = push_bit 3 5"
definition B68K_IO_SPI_SEL_NONE :: u16 where "B68K_IO_SPI_SEL_NONE = push_bit 3 7"
definition B68K_IO_IRQ_SERIAL_MASK :: u8 where "B68K_IO_IRQ_SERIAL_MASK = 0x01"

lemmas io_regs = B68K_IO_REG_SPI_SEL_def B68K_IO_REG_SPI_CTRL_def B68K_IO_REG_SPI_DATA_def B68K_IO_REG_UART_STS_def
  B68K_IO_REG_UART_DATA_def B68K_IO_REG_IRQCFG_def B68K_IO_REG_IRQSTS_def

definition SD_CARD_TYPE_NONE :: u16 where "SD_CARD_TYPE_NONE = 0"
definition SD_CARD_TYPE_V1 :: u16 where "SD_CARD_TYPE_V1 = 1"
definition SD_CARD_TYPE_V2 :: u16 where "SD_CARD_TYPE_V2 = 2"
definition SD_CARD_TYPE_V2HC :: u16 where "SD_CARD_TYPE_V2HC = 6"

definition K_MIO_SERIAL_TIMEOUT_MS :: u32 where "K_MIO_SERIAL_TIMEOUT_MS = 500"
definition DRIVE_MASK :: u16 where "DRIVE_MASK = 0x10"
definition DRIVE_AB_MASK :: u16 where "DRIVE_AB_MASK = 0x18"
definition MINOR_SERIAL :: u16 where "MINOR_SERIAL = 0"
definition MINOR_I2C :: u16 where "MINOR_I2C = 1"
definition MINOR_SDA :: u16 where "MINOR_SDA = DRIVE_MASK"
definition MINOR_SDB :: u16 where "MINOR_SDB = DRIVE_MASK OR DRIVE_AB_MASK"
definition SECTOR_SIZE :: nat where "SECTOR_SIZE = 512"
definition SD_R1 :: u8 where "SD_R1 = 1"
definition SD_R7 :: u8 where "SD_R7 = 7"
definition SD_NO_ERROR :: u32 where "SD_NO_ERROR = 0"
definition SD_NO_RESPONSE :: u32 where "SD_NO_RESPONSE = - 1"
definition SD_ILLEGAL_COMMAND :: u32 where "SD_ILLEGAL_COMMAND = - 2"
definition SD_R1_RETRY :: nat where "SD_R1_RETRY = 100"
definition SD_TOKEN_RETRY :: nat where "SD_TOKEN_RETRY = 1000"
definition SD_INIT_RETRY :: nat where "SD_INIT_RETRY = 1000"

record 'd iodev =
  reg_read :: "u8 \<Rightarrow> 'd \<Rightarrow> u8 \<times> 'd"
  reg_write :: "u8 \<Rightarrow> u8 \<Rightarrow> 'd \<Rightarrow> 'd"

datatype drive = DRIVE_A | DRIVE_B

record mio_serial =
  rbin :: "u8 list"
  sr_wptr :: u8
  sr_rptr :: u8

record 'd mio =
  io_ad :: u8
  io_board :: 'd
  card_type :: "drive \<Rightarrow> u16"
  serial :: mio_serial

definition io_sel :: "u8 \<Rightarrow> 'd mio \<Rightarrow> 'd mio" where
  "io_sel a s = s\<lparr>io_ad := a\<rparr>"

definition io_put :: "'d iodev \<Rightarrow> u8 \<Rightarrow> 'd mio \<Rightarrow> 'd mio" where
  "io_put io v s = s\<lparr>io_board := reg_write io (io_ad s) v (io_board s)\<rparr>"

definition io_get :: "'d iodev \<Rightarrow> 'd mio \<Rightarrow> u8 \<times> 'd mio" where
  "io_get io s = (let (v, d) = reg_read io (io_ad s) (io_board s) in (v, s\<lparr>io_board := d\<rparr>))"

text \<open>\<open>while (dt & mask)\<close> and \<open>while (! (dt & mask))\<close>\<close>

partial_function (option) io_wait :: "'d iodev \<Rightarrow> u8 \<Rightarrow> bool \<Rightarrow> 'd mio \<Rightarrow> 'd mio option" where
  "io_wait io mk b s = (let (v, s1) = io_get io s in if (v AND mk \<noteq> 0) = b then io_wait io mk b s1 else Some s1)"

definition io_while :: "'d iodev \<Rightarrow> u8 \<Rightarrow> bool \<Rightarrow> 'd mio \<Rightarrow> 'd mio kres" where
  "io_while io mk b s = (case io_wait io mk b s of None \<Rightarrow> KHang | Some s1 \<Rightarrow> KOk s1)"

section \<open>SPI bus\<close>

definition spi_select :: "'d iodev \<Rightarrow> u16 \<Rightarrow> 'd mio \<Rightarrow> 'd mio" where
  "spi_select io dv s = io_put io (ucast dv) (io_sel B68K_IO_REG_SPI_SEL s)"

definition spi_deselect :: "'d iodev \<Rightarrow> 'd mio \<Rightarrow> 'd mio" where
  "spi_deselect io s = io_put io (ucast B68K_IO_SPI_SEL_NONE) (io_sel B68K_IO_REG_SPI_SEL s)"

definition spi_write_mode :: "'d iodev \<Rightarrow> 'd mio \<Rightarrow> 'd mio" where
  "spi_write_mode io s = io_put io (B68K_IO_SPI_CLRBF_MASK OR B68K_IO_SPI_CLRBF_TXR) (io_sel B68K_IO_REG_SPI_CTRL s)"

definition spi_sync :: "'d iodev \<Rightarrow> 'd mio \<Rightarrow> 'd mio kres" where
  "spi_sync io s = io_while io B68K_IO_SPI_BUSY_MASK True (io_sel B68K_IO_REG_SPI_CTRL s)"

definition spi_send_byte :: "'d iodev \<Rightarrow> u8 \<Rightarrow> 'd mio \<Rightarrow> 'd mio kres" where
  "spi_send_byte io c s =
     kbind (io_while io B68K_IO_SPI_BUSY_MASK True (io_sel B68K_IO_REG_SPI_CTRL s)) (\<lambda>s1.
     KOk (io_put io c (io_sel B68K_IO_REG_SPI_DATA s1)))"

definition spi_read_mode :: "'d iodev \<Rightarrow> 'd mio \<Rightarrow> 'd mio" where
  "spi_read_mode io s =
     io_put io (B68K_IO_SPI_CLRBF_MASK OR B68K_IO_SPI_CLRBF_TXR OR B68K_IO_SPI_CLRBF_RXR) (io_sel B68K_IO_REG_SPI_CTRL s)"

definition spi_read_byte :: "'d iodev \<Rightarrow> 'd mio \<Rightarrow> (u8 \<times> 'd mio) kres" where
  "spi_read_byte io s =
     kbind (io_while io B68K_IO_SPI_BUSY_MASK True (io_sel B68K_IO_REG_SPI_CTRL (io_put io 0xff (io_sel B68K_IO_REG_SPI_DATA s)))) (\<lambda>s1.
     KOk (io_get io (io_sel B68K_IO_REG_SPI_DATA s1)))"

fun spi_send_bytes :: "'d iodev \<Rightarrow> u8 list \<Rightarrow> 'd mio \<Rightarrow> 'd mio kres" where
  "spi_send_bytes io [] s = KOk s"
| "spi_send_bytes io (c # cs) s = kbind (spi_send_byte io c s) (spi_send_bytes io cs)"

section \<open>SD cards\<close>

fun r1_loop :: "'d iodev \<Rightarrow> nat \<Rightarrow> 'd mio \<Rightarrow> (u32 \<times> 'd mio) kres" where
  "r1_loop io 0 s = KOk (0xff, s)"
| "r1_loop io (Suc retry) s =
     kbind (spi_read_byte io s) (\<lambda>(resp, s1). if resp AND 0x80 = 0 then KOk (ucast resp, s1) else r1_loop io retry s1)"

definition spi_sd_resp_r1 :: "'d iodev \<Rightarrow> 'd mio \<Rightarrow> (u32 \<times> 'd mio) kres" where
  "spi_sd_resp_r1 io s = kbind (spi_sync io s) (\<lambda>s1. r1_loop io SD_R1_RETRY (spi_read_mode io s1))"

fun resp_extend_loop :: "'d iodev \<Rightarrow> nat \<Rightarrow> u32 \<Rightarrow> 'd mio \<Rightarrow> (u32 \<times> 'd mio) kres" where
  "resp_extend_loop io 0 resp s = KOk (resp, s)"
| "resp_extend_loop io (Suc n) resp s =
     kbind (spi_read_byte io s) (\<lambda>(b, s1). resp_extend_loop io n (push_bit 8 resp OR ucast b) s1)"

definition spi_sd_resp_extend :: "'d iodev \<Rightarrow> 'd mio \<Rightarrow> (u32 \<times> 'd mio) kres" where
  "spi_sd_resp_extend io s = resp_extend_loop io 4 0 s"

fun crc7 :: "u32 \<Rightarrow> u32 \<Rightarrow> nat \<Rightarrow> u32" where
  "crc7 crc bits 0 = crc"
| "crc7 crc bits (Suc n) =
     (let b0 = (drop_bit 6 crc XOR drop_bit n bits) AND 1;
          crc' = b0 OR push_bit 3 ((drop_bit 2 crc XOR b0) AND 1) OR (push_bit 1 crc AND 0b1110110)
      in crc7 crc' bits n)"

definition cmd_crc :: "u8 \<Rightarrow> u32 \<Rightarrow> u32" where
  "cmd_crc cmd arg = crc7 (crc7 0 (0x40 + ucast cmd) 8) arg 32 * 2 + 1"

definition sd_frame :: "u8 \<Rightarrow> u32 \<Rightarrow> u8 list" where
  "sd_frame cmd arg = [0xff, 0x40 + cmd, ucast (drop_bit 24 arg), ucast (drop_bit 16 arg), ucast (drop_bit 8 arg), ucast arg, ucast (cmd_crc cmd arg)]"

text \<open>A command; the results are the status, \<open>*resp_head\<close> and \<open>*resp_ext\<close>, which keeps its value \<open>ext\<close> where no more than R1 is read.\<close>

definition spi_sd_command :: "'d iodev \<Rightarrow> u16 \<Rightarrow> u8 \<Rightarrow> u32 \<Rightarrow> u8 \<Rightarrow> u32 \<Rightarrow> 'd mio \<Rightarrow> ((u32 \<times> u8 \<times> u32) \<times> 'd mio) kres" where
  "spi_sd_command io dv cmd arg rtype ext s =
     kbind (spi_send_bytes io (sd_frame cmd arg) (spi_write_mode io (spi_select io dv s))) (\<lambda>s1.
     kbind (spi_sd_resp_r1 io s1) (\<lambda>(r, s2).
     let hd8 = ucast r :: u8 in
     if hd8 = 0xff then KOk ((SD_NO_RESPONSE, hd8, ext), spi_deselect io s2)
     else if hd8 AND 0x4 \<noteq> 0 then KOk ((SD_ILLEGAL_COMMAND, hd8, ext), spi_deselect io s2)
     else if rtype = SD_R1 then KOk ((SD_NO_ERROR, hd8, ext), spi_deselect io s2)
     else kbind (spi_sd_resp_extend io s2) (\<lambda>(e, s3). KOk ((SD_NO_ERROR, hd8, e), spi_deselect io s3))))"

text \<open>The loop that waits for the start of the data; the result is what is left of \<open>retry\<close>.\<close>

fun token_loop :: "'d iodev \<Rightarrow> nat \<Rightarrow> 'd mio \<Rightarrow> (nat \<times> 'd mio) kres" where
  "token_loop io 0 s = KOk (0, s)"
| "token_loop io (Suc retry) s =
     kbind (spi_read_byte io s) (\<lambda>(resp, s1). if resp AND 0x01 = 0 then KOk (Suc retry, s1) else token_loop io retry s1)"

fun data_loop :: "'d iodev \<Rightarrow> nat \<Rightarrow> u32 \<Rightarrow> 'd mio \<Rightarrow> ram \<Rightarrow> ('d mio \<times> ram) kres" where
  "data_loop io 0 dst s r = KOk (s, r)"
| "data_loop io (Suc n) dst s r = kbind (spi_read_byte io s) (\<lambda>(b, s1). data_loop io n (dst + 1) s1 (r(dst := b)))"

definition drive_sel :: "drive \<Rightarrow> u16" where
  "drive_sel dr = (if dr = DRIVE_A then B68K_IO_SPI_SEL_SDA else B68K_IO_SPI_SEL_SDB)"

definition spi_sd_read_sector :: "'d iodev \<Rightarrow> drive \<Rightarrow> u32 \<Rightarrow> u32 \<Rightarrow> 'd mio \<Rightarrow> ram \<Rightarrow> (u16 \<times> 'd mio \<times> ram) kres" where
  "spi_sd_read_sector io dr sector dst s r =
     (let arg = (if card_type s dr AND SD_CARD_TYPE_V2HC \<noteq> 0 then sector else sector * of_nat SECTOR_SIZE) in
      if card_type s dr = SD_CARD_TYPE_NONE then KOk (- 1, s, r)
      else
        kbind (spi_send_bytes io (sd_frame 17 arg) (spi_write_mode io (spi_select io (drive_sel dr) s))) (\<lambda>s1.
        kbind (spi_sd_resp_r1 io s1) (\<lambda>(resp, s2).
        if resp AND 0x7C \<noteq> 0 then KOk (- 2, spi_deselect io s2, r)
        else
          kbind (token_loop io SD_TOKEN_RETRY s2) (\<lambda>(retry, s3).
          if retry = 0 then KOk (- 1, spi_deselect io s3, r)
          else kbind (data_loop io SECTOR_SIZE dst s3 r) (\<lambda>(s4, r1). KOk (0, spi_deselect io s4, r1))))))"

text \<open>74 and more clock cycles without a card selected.\<close>

fun dummy_clocks :: "'d iodev \<Rightarrow> nat \<Rightarrow> 'd mio \<Rightarrow> 'd mio kres" where
  "dummy_clocks io 0 s = KOk s"
| "dummy_clocks io (Suc n) s =
     kbind (io_while io B68K_IO_SPI_BUSY_MASK True (io_sel B68K_IO_REG_SPI_CTRL (io_put io 0xff (io_sel B68K_IO_REG_SPI_DATA s)))) (dummy_clocks io n)"

definition set_card :: "drive \<Rightarrow> u16 \<Rightarrow> 'd mio \<Rightarrow> 'd mio" where
  "set_card dr t s = s\<lparr>card_type := (card_type s)(dr := t)\<rparr>"

text \<open>Polling ACMD41: the result is whether the card has left the idle state.\<close>

fun init_loop :: "'d iodev \<Rightarrow> drive \<Rightarrow> nat \<Rightarrow> u32 \<Rightarrow> 'd mio \<Rightarrow> (bool \<times> 'd mio) kres" where
  "init_loop io dr 0 ext s = KOk (False, s)"
| "init_loop io dr (Suc n) ext s =
     kbind (spi_sd_command io (drive_sel dr) 55 0 SD_R1 ext s) (\<lambda>((st, resp, ext1), s1).
     if resp AND 0x7C \<noteq> 0 then KOk (False, s1)
     else
       let arg = (if Suc n = SD_INIT_RETRY \<and> card_type s1 dr = SD_CARD_TYPE_V2 then 0x40000000 else 0) in
       kbind (spi_sd_command io (drive_sel dr) 41 arg SD_R1 ext1 s1) (\<lambda>((st2, resp2, ext2), s2).
       if resp2 AND 0x7C \<noteq> 0 then KOk (False, s2)
       else if resp2 AND 0x01 = 0 then KOk (True, s2)
       else init_loop io dr n ext2 s2))"

definition spi_dev_probe :: "'d iodev \<Rightarrow> drive \<Rightarrow> 'd mio \<Rightarrow> (bool \<times> 'd mio) kres" where
  "spi_dev_probe io dr s =
     (let s1 = spi_deselect io (set_card dr SD_CARD_TYPE_NONE s);
          s2 = io_put io 0xff (io_sel B68K_IO_REG_SPI_DATA (spi_write_mode io s1))
      in
      kbind (dummy_clocks io 9 s2) (\<lambda>s3.
      kbind (spi_sd_command io (drive_sel dr) 0 0 SD_R1 0 (spi_deselect io (spi_deselect io s3))) (\<lambda>((st, resp, ext), s4).
      if (ucast st :: u16) \<noteq> 0 then KOk (False, s4)
      else
        kbind (spi_sd_command io (drive_sel dr) 8 0x000001AA SD_R7 ext s4) (\<lambda>((st1, resp1, ext1), s5).
        let s6 = set_card dr (if (ucast st1 :: u16) \<noteq> 0 \<or> resp1 AND 0x7C \<noteq> 0 then SD_CARD_TYPE_V1 else SD_CARD_TYPE_V2) s5 in
        kbind (spi_sd_command io (drive_sel dr) 58 0 SD_R7 ext1 s6) (\<lambda>((st2, resp2, ext2), s7).
        init_loop io dr SD_INIT_RETRY ext2 s7)))))"

section \<open>Serial port\<close>

text \<open>
  The interrupt: the loop ends when the board has no more characters. (The test for a full ring compares an \<open>int\<close>,
  \<open>wptr + 1\<close>, with the 8-bit \<open>rptr\<close>.)
\<close>

definition serial_room :: "mio_serial \<Rightarrow> bool" where
  "serial_room p \<longleftrightarrow> unat (sr_wptr p) + 1 \<noteq> unat (sr_rptr p)"

definition serial_store :: "u8 \<Rightarrow> mio_serial \<Rightarrow> mio_serial" where
  "serial_store c p = p\<lparr>rbin := (rbin p)[unat (sr_wptr p) := c], sr_wptr := sr_wptr p + 1\<rparr>"

partial_function (option) interrupt_loop :: "'d iodev \<Rightarrow> 'd mio \<Rightarrow> 'd mio option" where
  "interrupt_loop io s =
     (let s1 = io_sel B68K_IO_REG_UART_DATA s;
          s2 = (if serial_room (serial s1) then (let (c, s') = io_get io s1 in s'\<lparr>serial := serial_store c (serial s')\<rparr>) else s1);
          (v, s3) = io_get io (io_sel B68K_IO_REG_IRQSTS s2)
      in if v AND B68K_IO_IRQ_SERIAL_MASK = 0 then Some s3 else interrupt_loop io s3)"

definition mio_interrupt :: "'d iodev \<Rightarrow> 'd mio \<Rightarrow> 'd mio kres" where
  "mio_interrupt io s = (case interrupt_loop io s of None \<Rightarrow> KHang | Some s1 \<Rightarrow> KOk (s1\<lparr>io_ad := io_ad s\<rparr>))"

fun serial_drain :: "nat \<Rightarrow> u32 \<Rightarrow> mio_serial \<Rightarrow> ram \<Rightarrow> nat \<times> mio_serial \<times> ram" where
  "serial_drain 0 dst p r = (0, p, r)"
| "serial_drain (Suc n) dst p r =
     (if sr_rptr p \<noteq> sr_wptr p then
        (let (got, p1, r1) = serial_drain n (dst + 1) (p\<lparr>sr_rptr := sr_rptr p + 1\<rparr>) (r(dst := rbin p ! unat (sr_rptr p)))
         in (Suc got, p1, r1))
      else (0, p, r))"

text \<open>
  The loop of a read from the serial port. \<open>now k\<close> is the \<open>k\<close>-th value of \<open>clock_now\<close>, and \<open>pause k\<close> what the rest of the system does,
  interrupts included, during the \<open>k\<close>-th \<open>proc_yield\<close>.
\<close>

partial_function (option) serial_read_loop ::
    "(nat \<Rightarrow> u32) \<Rightarrow> (nat \<Rightarrow> 'd mio \<times> 'a kstate_scheme \<Rightarrow> 'd mio \<times> 'a kstate_scheme) \<Rightarrow> nat \<Rightarrow> u32 \<Rightarrow> nat \<Rightarrow> nat \<Rightarrow>
     'd mio \<times> 'a kstate_scheme \<Rightarrow> (nat \<times> 'd mio \<times> 'a kstate_scheme) option" where
  "serial_read_loop now pause k dst count did x =
     (if count = 0 then Some (did, x)
      else
        let (got, p, r) = serial_drain count dst (serial (fst x)) (ram (snd x));
            x1 = ((fst x)\<lparr>serial := p\<rparr>, (snd x)\<lparr>ram := r\<rparr>)
        in if now (Suc k) - now 0 > K_MIO_SERIAL_TIMEOUT_MS then Some (did + got, x1)
           else serial_read_loop now pause (Suc k) (dst + of_nat got) (count - got) (did + got) (pause k x1))"

definition serial_putchar :: "'d iodev \<Rightarrow> u8 \<Rightarrow> 'd mio \<Rightarrow> 'd mio kres" where
  "serial_putchar io c s =
     kbind (io_while io 0x80 False (io_sel B68K_IO_REG_UART_STS s)) (\<lambda>s1. KOk (io_put io c (io_sel B68K_IO_REG_UART_DATA s1)))"

fun serial_write_loop :: "'d iodev \<Rightarrow> nat \<Rightarrow> u32 \<Rightarrow> ram \<Rightarrow> 'd mio \<Rightarrow> 'd mio kres" where
  "serial_write_loop io 0 src r s = KOk s"
| "serial_write_loop io (Suc n) src r s = kbind (serial_putchar io (r src) s) (serial_write_loop io n (src + 1) r)"

section \<open>The task\<close>

type_synonym ('d, 'a) mio_env = "(nat \<Rightarrow> u32) \<times> (nat \<Rightarrow> 'd mio \<times> 'a kstate_scheme \<Rightarrow> 'd mio \<times> 'a kstate_scheme)"

definition mio_open :: "u16 \<Rightarrow> u32" where
  "mio_open mi = 0"

definition mio_read ::
    "'d iodev \<Rightarrow> ('d, 'a) mio_env \<Rightarrow> u16 \<Rightarrow> u32 \<Rightarrow> u32 \<Rightarrow> u32 \<Rightarrow> 'd mio \<times> 'a kstate_scheme \<Rightarrow> (u32 \<times> 'd mio \<times> 'a kstate_scheme) kres" where
  "mio_read io env mi seek dst count x =
     (if mi = MINOR_SERIAL then
        (case serial_read_loop (fst env) (snd env) 0 dst (unat count) 0 x of
           None \<Rightarrow> KHang | Some (did, x1) \<Rightarrow> KOk (of_nat did, x1))
      else if mi = MINOR_I2C then KOk (- 1, x)
      else if mi AND DRIVE_MASK \<noteq> 0 then
        let dr = (if mi AND DRIVE_AB_MASK \<noteq> 0 then DRIVE_B else DRIVE_A) in
        if count \<noteq> of_nat SECTOR_SIZE then KOk (- 1, x)
        else kbind (spi_sd_read_sector io dr (seek div of_nat SECTOR_SIZE) dst (fst x) (ram (snd x))) (\<lambda>(st, s1, r1).
          KOk (if st = 0 then of_nat SECTOR_SIZE else - 1, s1, (snd x)\<lparr>ram := r1\<rparr>))
      else KOk (- 1, x))"

text \<open>The counter of the write loop is an \<open>int\<close>; from 2 ^ 31 on it would run below its smallest value.\<close>

definition mio_write :: "'d iodev \<Rightarrow> u16 \<Rightarrow> u32 \<Rightarrow> u32 \<Rightarrow> 'd mio \<times> 'a kstate_scheme \<Rightarrow> (u32 \<times> 'd mio \<times> 'a kstate_scheme) kres" where
  "mio_write io mi src count x =
     (if mi = MINOR_SERIAL then
        if unat count \<ge> 2 ^ 31 then KFault
        else kbind (serial_write_loop io (unat count) src (ram (snd x)) (fst x)) (\<lambda>s1. KOk (count, s1, snd x))
      else KOk (- 1, x))"

text \<open>The answer to a message of the kernel; other commands have none.\<close>

definition mio_request ::
    "'d iodev \<Rightarrow> ('d, 'a) mio_env \<Rightarrow> dev_request \<Rightarrow> 'd mio \<times> 'a kstate_scheme \<Rightarrow> (u32 option \<times> 'd mio \<times> 'a kstate_scheme) kres" where
  "mio_request io env req x =
     (case req of
        DEV_READ mi seek dst count \<Rightarrow> kbind (mio_read io env mi seek dst count x) (\<lambda>(v, x1). KOk (Some v, x1))
      | DEV_WRITE mi seek src count \<Rightarrow> kbind (mio_write io mi src count x) (\<lambda>(v, x1). KOk (Some v, x1))
      | DEV_OPEN mi fl \<Rightarrow> KOk (Some (mio_open mi), x)
      | DEV_CLOSE mi \<Rightarrow> KOk (Some 0, x)
      | _ \<Rightarrow> KOk (None, x))"

text \<open>One turn of the loop on the message received from \<open>src\<close> (\<open>None\<close>: a type it does not know).\<close>

definition mio_turn ::
    "'d iodev \<Rightarrow> ('d, 'a) mio_env \<Rightarrow> pid \<Rightarrow> dev_request option \<Rightarrow> 'd mio \<times> 'a kstate_scheme \<Rightarrow>
     ((pid \<times> u32) option \<times> 'd mio \<times> 'a kstate_scheme) kres" where
  "mio_turn io env src req x =
     kbind (proc_get_uid src (snd x)) (\<lambda>u.
     if u = PROC_UID_KERNEL then
       (case req of None \<Rightarrow> KOk (None, x)
        | Some q \<Rightarrow> kbind (mio_request io env q x) (\<lambda>(v, x1). KOk (map_option (Pair src) v, x1)))
     else KOk (None, x))"

text \<open>\<open>_disk_probe\<close> with its array at \<open>mb\<close>, and the start of \<open>mio_task\<close>.\<close>

definition disk_probe ::
    "'d iodev \<Rightarrow> ('d, 'a) mio_env \<Rightarrow> u32 \<Rightarrow> u16 \<Rightarrow> drive \<Rightarrow> u8 list \<Rightarrow> u16 \<Rightarrow> devtab \<times> 'd mio \<times> 'a kstate_scheme \<Rightarrow> (devtab \<times> 'd mio \<times> 'a kstate_scheme) kres" where
  "disk_probe io env mb self dr name mi z = (case z of (ds, s, k) \<Rightarrow>
     kbind (spi_dev_probe io dr s) (\<lambda>(ok, s1).
     if \<not> ok then KOk (ds, s1, k)
     else kbind (mio_read io env mi 0 mb 512 (s1, k)) (\<lambda>(v, s2, k2).
       if v \<noteq> 512 then KOk (ds, s2, k2)
       else kbind (dev_register_disk name self mi (map (\<lambda>i. ram k2 (mb + of_nat i)) [0..<512]) ds) (\<lambda>(_, ds1). KOk (ds1, s2, k2)))))"

definition mio_task_init ::
    "'d iodev \<Rightarrow> ('d, 'a) mio_env \<Rightarrow> u32 \<Rightarrow> u16 \<Rightarrow> devtab \<times> 'd mio \<times> 'a kstate_scheme \<Rightarrow> (devtab \<times> 'd mio \<times> 'a kstate_scheme) kres" where
  "mio_task_init io env mb self z =
     kbind (disk_probe io env mb self DRIVE_A [115, 100, 97, 0] MINOR_SDA z) (\<lambda>z1.
     kbind (disk_probe io env mb self DRIVE_B [115, 100, 98, 0] MINOR_SDB z1) (\<lambda>(ds, s, k).
     kbind (dev_register_char [115, 101, 114, 105, 97, 108, 0] self MINOR_SERIAL ds) (\<lambda>(_, ds1).
     kbind (dev_register_char [105, 50, 99, 0] self MINOR_I2C ds1) (\<lambda>(_, ds2).
     KOk (ds2, io_put io B68K_IO_IRQ_SERIAL_MASK (io_sel B68K_IO_REG_IRQCFG (s\<lparr>serial := (serial s)\<lparr>sr_wptr := 0, sr_rptr := 0\<rparr>\<rparr>)), k)))))"

end
