(* ===== verification/MioProps.thy ===== *)
theory MioProps
  imports Mio
begin

text \<open>
  The driver of the multi-io board: the checksum of SD commands is the remainder of a polynomial division, a sector read
  brings the data of the card to memory, and reads from the serial port return what the interrupt has stored, in order.
\<close>

section \<open>The checksum\<close>

text \<open>
  The reference: division of polynomials over two elements by \<open>x^7 + x^3 + 1\<close>, with lists of coefficients, highest first.
  One step removes the leading coefficient.
\<close>

definition xor_onto :: "bool list \<Rightarrow> bool list \<Rightarrow> bool list" where
  "xor_onto p bs = map2 (\<noteq>) p (take (length p) bs) @ drop (length p) bs"

lemma length_xor_onto [simp, termination_simp]: "length p \<le> length bs \<Longrightarrow> length (xor_onto p bs) = length bs"
  by (simp add: xor_onto_def)

fun gf2_rem :: "bool list \<Rightarrow> bool list" where
  "gf2_rem [] = []"
| "gf2_rem (b # bs) =
     (if length bs < 7 then b # bs
      else gf2_rem (if b then xor_onto [False, False, False, True, False, False, True] bs else bs))"

text \<open>The \<open>n\<close> lowest bits of a word and the bits of a byte, highest first.\<close>

definition bits_of :: "nat \<Rightarrow> u32 \<Rightarrow> bool list" where
  "bits_of n w = map (bit w) (rev [0..<n])"

definition byte_bits :: "u8 \<Rightarrow> bool list" where
  "byte_bits b = map (bit b) [7, 6, 5, 4, 3, 2, 1, 0]"

lemma bits_of_Suc: "bits_of (Suc n) w = bit w n # bits_of n w"
  by (simp add: bits_of_def)

lemma bits_of_0 [simp]: "bits_of 0 w = []"
  by (simp add: bits_of_def)

lemma bits_of_7: "bits_of 7 w = [bit w 6, bit w 5, bit w 4, bit w 3, bit w 2, bit w 1, bit w 0]"
proof -
  have "[0..<7] = [0, 1, 2, 3, 4, 5, 6::nat]" by code_simp
  then show ?thesis by (simp add: bits_of_def)
qed

text \<open>One step of the shift register on the lists.\<close>

fun crc_step :: "bool list \<Rightarrow> bool \<Rightarrow> bool list" where
  "crc_step [c6, c5, c4, c3, c2, c1, c0] m = (let b = (c6 \<noteq> m) in [c5, c4, c3, (c2 \<noteq> b), c1, c0, b])"
| "crc_step cs m = cs"

lemma mask_bits:
  "bit (118 :: u32) 6" "bit (118 :: u32) 5" "bit (118 :: u32) 4" "\<not> bit (118 :: u32) 3" "bit (118 :: u32) 2" "bit (118 :: u32) (Suc 0)"
  "\<not> bit (118 :: u32) 0"
  by code_simp+

lemma bit_8: "bit (8 :: u32) k \<longleftrightarrow> k = 3"
  using bit_exp_iff [of 3 k] by auto

lemma bit_double: "bit (w * 2 :: u32) n \<longleftrightarrow> n \<noteq> 0 \<and> n < 32 \<and> bit w (n - 1)"
proof -
  have e: "w * 2 = push_bit 1 w" by (simp only: push_bit_eq_mult) simp
  show ?thesis unfolding e bit_push_bit_iff by (auto simp: Suc_le_eq dest: bit_imp_le_length)
qed

lemma crc7_step:
  "bits_of 7 (let b0 = (drop_bit 6 crc XOR drop_bit n bits) AND 1
     in b0 OR push_bit 3 ((drop_bit 2 crc XOR b0) AND 1) OR (push_bit 1 crc AND 0b1110110)) = crc_step (bits_of 7 crc) (bit bits n)"
  for crc :: u32
  by (auto simp: bits_of_7 Let_def bit_simps mask_bits bit_8 bit_double simp del: bit_numeral_word_iff)

lemma crc7_fold: "bits_of 7 (crc7 crc bits n) = foldl crc_step (bits_of 7 crc) (bits_of n bits)"
proof (induction n arbitrary: crc)
  case (Suc n)
  show ?case unfolding crc7.simps Let_def Suc.IH bits_of_Suc foldl_Cons using crc7_step [of crc n bits] by (simp only: Let_def)
qed simp

lemma list7: "length c = 7 \<Longrightarrow> \<exists>c6 c5 c4 c3 c2 c1 c0. c = [c6, c5, c4, c3, c2, c1, c0]"
  by (auto simp: numeral_eq_Suc length_Suc_conv)

lemma list7_append: "7 \<le> length xs \<Longrightarrow> \<exists>x0 x1 x2 x3 x4 x5 x6 ys. xs = x0 # x1 # x2 # x3 # x4 # x5 # x6 # ys"
  by (auto simp: numeral_eq_Suc Suc_le_length_iff)

lemma rem_fold: "length c = 7 \<Longrightarrow> gf2_rem (xor_onto c (ms @ replicate 7 False)) = foldl crc_step c ms"
proof (induction ms arbitrary: c)
  case Nil
  from list7 [OF Nil] obtain c6 c5 c4 c3 c2 c1 c0 where "c = [c6, c5, c4, c3, c2, c1, c0]" by blast
  moreover have "replicate 7 False = [False, False, False, False, False, False, False]" by code_simp
  ultimately show ?case by (simp add: xor_onto_def)
next
  case (Cons m ms)
  from list7 [OF Cons.prems] obtain c6 c5 c4 c3 c2 c1 c0 where c: "c = [c6, c5, c4, c3, c2, c1, c0]" by blast
  obtain x0 x1 x2 x3 x4 x5 x6 ys where x: "ms @ replicate 7 False = x0 # x1 # x2 # x3 # x4 # x5 # x6 # ys"
    using list7_append [of "ms @ replicate 7 False"] by auto
  have "length (crc_step c m) = 7" by (simp add: c Let_def)
  from Cons.IH [OF this] have "gf2_rem (xor_onto (crc_step c m) (ms @ replicate 7 False)) = foldl crc_step c (m # ms)" by simp
  moreover have "gf2_rem (xor_onto c (m # ms @ replicate 7 False)) = gf2_rem (xor_onto (crc_step c m) (ms @ replicate 7 False))"
  proof -
    let ?xs = "ms @ replicate 7 False" and ?p = "[False, False, False, True, False, False, True]"
    let ?zs = "xor_onto [c5, c4, c3, c2, c1, c0, False] ?xs"
    have 1: "xor_onto c (m # ?xs) = (c6 \<noteq> m) # ?zs" unfolding x c by (simp add: xor_onto_def)
    have 2: "gf2_rem ((c6 \<noteq> m) # ?zs) = gf2_rem (if c6 \<noteq> m then xor_onto ?p ?zs else ?zs)"
    proof -
      have "\<not> length ?zs < 7" by simp
      then show ?thesis by (simp only: gf2_rem.simps(2) if_False)
    qed
    have 3: "(if c6 \<noteq> m then xor_onto ?p ?zs else ?zs) = xor_onto (crc_step c m) ?xs"
      unfolding x c by (simp add: xor_onto_def Let_def)
    show ?thesis unfolding 1 2 3 ..
  qed
  ultimately show ?case by simp
qed

lemma xor_onto_False: "n \<le> length bs \<Longrightarrow> xor_onto (replicate n False) bs = bs"
proof (induction n arbitrary: bs)
  case (Suc n)
  then show ?case by (cases bs) (auto simp: xor_onto_def)
qed (simp add: xor_onto_def)

lemma crc7_remainder: "bits_of 7 (crc7 (crc7 0 a m) b n) = gf2_rem (bits_of m a @ bits_of n b @ replicate 7 False)"
proof -
  have z: "bits_of 7 0 = replicate 7 False" by (simp add: bits_of_7) code_simp
  have "bits_of 7 (crc7 (crc7 0 a m) b n) = foldl crc_step (replicate 7 False) (bits_of m a @ bits_of n b)"
    by (simp add: crc7_fold z)
  also have "\<dots> = gf2_rem (xor_onto (replicate 7 False) ((bits_of m a @ bits_of n b) @ replicate 7 False))"
    by (rule rem_fold [symmetric]) simp
  finally show ?thesis by (simp add: xor_onto_False)
qed

lemma bits_of_32: "bits_of 32 w = byte_bits (ucast (drop_bit 24 w)) @ byte_bits (ucast (drop_bit 16 w)) @ byte_bits (ucast (drop_bit 8 w)) @ byte_bits (ucast w)"
proof -
  have "rev [0..<32] = [31, 30, 29, 28, 27, 26, 25, 24, 23, 22, 21, 20, 19, 18, 17, 16, 15, 14, 13, 12, 11, 10, 9, 8, 7, 6, 5, 4, 3, 2, 1, 0::nat]" by code_simp
  then show ?thesis by (simp add: bits_of_def byte_bits_def bit_simps)
qed

lemma bits_of_8: "bits_of 8 (0x40 + ucast b) = byte_bits (0x40 + b)"
proof -
  have r: "rev [0..<8] = [7, 6, 5, 4, 3, 2, 1, 0::nat]" by code_simp
  have u: "ucast (0x40 + ucast b :: u32) = 0x40 + b" by transfer (simp add: take_bit_eq_mod mod_simps)
  have "bit (ucast (0x40 + ucast b :: u32) :: u8) k = bit (0x40 + ucast b :: u32) k" if "k < 8" for k
    using that by (simp only: bit_unsigned_iff) simp
  then show ?thesis unfolding u by (simp add: bits_of_def byte_bits_def r)
qed

section \<open>Sectors\<close>

text \<open>
  What the driver needs of the SPI half of the board. \<open>sel\<close> is what the select register holds, \<open>hist\<close> the bytes sent since it was written,
  \<open>dat\<close> the byte received last, \<open>busy\<close> how often the status will still read as busy. While a byte is sent, the card that is selected
  answers with a byte, a function \<open>reply\<close> of what has been sent to it before.
\<close>

record 'd spi_view =
  v_sel :: "'d \<Rightarrow> u8"
  v_hist :: "'d \<Rightarrow> u8 list"
  v_dat :: "'d \<Rightarrow> u8"
  v_busy :: "'d \<Rightarrow> nat"

definition same_view :: "'d spi_view \<Rightarrow> 'd \<Rightarrow> 'd \<Rightarrow> bool" where
  "same_view v d d' \<longleftrightarrow> v_sel v d' = v_sel v d \<and> v_hist v d' = v_hist v d \<and> v_dat v d' = v_dat v d"

definition spi_board :: "'d iodev \<Rightarrow> 'd spi_view \<Rightarrow> (u8 \<Rightarrow> u8 list \<Rightarrow> u8) \<Rightarrow> bool" where
  "spi_board io v reply \<longleftrightarrow>
     (\<forall>d b. v_sel v (reg_write io B68K_IO_REG_SPI_SEL b d) = b \<and> v_hist v (reg_write io B68K_IO_REG_SPI_SEL b d) = []) \<and>
     (\<forall>d b. same_view v d (reg_write io B68K_IO_REG_SPI_CTRL b d)) \<and>
     (\<forall>d b. let d' = reg_write io B68K_IO_REG_SPI_DATA b d in
        v_sel v d' = v_sel v d \<and> v_hist v d' = v_hist v d @ [b] \<and> v_dat v d' = reply (v_sel v d) (v_hist v d)) \<and>
     (\<forall>d. same_view v d (snd (reg_read io B68K_IO_REG_SPI_CTRL d)) \<and>
        (if v_busy v d = 0 then fst (reg_read io B68K_IO_REG_SPI_CTRL d) AND 0x80 = 0
         else fst (reg_read io B68K_IO_REG_SPI_CTRL d) AND 0x80 \<noteq> 0 \<and> v_busy v (snd (reg_read io B68K_IO_REG_SPI_CTRL d)) < v_busy v d)) \<and>
     (\<forall>d. same_view v d (snd (reg_read io B68K_IO_REG_SPI_DATA d)) \<and> fst (reg_read io B68K_IO_REG_SPI_DATA d) = v_dat v d)"

text \<open>The driver's state but for the board.\<close>

definition same_drv :: "'d mio \<Rightarrow> 'd mio \<Rightarrow> bool" where
  "same_drv s s' \<longleftrightarrow> card_type s' = card_type s \<and> serial s' = serial s"

definition drv_view :: "'d spi_view \<Rightarrow> 'd mio \<Rightarrow> 'd mio \<Rightarrow> bool" where
  "drv_view v s s' \<longleftrightarrow> same_drv s s' \<and> same_view v (io_board s) (io_board s')"

lemma wait_ready:
  assumes "spi_board io v reply" and "io_ad s = B68K_IO_REG_SPI_CTRL"
  shows "\<exists>s'. io_wait io 0x80 True s = Some s' \<and> drv_view v s s'"
  using assms(2)
proof (induction "v_busy v (io_board s)" arbitrary: s rule: less_induct)
  case less
  obtain c d where r: "reg_read io B68K_IO_REG_SPI_CTRL (io_board s) = (c, d)" by (cases "reg_read io B68K_IO_REG_SPI_CTRL (io_board s)")
  have b: "same_view v (io_board s) d"
    "if v_busy v (io_board s) = 0 then c AND 0x80 = 0 else c AND 0x80 \<noteq> 0 \<and> v_busy v d < v_busy v (io_board s)"
    using assms(1) r unfolding spi_board_def by (metis fst_conv snd_conv)+
  have g: "io_get io s = (c, s\<lparr>io_board := d\<rparr>)" using r less.prems by (simp add: io_get_def)
  show ?case
  proof (cases "v_busy v (io_board s) = 0")
    case True
    then have "io_wait io 0x80 True s = Some (s\<lparr>io_board := d\<rparr>)" using b(2) by (subst io_wait.simps) (simp add: g)
    then show ?thesis using b(1) by (simp add: drv_view_def same_drv_def)
  next
    case False
    then have "io_wait io 0x80 True s = io_wait io 0x80 True (s\<lparr>io_board := d\<rparr>)" using b(2) by (subst io_wait.simps) (simp add: g)
    moreover obtain s' where "io_wait io 0x80 True (s\<lparr>io_board := d\<rparr>) = Some s'" "drv_view v (s\<lparr>io_board := d\<rparr>) s'"
      using less.hyps [of "s\<lparr>io_board := d\<rparr>"] False b(2) less.prems by auto
    ultimately show ?thesis using b(1) by (auto simp: drv_view_def same_drv_def same_view_def)
  qed
qed

text \<open>The driver where the card has seen the bytes \<open>h\<close>.\<close>

definition seen :: "'d spi_view \<Rightarrow> 'd mio \<Rightarrow> u8 \<Rightarrow> u8 list \<Rightarrow> 'd mio \<Rightarrow> bool" where
  "seen v s0 sl h s \<longleftrightarrow> same_drv s0 s \<and> v_sel v (io_board s) = sl \<and> v_hist v (io_board s) = h"

lemma board_data:
  assumes "spi_board io v reply" and "seen v s0 sl h s"
  shows "seen v s0 sl (h @ [b]) (io_put io b (io_sel B68K_IO_REG_SPI_DATA s))"
    and "v_dat v (io_board (io_put io b (io_sel B68K_IO_REG_SPI_DATA s))) = reply sl h"
  using assms by (auto simp: spi_board_def seen_def io_put_def io_sel_def same_drv_def Let_def)

lemma while_ready:
  assumes "spi_board io v reply" and "seen v s0 sl h s"
  shows "\<exists>s'. io_while io B68K_IO_SPI_BUSY_MASK True (io_sel B68K_IO_REG_SPI_CTRL s) = KOk s' \<and> seen v s0 sl h s' \<and>
    v_dat v (io_board s') = v_dat v (io_board s)"
proof -
  obtain s' where "io_wait io 0x80 True (io_sel B68K_IO_REG_SPI_CTRL s) = Some s'" "drv_view v (io_sel B68K_IO_REG_SPI_CTRL s) s'"
    using wait_ready [OF assms(1), of "io_sel B68K_IO_REG_SPI_CTRL s"] by (auto simp: io_sel_def)
  then show ?thesis using assms(2)
    by (auto simp: io_while_def B68K_IO_SPI_BUSY_MASK_def seen_def drv_view_def same_drv_def same_view_def io_sel_def)
qed

lemma send_byte:
  assumes "spi_board io v reply" and "seen v s0 sl h s"
  shows "\<exists>s'. spi_send_byte io c s = KOk s' \<and> seen v s0 sl (h @ [c]) s'"
  using while_ready [OF assms] board_data(1) [OF assms(1)] by (force simp: spi_send_byte_def)

lemma send_bytes:
  assumes "spi_board io v reply" and "seen v s0 sl h s"
  shows "\<exists>s'. spi_send_bytes io cs s = KOk s' \<and> seen v s0 sl (h @ cs) s'"
  using assms(2)
proof (induction cs arbitrary: h s)
  case (Cons c cs)
  obtain s1 where "spi_send_byte io c s = KOk s1" "seen v s0 sl (h @ [c]) s1" using send_byte [OF assms(1) Cons.prems] by blast
  with Cons.IH [OF this(2)] show ?case by simp
qed simp

lemma read_byte:
  assumes "spi_board io v reply" and "seen v s0 sl h s"
  shows "\<exists>s'. spi_read_byte io s = KOk (reply sl h, s') \<and> seen v s0 sl (h @ [0xff]) s'"
proof -
  let ?s1 = "io_put io 0xff (io_sel B68K_IO_REG_SPI_DATA s)"
  obtain s2 where s2: "io_while io B68K_IO_SPI_BUSY_MASK True (io_sel B68K_IO_REG_SPI_CTRL ?s1) = KOk s2" "seen v s0 sl (h @ [0xff]) s2"
    "v_dat v (io_board s2) = reply sl h"
    using while_ready [OF assms(1) board_data(1) [OF assms, of "0xff"]] board_data(2) [OF assms, of "0xff"] by auto
  obtain c d where r: "reg_read io B68K_IO_REG_SPI_DATA (io_board s2) = (c, d)" by (cases "reg_read io B68K_IO_REG_SPI_DATA (io_board s2)")
  have "same_view v (io_board s2) d" "c = v_dat v (io_board s2)" using assms(1) r unfolding spi_board_def by (metis fst_conv snd_conv)+
  then show ?thesis using s2 r
    by (simp add: spi_read_byte_def io_get_def io_sel_def) (simp add: seen_def same_drv_def same_view_def)
qed

lemma r1_found:
  assumes "spi_board io v reply" and "seen v s0 sl h s" and "n < retry"
    and "\<And>i. i < n \<Longrightarrow> reply sl (h @ replicate i 0xff) AND 0x80 \<noteq> 0" and "reply sl (h @ replicate n 0xff) AND 0x80 = 0"
  shows "\<exists>s'. r1_loop io retry s = KOk (ucast (reply sl (h @ replicate n 0xff)), s') \<and> seen v s0 sl (h @ replicate (Suc n) 0xff) s'"
  using assms(2-)
proof (induction retry arbitrary: n h s)
  case (Suc retry)
  obtain s1 where s1: "spi_read_byte io s = KOk (reply sl h, s1)" "seen v s0 sl (h @ [0xff]) s1" using read_byte [OF assms(1) Suc.prems(1)] by blast
  show ?case
  proof (cases n)
    case 0
    then show ?thesis using s1 Suc.prems(4) by simp
  next
    case (Suc m)
    have "reply sl h AND 0x80 \<noteq> 0" using Suc.prems(3) [of 0] Suc by simp
    moreover have "\<exists>s'. r1_loop io retry s1 = KOk (ucast (reply sl ((h @ [0xff]) @ replicate m 0xff)), s') \<and> seen v s0 sl ((h @ [0xff]) @ replicate (Suc m) 0xff) s'"
      by (rule Suc.IH [OF s1(2)]) (use Suc Suc.prems(2,4) Suc.prems(3) [of "Suc i" for i] in auto)
    ultimately show ?thesis using s1(1) Suc by simp
  qed
qed simp

lemma token_found:
  assumes "spi_board io v reply" and "seen v s0 sl h s" and "n < retry"
    and "\<And>i. i < n \<Longrightarrow> reply sl (h @ replicate i 0xff) AND 1 \<noteq> 0" and "reply sl (h @ replicate n 0xff) AND 1 = 0"
  shows "\<exists>s' k. token_loop io retry s = KOk (Suc k, s') \<and> seen v s0 sl (h @ replicate (Suc n) 0xff) s'"
  using assms(2-)
proof (induction retry arbitrary: n h s)
  case (Suc retry)
  obtain s1 where s1: "spi_read_byte io s = KOk (reply sl h, s1)" "seen v s0 sl (h @ [0xff]) s1" using read_byte [OF assms(1) Suc.prems(1)] by blast
  show ?case
  proof (cases n)
    case 0
    then show ?thesis using s1 Suc.prems(4) by simp
  next
    case (Suc m)
    have "reply sl h AND 1 \<noteq> 0" using Suc.prems(3) [of 0] Suc by simp
    moreover have "\<exists>s' k. token_loop io retry s1 = KOk (Suc k, s') \<and> seen v s0 sl ((h @ [0xff]) @ replicate (Suc m) 0xff) s'"
      by (rule Suc.IH [OF s1(2)]) (use Suc Suc.prems(2,4) Suc.prems(3) [of "Suc i" for i] in auto)
    ultimately show ?thesis using s1(1) Suc by simp
  qed
qed simp

lemma put_bytes_Cons: "length bs < 2 ^ 32 - 1 \<Longrightarrow> put_bytes (r(a := b)) (a + 1) bs = put_bytes r a (b # bs)"
proof
  fix x assume l: "length bs < 2 ^ 32 - 1"
  show "put_bytes (r(a := b)) (a + 1) bs x = put_bytes r a (b # bs) x"
  proof (cases "x = a")
    case True
    have "unat (- 1 :: u32) = 2 ^ 32 - 1" by (simp only: unsigned_minus_1_eq_mask mask_eq_exp_minus_1) simp
    then show ?thesis using True l by (simp add: put_bytes_def)
  next
    case False
    then have "x - a \<noteq> 0" by simp
    then have "unat (x - a) = Suc (unat (x - (a + 1)))"
      by (metis Suc_pred' diff_diff_eq unat_gt_0 unat_minus_one)
    then show ?thesis using False by (simp add: put_bytes_def)
  qed
qed

lemma data_read:
  assumes "spi_board io v reply" and "seen v s0 sl h s" and "length bs < 2 ^ 32 - 1"
    and "\<And>i. i < length bs \<Longrightarrow> reply sl (h @ replicate i 0xff) = bs ! i"
  shows "\<exists>s'. data_loop io (length bs) dst s r = KOk (s', put_bytes r dst bs) \<and> seen v s0 sl (h @ replicate (length bs) 0xff) s'"
  using assms(2-)
proof (induction bs arbitrary: h s dst r)
  case Nil
  then show ?case by (simp add: put_bytes_def)
next
  case (Cons b bs)
  obtain s1 where s1: "spi_read_byte io s = KOk (b, s1)" "seen v s0 sl (h @ [0xff]) s1"
    using read_byte [OF assms(1) Cons.prems(1)] Cons.prems(3) [of 0] by auto
  have "\<exists>s'. data_loop io (length bs) (dst + 1) s1 (r(dst := b)) = KOk (s', put_bytes (r(dst := b)) (dst + 1) bs) \<and>
      seen v s0 sl ((h @ [0xff]) @ replicate (length bs) 0xff) s'"
    by (rule Cons.IH [OF s1(2)]) (use Cons.prems(2) Cons.prems(3) [of "Suc i" for i] in auto)
  then show ?case using s1(1) put_bytes_Cons [of bs r dst b] Cons.prems(2) by auto
qed

text \<open>
  How a card answers a read of the sector \<open>arg\<close>: at most 99 bytes later R1 without an error, at most 999 bytes later a byte with
  bit 0 clear, then the data.
\<close>

definition card_sends :: "(u8 list \<Rightarrow> u8) \<Rightarrow> u32 \<Rightarrow> u8 list \<Rightarrow> bool" where
  "card_sends rep arg bs \<longleftrightarrow> (\<exists>n m. n < 100 \<and> m < 1000 \<and>
     (let q = (\<lambda>i. rep (sd_frame 17 arg @ replicate i 0xff)) in
        (\<forall>i < n. q i AND 0x80 \<noteq> 0) \<and> q n AND 0x80 = 0 \<and> q n AND 0x7C = 0 \<and>
        (\<forall>i < m. q (Suc n + i) AND 1 \<noteq> 0) \<and> q (Suc n + m) AND 1 = 0 \<and>
        (\<forall>i < length bs. q (Suc n + Suc m + i) = bs ! i)))"

lemma repl_assoc: "(h @ replicate n x) @ replicate k x = h @ replicate (n + k) x"
  by (simp add: replicate_add)

lemma sector_data:
  assumes b: "spi_board io v reply" and k: "seen v s sl [] s0" and c: "card_sends (reply sl) arg bs" and l: "length bs = 512"
  shows "\<exists>s1 s2 s3 s4 resp retry. spi_send_bytes io (sd_frame 17 arg) s0 = KOk s1 \<and> spi_sd_resp_r1 io s1 = KOk (resp, s2) \<and> resp AND 0x7C = 0 \<and>
    token_loop io SD_TOKEN_RETRY s2 = KOk (Suc retry, s3) \<and> data_loop io SECTOR_SIZE dst s3 r = KOk (s4, put_bytes r dst bs) \<and> same_drv s s4"
proof -
  let ?f = "sd_frame 17 arg"
  obtain n m where nm: "n < 100" "m < 1000" "\<And>i. i < n \<Longrightarrow> reply sl (?f @ replicate i 0xff) AND 0x80 \<noteq> 0"
    "reply sl (?f @ replicate n 0xff) AND 0x80 = 0" "reply sl (?f @ replicate n 0xff) AND 0x7C = 0"
    "\<And>i. i < m \<Longrightarrow> reply sl (?f @ replicate (Suc n + i) 0xff) AND 1 \<noteq> 0" "reply sl (?f @ replicate (Suc n + m) 0xff) AND 1 = 0"
    "\<And>i. i < length bs \<Longrightarrow> reply sl (?f @ replicate (Suc n + Suc m + i) 0xff) = bs ! i"
    using c unfolding card_sends_def Let_def by blast
  obtain s1 where s1: "spi_send_bytes io ?f s0 = KOk s1" "seen v s sl ?f s1" using send_bytes [OF b k, of ?f] by auto
  obtain s1' where s1': "spi_sync io s1 = KOk s1'" "seen v s sl ?f s1'" using while_ready [OF b s1(2)] by (auto simp: spi_sync_def)
  have m1: "seen v s sl ?f (spi_read_mode io s1')"
    using b s1'(2) by (auto simp: spi_board_def seen_def spi_read_mode_def io_put_def io_sel_def same_drv_def same_view_def)
  obtain s2 where s2: "spi_sd_resp_r1 io s1 = KOk (ucast (reply sl (?f @ replicate n 0xff)), s2)" "seen v s sl (?f @ replicate (Suc n) 0xff) s2"
    using r1_found [OF b m1, of n SD_R1_RETRY] nm(1,3,4) s1'(1) by (auto simp: spi_sd_resp_r1_def SD_R1_RETRY_def)
  have r0: "ucast (reply sl (?f @ replicate n 0xff)) AND (0x7C :: u32) = 0"
  proof -
    have "ucast (reply sl (?f @ replicate n 0xff) AND 0x7C) = (ucast (reply sl (?f @ replicate n 0xff)) AND 0x7C :: u32)"
      by (simp add: unsigned_and_eq)
    then show ?thesis using nm(5) by (metis unsigned_0)
  qed
  obtain s3 retry where s3: "token_loop io SD_TOKEN_RETRY s2 = KOk (Suc retry, s3)" "seen v s sl (?f @ replicate (Suc n + Suc m) 0xff) s3"
    using token_found [OF b s2(2), of m SD_TOKEN_RETRY] nm(2,6,7) unfolding repl_assoc SD_TOKEN_RETRY_def by blast
  obtain s4 where "data_loop io (length bs) dst s3 r = KOk (s4, put_bytes r dst bs)" "same_drv s s4"
    using data_read [OF b s3(2), of bs dst r] nm(8) l unfolding repl_assoc by (auto simp: seen_def)
  then show ?thesis using s1(1) s2(1) r0 s3(1) l by (auto simp: SECTOR_SIZE_def)
qed

text \<open>C38. A sector is read as the card sends it: when a card answers the framed command with the number of a sector in time, \<open>_spi_sd_read_sector\<close>
  returns 0, and the 512 bytes of the card are in memory at the destination, nothing else changed.\<close>

theorem sd_sector_read:
  assumes "spi_board io v reply" and "card_type s dr \<noteq> SD_CARD_TYPE_NONE"
    and "arg = (if card_type s dr AND SD_CARD_TYPE_V2HC \<noteq> 0 then sector else sector * 512)"
    and "card_sends (reply (ucast (drive_sel dr))) arg bs" and "length bs = 512"
  shows "\<exists>s'. spi_sd_read_sector io dr sector dst s r = KOk (0, s', put_bytes r dst bs) \<and> card_type s' = card_type s \<and> serial s' = serial s"
proof -
  let ?s0 = "spi_write_mode io (spi_select io (drive_sel dr) s)"
  have k: "seen v s (ucast (drive_sel dr)) [] ?s0"
    using assms(1) by (auto simp: spi_board_def seen_def spi_write_mode_def spi_select_def io_put_def io_sel_def same_drv_def same_view_def)
  have same: "same_drv s (spi_deselect io x) = same_drv s x" for x by (simp add: same_drv_def spi_deselect_def io_put_def io_sel_def)
  obtain s1 s2 s3 s4 resp retry where "spi_send_bytes io (sd_frame 17 arg) ?s0 = KOk s1" "spi_sd_resp_r1 io s1 = KOk (resp, s2)" "resp AND 0x7C = 0"
    "token_loop io SD_TOKEN_RETRY s2 = KOk (Suc retry, s3)" "data_loop io SECTOR_SIZE dst s3 r = KOk (s4, put_bytes r dst bs)" "same_drv s s4"
    using sector_data [OF assms(1) k assms(4,5), of dst r] by blast
  moreover have "(if card_type s dr AND SD_CARD_TYPE_V2HC \<noteq> 0 then sector else sector * of_nat SECTOR_SIZE) = arg"
    using assms(3) by (simp add: SECTOR_SIZE_def)
  ultimately have "spi_sd_read_sector io dr sector dst s r = KOk (0, spi_deselect io s4, put_bytes r dst bs)" "same_drv s (spi_deselect io s4)"
    using assms(2) by (simp_all add: spi_sd_read_sector_def Let_def same)
  then show ?thesis by (auto simp: same_drv_def)
qed

text \<open>A board with one card: its state is the select register, what it has been sent, and the byte received last. It answers the read of
  sector 5 with R1, a token and the data.\<close>

definition demo_data :: "u8 list" where
  "demo_data = replicate 510 0 @ [0x55, 0xAA]"

definition demo_reply :: "u8 \<Rightarrow> u8 list \<Rightarrow> u8" where
  "demo_reply sl h = (if take 7 h \<noteq> sd_frame 17 5 \<or> length h < 8 then 0xff
     else if length h = 8 then 0 else if length h = 9 then 0xFE else demo_data ! (length h - 10))"

definition demo_spi :: "(u8 \<times> u8 list \<times> u8) iodev" where
  "demo_spi = \<lparr>reg_read = (\<lambda>a d. if a = B68K_IO_REG_SPI_DATA then (snd (snd d), d) else (0, d)),
     reg_write = (\<lambda>a b d. if a = B68K_IO_REG_SPI_SEL then (b, [], snd (snd d))
       else if a = B68K_IO_REG_SPI_DATA then (fst d, fst (snd d) @ [b], demo_reply (fst d) (fst (snd d))) else d)\<rparr>"

definition demo_view :: "(u8 \<times> u8 list \<times> u8) spi_view" where
  "demo_view = \<lparr>v_sel = fst, v_hist = (\<lambda>d. fst (snd d)), v_dat = (\<lambda>d. snd (snd d)), v_busy = (\<lambda>_. 0)\<rparr>"

lemma demo_spi_board: "spi_board demo_spi demo_view demo_reply"
  by (simp add: spi_board_def demo_spi_def demo_view_def same_view_def io_regs Let_def)

lemma demo_card: "card_sends (demo_reply sl) 5 demo_data"
proof -
  have f: "length (sd_frame 17 5) = 7" by (simp add: sd_frame_def)
  have q: "demo_reply sl (sd_frame 17 5 @ replicate i 0xff) =
      (if i = 0 then 0xff else if i = 1 then 0 else if i = 2 then 0xFE else demo_data ! (i - 3))" for i
    by (auto simp: demo_reply_def f)
  show ?thesis unfolding card_sends_def Let_def q by (intro exI [of _ 1] exI [of _ 0]) simp
qed

definition spi_demo :: "(u8 \<times> u8 list \<times> u8) mio" where
  "spi_demo = \<lparr>io_ad = 0, io_board = (0, [], 0), card_type = (\<lambda>_. SD_CARD_TYPE_V2), serial = \<lparr>rbin = [], sr_wptr = 0, sr_rptr = 0\<rparr>\<rparr>"

theorem sd_sector_read_witness:
  "\<exists>s'. spi_sd_read_sector demo_spi DRIVE_A 5 0x1000 spi_demo (\<lambda>_. 0) = KOk (0, s', put_bytes (\<lambda>_. 0) 0x1000 demo_data)"
  using sd_sector_read [OF demo_spi_board, of spi_demo DRIVE_A 5 5 demo_data "0x1000" "\<lambda>_. 0"] demo_card [of "ucast (drive_sel DRIVE_A)"]
  by (auto simp: spi_demo_def SD_CARD_TYPE_NONE_def SD_CARD_TYPE_V2_def SD_CARD_TYPE_V2HC_def demo_data_def)

section \<open>The frame of a command\<close>

text \<open>C37. The checksum of SD commands is the one of the SD protocol: the frame of every command is a padding byte, five bytes of message and a last byte, whose
  upper seven bits are the remainder of the message times \<open>x^7\<close> divided by \<open>x^7 + x^3 + 1\<close>, and whose lowest bit is 1.\<close>

theorem sd_frame_checksum:
  "\<exists>msg c. sd_frame cmd arg = 0xff # msg @ [c] \<and> length msg = 5 \<and>
     byte_bits c = gf2_rem (concat (map byte_bits msg) @ replicate 7 False) @ [True]"
proof -
  let ?x = "crc7 (crc7 0 (0x40 + ucast cmd) 8) arg 32"
  let ?msg = "[0x40 + cmd, ucast (drop_bit 24 arg), ucast (drop_bit 16 arg), ucast (drop_bit 8 arg), ucast arg]"
  have o: "?x * 2 + 1 = ?x * 2 OR 1" by (rule disjunctive_add) (auto simp: bit_double bit_1_iff)
  have "byte_bits (ucast (?x * 2 + 1)) = bits_of 7 ?x @ [True]"
    unfolding o by (simp add: byte_bits_def bits_of_7 bit_simps bit_double)
  also have "bits_of 7 ?x = gf2_rem (concat (map byte_bits ?msg) @ replicate 7 False)"
    unfolding crc7_remainder bits_of_8 bits_of_32 by simp
  finally have "byte_bits (ucast (cmd_crc cmd arg)) = gf2_rem (concat (map byte_bits ?msg) @ replicate 7 False) @ [True]"
    by (simp only: cmd_crc_def)
  then show ?thesis by (intro exI [of _ ?msg] exI [of _ "ucast (cmd_crc cmd arg)"]) (simp add: sd_frame_def)
qed

text \<open>The values the comment in the code gives for the commands 0 and 58.\<close>

lemma checksum_0: "cmd_crc 0 0 = 0x95"
  by code_simp

lemma checksum_58: "cmd_crc 58 0 = 0xFD"
  by code_simp

section \<open>Drive A\<close>

text \<open>The mask that tells the drives apart contains the bit that all minor numbers of disks have: every read of a sector goes to drive B.\<close>

lemma sectors_from_drive_b:
  assumes "mi AND DRIVE_MASK \<noteq> 0" and "mi \<noteq> MINOR_SERIAL" and "mi \<noteq> MINOR_I2C"
  shows "mio_read io env mi seek dst 512 x =
    kbind (spi_sd_read_sector io DRIVE_B (seek div 512) dst (fst x) (ram (snd x))) (\<lambda>(st, s1, r1).
      KOk (if st = 0 then 512 else - 1, s1, (snd x)\<lparr>ram := r1\<rparr>))"
proof -
  have "mi AND DRIVE_AB_MASK \<noteq> 0"
  proof
    assume z: "mi AND DRIVE_AB_MASK = 0"
    have "mi AND DRIVE_MASK = (mi AND DRIVE_AB_MASK) AND DRIVE_MASK" by (simp add: DRIVE_MASK_def DRIVE_AB_MASK_def and.assoc)
    with z assms(1) show False by simp
  qed
  then show ?thesis using assms by (simp add: mio_read_def SECTOR_SIZE_def cong: if_cong)
qed

end
