(* ===== verification/MioSerial.thy ===== *)
theory MioSerial
  imports MioProps Ring
begin

text \<open>
  The serial port of the multi-io board: the ring between the interrupt and the readers is a queue, the interrupt puts
  what the board has received at its end, and a read takes from its front, in order, while time passes and more arrives.
\<close>

section \<open>The ring\<close>

definition serial_queue :: "mio_serial \<Rightarrow> u8 list" where
  "serial_queue p = ring8 (rbin p) (sr_rptr p) (sr_wptr p)"

definition serial_ok :: "mio_serial \<Rightarrow> bool" where
  "serial_ok p \<longleftrightarrow> length (rbin p) = 256"

lemma serial_put:
  assumes "serial_ok p" and "length (serial_queue p) < 255"
  shows "serial_room p" and "serial_queue (serial_store c p) = serial_queue p @ [c]" and "serial_ok (serial_store c p)"
  using assms ring8_room(1) [of "sr_wptr p" "sr_rptr p"] ring8_put [of "rbin p" "sr_wptr p" "sr_rptr p" c]
  by (auto simp: serial_ok_def serial_queue_def serial_room_def serial_store_def)

lemma serial_take:
  assumes "length (serial_queue p) < 2 ^ 32 - 1"
  shows "serial_drain n dst p r = (min n (length (serial_queue p)),
      p\<lparr>sr_rptr := sr_rptr p + of_nat (min n (length (serial_queue p)))\<rparr>, put_bytes r dst (take n (serial_queue p))) \<and>
    serial_queue (p\<lparr>sr_rptr := sr_rptr p + of_nat (min n (length (serial_queue p)))\<rparr>) = drop n (serial_queue p)"
  using assms
proof (induction n arbitrary: dst p r)
  case 0
  then show ?case by (simp add: put_bytes_def)
next
  case (Suc n)
  show ?case
  proof (cases "sr_rptr p = sr_wptr p")
    case True
    then show ?thesis by (simp add: serial_queue_def put_bytes_def)
  next
    case False
    let ?p = "p\<lparr>sr_rptr := sr_rptr p + 1\<rparr>"
    have q: "serial_queue p = rbin p ! unat (sr_rptr p) # serial_queue ?p" using ring8_Cons [OF False] by (simp add: serial_queue_def)
    have l: "length (serial_queue ?p) < 2 ^ 32 - 1" using Suc.prems q by simp
    have "length (take n (serial_queue ?p)) < 2 ^ 32 - 1" using l by simp
    from put_bytes_Cons [OF this] show ?thesis using Suc.IH [OF l] False by (simp add: q add.assoc del: fun_upd_apply)
  qed
qed

section \<open>The interrupt\<close>

text \<open>
  What the interrupt needs of the board: \<open>fifo\<close> is what has been received and not been read; reading the data register takes
  its first byte, and the status tells whether it is empty.
\<close>

definition uart_board :: "'d iodev \<Rightarrow> ('d \<Rightarrow> u8 list) \<Rightarrow> bool" where
  "uart_board io fifo \<longleftrightarrow>
     (\<forall>d c cs. fifo d = c # cs \<longrightarrow> fst (reg_read io B68K_IO_REG_UART_DATA d) = c \<and> fifo (snd (reg_read io B68K_IO_REG_UART_DATA d)) = cs) \<and>
     (\<forall>d. fifo (snd (reg_read io B68K_IO_REG_IRQSTS d)) = fifo d \<and>
        (fst (reg_read io B68K_IO_REG_IRQSTS d) AND B68K_IO_IRQ_SERIAL_MASK = 0 \<longleftrightarrow> fifo d = []))"

text \<open>One turn of the loop.\<close>

lemma interrupt_turn:
  "interrupt_loop io s =
    (let s1 = io_sel B68K_IO_REG_UART_DATA s;
         s2 = (if serial_room (serial s) then s1\<lparr>io_board := snd (reg_read io B68K_IO_REG_UART_DATA (io_board s)),
                 serial := serial_store (fst (reg_read io B68K_IO_REG_UART_DATA (io_board s))) (serial s)\<rparr> else s1);
         s3 = s2\<lparr>io_ad := B68K_IO_REG_IRQSTS, io_board := snd (reg_read io B68K_IO_REG_IRQSTS (io_board s2))\<rparr>
     in if fst (reg_read io B68K_IO_REG_IRQSTS (io_board s2)) AND B68K_IO_IRQ_SERIAL_MASK = 0 then Some s3 else interrupt_loop io s3)"
  by (subst interrupt_loop.simps) (simp add: io_get_def io_sel_def Let_def case_prod_beta)

lemma interrupt_takes:
  assumes "uart_board io fifo"
  shows "serial_ok (serial s) \<Longrightarrow> fifo (io_board s) = c # cs \<Longrightarrow> length (serial_queue (serial s)) + length (c # cs) \<le> 255 \<Longrightarrow>
    \<exists>s'. interrupt_loop io s = Some s' \<and> serial_queue (serial s') = serial_queue (serial s) @ c # cs \<and> serial_ok (serial s') \<and>
      fifo (io_board s') = [] \<and> card_type s' = card_type s"
proof (induction cs arbitrary: c s)
  case Nil
  have r: "length (serial_queue (serial s)) < 255" using Nil.prems(3) by simp
  show ?case
    using assms Nil.prems serial_put(1) [OF Nil.prems(1) r] serial_put(2,3) [OF Nil.prems(1) r, of c] by (subst interrupt_turn) (auto simp: uart_board_def io_sel_def Let_def)
next
  case (Cons c' cs)
  have r: "length (serial_queue (serial s)) < 255" using Cons.prems(3) by simp
  note p = serial_put(1) [OF Cons.prems(1) r] serial_put(2,3) [OF Cons.prems(1) r, of c]
  let ?d = "snd (reg_read io B68K_IO_REG_UART_DATA (io_board s))"
  let ?s = "s\<lparr>serial := serial_store c (serial s), io_ad := B68K_IO_REG_IRQSTS, io_board := snd (reg_read io B68K_IO_REG_IRQSTS ?d)\<rparr>"
  have d: "fst (reg_read io B68K_IO_REG_UART_DATA (io_board s)) = c" "fifo ?d = c' # cs"
    using assms Cons.prems(2) by (auto simp: uart_board_def)
  have e: "fifo (snd (reg_read io B68K_IO_REG_IRQSTS ?d)) = c' # cs" "fst (reg_read io B68K_IO_REG_IRQSTS ?d) AND B68K_IO_IRQ_SERIAL_MASK \<noteq> 0"
    using assms d(2) by (auto simp: uart_board_def)
  have t: "interrupt_loop io s = interrupt_loop io ?s"
    by (subst interrupt_turn) (use p(1) d e in \<open>simp add: io_sel_def Let_def\<close>)
  have "\<exists>s'. interrupt_loop io ?s = Some s' \<and> serial_queue (serial s') = serial_queue (serial ?s) @ c' # cs \<and> serial_ok (serial s') \<and>
      fifo (io_board s') = [] \<and> card_type s' = card_type ?s"
    by (rule Cons.IH) (use p e Cons.prems(3) in simp_all)
  then show ?case using t p(2) by auto
qed

definition ring_full :: "mio_serial \<Rightarrow> bool" where
  "ring_full p \<longleftrightarrow> length (serial_queue p) = 255 \<and> \<not> (sr_wptr p = 255 \<and> sr_rptr p = 0)"

lemma full_no_room: "ring_full p \<Longrightarrow> \<not> serial_room p"
  using ring8_room(2) [of "sr_wptr p" "sr_rptr p"] by (auto simp: ring_full_def serial_room_def serial_queue_def)

lemma interrupt_stuck:
  assumes b: "uart_board io fifo" and f: "ring_full (serial s)" and n: "fifo (io_board s) \<noteq> []"
  shows "interrupt_loop io s = None"
proof (rule ccontr)
  assume "interrupt_loop io s \<noteq> None"
  then obtain s' where r: "interrupt_loop io s = Some s'" by auto
  have "io = io \<longrightarrow> ring_full (serial s) \<longrightarrow> fifo (io_board s) = []"
  proof (rule interrupt_loop.raw_induct [where P = "\<lambda>io' s _. io' = io \<longrightarrow> ring_full (serial s) \<longrightarrow> fifo (io_board s) = []", OF _ r], intro impI)
    fix f io' s s'
    assume IH: "\<And>io' s s'. f io' s = Some s' \<Longrightarrow> io' = io \<longrightarrow> ring_full (serial s) \<longrightarrow> fifo (io_board s) = []"
      and io: "io' = io" and full: "ring_full (serial s)"
      and s: "(let s1 = io_sel B68K_IO_REG_UART_DATA s;
          s2 = (if serial_room (serial s1) then (let (c, s') = io_get io' s1 in s'\<lparr>serial := serial_store c (serial s')\<rparr>) else s1);
          (v, s3) = io_get io' (io_sel B68K_IO_REG_IRQSTS s2)
        in if v AND B68K_IO_IRQ_SERIAL_MASK = 0 then Some s3 else f io' s3) = Some s'"
    let ?r = "reg_read io B68K_IO_REG_IRQSTS (io_board s)"
    have c: "fifo (snd ?r) = fifo (io_board s)" "fst ?r AND B68K_IO_IRQ_SERIAL_MASK = 0 \<longleftrightarrow> fifo (io_board s) = []"
      using b by (auto simp: uart_board_def)
    show "fifo (io_board s) = []"
    proof (rule ccontr)
      assume ne: "fifo (io_board s) \<noteq> []"
      have "f io (s\<lparr>io_ad := B68K_IO_REG_IRQSTS, io_board := snd ?r\<rparr>) = Some s'"
        using s io full_no_room [OF full] c(2) ne by (simp add: io_sel_def io_get_def Let_def case_prod_beta)
      from IH [OF this] full c(1) ne show False by simp
    qed
  qed
  with f n show False by simp
qed


text \<open>A board with a FIFO of bytes, and three characters in it.\<close>

definition demo_uart :: "u8 list iodev" where
  "demo_uart = \<lparr>reg_read = (\<lambda>a d. if a = B68K_IO_REG_UART_DATA then (case d of [] \<Rightarrow> (0, []) | c # cs \<Rightarrow> (c, cs))
       else if a = B68K_IO_REG_IRQSTS then (if d = [] then 0 else 1, d) else (0, d)), reg_write = (\<lambda>a b d. d)\<rparr>"

lemma demo_uart_board: "uart_board demo_uart (\<lambda>d. d)"
  by (auto simp: uart_board_def demo_uart_def io_regs B68K_IO_IRQ_SERIAL_MASK_def)

definition uart_demo :: "u8 list mio" where
  "uart_demo = \<lparr>io_ad = 2, io_board = [10, 20, 30], card_type = (\<lambda>_. 0), serial = \<lparr>rbin = replicate 256 0, sr_wptr = 254, sr_rptr = 254\<rparr>\<rparr>"


section \<open>Reading\<close>

text \<open>What happens while a read waits: characters may arrive, and nobody writes to the reader's buffer.\<close>

definition serial_env :: "(nat \<Rightarrow> 'd mio \<times> 'a kstate_scheme \<Rightarrow> 'd mio \<times> 'a kstate_scheme) \<Rightarrow> u32 set \<Rightarrow> bool" where
  "serial_env pause A \<longleftrightarrow> (\<forall>k x. \<exists>as. serial_queue (serial (fst (pause k x))) = serial_queue (serial (fst x)) @ as \<and>
     (\<forall>a \<in> A. ram (snd (pause k x)) a = ram (snd x) a))"

lemma queue_small: "length (serial_queue p) < 2 ^ 32 - 1"
  using unat_u8_less [of "sr_wptr p - sr_rptr p"] by (simp add: serial_queue_def)

text \<open>What one call of \<open>serial_drain\<close> does to the state.\<close>

definition drained :: "nat \<Rightarrow> u32 \<Rightarrow> 'd mio \<times> 'a kstate_scheme \<Rightarrow> 'd mio \<times> 'a kstate_scheme" where
  "drained count dst x = (let (got, p, r) = serial_drain count dst (serial (fst x)) (ram (snd x)) in ((fst x)\<lparr>serial := p\<rparr>, (snd x)\<lparr>ram := r\<rparr>))"

lemma drained_facts:
  shows "serial_queue (serial (fst (drained count dst x))) = drop count (serial_queue (serial (fst x)))"
    and "ram (snd (drained count dst x)) = put_bytes (ram (snd x)) dst (take count (serial_queue (serial (fst x))))"
  using serial_take [OF queue_small [of "serial (fst x)"], of count dst "ram (snd x)"] by (simp_all add: drained_def)

lemma read_loop_step:
  assumes "0 < count" and "g = min count (length (serial_queue (serial (fst x))))"
  shows "serial_read_loop now pause k dst count did x =
    (if now (Suc k) - now 0 > K_MIO_SERIAL_TIMEOUT_MS then Some (did + g, drained count dst x)
     else serial_read_loop now pause (Suc k) (dst + of_nat g) (count - g) (did + g) (pause k (drained count dst x)))"
  using serial_take [OF queue_small [of "serial (fst x)"], of count dst "ram (snd x)"] assms
  by (subst serial_read_loop.simps) (simp add: drained_def Let_def)

definition read_result ::
    "(nat \<Rightarrow> u32) \<Rightarrow> u32 set \<Rightarrow> u32 \<Rightarrow> nat \<Rightarrow> 'd mio \<times> 'a kstate_scheme \<Rightarrow> nat \<Rightarrow> 'd mio \<times> 'a kstate_scheme \<Rightarrow> u8 list \<Rightarrow> bool" where
  "read_result now A dst count x m x' as \<longleftrightarrow> (let q = serial_queue (serial (fst x)) @ as in
     m \<le> count \<and> m \<le> length q \<and> holds (ram (snd x')) dst (take m q) \<and> serial_queue (serial (fst x')) = drop m q \<and>
     (\<forall>a \<in> A - region dst count. ram (snd x') a = ram (snd x) a) \<and>
     (m < count \<longrightarrow> (\<exists>j. now (Suc j) - now 0 > K_MIO_SERIAL_TIMEOUT_MS)))"

lemma region_le: "g \<le> count \<Longrightarrow> region dst g \<subseteq> region dst count"
  by (auto simp: region_def)

text \<open>The first drain and what a later part of the loop reads.\<close>

lemma read_result_append:
  assumes g: "g = min count (length (serial_queue (serial (fst x))))" and A: "region dst count \<subseteq> A" and c: "count \<le> 2 ^ 32"
    and as: "serial_queue (serial (fst x1)) = serial_queue (serial (fst (drained count dst x))) @ as"
    and mem: "\<forall>a \<in> A. ram (snd x1) a = ram (snd (drained count dst x)) a"
    and r: "read_result now A (dst + of_nat g) (count - g) x1 m x' bs"
  shows "read_result now A dst count x (g + m) x' (as @ bs)"
proof -
  let ?q = "serial_queue (serial (fst x))"
  have q1: "serial_queue (serial (fst x1)) = drop count ?q @ as" using as by (simp add: drained_facts)
  have m1: "ram (snd x1) a = put_bytes (ram (snd x)) dst (take count ?q) a" if "a \<in> A" for a using mem that by (simp add: drained_facts)
  have r': "m \<le> count - g" "m \<le> length (drop count ?q @ as @ bs)" "holds (ram (snd x')) (dst + of_nat g) (take m (drop count ?q @ as @ bs))"
    "serial_queue (serial (fst x')) = drop m (drop count ?q @ as @ bs)" "\<forall>a \<in> A - region (dst + of_nat g) (count - g). ram (snd x') a = ram (snd x1) a"
    "m < count - g \<Longrightarrow> \<exists>j. now (Suc j) - now 0 > K_MIO_SERIAL_TIMEOUT_MS"
    using r unfolding read_result_def Let_def q1 by auto
  have split: "region dst count = region dst g \<union> region (dst + of_nat g) (count - g)" using g region_split [of dst g "count - g"] by simp
  have apart: "region dst g \<inter> region (dst + of_nat g) (count - g) = {}" by (rule region_tail) (use c g in simp)
  have lg: "length (take count ?q) = g" using g by (simp add: min.commute)
  have "holds (put_bytes (ram (snd x)) dst (take count ?q)) dst (take count ?q)" by (rule put_holds) (use queue_small [of "serial (fst x)"] in simp)
  then have h: "holds (ram (snd x')) dst (take count ?q)"
  proof (rule holds_same)
    fix a assume "a \<in> region dst (length (take count ?q))"
    then have a: "a \<in> region dst g" by (simp only: lg)
    then have "a \<in> A - region (dst + of_nat g) (count - g)" using A split apart by auto
    then show "ram (snd x') a = put_bytes (ram (snd x)) dst (take count ?q) a" using r'(5) m1 by simp
  qed
  have t: "take (g + m) (?q @ as @ bs) = take count ?q @ take m (drop count ?q @ as @ bs)" and d: "drop (g + m) (?q @ as @ bs) = drop m (drop count ?q @ as @ bs)"
    using g r'(1) by (auto simp: min_def take_add)
  have h2: "holds (ram (snd x')) dst (take (g + m) (?q @ as @ bs))" unfolding t holds_append lg using h r'(3) by simp
  have out: "ram (snd x') a = ram (snd x) a" if "a \<in> A - region dst count" for a
  proof -
    have "a \<notin> region dst (length (take count ?q))" using that split unfolding lg by blast
    then show ?thesis using that r'(5) m1 [of a] split by (simp add: put_outside)
  qed
  have "length (?q @ as @ bs) = g + length (drop count ?q @ as @ bs)" using g by simp
  then show ?thesis unfolding read_result_def Let_def append_assoc [symmetric]
    using h2 d out r'(1,2,4,6) g by auto
qed

lemma read_loop_result:
  assumes env: "serial_env pause A" and late: "now (Suc n) - now 0 > K_MIO_SERIAL_TIMEOUT_MS"
  shows "k \<le> n \<Longrightarrow> region dst count \<subseteq> A \<Longrightarrow> count \<le> 2 ^ 32 \<Longrightarrow>
    \<exists>m x' as. serial_read_loop now pause k dst count did x = Some (did + m, x') \<and> read_result now A dst count x m x' as"
proof (induction "n - k" arbitrary: k dst count did x rule: less_induct)
  case less
  let ?q = "serial_queue (serial (fst x))"
  let ?g = "min count (length ?q)"
  show ?case
  proof (cases "count = 0")
    case True
    then show ?thesis by (intro exI [of _ 0] exI [of _ x] exI [of _ "[]"]) (subst serial_read_loop.simps, simp add: read_result_def)
  next
    case False
    note step = read_loop_step [of count ?g x now pause k dst did]
    show ?thesis
    proof (cases "now (Suc k) - now 0 > K_MIO_SERIAL_TIMEOUT_MS")
      case True
      have "read_result now A (dst + of_nat ?g) (count - ?g) (drained count dst x) 0 (drained count dst x) []"
        using True by (auto simp: read_result_def)
      from read_result_append [OF refl less.prems(2,3) _ _ this, of "[]"]
      have "read_result now A dst count x ?g (drained count dst x) []" by simp
      moreover have "serial_read_loop now pause k dst count did x = Some (did + ?g, drained count dst x)" using step True False by simp
      ultimately show ?thesis by blast
    next
      case n: False
      then have k: "k < n" using late less.prems(1) by (cases "k = n") auto
      let ?x1 = "pause k (drained count dst x)"
      obtain as where as: "serial_queue (serial (fst ?x1)) = serial_queue (serial (fst (drained count dst x))) @ as"
        "\<forall>a \<in> A. ram (snd ?x1) a = ram (snd (drained count dst x)) a" using env unfolding serial_env_def by blast
      have sub: "region (dst + of_nat ?g) (count - ?g) \<subseteq> A" using region_split [of dst ?g "count - ?g"] less.prems(2) by auto
      obtain m x' bs where m: "serial_read_loop now pause (Suc k) (dst + of_nat ?g) (count - ?g) (did + ?g) ?x1 = Some (did + ?g + m, x')"
        "read_result now A (dst + of_nat ?g) (count - ?g) ?x1 m x' bs"
      proof -
        have "n - Suc k < n - k" "Suc k \<le> n" "count - ?g \<le> 2 ^ 32" using k less.prems(3) by auto
        from less.hyps [OF this(1,2) sub this(3), of "did + ?g" ?x1] show ?thesis using that by blast
      qed
      have "serial_read_loop now pause k dst count did x = Some (did + (?g + m), x')" using step False n m(1) by (simp add: add.assoc)
      with read_result_append [OF refl less.prems(2,3) as m(2)] show ?thesis by blast
    qed
  qed
qed



end
